(* ===== verification/Prelude.thy ===== *)
theory Prelude
  imports Main "HOL-Library.Word" "HOL-Library.Signed_Division"
begin

text \<open>
  The vocabulary every component of the model shares.

  \<^item> Machine integers. Bytes, checksums and bit fields are words (\<open>u8\<close>, \<open>u16\<close>, \<open>u32\<close>), whose
    arithmetic wraps as the release build of the firmware does. The signed quantities of the
    control code are mathematical integers; the functions \<open>as_i16\<close> and \<open>as_i32\<close> are Rust's
    narrowing \<open>as\<close> casts (and therefore its wrapping operators), written at every place the source
    narrows. Rust's \<open>/\<close> on signed integers truncates toward zero: it is \<open>sdiv\<close> of the library.
  \<^item> Byte slices. \<open>get_range\<close> is \<open>slice.get(a..b)\<close>, which answers \<open>None\<close> out of range, and
    \<open>overwrite\<close> is \<open>slice[off..off + n].copy_from_slice(..)\<close>.
  \<^item> Little-endian codecs for 16 and 32 bit words, with their round trips.
\<close>

unbundle bit_operations_syntax

named_theorems codec_simps
named_theorems walk_simps

type_synonym u8 = "8 word"
type_synonym u16 = "16 word"
type_synonym u32 = "32 word"
type_synonym bytes = "u8 list"

text \<open>A \<open>Result\<close> without a payload is Ok or names its error.\<close>

lemma unit_result: "\<forall>e. r \<noteq> Inl e \<Longrightarrow> r = Inr ()" "r \<noteq> Inr () \<Longrightarrow> \<exists>e. r = Inl e"
  by (cases r; auto)+

section \<open>Narrowing casts of signed integers\<close>

definition as_i16 :: "int \<Rightarrow> int" where
  "as_i16 x = signed_take_bit 15 x"

definition as_i32 :: "int \<Rightarrow> int" where
  "as_i32 x = signed_take_bit 31 x"

lemma as_i16_id [simp]: "- 32768 \<le> x \<Longrightarrow> x \<le> 32767 \<Longrightarrow> as_i16 x = x"
  by (simp add: as_i16_def signed_take_bit_int_eq_self)

lemma as_i32_id [simp]: "- 2147483648 \<le> x \<Longrightarrow> x \<le> 2147483647 \<Longrightarrow> as_i32 x = x"
  by (simp add: as_i32_def signed_take_bit_int_eq_self)

lemma as_i16_bounds: "- 32768 \<le> as_i16 x" "as_i16 x \<le> 32767"
  using signed_take_bit_int_greater_eq_minus_exp [of 15 x]
    signed_take_bit_int_less_exp [of 15 x]
  by (simp_all add: as_i16_def)

lemma as_i32_bounds: "- 2147483648 \<le> as_i32 x" "as_i32 x \<le> 2147483647"
  using signed_take_bit_int_greater_eq_minus_exp [of 31 x]
    signed_take_bit_int_less_exp [of 31 x]
  by (simp_all add: as_i32_def)

lemma sdiv_abs_le: "\<bar>a sdiv b\<bar> \<le> \<bar>a :: int\<bar>"
proof -
  have "0 \<le> \<bar>a\<bar> div \<bar>b\<bar>"
    by (cases "b = 0") (simp_all add: pos_imp_zdiv_nonneg_iff)
  then have "\<bar>a sdiv b\<bar> \<le> \<bar>a\<bar> div \<bar>b\<bar>"
    by (simp add: signed_divide_int_def abs_mult abs_sgn_eq)
  also have "\<dots> \<le> \<bar>a\<bar>"
  proof (cases "b = 0")
    case False
    then have "\<bar>a\<bar> div \<bar>b\<bar> \<le> \<bar>a\<bar> div 1" by (intro zdiv_mono2) auto
    then show ?thesis by simp
  qed simp
  finally show ?thesis .
qed

section \<open>Slices\<close>

definition get_range :: "'a list \<Rightarrow> nat \<Rightarrow> nat \<Rightarrow> 'a list option" where
  "get_range xs a b = (if a \<le> b \<and> b \<le> length xs then Some (take (b - a) (drop a xs)) else None)"

definition overwrite :: "'a list \<Rightarrow> nat \<Rightarrow> 'a list \<Rightarrow> 'a list" where
  "overwrite xs off ys = take off xs @ ys @ drop (off + length ys) xs"

lemma length_overwrite [simp]:
  "off + length ys \<le> length xs \<Longrightarrow> length (overwrite xs off ys) = length xs"
  by (simp add: overwrite_def)

lemma get_range_Some_iff:
  "get_range xs a b = Some ys \<longleftrightarrow> a \<le> b \<and> b \<le> length xs \<and> ys = take (b - a) (drop a xs)"
  by (auto simp: get_range_def)

lemma get_range_length: "get_range xs a b = Some ys \<Longrightarrow> length ys = b - a"
  by (auto simp: get_range_Some_iff)

lemma get_range_cong_prefix:
  assumes "take n xs = take n ys" "b \<le> n" "n \<le> length xs" "n \<le> length ys"
  shows "get_range xs a b = get_range ys a b"
proof -
  have *: "take (b - a) (drop a zs) = drop a (take b (take n zs))" for zs :: "'a list"
    using assms(2) by (simp add: drop_take min_absorb1)
  show ?thesis
    using assms by (auto simp: get_range_def *)
qed

lemma get_range_overwrite_before:
  assumes "b \<le> off" "off + length ys \<le> length xs"
  shows "get_range (overwrite xs off ys) a b = get_range xs a b"
  using assms by (auto simp: get_range_def overwrite_def drop_take min_absorb1 min_def)

lemma get_range_overwrite_after:
  assumes "off + length ys \<le> a" "off + length ys \<le> length xs"
  shows "get_range (overwrite xs off ys) a b = get_range xs a b"
  using assms by (auto simp: get_range_def overwrite_def)

lemma get_range_overwrite_inside:
  assumes "off + length ys \<le> length xs" "off \<le> a" "a \<le> b" "b \<le> off + length ys"
  shows "get_range (overwrite xs off ys) a b = Some (take (b - a) (drop (a - off) ys))"
  using assms by (simp add: get_range_def overwrite_def)

section \<open>Little-endian words\<close>

definition le16 :: "u16 \<Rightarrow> bytes" where
  "le16 w = [ucast w, ucast (drop_bit 8 w)]"

definition rd16 :: "u8 \<Rightarrow> u8 \<Rightarrow> u16" where
  "rd16 lo hi = ucast lo OR push_bit 8 (ucast hi)"

definition le32 :: "u32 \<Rightarrow> bytes" where
  "le32 w = [ucast w, ucast (drop_bit 8 w), ucast (drop_bit 16 w), ucast (drop_bit 24 w)]"

definition rd32 :: "u8 \<Rightarrow> u8 \<Rightarrow> u8 \<Rightarrow> u8 \<Rightarrow> u32" where
  "rd32 a b c d = ucast a OR push_bit 8 (ucast b) OR push_bit 16 (ucast c) OR push_bit 24 (ucast d)"

lemma length_le16 [simp]: "length (le16 w) = 2"
  by (simp add: le16_def)

lemma length_le32 [simp]: "length (le32 w) = 4"
  by (simp add: le32_def)

lemma le16_nth [simp]: "le16 w ! 0 = ucast w" "le16 w ! Suc 0 = ucast (drop_bit 8 w)"
  by (simp_all add: le16_def)

lemma rd16_le16 [codec_simps, simp]: "rd16 (ucast w) (ucast (drop_bit 8 w)) = w"
  unfolding rd16_def
  by (rule bit_word_eqI) (auto simp: bit_simps)

lemma le16_rd16 [codec_simps, simp]: "le16 (rd16 lo hi) = [lo, hi]"
proof -
  have "ucast (rd16 lo hi) = lo"
    unfolding rd16_def by (rule bit_word_eqI) (auto simp: bit_simps)
  moreover have "ucast (drop_bit 8 (rd16 lo hi)) = hi"
    unfolding rd16_def by (rule bit_word_eqI) (auto simp: bit_simps dest: bit_imp_le_length)
  ultimately show ?thesis by (simp add: le16_def)
qed

lemma rd32_le32 [codec_simps, simp]:
  "rd32 (ucast w) (ucast (drop_bit 8 w)) (ucast (drop_bit 16 w)) (ucast (drop_bit 24 w)) = w"
proof (rule bit_word_eqI)
  fix n assume n: "n < LENGTH(32)"
  show "bit (rd32 (ucast w) (ucast (drop_bit 8 w)) (ucast (drop_bit 16 w))
      (ucast (drop_bit 24 w))) n = bit w n"
    using n unfolding rd32_def
    by (cases "n < 16"; cases "n < 24") (auto simp: bit_simps not_less)
qed

lemma le16_inject [simp]: "le16 a = le16 b \<longleftrightarrow> a = b"
  by (metis le16_def list.inject rd16_le16)

section \<open>Bounded vectors\<close>

text \<open>
  \<open>heapless::Vec\<close> with capacity \<open>cap\<close>: \<open>push\<close> and \<open>extend_from_slice\<close> fail when the bytes do not fit and
  then change nothing; \<open>push_quiet\<close> and \<open>extend_quiet\<close> are the calls whose failure the source discards.
\<close>

definition extend_from_slice :: "nat \<Rightarrow> 'a list \<Rightarrow> 'a list \<Rightarrow> 'a list option" where
  "extend_from_slice cap v bs = (if length v + length bs \<le> cap then Some (v @ bs) else None)"

definition push_quiet :: "nat \<Rightarrow> 'a list \<Rightarrow> 'a \<Rightarrow> 'a list" where
  "push_quiet cap v x = (if length v < cap then v @ [x] else v)"

definition extend_quiet :: "nat \<Rightarrow> 'a list \<Rightarrow> 'a list \<Rightarrow> 'a list" where
  "extend_quiet cap v xs = (case extend_from_slice cap v xs of None \<Rightarrow> v | Some v' \<Rightarrow> v')"

lemma length_push_quiet: "length v \<le> cap \<Longrightarrow> length (push_quiet cap v x) \<le> cap"
  by (simp add: push_quiet_def)

lemma extend_quiet_fits [simp]: "length v + length xs \<le> cap \<Longrightarrow> extend_quiet cap v xs = v @ xs"
  by (simp add: extend_quiet_def extend_from_slice_def)

lemma length_extend_quiet: "length v \<le> cap \<Longrightarrow> length (extend_quiet cap v xs) \<le> cap"
  by (simp add: extend_quiet_def extend_from_slice_def)

end
