(* ===== verification/Flash.thy ===== *)
theory Flash
  imports Prelude
begin

text \<open>
  The store's flash seam (\<open>shared/store/src/flash.rs\<close>): the four operations of the \<open>Flash\<close> trait as
  a record the store's operations take as an argument, the contract they are used under as the
  locales \<open>flash_backend\<close> (what a finished or failed call may have changed) and
  \<open>reliable_flash\<close> (when a call must succeed), and the two host backends of the source as
  instances: \<open>MockFlash\<close>, which has the silicon's write rules, and \<open>FailingMockFlash\<close>, which fails
  from a chosen program call on.

  \<open>flash_backend\<close> does not promise that a failed call left the region alone: it may have changed any
  byte of the span it was given, which is what a power cut or a refused halfword does.
\<close>

datatype flash_error = OutOfBounds | ProgramFailed | EraseFailed | Misaligned | Locked

record 'f flash_ops =
  page_size :: "'f \<Rightarrow> nat"
  as_bytes :: "'f \<Rightarrow> bytes"
  erase_page :: "'f \<Rightarrow> nat \<Rightarrow> 'f \<times> (flash_error + unit)"
  program :: "'f \<Rightarrow> nat \<Rightarrow> bytes \<Rightarrow> 'f \<times> (flash_error + unit)"

section \<open>The region outside a span\<close>

definition same_outside :: "bytes \<Rightarrow> bytes \<Rightarrow> nat \<Rightarrow> nat \<Rightarrow> bool" where
  "same_outside r r' a b \<longleftrightarrow>
     length r' = length r \<and> (\<forall>i < length r. i < a \<or> b \<le> i \<longrightarrow> r' ! i = r ! i)"

lemma same_outside_refl [simp]: "same_outside r r a b"
  by (simp add: same_outside_def)

lemma same_outside_trans:
  "same_outside r r' a b \<Longrightarrow> same_outside r' r'' a b \<Longrightarrow> same_outside r r'' a b"
  by (simp add: same_outside_def)

lemma same_outside_mono:
  "same_outside r r' a b \<Longrightarrow> a' \<le> a \<Longrightarrow> b \<le> b' \<Longrightarrow> same_outside r r' a' b'"
  by (auto simp: same_outside_def)

lemma same_outside_length: "same_outside r r' a b \<Longrightarrow> length r' = length r"
  by (simp add: same_outside_def)

lemma nth_overwrite:
  assumes "off + length ys \<le> length xs" "i < length xs"
  shows "overwrite xs off ys ! i = (if off \<le> i \<and> i < off + length ys then ys ! (i - off) else xs ! i)"
  using assms by (auto simp: overwrite_def nth_append min_def)

lemma same_outside_overwrite:
  "off + length ys \<le> length r \<Longrightarrow> same_outside r (overwrite r off ys) off (off + length ys)"
  by (auto simp: same_outside_def nth_overwrite)

lemma get_range_same_outside:
  assumes "same_outside r r' a b" "q \<le> a \<or> b \<le> p"
  shows "get_range r' p q = get_range r p q"
proof (cases "p \<le> q \<and> q \<le> length r")
  case True
  have "take (q - p) (drop p r') = take (q - p) (drop p r)"
    using assms True by (intro nth_equalityI) (auto simp: same_outside_def)
  then show ?thesis using assms(1) by (simp add: get_range_def same_outside_def)
next
  case False
  then show ?thesis using assms(1) by (auto simp: get_range_def same_outside_def)
qed

section \<open>The contract\<close>

locale flash_backend =
  fixes F :: "'f flash_ops" and ok :: "'f \<Rightarrow> bool"
  assumes region_length: "ok fl \<Longrightarrow> length (as_bytes F fl) = 2 * page_size F fl"
    and program_Ok:
      "ok fl \<Longrightarrow> program F fl off bs = (fl', Inr u) \<Longrightarrow>
        off + length bs \<le> length (as_bytes F fl) \<and> as_bytes F fl' = overwrite (as_bytes F fl) off bs"
    and program_Err:
      "ok fl \<Longrightarrow> program F fl off bs = (fl', Inl e) \<Longrightarrow>
        same_outside (as_bytes F fl) (as_bytes F fl') off (off + length bs)"
    and program_keeps: "ok fl \<Longrightarrow> program F fl off bs = (fl', x) \<Longrightarrow> ok fl' \<and> page_size F fl' = page_size F fl"
    and erase_Ok:
      "ok fl \<Longrightarrow> erase_page F fl p = (fl', Inr u) \<Longrightarrow>
        p < 2 \<and>
        as_bytes F fl' = overwrite (as_bytes F fl) (p * page_size F fl) (replicate (page_size F fl) 0xFF)"
    and erase_Err:
      "ok fl \<Longrightarrow> erase_page F fl p = (fl', Inl e) \<Longrightarrow>
        same_outside (as_bytes F fl) (as_bytes F fl') (p * page_size F fl) (p * page_size F fl + page_size F fl)"
    and erase_keeps: "ok fl \<Longrightarrow> erase_page F fl p = (fl', x) \<Longrightarrow> ok fl' \<and> page_size F fl' = page_size F fl"
begin

lemma program_same_outside:
  assumes "ok fl" "program F fl off bs = (fl', x)"
  shows "same_outside (as_bytes F fl) (as_bytes F fl') off (off + length bs)"
proof (cases x)
  case (Inl e)
  then show ?thesis using assms program_Err by blast
next
  case (Inr u)
  then show ?thesis using assms program_Ok [of fl off bs fl' u] by (simp add: same_outside_overwrite)
qed

lemma erase_same_outside:
  assumes "ok fl" "erase_page F fl p = (fl', x)"
  shows "same_outside (as_bytes F fl) (as_bytes F fl') (p * page_size F fl) (p * page_size F fl + page_size F fl)"
proof (cases x)
  case (Inl e)
  then show ?thesis using assms erase_Err by blast
next
  case (Inr u)
  have p: "p < 2" "as_bytes F fl' =
      overwrite (as_bytes F fl) (p * page_size F fl) (replicate (page_size F fl) 0xFF)"
    using assms Inr erase_Ok by blast+
  have "p * page_size F fl + page_size F fl \<le> length (as_bytes F fl)"
    using p(1) region_length [OF assms(1)] by (cases p) auto
  then show ?thesis
    using p(2) same_outside_overwrite [of "p * page_size F fl" "replicate (page_size F fl) 0xFF" "as_bytes F fl"]
    by (simp add: add.commute)
qed

end

text \<open>
  When a call must succeed: an erase of either page always, a program when its span is aligned, not
  empty, in range and still erased, and the halfword above it is still erased too if the span ends on
  a word boundary inside its page (the closed-halfword rule of the silicon).
\<close>

definition blank_span :: "bytes \<Rightarrow> nat \<Rightarrow> nat \<Rightarrow> bool" where
  "blank_span r a b \<longleftrightarrow> (\<forall>i < length r. a \<le> i \<and> i < b \<longrightarrow> r ! i = 0xFF)"

definition programmable :: "nat \<Rightarrow> bytes \<Rightarrow> nat \<Rightarrow> nat \<Rightarrow> bool" where
  "programmable ps r off n \<longleftrightarrow>
     even off \<and> even n \<and> 0 < n \<and> off + n \<le> length r \<and> blank_span r off (off + n) \<and>
     (4 dvd off + n \<and> (off + n) mod ps \<noteq> 0 \<longrightarrow> blank_span r (off + n) (off + n + 2))"

locale reliable_flash = flash_backend F ok for F :: "'f flash_ops" and ok :: "'f \<Rightarrow> bool" +
  assumes page_even: "ok fl \<Longrightarrow> 4 dvd page_size F fl"
    and program_succeeds:
      "ok fl \<Longrightarrow> programmable (page_size F fl) (as_bytes F fl) off (length bs) \<Longrightarrow>
        snd (program F fl off bs) = Inr ()"
    and erase_succeeds: "ok fl \<Longrightarrow> p < 2 \<Longrightarrow> snd (erase_page F fl p) = Inr ()"

section \<open>MockFlash\<close>

record mock_flash =
  mock_page_size :: nat
  mock_data :: bytes

definition mock_erased :: "nat \<Rightarrow> mock_flash" where
  "mock_erased ps = \<lparr>mock_page_size = ps, mock_data = replicate (2 * ps) 0xFF\<rparr>"

definition mock_from_image :: "nat \<Rightarrow> bytes \<Rightarrow> mock_flash option" where
  "mock_from_image ps img =
     (if length img = 2 * ps then Some \<lparr>mock_page_size = ps, mock_data = img\<rparr> else None)"

definition mock_erase_page :: "mock_flash \<Rightarrow> nat \<Rightarrow> mock_flash \<times> (flash_error + unit)" where
  "mock_erase_page m page =
     (let start = page * mock_page_size m; end' = start + mock_page_size m
      in if end' > length (mock_data m) then (m, Inl OutOfBounds)
         else (m\<lparr>mock_data := overwrite (mock_data m) start (replicate (mock_page_size m) 0xFF)\<rparr>, Inr ()))"

definition mock_program :: "mock_flash \<Rightarrow> nat \<Rightarrow> bytes \<Rightarrow> mock_flash \<times> (flash_error + unit)" where
  "mock_program m off bs =
     (if odd off \<or> odd (length bs) then (m, Inl Misaligned)
      else let end' = off + length bs in
        if end' > length (mock_data m) then (m, Inl OutOfBounds)
        else if \<not> list_all (\<lambda>b. b = 0xFF) (take (length bs) (drop off (mock_data m)))
          then (m, Inl ProgramFailed)
        else let final = end' - 2; succ = final + 2 in
          if final mod 4 = 2 \<and> succ div mock_page_size m = final div mock_page_size m \<and>
             succ < length (mock_data m) \<and>
             (mock_data m ! succ \<noteq> 0xFF \<or> mock_data m ! (succ + 1) \<noteq> 0xFF)
            then (m, Inl ProgramFailed)
          else (m\<lparr>mock_data := overwrite (mock_data m) off bs\<rparr>, Inr ()))"

definition MockFlash :: "mock_flash flash_ops" where
  "MockFlash = \<lparr>page_size = mock_page_size, as_bytes = mock_data,
                erase_page = mock_erase_page, program = mock_program\<rparr>"

definition mock_ok :: "mock_flash \<Rightarrow> bool" where
  "mock_ok m \<longleftrightarrow> length (mock_data m) = 2 * mock_page_size m \<and>
     0 < mock_page_size m \<and> 4 dvd mock_page_size m"

lemmas MockFlash_simps [simp] =
  MockFlash_def [THEN arg_cong [where f = page_size], simplified]
  MockFlash_def [THEN arg_cong [where f = as_bytes], simplified]
  MockFlash_def [THEN arg_cong [where f = erase_page], simplified]
  MockFlash_def [THEN arg_cong [where f = program], simplified]

lemma mock_erased_ok: "0 < ps \<Longrightarrow> 4 dvd ps \<Longrightarrow> mock_ok (mock_erased ps)"
  by (simp add: mock_ok_def mock_erased_def)

lemma mock_program_cases:
  "mock_program m off bs = (m', x) \<Longrightarrow>
     (\<exists>e. x = Inl e \<and> m' = m) \<or>
     (x = Inr () \<and> off + length bs \<le> length (mock_data m) \<and>
      m' = m\<lparr>mock_data := overwrite (mock_data m) off bs\<rparr>)"
  by (auto simp: mock_program_def Let_def split: if_splits)

lemma mock_erase_cases:
  "mock_erase_page m p = (m', x) \<Longrightarrow>
     (\<exists>e. x = Inl e \<and> m' = m) \<or>
     (x = Inr () \<and> p * mock_page_size m + mock_page_size m \<le> length (mock_data m) \<and>
      m' = m\<lparr>mock_data := overwrite (mock_data m) (p * mock_page_size m)
                (replicate (mock_page_size m) 0xFF)\<rparr>)"
  by (auto simp: mock_erase_page_def Let_def split: if_splits)

lemma blank_span_list_all:
  assumes "off + n \<le> length r"
  shows "blank_span r off (off + n) \<longleftrightarrow> list_all (\<lambda>b. b = 0xFF) (take n (drop off r))"
proof -
  have "(\<forall>i < length r. off \<le> i \<and> i < off + n \<longrightarrow> r ! i = 0xFF) \<longleftrightarrow> (\<forall>k < n. r ! (off + k) = 0xFF)"
    (is "?L \<longleftrightarrow> ?R")
  proof
    assume R: ?R
    have "r ! i = 0xFF" if "off \<le> i \<and> i < off + n" for i
      using R [rule_format, of "i - off"] that by auto
    then show ?L by blast
  qed (use assms in auto)
  then show ?thesis using assms by (simp add: blank_span_def list_all_length)
qed

lemma div_minus2_eq_mod:
  assumes "even ps" "even e" "2 \<le> e" "e div ps = (e - 2) div (ps :: nat)" "0 < ps"
  shows "e mod ps \<noteq> 0"
proof
  assume "e mod ps = 0"
  then obtain k where k: "e = ps * k" by auto
  then have "e - 2 < k * ps" using assms by (simp add: mult.commute)
  then have "(e - 2) div ps < k" by (rule less_mult_imp_div_less)
  then show False using assms k by simp
qed

lemma mock_program_succeeds:
  assumes ok: "mock_ok m" and p: "programmable (mock_page_size m) (mock_data m) off (length bs)"
  shows "snd (mock_program m off bs) = Inr ()"
proof -
  have even_ps: "even (mock_page_size m)" "even (length (mock_data m))"
    using ok by (auto simp: mock_ok_def)
  define e where "e = off + length bs"
  have e: "even e" "0 < e" "e \<le> length (mock_data m)"
    using p by (auto simp: programmable_def e_def)
  then have "2 \<le> e" by (cases "e = 1") auto
  note e = this e
  have "mock_data m ! e = 0xFF \<and> mock_data m ! (e + 1) = 0xFF"
    if "(e - 2) mod 4 = 2" "e div mock_page_size m = (e - 2) div mock_page_size m" "e < length (mock_data m)"
  proof -
    have "4 dvd e - 2 + 2"
      using that(1) mod_add_left_eq [of "e - 2" 4 2] by (simp only: dvd_eq_mod_eq_0) simp
    also have "e - 2 + 2 = e" using e(1) by (rule le_add_diff_inverse2)
    finally have "4 dvd e" .
    moreover have "e mod mock_page_size m \<noteq> 0"
      using div_minus2_eq_mod [OF even_ps(1) e(2,1) that(2)] ok by (simp add: mock_ok_def)
    ultimately have "blank_span (mock_data m) e (e + 2)"
      using p by (auto simp: programmable_def e_def)
    moreover have "e + 1 < length (mock_data m)"
      using that(3) e(2) even_ps(2) by (metis Suc_eq_plus1 Suc_lessI even_Suc)
    ultimately show ?thesis by (simp add: blank_span_def)
  qed
  moreover have "off + length bs \<le> length (mock_data m)" "even off" "even (length bs)"
    "list_all (\<lambda>b. b = 0xFF) (take (length bs) (drop off (mock_data m)))"
    using p by (auto simp: programmable_def blank_span_list_all)
  moreover have "off + length bs - 2 + 2 = e" "off + length bs - 2 = e - 2"
    using e(1) by (simp_all add: e_def)
  ultimately show ?thesis
    by (auto simp add: mock_program_def Let_def simp del: add_2_eq_Suc')
qed

lemma mock_erase_in_range:
  "mock_ok m \<Longrightarrow> p * mock_page_size m + mock_page_size m \<le> length (mock_data m) \<longleftrightarrow> p < 2"
proof -
  assume ok: "mock_ok m"
  have "Suc p * mock_page_size m \<le> 2 * mock_page_size m \<longleftrightarrow> Suc p \<le> 2"
    using ok by (subst mult_le_cancel2) (auto simp: mock_ok_def)
  then show ?thesis using ok by (auto simp: mock_ok_def add.commute)
qed

interpretation mock: reliable_flash MockFlash mock_ok
proof unfold_locales
  fix m p assume "mock_ok m" "p < (2 :: nat)"
  then show "snd (erase_page MockFlash m p) = Inr ()"
    using mock_erase_in_range [of m p] by (simp add: mock_erase_page_def Let_def)
qed (auto simp: mock_ok_def mock_program_succeeds [unfolded mock_ok_def]
       dest!: mock_program_cases mock_erase_cases
       simp: mock_erase_in_range [unfolded mock_ok_def])

section \<open>FailingMockFlash\<close>

record failing_mock_flash =
  inner :: mock_flash
  fail_program_at :: "nat option"
  program_calls :: nat

definition failing_new :: "mock_flash \<Rightarrow> nat \<Rightarrow> failing_mock_flash" where
  "failing_new m n = \<lparr>inner = m, fail_program_at = Some n, program_calls = 0\<rparr>"

definition failing_erase_page :: "failing_mock_flash \<Rightarrow> nat \<Rightarrow> failing_mock_flash \<times> (flash_error + unit)" where
  "failing_erase_page f page =
     (case mock_erase_page (inner f) page of (m, x) \<Rightarrow> (f\<lparr>inner := m\<rparr>, x))"

definition failing_program ::
  "failing_mock_flash \<Rightarrow> nat \<Rightarrow> bytes \<Rightarrow> failing_mock_flash \<times> (flash_error + unit)" where
  "failing_program f off bs =
     (let n = program_calls f; f = f\<lparr>program_calls := n + 1\<rparr>
      in if (case fail_program_at f of None \<Rightarrow> False | Some k \<Rightarrow> k \<le> n) then (f, Inl ProgramFailed)
         else case mock_program (inner f) off bs of (m, x) \<Rightarrow> (f\<lparr>inner := m\<rparr>, x))"

definition FailingMockFlash :: "failing_mock_flash flash_ops" where
  "FailingMockFlash =
     \<lparr>page_size = (\<lambda>f. mock_page_size (inner f)), as_bytes = (\<lambda>f. mock_data (inner f)),
      erase_page = failing_erase_page, program = failing_program\<rparr>"

interpretation failing: flash_backend FailingMockFlash "\<lambda>f. mock_ok (inner f)"
  by unfold_locales
    (auto simp: FailingMockFlash_def failing_program_def failing_erase_page_def mock_ok_def Let_def
       mock_erase_in_range [unfolded mock_ok_def]
       dest!: mock_program_cases mock_erase_cases split: prod.splits if_splits option.splits)

end
