(* ===== verification/Crc16.thy ===== *)
theory Crc16
  imports Prelude
begin

text \<open>
  CRC-16/MODBUS, the one checksum of the firmware (\<open>shared/base/src/crc16.rs\<close>). The store's
  records and the stream frames of the link both carry it.

  The code runs a 16-entry nibble table; the reference here is the bitwise shift-and-xor form. The
  lemmas show that the two agree, that one step is a bijection of the remainder, and from that what
  the checksum detects: any change confined to two consecutive bytes of a message.
\<close>

definition POLY :: u16 where
  "POLY = 0xA001"

definition nibble_step :: "u16 \<Rightarrow> u16" where
  "nibble_step v = (if v AND 1 \<noteq> 0 then drop_bit 1 v XOR POLY else drop_bit 1 v)"

definition NIBBLE :: "u16 list" where
  "NIBBLE = map (\<lambda>i. (nibble_step ^^ 4) (of_nat i)) [0..<16]"

definition feed :: "u16 \<Rightarrow> u8 \<Rightarrow> u16" where
  "feed crc0 byte =
     (let crc = drop_bit 4 crc0 XOR NIBBLE ! unat ((crc0 XOR ucast byte) AND 0x0F)
      in drop_bit 4 crc XOR NIBBLE ! unat ((crc XOR drop_bit 4 (ucast byte)) AND 0x0F))"

primrec fold_bytes :: "u16 \<Rightarrow> bytes \<Rightarrow> u16" where
  "fold_bytes crc [] = crc"
| "fold_bytes crc (b # bs) = fold_bytes (feed crc b) bs"

definition INIT :: u16 where
  "INIT = 0xFFFF"

definition modbus :: "bytes \<Rightarrow> u16" where
  "modbus bs = fold_bytes INIT bs"

text \<open>The incremental accumulator \<open>Crc16\<close>.\<close>

record crc16_acc =
  acc_crc :: u16

definition crc16_new :: crc16_acc where
  "crc16_new = \<lparr>acc_crc = INIT\<rparr>"

definition crc16_update :: "crc16_acc \<Rightarrow> bytes \<Rightarrow> crc16_acc" where
  "crc16_update c bs = c\<lparr>acc_crc := fold_bytes (acc_crc c) bs\<rparr>"

definition crc16_finish :: "crc16_acc \<Rightarrow> u16" where
  "crc16_finish c = acc_crc c"

section \<open>The bitwise reference\<close>

definition bit_feed :: "u16 \<Rightarrow> u8 \<Rightarrow> u16" where
  "bit_feed crc byte = (nibble_step ^^ 8) (crc XOR ucast byte)"

lemma nibble_step_bit:
  "bit (nibble_step v) n \<longleftrightarrow> (bit v (Suc n) \<noteq> (bit v 0 \<and> bit POLY n))"
  by (auto simp: nibble_step_def bit_simps and_one_eq odd_iff_mod_2_eq_one bit_0)

lemma nibble_step_xor: "nibble_step (a XOR b) = nibble_step a XOR nibble_step b"
  by (rule bit_word_eqI) (auto simp: nibble_step_bit bit_simps)

lemma nibble_steps_xor:
  "(nibble_step ^^ n) (a XOR b) = (nibble_step ^^ n) a XOR (nibble_step ^^ n) b"
  by (induction n) (simp_all add: nibble_step_xor)

lemma nibble_step_even: "\<not> bit v 0 \<Longrightarrow> nibble_step v = drop_bit 1 v"
  by (rule bit_word_eqI) (auto simp: nibble_step_bit bit_simps)

lemma nibble_steps_low_clear:
  "\<forall>k<n. \<not> bit v k \<Longrightarrow> (nibble_step ^^ n) v = drop_bit n v"
proof (induction n arbitrary: v)
  case (Suc n)
  have "nibble_step v = drop_bit 1 v" using Suc.prems by (intro nibble_step_even) simp
  moreover have "\<forall>k<n. \<not> bit (drop_bit 1 v) k" using Suc.prems by (auto simp: bit_simps)
  ultimately show ?case
    using Suc.IH [of "drop_bit 1 v"] by (simp add: funpow_swap1)
qed simp

lemma nibble_steps_split:
  "(nibble_step ^^ 4) v = drop_bit 4 v XOR (nibble_step ^^ 4) (v AND 0x0F)"
proof -
  have m: "(0x0F :: u16) = mask 4" by (simp add: mask_eq_exp_minus_1)
  have v: "v = (v AND NOT 0x0F) XOR (v AND 0x0F)"
    by (rule bit_word_eqI) (auto simp: bit_simps)
  have "\<forall>k<4. \<not> bit (v AND NOT 0x0F) k" unfolding m by (auto simp: bit_simps)
  then have "(nibble_step ^^ 4) (v AND NOT 0x0F) = drop_bit 4 (v AND NOT 0x0F)"
    by (rule nibble_steps_low_clear)
  also have "\<dots> = drop_bit 4 v"
    unfolding m by (rule bit_word_eqI) (auto simp: bit_simps dest: bit_imp_le_length)
  finally show ?thesis using v nibble_steps_xor [of 4 "v AND NOT 0x0F" "v AND 0x0F"] by simp
qed

lemma NIBBLE_nth: "NIBBLE ! unat (v AND 0x0F) = (nibble_step ^^ 4) (v AND 0x0F)"
proof -
  have "unat (v AND 0x0F) \<le> unat (0x0F :: u16)"
    by (rule word_and_le1 [THEN word_le_nat_alt [THEN iffD1]])
  then have "unat (v AND 0x0F) < 16" by simp
  then show ?thesis by (simp add: NIBBLE_def del: upt_rec_numeral)
qed

lemma nibble_steps_add:
  "(nibble_step ^^ (m + n)) v = (nibble_step ^^ m) ((nibble_step ^^ n) v)"
  by (simp add: funpow_add)

lemma feed_eq_bit_feed: "feed crc byte = bit_feed crc byte"
proof -
  define b :: u16 where "b = ucast byte"
  have hi: "drop_bit 8 b = 0"
    unfolding b_def by (rule bit_word_eqI) (auto simp: bit_simps dest: bit_imp_le_length)
  have four: "(nibble_step ^^ 4) v = drop_bit 4 v XOR NIBBLE ! unat (v AND 0x0F)" for v
    using nibble_steps_split [of v] NIBBLE_nth [of v] by simp
  define c where "c = drop_bit 4 crc XOR NIBBLE ! unat ((crc XOR b) AND 0x0F)"
  have one: "(nibble_step ^^ 4) (crc XOR b) = c XOR drop_bit 4 b"
    by (simp add: four c_def drop_bit_xor xor.assoc xor.left_commute xor.commute)
  have "(nibble_step ^^ 8) (crc XOR b) = (nibble_step ^^ 4) ((nibble_step ^^ 4) (crc XOR b))"
    using nibble_steps_add [of 4 4 "crc XOR b"] by simp
  also have "\<dots> = drop_bit 4 c XOR NIBBLE ! unat ((c XOR drop_bit 4 b) AND 0x0F)"
    unfolding one four [of "c XOR drop_bit 4 b"] by (simp add: drop_bit_xor hi)
  finally show ?thesis
    by (simp add: feed_def bit_feed_def Let_def flip: b_def c_def)
qed

lemma fold_bytes_eq_bitwise: "fold_bytes crc bs = foldl bit_feed crc bs"
  by (induction bs arbitrary: crc) (simp_all add: feed_eq_bit_feed)

lemma fold_bytes_append [simp]: "fold_bytes crc (xs @ ys) = fold_bytes (fold_bytes crc xs) ys"
  by (induction xs arbitrary: crc) simp_all

section \<open>What the checksum detects\<close>

lemma nibble_step_inj: "nibble_step a = nibble_step b \<Longrightarrow> a = b"
proof (rule bit_word_eqI)
  assume eq: "nibble_step a = nibble_step b"
  have P: "bit POLY 15" by (simp add: POLY_def)
  have top: "bit (nibble_step v) 15 \<longleftrightarrow> bit v 0" for v
    using P by (auto simp: nibble_step_bit dest: bit_imp_le_length)
  have low: "bit a 0 = bit b 0" using top [of a] top [of b] eq by simp
  fix n assume "n < LENGTH(16)"
  show "bit a n = bit b n"
  proof (cases n)
    case (Suc m)
    then show ?thesis
      using nibble_step_bit [of a m] nibble_step_bit [of b m] eq low by auto
  qed (simp add: low)
qed

lemma nibble_steps_inj: "(nibble_step ^^ n) a = (nibble_step ^^ n) b \<Longrightarrow> a = b"
  by (induction n) (auto dest: nibble_step_inj)

lemma xor_cancel_left: "c XOR a = c XOR b \<Longrightarrow> a = (b :: 'a :: len word)"
  by (metis xor.assoc xor.left_neutral xor_self_eq)

lemma feed_inj_crc: "feed a x = feed b x \<Longrightarrow> a = b"
  unfolding feed_eq_bit_feed bit_feed_def
  by (drule nibble_steps_inj) (metis xor.commute xor_cancel_left)

lemma fold_bytes_inj_crc: "fold_bytes a bs = fold_bytes b bs \<Longrightarrow> a = b"
  by (induction bs arbitrary: a b) (auto dest: feed_inj_crc)

text \<open>Two bytes at once are sixteen shifts of the remainder xored with the little-endian word.\<close>

lemma feed_two: "feed (feed crc lo) hi = (nibble_step ^^ 16) (crc XOR rd16 lo hi)"
proof -
  have clear: "\<forall>k<8. \<not> bit (push_bit 8 (ucast hi :: u16)) k" by (auto simp: bit_simps)
  have "(nibble_step ^^ 8) (push_bit 8 (ucast hi :: u16)) = drop_bit 8 (push_bit 8 (ucast hi))"
    by (rule nibble_steps_low_clear [OF clear])
  also have "\<dots> = (ucast hi :: u16)"
    by (rule bit_word_eqI) (auto simp: bit_simps dest: bit_imp_le_length)
  finally have hi: "(nibble_step ^^ 8) (push_bit 8 (ucast hi :: u16)) = ucast hi" .
  have "rd16 lo hi = ucast lo XOR push_bit 8 (ucast hi)"
    unfolding rd16_def by (rule bit_word_eqI) (auto simp: bit_simps dest: bit_imp_le_length)
  then have "(nibble_step ^^ 8) (crc XOR rd16 lo hi) = feed crc lo XOR ucast hi"
    by (simp add: feed_eq_bit_feed bit_feed_def nibble_steps_xor hi flip: xor.assoc)
  then show ?thesis
    using nibble_steps_add [of 8 8 "crc XOR rd16 lo hi"]
    by (simp add: feed_eq_bit_feed bit_feed_def)
qed

lemma nibble_steps_0 [simp]: "(nibble_step ^^ n) 0 = 0"
  by (induction n) (simp_all add: nibble_step_def)

lemma fold_bytes_residue [simp]: "fold_bytes c (le16 c) = 0"
  by (simp add: le16_def feed_two)

lemma rd16_inject [simp]: "rd16 a b = rd16 c d \<longleftrightarrow> a = c \<and> b = d"
  by (metis le16_rd16 list.inject)

lemma feed_two_inj: "feed (feed crc a) b = feed (feed crc c) d \<Longrightarrow> a = c \<and> b = d"
  unfolding feed_two by (drule nibble_steps_inj, drule xor_cancel_left) simp

text \<open>A message followed by its own checksum leaves remainder 0.\<close>

lemma modbus_self_check: "fold_bytes (modbus m) (le16 (modbus m)) = 0"
  by simp

lemma modbus_burst2:
  assumes "modbus (p @ [a, b] @ s) = modbus (p @ [c, d] @ s)"
  shows "a = c \<and> b = d"
proof -
  let ?i = "fold_bytes INIT p"
  have "fold_bytes (feed (feed ?i a) b) s = fold_bytes (feed (feed ?i c) d) s"
    using assms by (simp add: modbus_def)
  then have "feed (feed ?i a) b = feed (feed ?i c) d" by (rule fold_bytes_inj_crc)
  then show ?thesis by (rule feed_two_inj)
qed

lemma modbus_byte_change:
  assumes "modbus (p @ a # s) = modbus (p @ c # s)"
  shows "a = c"
proof (cases s)
  case Nil
  have "feed (feed (fold_bytes INIT p) a) 0 = feed (feed (fold_bytes INIT p) c) 0"
    using assms Nil by (simp add: modbus_def)
  then show ?thesis by (blast dest: feed_two_inj)
next
  case (Cons b s')
  then show ?thesis using assms modbus_burst2 [of p a b s' c b] by simp
qed

lemma crc16_incremental:
  "crc16_finish (crc16_update (crc16_update crc16_new xs) ys) = modbus (xs @ ys)"
  by (simp add: crc16_finish_def crc16_update_def crc16_new_def modbus_def)

end
