(* ===== verification/Keys.thy ===== *)
theory Keys
  imports Prelude
begin

text \<open>
  The wire vocabulary of the config store (\<open>shared/store/src/key.rs\<close> and
  \<open>shared/store/src/value.rs\<close>): the two-byte key, the storage types with their tags and widths, and
  the dynamically typed value with its little-endian codec.

  Signed scalars (\<open>I16\<close>, \<open>I32\<close>, \<open>I64\<close>) are carried as their two's complement words, since the codec
  only ever moves their bytes. A Rust buffer that is too small is a panic: \<open>value_encode_into\<close> has
  the buffer's size as an argument and answers \<open>None\<close> there.
\<close>

section \<open>Keys and storage types\<close>

record key =
  field_id :: u8
  key_index :: u8

definition BLANK_FIELD_ID :: u8 where
  "BLANK_FIELD_ID = 0xFF"

definition ERASED_TAG :: u8 where
  "ERASED_TAG = 0x00"

datatype stype =
    TU8 | TU16 | TU32 | TU64 | TI16 | TI32 | TI64 | TBool | TBlob | TStr | TPin | TPinAf | TPinAdc

fun type_tag :: "stype \<Rightarrow> u8" where
  "type_tag TU8 = 0x01"
| "type_tag TU16 = 0x02"
| "type_tag TU32 = 0x03"
| "type_tag TU64 = 0x04"
| "type_tag TI16 = 0x05"
| "type_tag TI32 = 0x06"
| "type_tag TI64 = 0x07"
| "type_tag TBool = 0x08"
| "type_tag TBlob = 0x09"
| "type_tag TStr = 0x0A"
| "type_tag TPin = 0x0B"
| "type_tag TPinAf = 0x0C"
| "type_tag TPinAdc = 0x0D"

definition type_from_tag :: "u8 \<Rightarrow> stype option" where
  "type_from_tag t =
     (if t = 0x01 then Some TU8
      else if t = 0x02 then Some TU16
      else if t = 0x03 then Some TU32
      else if t = 0x04 then Some TU64
      else if t = 0x05 then Some TI16
      else if t = 0x06 then Some TI32
      else if t = 0x07 then Some TI64
      else if t = 0x08 then Some TBool
      else if t = 0x09 then Some TBlob
      else if t = 0x0A then Some TStr
      else if t = 0x0B then Some TPin
      else if t = 0x0C then Some TPinAf
      else if t = 0x0D then Some TPinAdc
      else None)"

fun fixed_len :: "stype \<Rightarrow> nat option" where
  "fixed_len TU8 = Some 1"
| "fixed_len TBool = Some 1"
| "fixed_len TU16 = Some 2"
| "fixed_len TI16 = Some 2"
| "fixed_len TPin = Some 2"
| "fixed_len TPinAf = Some 3"
| "fixed_len TPinAdc = Some 3"
| "fixed_len TU32 = Some 4"
| "fixed_len TI32 = Some 4"
| "fixed_len TU64 = Some 8"
| "fixed_len TI64 = Some 8"
| "fixed_len TBlob = None"
| "fixed_len TStr = None"

lemma type_from_tag_tag [simp]: "type_from_tag (type_tag k) = Some k"
  by (cases k) (simp_all add: type_from_tag_def)

lemma type_tag_from_tag: "type_from_tag t = Some k \<Longrightarrow> type_tag k = t"
  by (auto simp: type_from_tag_def split: if_splits)

lemma type_tag_inject [simp]: "type_tag a = type_tag b \<longleftrightarrow> a = b"
  by (metis option.inject type_from_tag_tag)

lemma type_tag_not_erased [simp]: "type_tag k \<noteq> ERASED_TAG"
  by (cases k) (simp_all add: ERASED_TAG_def)

section \<open>Dynamic values\<close>

datatype tagged_value =
    VU8 u8 | VU16 u16 | VU32 u32 | VU64 "64 word" | VI16 u16 | VI32 u32 | VI64 "64 word"
  | VBool bool | VStr bytes | VBytes bytes
  | VPin u8 u8 | VPinAf u8 u8 u8 | VPinAdc u8 u8 u8

fun value_kind :: "tagged_value \<Rightarrow> stype" where
  "value_kind (VU8 _) = TU8"
| "value_kind (VU16 _) = TU16"
| "value_kind (VU32 _) = TU32"
| "value_kind (VU64 _) = TU64"
| "value_kind (VI16 _) = TI16"
| "value_kind (VI32 _) = TI32"
| "value_kind (VI64 _) = TI64"
| "value_kind (VBool _) = TBool"
| "value_kind (VStr _) = TStr"
| "value_kind (VBytes _) = TBlob"
| "value_kind (VPin _ _) = TPin"
| "value_kind (VPinAf _ _ _) = TPinAf"
| "value_kind (VPinAdc _ _ _) = TPinAdc"

definition le64 :: "64 word \<Rightarrow> bytes" where
  "le64 w = le32 (ucast w) @ le32 (ucast (drop_bit 32 w))"

fun value_encode :: "tagged_value \<Rightarrow> bytes" where
  "value_encode (VU8 v) = [v]"
| "value_encode (VBool b) = [if b then 1 else 0]"
| "value_encode (VU16 v) = le16 v"
| "value_encode (VI16 v) = le16 v"
| "value_encode (VU32 v) = le32 v"
| "value_encode (VI32 v) = le32 v"
| "value_encode (VU64 v) = le64 v"
| "value_encode (VI64 v) = le64 v"
| "value_encode (VStr s) = s"
| "value_encode (VBytes b) = b"
| "value_encode (VPin p n) = [p, n]"
| "value_encode (VPinAf p n a) = [p, n, a]"
| "value_encode (VPinAdc p n c) = [p, n, c]"

definition value_encode_into :: "tagged_value \<Rightarrow> nat \<Rightarrow> bytes option" where
  "value_encode_into v room =
     (if length (value_encode v) \<le> room then Some (value_encode v) else None)"

definition fixed :: "nat \<Rightarrow> bytes \<Rightarrow> bytes option" where
  "fixed n bs = (if length bs \<noteq> n then None else Some bs)"

definition rd16_of :: "bytes \<Rightarrow> u16" where
  "rd16_of b = rd16 (b ! 0) (b ! 1)"

definition rd32_of :: "bytes \<Rightarrow> u32" where
  "rd32_of b = rd32 (b ! 0) (b ! 1) (b ! 2) (b ! 3)"

definition rd64_of :: "bytes \<Rightarrow> 64 word" where
  "rd64_of b = ucast (rd32_of b) OR push_bit 32 (ucast (rd32_of (drop 4 b)))"

fun value_decode :: "stype \<Rightarrow> bytes \<Rightarrow> tagged_value option" where
  "value_decode TU8 bs = (case bs of [] \<Rightarrow> None | b # _ \<Rightarrow> Some (VU8 b))"
| "value_decode TBool bs = (case bs of [] \<Rightarrow> None | b # _ \<Rightarrow> Some (VBool (b \<noteq> 0)))"
| "value_decode TU16 bs = map_option (\<lambda>b. VU16 (rd16_of b)) (fixed 2 bs)"
| "value_decode TI16 bs = map_option (\<lambda>b. VI16 (rd16_of b)) (fixed 2 bs)"
| "value_decode TU32 bs = map_option (\<lambda>b. VU32 (rd32_of b)) (fixed 4 bs)"
| "value_decode TI32 bs = map_option (\<lambda>b. VI32 (rd32_of b)) (fixed 4 bs)"
| "value_decode TU64 bs = map_option (\<lambda>b. VU64 (rd64_of b)) (fixed 8 bs)"
| "value_decode TI64 bs = map_option (\<lambda>b. VI64 (rd64_of b)) (fixed 8 bs)"
| "value_decode TStr bs = Some (VStr bs)"
| "value_decode TBlob bs = Some (VBytes bs)"
| "value_decode TPin bs = map_option (\<lambda>b. VPin (b ! 0) (b ! 1)) (fixed 2 bs)"
| "value_decode TPinAf bs = map_option (\<lambda>b. VPinAf (b ! 0) (b ! 1) (b ! 2)) (fixed 3 bs)"
| "value_decode TPinAdc bs = map_option (\<lambda>b. VPinAdc (b ! 0) (b ! 1) (b ! 2)) (fixed 3 bs)"

section \<open>Round trips and widths\<close>

lemma rd16_of_le16 [codec_simps, simp]: "rd16_of (le16 w) = w"
  by (simp add: rd16_of_def)

lemma rd32_of_le32 [codec_simps, simp]: "rd32_of (le32 w @ r) = w"
  using rd32_le32 [of w] by (simp add: rd32_of_def le32_def numeral_2_eq_2 numeral_3_eq_3)

lemma rd64_of_le64 [codec_simps, simp]: "rd64_of (le64 w) = w"
proof -
  have d: "drop 4 (le64 w) = le32 (ucast (drop_bit 32 w)) @ []" by (simp add: le64_def)
  have "rd64_of (le64 w) = ucast (ucast w :: u32) OR push_bit 32 (ucast (ucast (drop_bit 32 w) :: u32))"
    unfolding rd64_of_def d rd32_of_le32 by (simp add: le64_def)
  also have "\<dots> = w" by (rule bit_word_eqI) (auto simp: bit_simps not_less)
  finally show ?thesis .
qed

lemma length_le64 [simp]: "length (le64 w) = 8"
  by (simp add: le64_def)

lemma value_encode_width: "fixed_len (value_kind v) = Some n \<Longrightarrow> length (value_encode v) = n"
  by (cases v) auto

lemma value_round_trip [simp]: "value_decode (value_kind v) (value_encode v) = Some v"
  by (cases v) (use rd32_of_le32 [of _ "[]"] in \<open>auto simp: fixed_def numeral_2_eq_2\<close>)

lemma value_decode_kind: "value_decode k bs = Some v \<Longrightarrow> value_kind v = k"
  by (cases k) (auto split: list.splits)

lemma value_decode_width:
  "value_decode k bs = Some v \<Longrightarrow> fixed_len k = Some n \<Longrightarrow> n \<noteq> 1 \<Longrightarrow> length bs = n"
  by (cases k) (auto simp: fixed_def split: if_splits)

text \<open>
  A one-byte type is decoded from the first byte of the payload, whatever its length: the width
  check of the other fixed types does not cover it.
\<close>

lemma value_decode_u8_any_length: "bs \<noteq> [] \<Longrightarrow> value_decode TU8 bs = Some (VU8 (hd bs))"
  by (cases bs) simp_all

end
