(* ===== verification/RecordFormat.thy ===== *)
theory RecordFormat
  imports Crc16 Keys
begin

text \<open>
  The record format of the config store (\<open>shared/store/src/record.rs\<close>): the page header, the eight
  byte record header with its own checksum, the commit checksum, and the parsers that read them back
  out of a region of flash.

  The lemmas are the round trips (a header that was encoded parses as \<open>Good\<close>, a record that was
  encoded reads as committed with its own value), what the parsers look at (nothing outside the
  record's own span), and what the checksums reject.
\<close>

definition MAGIC :: u32 where
  "MAGIC = 0x53544F52"

definition PAGE_HEADER_LEN :: nat where
  "PAGE_HEADER_LEN = 8"

definition PAGE_HEADER_PROGRAMMED :: nat where
  "PAGE_HEADER_PROGRAMMED = 6"

definition SEQ_UNCOMMITTED :: u16 where
  "SEQ_UNCOMMITTED = 0xFFFF"

definition encode_page_header :: "u16 \<Rightarrow> bytes" where
  "encode_page_header seq = le32 MAGIC @ le16 seq"

definition HEADER_LEN :: nat where
  "HEADER_LEN = 8"

definition VAL_CRC_LEN :: nat where
  "VAL_CRC_LEN = 2"

definition HDR_COVERED :: nat where
  "HDR_COVERED = 6"

definition padded_len :: "nat \<Rightarrow> nat" where
  "padded_len len = len + len mod 2"

definition record_size :: "nat \<Rightarrow> nat" where
  "record_size len = HEADER_LEN + padded_len len + VAL_CRC_LEN"

record header =
  hdr_field_id :: u8
  hdr_index :: u8
  hdr_type_tag :: u8
  hdr_len :: u16

datatype header_scan = Blank | Good header | Torn

definition header_of :: "bytes \<Rightarrow> header" where
  "header_of h =
     \<lparr>hdr_field_id = h ! 0, hdr_index = h ! 1, hdr_type_tag = h ! 2, hdr_len = rd16 (h ! 4) (h ! 5)\<rparr>"

definition parse_header :: "bytes \<Rightarrow> nat \<Rightarrow> header_scan" where
  "parse_header region off =
     (case get_range region off (off + HEADER_LEN) of
        None \<Rightarrow> Torn
      | Some h \<Rightarrow>
          if h ! 0 = BLANK_FIELD_ID then Blank
          else if modbus (take HDR_COVERED h) \<noteq> rd16 (h ! 6) (h ! 7) then Torn
          else Good (header_of h))"

definition header_unchecked :: "bytes \<Rightarrow> nat \<Rightarrow> header option" where
  "header_unchecked region off =
     (case get_range region off (off + HEADER_LEN) of
        None \<Rightarrow> None
      | Some h \<Rightarrow> if h ! 0 = BLANK_FIELD_ID then None else Some (header_of h))"

definition hdr_crc :: "bytes \<Rightarrow> u16" where
  "hdr_crc covered = modbus covered"

definition val_crc :: "bytes \<Rightarrow> bytes \<Rightarrow> u16" where
  "val_crc covered value = crc16_finish (crc16_update (crc16_update crc16_new covered) value)"

definition is_committed :: "bytes \<Rightarrow> nat \<Rightarrow> header \<Rightarrow> bool" where
  "is_committed region off h =
     (let len = unat (hdr_len h);
          val_crc_off = off + HEADER_LEN + padded_len len
      in case (get_range region val_crc_off (val_crc_off + VAL_CRC_LEN),
               get_range region off (off + HDR_COVERED),
               get_range region (off + HEADER_LEN) (off + HEADER_LEN + len)) of
           (Some crc, Some covered, Some value) \<Rightarrow> val_crc covered value = rd16 (crc ! 0) (crc ! 1)
         | _ \<Rightarrow> False)"

definition value_bytes :: "bytes \<Rightarrow> nat \<Rightarrow> header \<Rightarrow> bytes" where
  "value_bytes region off h =
     (let start = off + HEADER_LEN
      in case get_range region start (start + unat (hdr_len h)) of None \<Rightarrow> [] | Some v \<Rightarrow> v)"

definition encode_header :: "u8 \<Rightarrow> u8 \<Rightarrow> u8 \<Rightarrow> u16 \<Rightarrow> bytes" where
  "encode_header fid ix tag len =
     (let covered = [fid, ix, tag, 0] @ le16 len
      in covered @ le16 (hdr_crc covered))"

definition val_crc_of :: "bytes \<Rightarrow> bytes \<Rightarrow> u16" where
  "val_crc_of header value = val_crc (take HDR_COVERED header) value"

text \<open>
  \<open>encode\<close> writes into a caller's buffer and returns the length; the model is the bytes it writes.
  Its \<open>len as u16\<close> truncates.
\<close>

definition encode_record :: "u8 \<Rightarrow> u8 \<Rightarrow> u8 \<Rightarrow> bytes \<Rightarrow> bytes" where
  "encode_record fid ix tag value =
     (let header = encode_header fid ix tag (of_nat (length value))
      in header @ value @ (if odd (length value) then [0xFF] else []) @ le16 (val_crc_of header value))"

section \<open>Sizes\<close>

lemmas layout_defs = PAGE_HEADER_LEN_def HEADER_LEN_def VAL_CRC_LEN_def HDR_COVERED_def

lemma length_encode_header [simp]: "length (encode_header fid ix tag len) = 8"
  by (simp add: encode_header_def Let_def)

lemma record_size_ge: "10 + len \<le> record_size len"
  by (simp add: record_size_def padded_len_def layout_defs)

lemma even_padded_len [simp]: "even (padded_len len)"
  by (simp add: padded_len_def)

lemma even_record_size [simp]: "even (record_size len)"
  by (simp add: record_size_def layout_defs)

lemma length_encode_record [simp]:
  "length (encode_record fid ix tag v) = record_size (length v)"
  by (simp add: encode_record_def Let_def record_size_def padded_len_def layout_defs odd_iff_mod_2_eq_one)

lemma length_encode_page_header [simp]: "length (encode_page_header seq) = PAGE_HEADER_PROGRAMMED"
  by (simp add: encode_page_header_def PAGE_HEADER_PROGRAMMED_def)

lemma val_crc_modbus: "val_crc covered value = modbus (covered @ value)"
  by (simp add: val_crc_def crc16_incremental)

section \<open>What the parsers look at\<close>

lemma parse_header_cong:
  assumes "get_range r off (off + HEADER_LEN) = get_range r' off (off + HEADER_LEN)"
  shows "parse_header r off = parse_header r' off"
  using assms by (simp add: parse_header_def)

lemma parse_header_Good_bound: "parse_header r off = Good h \<Longrightarrow> off + HEADER_LEN \<le> length r"
  by (auto simp: parse_header_def get_range_def split: if_splits)

lemma parse_header_Good_not_blank:
  "parse_header r off = Good h \<Longrightarrow> hdr_field_id h \<noteq> BLANK_FIELD_ID"
  by (auto simp: parse_header_def header_of_def split: option.splits if_splits)

lemma header_unchecked_of_Good: "parse_header r off = Good h \<Longrightarrow> header_unchecked r off = Some h"
  by (auto simp: parse_header_def header_unchecked_def split: option.splits if_splits)

lemma parse_header_get:
  "get_range r off (off + HEADER_LEN) = Some h \<Longrightarrow>
   parse_header r off =
     (if h ! 0 = BLANK_FIELD_ID then Blank
      else if modbus (take HDR_COVERED h) \<noteq> rd16 (h ! 6) (h ! 7) then Torn
      else Good (header_of h))"
  by (simp add: parse_header_def)

text \<open>
  The parsers depend on the record's own bytes only: reading at an offset of a region is reading at
  the start of the span cut out of it.
\<close>

lemma get_range_sub:
  assumes "get_range r off (off + n) = Some s" "b \<le> n"
  shows "get_range r (off + a) (off + b) = get_range s a b"
  using assms by (auto simp: get_range_def drop_take min_def add.commute split: if_splits)

lemma parse_header_image:
  assumes "get_range r off (off + n) = Some s" "HEADER_LEN \<le> n"
  shows "parse_header r off = parse_header s 0"
  using get_range_sub [OF assms, of 0] by (simp add: parse_header_def)

lemma value_bytes_image:
  assumes "get_range r off (off + n) = Some s" "record_size (unat (hdr_len h)) \<le> n"
  shows "value_bytes r off h = value_bytes s 0 h"
proof -
  have "HEADER_LEN + unat (hdr_len h) \<le> n"
    using assms(2) by (simp add: record_size_def padded_len_def)
  from get_range_sub [OF assms(1) this, of HEADER_LEN]
  show ?thesis by (simp add: value_bytes_def add.assoc)
qed

lemma is_committed_image:
  assumes "get_range r off (off + n) = Some s" "record_size (unat (hdr_len h)) \<le> n"
  shows "is_committed r off h = is_committed s 0 h"
proof -
  let ?l = "unat (hdr_len h)"
  have n: "HEADER_LEN + padded_len ?l + VAL_CRC_LEN \<le> n"
    using assms(2) by (simp add: record_size_def)
  then have "HEADER_LEN + ?l \<le> n" "HDR_COVERED \<le> n"
    by (auto simp: padded_len_def layout_defs)
  with n show ?thesis
    using get_range_sub [OF assms(1), of "HEADER_LEN + padded_len ?l + VAL_CRC_LEN" "HEADER_LEN + padded_len ?l"]
      get_range_sub [OF assms(1), of HDR_COVERED 0]
      get_range_sub [OF assms(1), of "HEADER_LEN + ?l" HEADER_LEN]
    by (simp add: is_committed_def add.assoc Let_def split: option.split)
qed

lemmas record_image = parse_header_image value_bytes_image is_committed_image

lemma is_committed_bound: "is_committed r off h \<Longrightarrow> off + record_size (unat (hdr_len h)) \<le> length r"
  by (auto simp: is_committed_def get_range_def record_size_def add.assoc Let_def split: option.splits if_splits)

section \<open>Round trips\<close>

lemma encode_header_bytes:
  "encode_header fid ix tag len =
     (let c = [fid, ix, tag, 0, ucast len, ucast (drop_bit 8 len)]
      in c @ [ucast (modbus c), ucast (drop_bit 8 (modbus c))])"
  by (simp add: encode_header_def hdr_crc_def le16_def Let_def)

lemma parse_encoded_header:
  assumes "fid \<noteq> BLANK_FIELD_ID"
  shows "parse_header (encode_header fid ix tag len @ rest) 0 =
     Good \<lparr>hdr_field_id = fid, hdr_index = ix, hdr_type_tag = tag, hdr_len = len\<rparr>"
  using assms
  by (simp add: parse_header_def get_range_def encode_header_bytes Let_def layout_defs header_of_def)

lemma committed_encoded_record:
  fixes v :: bytes and fid ix tag :: u8
  assumes "length v < 65536"
  defines "h \<equiv> \<lparr>hdr_field_id = fid, hdr_index = ix, hdr_type_tag = tag, hdr_len = of_nat (length v)\<rparr>"
  shows "is_committed (encode_record fid ix tag v) 0 h"
    and "value_bytes (encode_record fid ix tag v) 0 h = v"
proof -
  define hd' where "hd' = encode_header fid ix tag (of_nat (length v))"
  define pad :: bytes where "pad = (if odd (length v) then [0xFF] else [])"
  have rec: "encode_record fid ix tag v = hd' @ v @ pad @ le16 (val_crc_of hd' v)"
    by (simp add: encode_record_def hd'_def pad_def Let_def)
  have len: "unat (hdr_len h) = length v"
    using assms(1) by (simp add: h_def unsigned_of_nat take_bit_nat_def)
  have hl: "length hd' = 8" by (simp add: hd'_def)
  have pl: "length pad = length v mod 2" by (simp add: pad_def odd_iff_mod_2_eq_one)
  have r1: "get_range (encode_record fid ix tag v) (8 + padded_len (length v)) (10 + padded_len (length v)) =
      Some (le16 (val_crc_of hd' v))"
    by (simp add: rec get_range_def hl pl padded_len_def)
  have r2: "get_range (encode_record fid ix tag v) 0 6 = Some (take 6 hd')"
    by (simp add: rec get_range_def hl)
  have r3: "get_range (encode_record fid ix tag v) 8 (8 + length v) = Some v"
    by (simp add: rec get_range_def hl)
  show "value_bytes (encode_record fid ix tag v) 0 h = v"
    using r3 by (simp add: value_bytes_def len layout_defs)
  show "is_committed (encode_record fid ix tag v) 0 h"
    using r1 r2 r3 by (simp add: is_committed_def len layout_defs val_crc_of_def)
qed

lemma parse_encoded_record:
  assumes "fid \<noteq> BLANK_FIELD_ID"
  shows "parse_header (encode_record fid ix tag v) 0 =
    Good \<lparr>hdr_field_id = fid, hdr_index = ix, hdr_type_tag = tag, hdr_len = of_nat (length v)\<rparr>"
  using parse_encoded_header [OF assms] by (simp add: encode_record_def Let_def)

end
