(* ===== verification/Registry.thy ===== *)
theory Registry
  imports Keys
begin

text \<open>
  The field registry of the config store (\<open>shared/store/src/field.rs\<close>): the scope and effect of a
  field, the packed eight-byte row, the table of the production image (the build without the
  \<open>test-fields\<close> feature) and the two lookups of the dynamic path.

  A row of the table is what the handle's own \<open>entry()\<close> builds: its id, index, storage type and
  default word. The lemmas show that the table's keys are in strict order, so no key is registered
  twice and none is the blank id, and that a row's default bytes are the encoding of the default
  its descriptor carries.
\<close>

datatype scope = ScopeNode | ScopeMachine | ScopeWheel

definition scope_of :: "u8 \<Rightarrow> scope option" where
  "scope_of fid =
     (if 0x01 \<le> fid \<and> fid \<le> 0x1F then Some ScopeNode
      else if 0x20 \<le> fid \<and> fid \<le> 0x3F then Some ScopeMachine
      else if 0x40 \<le> fid \<and> fid \<le> 0x7F then Some ScopeWheel
      else None)"

datatype effect = Live | Arm | Boot | Client

record field_def =
  def_field_id :: u8
  def_index :: u8
  def_kind :: stype
  def_default :: tagged_value
  def_effect :: effect

record field_entry =
  ent_field_id :: u8
  ent_index :: u8
  ent_kind :: stype
  ent_bits :: u32
  ent_effect :: effect

text \<open>The byte-string defaults by slot: the device name, the empty string and the three tunes.\<close>

definition BYTES_DEFAULTS :: "bytes list" where
  "BYTES_DEFAULTS =
     [[0x48, 0x6F, 0x76, 0x65, 0x72, 0x62, 0x6F, 0x61, 0x72, 0x64],
      [],
      [0xA0, 0x0F, 50],
      [0xD0, 0x07, 15, 0x00, 0x00, 255, 0x00, 0x00, 230],
      [0xD0, 0x07, 15, 0x00, 0x00, 10, 0xD0, 0x07, 15, 0x00, 0x00, 100]]"

definition new_row :: "u8 \<Rightarrow> u8 \<Rightarrow> stype \<Rightarrow> u32 \<Rightarrow> effect \<Rightarrow> field_entry" where
  "new_row fid ix k bits eff =
     \<lparr>ent_field_id = fid, ent_index = ix, ent_kind = k, ent_bits = bits, ent_effect = eff\<rparr>"

definition entry_key :: "field_entry \<Rightarrow> key" where
  "entry_key e = \<lparr>field_id = ent_field_id e, key_index = ent_index e\<rparr>"

definition default_bytes :: "field_entry \<Rightarrow> bytes" where
  "default_bytes e =
     (case fixed_len (ent_kind e) of
        Some w \<Rightarrow> take (min w 4) (le32 (ent_bits e))
      | None \<Rightarrow> BYTES_DEFAULTS ! unat (ent_bits e))"

fun default_value :: "stype \<Rightarrow> u32 \<Rightarrow> tagged_value" where
  "default_value TU8 b = VU8 (ucast b)"
| "default_value TU16 b = VU16 (ucast b)"
| "default_value TU32 b = VU32 b"
| "default_value TU64 b = VU64 (ucast b)"
| "default_value TI16 b = VI16 (ucast b)"
| "default_value TI32 b = VI32 b"
| "default_value TI64 b = VI64 (scast b)"
| "default_value TBool b = VBool (b \<noteq> 0)"
| "default_value TStr b = VStr (BYTES_DEFAULTS ! unat b)"
| "default_value TBlob b = VBytes (BYTES_DEFAULTS ! unat b)"
| "default_value TPin b = VPin (le32 b ! 0) (le32 b ! 1)"
| "default_value TPinAf b = VPinAf (le32 b ! 0) (le32 b ! 1) (le32 b ! 2)"
| "default_value TPinAdc b = VPinAdc (le32 b ! 0) (le32 b ! 1) (le32 b ! 2)"

definition row_descr :: "field_entry \<Rightarrow> field_def" where
  "row_descr e =
     \<lparr>def_field_id = ent_field_id e, def_index = ent_index e, def_kind = ent_kind e,
      def_default = default_value (ent_kind e) (ent_bits e), def_effect = ent_effect e\<rparr>"

definition REGISTRY :: "field_entry list" where
  "REGISTRY =
    [
     new_row 0x01 0 TU8 0 Boot, \<comment> \<open>NODE_ADDRESS\<close>
     new_row 0x02 0 TStr 0 Boot, \<comment> \<open>DEVICE_NAME\<close>
     new_row 0x03 0 TStr 1 Boot, \<comment> \<open>WIFI_SSID\<close>
     new_row 0x04 0 TStr 1 Boot, \<comment> \<open>WIFI_PASS\<close>
     new_row 0x05 0 TU8 34 Boot, \<comment> \<open>WIFI_TX_POWER\<close>
     new_row 0x06 0 TPin 0xFFFFFFFF Boot, \<comment> \<open>BOARD_SELF_HOLD\<close>
     new_row 0x07 0 TPinAdc 0xFFFFFFFF Boot, \<comment> \<open>BOARD_BATTERY_PIN\<close>
     new_row 0x08 0 TPin 0xFFFFFFFF Boot, \<comment> \<open>BOARD_BUZZER\<close>
     new_row 0x09 0 TPin 0xFFFFFFFF Boot, \<comment> \<open>LED_GREEN\<close>
     new_row 0x0A 0 TPin 0xFFFFFFFF Boot, \<comment> \<open>LED_ORANGE\<close>
     new_row 0x0B 0 TPin 0xFFFFFFFF Boot, \<comment> \<open>LED_RED\<close>
     new_row 0x0C 0 TPin 0xFFFFFFFF Boot, \<comment> \<open>PAD_A\<close>
     new_row 0x0D 0 TPin 0xFFFFFFFF Boot, \<comment> \<open>PAD_B\<close>
     new_row 0x0E 0 TPin 0xFFFFFFFF Boot, \<comment> \<open>BOARD_BUTTON\<close>
     new_row 0x0F 0 TPinAf 0xFFFFFFFF Boot, \<comment> \<open>LINK_TX\<close>
     new_row 0x0F 1 TPinAf 0xFFFFFFFF Boot, \<comment> \<open>LINK_TX\<close>
     new_row 0x10 0 TPinAf 0xFFFFFFFF Boot, \<comment> \<open>LINK_RX\<close>
     new_row 0x10 1 TPinAf 0xFFFFFFFF Boot, \<comment> \<open>LINK_RX\<close>
     new_row 0x11 0 TPinAf 0xFFFFFFFF Boot, \<comment> \<open>IMU_SCL_PIN\<close>
     new_row 0x12 0 TPinAf 0xFFFFFFFF Boot, \<comment> \<open>IMU_SDA_PIN\<close>
     new_row 0x13 0 TU8 0 Boot, \<comment> \<open>IMU_MODEL\<close>
     new_row 0x14 0 TI32 0 Boot, \<comment> \<open>IMU_GYRO_BIAS\<close>
     new_row 0x14 1 TI32 0 Boot, \<comment> \<open>IMU_GYRO_BIAS\<close>
     new_row 0x14 2 TI32 0 Boot, \<comment> \<open>IMU_GYRO_BIAS\<close>
     new_row 0x15 0 TI32 0 Arm, \<comment> \<open>IMU_AXIS_SIGN\<close>
     new_row 0x15 1 TI32 0 Arm, \<comment> \<open>IMU_AXIS_SIGN\<close>
     new_row 0x15 2 TI32 0 Arm, \<comment> \<open>IMU_AXIS_SIGN\<close>
     new_row 0x16 0 TU8 0 Arm, \<comment> \<open>IMU_AXIS_ROLE\<close>
     new_row 0x16 1 TU8 0 Arm, \<comment> \<open>IMU_AXIS_ROLE\<close>
     new_row 0x17 0 TI16 0 Boot, \<comment> \<open>ATTITUDE_LEVEL_TRIM\<close>
     new_row 0x17 1 TI16 0 Boot, \<comment> \<open>ATTITUDE_LEVEL_TRIM\<close>
     new_row 0x18 0 TI16 25200 Boot, \<comment> \<open>BOARD_BATTERY_CAL\<close>
     new_row 0x18 1 TI16 0xFFFFFFFB Boot, \<comment> \<open>BOARD_BATTERY_CAL\<close>
     new_row 0x19 0 TU8 6 Boot, \<comment> \<open>BOARD_INPUT_POLARITY\<close>
     new_row 0x1A 0 TU8 0 Boot, \<comment> \<open>IMU_REMAP\<close>
     new_row 0x1B 0 TU8 0 Boot, \<comment> \<open>LINK_USART\<close>
     new_row 0x1B 1 TU8 0 Boot, \<comment> \<open>LINK_USART\<close>
     new_row 0x1C 0 TU8 0 Boot, \<comment> \<open>LINK_REMAP\<close>
     new_row 0x1C 1 TU8 0 Boot, \<comment> \<open>LINK_REMAP\<close>
     new_row 0x1D 0 TU8 0 Boot, \<comment> \<open>IMU_I2C\<close>
     new_row 0x1E 0 TU8 0 Arm, \<comment> \<open>CONTROL_LEADER\<close>
     new_row 0x1F 0 TBlob 2 Live, \<comment> \<open>TONE\<close>
     new_row 0x1F 1 TBlob 3 Live, \<comment> \<open>TONE\<close>
     new_row 0x1F 2 TBlob 4 Live, \<comment> \<open>TONE\<close>
     new_row 0x20 0 TU8 0 Arm, \<comment> \<open>CONTROL_MODE\<close>
     new_row 0x21 0 TU8 0 Arm, \<comment> \<open>CONTROL_FRAME\<close>
     new_row 0x22 0 TU8 1 Arm, \<comment> \<open>CONTROL_RIDER_REQUIRED\<close>
     new_row 0x23 0 TU8 0 Arm, \<comment> \<open>MOTOR_METHOD\<close>
     new_row 0x24 0 TU8 0 Client, \<comment> \<open>BOARD_BATTERY_CELLS\<close>
     new_row 0x25 0 TU8 0 Client, \<comment> \<open>BOARD_BATTERY_CHEMISTRY\<close>
     new_row 0x26 0 TI16 2400 Arm, \<comment> \<open>BOARD_BATTERY_FLOOR\<close>
     new_row 0x27 0 TI16 0 Live, \<comment> \<open>CONTROL_SF_GAINS\<close>
     new_row 0x27 1 TI16 0 Live, \<comment> \<open>CONTROL_SF_GAINS\<close>
     new_row 0x27 2 TI16 0 Live, \<comment> \<open>CONTROL_SF_GAINS\<close>
     new_row 0x27 3 TI16 0 Live, \<comment> \<open>CONTROL_SF_GAINS\<close>
     new_row 0x28 0 TI16 20000 Arm, \<comment> \<open>CONTROL_GAIN_MAX\<close>
     new_row 0x28 1 TI16 20000 Arm, \<comment> \<open>CONTROL_GAIN_MAX\<close>
     new_row 0x28 2 TI16 2000 Arm, \<comment> \<open>CONTROL_GAIN_MAX\<close>
     new_row 0x28 3 TI16 10000 Arm, \<comment> \<open>CONTROL_GAIN_MAX\<close>
     new_row 0x29 0 TI16 0 Live, \<comment> \<open>CONTROL_REFERENCE\<close>
     new_row 0x29 1 TI16 41 Live, \<comment> \<open>CONTROL_REFERENCE\<close>
     new_row 0x2A 0 TI16 45 Arm, \<comment> \<open>CONTROL_POS_CLAMP\<close>
     new_row 0x2B 0 TI16 0 Arm, \<comment> \<open>CONTROL_DRIVE_TURN\<close>
     new_row 0x2B 1 TI16 24 Arm, \<comment> \<open>CONTROL_DRIVE_TURN\<close>
     new_row 0x2C 0 TI16 0 Boot, \<comment> \<open>BOARD_BATTERY_WARN\<close>
     new_row 0x40 0 TPin 0xFFFFFFFF Boot, \<comment> \<open>MOTOR_HALL_A\<close>
     new_row 0x41 0 TPin 0xFFFFFFFF Boot, \<comment> \<open>MOTOR_HALL_B\<close>
     new_row 0x42 0 TPin 0xFFFFFFFF Boot, \<comment> \<open>MOTOR_HALL_C\<close>
     new_row 0x43 0 TPinAf 0xFFFFFFFF Boot, \<comment> \<open>MOTOR_GATE_HI_A\<close>
     new_row 0x44 0 TPinAf 0xFFFFFFFF Boot, \<comment> \<open>MOTOR_GATE_HI_B\<close>
     new_row 0x45 0 TPinAf 0xFFFFFFFF Boot, \<comment> \<open>MOTOR_GATE_HI_C\<close>
     new_row 0x46 0 TPinAf 0xFFFFFFFF Boot, \<comment> \<open>MOTOR_GATE_LO_A\<close>
     new_row 0x47 0 TPinAf 0xFFFFFFFF Boot, \<comment> \<open>MOTOR_GATE_LO_B\<close>
     new_row 0x48 0 TPinAf 0xFFFFFFFF Boot, \<comment> \<open>MOTOR_GATE_LO_C\<close>
     new_row 0x49 0 TPinAdc 0xFFFFFFFF Boot, \<comment> \<open>MOTOR_PHASE_A\<close>
     new_row 0x4A 0 TPinAdc 0xFFFFFFFF Boot, \<comment> \<open>MOTOR_PHASE_B\<close>
     new_row 0x4B 0 TU8 0 Boot, \<comment> \<open>MOTOR_DEAD_TIME\<close>
     new_row 0x4C 0 TU16 455 Arm, \<comment> \<open>MOTOR_CURRENT_CAL\<close>
     new_row 0x4D 0 TU16 2100 Boot, \<comment> \<open>MOTOR_NOISE_FLOOR\<close>
     new_row 0x4E 0 TU32 10000 Arm, \<comment> \<open>MOTOR_CURRENT_LIMIT\<close>
     new_row 0x4F 0 TU8 0 Arm, \<comment> \<open>MOTOR_DIRECTION\<close>
     new_row 0x50 0 TU8 0 Arm, \<comment> \<open>CONTROL_SIDE\<close>
     new_row 0x51 0 TU8 0 Arm, \<comment> \<open>MOTOR_ALIGN_OFFSET\<close>
     new_row 0x52 0 TU8 0 Client, \<comment> \<open>MOTOR_POLE_PAIRS\<close>
     new_row 0x53 0 TU16 0 Client, \<comment> \<open>WHEEL_DIAMETER_MM\<close>
     new_row 0x54 0 TU32 0 Boot, \<comment> \<open>MOTOR_ODOMETER\<close>
     new_row 0x55 0 TU8 0 Boot, \<comment> \<open>MOTOR_GATE_TIMER\<close>
     new_row 0x56 0 TU8 0 Boot, \<comment> \<open>MOTOR_GATE_REMAP\<close>
     new_row 0x57 0 TPinAdc 0xFFFFFFFF Boot, \<comment> \<open>MOTOR_PHASE_C\<close>
     new_row 0x58 0 TU8 0 Boot, \<comment> \<open>MOTOR_CURRENT_SENSE\<close>
     new_row 0x59 0 TU8 1 Arm, \<comment> \<open>MOTOR_PEAK_TRIP_PERIODS\<close>
     new_row 0x5A 0 TU16 0 Arm, \<comment> \<open>MOTOR_RAIL_SKIP\<close>
     new_row 0x5B 0 TPinAdc 0xFFFFFFFF Boot, \<comment> \<open>MOTOR_DC_LINK_PIN\<close>
     new_row 0x5C 0 TU16 800 Boot, \<comment> \<open>MOTOR_DC_LINK_CAL\<close>
     new_row 0x5D 0 TU32 0 Boot, \<comment> \<open>MOTOR_DC_LINK_LIMIT\<close>
     new_row 0x5E 0 TPinAf 0xFFFFFFFF Boot, \<comment> \<open>MOTOR_BREAK_PIN\<close>
     new_row 0x5F 0 TU8 0 Boot] \<comment> \<open>MOTOR_BREAK_ENABLE\<close>"

text \<open>Field ids other components name.\<close>

definition NODE_ADDRESS :: key where
  "NODE_ADDRESS = \<lparr>field_id = 0x01, key_index = 0\<rparr>"

definition DEVICE_NAME :: key where
  "DEVICE_NAME = \<lparr>field_id = 0x02, key_index = 0\<rparr>"

definition WIFI_SSID_ID :: u8 where
  "WIFI_SSID_ID = 0x03"

definition WIFI_PASS_ID :: u8 where
  "WIFI_PASS_ID = 0x04"

definition WIFI_TX_POWER_ID :: u8 where
  "WIFI_TX_POWER_ID = 0x05"

definition MOTOR_ODOMETER_ID :: u8 where
  "MOTOR_ODOMETER_ID = 0x54"

definition BOARD_OWNED :: "u8 list" where
  "BOARD_OWNED = [field_id NODE_ADDRESS, MOTOR_ODOMETER_ID]"

definition SECRET :: "u8 list" where
  "SECRET = [WIFI_PASS_ID]"

text \<open>The scan of \<open>lookup_key\<close>: the row of this index, else the row of index 0.\<close>

fun lookup_rows :: "field_entry list \<Rightarrow> key \<Rightarrow> field_def option \<Rightarrow> field_def option" where
  "lookup_rows [] k base = base"
| "lookup_rows (d # ds) k base =
     (if ent_field_id d \<noteq> field_id k then lookup_rows ds k base
      else if ent_index d = key_index k then Some (row_descr d)
      else if ent_index d = 0 then lookup_rows ds k (Some (row_descr d))
      else lookup_rows ds k base)"

definition lookup_key :: "key \<Rightarrow> field_def option" where
  "lookup_key k = lookup_rows REGISTRY k None"

definition lookup :: "u8 \<Rightarrow> field_def option" where
  "lookup fid = lookup_key \<lparr>field_id = fid, key_index = 0\<rparr>"

section \<open>The table\<close>

definition entry_before :: "field_entry \<Rightarrow> field_entry \<Rightarrow> bool" where
  "entry_before a b \<longleftrightarrow>
     ent_field_id a < ent_field_id b \<or> (ent_field_id a = ent_field_id b \<and> ent_index a < ent_index b)"

definition row_ok :: "field_entry \<Rightarrow> bool" where
  "row_ok e \<longleftrightarrow>
     ent_field_id e \<noteq> BLANK_FIELD_ID \<and> scope_of (ent_field_id e) \<noteq> None \<and>
     ent_kind e \<notin> {TU64, TI64, TBool} \<and>
     (fixed_len (ent_kind e) = None \<longrightarrow> unat (ent_bits e) < length BYTES_DEFAULTS)"

fun ordered_rows :: "field_entry list \<Rightarrow> bool" where
  "ordered_rows (a # b # r) = (entry_before a b \<and> ordered_rows (b # r))"
| "ordered_rows _ = True"

lemma REGISTRY_length: "length REGISTRY = 97"
  by (simp add: REGISTRY_def)

lemma REGISTRY_ordered: "ordered_rows REGISTRY"
  by (simp add: REGISTRY_def new_row_def entry_before_def)

lemma REGISTRY_rows_ok: "list_all row_ok REGISTRY"
  by (simp add: REGISTRY_def new_row_def row_ok_def BLANK_FIELD_ID_def scope_of_def BYTES_DEFAULTS_def)


section \<open>Rows and descriptors\<close>

lemma default_value_kind [simp]: "value_kind (default_value k b) = k"
  by (cases k) simp_all

lemma default_bytes_encode:
  assumes "ent_kind e \<notin> {TU64, TI64, TBool}"
  shows "default_bytes e = value_encode (def_default (row_descr e))"
proof -
  have u16: "le16 (ucast b) = take 2 (le32 b)" for b :: u32
    by (auto simp: le16_def le32_def numeral_2_eq_2 intro!: bit_word_eqI simp: bit_simps)
  have nth: "le32 b ! 0 = ucast b \<and> le32 b ! 1 = ucast (drop_bit 8 b) \<and> le32 b ! 2 = ucast (drop_bit 16 b)"
    for b :: u32 by (simp add: le32_def)
  show ?thesis
    using assms by (cases "ent_kind e")
      (auto simp: default_bytes_def row_descr_def u16 nth le32_def numeral_2_eq_2 numeral_3_eq_3)
qed

lemma lookup_rows_Some:
  "lookup_rows es k base = Some d \<Longrightarrow>
     (base = Some d) \<or> (\<exists>e \<in> set es. d = row_descr e \<and> ent_field_id e = field_id k \<and>
        (ent_index e = key_index k \<or> ent_index e = 0))"
  by (induction es k base rule: lookup_rows.induct) (auto split: if_splits)

lemma lookup_key_Some:
  assumes "lookup_key k = Some d"
  obtains e where "e \<in> set REGISTRY" "d = row_descr e" "ent_field_id e = field_id k"
    "ent_index e = key_index k \<or> ent_index e = 0"
  using lookup_rows_Some [OF assms [unfolded lookup_key_def]] that by auto

lemma lookup_key_sound:
  assumes "lookup_key k = Some d"
  shows "def_field_id d = field_id k" "field_id k \<noteq> BLANK_FIELD_ID"
    "value_kind (def_default d) = def_kind d" "def_kind d \<notin> {TU64, TI64, TBool}"
  using assms REGISTRY_rows_ok
  by (auto elim!: lookup_key_Some simp: row_descr_def row_ok_def list_all_iff)

text \<open>An index no row declares reads the field's base row.\<close>

lemma lookup_rows_exact:
  "lookup_rows es k base =
     (case find (\<lambda>e. entry_key e = k) es of
        Some e \<Rightarrow> Some (row_descr e)
      | None \<Rightarrow>
          (case find (\<lambda>e. ent_field_id e = field_id k \<and> ent_index e = 0) (rev es) of
             Some e \<Rightarrow> Some (row_descr e)
           | None \<Rightarrow> base))"
proof (induction es k base rule: lookup_rows.induct)
  case (2 d ds k base)
  have find_snoc: "find P (xs @ [x]) = (case find P xs of None \<Rightarrow> if P x then Some x else None | Some y \<Rightarrow> Some y)"
    for P and xs :: "field_entry list" and x by (induction xs) auto
  have key: "entry_key d = k \<longleftrightarrow> ent_field_id d = field_id k \<and> ent_index d = key_index k"
    by (cases k) (auto simp: entry_key_def)
  show ?case
    using 2 by (auto simp: key find_snoc split: option.splits)
qed simp

end
