(* ===== verification/Store.thy ===== *)
theory Store
  imports Flash RecordFormat Registry
begin

text \<open>
  The log-structured config store (\<open>shared/store/src/store.rs\<close>): mount and scan, the read of a key,
  append, compaction, and the typed and dynamic faces over them.

  Every operation takes the flash operations \<open>F\<close> as an argument, as the source is generic over the
  \<open>Flash\<close> trait. A mutating operation answers the store after it together with the source's
  \<open>Result\<close>: an early return carries the flash as the failed call left it, and the store's own fields
  unchanged. The loops of the source are recursions on the cursor; each ends because a record is
  never empty.
\<close>

datatype store_error = Full | ValueTooLarge | CommitFailed | FlashErr flash_error

datatype dyn_error = UnknownKey | TypeMismatch | StoreErr store_error

datatype stored = Stored | NotStored

record 'f store =
  store_flash :: 'f
  active_page_off :: nat
  frontier :: nat
  store_seq :: u16

definition MAX_RECORD :: nat where
  "MAX_RECORD = 272"

definition COMPACT_CHUNK :: nat where
  "COMPACT_CHUNK = 32"

section \<open>Reading a region\<close>

definition side1_is_newer :: "u16 \<Rightarrow> u16 \<Rightarrow> bool" where
  "side1_is_newer seq0 seq1 \<longleftrightarrow> seq1 - seq0 < 0x8000"

definition read_page_header :: "bytes \<Rightarrow> nat \<Rightarrow> u16 option" where
  "read_page_header region off =
     (if off + PAGE_HEADER_LEN > length region then None
      else let magic = rd32 (region ! off) (region ! (off + 1)) (region ! (off + 2)) (region ! (off + 3))
        in if magic \<noteq> MAGIC then None
           else let seq = rd16 (region ! (off + 4)) (region ! (off + 5))
             in if seq = SEQ_UNCOMMITTED then None else Some seq)"

definition page_is_erased :: "bytes \<Rightarrow> nat \<Rightarrow> nat \<Rightarrow> bool" where
  "page_is_erased region off ps \<longleftrightarrow> list_all (\<lambda>b. b = 0xFF) (take ps (drop off region))"

datatype scan_result = Frontier nat | TornHeader nat

definition step_to :: "nat \<Rightarrow> header \<Rightarrow> nat" where
  "step_to cursor h = cursor + record_size (unat (hdr_len h))"

lemma step_to_gt: "cursor < step_to cursor h"
  using record_size_ge [of "unat (hdr_len h)"] by (simp add: step_to_def)

lemma Good_step_measure:
  "parse_header region cursor = Good h \<Longrightarrow> length region - step_to cursor h < length region - cursor"
  using parse_header_Good_bound [of region cursor h] step_to_gt [of cursor h]
  by (simp add: layout_defs)

function scan_log :: "bytes \<Rightarrow> nat \<Rightarrow> nat \<Rightarrow> scan_result" where
  "scan_log region page_end cursor =
     (case parse_header region cursor of
        Blank \<Rightarrow> Frontier cursor
      | Torn \<Rightarrow> TornHeader cursor
      | Good h \<Rightarrow>
          let next = step_to cursor h
          in if next > page_end then TornHeader cursor
             else if next = page_end then Frontier next
             else scan_log region page_end next)"
  by pat_completeness auto
termination
  by (relation "measure (\<lambda>(region, page_end, cursor). length region - cursor)")
    (auto intro: Good_step_measure)

declare scan_log.simps [simp del]

definition scan_frontier :: "bytes \<Rightarrow> nat \<Rightarrow> nat \<Rightarrow> scan_result" where
  "scan_frontier region page_off ps = scan_log region (page_off + ps) (page_off + PAGE_HEADER_LEN)"

definition is_key :: "key \<Rightarrow> header \<Rightarrow> bool" where
  "is_key k h \<longleftrightarrow> hdr_field_id h = field_id k \<and> hdr_index h = key_index k"

function find_from ::
  "bytes \<Rightarrow> nat \<Rightarrow> key \<Rightarrow> nat \<Rightarrow> (nat \<times> header) option \<Rightarrow> (nat \<times> header) option" where
  "find_from region page_end k cursor found =
     (case parse_header region cursor of
        Blank \<Rightarrow> found
      | Torn \<Rightarrow> found
      | Good h \<Rightarrow>
          let next = step_to cursor h
          in if next > page_end then found
             else find_from region page_end k next
                    (if is_key k h \<and> is_committed region cursor h then Some (cursor, h) else found))"
  by pat_completeness auto
termination
  by (relation "measure (\<lambda>(region, page_end, k, cursor, found). length region - cursor)")
    (auto intro: Good_step_measure)

declare find_from.simps [simp del]

function has_later_record :: "bytes \<Rightarrow> nat \<Rightarrow> nat \<Rightarrow> key \<Rightarrow> bool" where
  "has_later_record region cursor end' k =
     (if cursor < end' then
        case header_unchecked region cursor of
          None \<Rightarrow> False
        | Some h \<Rightarrow>
            if is_key k h \<and> is_committed region cursor h then True
            else has_later_record region (step_to cursor h) end' k
      else False)"
  by pat_completeness auto
termination
  by (relation "measure (\<lambda>(region, cursor, end', k). end' - cursor)")
    (use step_to_gt in \<open>auto intro: diff_less_mono2\<close>)

declare has_later_record.simps [simp del]

function latest_unchecked_from ::
  "bytes \<Rightarrow> nat \<Rightarrow> key \<Rightarrow> nat \<Rightarrow> (nat \<times> header) option \<Rightarrow> (nat \<times> header) option" where
  "latest_unchecked_from region end' k cursor found =
     (if cursor < end' then
        case header_unchecked region cursor of
          None \<Rightarrow> found
        | Some h \<Rightarrow>
            latest_unchecked_from region end' k (step_to cursor h)
              (if is_key k h \<and> is_committed region cursor h then Some (cursor, h) else found)
      else found)"
  by pat_completeness auto
termination
  by (relation "measure (\<lambda>(region, end', k, cursor, found). end' - cursor)")
    (use step_to_gt in \<open>auto intro: diff_less_mono2\<close>)

declare latest_unchecked_from.simps [simp del]

function each_from :: "bytes \<Rightarrow> nat \<Rightarrow> key list \<Rightarrow> (key \<Rightarrow> u8 \<Rightarrow> bytes \<Rightarrow> 'a \<Rightarrow> 'a) \<Rightarrow> nat \<Rightarrow> 'a \<Rightarrow> 'a" where
  "each_from region page_end keys f cursor acc =
     (case parse_header region cursor of
        Blank \<Rightarrow> acc
      | Torn \<Rightarrow> acc
      | Good h \<Rightarrow>
          let next = step_to cursor h; k = \<lparr>field_id = hdr_field_id h, key_index = hdr_index h\<rparr>
          in if next > page_end then acc
             else each_from region page_end keys f next
                    (if k \<in> set keys \<and> is_committed region cursor h
                     then f k (hdr_type_tag h) (value_bytes region cursor h) acc else acc))"
  by pat_completeness auto
termination
  by (relation "measure (\<lambda>(region, page_end, keys, f, cursor, acc). length region - cursor)")
    (auto intro: Good_step_measure)

declare each_from.simps [simp del]

section \<open>Program sequences\<close>

text \<open>A run of \<open>program\<close> calls chained by \<open>?\<close>: the first failure ends it.\<close>

fun program_all :: "'f flash_ops \<Rightarrow> 'f \<Rightarrow> (nat \<times> bytes) list \<Rightarrow> 'f \<times> (flash_error + unit)" where
  "program_all F fl [] = (fl, Inr ())"
| "program_all F fl ((off, bs) # ws) =
     (case program F fl off bs of
        (fl, Inl e) \<Rightarrow> (fl, Inl e)
      | (fl, Inr u) \<Rightarrow> program_all F fl ws)"

section \<open>Append\<close>

definition append_writes :: "nat \<Rightarrow> key \<Rightarrow> u8 \<Rightarrow> bytes \<Rightarrow> (nat \<times> bytes) list" where
  "append_writes off k tag v =
     (let len = length v;
          header = encode_header (field_id k) (key_index k) tag (of_nat len);
          vc = val_crc_of header v;
          even' = len - len mod 2
      in [(off, header)] @
         (if even' \<noteq> 0 then [(off + HEADER_LEN, take even' v)] else []) @
         (if len mod 2 = 1 then [(off + HEADER_LEN + even', [v ! (len - 1), 0xFF])] else []) @
         [(off + HEADER_LEN + padded_len len, le16 vc)])"

definition append_rec ::
  "'f flash_ops \<Rightarrow> 'f store \<Rightarrow> key \<Rightarrow> u8 \<Rightarrow> bytes \<Rightarrow> 'f store \<times> (store_error + unit)" where
  "append_rec F st k tag v =
     (let ps = page_size F (store_flash st);
          len = length v;
          data_area = ps - PAGE_HEADER_LEN
      in if record_size len > min data_area MAX_RECORD then (st, Inl ValueTooLarge)
         else
           case (if read_page_header (as_bytes F (store_flash st)) (active_page_off st) = None
                 then program F (store_flash st) (active_page_off st) (encode_page_header (store_seq st))
                 else (store_flash st, Inr ())) of
             (fl, Inl e) \<Rightarrow> (st\<lparr>store_flash := fl\<rparr>, Inl (FlashErr e))
           | (fl, Inr u) \<Rightarrow>
               if frontier st + record_size len > active_page_off st + ps
               then (st\<lparr>store_flash := fl\<rparr>, Inl Full)
               else
                 case program_all F fl (append_writes (frontier st) k tag v) of
                   (fl, Inl e) \<Rightarrow> (st\<lparr>store_flash := fl\<rparr>, Inl (FlashErr e))
                 | (fl, Inr u) \<Rightarrow>
                     (st\<lparr>store_flash := fl, frontier := frontier st + record_size len\<rparr>, Inr ()))"

section \<open>Compaction\<close>

function copy_record ::
  "'f flash_ops \<Rightarrow> 'f \<Rightarrow> nat \<Rightarrow> nat \<Rightarrow> nat \<Rightarrow> nat \<Rightarrow> 'f \<times> (flash_error + unit)" where
  "copy_record F fl here write_off total' done =
     (if done < total' then
        let n = (if total' - done < COMPACT_CHUNK then total' - done else COMPACT_CHUNK);
            tmp = take n (drop (here + done) (as_bytes F fl))
        in case program F fl (write_off + done) tmp of
             (fl, Inl e) \<Rightarrow> (fl, Inl e)
           | (fl, Inr u) \<Rightarrow> copy_record F fl here write_off total' (done + n)
      else (fl, Inr ()))"
  by pat_completeness auto
termination
  by (relation "measure (\<lambda>(F, fl, here, write_off, total', done). total' - done)")
    (auto simp: COMPACT_CHUNK_def)

declare copy_record.simps [simp del]

function pack_log ::
  "'f flash_ops \<Rightarrow> 'f \<Rightarrow> nat \<Rightarrow> nat \<Rightarrow> nat \<Rightarrow> 'f \<times> (flash_error + nat)" where
  "pack_log F fl log_end cursor write_off =
     (if cursor < log_end then
        let region = as_bytes F fl
        in case header_unchecked region cursor of
             None \<Rightarrow> (fl, Inr write_off)
           | Some h \<Rightarrow>
               let next = step_to cursor h;
                   k = \<lparr>field_id = hdr_field_id h, key_index = hdr_index h\<rparr>
               in if \<not> is_committed region cursor h then pack_log F fl log_end next write_off
                  else if has_later_record region next log_end k then pack_log F fl log_end next write_off
                  else if hdr_type_tag h = ERASED_TAG then pack_log F fl log_end next write_off
                  else
                    let total' = record_size (unat (hdr_len h))
                    in case copy_record F fl cursor write_off total' 0 of
                         (fl, Inl e) \<Rightarrow> (fl, Inl e)
                       | (fl, Inr u) \<Rightarrow> pack_log F fl log_end next (write_off + total')
      else (fl, Inr write_off))"
  by pat_completeness auto
termination
  by (relation "measure (\<lambda>(F, fl, log_end, cursor, write_off). log_end - cursor)")
    (use step_to_gt in \<open>auto intro: diff_less_mono2\<close>)

declare pack_log.simps [simp del]

definition next_seq :: "u16 \<Rightarrow> u16" where
  "next_seq s = (let n = s + 1 in if n = SEQ_UNCOMMITTED then n + 1 else n)"

definition log_end_of :: "scan_result \<Rightarrow> nat" where
  "log_end_of r = (case r of Frontier e \<Rightarrow> e | TornHeader e \<Rightarrow> e)"

definition commit_page ::
  "'f flash_ops \<Rightarrow> 'f \<Rightarrow> nat \<Rightarrow> u16 \<Rightarrow> 'f \<times> (flash_error + unit)" where
  "commit_page F fl spare_off seq =
     (let hdr = encode_page_header seq
      in program_all F fl [(spare_off, take 4 hdr), (spare_off + 4, drop 4 hdr)])"

definition compact :: "'f flash_ops \<Rightarrow> 'f store \<Rightarrow> 'f store \<times> (store_error + unit)" where
  "compact F st =
     (let ps = page_size F (store_flash st);
          old_off = active_page_off st;
          spare_off = (if old_off = 0 then ps else 0);
          spare_page = spare_off div ps;
          new_seq = next_seq (store_seq st)
      in case (if \<not> page_is_erased (as_bytes F (store_flash st)) spare_off ps
               then erase_page F (store_flash st) spare_page else (store_flash st, Inr ())) of
           (fl, Inl e) \<Rightarrow> (st\<lparr>store_flash := fl\<rparr>, Inl (FlashErr e))
         | (fl, Inr u) \<Rightarrow>
             let log_end = log_end_of (scan_frontier (as_bytes F fl) old_off ps)
             in case pack_log F fl log_end (old_off + PAGE_HEADER_LEN) (spare_off + PAGE_HEADER_LEN) of
                  (fl, Inl e) \<Rightarrow> (st\<lparr>store_flash := fl\<rparr>, Inl (FlashErr e))
                | (fl, Inr new_frontier) \<Rightarrow>
                    case commit_page F fl spare_off new_seq of
                      (fl, committed) \<Rightarrow>
                        if committed \<noteq> Inr () \<or> read_page_header (as_bytes F fl) spare_off \<noteq> Some new_seq
                        then (st\<lparr>store_flash := fst (erase_page F fl spare_page)\<rparr>, Inl CommitFailed)
                        else
                          case erase_page F fl (old_off div ps) of
                            (fl, Inl e) \<Rightarrow> (st\<lparr>store_flash := fl\<rparr>, Inl (FlashErr e))
                          | (fl, Inr u) \<Rightarrow>
                              (\<lparr>store_flash = fl, active_page_off = spare_off,
                                frontier = new_frontier, store_seq = new_seq\<rparr>, Inr ()))"

section \<open>Mount\<close>

definition pick_side :: "bytes \<Rightarrow> nat \<Rightarrow> (nat \<times> u16) option" where
  "pick_side region ps =
     (case (read_page_header region 0, read_page_header region ps) of
        (Some s0, Some s1) \<Rightarrow> if side1_is_newer s0 s1 then Some (ps, s1) else Some (0, s0)
      | (Some s0, None) \<Rightarrow> Some (0, s0)
      | (None, Some s1) \<Rightarrow> Some (ps, s1)
      | (None, None) \<Rightarrow> None)"

definition mount :: "'f flash_ops \<Rightarrow> 'f \<Rightarrow> 'f \<times> (store_error + 'f store)" where
  "mount F fl =
     (let ps = page_size F fl; region = as_bytes F fl
      in case pick_side region ps of
           None \<Rightarrow> (fl, Inr \<lparr>store_flash = fl, active_page_off = 0, frontier = PAGE_HEADER_LEN, store_seq = 0\<rparr>)
         | Some (off, seq) \<Rightarrow>
             (case scan_frontier region off ps of
                Frontier e \<Rightarrow>
                  (fl, Inr \<lparr>store_flash = fl, active_page_off = off, frontier = e, store_seq = seq\<rparr>)
              | TornHeader e \<Rightarrow>
                  (case compact F \<lparr>store_flash = fl, active_page_off = off, frontier = 0, store_seq = seq\<rparr> of
                     (st, Inl err) \<Rightarrow> (store_flash st, Inl err)
                   | (st, Inr u) \<Rightarrow> (store_flash st, Inr st))))"

section \<open>The typed and dynamic faces\<close>

definition find_latest :: "'f flash_ops \<Rightarrow> 'f store \<Rightarrow> key \<Rightarrow> (nat \<times> header) option" where
  "find_latest F st k =
     find_from (as_bytes F (store_flash st)) (active_page_off st + page_size F (store_flash st)) k
       (active_page_off st + PAGE_HEADER_LEN) None"

definition scalar_or_default :: "stype \<Rightarrow> tagged_value \<Rightarrow> u8 \<Rightarrow> bytes \<Rightarrow> tagged_value" where
  "scalar_or_default kind dflt tag bs =
     (if tag = type_tag kind \<and> fixed_len kind = Some (length bs)
      then case value_decode kind bs of Some v \<Rightarrow> v | None \<Rightarrow> dflt
      else dflt)"

definition get_scalar :: "'f flash_ops \<Rightarrow> 'f store \<Rightarrow> key \<Rightarrow> stype \<Rightarrow> tagged_value \<Rightarrow> tagged_value" where
  "get_scalar F st k kind dflt =
     (case find_latest F st k of
        Some (off, h) \<Rightarrow>
          if hdr_type_tag h = type_tag kind
          then let bs = value_bytes (as_bytes F (store_flash st)) off h
               in if fixed_len kind = Some (length bs)
                  then case value_decode kind bs of Some v \<Rightarrow> v | None \<Rightarrow> dflt
                  else dflt
          else dflt
      | None \<Rightarrow> dflt)"

definition get_text :: "'f flash_ops \<Rightarrow> 'f store \<Rightarrow> key \<Rightarrow> bytes \<Rightarrow> bytes" where
  "get_text F st k dflt =
     (case find_latest F st k of
        Some (off, h) \<Rightarrow>
          if hdr_type_tag h = type_tag TStr then value_bytes (as_bytes F (store_flash st)) off h else dflt
      | None \<Rightarrow> dflt)"

definition get_bytes :: "'f flash_ops \<Rightarrow> 'f store \<Rightarrow> key \<Rightarrow> bytes \<Rightarrow> bytes" where
  "get_bytes F st k dflt =
     (case find_latest F st k of
        Some (off, h) \<Rightarrow>
          if hdr_type_tag h = type_tag TBlob then value_bytes (as_bytes F (store_flash st)) off h else dflt
      | None \<Rightarrow> dflt)"

definition for_each_in ::
  "'f flash_ops \<Rightarrow> 'f store \<Rightarrow> key list \<Rightarrow> (key \<Rightarrow> u8 \<Rightarrow> bytes \<Rightarrow> 'a \<Rightarrow> 'a) \<Rightarrow> 'a \<Rightarrow> 'a" where
  "for_each_in F st keys f acc =
     each_from (as_bytes F (store_flash st)) (active_page_off st + page_size F (store_flash st)) keys f
       (active_page_off st + PAGE_HEADER_LEN) acc"

definition set_scalar :: "'f flash_ops \<Rightarrow> 'f store \<Rightarrow> key \<Rightarrow> tagged_value \<Rightarrow> 'f store \<times> (store_error + unit)" where
  "set_scalar F st k v = append_rec F st k (type_tag (value_kind v)) (value_encode v)"

definition set_str :: "'f flash_ops \<Rightarrow> 'f store \<Rightarrow> key \<Rightarrow> bytes \<Rightarrow> 'f store \<times> (store_error + unit)" where
  "set_str F st k bs = append_rec F st k (type_tag TStr) bs"

definition set_bytes :: "'f flash_ops \<Rightarrow> 'f store \<Rightarrow> key \<Rightarrow> bytes \<Rightarrow> 'f store \<times> (store_error + unit)" where
  "set_bytes F st k bs = append_rec F st k (type_tag TBlob) bs"

definition get_value :: "'f flash_ops \<Rightarrow> 'f store \<Rightarrow> key \<Rightarrow> dyn_error + (tagged_value \<times> stored)" where
  "get_value F st k =
     (case lookup_key k of
        None \<Rightarrow> Inl UnknownKey
      | Some d \<Rightarrow>
          (case find_latest F st k of
             Some (off, h) \<Rightarrow>
               if hdr_type_tag h \<noteq> ERASED_TAG
               then let v = (if hdr_type_tag h = type_tag (def_kind d)
                             then case value_decode (def_kind d) (value_bytes (as_bytes F (store_flash st)) off h) of
                                    Some v \<Rightarrow> v | None \<Rightarrow> def_default d
                             else def_default d)
                    in Inr (v, Stored)
               else Inr (def_default d, NotStored)
           | None \<Rightarrow> Inr (def_default d, NotStored)))"

definition erase_value :: "'f flash_ops \<Rightarrow> 'f store \<Rightarrow> key \<Rightarrow> 'f store \<times> (dyn_error + unit)" where
  "erase_value F st k =
     (case lookup_key k of
        None \<Rightarrow> (st, Inl UnknownKey)
      | Some d \<Rightarrow>
          (case find_latest F st k of
             Some (off, h) \<Rightarrow>
               if hdr_type_tag h \<noteq> ERASED_TAG
               then (case append_rec F st k ERASED_TAG [] of
                       (st, Inl e) \<Rightarrow> (st, Inl (StoreErr e))
                     | (st, Inr u) \<Rightarrow> (st, Inr ()))
               else (st, Inr ())
           | None \<Rightarrow> (st, Inr ())))"

definition set_value :: "'f flash_ops \<Rightarrow> 'f store \<Rightarrow> key \<Rightarrow> tagged_value \<Rightarrow> 'f store \<times> (dyn_error + unit)" where
  "set_value F st k v =
     (case lookup_key k of
        None \<Rightarrow> (st, Inl UnknownKey)
      | Some d \<Rightarrow>
          if value_kind v \<noteq> def_kind d then (st, Inl TypeMismatch)
          else (case append_rec F st k (type_tag (def_kind d)) (value_encode v) of
                  (st, Inl e) \<Rightarrow> (st, Inl (StoreErr e))
                | (st, Inr u) \<Rightarrow> (st, Inr ())))"

section \<open>Digests\<close>

definition latest_unchecked :: "'f flash_ops \<Rightarrow> 'f store \<Rightarrow> key \<Rightarrow> (nat \<times> header) option" where
  "latest_unchecked F st k =
     (case latest_unchecked_from (as_bytes F (store_flash st)) (frontier st) k
             (active_page_off st + PAGE_HEADER_LEN) None of
        None \<Rightarrow> None
      | Some (off, h) \<Rightarrow> if hdr_type_tag h \<noteq> ERASED_TAG then Some (off, h) else None)"

definition digest_selects :: "effect option \<Rightarrow> field_entry \<Rightarrow> bool" where
  "digest_selects eff row =
     (case eff of
        None \<Rightarrow> scope_of (ent_field_id row) = Some ScopeMachine
      | Some e \<Rightarrow> ent_effect row = e \<and> ent_field_id row \<notin> set BOARD_OWNED)"

definition row_bytes :: "'f flash_ops \<Rightarrow> 'f store \<Rightarrow> field_entry \<Rightarrow> bytes" where
  "row_bytes F st row =
     (case latest_unchecked F st (entry_key row) of
        None \<Rightarrow> default_bytes row
      | Some (off, h) \<Rightarrow>
          let bs = value_bytes (as_bytes F (store_flash st)) off h;
              fits = (case fixed_len (ent_kind row) of None \<Rightarrow> True | Some w \<Rightarrow> w = length bs)
          in if hdr_type_tag h = type_tag (ent_kind row) \<and> fits then bs else default_bytes row)"

fun digest_rows :: "'f flash_ops \<Rightarrow> 'f store \<Rightarrow> effect option \<Rightarrow> field_entry list \<Rightarrow> crc16_acc \<Rightarrow> crc16_acc" where
  "digest_rows F st eff [] crc = crc"
| "digest_rows F st eff (row # rows) crc =
     (if \<not> digest_selects eff row then digest_rows F st eff rows crc
      else
        let crc = crc16_update crc [ent_field_id row, ent_index row, type_tag (ent_kind row)]
        in digest_rows F st eff rows (crc16_update crc (row_bytes F st row)))"

definition digest :: "'f flash_ops \<Rightarrow> 'f store \<Rightarrow> effect option \<Rightarrow> u16" where
  "digest F st eff = crc16_finish (digest_rows F st eff REGISTRY crc16_new)"

definition machine_digest :: "'f flash_ops \<Rightarrow> 'f store \<Rightarrow> u16" where
  "machine_digest F st = digest F st None"

definition effect_digest :: "'f flash_ops \<Rightarrow> 'f store \<Rightarrow> effect \<Rightarrow> u16" where
  "effect_digest F st eff = digest F st (Some eff)"

end
