(* ===== verification/StoreLog.thy ===== *)
theory StoreLog
  imports Store
begin

text \<open>
  What the bytes of a page mean. \<open>log_from\<close> reads a page as the list of its committed records, oldest
  first, and \<open>chain_end\<close> is where the walk stops; \<open>map_of (rev log)\<close> is then the abstract contents,
  newest wins. The lemmas say that every walk of the source (find, scan, the unchecked hops, the
  single pass) reads this one log, that bytes past the end of the chain do not matter to it, and that
  writing one record's image at its end appends one entry.
\<close>

type_synonym log = "(key \<times> u8 \<times> bytes) list"

definition header_key :: "header \<Rightarrow> key" where
  "header_key h = \<lparr>field_id = hdr_field_id h, key_index = hdr_index h\<rparr>"

lemma is_key_iff: "is_key k h \<longleftrightarrow> header_key h = k"
  by (auto simp: is_key_def header_key_def)

function chain_end :: "bytes \<Rightarrow> nat \<Rightarrow> nat \<Rightarrow> nat" where
  "chain_end r pe c =
     (case parse_header r c of
        Good h \<Rightarrow> if step_to c h > pe then c else chain_end r pe (step_to c h)
      | _ \<Rightarrow> c)"
  by pat_completeness auto
termination
  by (relation "measure (\<lambda>(r, pe, c). length r - c)") (auto intro: Good_step_measure)

function log_from :: "bytes \<Rightarrow> nat \<Rightarrow> nat \<Rightarrow> log" where
  "log_from r pe c =
     (case parse_header r c of
        Good h \<Rightarrow>
          if step_to c h > pe then []
          else (if is_committed r c h then [(header_key h, hdr_type_tag h, value_bytes r c h)] else []) @
               log_from r pe (step_to c h)
      | _ \<Rightarrow> [])"
  by pat_completeness auto
termination
  by (relation "measure (\<lambda>(r, pe, c). length r - c)") (auto intro: Good_step_measure)

declare chain_end.simps [simp del] log_from.simps [simp del]

definition stops :: "bytes \<Rightarrow> nat \<Rightarrow> nat \<Rightarrow> bool" where
  "stops r pe c \<longleftrightarrow> (case parse_header r c of Good h \<Rightarrow> step_to c h > pe | _ \<Rightarrow> True)"

lemma stops_simps [walk_simps]:
  "stops r pe c \<Longrightarrow> chain_end r pe c = c"
  "stops r pe c \<Longrightarrow> log_from r pe c = []"
  by (auto simp: stops_def chain_end.simps [of r pe c] log_from.simps [of r pe c] split: header_scan.splits)

lemma step_simps [walk_simps]:
  assumes "parse_header r c = Good h" "step_to c h \<le> pe"
  shows "chain_end r pe c = chain_end r pe (step_to c h)"
    and "log_from r pe c =
      (if is_committed r c h then [(header_key h, hdr_type_tag h, value_bytes r c h)] else []) @
      log_from r pe (step_to c h)"
  using assms by (simp_all add: chain_end.simps [of r pe c] log_from.simps [of r pe c])

lemma stops_or_step:
  obtains (stop) "stops r pe c" | (step) h where "parse_header r c = Good h" "step_to c h \<le> pe"
proof (cases "stops r pe c")
  case False
  then show ?thesis by (auto simp: stops_def not_less intro: step split: header_scan.splits)
qed (rule stop)

lemma chain_induct [consumes 0, case_names stop step]:
  assumes stop: "\<And>c. stops r pe c \<Longrightarrow> P c"
    and step: "\<And>c h. parse_header r c = Good h \<Longrightarrow> step_to c h \<le> pe \<Longrightarrow> P (step_to c h) \<Longrightarrow> P c"
  shows "P c"
proof (induction "length r - c" arbitrary: c rule: less_induct)
  case less
  show ?case
    by (cases r pe c rule: stops_or_step) (auto intro: stop step less Good_step_measure)
qed

lemma chain_end_ge: "c \<le> chain_end r pe c"
proof (induction c rule: chain_induct [where r = r and pe = pe])
  case (step c h)
  then show ?case using step_to_gt [of c h] by (simp add: step_simps)
qed (simp add: stops_simps)

lemma chain_end_le: "c \<le> pe \<Longrightarrow> chain_end r pe c \<le> pe"
  by (induction c rule: chain_induct [where r = r and pe = pe]) (auto simp: walk_simps)

lemma stops_chain_end: "stops r pe (chain_end r pe c)"
  by (induction c rule: chain_induct [where r = r and pe = pe]) (auto simp: walk_simps)

lemma chain_end_even: "even c \<Longrightarrow> even (chain_end r pe c)"
  by (induction c rule: chain_induct [where r = r and pe = pe]) (auto simp: walk_simps step_to_def)

lemma stops_page_end: "stops r pe pe"
  using step_to_gt [of pe] by (auto simp: stops_def split: header_scan.split)

section \<open>Every walk reads the log\<close>

lemma scan_log_end: "log_end_of (scan_log r pe c) = chain_end r pe c"
proof (induction c rule: chain_induct [where r = r and pe = pe])
  case (stop c)
  then show ?case
    by (auto simp: stops_def scan_log.simps [of r pe c] log_end_of_def stops_simps split: header_scan.splits)
next
  case (step c h)
  then show ?case
    by (auto simp: scan_log.simps [of r pe c] log_end_of_def step_simps stops_simps stops_page_end Let_def)
qed

lemma scan_log_Frontier:
  assumes "chain_end r pe c = pe \<and> c \<noteq> pe \<or> parse_header r (chain_end r pe c) = Blank"
  shows "scan_log r pe c = Frontier (chain_end r pe c)"
  using assms
proof (induction c rule: chain_induct [where r = r and pe = pe])
  case (stop c)
  then show ?case
    by (auto simp: stops_simps scan_log.simps [of r pe c])
next
  case (step c h)
  show ?case
  proof (cases "step_to c h = pe")
    case True
    then show ?thesis using step by (simp add: scan_log.simps [of r pe c] step_simps stops_simps stops_page_end)
  next
    case False
    then show ?thesis using step by (auto simp: scan_log.simps [of r pe c] step_simps)
  qed
qed

definition upd_found :: "bytes \<Rightarrow> (nat \<times> header) option \<Rightarrow> (u8 \<times> bytes) option" where
  "upd_found r found = map_option (\<lambda>(off, h). (hdr_type_tag h, value_bytes r off h)) found"

lemma upd_found_simps [simp]:
  "upd_found r None = None" "upd_found r (Some (off, h)) = Some (hdr_type_tag h, value_bytes r off h)"
  by (simp_all add: upd_found_def)

lemma find_from_log:
  "upd_found r (find_from r pe k c found) =
     (case map_of (rev (log_from r pe c)) k of None \<Rightarrow> upd_found r found | Some x \<Rightarrow> Some x)"
proof (induction c arbitrary: found rule: chain_induct [where r = r and pe = pe])
  case (stop c)
  then show ?case
    by (auto simp: stops_simps find_from.simps [of r pe k c] stops_def split: header_scan.splits)
next
  case (step c h)
  then show ?case
    by (auto simp: find_from.simps [of r pe k c] step_simps is_key_iff map_add_def split: option.splits)
qed

lemma has_later_record_log:
  assumes "chain_end r pe c = e"
  shows "has_later_record r c e k \<longleftrightarrow> k \<in> fst ` set (log_from r pe c)"
  using assms
proof (induction c rule: chain_induct [where r = r and pe = pe])
  case (stop c)
  then show ?case by (auto simp: stops_simps has_later_record.simps [of r e e k])
next
  case (step c h)
  have "c < e"
    using chain_end_ge [of "step_to c h" r pe] step_to_gt [of c h] step by (simp add: step_simps)
  then show ?case
    using step
    by (auto simp: step_simps has_later_record.simps [of r c e k] header_unchecked_of_Good is_key_iff)
qed

lemma latest_unchecked_find:
  assumes "chain_end r pe c = e"
  shows "latest_unchecked_from r e k c found = find_from r pe k c found"
  using assms
proof (induction c arbitrary: found rule: chain_induct [where r = r and pe = pe])
  case (stop c)
  then show ?case
    by (auto simp: stops_simps latest_unchecked_from.simps [of r e k e] find_from.simps [of r pe k e]
        stops_def split: header_scan.splits)
next
  case (step c h)
  have "c < e"
    using chain_end_ge [of "step_to c h" r pe] step_to_gt [of c h] step by (simp add: step_simps)
  then show ?case
    using step
    by (auto simp: step_simps latest_unchecked_from.simps [of r e k c] find_from.simps [of r pe k c]
        header_unchecked_of_Good)
qed

lemma each_from_log:
  "each_from r pe keys f c acc =
     fold (\<lambda>(k, tag, v). if k \<in> set keys then f k tag v else id) (log_from r pe c) acc"
proof (induction c arbitrary: acc rule: chain_induct [where r = r and pe = pe])
  case (stop c)
  then show ?case
    by (auto simp: stops_simps each_from.simps [of r pe keys f c] stops_def split: header_scan.splits)
next
  case (step c h)
  then show ?case
    by (auto simp: step_simps each_from.simps [of r pe keys f c] header_key_def Let_def)
qed

section \<open>Bytes past the end of the chain\<close>

lemma get_range_agree:
  assumes "length r' = length r" "\<And>i. a \<le> i \<Longrightarrow> i < b \<Longrightarrow> i < length r \<Longrightarrow> r' ! i = r ! i"
  shows "get_range r' a b = get_range r a b"
  using assms by (auto simp: get_range_def intro!: nth_equalityI)

lemma record_span:
  assumes "parse_header r c = Good h" "step_to c h \<le> e"
    and agree: "length r' = length r" "\<And>i. c \<le> i \<Longrightarrow> i < e \<Longrightarrow> i < length r \<Longrightarrow> r' ! i = r ! i"
    and inside: "e \<le> length r"
  shows "parse_header r' c = Good h" "is_committed r' c h = is_committed r c h"
    "value_bytes r' c h = value_bytes r c h"
proof -
  let ?n = "record_size (unat (hdr_len h))"
  have eq: "get_range r' c (c + ?n) = get_range r c (c + ?n)"
    using agree assms(2) by (intro get_range_agree) (auto simp: step_to_def)
  obtain s where s: "get_range r c (c + ?n) = Some s"
    using assms(2) inside by (auto simp: get_range_def step_to_def)
  have n: "HEADER_LEN \<le> ?n" by (simp add: record_size_def)
  show "parse_header r' c = Good h" "is_committed r' c h = is_committed r c h"
    "value_bytes r' c h = value_bytes r c h"
    using record_image [OF s] record_image [of r' c ?n s] eq s n assms(1) by auto
qed

lemma log_agree:
  assumes "length r' = length r" "\<And>i. c \<le> i \<Longrightarrow> i < chain_end r pe c \<Longrightarrow> i < length r \<Longrightarrow> r' ! i = r ! i"
    and "pe \<le> length r"
  shows "log_from r' pe c = log_from r pe c @ log_from r' pe (chain_end r pe c) \<and>
    chain_end r' pe c = chain_end r' pe (chain_end r pe c)"
  using assms(2)
proof (induction c rule: chain_induct [where r = r and pe = pe])
  case (stop c)
  then show ?case by (simp add: stops_simps)
next
  case (step c h)
  let ?e = "chain_end r pe c"
  have e: "?e = chain_end r pe (step_to c h)" using step by (simp add: step_simps)
  have le: "step_to c h \<le> ?e" "c < step_to c h" "?e \<le> length r"
    using chain_end_ge [of "step_to c h" r pe] chain_end_le [of "step_to c h" pe r] step_to_gt assms(3) step(2)
    by (auto simp: e)
  note sp = record_span [OF step(1) le(1) assms(1) step(4) le(3)]
  have "log_from r' pe (step_to c h) =
      log_from r pe (step_to c h) @ log_from r' pe ?e \<and>
    chain_end r' pe (step_to c h) = chain_end r' pe ?e"
    using step(3,4) le unfolding e by auto
  then show ?case
    using sp step(1,2) by (simp add: step_simps e)
qed

lemma stops_blank: "c < length r \<Longrightarrow> r ! c = 0xFF \<Longrightarrow> stops r pe c"
  by (auto simp: stops_def parse_header_def get_range_def BLANK_FIELD_ID_def HEADER_LEN_def
      split: header_scan.splits if_splits)

text \<open>The same page read over a region that agrees on it.\<close>

lemma log_page_cong:
  assumes "same_outside r r' a b" "pe \<le> a \<or> b \<le> c" "pe \<le> length r" "c \<le> pe"
    and "stops r' pe (chain_end r pe c)"
  shows "log_from r' pe c = log_from r pe c" "chain_end r' pe c = chain_end r pe c"
proof -
  have "r' ! i = r ! i" if "c \<le> i" "i < chain_end r pe c" "i < length r" for i
    using assms(1,2) that chain_end_le [OF assms(4), of r] by (auto simp: same_outside_def)
  then show "log_from r' pe c = log_from r pe c" "chain_end r' pe c = chain_end r pe c"
    using log_agree [of r' r c pe] assms(1,3,5) by (auto simp: same_outside_def stops_simps)
qed

section \<open>Writing one record at the end of the chain\<close>

lemma log_extend:
  assumes "length r' = length r" "\<And>i. c \<le> i \<Longrightarrow> i < w \<Longrightarrow> i < length r \<Longrightarrow> r' ! i = r ! i"
    and w: "chain_end r pe c = w"
    and img: "get_range r' w (w + n) = Some s" "parse_header s 0 = Good h"
      "n = record_size (unat (hdr_len h))" "is_committed s 0 h"
    and fits: "w + n \<le> pe" "pe \<le> length r"
    and after: "stops r' pe (w + n)"
  shows "log_from r' pe c = log_from r pe c @ [(header_key h, hdr_type_tag h, value_bytes s 0 h)]"
    "chain_end r' pe c = w + n"
proof -
  have n: "HEADER_LEN \<le> n" "record_size (unat (hdr_len h)) \<le> n"
    using img(3) by (simp_all add: record_size_def)
  have step: "step_to w h = w + n" using img(3) by (simp add: step_to_def)
  have at: "parse_header r' w = Good h" "is_committed r' w h" "value_bytes r' w h = value_bytes s 0 h"
    using record_image [OF img(1)] n img by auto
  have "log_from r' pe w = [(header_key h, hdr_type_tag h, value_bytes s 0 h)]" "chain_end r' pe w = w + n"
    using step_simps [OF at(1), of pe] at fits after step by (simp_all add: stops_simps)
  moreover have "log_from r' pe c = log_from r pe c @ log_from r' pe w \<and> chain_end r' pe c = chain_end r' pe w"
    using log_agree [of r' r c pe] assms(1,2) w fits by simp
  ultimately show "log_from r' pe c = log_from r pe c @ [(header_key h, hdr_type_tag h, value_bytes s 0 h)]"
    "chain_end r' pe c = w + n" by simp_all
qed

end
