(* ===== verification/StoreAppend.thy ===== *)
theory StoreAppend
  imports StoreLog "HOL-Library.Sublist"
begin

text \<open>
  What a mounted store looks like (\<open>store_ok\<close>), its abstract contents (\<open>contents\<close>), and append and
  mount against them: a finished append adds exactly one entry to the log, a failed one loses none,
  a reliable backend makes it succeed whenever the record fits, and a mount of what append left
  finds the very store that wrote it.
\<close>

definition page_log :: "'f flash_ops \<Rightarrow> 'f store \<Rightarrow> log" where
  "page_log F st =
     log_from (as_bytes F (store_flash st)) (active_page_off st + page_size F (store_flash st))
       (active_page_off st + PAGE_HEADER_LEN)"

definition contents :: "'f flash_ops \<Rightarrow> 'f store \<Rightarrow> key \<Rightarrow> (u8 \<times> bytes) option" where
  "contents F st = map_of (rev (page_log F st))"

definition region_ok :: "bytes \<Rightarrow> nat \<Rightarrow> nat \<Rightarrow> nat \<Rightarrow> u16 \<Rightarrow> bool" where
  "region_ok r ps off e seq \<longleftrightarrow>
     length r = 2 * ps \<and> PAGE_HEADER_LEN < ps \<and> 4 dvd ps \<and> (off = 0 \<or> off = ps) \<and>
     chain_end r (off + ps) (off + PAGE_HEADER_LEN) = e \<and>
     blank_span r e (off + ps) \<and> seq \<noteq> SEQ_UNCOMMITTED \<and>
     (case pick_side r ps of
        Some p \<Rightarrow> p = (off, seq)
      | None \<Rightarrow> off = 0 \<and> blank_span r 0 ps)"

definition store_ok :: "'f flash_ops \<Rightarrow> 'f store \<Rightarrow> bool" where
  "store_ok F st \<longleftrightarrow>
     region_ok (as_bytes F (store_flash st)) (page_size F (store_flash st)) (active_page_off st)
       (frontier st) (store_seq st)"

section \<open>Regions\<close>

lemma region_ok_frontier:
  assumes "region_ok r ps off e seq"
  shows "off + PAGE_HEADER_LEN \<le> e" "e \<le> off + ps" "even e" "off + ps \<le> length r"
proof -
  show "off + PAGE_HEADER_LEN \<le> e"
    using assms chain_end_ge by (auto simp: region_ok_def)
  show "e \<le> off + ps"
    using assms chain_end_le [of "off + PAGE_HEADER_LEN" "off + ps" r] by (auto simp: region_ok_def)
  have "even ps" using assms by (auto simp: region_ok_def)
  then have "even (off + PAGE_HEADER_LEN)"
    using assms by (auto simp: region_ok_def layout_defs)
  then show "even e"
    using assms chain_end_even [of "off + PAGE_HEADER_LEN" r "off + ps"] by (auto simp: region_ok_def)
  show "off + ps \<le> length r" using assms by (auto simp: region_ok_def)
qed

lemma stops_near_end: "pe < c + HEADER_LEN \<Longrightarrow> stops r pe c"
  using record_size_ge by (auto simp: stops_def step_to_def record_size_def split: header_scan.split)

lemma stops_cong:
  assumes "same_outside r r' a b" "b \<le> c \<or> pe \<le> a"
  shows "stops r' pe c = stops r pe c"
proof (cases "pe < c + HEADER_LEN")
  case True
  then show ?thesis by (simp add: stops_near_end)
next
  case False
  then have "get_range r' c (c + HEADER_LEN) = get_range r c (c + HEADER_LEN)"
    using assms by (intro get_range_same_outside) auto
  then show ?thesis using parse_header_cong [of r' c r] by (simp add: stops_def)
qed

lemma log_cong:
  assumes "same_outside r r' a b" "b \<le> c \<or> pe \<le> a" "pe \<le> length r" "c \<le> pe"
  shows "log_from r' pe c = log_from r pe c" "chain_end r' pe c = chain_end r pe c"
proof -
  have "stops r' pe (chain_end r pe c)"
    using stops_cong [OF assms(1), of "chain_end r pe c" pe] assms(2) chain_end_ge [of c r pe]
    by (auto simp: stops_chain_end)
  then show "log_from r' pe c = log_from r pe c" "chain_end r' pe c = chain_end r pe c"
    using log_page_cong [OF assms(1), of pe c] assms(2-4) by auto
qed

lemma read_page_header_cong:
  assumes "same_outside r r' a b" "b \<le> off \<or> off + PAGE_HEADER_PROGRAMMED \<le> a"
  shows "read_page_header r' off = read_page_header r off"
  using assms by (auto simp: read_page_header_def same_outside_def layout_defs PAGE_HEADER_PROGRAMMED_def)

lemma read_encoded_page_header:
  assumes "off + PAGE_HEADER_LEN \<le> length r" "seq \<noteq> SEQ_UNCOMMITTED"
  shows "read_page_header (overwrite r off (encode_page_header seq)) off = Some seq"
proof -
  have "length (encode_page_header seq) = 6" by (simp add: PAGE_HEADER_PROGRAMMED_def)
  then show ?thesis
    using assms
    by (simp add: read_page_header_def nth_overwrite layout_defs encode_page_header_def le32_def le16_def)
qed

lemma blank_span_mono: "blank_span r a b \<Longrightarrow> a \<le> a' \<Longrightarrow> b' \<le> b \<Longrightarrow> blank_span r a' b'"
  by (auto simp: blank_span_def)

lemma blank_span_cong:
  "same_outside r r' a b \<Longrightarrow> b \<le> c \<or> d \<le> a \<Longrightarrow> blank_span r' c d = blank_span r c d"
  by (auto simp: blank_span_def same_outside_def)

lemma blank_page_header_None:
  "blank_span r off (off + PAGE_HEADER_LEN) \<Longrightarrow> read_page_header r off = None"
  by (auto simp: read_page_header_def blank_span_def layout_defs MAGIC_def rd32_def)

lemma chain_end_blank: "c < length r \<Longrightarrow> blank_span r c pe \<Longrightarrow> c < pe \<Longrightarrow> stops r pe c"
  by (auto simp: blank_span_def intro: stops_blank)

lemma stops_at_blank: "blank_span r c pe \<Longrightarrow> c \<le> pe \<Longrightarrow> pe \<le> length r \<Longrightarrow> stops r pe c"
  by (cases "c = pe") (auto simp: stops_page_end chain_end_blank)

text \<open>A store with no side picked is a blank page: its chain is empty.\<close>

lemma region_ok_virgin:
  assumes "region_ok r ps off e seq" "pick_side r ps = None"
  shows "off = 0" "e = PAGE_HEADER_LEN" "log_from r ps PAGE_HEADER_LEN = []"
proof -
  show "off = 0" using assms by (simp add: region_ok_def)
  have "stops r ps PAGE_HEADER_LEN"
    using assms by (intro stops_at_blank) (auto simp: region_ok_def intro: blank_span_mono)
  then show "e = PAGE_HEADER_LEN" "log_from r ps PAGE_HEADER_LEN = []"
    using assms by (auto simp: region_ok_def stops_simps)
qed

lemma pick_side_None: "pick_side r ps = None \<longleftrightarrow> read_page_header r 0 = None \<and> read_page_header r ps = None"
  by (auto simp: pick_side_def split: option.splits)

lemma pick_side_read: "pick_side r ps = Some (off, seq) \<Longrightarrow> read_page_header r off = Some seq"
  by (auto simp: pick_side_def split: option.splits if_splits)

lemma need_header_iff:
  assumes "region_ok r ps off e seq"
  shows "read_page_header r off = None \<longleftrightarrow> pick_side r ps = None"
  using assms pick_side_read by (fastforce simp: region_ok_def pick_side_None split: option.splits)

text \<open>Programming the header of a virgin page keeps the region in order, now with a side picked.\<close>

lemma region_ok_format:
  assumes ok: "region_ok r ps off e seq" and v: "pick_side r ps = None"
  defines "r' \<equiv> overwrite r off (encode_page_header seq)"
  shows "region_ok r' ps off e seq" "pick_side r' ps = Some (off, seq)"
    "log_from r' (off + ps) (off + PAGE_HEADER_LEN) = []"
proof -
  have off: "off = 0" "length r = 2 * ps" "PAGE_HEADER_LEN < ps" "seq \<noteq> SEQ_UNCOMMITTED"
    using ok v by (auto simp: region_ok_def)
  have so: "same_outside r r' 0 6"
    using same_outside_overwrite [of 0 "encode_page_header seq" r] off
    by (auto simp: r'_def layout_defs PAGE_HEADER_PROGRAMMED_def)
  have hdr: "read_page_header r' 0 = Some seq"
    using read_encoded_page_header [of 0 r seq] off by (auto simp: r'_def)
  have other: "read_page_header r' ps = None"
    using read_page_header_cong [OF so, of ps] off v by (auto simp: pick_side_None layout_defs)
  show pick: "pick_side r' ps = Some (off, seq)"
    using hdr other off by (simp add: pick_side_def)
  show "log_from r' (off + ps) (off + PAGE_HEADER_LEN) = []"
    using log_cong [OF so, of PAGE_HEADER_LEN ps] region_ok_virgin [OF ok v] off
    by (simp add: layout_defs)
  have e: "chain_end r' ps PAGE_HEADER_LEN = e"
    using log_cong [OF so, of PAGE_HEADER_LEN ps] ok off by (simp add: layout_defs region_ok_def)
  have "blank_span r' e ps"
    using blank_span_cong [OF so, of e ps] region_ok_virgin [OF ok v] ok off
    by (simp add: layout_defs region_ok_def)
  then show "region_ok r' ps off e seq"
    using ok e off pick so by (auto simp: region_ok_def same_outside_def)
qed

text \<open>Writing a committed record's image at the frontier appends its entry.\<close>

lemma region_ok_extend:
  assumes ok: "region_ok r ps off e seq" and picked: "pick_side r ps = Some (off, seq)"
    and img: "parse_header s 0 = Good h" "length s = record_size (unat (hdr_len h))" "is_committed s 0 h"
    and fits: "e + length s \<le> off + ps"
  defines "r' \<equiv> overwrite r e s"
  shows "region_ok r' ps off (e + length s) seq"
    "log_from r' (off + ps) (off + PAGE_HEADER_LEN) =
     log_from r (off + ps) (off + PAGE_HEADER_LEN) @ [(header_key h, hdr_type_tag h, value_bytes s 0 h)]"
    "pick_side r' ps = Some (off, seq)"
proof -
  note fr = region_ok_frontier [OF ok]
  have len: "length r = 2 * ps" "off = 0 \<or> off = ps" "blank_span r e (off + ps)"
    using ok by (auto simp: region_ok_def)
  have so: "same_outside r r' e (e + length s)"
    using fits fr by (simp add: r'_def same_outside_overwrite)
  have blank: "blank_span r' (e + length s) (off + ps)"
    using blank_span_cong [OF so, of "e + length s" "off + ps"] len
    by (auto intro: blank_span_mono)
  have stops: "stops r' (off + ps) (e + length s)"
    using blank fits fr so by (intro stops_at_blank) (auto simp: same_outside_def)
  have range: "get_range r' e (e + length s) = Some s"
    using fits fr by (simp add: r'_def get_range_overwrite_inside)
  have agree: "r' ! i = r ! i" if "off + PAGE_HEADER_LEN \<le> i" "i < e" "i < length r" for i
    using so that by (auto simp: same_outside_def)
  have chain: "chain_end r (off + ps) (off + PAGE_HEADER_LEN) = e"
    using ok by (auto simp: region_ok_def)
  note ext = log_extend [OF same_outside_length [OF so] agree chain range img(1,2,3) fits fr(4) stops]
  show "log_from r' (off + ps) (off + PAGE_HEADER_LEN) =
     log_from r (off + ps) (off + PAGE_HEADER_LEN) @ [(header_key h, hdr_type_tag h, value_bytes s 0 h)]"
    by (rule ext(1))
  have "read_page_header r' 0 = read_page_header r 0" "read_page_header r' ps = read_page_header r ps"
    using len fr fits by (auto intro!: read_page_header_cong [OF so] simp: layout_defs PAGE_HEADER_PROGRAMMED_def)
  then show pick: "pick_side r' ps = Some (off, seq)"
    using picked by (simp add: pick_side_def)
  show "region_ok r' ps off (e + length s) seq"
    using ok blank ext(2) pick so by (auto simp: region_ok_def same_outside_def)
qed

section \<open>Runs of program calls\<close>

fun contiguous :: "nat \<Rightarrow> (nat \<times> bytes) list \<Rightarrow> bool" where
  "contiguous off [] \<longleftrightarrow> True"
| "contiguous off ((o', bs) # ws) \<longleftrightarrow> o' = off \<and> contiguous (off + length bs) ws"

definition written :: "(nat \<times> bytes) list \<Rightarrow> bytes" where
  "written ws = concat (map snd ws)"

lemma written_simps [simp]: "written [] = []" "written (w # ws) = snd w @ written ws"
  by (simp_all add: written_def)

lemma overwrite_overwrite:
  "off + length a \<le> length r \<Longrightarrow> overwrite (overwrite r off a) (off + length a) b = overwrite r off (a @ b)"
  by (simp add: overwrite_def ac_simps)

lemma append_writes_contiguous: "contiguous off (append_writes off k tag v)"
  by (auto simp: append_writes_def Let_def layout_defs padded_len_def min_def)

lemma append_writes_written:
  "written (append_writes off k tag v) = encode_record (field_id k) (key_index k) tag v"
proof (cases "even (length v)")
  case True
  then show ?thesis by (simp add: append_writes_def encode_record_def Let_def)
next
  case False
  then obtain w x where v: "v = w @ [x]" by (cases v rule: rev_cases) auto
  with False have "even (length w)" by simp
  then show ?thesis by (auto simp: append_writes_def encode_record_def Let_def v odd_iff_mod_2_eq_one)
qed

lemma append_writes_even:
  "(o', bs) \<in> set (append_writes off k tag v) \<Longrightarrow> even (length bs) \<and> bs \<noteq> []"
proof -
  have "even (length v - length v mod 2)" "length v - length v mod 2 \<le> length v"
    by (simp_all add: minus_mod_eq_mult_div)
  moreover have "le16 w \<noteq> []" for w by (simp add: le16_def)
  moreover have "encode_header a b c d \<noteq> []" for a b c d by (simp add: encode_header_def Let_def)
  moreover assume "(o', bs) \<in> set (append_writes off k tag v)"
  ultimately show ?thesis
    by (auto simp: append_writes_def Let_def min_absorb1 split: if_splits)
qed

context flash_backend
begin

lemma program_all_keeps:
  "ok fl \<Longrightarrow> program_all F fl ws = (fl', x) \<Longrightarrow> ok fl' \<and> page_size F fl' = page_size F fl"
proof (induction ws arbitrary: fl)
  case (Cons w ws)
  obtain fl1 x1 where step: "program F fl (fst w) (snd w) = (fl1, x1)"
    by (cases "program F fl (fst w) (snd w)")
  then show ?case
    using Cons program_keeps [OF Cons.prems(1) step] by (cases w; cases x1) auto
qed simp

lemma program_all_Ok:
  "ok fl \<Longrightarrow> contiguous off ws \<Longrightarrow> off \<le> length (as_bytes F fl) \<Longrightarrow> program_all F fl ws = (fl', Inr u) \<Longrightarrow>
    off + length (written ws) \<le> length (as_bytes F fl) \<and>
    as_bytes F fl' = overwrite (as_bytes F fl) off (written ws)"
proof (induction ws arbitrary: fl off)
  case Nil
  then show ?case by (simp add: overwrite_def)
next
  case (Cons w ws)
  obtain bs where w: "w = (off, bs)" using Cons.prems(2) by (cases w) auto
  obtain fl1 u1 where step: "program F fl off bs = (fl1, Inr u1)" and rest: "program_all F fl1 ws = (fl', Inr u)"
    using Cons.prems(4) w by (auto split: prod.splits sum.splits)
  note p = program_Ok [OF Cons.prems(1) step] program_keeps [OF Cons.prems(1) step]
  show ?case
    using Cons.IH [of fl1 "off + length bs"] p rest Cons.prems w
    by (simp add: overwrite_overwrite add.assoc)
qed

lemma program_all_same_outside:
  "ok fl \<Longrightarrow> contiguous off ws \<Longrightarrow> program_all F fl ws = (fl', x) \<Longrightarrow>
    same_outside (as_bytes F fl) (as_bytes F fl') off (off + length (written ws))"
proof (induction ws arbitrary: fl off)
  case (Cons w ws)
  obtain bs where w: "w = (off, bs)" using Cons.prems(2) by (cases w) auto
  obtain fl1 x1 where step: "program F fl off bs = (fl1, x1)" by (cases "program F fl off bs")
  note p = program_same_outside [OF Cons.prems(1) step] program_keeps [OF Cons.prems(1) step]
  show ?case
  proof (cases x1)
    case (Inl e)
    then show ?thesis using p(1) step w Cons.prems by (auto intro: same_outside_mono)
  next
    case (Inr u)
    then have "same_outside (as_bytes F fl1) (as_bytes F fl') (off + length bs)
        (off + length bs + length (written ws))"
      using Cons step w p by auto
    then show ?thesis
      using same_outside_trans [OF same_outside_mono [OF p(1)] same_outside_mono, of off
        "off + length bs + length (written ws)"] w
      by (simp add: add.assoc)
  qed
qed simp

end

section \<open>Append\<close>

lemma append_image:
  assumes "field_id k \<noteq> BLANK_FIELD_ID" "length v < 65536"
  obtains h where "parse_header (encode_record (field_id k) (key_index k) tag v) 0 = Good h"
    "is_committed (encode_record (field_id k) (key_index k) tag v) 0 h"
    "length (encode_record (field_id k) (key_index k) tag v) = record_size (unat (hdr_len h))"
    "header_key h = k" "hdr_type_tag h = tag"
    "value_bytes (encode_record (field_id k) (key_index k) tag v) 0 h = v"
    "unat (hdr_len h) = length v"
  using parse_encoded_record [OF assms(1), of "key_index k" tag v] assms(2)
    committed_encoded_record [OF assms(2), of "field_id k" "key_index k" tag]
  by (auto simp: header_key_def unsigned_of_nat take_bit_nat_def intro!: that)

lemma record_size_MAX: "record_size n \<le> min a MAX_RECORD \<Longrightarrow> n < 65536"
  using record_size_ge [of n] by (simp add: MAX_RECORD_def)

context flash_backend
begin

text \<open>The state in which append starts to write the record: a formatted page, at its frontier.\<close>

lemma append_formatted:
  assumes ok: "ok fl" and reg: "region_ok (as_bytes F fl) (page_size F fl) off e seq"
    and h: "(if read_page_header (as_bytes F fl) off = None
             then program F fl off (encode_page_header seq) else (fl, Inr ())) = (fl1, Inr u)"
  shows "ok fl1" "page_size F fl1 = page_size F fl"
    "region_ok (as_bytes F fl1) (page_size F fl) off e seq"
    "pick_side (as_bytes F fl1) (page_size F fl) = Some (off, seq)"
    "log_from (as_bytes F fl1) (off + page_size F fl) (off + PAGE_HEADER_LEN) =
     log_from (as_bytes F fl) (off + page_size F fl) (off + PAGE_HEADER_LEN)"
proof -
  show keeps: "ok fl1" "page_size F fl1 = page_size F fl"
    using h ok program_keeps by (auto split: if_splits)
  show "region_ok (as_bytes F fl1) (page_size F fl) off e seq"
    "pick_side (as_bytes F fl1) (page_size F fl) = Some (off, seq)"
    "log_from (as_bytes F fl1) (off + page_size F fl) (off + PAGE_HEADER_LEN) =
     log_from (as_bytes F fl) (off + page_size F fl) (off + PAGE_HEADER_LEN)"
  proof (atomize (full), cases "pick_side (as_bytes F fl) (page_size F fl)")
    case None
    then have "as_bytes F fl1 = overwrite (as_bytes F fl) off (encode_page_header seq)"
      using h program_Ok [OF ok] need_header_iff [OF reg] by (auto split: if_splits)
    then show "region_ok (as_bytes F fl1) (page_size F fl) off e seq \<and>
      pick_side (as_bytes F fl1) (page_size F fl) = Some (off, seq) \<and>
      log_from (as_bytes F fl1) (off + page_size F fl) (off + PAGE_HEADER_LEN) =
      log_from (as_bytes F fl) (off + page_size F fl) (off + PAGE_HEADER_LEN)"
      using region_ok_format [OF reg None] region_ok_virgin [OF reg None] by simp
  next
    case (Some p)
    then show "region_ok (as_bytes F fl1) (page_size F fl) off e seq \<and>
      pick_side (as_bytes F fl1) (page_size F fl) = Some (off, seq) \<and>
      log_from (as_bytes F fl1) (off + page_size F fl) (off + PAGE_HEADER_LEN) =
      log_from (as_bytes F fl) (off + page_size F fl) (off + PAGE_HEADER_LEN)"
      using h reg need_header_iff [OF reg] by (auto simp: region_ok_def)
  qed
qed

lemma append_Ok:
  assumes ok: "ok (store_flash st)" and st: "store_ok F st" and k: "field_id k \<noteq> BLANK_FIELD_ID"
    and run: "append_rec F st k tag v = (st', Inr u)"
  shows "ok (store_flash st')" "store_ok F st'" "page_log F st' = page_log F st @ [(k, tag, v)]"
    "page_size F (store_flash st') = page_size F (store_flash st)"
    "active_page_off st' = active_page_off st" "store_seq st' = store_seq st"
    "frontier st' = frontier st + record_size (length v)"
    "pick_side (as_bytes F (store_flash st')) (page_size F (store_flash st')) =
      Some (active_page_off st', store_seq st')"
proof -
  define ps where "ps = page_size F (store_flash st)"
  define off where "off = active_page_off st"
  define e where "e = frontier st"
  obtain fl1 u1 fl2 where
    size: "record_size (length v) \<le> min (ps - PAGE_HEADER_LEN) MAX_RECORD"
    and hdr: "(if read_page_header (as_bytes F (store_flash st)) off = None
       then program F (store_flash st) off (encode_page_header (store_seq st))
       else (store_flash st, Inr ())) = (fl1, Inr u1)"
    and fits: "e + record_size (length v) \<le> off + ps"
    and wr: "program_all F fl1 (append_writes e k tag v) = (fl2, Inr ())"
    and st': "st' = st\<lparr>store_flash := fl2, frontier := e + record_size (length v)\<rparr>"
    using run by (auto simp: append_rec_def Let_def ps_def off_def e_def not_less
      split: if_splits prod.splits sum.splits)
  have reg: "region_ok (as_bytes F (store_flash st)) ps off e (store_seq st)"
    using st by (simp add: store_ok_def ps_def off_def e_def)
  note f = append_formatted [OF ok reg [unfolded ps_def] hdr, folded ps_def]
  obtain h where h: "parse_header (encode_record (field_id k) (key_index k) tag v) 0 = Good h"
    "is_committed (encode_record (field_id k) (key_index k) tag v) 0 h"
    "length (encode_record (field_id k) (key_index k) tag v) = record_size (unat (hdr_len h))"
    "header_key h = k" "hdr_type_tag h = tag"
    "value_bytes (encode_record (field_id k) (key_index k) tag v) 0 h = v" "unat (hdr_len h) = length v"
    using append_image [OF k record_size_MAX [OF size]] by metis
  note fr = region_ok_frontier [OF f(3)]
  have r2: "as_bytes F fl2 = overwrite (as_bytes F fl1) e (encode_record (field_id k) (key_index k) tag v)"
    using program_all_Ok [OF f(1) append_writes_contiguous _ wr] fr append_writes_written by simp
  note ext = region_ok_extend [OF f(3,4) h(1,3,2), folded r2]
  have k2: "ok fl2" "page_size F fl2 = ps"
    using program_all_keeps [OF f(1) wr] f(2) by auto
  show "ok (store_flash st')" "store_ok F st'" "page_log F st' = page_log F st @ [(k, tag, v)]"
    "page_size F (store_flash st') = page_size F (store_flash st)"
    "active_page_off st' = active_page_off st" "store_seq st' = store_seq st"
    "frontier st' = frontier st + record_size (length v)"
    "pick_side (as_bytes F (store_flash st')) (page_size F (store_flash st')) =
      Some (active_page_off st', store_seq st')"
    using ext h(4-7) k2 fits f(5)
    by (simp_all add: st' store_ok_def page_log_def ps_def off_def e_def)
qed

text \<open>A refused append changes nothing; one the flash cut short loses no entry.\<close>

lemma append_refused:
  assumes "store_ok F st" "append_rec F st k tag v = (st', Inl err)" "err = Full \<or> err = ValueTooLarge"
  shows "st' = st"
proof -
  let ?r = "as_bytes F (store_flash st)" and ?ps = "page_size F (store_flash st)"
  have reg: "region_ok ?r ?ps (active_page_off st) (frontier st) (store_seq st)"
    using assms(1) by (simp add: store_ok_def)
  show ?thesis
  proof (cases "pick_side ?r ?ps")
    case None
    then have "\<not> active_page_off st + ?ps < frontier st + n" if "n \<le> ?ps - PAGE_HEADER_LEN" for n
      using region_ok_virgin [OF reg] reg that by (auto simp: region_ok_def)
    note this [of "record_size (length v)"]
    then show ?thesis
      using assms(2,3)
      by (auto simp: append_rec_def Let_def not_less split: if_splits prod.splits sum.splits)
  next
    case (Some p)
    then show ?thesis
      using assms(2,3) need_header_iff [OF reg]
      by (auto simp: append_rec_def Let_def split: if_splits prod.splits sum.splits)
  qed
qed

lemma append_cut_short:
  assumes ok: "ok (store_flash st)" and st: "store_ok F st"
    and run: "append_rec F st k tag v = (st', Inl err)"
  shows "prefix (page_log F st) (page_log F st')"
proof (cases "err = Full \<or> err = ValueTooLarge")
  case True
  then show ?thesis using append_refused [OF st run] by simp
next
  case False
  define ps where "ps = page_size F (store_flash st)"
  define off where "off = active_page_off st"
  define r where "r = as_bytes F (store_flash st)"
  have reg: "region_ok r ps off (frontier st) (store_seq st)"
    using st by (simp add: store_ok_def ps_def off_def r_def)
  from False run consider
    (hdr) fl1 e where "read_page_header r off = None"
      "program F (store_flash st) off (encode_page_header (store_seq st)) = (fl1, Inl e)"
      "st' = st\<lparr>store_flash := fl1\<rparr>"
  | (wr) fl1 u1 fl2 e where
      "(if read_page_header r off = None
       then program F (store_flash st) off (encode_page_header (store_seq st))
       else (store_flash st, Inr ())) = (fl1, Inr u1)"
      "program_all F fl1 (append_writes (frontier st) k tag v) = (fl2, Inl e)"
      "st' = st\<lparr>store_flash := fl2\<rparr>"
    by (auto simp: append_rec_def Let_def ps_def off_def r_def split: if_splits prod.splits sum.splits)
  then show ?thesis
  proof cases
    case hdr
    then have "page_log F st = []"
      using region_ok_virgin [OF reg] need_header_iff [OF reg]
      by (simp add: page_log_def r_def ps_def off_def)
    then show ?thesis by simp
  next
    case wr
    note f = append_formatted [OF ok _ wr(1) [unfolded r_def], of "frontier st",
        folded ps_def r_def, OF reg]
    have so: "same_outside (as_bytes F fl1) (as_bytes F fl2) (frontier st)
        (frontier st + length (written (append_writes (frontier st) k tag v)))"
      by (rule program_all_same_outside [OF f(1) append_writes_contiguous wr(2)])
    have chain: "chain_end (as_bytes F fl1) (off + ps) (off + PAGE_HEADER_LEN) = frontier st"
      using f(3) by (simp add: region_ok_def)
    have "as_bytes F fl2 ! i = as_bytes F fl1 ! i"
      if "i < chain_end (as_bytes F fl1) (off + ps) (off + PAGE_HEADER_LEN)" "i < length (as_bytes F fl1)" for i
      using so that by (auto simp: chain same_outside_def)
    then have "prefix (log_from (as_bytes F fl1) (off + ps) (off + PAGE_HEADER_LEN))
        (log_from (as_bytes F fl2) (off + ps) (off + PAGE_HEADER_LEN))"
      using log_agree [of "as_bytes F fl2" "as_bytes F fl1" "off + PAGE_HEADER_LEN" "off + ps"]
        same_outside_length [OF so] region_ok_frontier(4) [OF f(3)]
      by (auto simp: prefix_def)
    moreover have "page_size F fl2 = ps"
      using program_all_keeps [OF f(1) wr(2)] f(2) by simp
    ultimately show ?thesis
      using f(5) wr(3) by (simp add: page_log_def r_def ps_def off_def)
  qed
qed

end

context reliable_flash
begin

lemma program_all_succeeds:
  assumes "ok fl" "contiguous off ws" "even off" "off + length (written ws) \<le> pe"
    and "pe = page_size F fl \<or> pe = 2 * page_size F fl" "pe - page_size F fl \<le> off"
    and "\<And>o' bs. (o', bs) \<in> set ws \<Longrightarrow> even (length bs) \<and> bs \<noteq> []"
    and "blank_span (as_bytes F fl) off pe"
  shows "\<exists>fl'. program_all F fl ws = (fl', Inr ())"
  using assms
proof (induction ws arbitrary: fl off)
  case (Cons w ws)
  obtain bs where w: "w = (off, bs)" using Cons.prems(2) by (cases w) auto
  have bs: "even (length bs)" "0 < length bs" "off + length bs \<le> pe"
    using Cons.prems(4,7) w by fastforce+
  have pe: "pe \<le> length (as_bytes F fl)" "even pe"
    using Cons.prems(5) region_length [OF Cons.prems(1)] page_even [OF Cons.prems(1)] by auto
  have "blank_span (as_bytes F fl) (off + length bs) (off + length bs + 2)"
    if "(off + length bs) mod page_size F fl \<noteq> 0"
  proof -
    have "off + length bs \<noteq> pe" using that Cons.prems(5) by auto
    then have "off + length bs + 2 \<le> pe"
      using bs Cons.prems(3) pe(2) by (metis add_2_eq_Suc' dvd_add_right_iff even_Suc le_neq_implies_less not_less_eq_eq Suc_leI)
    then show ?thesis using Cons.prems(8) by (auto intro: blank_span_mono)
  qed
  then have "programmable (page_size F fl) (as_bytes F fl) off (length bs)"
    using bs pe Cons.prems(3,8) by (auto simp: programmable_def intro: blank_span_mono)
  then have "snd (program F fl off bs) = Inr ()"
    by (rule program_succeeds [OF Cons.prems(1)])
  then obtain fl1 where step: "program F fl off bs = (fl1, Inr ())" by (metis prod.collapse)
  note p = program_same_outside [OF Cons.prems(1) step] program_keeps [OF Cons.prems(1) step]
  have "blank_span (as_bytes F fl1) (off + length bs) pe"
    using blank_span_cong [OF p(1), of "off + length bs" pe] Cons.prems(8)
    by (auto intro: blank_span_mono)
  then have "\<exists>fl'. program_all F fl1 ws = (fl', Inr ())"
    using Cons.prems p bs w by (intro Cons.IH) (auto simp: add.assoc)
  then show ?case using step w by simp
qed simp

lemma append_succeeds:
  assumes ok: "ok (store_flash st)" and st: "store_ok F st"
    and size: "record_size (length v) \<le> min (page_size F (store_flash st) - PAGE_HEADER_LEN) MAX_RECORD"
    and fits: "frontier st + record_size (length v) \<le> active_page_off st + page_size F (store_flash st)"
  shows "\<exists>st'. append_rec F st k tag v = (st', Inr ())"
proof -
  define ps where "ps = page_size F (store_flash st)"
  define off where "off = active_page_off st"
  define r where "r = as_bytes F (store_flash st)"
  have reg: "region_ok r ps off (frontier st) (store_seq st)"
    using st by (simp add: store_ok_def ps_def off_def r_def)
  have offs: "off + ps = ps \<or> off + ps = 2 * ps" "even off" "PAGE_HEADER_LEN < ps"
    using reg by (auto simp: region_ok_def)
  have "\<exists>fl1. (if read_page_header r off = None
       then program F (store_flash st) off (encode_page_header (store_seq st))
       else (store_flash st, Inr ())) = (fl1, Inr ())"
  proof (cases "read_page_header r off = None")
    case True
    then have v: "off = 0" "blank_span r 0 ps"
      using need_header_iff [OF reg] reg by (auto simp: region_ok_def)
    have "\<exists>fl'. program_all F (store_flash st) [(off, encode_page_header (store_seq st))] = (fl', Inr ())"
      using v offs(3)
      by (intro program_all_succeeds [OF ok, where pe = ps])
        (auto simp: ps_def r_def PAGE_HEADER_PROGRAMMED_def layout_defs
          dest: arg_cong [where f = length])
    then show ?thesis using True by (auto split: prod.splits sum.splits)
  qed auto
  then obtain fl1 where hdr: "(if read_page_header r off = None
       then program F (store_flash st) off (encode_page_header (store_seq st))
       else (store_flash st, Inr ())) = (fl1, Inr ())" by blast
  note f = append_formatted [OF ok _ hdr [unfolded r_def], of "frontier st",
      folded ps_def r_def, OF reg]
  have "\<exists>fl2. program_all F fl1 (append_writes (frontier st) k tag v) = (fl2, Inr ())"
    using region_ok_frontier [OF f(3)] fits f(2,3) offs(1) append_writes_even append_writes_written
    by (intro program_all_succeeds [OF f(1) append_writes_contiguous, where pe = "off + ps"])
      (auto simp: ps_def off_def region_ok_def)
  then show ?thesis
    using size fits hdr by (auto simp: append_rec_def Let_def r_def off_def ps_def)
qed

end

section \<open>Mount\<close>

text \<open>
  What a mount finds of a store in order: the very same store, provided the frontier is not in the
  last seven bytes of the region, where the scan takes the clean end of the log for a torn header.
\<close>

lemma mount_same:
  assumes st: "store_ok F st"
    and picked: "pick_side (as_bytes F (store_flash st)) (page_size F (store_flash st)) =
        Some (active_page_off st, store_seq st)"
    and room: "frontier st + HEADER_LEN \<le> 2 * page_size F (store_flash st) \<or>
       frontier st = active_page_off st + page_size F (store_flash st)"
  shows "mount F (store_flash st) = (store_flash st, Inr st)"
proof -
  define ps where "ps = page_size F (store_flash st)"
  define off where "off = active_page_off st"
  define r where "r = as_bytes F (store_flash st)"
  have reg: "region_ok r ps off (frontier st) (store_seq st)"
    using st by (simp add: store_ok_def ps_def off_def r_def)
  note fr = region_ok_frontier [OF reg]
  have chain: "chain_end r (off + ps) (off + PAGE_HEADER_LEN) = frontier st"
    "PAGE_HEADER_LEN < ps" "length r = 2 * ps" "blank_span r (frontier st) (off + ps)"
    using reg by (auto simp: region_ok_def)
  have "parse_header r (frontier st) = Blank" if "frontier st < off + ps"
  proof -
    have "frontier st + HEADER_LEN \<le> length r" using that room chain by (auto simp: ps_def off_def)
    moreover have "r ! frontier st = 0xFF"
      using chain(4) that fr by (auto simp: blank_span_def)
    ultimately show ?thesis
      by (simp add: parse_header_def get_range_def BLANK_FIELD_ID_def HEADER_LEN_def)
  qed
  then have "scan_frontier r off ps = Frontier (frontier st)"
    using scan_log_Frontier [of r "off + ps" "off + PAGE_HEADER_LEN"] fr chain
    by (cases "frontier st = off + ps") (auto simp: scan_frontier_def)
  then show ?thesis
    using picked by (simp add: mount_def Let_def r_def off_def ps_def)
qed

end
