(* ===== verification/StoreCompact.thy ===== *)
theory StoreCompact
  imports StoreAppend
begin

text \<open>
  Compaction against the abstract log. \<open>survivors\<close> is what a repack must keep: the newest entry of
  every key, less the keys whose newest entry is a tombstone. The chunked copy moves a record's bytes
  verbatim, the packing walk builds exactly the survivors' chain in the spare page while the active
  page stays as it was, and the commit-then-erase order leaves one readable page at every point where
  the flash may fail.
\<close>

fun survivors :: "log \<Rightarrow> log" where
  "survivors [] = []"
| "survivors ((k, tag, v) # l) =
     (if k \<in> fst ` set l \<or> tag = ERASED_TAG then survivors l else (k, tag, v) # survivors l)"

definition live :: "(u8 \<times> bytes) option \<Rightarrow> (u8 \<times> bytes) option" where
  "live x = (case x of Some (tag, v) \<Rightarrow> if tag = ERASED_TAG then None else Some (tag, v) | None \<Rightarrow> None)"

lemma live_simps [simp]:
  "live None = None" "live (Some (tag, v)) = (if tag = ERASED_TAG then None else Some (tag, v))"
  by (simp_all add: live_def)

lemma survivors_keys: "fst ` set (survivors l) \<subseteq> fst ` set l"
  by (induction l rule: survivors.induct) auto

lemma survivors_distinct: "distinct (map fst (survivors l))"
  by (induction l rule: survivors.induct) (use survivors_keys in auto)

lemma survivors_length: "length (survivors l) \<le> length l"
  by (induction l) (auto simp: le_Suc_eq)

lemma survivors_contents: "map_of (rev (survivors l)) k = live (map_of (rev l) k)"
proof (induction l rule: survivors.induct)
  case (2 k' tag v l)
  have no: "map_of (rev l) k' = None \<longleftrightarrow> k' \<notin> fst ` set l"
    by (simp add: map_of_eq_None_iff)
  show ?case
    using 2 no by (auto simp: map_add_def live_def split: option.splits if_splits)
qed simp

section \<open>The chunked copy\<close>

lemma copy_step:
  assumes "done < total'"
  obtains n where "0 < n" "n \<le> total' - done" "n \<le> COMPACT_CHUNK" "even (total' - done) \<longrightarrow> even n"
    "copy_record F fl here w total' done =
      (case program F fl (w + done) (take n (drop (here + done) (as_bytes F fl))) of
             (fl, Inl e) \<Rightarrow> (fl, Inl e)
           | (fl, Inr u) \<Rightarrow> copy_record F fl here w total' (done + n))"
proof -
  let ?n = "if total' - done < COMPACT_CHUNK then total' - done else COMPACT_CHUNK"
  show thesis
    using assms
    by (intro that [of ?n]) (auto simp: copy_record.simps [of F fl here w total' "done"] COMPACT_CHUNK_def Let_def)
qed

lemma copy_stop: "\<not> done < total' \<Longrightarrow> copy_record F fl here w total' done = (fl, Inr ())"
  by (simp add: copy_record.simps)

context flash_backend
begin

lemma copy_record_frame:
  "ok fl \<Longrightarrow> copy_record F fl here w total' done = (fl', x) \<Longrightarrow>
     ok fl' \<and> page_size F fl' = page_size F fl \<and>
     same_outside (as_bytes F fl) (as_bytes F fl') (w + done) (w + max done total')"
proof (induction "total' - done" arbitrary: fl "done" rule: less_induct)
  case less
  show ?case
  proof (cases "done < total'")
    case True
    obtain n where n: "0 < n" "n \<le> total' - done"
      and "n \<le> COMPACT_CHUNK" "even (total' - done) \<longrightarrow> even n" and run:
      "copy_record F fl here w total' done =
        (case program F fl (w + done) (take n (drop (here + done) (as_bytes F fl))) of
             (fl, Inl e) \<Rightarrow> (fl, Inl e)
           | (fl, Inr u) \<Rightarrow> copy_record F fl here w total' (done + n))"
      by (rule copy_step [OF True, of F fl here w])
    let ?bs = "take n (drop (here + done) (as_bytes F fl))"
    obtain fl1 x1 where step: "program F fl (w + done) ?bs = (fl1, x1)"
      by (cases "program F fl (w + done) ?bs")
    have len: "length ?bs \<le> n" by simp
    note p = program_same_outside [OF less.prems(1) step] program_keeps [OF less.prems(1) step]
    have so1: "same_outside (as_bytes F fl) (as_bytes F fl1) (w + done) (w + total')"
      using p(1) len n(2) True by (auto intro: same_outside_mono)
    show ?thesis
    proof (cases x1)
      case (Inl e)
      then show ?thesis using run step p so1 less.prems(2) True by auto
    next
      case (Inr u)
      then have "copy_record F fl1 here w total' (done + n) = (fl', x)"
        using run step less.prems(2) by simp
      then have "ok fl' \<and> page_size F fl' = page_size F fl1 \<and>
          same_outside (as_bytes F fl1) (as_bytes F fl') (w + (done + n)) (w + max (done + n) total')"
        using less.hyps [of "done + n" fl1] n p True by auto
      moreover have "max (done + n) total' = total'" using n(2) True by simp
      ultimately show ?thesis
        using p True same_outside_trans [OF so1 same_outside_mono,
          of "as_bytes F fl'" "w + (done + n)" "w + total'"] by simp
    qed
  qed (use less.prems in \<open>auto simp: copy_stop\<close>)
qed

lemma copy_record_Ok:
  "ok fl \<Longrightarrow> copy_record F fl here w total' done = (fl', Inr u) \<Longrightarrow> done \<le> total' \<Longrightarrow>
     here + total' \<le> length (as_bytes F fl) \<Longrightarrow> w + done \<le> length (as_bytes F fl) \<Longrightarrow>
     here + total' \<le> w \<or> w + total' \<le> here \<Longrightarrow>
     w + total' \<le> length (as_bytes F fl) \<and>
     as_bytes F fl' = overwrite (as_bytes F fl) (w + done)
        (take (total' - done) (drop (here + done) (as_bytes F fl)))"
proof (induction "total' - done" arbitrary: fl "done" rule: less_induct)
  case less
  let ?r = "as_bytes F fl"
  show ?case
  proof (cases "done < total'")
    case True
    obtain n where n: "0 < n" "n \<le> total' - done"
      and "n \<le> COMPACT_CHUNK" "even (total' - done) \<longrightarrow> even n" and run:
      "copy_record F fl here w total' done =
        (case program F fl (w + done) (take n (drop (here + done) ?r)) of
             (fl, Inl e) \<Rightarrow> (fl, Inl e)
           | (fl, Inr u) \<Rightarrow> copy_record F fl here w total' (done + n))"
      by (rule copy_step [OF True, of F fl here w])
    let ?bs = "take n (drop (here + done) ?r)"
    obtain fl1 u1 where step: "program F fl (w + done) ?bs = (fl1, Inr u1)"
      and rest: "copy_record F fl1 here w total' (done + n) = (fl', Inr u)"
      using run less.prems(2) by (auto split: prod.splits sum.splits)
    have len: "length ?bs = n" using n(2) True less.prems(4) by simp
    note p = program_Ok [OF less.prems(1) step] program_keeps [OF less.prems(1) step]
    have so: "same_outside ?r (as_bytes F fl1) (w + done) (w + done + n)"
      using program_same_outside [OF less.prems(1) step] len by simp
    have src: "take (total' - (done + n)) (drop (here + (done + n)) (as_bytes F fl1)) =
        take (total' - (done + n)) (drop (here + (done + n)) ?r)"
    proof -
      have "get_range (as_bytes F fl1) (here + (done + n)) (here + total') =
          get_range ?r (here + (done + n)) (here + total')"
        using so less.prems(6) n(2) True
        by (intro get_range_same_outside [where a = "w + done" and b = "w + done + n"]) auto
      then show ?thesis
        using less.prems(4) same_outside_length [OF so] n(2) True
        by (cases "done + n \<le> total'") (auto simp: get_range_def)
    qed
    have "w + total' \<le> length ?r \<and>
        as_bytes F fl' = overwrite (as_bytes F fl1) (w + (done + n))
          (take (total' - (done + n)) (drop (here + (done + n)) (as_bytes F fl1)))"
      using less.hyps [of "done + n" fl1] n True p rest less.prems same_outside_length [OF so] len by auto
    moreover have "?bs @ take (total' - (done + n)) (drop (here + (done + n)) ?r) =
        take (total' - done) (drop (here + done) ?r)"
    proof -
      have "total' - done = n + (total' - (done + n))" using n(2) True by simp
      then show ?thesis by (simp add: take_add add.commute add.left_commute del: take_append)
    qed
    ultimately show ?thesis
      using overwrite_overwrite [of "w + done" ?bs ?r] p(1) len src by (simp add: add.assoc)
  qed (use less.prems in \<open>auto simp: copy_stop overwrite_def\<close>)
qed

end

context reliable_flash
begin

lemma copy_record_succeeds:
  assumes "ok fl" "even w" "even done" "even total'" "done \<le> total'" "w + total' \<le> pe"
    and "here + total' \<le> length (as_bytes F fl)" "here + total' \<le> w \<or> w + total' \<le> here"
    and "pe = page_size F fl \<or> pe = 2 * page_size F fl" "pe - page_size F fl \<le> w"
    and "blank_span (as_bytes F fl) (w + done) pe"
  shows "\<exists>fl'. copy_record F fl here w total' done = (fl', Inr ())"
  using assms
proof (induction "total' - done" arbitrary: fl "done" rule: less_induct)
  case less
  let ?r = "as_bytes F fl"
  show ?case
  proof (cases "done < total'")
    case True
    obtain n where n: "0 < n" "n \<le> total' - done"
      and "n \<le> COMPACT_CHUNK" and ev: "even (total' - done) \<longrightarrow> even n" and run:
      "copy_record F fl here w total' done =
        (case program F fl (w + done) (take n (drop (here + done) ?r)) of
             (fl, Inl e) \<Rightarrow> (fl, Inl e)
           | (fl, Inr u) \<Rightarrow> copy_record F fl here w total' (done + n))"
      by (rule copy_step [OF True, of F fl here w])
    have n_even: "even n" using ev less.prems(3,4,5) by simp
    let ?bs = "take n (drop (here + done) ?r)"
    have len: "length ?bs = n" using n(2) True less.prems(7) by simp
    have "\<exists>fl1. program_all F fl [(w + done, ?bs)] = (fl1, Inr ())"
      using n n_even len less.prems True
      by (intro program_all_succeeds [where pe = pe]) auto
    then obtain fl1 where step: "program F fl (w + done) ?bs = (fl1, Inr ())"
      by (auto split: prod.splits sum.splits)
    note p = program_same_outside [OF less.prems(1) step] program_keeps [OF less.prems(1) step]
    have "blank_span (as_bytes F fl1) (w + (done + n)) pe"
      using blank_span_cong [OF p(1), of "w + (done + n)" pe] less.prems(11) len
      by (auto intro: blank_span_mono simp: add.assoc)
    then have "\<exists>fl'. copy_record F fl1 here w total' (done + n) = (fl', Inr ())"
      using less.prems n n_even p True len
      by (intro less.hyps) (auto simp: same_outside_length)
    then show ?thesis using run step by simp
  qed (simp add: copy_stop)
qed

end

section \<open>Packing\<close>

lemma pack_stop: "\<not> c < e \<Longrightarrow> pack_log F fl e c w = (fl, Inr w)"
  by (simp add: pack_log.simps)

lemma pack_step:
  assumes "chain_end (as_bytes F fl) pe c = e" "parse_header (as_bytes F fl) c = Good h" "step_to c h \<le> pe"
  shows "pack_log F fl e c w =
     (if \<not> is_committed (as_bytes F fl) c h \<or>
         header_key h \<in> fst ` set (log_from (as_bytes F fl) pe (step_to c h)) \<or> hdr_type_tag h = ERASED_TAG
      then pack_log F fl e (step_to c h) w
      else case copy_record F fl c w (record_size (unat (hdr_len h))) 0 of
             (fl, Inl err) \<Rightarrow> (fl, Inl err)
           | (fl, Inr u) \<Rightarrow> pack_log F fl e (step_to c h) (w + record_size (unat (hdr_len h))))"
proof -
  have e: "chain_end (as_bytes F fl) pe (step_to c h) = e"
    using assms by (simp add: step_simps)
  have "c < e" using chain_end_ge [of "step_to c h" "as_bytes F fl" pe] step_to_gt [of c h] e by simp
  then show ?thesis
    using has_later_record_log [OF e] header_unchecked_of_Good [OF assms(2)]
    by (simp add: pack_log.simps [of F fl e c w] header_key_def Let_def)
qed

locale repack = flash_backend F ok for F :: "'f flash_ops" and ok :: "'f \<Rightarrow> bool" +
  fixes ps old spare :: nat
  assumes offs: "(old = 0 \<and> spare = ps) \<or> (old = ps \<and> spare = 0)" and page: "PAGE_HEADER_LEN < ps" "even ps"
begin

definition packing :: "'f \<Rightarrow> nat \<Rightarrow> nat \<Rightarrow> nat \<Rightarrow> bool" where
  "packing fl e c w \<longleftrightarrow>
     ok fl \<and> page_size F fl = ps \<and>
     chain_end (as_bytes F fl) (old + ps) c = e \<and> old + PAGE_HEADER_LEN \<le> c \<and> c \<le> old + ps \<and>
     chain_end (as_bytes F fl) (spare + ps) (spare + PAGE_HEADER_LEN) = w \<and>
     blank_span (as_bytes F fl) w (spare + ps) \<and>
     spare + PAGE_HEADER_LEN \<le> w \<and> w + old \<le> c + spare \<and> even w"

lemma packing_copied:
  assumes pk: "packing fl e c w" and h: "parse_header (as_bytes F fl) c = Good h" "step_to c h \<le> old + ps"
    and com: "is_committed (as_bytes F fl) c h"
    and copy: "copy_record F fl c w (record_size (unat (hdr_len h))) 0 = (fl', Inr u)"
  shows "packing fl' e (step_to c h) (w + record_size (unat (hdr_len h)))"
    "log_from (as_bytes F fl') (spare + ps) (spare + PAGE_HEADER_LEN) =
     log_from (as_bytes F fl) (spare + ps) (spare + PAGE_HEADER_LEN) @
       [(header_key h, hdr_type_tag h, value_bytes (as_bytes F fl) c h)]"
    "log_from (as_bytes F fl') (old + ps) (step_to c h) = log_from (as_bytes F fl) (old + ps) (step_to c h)"
proof -
  let ?r = "as_bytes F fl" and ?r' = "as_bytes F fl'" and ?n = "record_size (unat (hdr_len h))"
  have len: "length ?r = 2 * ps" using pk region_length by (auto simp: packing_def)
  have nxt: "step_to c h = c + ?n" by (simp add: step_to_def)
  have w: "w + ?n \<le> spare + ps" "old + PAGE_HEADER_LEN \<le> c"
    using pk h(2) by (auto simp: packing_def nxt)
  have fr: "ok fl'" "page_size F fl' = ps" "same_outside ?r ?r' w (w + ?n)"
    using copy_record_frame [of fl c w ?n 0 fl' "Inr u"] pk copy by (auto simp: packing_def)
  obtain s where s: "get_range ?r c (c + ?n) = Some s"
    using h(2) len offs by (auto simp: get_range_def nxt)
  then have s': "s = take ?n (drop c ?r)" "length s = ?n" by (auto simp: get_range_Some_iff)
  have apart: "c + ?n \<le> w \<or> w + ?n \<le> c"
    using offs w h(2) pk by (auto simp: packing_def nxt)
  have r': "?r' = overwrite ?r w s"
    using copy_record_Ok [of fl c w ?n 0 fl' u] pk copy apart h(2) len offs w
    by (auto simp: packing_def nxt s')
  have n: "HEADER_LEN \<le> ?n" by (simp add: record_size_def)
  have img: "parse_header s 0 = Good h" "is_committed s 0 h" "value_bytes s 0 h = value_bytes ?r c h"
    using record_image [OF s] n h(1) com by auto
  have blank: "blank_span ?r' (w + ?n) (spare + ps)"
    using blank_span_cong [OF fr(3), of "w + ?n" "spare + ps"] pk by (auto simp: packing_def intro: blank_span_mono)
  have stops: "stops ?r' (spare + ps) (w + ?n)"
    using blank w len offs same_outside_length [OF fr(3)] by (intro stops_at_blank) auto
  have range: "get_range ?r' w (w + ?n) = Some s"
    using w len offs s' by (auto simp: r' get_range_overwrite_inside)
  have agree: "?r' ! i = ?r ! i" if "spare + PAGE_HEADER_LEN \<le> i" "i < w" "i < length ?r" for i
    using fr(3) that by (auto simp: same_outside_def)
  have chain: "chain_end ?r (spare + ps) (spare + PAGE_HEADER_LEN) = w" "spare + ps \<le> length ?r"
    using pk len offs by (auto simp: packing_def)
  note ext = log_extend [OF same_outside_length [OF fr(3)] agree chain(1) range img(1) refl img(2) w(1) chain(2) stops]
  show "log_from ?r' (spare + ps) (spare + PAGE_HEADER_LEN) =
     log_from ?r (spare + ps) (spare + PAGE_HEADER_LEN) @
       [(header_key h, hdr_type_tag h, value_bytes ?r c h)]"
    using ext(1) img(3) by simp
  have sep: "w + ?n \<le> step_to c h \<or> old + ps \<le> w"
    using offs w pk h(2) by (auto simp: packing_def nxt)
  have old_le: "old + ps \<le> length ?r" using len offs by auto
  note lc = log_cong [OF fr(3) sep old_le h(2)]
  show "log_from ?r' (old + ps) (step_to c h) = log_from ?r (old + ps) (step_to c h)"
    by (rule lc(1))
  have "chain_end ?r (old + ps) (step_to c h) = e"
    using pk h by (simp add: packing_def step_simps)
  then show "packing fl' e (step_to c h) (w + ?n)"
    using pk fr blank ext(2) lc(2) h(2) w by (auto simp: packing_def nxt)
qed

lemma packing_skip:
  assumes "packing fl e c w" "parse_header (as_bytes F fl) c = Good h" "step_to c h \<le> old + ps"
  shows "packing fl e (step_to c h) w"
  using assms step_to_gt [of c h] by (auto simp: packing_def step_simps)

lemma packing_step_cases:
  assumes "packing fl e c w"
  obtains (finished) "c = e" "log_from (as_bytes F fl) (old + ps) c = []"
  | (hop) h where "parse_header (as_bytes F fl) c = Good h" "step_to c h \<le> old + ps" "c < step_to c h"
      "step_to c h \<le> e"
proof (cases "as_bytes F fl" "old + ps" c rule: stops_or_step)
  case stop
  then show ?thesis using assms by (intro finished) (auto simp: packing_def stops_simps)
next
  case (step h)
  then show ?thesis
    using assms step_to_gt chain_end_ge [of "step_to c h" "as_bytes F fl" "old + ps"]
    by (intro hop [of h]) (auto simp: packing_def step_simps)
qed

lemma pack_frame:
  assumes "packing fl e c w" "pack_log F fl e c w = (fl', x)"
  shows "ok fl' \<and> page_size F fl' = ps \<and> same_outside (as_bytes F fl) (as_bytes F fl') w (spare + ps)"
  using assms
proof (induction "e - c" arbitrary: fl c w rule: less_induct)
  case less
  show ?case
    using less.prems(1)
  proof (cases rule: packing_step_cases)
    case finished
    then show ?thesis using less.prems by (auto simp: pack_stop packing_def)
  next
    case (hop h)
    let ?n = "record_size (unat (hdr_len h))"
    have chain: "chain_end (as_bytes F fl) (old + ps) c = e" "ok fl" "page_size F fl = ps"
      using less.prems(1) by (auto simp: packing_def)
    have smaller: "e - step_to c h < e - c" using hop by auto
    note step = pack_step [OF chain(1) hop(1,2), of w]
    show ?thesis
    proof (cases "\<not> is_committed (as_bytes F fl) c h \<or>
         header_key h \<in> fst ` set (log_from (as_bytes F fl) (old + ps) (step_to c h)) \<or>
         hdr_type_tag h = ERASED_TAG")
      case True
      then show ?thesis
        using less.hyps [OF smaller packing_skip [OF less.prems(1) hop(1,2)]] step less.prems(2) by simp
    next
      case False
      obtain fl1 x1 where copy: "copy_record F fl c w ?n 0 = (fl1, x1)"
        by (cases "copy_record F fl c w ?n 0")
      note fr = copy_record_frame [OF chain(2) copy]
      have w: "w + ?n \<le> spare + ps"
        using less.prems(1) hop(2) by (auto simp: packing_def step_to_def)
      have so1: "same_outside (as_bytes F fl) (as_bytes F fl1) w (spare + ps)"
        using fr w by (auto intro: same_outside_mono)
      show ?thesis
      proof (cases x1)
        case (Inl err)
        then show ?thesis using less.prems(2) copy False step so1 fr chain(3) by auto
      next
        case (Inr u)
        have "packing fl1 e (step_to c h) (w + ?n)"
          using packing_copied(1) [OF less.prems(1) hop(1,2)] False copy Inr by auto
        moreover have "pack_log F fl1 e (step_to c h) (w + ?n) = (fl', x)"
          using less.prems(2) copy False step Inr by auto
        ultimately have "ok fl' \<and> page_size F fl' = ps \<and>
            same_outside (as_bytes F fl1) (as_bytes F fl') (w + ?n) (spare + ps)"
          by (rule less.hyps [OF smaller])
        then show ?thesis
          using same_outside_trans [OF so1 same_outside_mono, of "as_bytes F fl'" "w + ?n" "spare + ps"] by simp
      qed
    qed
  qed
qed

lemma pack_Ok:
  assumes "packing fl e c w" "pack_log F fl e c w = (fl', Inr w')"
  shows "log_from (as_bytes F fl') (spare + ps) (spare + PAGE_HEADER_LEN) =
      log_from (as_bytes F fl) (spare + ps) (spare + PAGE_HEADER_LEN) @
      survivors (log_from (as_bytes F fl) (old + ps) c) \<and>
    packing fl' e e w'"
  using assms
proof (induction "e - c" arbitrary: fl c w rule: less_induct)
  case less
  show ?case
    using less.prems(1)
  proof (cases rule: packing_step_cases)
    case finished
    then show ?thesis using less.prems by (auto simp: pack_stop)
  next
    case (hop h)
    let ?n = "record_size (unat (hdr_len h))"
    have chain: "chain_end (as_bytes F fl) (old + ps) c = e" "ok fl"
      using less.prems(1) by (auto simp: packing_def)
    have smaller: "e - step_to c h < e - c" using hop by auto
    note step = pack_step [OF chain(1) hop(1,2), of w]
    note log = step_simps(2) [OF hop(1,2)]
    show ?thesis
    proof (cases "\<not> is_committed (as_bytes F fl) c h \<or>
         header_key h \<in> fst ` set (log_from (as_bytes F fl) (old + ps) (step_to c h)) \<or>
         hdr_type_tag h = ERASED_TAG")
      case True
      then show ?thesis
        using less.hyps [OF smaller packing_skip [OF less.prems(1) hop(1,2)]] step less.prems(2) log
        by auto
    next
      case False
      then obtain fl1 u where copy: "copy_record F fl c w ?n 0 = (fl1, Inr u)"
        and rest: "pack_log F fl1 e (step_to c h) (w + ?n) = (fl', Inr w')"
        using less.prems(2) step by (auto split: prod.splits sum.splits)
      have com: "is_committed (as_bytes F fl) c h" using False by simp
      note copied = packing_copied [OF less.prems(1) hop(1,2) com copy]
      show ?thesis
        using less.hyps [OF smaller copied(1) rest] copied(2,3) log False by auto
    qed
  qed
qed

end

locale reliable_repack = repack F ok ps old spare + reliable_flash F ok
  for F :: "'f flash_ops" and ok :: "'f \<Rightarrow> bool" and ps old spare :: nat
begin

lemma pack_succeeds:
  assumes "packing fl e c w"
  shows "\<exists>fl' w'. pack_log F fl e c w = (fl', Inr w')"
  using assms
proof (induction "e - c" arbitrary: fl c w rule: less_induct)
  case less
  show ?case
    using less.prems(1)
  proof (cases rule: packing_step_cases)
    case finished
    then show ?thesis by (auto simp: pack_stop)
  next
    case (hop h)
    let ?n = "record_size (unat (hdr_len h))"
    have chain: "chain_end (as_bytes F fl) (old + ps) c = e" "ok fl" "page_size F fl = ps" "even w"
      "w + old \<le> c + spare" "spare + PAGE_HEADER_LEN \<le> w" "blank_span (as_bytes F fl) w (spare + ps)"
      using less.prems(1) by (auto simp: packing_def)
    have smaller: "e - step_to c h < e - c" using hop by auto
    note step = pack_step [OF chain(1) hop(1,2), of w]
    have w: "w + ?n \<le> spare + ps" "c + ?n \<le> length (as_bytes F fl)" "c + ?n \<le> w \<or> w + ?n \<le> c"
      using chain hop(2) offs region_length [OF chain(2)] less.prems(1)
      by (auto simp: step_to_def packing_def)
    have "\<exists>fl1. copy_record F fl c w ?n 0 = (fl1, Inr ())"
      using chain w offs by (intro copy_record_succeeds [OF chain(2), where pe = "spare + ps"]) auto
    then obtain fl1 where copy: "copy_record F fl c w ?n 0 = (fl1, Inr ())" by blast
    show ?thesis
      using less.hyps [OF smaller packing_skip [OF less.prems(1) hop(1,2)]]
        less.hyps [OF smaller packing_copied(1) [OF less.prems(1) hop(1,2) _ copy]] copy
      by (auto simp: step)
  qed
qed

end

interpretation repack_1k: reliable_repack MockFlash mock_ok 1024 0 1024
  by unfold_locales (auto simp: layout_defs)

interpretation repack_2k: reliable_repack MockFlash mock_ok 2048 2048 0
  by unfold_locales (auto simp: layout_defs)

section \<open>Compaction\<close>

definition geometry_ok :: "'f flash_ops \<Rightarrow> 'f store \<Rightarrow> bool" where
  "geometry_ok F st \<longleftrightarrow>
     PAGE_HEADER_LEN < page_size F (store_flash st) \<and> 4 dvd page_size F (store_flash st) \<and>
     (active_page_off st = 0 \<or> active_page_off st = page_size F (store_flash st))"

lemma store_ok_geometry: "store_ok F st \<Longrightarrow> geometry_ok F st"
  by (simp add: store_ok_def region_ok_def geometry_ok_def)

lemma next_seq_committed: "next_seq s \<noteq> SEQ_UNCOMMITTED"
  by (auto simp: next_seq_def SEQ_UNCOMMITTED_def Let_def)

text \<open>The spare page of a store, and the entries a page of a region holds.\<close>

definition spare_of :: "'f flash_ops \<Rightarrow> 'f store \<Rightarrow> nat" where
  "spare_of F st = (if active_page_off st = 0 then page_size F (store_flash st) else 0)"

definition side_log :: "'f flash_ops \<Rightarrow> 'f \<Rightarrow> nat \<Rightarrow> log" where
  "side_log F fl off = log_from (as_bytes F fl) (off + page_size F fl) (off + PAGE_HEADER_LEN)"

lemma page_log_side: "page_log F st = side_log F (store_flash st) (active_page_off st)"
  by (simp add: page_log_def side_log_def)

lemma page_is_erased_blank:
  "off + ps \<le> length r \<Longrightarrow> page_is_erased r off ps \<longleftrightarrow> blank_span r off (off + ps)"
  by (simp add: page_is_erased_def blank_span_list_all)

text \<open>The stages of \<open>compact\<close>, named by where it stopped.\<close>

lemma compact_stages:
  fixes F :: "'f flash_ops" and st :: "'f store"
  defines "ps \<equiv> page_size F (store_flash st)" and "old \<equiv> active_page_off st" and "spare \<equiv> spare_of F st"
    and "seq \<equiv> next_seq (store_seq st)"
  assumes run: "compact F st = (st', x)"
  obtains
    (wipe_failed) e fl1 where
      "erase_page F (store_flash st) (spare div ps) = (fl1, Inl e)"
      "st' = st\<lparr>store_flash := fl1\<rparr>" "x = Inl (FlashErr e)"
  | (pack_failed) u fl1 fl2 e where
      "(if \<not> page_is_erased (as_bytes F (store_flash st)) spare ps
        then erase_page F (store_flash st) (spare div ps) else (store_flash st, Inr ())) = (fl1, Inr u)"
      "pack_log F fl1 (log_end_of (scan_frontier (as_bytes F fl1) old ps)) (old + PAGE_HEADER_LEN)
         (spare + PAGE_HEADER_LEN) = (fl2, Inl e)"
      "st' = st\<lparr>store_flash := fl2\<rparr>" "x = Inl (FlashErr e)"
  | (packed) u fl1 fl2 w fl3 committed where
      "(if \<not> page_is_erased (as_bytes F (store_flash st)) spare ps
        then erase_page F (store_flash st) (spare div ps) else (store_flash st, Inr ())) = (fl1, Inr u)"
      "pack_log F fl1 (log_end_of (scan_frontier (as_bytes F fl1) old ps)) (old + PAGE_HEADER_LEN)
         (spare + PAGE_HEADER_LEN) = (fl2, Inr w)"
      "commit_page F fl2 spare seq = (fl3, committed)"
      "if committed \<noteq> Inr () \<or> read_page_header (as_bytes F fl3) spare \<noteq> Some seq
       then st' = st\<lparr>store_flash := fst (erase_page F fl3 (spare div ps))\<rparr> \<and> x = Inl CommitFailed
       else \<exists>fl4 r. erase_page F fl3 (old div ps) = (fl4, r) \<and>
         (case r of
            Inl e \<Rightarrow> st' = st\<lparr>store_flash := fl4\<rparr> \<and> x = Inl (FlashErr e)
          | Inr _ \<Rightarrow> st' = \<lparr>store_flash = fl4, active_page_off = spare, frontier = w, store_seq = seq\<rparr> \<and>
                     x = Inr ())"
proof -
  let ?first = "if \<not> page_is_erased (as_bytes F (store_flash st)) spare ps
        then erase_page F (store_flash st) (spare div ps) else (store_flash st, Inr ())"
  have spare: "(if old = 0 then ps else 0) = spare"
    by (simp add: spare_def spare_of_def old_def ps_def)
  note run = run [unfolded compact_def Let_def, folded ps_def old_def seq_def, unfolded spare]
  obtain fl1 r1 where first: "?first = (fl1, r1)" by (cases ?first)
  show thesis
  proof (cases r1)
    case (Inl e)
    then have er: "\<not> page_is_erased (as_bytes F (store_flash st)) spare ps"
      "erase_page F (store_flash st) (spare div ps) = (fl1, Inl e)"
      using first by (auto split: if_splits)
    show thesis
      by (rule wipe_failed [OF er(2)])
        (use run er in simp_all)
  next
    case (Inr u)
    let ?pack = "pack_log F fl1 (log_end_of (scan_frontier (as_bytes F fl1) old ps)) (old + PAGE_HEADER_LEN)
         (spare + PAGE_HEADER_LEN)"
    obtain fl2 r2 where pack: "?pack = (fl2, r2)" by (cases ?pack)
    show thesis
    proof (cases r2)
      case Inl': (Inl e)
      show thesis
        by (rule pack_failed [OF first [unfolded Inr] pack [unfolded Inl']])
          (use run first pack Inr Inl' in simp_all)
    next
      case Inr': (Inr w)
      obtain fl3 committed where commit: "commit_page F fl2 spare seq = (fl3, committed)"
        by (cases "commit_page F fl2 spare seq")
      obtain fl4 r4 where last: "erase_page F fl3 (old div ps) = (fl4, r4)"
        by (cases "erase_page F fl3 (old div ps)")
      show thesis
        by (rule packed [OF first [unfolded Inr] pack [unfolded Inr'] commit])
          (use run first pack commit last Inr Inr' in
            \<open>auto split: if_splits sum.splits\<close>)
    qed
  qed
qed

context flash_backend
begin

lemma repackI:
  assumes "geometry_ok F st"
  shows "repack F ok (page_size F (store_flash st)) (active_page_off st) (spare_of F st)"
  using assms flash_backend_axioms
  by (auto simp: repack_def repack_axioms_def geometry_ok_def spare_of_def layout_defs)

lemma side_log_cong:
  assumes "same_outside (as_bytes F fl) (as_bytes F fl') a b" "page_size F fl' = page_size F fl" "ok fl"
    and "b \<le> off + PAGE_HEADER_LEN \<or> off + page_size F fl \<le> a"
    and "off = 0 \<or> off = page_size F fl" "PAGE_HEADER_LEN < page_size F fl"
  shows "side_log F fl' off = side_log F fl off"
    "chain_end (as_bytes F fl') (off + page_size F fl) (off + PAGE_HEADER_LEN) =
     chain_end (as_bytes F fl) (off + page_size F fl) (off + PAGE_HEADER_LEN)"
  using log_cong [OF assms(1,4)] assms region_length [OF assms(3)]
  by (auto simp: side_log_def)

lemma wipe_spare:
  assumes ok: "ok fl" and sp: "spare = 0 \<or> spare = page_size F fl" and ps: "0 < page_size F fl"
    and run: "(if \<not> page_is_erased (as_bytes F fl) spare (page_size F fl)
      then erase_page F fl (spare div page_size F fl) else (fl, Inr ())) = (fl1, Inr u)"
  shows "ok fl1" "page_size F fl1 = page_size F fl"
    "blank_span (as_bytes F fl1) spare (spare + page_size F fl)"
    "same_outside (as_bytes F fl) (as_bytes F fl1) spare (spare + page_size F fl)"
proof -
  have len: "spare + page_size F fl \<le> length (as_bytes F fl)"
    using region_length [OF ok] sp by auto
  have page: "spare div page_size F fl * page_size F fl = spare"
    "Suc (spare div page_size F fl) * page_size F fl = spare + page_size F fl"
    using sp ps by auto
  show "ok fl1" "page_size F fl1 = page_size F fl"
    using run ok erase_keeps by (auto split: if_splits)
  show "same_outside (as_bytes F fl) (as_bytes F fl1) spare (spare + page_size F fl)"
    using run erase_same_outside [OF ok, of "spare div page_size F fl" fl1, unfolded page]
    by (auto split: if_splits)
  show "blank_span (as_bytes F fl1) spare (spare + page_size F fl)"
  proof (cases "page_is_erased (as_bytes F fl) spare (page_size F fl)")
    case True
    then show ?thesis using run page_is_erased_blank [OF len] by auto
  next
    case False
    then have "as_bytes F fl1 = overwrite (as_bytes F fl) spare (replicate (page_size F fl) 0xFF)"
      using run erase_Ok [OF ok] page(1) by fastforce
    then show ?thesis using len by (auto simp: blank_span_def nth_overwrite)
  qed
qed

lemma start_packing:
  assumes "geometry_ok F st" "ok fl" "page_size F fl = page_size F (store_flash st)"
    and "blank_span (as_bytes F fl) (spare_of F st) (spare_of F st + page_size F fl)"
  shows "repack.packing F ok (page_size F (store_flash st)) (active_page_off st) (spare_of F st) fl
      (log_end_of (scan_frontier (as_bytes F fl) (active_page_off st) (page_size F fl)))
      (active_page_off st + PAGE_HEADER_LEN) (spare_of F st + PAGE_HEADER_LEN)"
    and "side_log F fl (spare_of F st) = []"
proof -
  let ?ps = "page_size F (store_flash st)" and ?sp = "spare_of F st"
  have ps: "PAGE_HEADER_LEN < ?ps" "even ?ps" "?sp = 0 \<or> ?sp = ?ps"
    using assms(1) by (auto simp: geometry_ok_def spare_of_def)
  have "stops (as_bytes F fl) (?sp + ?ps) (?sp + PAGE_HEADER_LEN)"
    using assms(3,4) ps region_length [OF assms(2)]
    by (intro stops_at_blank) (auto intro: blank_span_mono)
  then show "side_log F fl ?sp = []"
    "repack.packing F ok ?ps (active_page_off st) ?sp fl
      (log_end_of (scan_frontier (as_bytes F fl) (active_page_off st) (page_size F fl)))
      (active_page_off st + PAGE_HEADER_LEN) (?sp + PAGE_HEADER_LEN)"
    using assms ps
    by (auto simp: repack.packing_def [OF repackI] scan_frontier_def scan_log_end side_log_def stops_simps
        intro: blank_span_mono) (auto simp: layout_defs)
qed

lemma commit_frame:
  assumes ok: "ok fl" and run: "commit_page F fl spare seq = (fl', x)" and len: "spare + 8 \<le> length (as_bytes F fl)"
  shows "ok fl'" "page_size F fl' = page_size F fl"
    "same_outside (as_bytes F fl) (as_bytes F fl') spare (spare + 6)"
    "x = Inr () \<Longrightarrow> as_bytes F fl' = overwrite (as_bytes F fl) spare (encode_page_header seq)"
proof -
  let ?ws = "[(spare, take 4 (encode_page_header seq)), (spare + 4, drop 4 (encode_page_header seq))]"
  have l6: "length (encode_page_header seq) = 6" by (simp add: PAGE_HEADER_PROGRAMMED_def)
  have ws: "contiguous spare ?ws" "written ?ws = encode_page_header seq"
    using l6 by (simp_all add: min_def)
  have run': "program_all F fl ?ws = (fl', x)"
    using run by (simp add: commit_page_def Let_def)
  show "ok fl'" "page_size F fl' = page_size F fl"
    using program_all_keeps [OF ok run'] by auto
  show "same_outside (as_bytes F fl) (as_bytes F fl') spare (spare + 6)"
    using program_all_same_outside [OF ok ws(1) run'] ws(2) l6 by simp
  show "as_bytes F fl' = overwrite (as_bytes F fl) spare (encode_page_header seq)" if "x = Inr ()"
    using program_all_Ok [OF ok ws(1) _ run' [unfolded that]] ws(2) len by simp
qed

text \<open>What the stages up to the commit leave: the spare holds the survivors, the active page is intact.\<close>

lemma compact_packed:
  fixes st :: "'f store"
  defines "ps \<equiv> page_size F (store_flash st)" and "old \<equiv> active_page_off st" and "spare \<equiv> spare_of F st"
  assumes ok: "ok (store_flash st)" and geo: "geometry_ok F st"
    and first: "(if \<not> page_is_erased (as_bytes F (store_flash st)) spare ps
        then erase_page F (store_flash st) (spare div ps) else (store_flash st, Inr ())) = (fl1, Inr u)"
    and pack: "pack_log F fl1 (log_end_of (scan_frontier (as_bytes F fl1) old ps)) (old + PAGE_HEADER_LEN)
         (spare + PAGE_HEADER_LEN) = (fl2, x)"
  shows "ok fl2" "page_size F fl2 = ps" "side_log F fl2 old = page_log F st"
    "blank_span (as_bytes F fl2) spare (spare + PAGE_HEADER_LEN)"
    "x = Inr w \<Longrightarrow> side_log F fl2 spare = survivors (page_log F st) \<and> even w \<and>
       chain_end (as_bytes F fl2) (spare + ps) (spare + PAGE_HEADER_LEN) = w \<and>
       blank_span (as_bytes F fl2) w (spare + ps)"
proof -
  have ps: "PAGE_HEADER_LEN < ps" "(old = 0 \<and> spare = ps) \<or> (old = ps \<and> spare = 0)"
    using geo by (auto simp: geometry_ok_def spare_of_def spare_def old_def ps_def)
  have sp: "spare = 0 \<or> spare = ps" "0 < ps" using ps by auto
  note w1 = wipe_spare [OF ok, of spare, folded ps_def, OF sp first]
  note rp = repackI [OF geo, folded ps_def old_def spare_def]
  have st1: "repack.packing F ok ps old spare fl1
      (log_end_of (scan_frontier (as_bytes F fl1) old ps)) (old + PAGE_HEADER_LEN) (spare + PAGE_HEADER_LEN)"
    "side_log F fl1 spare = []"
    using start_packing [OF geo w1(1), folded ps_def old_def spare_def] w1 by auto
  have old1: "side_log F fl1 old = page_log F st"
    using side_log_cong(1) [OF w1(4) w1(2) [unfolded ps_def] ok, of old, folded ps_def] ps
    by (auto simp: page_log_side old_def)
  note fr = repack.pack_frame [OF rp st1(1) pack]
  show keeps: "ok fl2" "page_size F fl2 = ps" using fr by auto
  have so2: "same_outside (as_bytes F fl1) (as_bytes F fl2) (spare + PAGE_HEADER_LEN) (spare + ps)"
    using fr by auto
  show "side_log F fl2 old = page_log F st"
    using side_log_cong(1) [OF so2 _ w1(1), of old] w1(2) keeps ps old1 by auto
  show "blank_span (as_bytes F fl2) spare (spare + PAGE_HEADER_LEN)"
    using blank_span_cong [OF so2, of spare "spare + PAGE_HEADER_LEN"] w1(3) ps
    by (auto intro: blank_span_mono)
  show "side_log F fl2 spare = survivors (page_log F st) \<and> even w \<and>
       chain_end (as_bytes F fl2) (spare + ps) (spare + PAGE_HEADER_LEN) = w \<and>
       blank_span (as_bytes F fl2) w (spare + ps)" if "x = Inr w"
    using repack.pack_Ok [OF rp st1(1) pack [unfolded that]] st1(2) old1 keeps w1(2)
    by (auto simp: side_log_def repack.packing_def [OF rp])
qed

lemma geometry_cases:
  assumes "geometry_ok F st"
  obtains "active_page_off st = 0" "spare_of F st = page_size F (store_flash st)" "PAGE_HEADER_LEN < page_size F (store_flash st)"
  | "active_page_off st = page_size F (store_flash st)" "spare_of F st = 0" "PAGE_HEADER_LEN < page_size F (store_flash st)"
  using assms by (auto simp: geometry_ok_def spare_of_def)

text \<open>A committed compaction: the survivors, on the other page, and a store in order.\<close>

lemma compact_Ok:
  assumes ok: "ok (store_flash st)" and geo: "geometry_ok F st" and run: "compact F st = (st', Inr u)"
  shows "ok (store_flash st')" "store_ok F st'" "page_log F st' = survivors (page_log F st)"
    "page_size F (store_flash st') = page_size F (store_flash st)"
    "active_page_off st' = spare_of F st" "store_seq st' = next_seq (store_seq st)"
    "pick_side (as_bytes F (store_flash st')) (page_size F (store_flash st')) =
      Some (active_page_off st', store_seq st')"
proof -
  define ps where "ps = page_size F (store_flash st)"
  define old where "old = active_page_off st"
  define spare where "spare = spare_of F st"
  define seq where "seq = next_seq (store_seq st)"
  obtain v fl1 fl2 w fl3 fl4 where
    first: "(if \<not> page_is_erased (as_bytes F (store_flash st)) spare ps
        then erase_page F (store_flash st) (spare div ps) else (store_flash st, Inr ())) = (fl1, Inr v)"
    and pack: "pack_log F fl1 (log_end_of (scan_frontier (as_bytes F fl1) old ps)) (old + PAGE_HEADER_LEN)
         (spare + PAGE_HEADER_LEN) = (fl2, Inr w)"
    and commit: "commit_page F fl2 spare seq = (fl3, Inr ())"
    and hdr: "read_page_header (as_bytes F fl3) spare = Some seq"
    and last: "erase_page F fl3 (old div ps) = (fl4, Inr ())"
    and st': "st' = \<lparr>store_flash = fl4, active_page_off = spare, frontier = w, store_seq = seq\<rparr>"
    using run unfolding ps_def old_def spare_def seq_def
    by (rule compact_stages) (auto split: if_splits sum.splits dest: unit_result)
  have ps: "PAGE_HEADER_LEN < ps" "(old = 0 \<and> spare = ps) \<or> (old = ps \<and> spare = 0)" "4 dvd ps"
    using geo by (auto simp: geometry_ok_def spare_of_def spare_def old_def ps_def)
  note pk = compact_packed [OF ok geo, folded ps_def old_def spare_def, OF first pack]
  note pk5 = pk(5) [OF refl]
  have len: "length (as_bytes F fl2) = 2 * ps" using region_length [OF pk(1)] pk(2) by simp
  have room: "spare + 8 \<le> length (as_bytes F fl2)" using len ps by (auto simp: layout_defs)
  note cm = commit_frame [OF pk(1) commit room]
  have sp3: "side_log F fl3 spare = survivors (page_log F st)"
    "chain_end (as_bytes F fl3) (spare + ps) (spare + PAGE_HEADER_LEN) = w"
    using side_log_cong [OF cm(3,2) pk(1), of spare] pk(2) pk5 ps by (auto simp: layout_defs)
  have page: "old div ps * ps = old" "Suc (old div ps) * ps = old + ps" using ps by (auto simp: layout_defs)
  note er = erase_keeps [OF cm(1) last]
  have so4: "same_outside (as_bytes F fl3) (as_bytes F fl4) old (old + ps)"
    using erase_same_outside [OF cm(1) last] cm(2) pk(2) page by simp
  have sp4: "side_log F fl4 spare = survivors (page_log F st)"
    "chain_end (as_bytes F fl4) (spare + ps) (spare + PAGE_HEADER_LEN) = w"
    using side_log_cong [OF so4 _ cm(1), of spare] er cm(2) pk(2) sp3 ps by auto
  have hdr4: "read_page_header (as_bytes F fl4) spare = Some seq"
    using read_page_header_cong [OF so4, of spare] hdr ps
    by (auto simp: layout_defs PAGE_HEADER_PROGRAMMED_def)
  have r4: "as_bytes F fl4 = overwrite (as_bytes F fl3) old (replicate ps 0xFF)"
    using erase_Ok [OF cm(1) last] cm(2) pk(2) page by simp
  have len3: "length (as_bytes F fl3) = 2 * ps" using region_length [OF cm(1)] cm(2) pk(2) by simp
  have "blank_span (as_bytes F fl4) old (old + PAGE_HEADER_LEN)"
    using ps len3 by (auto simp: blank_span_def r4 nth_overwrite)
  then have none: "read_page_header (as_bytes F fl4) old = None"
    by (rule blank_page_header_None)
  have pick: "pick_side (as_bytes F fl4) ps = Some (spare, seq)"
    using hdr4 none ps by (auto simp: pick_side_def)
  have w: "spare + PAGE_HEADER_LEN \<le> w"
    using chain_end_ge sp4(2) by metis
  have blank3: "blank_span (as_bytes F fl3) w (spare + ps)"
    using blank_span_cong [OF cm(3), of w "spare + ps"] pk5 w by (auto simp: layout_defs)
  have blank: "blank_span (as_bytes F fl4) w (spare + ps)"
    using blank_span_cong [OF so4, of w "spare + ps"] blank3 w ps by (auto simp: layout_defs)
  have keeps: "ok fl4" "page_size F fl4 = ps" using er cm(2) pk(2) by auto
  show "ok (store_flash st')" "page_size F (store_flash st') = page_size F (store_flash st)"
    "active_page_off st' = spare_of F st" "store_seq st' = next_seq (store_seq st)"
    "page_log F st' = survivors (page_log F st)"
    "pick_side (as_bytes F (store_flash st')) (page_size F (store_flash st')) =
      Some (active_page_off st', store_seq st')"
    using keeps sp4 pick by (simp_all add: st' ps_def spare_def seq_def page_log_side)
  show "store_ok F st'"
    using keeps sp4 pick blank ps region_length [OF keeps(1)] next_seq_committed
    by (auto simp: st' store_ok_def region_ok_def seq_def)
qed

text \<open>
  A compaction that failed: the active page still holds every entry, or (only when the erase of the
  old page is what failed) the new page is committed and holds every survivor.
\<close>

lemma compact_failed:
  assumes ok: "ok (store_flash st)" and geo: "geometry_ok F st" and run: "compact F st = (st', Inl err)"
  shows "ok (store_flash st')" "page_size F (store_flash st') = page_size F (store_flash st)"
    "active_page_off st' = active_page_off st \<and> frontier st' = frontier st \<and> store_seq st' = store_seq st"
    "page_log F st' = page_log F st \<or>
     err \<noteq> CommitFailed \<and>
     read_page_header (as_bytes F (store_flash st')) (spare_of F st) = Some (next_seq (store_seq st)) \<and>
     side_log F (store_flash st') (spare_of F st) = survivors (page_log F st)"
proof -
  define ps where "ps = page_size F (store_flash st)"
  define old where "old = active_page_off st"
  define spare where "spare = spare_of F st"
  define seq where "seq = next_seq (store_seq st)"
  have ps: "PAGE_HEADER_LEN < ps" "(old = 0 \<and> spare = ps) \<or> (old = ps \<and> spare = 0)"
    using geo by (auto simp: geometry_ok_def spare_of_def spare_def old_def ps_def)
  have page: "spare div ps * ps = spare" "Suc (spare div ps) * ps = spare + ps"
    "old div ps * ps = old" "Suc (old div ps) * ps = old + ps"
    using ps by (auto simp: layout_defs)
  have goal: "ok (store_flash st') \<and> page_size F (store_flash st') = page_size F (store_flash st) \<and>
     active_page_off st' = active_page_off st \<and> frontier st' = frontier st \<and> store_seq st' = store_seq st \<and>
     (page_log F st' = page_log F st \<or>
     err \<noteq> CommitFailed \<and>
     read_page_header (as_bytes F (store_flash st')) spare = Some seq \<and>
     side_log F (store_flash st') spare = survivors (page_log F st))"
    using run
  proof (cases rule: compact_stages)
    case (wipe_failed e fl1)
    have so: "same_outside (as_bytes F (store_flash st)) (as_bytes F fl1) spare (spare + ps)"
      using erase_same_outside [OF ok, of "spare div ps" fl1, folded ps_def, unfolded page]
        wipe_failed(1) [folded ps_def spare_def] by blast
    have keeps: "ok fl1" "page_size F fl1 = ps"
      using erase_keeps [OF ok wipe_failed(1)] by (auto simp: ps_def)
    have "side_log F fl1 old = page_log F st"
      using side_log_cong(1) [OF so _ ok, of old] keeps ps by (auto simp: page_log_side old_def ps_def)
    then show ?thesis using wipe_failed(2,3) keeps by (simp add: page_log_side old_def ps_def)
  next
    case (pack_failed u fl1 fl2 e)
    note pk = compact_packed [OF ok geo pack_failed(1,2)]
    then show ?thesis using pack_failed(3,4) by (simp add: page_log_side)
  next
    case (packed u fl1 fl2 w fl3 committed)
    note pk = compact_packed [OF ok geo packed(1,2), folded ps_def old_def spare_def]
    note pk5 = pk(5) [OF refl]
    have len: "length (as_bytes F fl2) = 2 * ps" using region_length [OF pk(1)] pk(2) by simp
    have room: "spare_of F st + 8 \<le> length (as_bytes F fl2)"
      using len ps by (auto simp: layout_defs spare_def)
    note cm = commit_frame [OF pk(1) packed(3) room, folded spare_def]
    have k3: "ok fl3" "page_size F fl3 = ps" using cm(1,2) pk(2) by auto
    have old3: "side_log F fl3 old = page_log F st"
      using side_log_cong(1) [OF cm(3,2) pk(1), of old] pk(2,3) ps by (auto simp: layout_defs)
    show ?thesis
    proof (cases "committed \<noteq> Inr () \<or> read_page_header (as_bytes F fl3) spare \<noteq> Some seq")
      case True
      obtain fl4 r4 where er: "erase_page F fl3 (spare div ps) = (fl4, r4)"
        by (cases "erase_page F fl3 (spare div ps)")
      have st': "st' = st\<lparr>store_flash := fl4\<rparr>" "err = CommitFailed"
        using packed(4) True er by (auto simp: spare_def seq_def ps_def)
      have so: "same_outside (as_bytes F fl3) (as_bytes F fl4) spare (spare + ps)"
        using erase_same_outside [OF k3(1) er] k3(2) page by simp
      have "side_log F fl4 old = page_log F st"
        using side_log_cong(1) [OF so _ k3(1), of old] erase_keeps [OF k3(1) er] k3(2) old3 ps by auto
      then show ?thesis
        using st' erase_keeps [OF k3(1) er] k3(2) by (simp add: page_log_side old_def ps_def)
    next
      case False
      then obtain fl4 e where er: "erase_page F fl3 (old div ps) = (fl4, Inl e)"
        and st': "st' = st\<lparr>store_flash := fl4\<rparr>" "err = FlashErr e"
        using packed(4) by (auto simp: spare_def seq_def ps_def old_def split: sum.splits dest: unit_result)
      have so: "same_outside (as_bytes F fl3) (as_bytes F fl4) old (old + ps)"
        using erase_same_outside [OF k3(1) er] k3(2) page by simp
      have sp3: "side_log F fl3 spare = survivors (page_log F st)"
        using side_log_cong(1) [OF cm(3,2) pk(1), of spare] pk(2) pk5 ps by (auto simp: layout_defs)
      have "side_log F fl4 spare = survivors (page_log F st)"
        using side_log_cong(1) [OF so _ k3(1), of spare] erase_keeps [OF k3(1) er] k3(2) sp3 ps by auto
      moreover have "read_page_header (as_bytes F fl4) spare = Some seq"
        using read_page_header_cong [OF so, of spare] False ps
        by (auto simp: layout_defs PAGE_HEADER_PROGRAMMED_def)
      ultimately show ?thesis
        using st' erase_keeps [OF k3(1) er] k3(2) by (simp add: ps_def)
    qed
  qed
  then show "ok (store_flash st')" "page_size F (store_flash st') = page_size F (store_flash st)"
    "active_page_off st' = active_page_off st \<and> frontier st' = frontier st \<and> store_seq st' = store_seq st"
    "page_log F st' = page_log F st \<or>
     err \<noteq> CommitFailed \<and>
     read_page_header (as_bytes F (store_flash st')) (spare_of F st) = Some (next_seq (store_seq st)) \<and>
     side_log F (store_flash st') (spare_of F st) = survivors (page_log F st)"
    by (simp_all add: spare_def seq_def)
qed

end

context reliable_flash
begin

lemma compact_succeeds:
  assumes ok: "ok (store_flash st)" and geo: "geometry_ok F st"
  shows "\<exists>st'. compact F st = (st', Inr ())"
proof -
  define ps where "ps = page_size F (store_flash st)"
  define old where "old = active_page_off st"
  define spare where "spare = spare_of F st"
  have ps: "PAGE_HEADER_LEN < ps" "(old = 0 \<and> spare = ps) \<or> (old = ps \<and> spare = 0)" "4 dvd ps"
    using geo by (auto simp: geometry_ok_def spare_of_def spare_def old_def ps_def)
  have page: "spare div ps < 2" "old div ps < 2" using ps by (auto simp: layout_defs)
  note rp = repackI [OF geo, folded ps_def old_def spare_def]
  have rrp: "reliable_repack F ok ps old spare"
    using rp reliable_flash_axioms by (simp add: reliable_repack_def)
  obtain st' x where run: "compact F st = (st', x)" by (cases "compact F st")
  have "x = Inr ()"
    using run
  proof (cases rule: compact_stages)
    case (wipe_failed e fl1)
    then show ?thesis using erase_succeeds [OF ok page(1)] by (simp add: ps_def spare_def)
  next
    case (pack_failed u fl1 fl2 e)
    have sp: "spare = 0 \<or> spare = ps" "0 < ps" using ps by auto
    note w1 = wipe_spare [OF ok, of "spare_of F st", folded ps_def spare_def, OF sp,
        OF pack_failed(1) [folded ps_def spare_def]]
    have "repack.packing F ok ps old spare fl1
      (log_end_of (scan_frontier (as_bytes F fl1) old ps)) (old + PAGE_HEADER_LEN) (spare + PAGE_HEADER_LEN)"
      using start_packing(1) [OF geo w1(1), folded ps_def old_def spare_def] w1 by auto
    from reliable_repack.pack_succeeds [OF rrp this] show ?thesis
      using pack_failed(2) by (simp add: ps_def old_def spare_def)
  next
    case (packed u fl1 fl2 w fl3 committed)
    note pk = compact_packed [OF ok geo packed(1,2), folded ps_def old_def spare_def]
    have len: "length (as_bytes F fl2) = 2 * ps" using region_length [OF pk(1)] pk(2) by simp
    have room: "spare_of F st + 8 \<le> length (as_bytes F fl2)"
      using len ps by (auto simp: layout_defs spare_def)
    have l6: "length (encode_page_header q) = 6" for q by (simp add: PAGE_HEADER_PROGRAMMED_def)
    have blank: "blank_span (as_bytes F fl2) spare (spare + 8)"
      using pk(4) by (simp add: layout_defs)
    have four: "4 dvd spare" "even spare" "\<not> 4 dvd spare + 6" "spare + 4 + 2 = spare + 6"
      using ps by (auto simp: dvd_add_right_iff)
    define seq where "seq = next_seq (store_seq st)"
    let ?h1 = "take 4 (encode_page_header seq)" and ?h2 = "drop 4 (encode_page_header seq)"
    have "programmable ps (as_bytes F fl2) spare 4"
      using blank ps(1) len room four
      by (auto simp: programmable_def layout_defs spare_def intro: blank_span_mono)
    then have "snd (program F fl2 spare ?h1) = Inr ()"
      using program_succeeds [OF pk(1), of spare ?h1] pk(2) l6 by simp
    then obtain fl2a where p1: "program F fl2 spare ?h1 = (fl2a, Inr ())" by (metis prod.collapse)
    note k1 = program_keeps [OF pk(1) p1] program_same_outside [OF pk(1) p1]
    have so1: "same_outside (as_bytes F fl2) (as_bytes F fl2a) spare (spare + 4)"
      using k1(2) l6 by (simp add: min_def)
    have "blank_span (as_bytes F fl2a) (spare + 4) (spare + 6)"
      using blank_span_cong [OF so1, of "spare + 4" "spare + 6"] blank by (auto intro: blank_span_mono)
    then have "programmable ps (as_bytes F fl2a) (spare + 4) 2"
      using room [folded spare_def] four same_outside_length [OF so1]
      unfolding programmable_def four(4) by simp
    moreover have "length ?h2 = 2" using l6 by (simp del: length_encode_page_header)
    ultimately have "snd (program F fl2a (spare + 4) ?h2) = Inr ()"
      using program_succeeds [of fl2a "spare + 4" ?h2] k1(1) pk(2) by simp
    then have com: "committed = Inr ()"
      using packed(3) p1 by (auto simp: commit_page_def Let_def spare_def seq_def split: prod.splits sum.splits)
    note cm = commit_frame [OF pk(1) packed(3) room, folded spare_def]
    have hdr: "read_page_header (as_bytes F fl3) spare = Some seq"
      using cm(4) [OF com] room next_seq_committed
        read_encoded_page_header [of spare "as_bytes F fl2" seq]
      by (simp add: seq_def spare_def layout_defs)
    show ?thesis
      using packed(4) com hdr erase_succeeds [OF cm(1) page(2)]
      by (auto simp: spare_def seq_def ps_def old_def split: sum.splits dest: unit_result)
  qed
  then show ?thesis using run by auto
qed

end

end
