(* ===== verification/StoreProps.thy ===== *)
theory StoreProps
  imports StoreCompact
begin

text \<open>
  The properties of the config store, over every flash backend that meets the contract, and their
  instances on \<open>MockFlash\<close>. The lemmas before each section relate the store's faces (\<open>get_value\<close>,
  \<open>set_value\<close>, \<open>erase_value\<close>, the digests, the single pass) to the abstract contents.
\<close>

section \<open>Reading through the faces\<close>

lemma find_latest_contents:
  "upd_found (as_bytes F (store_flash st)) (find_latest F st k) = contents F st k"
  by (simp add: find_latest_def find_from_log contents_def page_log_def split: option.split)

lemma find_latest_None: "find_latest F st k = None \<longleftrightarrow> contents F st k = None"
  using find_latest_contents [of F st k] by (auto simp: upd_found_def)

lemma find_latest_Some:
  assumes "find_latest F st k = Some (off, h)"
  shows "contents F st k = Some (hdr_type_tag h, value_bytes (as_bytes F (store_flash st)) off h)"
  using find_latest_contents [of F st k] assms by simp

definition read_value :: "field_def \<Rightarrow> (u8 \<times> bytes) option \<Rightarrow> tagged_value \<times> stored" where
  "read_value d x =
     (case live x of
        None \<Rightarrow> (def_default d, NotStored)
      | Some (tag, bs) \<Rightarrow>
          (if tag = type_tag (def_kind d)
           then case value_decode (def_kind d) bs of Some v \<Rightarrow> v | None \<Rightarrow> def_default d
           else def_default d, Stored))"

lemma get_value_contents:
  "get_value F st k =
     (case lookup_key k of None \<Rightarrow> Inl UnknownKey | Some d \<Rightarrow> Inr (read_value d (contents F st k)))"
proof (cases "find_latest F st k")
  case None
  then show ?thesis
    using find_latest_None [of F st k]
    by (simp add: get_value_def read_value_def split: option.split)
next
  case (Some x)
  then obtain off h where x: "find_latest F st k = Some (off, h)" by (cases x) auto
  show ?thesis
    using find_latest_Some [OF x] x
    by (simp add: get_value_def read_value_def Let_def split: option.split)
qed

lemma contents_append: "page_log F st' = page_log F st @ [(k, x)] \<Longrightarrow> contents F st' = (contents F st)(k \<mapsto> x)"
  by (auto simp: contents_def)

lemma contents_survivors: "page_log F st' = survivors (page_log F st) \<Longrightarrow> contents F st' k = live (contents F st k)"
  by (simp add: contents_def survivors_contents)

context reliable_flash begin

lemma append_result:
  assumes "ok (store_flash st)" "store_ok F st"
  shows "snd (append_rec F st k tag v) =
    (if record_size (length v) > min (page_size F (store_flash st) - PAGE_HEADER_LEN) MAX_RECORD
     then Inl ValueTooLarge
     else if frontier st + record_size (length v) > active_page_off st + page_size F (store_flash st)
     then Inl Full else Inr ())"
proof -
  let ?r = "as_bytes F (store_flash st)" and ?ps = "page_size F (store_flash st)"
  have reg: "region_ok ?r ?ps (active_page_off st) (frontier st) (store_seq st)"
    using assms(2) by (simp add: store_ok_def)
  consider (large) "record_size (length v) > min (?ps - PAGE_HEADER_LEN) MAX_RECORD"
    | (full) "record_size (length v) \<le> min (?ps - PAGE_HEADER_LEN) MAX_RECORD"
        "frontier st + record_size (length v) > active_page_off st + ?ps"
    | (fits) "record_size (length v) \<le> min (?ps - PAGE_HEADER_LEN) MAX_RECORD"
        "frontier st + record_size (length v) \<le> active_page_off st + ?ps"
    by linarith
  then show ?thesis
  proof cases
    case large
    then show ?thesis by (simp add: append_rec_def Let_def)
  next
    case full
    have "pick_side ?r ?ps \<noteq> None"
    proof
      assume "pick_side ?r ?ps = None"
      from region_ok_virgin [OF reg this] reg full show False by (auto simp: region_ok_def)
    qed
    then show ?thesis
      using full need_header_iff [OF reg] by (auto simp: append_rec_def Let_def)
  next
    case fits
    then show ?thesis using append_succeeds [OF assms fits, of k tag] by auto
  qed
qed

end

section \<open>Dynamic writes\<close>

lemma type_tag_live [simp]: "live (Some (type_tag k, bs)) = Some (type_tag k, bs)"
  by simp

lemma read_value_stored [simp]:
  "value_kind v = def_kind d \<Longrightarrow> read_value d (Some (type_tag (def_kind d), value_encode v)) = (v, Stored)"
  using value_round_trip [of v] by (simp add: read_value_def)

lemma set_value_cases:
  "set_value F st k v = (st', x) \<longleftrightarrow>
     (lookup_key k = None \<and> st' = st \<and> x = Inl UnknownKey) \<or>
     (\<exists>d. lookup_key k = Some d \<and>
        (value_kind v \<noteq> def_kind d \<and> st' = st \<and> x = Inl TypeMismatch \<or>
         value_kind v = def_kind d \<and>
         (\<exists>y. append_rec F st k (type_tag (def_kind d)) (value_encode v) = (st', y) \<and>
           x = (case y of Inl e \<Rightarrow> Inl (StoreErr e) | Inr u \<Rightarrow> Inr ()))))"
  by (auto simp: set_value_def split: option.splits prod.splits sum.splits if_splits)

lemma erase_value_cases:
  "erase_value F st k = (st', x) \<longleftrightarrow>
     (lookup_key k = None \<and> st' = st \<and> x = Inl UnknownKey) \<or>
     (lookup_key k \<noteq> None \<and> live (contents F st k) = None \<and> st' = st \<and> x = Inr ()) \<or>
     (lookup_key k \<noteq> None \<and> live (contents F st k) \<noteq> None \<and>
       (\<exists>y. append_rec F st k ERASED_TAG [] = (st', y) \<and>
           x = (case y of Inl e \<Rightarrow> Inl (StoreErr e) | Inr u \<Rightarrow> Inr ())))"
proof (cases "find_latest F st k")
  case None
  then show ?thesis
    using find_latest_None [of F st k] by (auto simp: erase_value_def split: option.splits)
next
  case (Some p)
  then obtain off h where p: "find_latest F st k = Some (off, h)" by (cases p) auto
  show ?thesis
    using find_latest_Some [OF p] p
    by (auto simp: erase_value_def split: option.splits prod.splits sum.splits if_splits)
qed

section \<open>Digests\<close>

definition effective_bytes :: "field_entry \<Rightarrow> (u8 \<times> bytes) option \<Rightarrow> bytes" where
  "effective_bytes row x =
     (case live x of
        None \<Rightarrow> default_bytes row
      | Some (tag, bs) \<Rightarrow>
          if tag = type_tag (ent_kind row) \<and> (\<forall>w. fixed_len (ent_kind row) = Some w \<longrightarrow> w = length bs)
          then bs else default_bytes row)"

lemma row_bytes_effective:
  assumes "store_ok F st"
  shows "row_bytes F st row = effective_bytes row (contents F st (entry_key row))"
proof -
  let ?k = "entry_key row"
  have hop: "latest_unchecked_from (as_bytes F (store_flash st)) (frontier st) ?k
      (active_page_off st + PAGE_HEADER_LEN) None = find_latest F st ?k"
    using assms latest_unchecked_find by (auto simp: find_latest_def store_ok_def region_ok_def)
  show ?thesis
  proof (cases "find_latest F st ?k")
    case None
    then show ?thesis
      using find_latest_None [of F st ?k] hop
      by (simp add: row_bytes_def latest_unchecked_def effective_bytes_def)
  next
    case (Some p)
    then obtain off h where p: "find_latest F st ?k = Some (off, h)" by (cases p) auto
    show ?thesis
      using find_latest_Some [OF p] p hop
      by (auto simp: row_bytes_def latest_unchecked_def effective_bytes_def Let_def split: option.splits)
  qed
qed

lemma digest_rows_modbus:
  "acc_crc (digest_rows F st eff rows crc) =
     fold_bytes (acc_crc crc)
       (concat (map (\<lambda>row. [ent_field_id row, ent_index row, type_tag (ent_kind row)] @ row_bytes F st row)
          (filter (digest_selects eff) rows)))"
  by (induction F st eff rows crc rule: digest_rows.induct) (simp_all add: crc16_update_def Let_def)

definition digest_spec :: "effect option \<Rightarrow> (key \<Rightarrow> (u8 \<times> bytes) option) \<Rightarrow> u16" where
  "digest_spec eff c =
     modbus (concat (map (\<lambda>row. [ent_field_id row, ent_index row, type_tag (ent_kind row)] @
         effective_bytes row (c (entry_key row)))
       (filter (digest_selects eff) REGISTRY)))"

lemma digest_contents: "store_ok F st \<Longrightarrow> digest F st eff = digest_spec eff (contents F st)"
  by (simp add: digest_def digest_spec_def crc16_finish_def digest_rows_modbus crc16_new_def modbus_def
      row_bytes_effective)

text \<open>A stored value the API wrote: its own type's tag over its own encoding.\<close>

definition well_typed :: "(key \<Rightarrow> (u8 \<times> bytes) option) \<Rightarrow> bool" where
  "well_typed c \<longleftrightarrow>
     (\<forall>row \<in> set REGISTRY. \<forall>tag bs. c (entry_key row) = Some (tag, bs) \<longrightarrow>
        tag = ERASED_TAG \<or>
        (\<exists>v. value_kind v = ent_kind row \<and> tag = type_tag (ent_kind row) \<and> bs = value_encode v))"

lemma find_distinct_key: "row \<in> set es \<Longrightarrow> distinct (map entry_key es) \<Longrightarrow> find (\<lambda>e. entry_key e = entry_key row) es = Some row"
  by (induction es) (auto simp: image_iff)

lemma lookup_key_row: "row \<in> set REGISTRY \<Longrightarrow> lookup_key (entry_key row) = Some (row_descr row)"
proof -
  assume "row \<in> set REGISTRY"
  moreover have "distinct (map entry_key REGISTRY)"
    by (simp add: REGISTRY_def new_row_def entry_key_def)
  ultimately have "find (\<lambda>e. entry_key e = entry_key row) REGISTRY = Some row"
    by (rule find_distinct_key)
  then show ?thesis by (simp add: lookup_key_def lookup_rows_exact)
qed

section \<open>A fresh store\<close>

definition fresh_store :: "nat \<Rightarrow> mock_flash store" where
  "fresh_store ps = \<lparr>store_flash = mock_erased ps, active_page_off = 0, frontier = PAGE_HEADER_LEN, store_seq = 0\<rparr>"

lemma fresh_blank: "blank_span (replicate n 0xFF) a b"
  by (simp add: blank_span_def)

lemma fresh_ok:
  assumes "8 < ps" "4 dvd ps"
  shows "mock_ok (store_flash (fresh_store ps))" "store_ok MockFlash (fresh_store ps)"
    "page_log MockFlash (fresh_store ps) = []"
    "mount MockFlash (mock_erased ps) = (mock_erased ps, Inr (fresh_store ps))"
proof -
  let ?r = "replicate (2 * ps) (0xFF :: u8)"
  show "mock_ok (store_flash (fresh_store ps))"
    using assms by (simp add: fresh_store_def mock_erased_ok)
  have none: "read_page_header ?r off = None" for off
    by (rule blank_page_header_None [OF fresh_blank])
  then have pick: "pick_side ?r ps = None" by (simp add: pick_side_None)
  have stops: "stops ?r ps PAGE_HEADER_LEN"
    using assms by (intro stops_at_blank fresh_blank) (auto simp: layout_defs)
  show "store_ok MockFlash (fresh_store ps)"
    using assms pick stops
    by (simp add: store_ok_def region_ok_def fresh_store_def mock_erased_def stops_simps fresh_blank
        layout_defs SEQ_UNCOMMITTED_def)
  show "page_log MockFlash (fresh_store ps) = []"
    using stops by (simp add: page_log_def fresh_store_def mock_erased_def stops_simps)
  show "mount MockFlash (mock_erased ps) = (mock_erased ps, Inr (fresh_store ps))"
    using pick by (simp add: mount_def mock_erased_def fresh_store_def Let_def)
qed

lemma fresh_append:
  assumes "8 < ps" "4 dvd ps" "record_size (length v) \<le> ps - 8" "record_size (length v) \<le> 272"
  shows "\<exists>st'. append_rec MockFlash (fresh_store ps) k tag v = (st', Inr ())"
  using fresh_ok [OF assms(1,2)] assms
  by (intro mock.append_succeeds)
    (simp_all add: fresh_store_def mock_erased_def layout_defs MAX_RECORD_def)

lemma read_value_effective:
  assumes "row \<in> set REGISTRY" "well_typed c"
  shows "effective_bytes row (c (entry_key row)) = value_encode (fst (read_value (row_descr row) (c (entry_key row))))"
proof -
  have ok: "ent_kind row \<notin> {TU64, TI64, TBool}"
    using assms(1) REGISTRY_rows_ok by (auto simp: row_ok_def list_all_iff)
  note dflt = default_bytes_encode [OF ok]
  have kind: "def_kind (row_descr row) = ent_kind row" by (simp add: row_descr_def)
  show ?thesis
  proof (cases "live (c (entry_key row))")
    case None
    then show ?thesis by (simp add: effective_bytes_def read_value_def dflt)
  next
    case (Some x)
    then obtain tag bs where "c (entry_key row) = Some (tag, bs)" "tag \<noteq> ERASED_TAG"
      by (auto simp: live_def split: option.splits if_splits)
    moreover from this assms have "tag = ERASED_TAG \<or>
        (\<exists>v. value_kind v = ent_kind row \<and> tag = type_tag (ent_kind row) \<and> bs = value_encode v)"
      unfolding well_typed_def by blast
    ultimately obtain v where v: "value_kind v = ent_kind row"
      and c: "c (entry_key row) = Some (type_tag (ent_kind row), value_encode v)"
      by auto
    have "value_decode (ent_kind row) (value_encode v) = Some v"
      "\<forall>w. fixed_len (ent_kind row) = Some w \<longrightarrow> w = length (value_encode v)"
      using value_encode_width [of v] value_round_trip [of v] v by auto
    then show ?thesis by (simp add: effective_bytes_def read_value_def c kind)
  qed
qed

section \<open>The log\<close>

text \<open>C11: A compaction that returns Ok keeps the newest value of every key and drops exactly the
  tombstoned ones: for every backend meeting the flash contract and every store whose page geometry is
  right (whatever its pages hold, torn records and torn headers included), the new contents are the old
  ones with tombstones read as absent; the new page holds one record per key, and the store is in
  order again, on the other page with the next sequence number.\<close>

theorem compact_preserves:
  assumes "flash_backend F ok" "ok (store_flash st)" "geometry_ok F st" "compact F st = (st', Inr u)"
  shows "store_ok F st' \<and> (\<forall>k. contents F st' k = live (contents F st k)) \<and>
     distinct (map fst (page_log F st')) \<and> ERASED_TAG \<notin> fst ` snd ` set (page_log F st') \<and>
     active_page_off st' = spare_of F st \<and> store_seq st' = next_seq (store_seq st)"
proof -
  note c = flash_backend.compact_Ok [OF assms]
  have "ERASED_TAG \<notin> fst ` snd ` set (survivors l)" for l
    by (induction l rule: survivors.induct) auto
  then show ?thesis
    using c contents_survivors [OF c(3)] survivors_distinct by (auto simp: c(3))
qed

lemma compact_preserves_witness:
  "\<exists>st st'. append_rec MockFlash (fresh_store 64) \<lparr>field_id = 1, key_index = 0\<rparr> 1 [7] = (st, Inr ()) \<and>
     compact MockFlash st = (st', Inr ()) \<and>
     contents MockFlash st' \<lparr>field_id = 1, key_index = 0\<rparr> = Some (1, [7])"
proof -
  let ?k = "\<lparr>field_id = 1, key_index = 0\<rparr>"
  obtain st where st: "append_rec MockFlash (fresh_store 64) ?k 1 [7] = (st, Inr ())"
    using fresh_append [of 64 "[7]" ?k 1] by (auto simp: record_size_def padded_len_def layout_defs)
  have f: "mock_ok (store_flash (fresh_store 64))" "store_ok MockFlash (fresh_store 64)"
    by (simp_all add: fresh_ok)
  have "field_id ?k \<noteq> BLANK_FIELD_ID" by (simp add: BLANK_FIELD_ID_def)
  note a = mock.append_Ok [OF f this st]
  obtain st' where st': "compact MockFlash st = (st', Inr ())"
    using mock.compact_succeeds [OF a(1) store_ok_geometry [OF a(2)]] by blast
  have "contents MockFlash st ?k = Some (1, [7])"
    using contents_append [OF a(3)] by simp
  then show ?thesis
    using compact_preserves [OF mock.flash_backend_axioms a(1) store_ok_geometry [OF a(2)] st'] st st'
    by (auto simp: ERASED_TAG_def)
qed

text \<open>C12: A compaction never loses data when it fails. Whatever call the flash refuses or cuts short,
  the store keeps its active page, and that page still reads the same log; the one exception is a
  failed erase of the old page, when the new page is already committed under the next sequence number
  and holds every survivor. \<open>CommitFailed\<close> always leaves the active page's log as it was.\<close>

theorem compact_failure_safe:
  assumes "flash_backend F ok" "ok (store_flash st)" "geometry_ok F st" "compact F st = (st', Inl err)"
  shows "active_page_off st' = active_page_off st \<and> store_seq st' = store_seq st \<and>
    (page_log F st' = page_log F st \<or>
     err \<noteq> CommitFailed \<and>
     read_page_header (as_bytes F (store_flash st')) (spare_of F st) = Some (next_seq (store_seq st)) \<and>
     side_log F (store_flash st') (spare_of F st) = survivors (page_log F st))"
  using flash_backend.compact_failed [OF assms] by simp

lemma compact_failure_safe_witness:
  "\<exists>st'. compact FailingMockFlash
      \<lparr>store_flash = failing_new (mock_erased 64) 0, active_page_off = 0, frontier = 8, store_seq = 0\<rparr> =
        (st', Inl CommitFailed) \<and> page_log FailingMockFlash st' =
      page_log FailingMockFlash
        \<lparr>store_flash = failing_new (mock_erased 64) 0, active_page_off = 0, frontier = 8, store_seq = 0\<rparr>"
proof -
  let ?st = "\<lparr>store_flash = failing_new (mock_erased 64) 0, active_page_off = 0, frontier = 8, store_seq = 0\<rparr>"
  let ?r = "replicate 128 (0xFF :: u8)"
  have stops: "stops ?r 64 8" by (intro stops_at_blank fresh_blank) simp_all
  have e: "scan_frontier ?r 0 64 = Frontier 8"
    by (simp add: scan_frontier_def layout_defs scan_log.simps [of ?r] parse_header_def get_range_def
        BLANK_FIELD_ID_def)
  have er: "page_is_erased ?r 64 64" by (simp add: page_is_erased_def list_all_length)
  have "snd (compact FailingMockFlash ?st) = Inl CommitFailed"
    by (simp add: compact_def FailingMockFlash_def failing_new_def mock_erased_def Let_def er e log_end_of_def
        pack_stop layout_defs commit_page_def failing_program_def)
  then obtain st' where st': "compact FailingMockFlash ?st = (st', Inl CommitFailed)"
    by (metis prod.collapse)
  have "mock_ok (inner (store_flash ?st))" "geometry_ok FailingMockFlash ?st"
    by (simp_all add: failing_new_def mock_erased_ok geometry_ok_def FailingMockFlash_def)
      (simp_all add: mock_erased_def layout_defs)
  from compact_failure_safe [OF failing.flash_backend_axioms this st'] st' show ?thesis by auto
qed

text \<open>On a backend that obeys the silicon's write rules (halfword aligned, write-once, the closed
  halfword of the word below included) compaction always succeeds: from any page contents, the packing
  order, the chunking and the magic-then-seq commit never ask for a write the flash refuses, the
  survivors always fit, and the commit reads back.\<close>

theorem compact_always_succeeds:
  assumes "reliable_flash F ok" "ok (store_flash st)" "geometry_ok F st"
  shows "\<exists>st'. compact F st = (st', Inr ())"
  by (rule reliable_flash.compact_succeeds [OF assms])

lemma compact_always_succeeds_witness:
  "\<exists>st'. compact MockFlash (fresh_store 1024) = (st', Inr ())"
  by (rule compact_always_succeeds [OF mock.reliable_flash_axioms])
    (simp_all add: fresh_ok store_ok_geometry)

text \<open>C13: An append that returns Ok adds exactly one entry, its own, at the end of the log: the key reads
  the new value, every other key reads what it read before, and the store stays in order with its
  frontier moved by the record's size. The key only must not be the blank id, which no registered
  field has.\<close>

theorem append_adds_entry:
  assumes "flash_backend F ok" "ok (store_flash st)" "store_ok F st" "field_id k \<noteq> BLANK_FIELD_ID"
    and "append_rec F st k tag v = (st', Inr u)"
  shows "store_ok F st' \<and> page_log F st' = page_log F st @ [(k, tag, v)] \<and>
    contents F st' = (contents F st)(k \<mapsto> (tag, v)) \<and>
    frontier st' = frontier st + record_size (length v)"
  using flash_backend.append_Ok [OF assms] contents_append by blast

lemma append_adds_entry_witness:
  "\<exists>st'. append_rec MockFlash (fresh_store 1024) \<lparr>field_id = 2, key_index = 0\<rparr> 0x0A [0x41, 0x42, 0x43] =
      (st', Inr ()) \<and> frontier st' = 22 \<and>
     contents MockFlash st' \<lparr>field_id = 2, key_index = 0\<rparr> = Some (0x0A, [0x41, 0x42, 0x43])"
proof -
  let ?k = "\<lparr>field_id = 2, key_index = 0\<rparr>"
  obtain st where st: "append_rec MockFlash (fresh_store 1024) ?k 0x0A [0x41, 0x42, 0x43] = (st, Inr ())"
    using fresh_append [of 1024 "[0x41, 0x42, 0x43]" ?k "0x0A"] by (auto simp: record_size_def padded_len_def layout_defs)
  have "field_id ?k \<noteq> BLANK_FIELD_ID" by (simp add: BLANK_FIELD_ID_def)
  moreover have "mock_ok (store_flash (fresh_store 1024))" "store_ok MockFlash (fresh_store 1024)"
    by (simp_all add: fresh_ok)
  ultimately show ?thesis
    using append_adds_entry [OF mock.flash_backend_axioms _ _ _ st] st
    by (auto simp: record_size_def padded_len_def layout_defs fresh_store_def)
qed

text \<open>Power loss during an append never touches what was committed: whatever prefix of the writes the
  flash took, the entries of the page afterwards start with the entries before, in order.\<close>

theorem append_interrupted:
  assumes "flash_backend F ok" "ok (store_flash st)" "store_ok F st"
    and "append_rec F st k tag v = (st', Inl err)"
  shows "prefix (page_log F st) (page_log F st') \<and>
    (err = Full \<or> err = ValueTooLarge \<longrightarrow> st' = st)"
  using flash_backend.append_cut_short [OF assms] flash_backend.append_refused [OF assms(1,3,4)] by blast

lemma append_interrupted_witness:
  "\<exists>st'. append_rec MockFlash (fresh_store 16) \<lparr>field_id = 2, key_index = 0\<rparr> 1 [0] = (st', Inl ValueTooLarge) \<and>
     st' = fresh_store 16"
proof -
  have "append_rec MockFlash (fresh_store 16) \<lparr>field_id = 2, key_index = 0\<rparr> 1 [0] =
      (fresh_store 16, Inl ValueTooLarge)"
    by (simp add: append_rec_def fresh_store_def mock_erased_def record_size_def padded_len_def layout_defs
        MAX_RECORD_def)
  from append_interrupted [OF mock.flash_backend_axioms _ _ this] this show ?thesis by (auto simp: fresh_ok)
qed

text \<open>On a backend that obeys the write rules the outcome of an append is decided by sizes alone:
  \<open>ValueTooLarge\<close> when the record exceeds a clean page or the 272-byte cap, \<open>Full\<close> when it does not fit
  behind the frontier, Ok otherwise.\<close>

theorem append_outcome:
  assumes "reliable_flash F ok" "ok (store_flash st)" "store_ok F st"
  shows "snd (append_rec F st k tag v) =
    (if record_size (length v) > min (page_size F (store_flash st) - PAGE_HEADER_LEN) MAX_RECORD
     then Inl ValueTooLarge
     else if frontier st + record_size (length v) > active_page_off st + page_size F (store_flash st)
     then Inl Full else Inr ())"
  by (rule reliable_flash.append_result [OF assms])

lemma append_outcome_witness:
  "snd (append_rec MockFlash (fresh_store 32) \<lparr>field_id = 2, key_index = 0\<rparr> 9 (replicate 14 0)) = Inr () \<and>
   snd (append_rec MockFlash (fresh_store 32) \<lparr>field_id = 2, key_index = 0\<rparr> 9 (replicate 15 0)) = Inl ValueTooLarge"
  using append_outcome [OF mock.reliable_flash_axioms, of "fresh_store 32"]
  by (simp add: fresh_ok) (simp add: fresh_store_def mock_erased_def record_size_def padded_len_def layout_defs MAX_RECORD_def)





section \<open>The dynamic face\<close>

text \<open>C16: Read after write on the dynamic path: a \<open>set_value\<close> that returns Ok makes \<open>get_value\<close> of that
  key answer exactly the value written, reported as stored, and leaves the answer for every other key
  (whether value, default or error) as it was.\<close>

theorem set_value_then_get:
  assumes "flash_backend F ok" "ok (store_flash st)" "store_ok F st"
    and "set_value F st k v = (st', Inr u)"
  shows "get_value F st' k = Inr (v, Stored) \<and> (\<forall>k'. k' \<noteq> k \<longrightarrow> get_value F st' k' = get_value F st k') \<and>
    store_ok F st'"
proof -
  obtain d where d: "lookup_key k = Some d" "value_kind v = def_kind d"
    and a: "append_rec F st k (type_tag (def_kind d)) (value_encode v) = (st', Inr ())"
    using assms(4) by (auto simp: set_value_cases split: sum.splits dest: unit_result)
  note ap = flash_backend.append_Ok [OF assms(1-3) lookup_key_sound(2) [OF d(1)] a]
  show ?thesis
    using ap(2) contents_append [OF ap(3)] d by (simp add: get_value_contents split: option.split)
qed

lemma name_row: "lookup_key DEVICE_NAME = Some (row_descr (new_row 0x02 0 TStr 0 Boot))"
  by (simp add: lookup_key_def REGISTRY_def new_row_def DEVICE_NAME_def)

lemma fresh_set_name:
  obtains st' where "set_value MockFlash (fresh_store 1024) DEVICE_NAME (VStr [0x41]) = (st', Inr ())"
proof -
  obtain st where "append_rec MockFlash (fresh_store 1024) DEVICE_NAME (type_tag TStr) [0x41] = (st, Inr ())"
    using fresh_append [of 1024 "[0x41]" DEVICE_NAME "type_tag TStr"]
    by (auto simp: record_size_def padded_len_def layout_defs)
  then show thesis
    by (intro that) (simp add: set_value_def name_row row_descr_def new_row_def)
qed

lemma set_value_then_get_witness:
  "\<exists>st'. set_value MockFlash (fresh_store 1024) DEVICE_NAME (VStr [0x41]) = (st', Inr ()) \<and>
     get_value MockFlash st' DEVICE_NAME = Inr (VStr [0x41], Stored)"
proof -
  obtain st' where st': "set_value MockFlash (fresh_store 1024) DEVICE_NAME (VStr [0x41]) = (st', Inr ())"
    by (rule fresh_set_name)
  have "mock_ok (store_flash (fresh_store 1024))" "store_ok MockFlash (fresh_store 1024)"
    by (simp_all add: fresh_ok)
  from set_value_then_get [OF mock.flash_backend_axioms this st'] st' show ?thesis by blast
qed

text \<open>The dynamic write checks before it writes: an unregistered key is \<open>UnknownKey\<close>, a value of
  another type than the row's is \<open>TypeMismatch\<close>, both with the store untouched; otherwise the result is
  the append's own, of the row's tag over the value's encoding.\<close>

theorem set_value_outcome:
  "set_value F st k v =
    (case lookup_key k of
       None \<Rightarrow> (st, Inl UnknownKey)
     | Some d \<Rightarrow>
         if value_kind v \<noteq> def_kind d then (st, Inl TypeMismatch)
         else (fst (append_rec F st k (type_tag (value_kind v)) (value_encode v)),
               case snd (append_rec F st k (type_tag (value_kind v)) (value_encode v)) of
                 Inl e \<Rightarrow> Inl (StoreErr e) | Inr u \<Rightarrow> Inr ()))"
  by (auto simp: set_value_def split: option.split prod.split sum.split)

text \<open>Un-storing a key: after \<open>erase_value\<close> returns Ok the key reads its registered default and is
  reported not stored, and every other key reads as before; a key that held nothing is left alone, so
  erasing twice writes one tombstone.\<close>

theorem erase_value_then_get:
  assumes "flash_backend F ok" "ok (store_flash st)" "store_ok F st"
    and "erase_value F st k = (st', Inr u)"
  shows "(\<exists>d. lookup_key k = Some d \<and> get_value F st' k = Inr (def_default d, NotStored)) \<and>
    (\<forall>k'. k' \<noteq> k \<longrightarrow> get_value F st' k' = get_value F st k') \<and>
    store_ok F st' \<and> erase_value F st' k = (st', Inr ())"
proof -
  obtain d where d: "lookup_key k = Some d"
    using assms(4) by (auto simp: erase_value_cases)
  have read: "read_value d x = (def_default d, NotStored)" if "live x = None" for x
    using that by (simp add: read_value_def)
  show ?thesis
  proof (cases "live (contents F st k)")
    case None
    then have "st' = st" using assms(4) by (auto simp: erase_value_cases)
    then show ?thesis
      using None d assms(3) read by (auto simp: get_value_contents erase_value_cases)
  next
    case (Some x)
    then have a: "append_rec F st k ERASED_TAG [] = (st', Inr ())"
      using assms(4) by (auto simp: erase_value_cases split: sum.splits dest: unit_result)
    note ap = flash_backend.append_Ok [OF assms(1-3) lookup_key_sound(2) [OF d] a]
    show ?thesis
      using ap(2) contents_append [OF ap(3)] d read
      by (auto simp: get_value_contents erase_value_cases split: option.split)
  qed
qed

lemma erase_value_then_get_witness:
  "erase_value MockFlash (fresh_store 1024) DEVICE_NAME = (fresh_store 1024, Inr ()) \<and>
   (\<exists>d. lookup_key DEVICE_NAME = Some d \<and>
      get_value MockFlash (fresh_store 1024) DEVICE_NAME = Inr (def_default d, NotStored))"
proof -
  have "contents MockFlash (fresh_store 1024) DEVICE_NAME = None"
    by (simp add: contents_def fresh_ok)
  then have e: "erase_value MockFlash (fresh_store 1024) DEVICE_NAME = (fresh_store 1024, Inr ())"
    by (simp add: erase_value_cases name_row)
  have "mock_ok (store_flash (fresh_store 1024))" "store_ok MockFlash (fresh_store 1024)"
    by (simp_all add: fresh_ok)
  from erase_value_then_get [OF mock.flash_backend_axioms this e] e show ?thesis by blast
qed

text \<open>The digests (machine, reboot, re-arm) are a function of what \<open>get_value\<close> answers: for a store
  whose registered keys hold only values the API wrote, \<open>digest\<close> is the CRC over the selected registry
  rows, in order, of key, type tag and the encoding of the value \<open>get_value\<close> reports for the row, although
  it resolves the rows by a walk that does not check header CRCs.\<close>

theorem digest_of_get_value:
  assumes "store_ok F st" "well_typed (contents F st)"
  shows "digest F st eff =
    modbus (concat (map (\<lambda>row. [ent_field_id row, ent_index row, type_tag (ent_kind row)] @
        (case get_value F st (entry_key row) of Inr (v, _) \<Rightarrow> value_encode v | Inl _ \<Rightarrow> []))
      (filter (digest_selects eff) REGISTRY)))"
proof -
  have eff: "effective_bytes row (contents F st (entry_key row)) =
      (case get_value F st (entry_key row) of Inr (v, _) \<Rightarrow> value_encode v | Inl _ \<Rightarrow> [])"
    if "row \<in> set REGISTRY" for row
    using read_value_effective [OF that assms(2)] lookup_key_row [OF that]
    by (simp add: get_value_contents split: prod.split)
  show ?thesis
    unfolding digest_contents [OF assms(1)] digest_spec_def
    by (rule arg_cong [where f = "\<lambda>x. modbus (concat x)"], rule map_cong) (auto simp: eff)
qed

lemma digest_of_get_value_witness:
  "machine_digest MockFlash (fresh_store 1024) =
    modbus (concat (map (\<lambda>row. [ent_field_id row, ent_index row, type_tag (ent_kind row)] @
        (case get_value MockFlash (fresh_store 1024) (entry_key row) of
           Inr (v, _) \<Rightarrow> value_encode v | Inl _ \<Rightarrow> []))
      (filter (digest_selects None) REGISTRY)))"
  using digest_of_get_value [of MockFlash "fresh_store 1024" None]
  by (simp add: machine_digest_def fresh_ok contents_def well_typed_def)

text \<open>One pass reads a whole row: folding \<open>for_each_in\<close> with plain assignment over a list of keys
  yields, for each of the keys, exactly the newest committed record that \<open>get\<close> would find, and nothing
  for any other key.\<close>

theorem for_each_in_newest_wins:
  "for_each_in F st keys (\<lambda>k tag v m. m(k \<mapsto> (tag, v))) Map.empty = contents F st |` set keys"
proof -
  have "fold (\<lambda>(k, x). if k \<in> set keys then (\<lambda>m. m(k \<mapsto> x)) else id) l m =
      m ++ (map_of (rev l) |` set keys)" for l :: log and m
  proof (induction l arbitrary: m)
    case (Cons e l)
    obtain k x where e: "e = (k, x)" by (cases e)
    show ?case
      by (auto simp: Cons e map_add_def restrict_map_def fun_eq_iff split: option.splits)
  qed simp
  moreover have "(\<lambda>(k, tag, v). if k \<in> set keys then (\<lambda>m. m(k \<mapsto> (tag, v))) else id) =
      (\<lambda>(k, x :: u8 \<times> bytes). if k \<in> set keys then (\<lambda>m. m(k \<mapsto> x)) else id)"
    by (auto simp: fun_eq_iff)
  ultimately show ?thesis
    by (simp add: for_each_in_def each_from_log contents_def page_log_def)
qed

end
