(* ===== verification/Framer.thy ===== *)
theory Framer
  imports Crc16
begin

text \<open>
  The L2 fragment header (\<open>shared/link/src/frag.rs\<close>) and the byte-stream framer
  (\<open>shared/link/src/framer.rs\<close>): the one-byte header codec, the frame encoder, and the resyncing
  decoder \<open>drain\<close> over a bounded buffer, with its two entries \<open>feed\<close> and \<open>feed_one\<close>.

  The framer's buffer is the list of its live bytes; its capacity \<open>N\<close> is an argument. \<open>drain\<close> answers
  the frames it handed to the sink, the buffer it left and the input it did not consume. The
  reference \<open>scan\<close> reads a whole stream with no buffer and no chunks; the lemmas show that the decoder
  computes it, whatever the chunking.
\<close>

section \<open>The fragment header\<close>

definition MORE_BIT :: u8 where
  "MORE_BIT = 0b10000000"

definition PID_SHIFT :: nat where
  "PID_SHIFT = 4"

definition MAX_PID :: u8 where
  "MAX_PID = 0b00000111"

definition MAX_FRAG_IDX :: u8 where
  "MAX_FRAG_IDX = 0b00001111"

definition MAX_FRAGMENTS :: nat where
  "MAX_FRAGMENTS = 16"

record frag_hdr =
  frag_more :: bool
  frag_pid :: u8
  frag_idx :: u8

definition frag_encode :: "frag_hdr \<Rightarrow> u8" where
  "frag_encode h =
     (if frag_more h then MORE_BIT else 0) OR push_bit PID_SHIFT (frag_pid h AND MAX_PID) OR
     (frag_idx h AND MAX_FRAG_IDX)"

definition frag_decode :: "u8 \<Rightarrow> frag_hdr" where
  "frag_decode b =
     \<lparr>frag_more = (b AND MORE_BIT \<noteq> 0), frag_pid = drop_bit PID_SHIFT b AND MAX_PID,
      frag_idx = b AND MAX_FRAG_IDX\<rparr>"

lemma small_byte: "x < of_nat n \<Longrightarrow> n < 256 \<Longrightarrow> (x :: u8) \<in> of_nat ` {..<n}"
  by (auto simp: image_iff word_less_nat_alt unsigned_of_nat take_bit_nat_def intro!: bexI [of _ "unat x"])

lemma byte_fields:
  fixes p i :: u8
  assumes "p < 8" "i < 16"
  shows "p AND 7 = p" "i AND 15 = i"
    "((if m then 0x80 else 0) OR push_bit 4 p OR i) AND 0x80 \<noteq> 0 \<longleftrightarrow> m"
    "drop_bit 4 ((if m then 0x80 else 0) OR push_bit 4 p OR i) AND 7 = p"
    "((if m then 0x80 else 0) OR push_bit 4 p OR i) AND 15 = i"
proof -
  have p: "p \<in> set (map of_nat [0..<8])"
    using small_byte [of p 8] assms(1) by (auto simp: atLeast0LessThan)
  have i: "i \<in> set (map of_nat [0..<16])"
    using small_byte [of i 16] assms(2) by (auto simp: atLeast0LessThan)
  have "\<forall>m. \<forall>p \<in> set (map of_nat [0..<8]). \<forall>i \<in> set (map of_nat [0..<16]).
      p AND 7 = p \<and> i AND 15 = i \<and>
      (((if m then 0x80 else 0) OR push_bit 4 p OR i) AND (0x80 :: u8) \<noteq> 0 \<longleftrightarrow> m) \<and>
      drop_bit 4 ((if m then 0x80 else 0) OR push_bit 4 p OR i) AND 7 = p \<and>
      ((if m then 0x80 else 0) OR push_bit 4 p OR i) AND 15 = i"
    by (simp add: upt_rec all_bool_eq)
  then show "p AND 7 = p" "i AND 15 = i"
    "((if m then 0x80 else 0) OR push_bit 4 p OR i) AND 0x80 \<noteq> 0 \<longleftrightarrow> m"
    "drop_bit 4 ((if m then 0x80 else 0) OR push_bit 4 p OR i) AND 7 = p"
    "((if m then 0x80 else 0) OR push_bit 4 p OR i) AND 15 = i"
    using p i by blast+
qed

lemma frag_decode_encode [simp]: "frag_pid h < 8 \<Longrightarrow> frag_idx h < 16 \<Longrightarrow> frag_decode (frag_encode h) = h"
proof -
  assume b: "frag_pid h < 8" "frag_idx h < 16"
  show ?thesis
    unfolding frag_decode_def frag_encode_def MORE_BIT_def PID_SHIFT_def MAX_PID_def MAX_FRAG_IDX_def
    unfolding byte_fields(1,2) [OF b] byte_fields(3-5) [OF b] by simp
qed

lemma frag_decode_bounds: "frag_pid (frag_decode b) < 8" "frag_idx (frag_decode b) < 16"
  using word_and_le1 [of "drop_bit 4 b" 7] word_and_le1 [of b 15]
  by (auto simp: frag_decode_def PID_SHIFT_def MAX_PID_def MAX_FRAG_IDX_def le_less_trans)

section \<open>Frames\<close>

definition SOF :: u8 where
  "SOF = 0x5A"

definition STREAM_HEADER_LEN :: nat where
  "STREAM_HEADER_LEN = 2"

definition STREAM_CRC_LEN :: nat where
  "STREAM_CRC_LEN = 2"

definition MAX_L2_LEN :: nat where
  "MAX_L2_LEN = 255"

definition MAX_STREAM_FRAME :: nat where
  "MAX_STREAM_FRAME = STREAM_HEADER_LEN + MAX_L2_LEN + STREAM_CRC_LEN"

datatype frame_error = BadLen | OutTooSmall

text \<open>\<open>encode\<close> fills a caller's buffer of \<open>room\<close> bytes; the model is the bytes it put there.\<close>

definition frame_encode :: "bytes \<Rightarrow> nat \<Rightarrow> frame_error + bytes" where
  "frame_encode l2 room =
     (let len = length l2
      in if len = 0 \<or> len > MAX_L2_LEN then Inl BadLen
         else let total' = STREAM_HEADER_LEN + len + STREAM_CRC_LEN
           in if room < total' then Inl OutTooSmall
              else let body = [SOF, of_nat len] @ l2; crc = modbus body
                in Inr (body @ [ucast (crc AND 0x00FF), ucast (drop_bit 8 crc)]))"

text \<open>
  One round of the decoder's loop is an iteration of \<open>drain\<close>: hunt for a SOF in the buffer and then in
  the input, fill up to the two-byte header, check the length, fill up to the whole candidate, check
  its CRC. A rejected candidate loses one byte and the loop goes on.
\<close>

definition hunt :: "bytes \<Rightarrow> bytes" where
  "hunt = dropWhile (\<lambda>b. b \<noteq> SOF)"

definition fill :: "nat \<Rightarrow> bytes \<Rightarrow> bytes \<Rightarrow> bytes \<times> bytes" where
  "fill n buf inp = (let take' = min (n - length buf) (length inp) in (buf @ take take' inp, drop take' inp))"

definition lock_on :: "bytes \<Rightarrow> bytes \<Rightarrow> bytes \<times> bytes" where
  "lock_on buf inp =
     (let buf = hunt buf; inp = (if buf = [] then hunt inp else inp)
      in fill STREAM_HEADER_LEN buf inp)"

lemma length_hunt: "length (hunt bs) \<le> length bs"
  by (simp add: hunt_def length_dropWhile_le)

lemma fill_measure: "(buf', inp') = fill n buf inp \<Longrightarrow> length buf' + length inp' = length buf + length inp"
  by (auto simp: fill_def Let_def)

lemma lock_on_measure: "(buf', inp') = lock_on buf inp \<Longrightarrow> length buf' + length inp' \<le> length buf + length inp"
  using length_hunt [of buf] length_hunt [of inp]
  by (auto simp: lock_on_def Let_def dest!: fill_measure split: if_splits)

function drain :: "nat \<Rightarrow> bool \<Rightarrow> bytes \<Rightarrow> bytes \<Rightarrow> bytes list \<times> bytes \<times> bytes" where
  "drain cap stop buf inp =
     (case lock_on buf inp of
        (buf, inp) \<Rightarrow>
          if length buf < STREAM_HEADER_LEN then ([], buf, inp)
          else
            let l2_len = unat (buf ! 1);
                total' = STREAM_HEADER_LEN + l2_len + STREAM_CRC_LEN
            in if l2_len = 0 then drain cap stop (drop 1 buf) inp
               else if total' > cap then drain cap stop (drop 1 buf) inp
               else
                 (case fill total' buf inp of
                    (buf, inp) \<Rightarrow>
                      if length buf < total' then ([], buf, inp)
                      else if modbus (take (STREAM_HEADER_LEN + l2_len) buf) =
                              rd16 (buf ! (STREAM_HEADER_LEN + l2_len)) (buf ! (STREAM_HEADER_LEN + l2_len + 1))
                      then
                        let l2 = take l2_len (drop STREAM_HEADER_LEN buf)
                        in if stop then ([l2], drop total' buf, inp)
                           else (case drain cap stop (drop total' buf) inp of
                                   (fs, buf, inp) \<Rightarrow> (l2 # fs, buf, inp))
                      else drain cap stop (drop 1 buf) inp))"
  by pat_completeness auto
termination
  by (relation "measure (\<lambda>(cap, stop, buf, inp). length buf + length inp)")
    (auto dest!: lock_on_measure fill_measure simp: STREAM_HEADER_LEN_def)

declare drain.simps [simp del]

definition feed_all :: "nat \<Rightarrow> bytes \<Rightarrow> bytes \<Rightarrow> bytes list \<times> bytes" where
  "feed_all cap buf inp = (case drain cap False buf inp of (fs, buf, _) \<Rightarrow> (fs, buf))"

definition feed_one :: "nat \<Rightarrow> bytes \<Rightarrow> bytes \<Rightarrow> bytes option \<times> bytes \<times> bytes" where
  "feed_one cap buf inp =
     (case drain cap True buf inp of
        (fs, buf, rest) \<Rightarrow> (case fs of [] \<Rightarrow> None | f # _ \<Rightarrow> Some f, buf, rest))"

section \<open>The reference reader\<close>

text \<open>What a frame at the head of a stream looks like to a carrier of capacity \<open>cap\<close>.\<close>

datatype head = NoFrame | Pending | Frame bytes nat

definition head_of :: "nat \<Rightarrow> bytes \<Rightarrow> head" where
  "head_of cap s =
     (case s of
        [] \<Rightarrow> Pending
      | b # s' \<Rightarrow>
          if b \<noteq> SOF then NoFrame
          else (case s' of
                  [] \<Rightarrow> Pending
                | n # r \<Rightarrow>
                    if n = 0 \<or> unat n + 4 > cap then NoFrame
                    else if length r < unat n + 2 then Pending
                    else if modbus (SOF # n # take (unat n) r) = rd16 (r ! unat n) (r ! (unat n + 1))
                    then Frame (take (unat n) r) (unat n + 4)
                    else NoFrame))"

lemma head_of_Frame_length: "head_of cap s = Frame l2 n \<Longrightarrow> 0 < n \<and> n \<le> length s"
  by (auto simp: head_of_def split: list.splits if_splits)

function scan :: "nat \<Rightarrow> bytes \<Rightarrow> bytes list \<times> bytes" where
  "scan cap s =
     (case head_of cap s of
        Pending \<Rightarrow> ([], s)
      | NoFrame \<Rightarrow> scan cap (tl s)
      | Frame l2 n \<Rightarrow> (case scan cap (drop n s) of (fs, r) \<Rightarrow> (l2 # fs, r)))"
  by pat_completeness auto
termination
proof (relation "measure (\<lambda>(cap, s). length s)")
  fix cap s assume "head_of cap s = NoFrame"
  then show "((cap, tl s), cap, s) \<in> measure (\<lambda>(cap, s). length s)"
    by (cases s) (auto simp: head_of_def)
next
  fix cap s l2 n assume "head_of cap s = Frame l2 n"
  then show "((cap, drop n s), cap, s) \<in> measure (\<lambda>(cap, s). length s)"
    using head_of_Frame_length [of cap s l2 n] by auto
qed simp

declare scan.simps [simp del]

lemma scan_simps [simp]:
  "head_of cap s = Pending \<Longrightarrow> scan cap s = ([], s)"
  "head_of cap s = NoFrame \<Longrightarrow> scan cap s = scan cap (tl s)"
  "head_of cap s = Frame l2 n \<Longrightarrow> scan cap s = (l2 # fst (scan cap (drop n s)), snd (scan cap (drop n s)))"
  by (simp_all add: scan.simps [of cap s] split: prod.split)

lemma scan_hunt: "scan cap (hunt s) = scan cap s"
proof (induction s)
  case (Cons b s)
  show ?case
  proof (cases "b = SOF")
    case False
    then have "head_of cap (b # s) = NoFrame" by (simp add: head_of_def)
    then show ?thesis using Cons False by (simp add: hunt_def)
  qed (simp add: hunt_def)
qed (simp add: hunt_def)

text \<open>More input never changes a decision that was made.\<close>

lemma head_of_append:
  "head_of cap s \<noteq> Pending \<Longrightarrow> head_of cap (s @ t) = head_of cap s"
proof (cases s)
  case (Cons b s')
  assume np: "head_of cap s \<noteq> Pending"
  show ?thesis
  proof (cases s')
    case Nil
    then show ?thesis using np Cons by (auto simp: head_of_def)
  next
    case c: (Cons n r)
    have "head_of cap (b # n # r @ t) = head_of cap (b # n # r)" if "\<not> length r < unat n + 2"
    proof -
      have "(r @ t) ! unat n = r ! unat n" "(r @ t) ! (unat n + 1) = r ! (unat n + 1)"
        "take (unat n) (r @ t) = take (unat n) r"
        using that by (simp_all add: nth_append)
      then show ?thesis using that by (simp add: head_of_def)
    qed
    then show ?thesis using np Cons c by (cases "length r < unat n + 2") (auto simp: head_of_def)
  qed
qed (simp add: head_of_def)

lemma scan_append:
  "scan cap (s @ t) =
     (fst (scan cap s) @ fst (scan cap (snd (scan cap s) @ t)), snd (scan cap (snd (scan cap s) @ t)))"
proof (induction cap s rule: scan.induct)
  case (1 cap s)
  show ?case
  proof (cases "head_of cap s")
    case NoFrame
    then have "s \<noteq> []" by (auto simp: head_of_def)
    then show ?thesis using 1(1) NoFrame head_of_append [of cap s t] by (simp add: tl_append2)
  next
    case (Frame l2 n)
    then show ?thesis
      using 1(2) [OF Frame] head_of_append [of cap s t] head_of_Frame_length [OF Frame] by simp
  qed simp
qed

section \<open>The decoder computes the reference\<close>

lemma fill_concat: "fill n buf inp = (b, i) \<Longrightarrow> b @ i = buf @ inp"
  by (auto simp: fill_def Let_def)

lemma fill_short: "fill n buf inp = (b, i) \<Longrightarrow> length b < n \<Longrightarrow> i = []"
  by (auto simp: fill_def Let_def min_def split: if_splits)

lemma fill_prefix: "fill n buf inp = (b, i) \<Longrightarrow> length buf \<le> length b \<and> take (length buf) b = buf"
  by (auto simp: fill_def Let_def)

lemma hunt_append: "hunt (xs @ ys) = (if hunt xs = [] then hunt ys else hunt xs @ ys)"
  unfolding hunt_def by (induction xs) auto

lemma hunt_hd: "hunt xs = b # ys \<Longrightarrow> b = SOF"
  unfolding hunt_def by (induction xs) (auto split: if_splits)

lemma lock_on_props:
  assumes "lock_on buf inp = (b, i)"
  shows "scan cap (b @ i) = scan cap (buf @ inp)" "b = [] \<or> hd b = SOF"
    "length b < STREAM_HEADER_LEN \<Longrightarrow> i = [] \<and> head_of cap b = Pending"
proof -
  let ?i = "if hunt buf = [] then hunt inp else inp"
  have fill: "fill STREAM_HEADER_LEN (hunt buf) ?i = (b, i)"
    using assms by (simp add: lock_on_def Let_def)
  have all: "b @ i = hunt (buf @ inp)"
    using fill_concat [OF fill] by (simp add: hunt_append)
  then show "scan cap (b @ i) = scan cap (buf @ inp)" by (simp add: scan_hunt)
  show hd: "b = [] \<or> hd b = SOF"
  proof (cases b)
    case (Cons x xs)
    then have "hunt (buf @ inp) = x # xs @ i" using all by simp
    then show ?thesis using Cons hunt_hd by simp
  qed simp
  show "i = [] \<and> head_of cap b = Pending" if "length b < STREAM_HEADER_LEN"
    using fill_short [OF fill that] that hd
    by (cases b; cases "tl b") (auto simp: head_of_def STREAM_HEADER_LEN_def)
qed

lemma scan_drop_sof:
  assumes "2 \<le> length b" "head_of cap (b @ i) = NoFrame"
  shows "scan cap (drop 1 b @ i) = scan cap (b @ i)"
  using assms by (cases b) auto

lemma drain_scan:
  "drain cap stop buf inp = (fs, b, r) \<Longrightarrow>
    scan cap (buf @ inp) = (fs @ fst (scan cap (b @ r)), snd (scan cap (b @ r))) \<and>
    (\<not> stop \<or> fs = [] \<longrightarrow> r = [] \<and> head_of cap b = Pending) \<and> (stop \<longrightarrow> length fs \<le> 1)"
proof (induction "length buf + length inp" arbitrary: buf inp fs b r rule: less_induct)
  case less
  note d = less.prems
  obtain b1 i1 where lock: "lock_on buf inp = (b1, i1)" by (cases "lock_on buf inp")
  note lp = lock_on_props [OF lock]
  note size1 = lock_on_measure [OF lock [symmetric]]
  let ?n = "unat (b1 ! 1)"
  let ?total = "STREAM_HEADER_LEN + ?n + STREAM_CRC_LEN"
  have eq: "drain cap stop buf inp =
     (if length b1 < STREAM_HEADER_LEN then ([], b1, i1)
      else if ?n = 0 then drain cap stop (drop 1 b1) i1
      else if ?total > cap then drain cap stop (drop 1 b1) i1
      else (case fill ?total b1 i1 of
              (buf, inp) \<Rightarrow>
                if length buf < ?total then ([], buf, inp)
                else if modbus (take (STREAM_HEADER_LEN + ?n) buf) =
                        rd16 (buf ! (STREAM_HEADER_LEN + ?n)) (buf ! (STREAM_HEADER_LEN + ?n + 1))
                then let l2 = take ?n (drop STREAM_HEADER_LEN buf)
                     in if stop then ([l2], drop ?total buf, inp)
                        else (case drain cap stop (drop ?total buf) inp of
                                (fs, buf, inp) \<Rightarrow> (l2 # fs, buf, inp))
                else drain cap stop (drop 1 buf) inp))"
    by (subst drain.simps) (simp only: lock prod.case Let_def)
  show ?case
  proof (cases "length b1 < STREAM_HEADER_LEN")
    case True
    then have "fs = []" "b = b1" "r = i1" using d eq by auto
    then show ?thesis using lp(3) [OF True] lp(1) [of cap] by auto
  next
    case False
    then obtain n t where b1: "b1 = SOF # n # t"
      using lp(2) by (cases b1; cases "tl b1") (auto simp: STREAM_HEADER_LEN_def)
    have two: "2 \<le> length b1" using b1 by simp
    show ?thesis
    proof (cases "?n = 0 \<or> ?total > cap")
      case True
      then have "head_of cap (b1 @ i1) = NoFrame"
        using b1 by (auto simp: head_of_def STREAM_HEADER_LEN_def STREAM_CRC_LEN_def unat_eq_zero)
      then have s: "scan cap (drop 1 b1 @ i1) = scan cap (buf @ inp)"
        using scan_drop_sof [OF two] lp(1) by metis
      have "drain cap stop (drop 1 b1) i1 = (fs, b, r)"
        using d eq False True by (auto split: if_splits)
      moreover have "length (drop 1 b1) + length i1 < length buf + length inp" using size1 two by simp
      ultimately show ?thesis using less.hyps [of "drop 1 b1" i1 fs b r] s by simp
    next
      case len: False
      obtain b2 i2 where fl: "fill ?total b1 i1 = (b2, i2)" by (cases "fill ?total b1 i1")
      have all: "b2 @ i2 = b1 @ i1" using fill_concat [OF fl] .
      have size2: "length b2 + length i2 \<le> length buf + length inp"
        using size1 arg_cong [OF all, of length] by simp
      obtain t2 where b2: "b2 = SOF # n # t2"
        using fill_prefix [OF fl] b1 by (cases b2; cases "tl b2") auto
      have n: "?n = unat n" "n \<noteq> 0" "\<not> cap < unat n + 4"
        using len b1 by (auto simp: STREAM_HEADER_LEN_def STREAM_CRC_LEN_def)
      have scan2: "scan cap (b2 @ i2) = scan cap (buf @ inp)" using all lp(1) by metis
      show ?thesis
      proof (cases "length b2 < ?total")
        case True
        then have r: "fs = []" "b = b2" "r = i2" "i2 = []"
          using d eq False len fl fill_short [OF fl] by (auto simp: Let_def)
        have "head_of cap b2 = Pending"
          using True n b1 by (auto simp: b2 head_of_def STREAM_HEADER_LEN_def STREAM_CRC_LEN_def)
        then show ?thesis using scan2 r by auto
      next
        case full: False
        have crc: "take (STREAM_HEADER_LEN + ?n) b2 = SOF # n # take (unat n) t2"
          "b2 ! (STREAM_HEADER_LEN + ?n) = t2 ! unat n" "b2 ! (STREAM_HEADER_LEN + ?n + 1) = t2 ! (unat n + 1)"
          "take ?n (drop STREAM_HEADER_LEN b2) = take (unat n) t2"
          using n(1) by (simp_all add: b2 STREAM_HEADER_LEN_def)
        show ?thesis
        proof (cases "modbus (SOF # n # take (unat n) t2) = rd16 (t2 ! unat n) (t2 ! (unat n + 1))")
          case True
          have hd0: "head_of cap b2 = Frame (take (unat n) t2) (unat n + 4)"
            using True n full by (simp add: b2 head_of_def STREAM_HEADER_LEN_def STREAM_CRC_LEN_def)
          then have hd: "head_of cap (b2 @ i2) = Frame (take (unat n) t2) (unat n + 4)"
            using head_of_append [of cap b2 i2] by simp
          have tot: "?total = unat n + 4" using n(1) by (simp add: STREAM_HEADER_LEN_def STREAM_CRC_LEN_def)
          have dr: "drop (unat n + 4) (b2 @ i2) = drop ?total b2 @ i2"
            using full tot by simp
          show ?thesis
          proof (cases stop)
            case True
            then have "fs = [take (unat n) t2]" "b = drop ?total b2" "r = i2"
              using d eq False len full fl crc \<open>modbus _ = _\<close> by (auto simp: Let_def)
            then show ?thesis using scan2 hd dr True by (simp add: tot)
          next
            case go: False
            obtain fs1 where d1: "drain cap stop (drop ?total b2) i2 = (fs1, b, r)"
              and fs: "fs = take (unat n) t2 # fs1"
              using d eq False len full fl crc \<open>modbus _ = _\<close> go
              by (auto simp: Let_def split: prod.splits)
            show ?thesis
              using less.hyps [of "drop ?total b2" i2 fs1 b r] size2 full tot d1 scan2 hd dr go fs by simp
          qed
        next
          case bad: False
          have "head_of cap b2 = NoFrame"
            using bad n full by (simp add: b2 head_of_def STREAM_HEADER_LEN_def STREAM_CRC_LEN_def)
          then have "head_of cap (b2 @ i2) = NoFrame"
            using head_of_append [of cap b2 i2] by simp
          then have s: "scan cap (drop 1 b2 @ i2) = scan cap (buf @ inp)"
            using scan_drop_sof [of b2 cap i2] scan2 b2 by simp
          have "drain cap stop (drop 1 b2) i2 = (fs, b, r)"
            using d eq False len full fl crc bad by (auto simp: Let_def)
          moreover have "length (drop 1 b2) + length i2 < length buf + length inp" using size2 b2 by simp
          ultimately show ?thesis using less.hyps [of "drop 1 b2" i2 fs b r] s by simp
        qed
      qed
    qed
  qed
qed

section \<open>Encoded frames\<close>

lemma low_byte: "ucast (w AND 0x00FF) = (ucast w :: u8)" for w :: u16
  by (rule bit_word_eqI) (auto simp: bit_simps bit_numeral_rec numeral_eq_Suc less_Suc_eq)

definition frame_of :: "bytes \<Rightarrow> bytes" where
  "frame_of l2 = (let body = SOF # of_nat (length l2) # l2 in body @ le16 (modbus body))"

lemma frame_encode_eq:
  "frame_encode l2 room =
     (if length l2 = 0 \<or> length l2 > MAX_L2_LEN then Inl BadLen
      else if room < length l2 + 4 then Inl OutTooSmall else Inr (frame_of l2))"
  by (simp add: frame_encode_def frame_of_def Let_def low_byte le16_def STREAM_HEADER_LEN_def STREAM_CRC_LEN_def)

lemma length_frame_of [simp]: "length (frame_of l2) = length l2 + 4"
  by (simp add: frame_of_def Let_def)

lemma head_of_frame:
  assumes "l2 \<noteq> []" "length l2 \<le> MAX_L2_LEN" "length l2 + 4 \<le> cap"
  shows "head_of cap (frame_of l2 @ t) = Frame l2 (length l2 + 4)"
proof -
  have "unat (of_nat (length l2) :: u8) = length l2"
    using assms(2) by (simp add: MAX_L2_LEN_def unsigned_of_nat take_bit_nat_def)
  moreover from this have "of_nat (length l2) \<noteq> (0 :: u8)" using assms(1) by (metis length_0_conv unat_0)
  ultimately show ?thesis
    using assms(3) by (simp add: head_of_def frame_of_def Let_def nth_append)
qed

lemma scan_frame:
  assumes "l2 \<noteq> []" "length l2 \<le> MAX_L2_LEN" "length l2 + 4 \<le> cap"
  shows "scan cap (frame_of l2 @ t) = (l2 # fst (scan cap t), snd (scan cap t))"
  using head_of_frame [OF assms, of t] by simp

text \<open>A stretch of line noise in which no position starts a whole frame with a good checksum.\<close>

definition no_frame_in :: "nat \<Rightarrow> bytes \<Rightarrow> bytes \<Rightarrow> bool" where
  "no_frame_in cap g t \<longleftrightarrow> (\<forall>i < length g. \<forall>l2 n. head_of cap (drop i (g @ t)) \<noteq> Frame l2 n)"

lemma head_of_Pending_short: "head_of cap s = Pending \<Longrightarrow> s = [] \<or> length s < 2 \<or> length s < cap"
  by (auto simp: head_of_def split: list.splits if_splits)

lemma scan_noise:
  assumes "no_frame_in cap g t" "cap \<le> length t" "2 \<le> length t"
  shows "scan cap (g @ t) = scan cap t"
  using assms(1)
proof (induction g)
  case (Cons b g)
  have "head_of cap (b # g @ t) \<noteq> Frame l2 n" for l2 n
    using Cons.prems [unfolded no_frame_in_def, rule_format, of 0] by simp
  moreover have "head_of cap (b # g @ t) \<noteq> Pending"
    using head_of_Pending_short [of cap "b # g @ t"] assms(2,3) by auto
  ultimately have "head_of cap (b # g @ t) = NoFrame"
    by (cases "head_of cap (b # g @ t)") auto
  moreover have "no_frame_in cap g t"
    unfolding no_frame_in_def
  proof (intro allI impI)
    fix i l2 n assume "i < length g"
    then show "head_of cap (drop i (g @ t)) \<noteq> Frame l2 n"
      using Cons.prems [unfolded no_frame_in_def, rule_format, of "Suc i"] by simp
  qed
  ultimately show ?case using Cons.IH by simp
qed simp

lemma head_of_Frame_bytes:
  "head_of cap s = Frame l2 n \<Longrightarrow>
     s = frame_of l2 @ drop n s \<and> l2 \<noteq> [] \<and> length l2 \<le> MAX_L2_LEN \<and> n = length l2 + 4 \<and> n \<le> cap"
proof -
  assume h: "head_of cap s = Frame l2 n"
  then obtain k r where s: "s = SOF # k # r" "k \<noteq> 0" "unat k + 4 \<le> cap" "unat k + 2 \<le> length r"
    and crc: "modbus (SOF # k # take (unat k) r) = rd16 (r ! unat k) (r ! (unat k + 1))"
    and l2: "l2 = take (unat k) r" "n = unat k + 4"
    by (auto simp: head_of_def split: list.splits if_splits)
  have len: "length l2 = unat k" using s l2 by simp
  have "unat k < 256" using unsigned_less [of k] by simp
  then have "length l2 \<le> MAX_L2_LEN" using len by (simp add: MAX_L2_LEN_def)
  moreover have "drop (unat k) r = r ! unat k # r ! (unat k + 1) # drop (unat k + 2) r"
    using s(4) Cons_nth_drop_Suc [of "unat k" r] Cons_nth_drop_Suc [of "Suc (unat k)" r] by simp
  then have "r = l2 @ r ! unat k # r ! (unat k + 1) # drop (unat k + 2) r"
    using l2 append_take_drop_id [of "unat k" r] by simp
  ultimately show ?thesis
    using s l2 len crc drop_drop [of "unat k + 2" 2 s]
    by (auto simp: frame_of_def Let_def unat_eq_zero numeral_2_eq_2 eval_nat_numeral)
qed

lemma scan_sound:
  "f \<in> set (fst (scan cap s)) \<Longrightarrow>
     \<exists>g t. s = g @ frame_of f @ t \<and> f \<noteq> [] \<and> length f \<le> MAX_L2_LEN"
proof (induction cap s rule: scan.induct)
  case (1 cap s)
  show ?case
  proof (cases "head_of cap s")
    case NoFrame
    then obtain b s' where s: "s = b # s'" by (cases s) (auto simp: head_of_def)
    then obtain g t where "s' = g @ frame_of f @ t \<and> f \<noteq> [] \<and> length f \<le> MAX_L2_LEN"
      using 1 NoFrame by auto
    then have "s = (b # g) @ frame_of f @ t \<and> f \<noteq> [] \<and> length f \<le> MAX_L2_LEN" using s by simp
    then show ?thesis by blast
  next
    case (Frame l2 n)
    note hb = head_of_Frame_bytes [OF Frame]
    show ?thesis
    proof (cases "f = l2")
      case True
      then show ?thesis using hb by (metis append_Nil)
    next
      case False
      then obtain g t where "drop n s = g @ frame_of f @ t \<and> f \<noteq> [] \<and> length f \<le> MAX_L2_LEN"
        using 1(2) [OF Frame] 1(3) Frame by auto
      then have "s = (frame_of l2 @ g) @ frame_of f @ t \<and> f \<noteq> [] \<and> length f \<le> MAX_L2_LEN"
        using hb by (metis append.assoc)
      then show ?thesis by blast
    qed
  qed (use 1(3) in simp)
qed

text \<open>Feeding a list of chunks, one call each.\<close>

fun feed_chunks :: "nat \<Rightarrow> bytes \<Rightarrow> bytes list \<Rightarrow> bytes list \<times> bytes" where
  "feed_chunks cap buf [] = ([], buf)"
| "feed_chunks cap buf (c # cs) =
     (let (fs, buf) = feed_all cap buf c; (gs, buf) = feed_chunks cap buf cs in (fs @ gs, buf))"

lemma feed_all_scan:
  assumes "feed_all cap buf inp = (fs, b)"
  shows "scan cap (buf @ inp) = (fs, b)" "head_of cap b = Pending"
proof -
  obtain r where d: "drain cap False buf inp = (fs, b, r)"
    using assms by (auto simp: feed_all_def split: prod.splits)
  show "scan cap (buf @ inp) = (fs, b)" "head_of cap b = Pending"
    using drain_scan [OF d] by auto
qed

lemma feed_one_scan:
  assumes "feed_one cap buf inp = (f, b, rest)"
  shows "f = None \<Longrightarrow> rest = [] \<and> scan cap (buf @ inp) = ([], b)"
    "f = Some l2 \<Longrightarrow> scan cap (buf @ inp) = (l2 # fst (scan cap (b @ rest)), snd (scan cap (b @ rest)))"
proof -
  obtain fs where d: "drain cap True buf inp = (fs, b, rest)" and f: "f = (case fs of [] \<Rightarrow> None | f # _ \<Rightarrow> Some f)"
    using assms by (auto simp: feed_one_def split: prod.splits)
  note ds = drain_scan [OF d]
  show "rest = [] \<and> scan cap (buf @ inp) = ([], b)" if "f = None"
    using ds f that by (auto split: list.splits)
  show "scan cap (buf @ inp) = (l2 # fst (scan cap (b @ rest)), snd (scan cap (b @ rest)))" if "f = Some l2"
    using ds f that by (auto split: list.splits)
qed

text \<open>On a clean stream the buffer never runs ahead: a frame is taken whole, or its prefix is kept.\<close>

lemma frame_of_cons:
  "l2 \<noteq> [] \<Longrightarrow> frame_of l2 = SOF # of_nat (length l2) # l2 @ le16 (modbus (SOF # of_nat (length l2) # l2))"
  by (simp add: frame_of_def Let_def)

lemma lock_on_sof:
  assumes "buf @ inp = SOF # s"
  shows "lock_on buf inp =
    (if STREAM_HEADER_LEN \<le> length buf then (buf, inp)
     else (take STREAM_HEADER_LEN (SOF # s), drop STREAM_HEADER_LEN (SOF # s)))"
proof (cases buf)
  case Nil
  then show ?thesis
    using assms by (auto simp: lock_on_def hunt_def fill_def Let_def STREAM_HEADER_LEN_def min_def)
next
  case (Cons b bs)
  then have "b = SOF" "hunt buf = buf" "s = bs @ inp" using assms by (auto simp: hunt_def)
  then show ?thesis
    using Cons by (cases bs) (auto simp: lock_on_def fill_def Let_def STREAM_HEADER_LEN_def min_def)
qed

lemma fill_exact:
  assumes "b @ i = xs @ t" "length b \<le> length xs"
  shows "fill (length xs) b i = (xs, t)"
proof -
  obtain us where "xs = b @ us" "i = us @ t"
    using assms by (auto simp: append_eq_append_conv2)
  then show ?thesis by (simp add: fill_def Let_def)
qed

lemma drain_clean:
  assumes l2: "l2 \<noteq> []" "length l2 \<le> MAX_L2_LEN" "length l2 + 4 \<le> cap"
    and s: "buf @ inp = frame_of l2 @ t" "length buf \<le> length l2 + 4"
  shows "drain cap True buf inp = ([l2], [], t)"
proof -
  let ?n = "of_nat (length l2) :: u8" and ?c = "le16 (modbus (SOF # of_nat (length l2) # l2))"
  have f: "frame_of l2 = SOF # ?n # l2 @ ?c" using frame_of_cons [OF l2(1)] .
  have n: "unat ?n = length l2"
    using l2(2) by (simp add: MAX_L2_LEN_def unsigned_of_nat take_bit_nat_def)
  obtain b1 i1 where lock: "lock_on buf inp = (b1, i1)" by (cases "lock_on buf inp")
  have b1: "b1 @ i1 = frame_of l2 @ t" "2 \<le> length b1" "length b1 \<le> length l2 + 4" "b1 ! 1 = ?n"
  proof -
    have eq: "buf @ inp = SOF # ?n # l2 @ ?c @ t" using s(1) f by simp
    note lk = lock_on_sof [OF eq, unfolded lock]
    show all: "b1 @ i1 = frame_of l2 @ t"
      using lk eq f by (auto simp: STREAM_HEADER_LEN_def split: if_splits)
    show two: "2 \<le> length b1" and "length b1 \<le> length l2 + 4"
      using lk s(2) by (auto simp: STREAM_HEADER_LEN_def split: if_splits)
    show "b1 ! 1 = ?n"
      using arg_cong [OF all, of "\<lambda>xs. xs ! 1"] two by (simp add: nth_append f)
  qed
  have four: "length l2 + 4 = Suc (Suc (Suc (Suc (length l2))))" by simp
  have "fill (length l2 + 4) b1 i1 = (frame_of l2, t)"
    using fill_exact [OF b1(1)] b1(3) by simp
  then have fl: "fill (Suc (Suc (Suc (Suc (length l2))))) b1 i1 = (frame_of l2, t)"
    by (simp only: four)
  show ?thesis
    using l2 b1 n
    by (subst drain.simps) (simp add: fl lock Let_def STREAM_HEADER_LEN_def STREAM_CRC_LEN_def f nth_append)
qed

lemma drain_partial:
  assumes l2: "l2 \<noteq> []" "length l2 \<le> MAX_L2_LEN" "length l2 + 4 \<le> cap"
    and s: "buf @ inp = take n (frame_of l2)" "n < length l2 + 4"
  shows "drain cap stop buf inp = ([], buf @ inp, [])"
proof -
  obtain fs b r where d: "drain cap stop buf inp = (fs, b, r)" by (cases "drain cap stop buf inp")
  have f: "frame_of l2 = SOF # of_nat (length l2) # l2 @ le16 (modbus (SOF # of_nat (length l2) # l2))"
    using frame_of_cons [OF l2(1)] .
  have "unat (of_nat (length l2) :: u8) = length l2" "(of_nat (length l2) :: u8) \<noteq> 0"
    using l2 by (auto simp: MAX_L2_LEN_def unsigned_of_nat take_bit_nat_def word_unat_eq_iff)
  then have "head_of cap (take n (frame_of l2)) = Pending"
    using s(2) l2 by (cases n; cases "n - 1") (auto simp: head_of_def f)
  then have "scan cap (buf @ inp) = ([], buf @ inp)" using s by simp
  moreover note drain_scan [OF d]
  ultimately show ?thesis using d by auto
qed

section \<open>Properties\<close>

text \<open>Chunk independence of the stream framer: fed a byte stream cut into any chunks, starting from
  any state a feed left (or a fresh one), the framer emits exactly the frames the reference reader
  finds in the buffered bytes followed by the whole stream, in order, and keeps exactly its unread
  tail. So where the carrier cut the stream is invisible, and decoding always terminates.\<close>

theorem framer_chunk_independent:
  assumes "head_of cap buf = Pending"
  shows "feed_chunks cap buf cs = scan cap (buf @ concat cs)"
  using assms
proof (induction cs arbitrary: buf)
  case (Cons c cs)
  obtain fs b where f: "feed_all cap buf c = (fs, b)" by (cases "feed_all cap buf c")
  note fa = feed_all_scan [OF f]
  show ?case
    using Cons.IH [OF fa(2)] f fa(1) scan_append [of cap "buf @ c" "concat cs"]
    by (simp split: prod.split)
qed simp

lemma framer_chunk_independent_witness:
  "feed_chunks 132 [] [[0x5A], [], [0x01, 0x00]] = scan 132 ([] @ concat [[0x5A], [], [0x01, 0x00]])"
  by (rule framer_chunk_independent) (simp add: head_of_def)

text \<open>The one-frame-per-call entry loses nothing and invents nothing: one \<open>feed_one\<close> call hands over
  the first frame of the stream if there is one and otherwise consumes all its input, and what it
  leaves (buffer and unconsumed input) reads as the rest of the frames.\<close>

theorem feed_one_first:
  assumes "feed_one cap buf inp = (f, b, rest)"
  shows "case f of
      None \<Rightarrow> rest = [] \<and> scan cap (buf @ inp) = ([], b)
    | Some l2 \<Rightarrow> scan cap (buf @ inp) = (l2 # fst (scan cap (b @ rest)), snd (scan cap (b @ rest)))"
  using feed_one_scan [OF assms] by (simp split: option.split)

lemma feed_one_first_witness:
  "feed_one 132 [] [0x00, 0x5A] = (None, [0x5A], []) \<and> scan 132 ([] @ [0x00, 0x5A]) = ([], [0x5A])"
proof -
  have f: "feed_one 132 [] [0x00, 0x5A] = (None, [0x5A], [])"
    by (simp add: feed_one_def drain.simps lock_on_def hunt_def SOF_def fill_def STREAM_HEADER_LEN_def)
  from feed_one_first [OF f] f show ?thesis by simp
qed

text \<open>C22: Every frame \<open>encode\<close> produced is read back, even behind line noise: if no position of the noise
  starts a whole frame with a good checksum and the carrier's capacity worth of bytes follow, the
  decoder skips the noise (false start bytes and false lengths included), emits the frame's own bytes
  and goes on with what follows it.\<close>

theorem framer_resync:
  assumes "frame_encode l2 room = Inr f" "length f \<le> cap"
    and "no_frame_in cap g (f @ t)" "cap \<le> length (f @ t)"
  shows "feed_all cap [] (g @ f @ t) = (l2 # fst (scan cap t), snd (scan cap t))"
proof -
  have l2: "l2 \<noteq> []" "length l2 \<le> MAX_L2_LEN" "f = frame_of l2"
    using assms(1) by (auto simp: frame_encode_eq split: if_splits)
  have "feed_all cap [] (g @ f @ t) = scan cap (g @ f @ t)"
    using feed_all_scan(1) [of cap "[]" "g @ f @ t"] by (metis append_Nil prod.collapse)
  also have "\<dots> = scan cap (f @ t)"
    using assms(3,4) l2 by (intro scan_noise) simp_all
  also have "\<dots> = (l2 # fst (scan cap t), snd (scan cap t))"
    using scan_frame [OF l2(1,2)] assms(2) by (simp add: l2(3))
  finally show ?thesis .
qed

lemma framer_resync_witness:
  "\<exists>f. frame_encode [0x07] 5 = Inr f \<and> length f = 5 \<and> feed_all 5 [] ([0x5A] @ f @ []) = ([[0x07]], [])"
proof -
  have enc: "frame_encode [0x07] 5 = Inr (frame_of [0x07])"
    by (simp add: frame_encode_eq MAX_L2_LEN_def)
  have "head_of 5 (0x5A # frame_of [0x07]) = NoFrame"
    by (simp add: head_of_def frame_of_def Let_def SOF_def)
  then have "no_frame_in 5 [0x5A] (frame_of [0x07] @ [])"
    by (simp add: no_frame_in_def)
  from framer_resync [OF enc _ this] show ?thesis
    using enc by (simp add: head_of_def)
qed

text \<open>The decoder never emits a frame that was not on the wire: each emitted frame is 1 to 255 bytes
  and its full encoding, start byte, length and checksum, occurs in the stream that was fed.\<close>

theorem framer_sound:
  assumes "feed_all cap [] inp = (fs, b)" "f \<in> set fs"
  shows "\<exists>g t. inp = g @ frame_of f @ t \<and> frame_encode f MAX_STREAM_FRAME = Inr (frame_of f)"
proof -
  have "f \<in> set (fst (scan cap inp))"
    using feed_all_scan(1) [OF assms(1)] assms(2) by simp
  from scan_sound [OF this] show ?thesis
    by (auto simp: frame_encode_eq MAX_STREAM_FRAME_def STREAM_HEADER_LEN_def STREAM_CRC_LEN_def)
qed

lemma framer_sound_witness:
  "\<exists>g t. frame_of [0x07] = g @ frame_of [0x07] @ t \<and> frame_encode [0x07] MAX_STREAM_FRAME = Inr (frame_of [0x07])"
proof -
  have "scan 132 (frame_of [0x07]) = ([[0x07]], [])"
    using scan_frame [of "[0x07]" 132 "[]"] by (simp add: MAX_L2_LEN_def head_of_def)
  then have "feed_all 132 [] (frame_of [0x07]) = ([[0x07]], [])"
    using feed_all_scan(1) [of 132 "[]" "frame_of [0x07]"] by (metis append_Nil prod.collapse)
  from framer_sound [OF this] show ?thesis by simp
qed

end
