(* ===== verification/Reasm.thy ===== *)
theory Reasm
  imports Framer
begin

text \<open>
  Fragmentation and reassembly (\<open>shared/link/src/reasm.rs\<close>). \<open>fragment_packet\<close> is the list of the
  (header, chunk) pairs the source hands to its callback; \<open>reasm_push\<close> is the reassembler's one
  operation over its state record, whose buffer bound \<open>cap\<close> is an argument (the bounded vector's
  \<open>extend_from_slice\<close> fails, leaving it alone, when the bytes do not fit).

  The lemmas give the two halves of the contract: a whole set pushed in order delivers its packet
  from any state, and nothing is ever delivered except the concatenation of such a set.
\<close>

datatype frag_error = PacketTooLarge | ZeroChunkCap

function chunks :: "nat \<Rightarrow> 'a list \<Rightarrow> 'a list list" where
  "chunks n xs = (if xs = [] \<or> n = 0 then [] else take n xs # chunks n (drop n xs))"
  by pat_completeness auto
termination by (relation "measure (\<lambda>(n, xs). length xs)") (auto simp: neq_Nil_conv)

declare chunks.simps [simp del]

definition div_ceil :: "nat \<Rightarrow> nat \<Rightarrow> nat" where
  "div_ceil a b = (a + b - 1) div b"

definition fragment_packet :: "bytes \<Rightarrow> nat \<Rightarrow> u8 \<Rightarrow> frag_error + (frag_hdr \<times> bytes) list" where
  "fragment_packet packet chunk_cap p =
     (if chunk_cap = 0 then Inl ZeroChunkCap
      else
        let p = p AND MAX_PID
        in if packet = [] then Inr [(\<lparr>frag_more = False, frag_pid = p, frag_idx = 0\<rparr>, [])]
           else
             let n_frags = div_ceil (length packet) chunk_cap
             in if n_frags > MAX_FRAGMENTS then Inl PacketTooLarge
                else Inr (map (\<lambda>(i, chunk). (\<lparr>frag_more = (i + 1 < n_frags), frag_pid = p, frag_idx = of_nat i\<rparr>, chunk))
                            (enumerate 0 (chunks chunk_cap packet))))"

record reasm =
  rs_active :: bool
  rs_pid :: u8
  rs_next_idx :: u8
  rs_buf :: bytes

definition reasm_new :: reasm where
  "reasm_new = \<lparr>rs_active = False, rs_pid = 0, rs_next_idx = 0, rs_buf = []\<rparr>"

definition reasm_reset :: "reasm \<Rightarrow> reasm" where
  "reasm_reset r = r\<lparr>rs_active := False, rs_next_idx := 0, rs_buf := []\<rparr>"

definition reasm_push :: "nat \<Rightarrow> reasm \<Rightarrow> u8 \<Rightarrow> bytes \<Rightarrow> reasm \<times> bytes option" where
  "reasm_push cap r hdr_byte chunk =
     (let h = frag_decode hdr_byte
      in if frag_idx h = 0 then
           (let r = r\<lparr>rs_buf := []\<rparr>
            in case extend_from_slice cap (rs_buf r) chunk of
                 None \<Rightarrow> (reasm_reset r, None)
               | Some b \<Rightarrow>
                   let r = r\<lparr>rs_buf := b, rs_pid := frag_pid h\<rparr>
                   in if frag_more h then (r\<lparr>rs_active := True, rs_next_idx := 1\<rparr>, None)
                      else (r\<lparr>rs_active := False, rs_next_idx := 0\<rparr>, Some b))
         else if \<not> rs_active r then (r, None)
         else if frag_pid h \<noteq> rs_pid r \<or> frag_idx h \<noteq> rs_next_idx r then (reasm_reset r, None)
         else
           (case extend_from_slice cap (rs_buf r) chunk of
              None \<Rightarrow> (reasm_reset r, None)
            | Some b \<Rightarrow>
                let r = r\<lparr>rs_buf := b, rs_next_idx := rs_next_idx r + 1\<rparr>
                in if frag_more h then (r, None)
                   else (r\<lparr>rs_active := False, rs_next_idx := 0\<rparr>, Some b)))"

section \<open>Chunks\<close>

lemma chunks_Nil [simp]: "chunks n [] = []"
  by (simp add: chunks.simps)

lemma chunks_Cons: "xs \<noteq> [] \<Longrightarrow> 0 < n \<Longrightarrow> chunks n xs = take n xs # chunks n (drop n xs)"
  by (simp add: chunks.simps [of n xs])

lemma concat_chunks [simp]: "0 < n \<Longrightarrow> concat (chunks n xs) = xs"
  by (induction n xs rule: chunks.induct) (subst chunks.simps, simp)

lemma chunks_bound: "c \<in> set (chunks n xs) \<Longrightarrow> c \<noteq> [] \<and> length c \<le> n"
proof (induction n xs rule: chunks.induct)
  case (1 n xs)
  then show ?case by (cases "xs = [] \<or> n = 0") (auto simp: chunks.simps [of n xs])
qed

lemma length_chunks: "0 < n \<Longrightarrow> length (chunks n xs) = div_ceil (length xs) n"
proof (induction n xs rule: chunks.induct)
  case (1 n xs)
  show ?case
  proof (cases "xs = []")
    case True
    then show ?thesis using 1(2) by (simp add: div_ceil_def)
  next
    case False
    then have l: "length (chunks n xs) = Suc (div_ceil (length xs - n) n)"
      using 1 by (simp add: chunks_Cons)
    have "div_ceil (length xs) n = Suc (div_ceil (length xs - n) n)"
    proof (cases "n \<le> length xs")
      case True
      define m where "m = length xs - n"
      have "length xs = m + n" using True by (simp add: m_def)
      moreover have "(m + n + n - 1) div n = Suc ((m + n - 1) div n)"
        using 1(2) div_add_self2 [of n "m + n - 1"] by simp
      ultimately show ?thesis by (simp add: div_ceil_def)
    next
      case small: False
      have "(length xs + n - 1) div n = 1"
      proof (rule div_nat_eqI)
        have "0 < length xs" using False by simp
        then have "n \<le> length xs + n - 1" "length xs + n - 1 < n + n" using small by linarith+
        then show "n * 1 \<le> length xs + n - 1" "length xs + n - 1 < n * Suc 1" by simp_all
      qed
      then show ?thesis using small 1(2) by (simp add: div_ceil_def)
    qed
    then show ?thesis using l by simp
  qed
qed

section \<open>Fragment sets\<close>

text \<open>The frames of a packet as the wire carries them: header byte and chunk.\<close>

definition frame_set :: "u8 \<Rightarrow> bytes list \<Rightarrow> (u8 \<times> bytes) list" where
  "frame_set p cs =
     map (\<lambda>(i, c). (frag_encode \<lparr>frag_more = (i + 1 < length cs), frag_pid = p, frag_idx = of_nat i\<rparr>, c))
       (enumerate 0 cs)"

definition wire_frames :: "(frag_hdr \<times> bytes) list \<Rightarrow> (u8 \<times> bytes) list" where
  "wire_frames fs = map (\<lambda>(h, c). (frag_encode h, c)) fs"

definition packet_chunks :: "nat \<Rightarrow> bytes \<Rightarrow> bytes list" where
  "packet_chunks n packet = (if packet = [] then [[]] else chunks n packet)"

lemma concat_packet_chunks [simp]: "0 < n \<Longrightarrow> concat (packet_chunks n packet) = packet"
  by (simp add: packet_chunks_def)

lemma packet_chunks_nonempty: "0 < n \<Longrightarrow> packet_chunks n packet \<noteq> []"
  by (auto simp: packet_chunks_def chunks_Cons)

lemma packet_chunks_bound: "c \<in> set (packet_chunks n packet) \<Longrightarrow> length c \<le> n"
  using chunks_bound by (auto simp: packet_chunks_def split: if_splits)

lemma fragment_packet_frames:
  assumes "fragment_packet packet n p = Inr fs"
  shows "0 < n" "wire_frames fs = frame_set (p AND MAX_PID) (packet_chunks n packet)"
    "length (packet_chunks n packet) \<le> 16"
  using assms
  by (auto simp: fragment_packet_def Let_def wire_frames_def frame_set_def packet_chunks_def
      length_chunks MAX_FRAGMENTS_def enumerate_eq_zip split: if_splits)

lemma fragment_packet_more:
  assumes "fragment_packet packet n p = Inr fs" "i < length fs"
  shows "frag_more (fst (fs ! i)) \<longleftrightarrow> Suc i < length fs"
proof (cases "packet = []")
  case False
  then show ?thesis
    using assms by (auto simp: fragment_packet_def Let_def length_chunks enumerate_eq_zip split: if_splits)
qed (use assms in \<open>auto simp: fragment_packet_def Let_def split: if_splits\<close>)

lemma fragment_packet_some:
  assumes "fragment_packet packet n p = Inr fs"
  shows "fs \<noteq> []"
proof -
  note ff = fragment_packet_frames [OF assms]
  have "length (wire_frames fs) = length (packet_chunks n packet)"
    using ff(2) by (simp add: frame_set_def)
  then show ?thesis using packet_chunks_nonempty [OF ff(1), of packet] by (auto simp: wire_frames_def)
qed

lemma fragment_packet_total:
  "0 < n \<Longrightarrow> length packet \<le> 16 * n \<Longrightarrow> \<exists>fs. fragment_packet packet n p = Inr fs"
proof -
  assume n: "0 < n" and len: "length packet \<le> 16 * n"
  have "length packet + n - 1 < 17 * n" using len n by linarith
  then have "div_ceil (length packet) n < 17"
    unfolding div_ceil_def by (rule less_mult_imp_div_less)
  then show ?thesis using n by (auto simp: fragment_packet_def Let_def MAX_FRAGMENTS_def)
qed

section \<open>Pushing a set\<close>

fun push_all :: "nat \<Rightarrow> reasm \<Rightarrow> (u8 \<times> bytes) list \<Rightarrow> reasm \<times> bytes list" where
  "push_all cap r [] = (r, [])"
| "push_all cap r ((hdr, chunk) # fs) =
     (let (r, out) = reasm_push cap r hdr chunk; (r, outs) = push_all cap r fs
      in (r, (case out of None \<Rightarrow> outs | Some packet \<Rightarrow> packet # outs)))"

lemma push_all_append:
  "push_all cap r (fs @ gs) =
     (let (r, outs) = push_all cap r fs; (r, outs') = push_all cap r gs in (r, outs @ outs'))"
  by (induction cap r fs rule: push_all.induct) (auto split: prod.split option.split simp: Let_def)

lemma idx_small: "i < 16 \<Longrightarrow> (of_nat i :: u8) < 16"
  by (simp add: word_less_nat_alt unsigned_of_nat take_bit_nat_def)

lemma idx_inject: "i < 256 \<Longrightarrow> j < 256 \<Longrightarrow> (of_nat i :: u8) = of_nat j \<longleftrightarrow> i = j"
  by (simp add: word_unat_eq_iff unsigned_of_nat take_bit_nat_def)

text \<open>The state while a set of pid \<open>p\<close> is under way: the first \<open>i\<close> chunks are in the buffer.\<close>

definition mid_set :: "reasm \<Rightarrow> u8 \<Rightarrow> nat \<Rightarrow> bytes \<Rightarrow> bool" where
  "mid_set r p i b \<longleftrightarrow> rs_active r \<and> rs_pid r = p \<and> rs_next_idx r = of_nat i \<and> rs_buf r = b"

lemma push_rest:
  assumes "p < 8" "mid_set r p i b" "0 < i" "i + length cs \<le> 16" "cs \<noteq> []" "length b + length (concat cs) \<le> cap"
  shows "\<exists>r'. push_all cap r
      (map (\<lambda>(j, c). (frag_encode \<lparr>frag_more = (j + 1 < i + length cs), frag_pid = p, frag_idx = of_nat j\<rparr>, c))
         (enumerate i cs)) = (r', [b @ concat cs]) \<and> \<not> rs_active r'"
  using assms
proof (induction cs arbitrary: r i b)
  case (Cons c cs)
  have i: "(of_nat i :: u8) < 16" "(of_nat i :: u8) \<noteq> 0"
    using Cons.prems idx_small [of i] idx_inject [of i 0] by auto
  let ?h = "\<lparr>frag_more = (i + 1 < i + length (c # cs)), frag_pid = p, frag_idx = of_nat i\<rparr>"
  have dec: "frag_decode (frag_encode ?h) = ?h"
    using Cons.prems(1) i by simp
  show ?case
  proof (cases cs)
    case Nil
    then show ?thesis
      using Cons.prems dec i by (auto simp: reasm_push_def mid_set_def extend_from_slice_def Let_def)
  next
    case more: (Cons d ds)
    define r1 where "r1 = r\<lparr>rs_buf := b @ c, rs_next_idx := rs_next_idx r + 1\<rparr>"
    have push: "reasm_push cap r (frag_encode ?h) c = (r1, None)"
      using Cons.prems dec i more by (simp add: r1_def reasm_push_def mid_set_def extend_from_slice_def Let_def)
    have mid: "mid_set r1 p (Suc i) (b @ c)"
      using Cons.prems(2) by (simp add: r1_def mid_set_def add.commute)
    have "\<exists>r'. push_all cap r1
        (map (\<lambda>(j, c). (frag_encode \<lparr>frag_more = (j + 1 < Suc i + length cs), frag_pid = p, frag_idx = of_nat j\<rparr>, c))
         (enumerate (Suc i) cs)) = (r', [(b @ c) @ concat cs]) \<and> \<not> rs_active r'"
      using Cons.prems more by (intro Cons.IH [OF _ mid]) auto
    then show ?thesis using push by auto
  qed
qed simp

lemma push_set:
  assumes "p < 8" "cs \<noteq> []" "length cs \<le> 16" "length (concat cs) \<le> cap"
  shows "\<exists>r'. push_all cap r (frame_set p cs) = (r', [concat cs]) \<and> \<not> rs_active r'"
proof -
  obtain c ds where cs: "cs = c # ds" using assms(2) by (cases cs) auto
  let ?h = "\<lparr>frag_more = (1 < length cs), frag_pid = p, frag_idx = 0\<rparr>"
  have dec: "frag_decode (frag_encode ?h) = ?h" using assms(1) by simp
  show ?thesis
  proof (cases ds)
    case Nil
    then show ?thesis
      using assms dec cs by (auto simp: frame_set_def reasm_push_def extend_from_slice_def Let_def)
  next
    case more: (Cons d es)
    define r1 where "r1 = r\<lparr>rs_buf := c, rs_pid := p, rs_active := True, rs_next_idx := 1\<rparr>"
    have push: "reasm_push cap r (frag_encode ?h) c = (r1, None)" and mid: "mid_set r1 p 1 c"
      using assms dec cs more by (simp_all add: r1_def reasm_push_def mid_set_def extend_from_slice_def Let_def)
    have "\<exists>r'. push_all cap r1
        (map (\<lambda>(j, c). (frag_encode \<lparr>frag_more = (j + 1 < 1 + length ds), frag_pid = p, frag_idx = of_nat j\<rparr>, c))
         (enumerate 1 ds)) = (r', [c @ concat ds]) \<and> \<not> rs_active r'"
      using assms cs more by (intro push_rest [OF assms(1) mid]) auto
    then show ?thesis using push cs more by (auto simp: frame_set_def)
  qed
qed

section \<open>What a delivered packet was\<close>

text \<open>A run of frames that is one complete set: one pid, indices from 0, MORE on all but the last.\<close>

definition is_set :: "(u8 \<times> bytes) list \<Rightarrow> bool" where
  "is_set fs \<longleftrightarrow> fs \<noteq> [] \<and>
     (\<exists>p. \<forall>i < length fs. frag_decode (fst (fs ! i)) =
        \<lparr>frag_more = (i + 1 < length fs), frag_pid = p, frag_idx = of_nat i\<rparr>)"

text \<open>The reassembler's invariant: an active state is the tail of the frames seen so far.\<close>

definition set_prefix :: "u8 \<Rightarrow> (u8 \<times> bytes) list \<Rightarrow> bool" where
  "set_prefix p fs \<longleftrightarrow>
     (\<forall>i < length fs. frag_decode (fst (fs ! i)) = \<lparr>frag_more = True, frag_pid = p, frag_idx = of_nat i\<rparr>)"

definition reasm_inv :: "nat \<Rightarrow> (u8 \<times> bytes) list \<Rightarrow> reasm \<Rightarrow> bool" where
  "reasm_inv cap seen r \<longleftrightarrow>
     (rs_active r \<longrightarrow>
        (\<exists>old fs. seen = old @ fs \<and> fs \<noteq> [] \<and> length fs \<le> 16 \<and> set_prefix (rs_pid r) fs \<and>
           rs_next_idx r = of_nat (length fs) \<and> rs_buf r = concat (map snd fs) \<and> length (rs_buf r) \<le> cap))"

lemma set_prefix_snoc:
  assumes "set_prefix p fs" "frag_decode hdr = \<lparr>frag_more = m, frag_pid = p, frag_idx = of_nat (length fs)\<rparr>"
  shows "if m then set_prefix p (fs @ [(hdr, c)]) else is_set (fs @ [(hdr, c)])"
  using assms by (auto simp: set_prefix_def is_set_def nth_append less_Suc_eq)

lemma frag_decode_eta: "frag_decode hdr = \<lparr>frag_more = frag_more (frag_decode hdr),
    frag_pid = frag_pid (frag_decode hdr), frag_idx = frag_idx (frag_decode hdr)\<rparr>"
  by simp

lemma push_inv:
  assumes inv: "reasm_inv cap seen r" and push: "reasm_push cap r hdr chunk = (r', out)"
  shows "reasm_inv cap (seen @ [(hdr, chunk)]) r'"
    "out = Some packet \<Longrightarrow>
      \<exists>old fs. seen @ [(hdr, chunk)] = old @ fs \<and> is_set fs \<and> packet = concat (map snd fs) \<and> length packet \<le> cap"
proof -
  let ?h = "frag_decode hdr"
  show "reasm_inv cap (seen @ [(hdr, chunk)]) r'"
  proof (cases "frag_idx ?h = 0")
    case True
    then have "rs_active r' \<Longrightarrow> frag_more ?h \<and> rs_next_idx r' = 1 \<and> rs_pid r' = frag_pid ?h \<and> rs_buf r' = chunk \<and> length chunk \<le> cap"
      using push by (auto simp: reasm_push_def extend_from_slice_def reasm_reset_def Let_def split: if_splits)
    moreover have "set_prefix (frag_pid ?h) [(hdr, chunk)]" if "frag_more ?h"
      using True that by (simp add: set_prefix_def)
    ultimately show ?thesis by (force simp: reasm_inv_def)
  next
    case False
    show ?thesis
      unfolding reasm_inv_def
    proof
      assume act: "rs_active r'"
      then have r: "rs_active r" "frag_pid ?h = rs_pid r" "frag_idx ?h = rs_next_idx r" "frag_more ?h"
        "rs_pid r' = rs_pid r" "rs_next_idx r' = rs_next_idx r + 1" "rs_buf r' = rs_buf r @ chunk"
        "length (rs_buf r') \<le> cap"
        using push False
        by (auto simp: reasm_push_def extend_from_slice_def reasm_reset_def Let_def split: if_splits)
      from inv r(1) obtain old fs where fs: "seen = old @ fs" "fs \<noteq> []" "length fs \<le> 16"
        "set_prefix (rs_pid r) fs" "rs_next_idx r = of_nat (length fs)" "rs_buf r = concat (map snd fs)"
        by (auto simp: reasm_inv_def)
      have "length fs \<noteq> 16"
        using frag_decode_bounds(2) [of hdr] r(3) fs(5) by (auto simp: word_less_nat_alt)
      moreover have "set_prefix (rs_pid r) (fs @ [(hdr, chunk)])"
        using set_prefix_snoc [OF fs(4), of hdr True chunk] r fs(5) by (metis frag_decode_eta)
      ultimately show "\<exists>old fs. seen @ [(hdr, chunk)] = old @ fs \<and> fs \<noteq> [] \<and> length fs \<le> 16 \<and>
          set_prefix (rs_pid r') fs \<and> rs_next_idx r' = of_nat (length fs) \<and>
          rs_buf r' = concat (map snd fs) \<and> length (rs_buf r') \<le> cap"
        using fs r by (intro exI [of _ old] exI [of _ "fs @ [(hdr, chunk)]"]) auto
    qed
  qed
  assume out: "out = Some packet"
  show "\<exists>old fs. seen @ [(hdr, chunk)] = old @ fs \<and> is_set fs \<and> packet = concat (map snd fs) \<and> length packet \<le> cap"
  proof (cases "frag_idx ?h = 0")
    case True
    then have "\<not> frag_more ?h" "packet = chunk" "length chunk \<le> cap"
      using push out by (auto simp: reasm_push_def extend_from_slice_def Let_def split: if_splits)
    then have "is_set [(hdr, chunk)]"
      using True by (auto simp: is_set_def intro!: exI [of _ "frag_pid (frag_decode hdr)"])
    then show ?thesis using \<open>packet = chunk\<close> \<open>length chunk \<le> cap\<close> by force
  next
    case False
    then have r: "rs_active r" "frag_pid ?h = rs_pid r" "frag_idx ?h = rs_next_idx r" "\<not> frag_more ?h"
      "packet = rs_buf r @ chunk" "length packet \<le> cap"
      using push out
      by (auto simp: reasm_push_def extend_from_slice_def reasm_reset_def Let_def split: if_splits)
    from inv r(1) obtain old fs where fs: "seen = old @ fs" "set_prefix (rs_pid r) fs"
      "rs_next_idx r = of_nat (length fs)" "rs_buf r = concat (map snd fs)"
      by (auto simp: reasm_inv_def)
    have "is_set (fs @ [(hdr, chunk)])"
      using set_prefix_snoc [OF fs(2), of hdr False chunk] r fs(3) by (metis frag_decode_eta)
    then show ?thesis using fs r by (intro exI [of _ old] exI [of _ "fs @ [(hdr, chunk)]"]) auto
  qed
qed

lemma push_all_inv:
  "reasm_inv cap seen r \<Longrightarrow> push_all cap r fs = (r', outs) \<Longrightarrow>
    reasm_inv cap (seen @ fs) r' \<and>
    (\<forall>packet \<in> set outs. \<exists>old gs new. seen @ fs = old @ gs @ new \<and> is_set gs \<and>
        packet = concat (map snd gs) \<and> length packet \<le> cap)"
proof (induction fs arbitrary: seen r outs)
  case (Cons f fs)
  obtain hdr chunk where f: "f = (hdr, chunk)" by (cases f)
  obtain r1 out outs1 where push: "reasm_push cap r hdr chunk = (r1, out)"
    and rest: "push_all cap r1 fs = (r', outs1)" and outs: "outs = (case out of None \<Rightarrow> outs1 | Some p \<Rightarrow> p # outs1)"
    using Cons.prems(2) f by (auto split: prod.splits)
  note pi = push_inv [OF Cons.prems(1) push]
  note ih = Cons.IH [OF pi(1) rest]
  have now: "\<exists>old gs new. seen @ f # fs = old @ gs @ new \<and> is_set gs \<and>
        packet = concat (map snd gs) \<and> length packet \<le> cap" if o: "out = Some packet" for packet
  proof -
    obtain old gs where "seen @ [(hdr, chunk)] = old @ gs" "is_set gs" "packet = concat (map snd gs)" "length packet \<le> cap"
      using pi(2) [OF o] by blast
    moreover from this(1) have "seen @ f # fs = old @ gs @ fs" using f by (metis append.assoc append_Cons append_Nil)
    ultimately show ?thesis by blast
  qed
  show ?case
    using ih now outs f by (auto split: option.splits)
qed simp

lemma push_more_silent:
  "\<forall>f \<in> set fs. frag_more (frag_decode (fst f)) \<Longrightarrow> snd (push_all cap r fs) = []"
proof (induction fs arbitrary: r)
  case (Cons f fs)
  obtain hdr c where f: "f = (hdr, c)" by (cases f)
  obtain r1 out where push: "reasm_push cap r hdr c = (r1, out)" by (cases "reasm_push cap r hdr c")
  have "out = None"
    using push Cons.prems f
    by (auto simp: reasm_push_def extend_from_slice_def Let_def split: if_splits)
  then show ?case using Cons f push by (simp split: prod.split)
qed simp

lemma frame_set_more:
  assumes "p < 8" "length cs \<le> 16" "frame_set p cs = gs @ hs" "hs \<noteq> []" "f \<in> set gs"
  shows "frag_more (frag_decode (fst f))"
proof -
  obtain i where i: "i < length gs" "f = gs ! i" using assms(5) by (auto simp: in_set_conv_nth)
  have len: "length gs + length hs = length cs"
    using arg_cong [OF assms(3), of length] by (simp add: frame_set_def)
  then have i': "i + 1 < length cs" using i(1) assms(4) by (cases hs) auto
  have "f = frame_set p cs ! i" using assms(3) i by (simp add: nth_append)
  also have "\<dots> = (frag_encode \<lparr>frag_more = True, frag_pid = p, frag_idx = of_nat i\<rparr>, cs ! i)"
    using i' by (simp add: frame_set_def nth_enumerate_eq)
  finally show ?thesis
    using assms(1,2) i' idx_small [of i] by simp
qed

text \<open>A packet's own fragments deliver it, and only the last one does.\<close>

lemma fragments_deliver:
  assumes fs: "fragment_packet packet n p = Inr fs" and fits: "length packet \<le> cap"
  shows "\<exists>r'. push_all cap r (wire_frames fs) = (r', [packet]) \<and> \<not> rs_active r'"
    "wire_frames fs = gs @ hs \<Longrightarrow> hs \<noteq> [] \<Longrightarrow> snd (push_all cap r gs) = []"
proof -
  note ff = fragment_packet_frames [OF fs]
  have p: "p AND MAX_PID < 8"
    using word_and_le1 [of p 7] by (simp add: MAX_PID_def le_less_trans)
  have "\<exists>r'. push_all cap r (frame_set (p AND MAX_PID) (packet_chunks n packet)) =
      (r', [concat (packet_chunks n packet)]) \<and> \<not> rs_active r'"
    using packet_chunks_nonempty ff fits by (intro push_set [OF p]) auto
  then show "\<exists>r'. push_all cap r (wire_frames fs) = (r', [packet]) \<and> \<not> rs_active r'"
    using ff by simp
  show "snd (push_all cap r gs) = []" if "wire_frames fs = gs @ hs" "hs \<noteq> []"
    using frame_set_more [OF p ff(3)] that ff(2) by (intro push_more_silent) auto
qed

lemma fragment_frame_length:
  assumes "fragment_packet packet n p = Inr fs" "(hdr, c) \<in> set fs"
  shows "length c \<le> n"
proof -
  note ff = fragment_packet_frames [OF assms(1)]
  have "(frag_encode hdr, c) \<in> set (wire_frames fs)" using assms(2) by (force simp: wire_frames_def)
  then have "c \<in> set (packet_chunks n packet)"
    unfolding ff(2) by (auto simp: frame_set_def enumerate_eq_zip set_zip)
  then show ?thesis by (rule packet_chunks_bound)
qed

section \<open>Properties\<close>

text \<open>Fragment, carry, reassemble: every packet of at most sixteen chunks is delivered whole and exactly
  once, by the last of its fragments and by none before it, from whatever state the reassembler was in
  (half a packet of another sender included), provided it fits the receiver's bound.\<close>

theorem fragment_reassemble:
  assumes "0 < n" "length packet \<le> MAX_FRAGMENTS * n" "length packet \<le> cap"
  shows "\<exists>fs r'. fragment_packet packet n p = Inr fs \<and> length fs \<le> MAX_FRAGMENTS \<and>
    push_all cap r (wire_frames fs) = (r', [packet]) \<and> \<not> rs_active r'"
proof -
  obtain fs where fs: "fragment_packet packet n p = Inr fs"
    using fragment_packet_total [OF assms(1), of packet p] assms(2) by (auto simp: MAX_FRAGMENTS_def)
  have "length fs = length (wire_frames fs)" by (simp add: wire_frames_def)
  also have "\<dots> \<le> 16"
    using fragment_packet_frames [OF fs] by (simp add: frame_set_def)
  finally show ?thesis using fs fragments_deliver(1) [OF fs assms(3)] by (simp add: MAX_FRAGMENTS_def)
qed

lemma fragment_reassemble_witness:
  "\<exists>fs r'. fragment_packet (replicate 50 0) 19 3 = Inr fs \<and> length fs \<le> MAX_FRAGMENTS \<and>
    push_all 72 reasm_new (wire_frames fs) = (r', [replicate 50 0]) \<and> \<not> rs_active r'"
  by (rule fragment_reassemble) (simp_all add: MAX_FRAGMENTS_def)

text \<open>C23: Atomic or discard: whatever frames arrive, in whatever order, duplicated, torn or interleaved, every
  packet the reassembler delivers is the concatenation of the chunks of one unbroken run of the
  received frames that is a complete set (one packet id, indices counting from 0, MORE on all but the
  last), and it never exceeds the buffer bound.\<close>

theorem reassembly_atomic:
  assumes "push_all cap reasm_new fs = (r, outs)" "packet \<in> set outs"
  shows "\<exists>old gs new. fs = old @ gs @ new \<and> is_set gs \<and> packet = concat (map snd gs) \<and> length packet \<le> cap"
  using push_all_inv [of cap "[]" reasm_new fs r outs] assms by (auto simp: reasm_inv_def reasm_new_def)

lemma reassembly_atomic_witness:
  "\<exists>old gs new. [(0x00 :: u8, [1 :: u8, 2])] = old @ gs @ new \<and> is_set gs \<and> [1, 2] = concat (map snd gs) \<and>
     length [1 :: u8, 2] \<le> 72"
proof -
  have "push_all 72 reasm_new [(0x00, [1, 2])] =
      (\<lparr>rs_active = False, rs_pid = 0, rs_next_idx = 0, rs_buf = [1, 2]\<rparr>, [[1, 2]])"
    by (simp add: reasm_push_def frag_decode_def reasm_new_def extend_from_slice_def Let_def)
  from reassembly_atomic [OF this] show ?thesis by simp
qed

end
