(* ===== verification/Link.thy ===== *)
theory Link
  imports Reasm
begin

text \<open>
  The L2 service (\<open>shared/link/src/link.rs\<close>) over any transport, and the one shipped transport, the
  stream framer over a serial port (\<open>shared/link/src/serial.rs\<close>). A transport and a serial port are
  records of operations the definitions take as arguments; the laws a serial port is used under are
  the locale \<open>serial_port\<close>, with the queue of the source's tests as its instance.

  The two receive loops run until the port has nothing more, so they are partial functions: \<open>None\<close> is
  a call that does not return. The lemmas show they return on every serial port, and what.
\<close>

section \<open>Interfaces\<close>

record 't transport_ops =
  frame_capacity :: "'t \<Rightarrow> nat"
  send_l2_frame :: "'t \<Rightarrow> bytes \<Rightarrow> 't \<times> bool"
  encode_l2_frame :: "'t \<Rightarrow> bytes \<Rightarrow> nat \<Rightarrow> bytes option"
  recv_l2_frame :: "'t \<Rightarrow> nat \<Rightarrow> ('t \<times> bytes option) option"

record 's serial_ops =
  write_all :: "'s \<Rightarrow> bytes \<Rightarrow> 's \<times> bool"
  read_ready :: "'s \<Rightarrow> bool"
  read_some :: "'s \<Rightarrow> nat \<Rightarrow> 's \<times> bytes option"

section \<open>The serial transport\<close>

definition PULL_CHUNK :: nat where
  "PULL_CHUNK = 24"

text \<open>\<open>tr_stage\<close> is the unfed part \<open>stage[stage_pos..stage_len]\<close>; \<open>tr_cap\<close> is the framer's size \<open>N\<close>.\<close>

record 's serial_transport =
  tr_serial :: 's
  tr_framer :: bytes
  tr_capacity :: nat
  tr_stage :: bytes
  tr_cap :: nat

definition serial_new :: "'s \<Rightarrow> nat \<Rightarrow> nat \<Rightarrow> 's serial_transport" where
  "serial_new s capacity cap =
     \<lparr>tr_serial = s, tr_framer = [], tr_capacity = capacity, tr_stage = [], tr_cap = cap\<rparr>"

definition serial_reset :: "'s serial_transport \<Rightarrow> 's serial_transport" where
  "serial_reset t = t\<lparr>tr_framer := [], tr_stage := []\<rparr>"

definition serial_send :: "'s serial_ops \<Rightarrow> 's serial_transport \<Rightarrow> bytes \<Rightarrow> 's serial_transport \<times> bool" where
  "serial_send S t l2 =
     (case frame_encode l2 (tr_cap t) of
        Inl e \<Rightarrow> (t, False)
      | Inr bs \<Rightarrow> (case write_all S (tr_serial t) bs of (s, placed) \<Rightarrow> (t\<lparr>tr_serial := s\<rparr>, placed)))"

definition serial_encode :: "'s serial_transport \<Rightarrow> bytes \<Rightarrow> nat \<Rightarrow> bytes option" where
  "serial_encode t l2 room = (case frame_encode l2 room of Inl e \<Rightarrow> None | Inr bs \<Rightarrow> Some bs)"

definition feed_stage :: "'s serial_transport \<Rightarrow> nat \<Rightarrow> 's serial_transport \<times> bytes option" where
  "feed_stage t room =
     (if tr_stage t \<noteq> [] then
        case feed_one (tr_cap t) (tr_framer t) (tr_stage t) of
          (f, buf, rest) \<Rightarrow> (t\<lparr>tr_framer := buf, tr_stage := rest\<rparr>, map_option (take room) f)
      else (t, None))"

partial_function (option) serial_recv ::
  "'s serial_ops \<Rightarrow> 's serial_transport \<Rightarrow> nat \<Rightarrow> ('s serial_transport \<times> bytes option) option" where
  "serial_recv S t room =
     (let (t, got) = feed_stage t room
      in case got of
           Some f \<Rightarrow> Some (t, Some f)
         | None \<Rightarrow>
             if \<not> read_ready S (tr_serial t) then Some (t, None)
             else (case read_some S (tr_serial t) PULL_CHUNK of
                     (s, None) \<Rightarrow> Some (t\<lparr>tr_serial := s\<rparr>, None)
                   | (s, Some bs) \<Rightarrow>
                       if bs = [] then Some (t\<lparr>tr_serial := s\<rparr>, None)
                       else serial_recv S (t\<lparr>tr_serial := s, tr_stage := bs\<rparr>) room))"

definition SerialTransport :: "'s serial_ops \<Rightarrow> 's serial_transport transport_ops" where
  "SerialTransport S =
     \<lparr>frame_capacity = tr_capacity, send_l2_frame = serial_send S, encode_l2_frame = serial_encode,
      recv_l2_frame = serial_recv S\<rparr>"

section \<open>The link\<close>

definition MAX_L2_FRAME :: nat where
  "MAX_L2_FRAME = 255"

record staged =
  stg_bytes :: bytes
  stg_more :: bool

datatype send_error = SendPacketTooLarge | SendDropped

text \<open>A link: its transport, the next packet id, the reassembler; \<open>lk_bound\<close> is \<open>N\<close>, \<open>lk_scratch\<close> is \<open>F\<close>.\<close>

record 't link =
  lk_transport :: 't
  lk_tx_pid :: u8
  lk_reasm :: reasm
  lk_bound :: nat
  lk_scratch :: nat

definition link_new :: "'t transport_ops \<Rightarrow> nat \<Rightarrow> nat \<Rightarrow> 't \<Rightarrow> 't link option" where
  "link_new T bound scratch t =
     (if scratch \<ge> frame_capacity T t
      then Some \<lparr>lk_transport = t, lk_tx_pid = 0, lk_reasm = reasm_new, lk_bound = bound, lk_scratch = scratch\<rparr>
      else None)"

definition mtu_hint :: "'t transport_ops \<Rightarrow> 't link \<Rightarrow> nat" where
  "mtu_hint T lk = MAX_FRAGMENTS * (frame_capacity T (lk_transport lk) - 1)"

text \<open>The scratch frame: \<open>push\<close> of the header byte, then \<open>extend_from_slice\<close>, both failing quietly.\<close>

definition build_frame :: "nat \<Rightarrow> u8 \<Rightarrow> bytes \<Rightarrow> bytes" where
  "build_frame scratch hdr chunk =
     (let v = (if 0 < scratch then [hdr] else [])
      in case extend_from_slice scratch v chunk of None \<Rightarrow> v | Some v' \<Rightarrow> v')"

fun send_frames ::
  "'t transport_ops \<Rightarrow> nat \<Rightarrow> 't \<Rightarrow> (frag_hdr \<times> bytes) list \<Rightarrow> bool \<Rightarrow> 't \<times> bool" where
  "send_frames T scratch t [] placed = (t, placed)"
| "send_frames T scratch t ((hdr, chunk) # fs) placed =
     (case send_l2_frame T t (build_frame scratch (frag_encode hdr) chunk) of
        (t, taken) \<Rightarrow> send_frames T scratch t fs (placed \<and> taken))"

definition link_send :: "'t transport_ops \<Rightarrow> 't link \<Rightarrow> bytes \<Rightarrow> 't link \<times> (send_error + unit)" where
  "link_send T lk packet =
     (let chunk_cap = frame_capacity T (lk_transport lk) - 1
      in case fragment_packet packet chunk_cap (lk_tx_pid lk) of
           Inl e \<Rightarrow> (lk, Inl SendPacketTooLarge)
         | Inr fs \<Rightarrow>
             (case send_frames T (lk_scratch lk) (lk_transport lk) fs True of
                (t, placed) \<Rightarrow>
                  (lk\<lparr>lk_transport := t, lk_tx_pid := (lk_tx_pid lk + 1) AND MAX_PID\<rparr>,
                   if placed then Inr () else Inl SendDropped)))"

definition stage_fragment ::
  "'t transport_ops \<Rightarrow> 't link \<Rightarrow> bytes \<Rightarrow> nat \<Rightarrow> nat \<Rightarrow> 't link \<times> staged option" where
  "stage_fragment T lk packet index room =
     (let chunk_cap = frame_capacity T (lk_transport lk) - 1
      in case fragment_packet packet chunk_cap (lk_tx_pid lk) of
           Inl e \<Rightarrow> (lk, None)
         | Inr fs \<Rightarrow>
             if index < length fs then
               (case fs ! index of
                  (hdr, chunk) \<Rightarrow>
                    (case encode_l2_frame T (lk_transport lk)
                            (build_frame (lk_scratch lk) (frag_encode hdr) chunk) room of
                       None \<Rightarrow> (lk, None)
                     | Some bs \<Rightarrow>
                         (if \<not> frag_more hdr then lk\<lparr>lk_tx_pid := (lk_tx_pid lk + 1) AND MAX_PID\<rparr> else lk,
                          Some \<lparr>stg_bytes = bs, stg_more = frag_more hdr\<rparr>)))
             else (lk, None))"

text \<open>A delivered packet larger than the caller's buffer is an out-of-range slice: a panic.\<close>

datatype polled = NoPacket | Packet bytes | PolledPanic

partial_function (option) poll_recv :: "'t transport_ops \<Rightarrow> 't link \<Rightarrow> nat \<Rightarrow> ('t link \<times> polled) option" where
  "poll_recv T lk room =
     (case recv_l2_frame T (lk_transport lk) (lk_scratch lk) of
        None \<Rightarrow> None
      | Some (t, None) \<Rightarrow> Some (lk\<lparr>lk_transport := t\<rparr>, NoPacket)
      | Some (t, Some []) \<Rightarrow> poll_recv T (lk\<lparr>lk_transport := t\<rparr>) room
      | Some (t, Some (hdr # chunk)) \<Rightarrow>
          (case reasm_push (lk_bound lk) (lk_reasm lk) hdr chunk of
             (r, Some packet) \<Rightarrow>
               Some (lk\<lparr>lk_transport := t, lk_reasm := r\<rparr>,
                     if length packet \<le> room then Packet packet else PolledPanic)
           | (r, None) \<Rightarrow> poll_recv T (lk\<lparr>lk_transport := t, lk_reasm := r\<rparr>) room))"

section \<open>Serial ports\<close>

locale serial_port =
  fixes S :: "'s serial_ops" and ok :: "'s \<Rightarrow> bool" and incoming :: "'s \<Rightarrow> bytes" and outgoing :: "'s \<Rightarrow> bytes"
  assumes ready_read:
      "ok s \<Longrightarrow> read_ready S s \<Longrightarrow> 0 < n \<Longrightarrow>
        \<exists>s' bs. read_some S s n = (s', Some bs) \<and> bs \<noteq> [] \<and> length bs \<le> n \<and>
          incoming s = bs @ incoming s' \<and> ok s'"
    and not_ready: "ok s \<Longrightarrow> \<not> read_ready S s \<Longrightarrow> incoming s = []"
    and write_takes:
      "ok s \<Longrightarrow> write_all S s bs = (s', True) \<Longrightarrow> outgoing s' = outgoing s @ bs \<and> incoming s' = incoming s"
    and write_keeps: "ok s \<Longrightarrow> write_all S s bs = (s', x) \<Longrightarrow> ok s'"
begin

text \<open>Everything the port still has to say: the framer's bytes, the stage, the wire.\<close>

definition stream :: "'s serial_transport \<Rightarrow> bytes" where
  "stream t = tr_framer t @ tr_stage t @ incoming (tr_serial t)"

lemma scan_pending: "scan cap s = ([], r) \<Longrightarrow> scan cap r = ([], r)"
  using scan_append [of cap s "[]"] by (cases "scan cap r") simp

lemma scan_append_fst:
  "scan cap s = (fs, r) \<Longrightarrow> scan cap (s @ t) = (fs @ fst (scan cap (r @ t)), snd (scan cap (r @ t)))"
  using scan_append [of cap s t] by simp

lemma feed_stage_keeps:
  "feed_stage t room = (t', got) \<Longrightarrow>
    tr_serial t' = tr_serial t \<and> tr_cap t' = tr_cap t \<and> tr_capacity t' = tr_capacity t"
  by (auto simp: feed_stage_def split: if_splits prod.splits)

lemma feed_stage_None:
  assumes "feed_stage t room = (t', None)"
  shows "tr_stage t' = []" "scan (tr_cap t) (stream t') = scan (tr_cap t) (stream t)"
proof -
  have "tr_stage t' = [] \<and> scan (tr_cap t) (stream t') = scan (tr_cap t) (stream t)"
  proof (cases "tr_stage t = []")
    case True
    then show ?thesis using assms by (simp add: feed_stage_def)
  next
    case False
    then obtain b rest where f: "feed_one (tr_cap t) (tr_framer t) (tr_stage t) = (None, b, rest)"
      and t': "t' = t\<lparr>tr_framer := b, tr_stage := rest\<rparr>"
      using assms by (auto simp: feed_stage_def split: prod.splits)
    note fs = feed_one_scan(1) [OF f refl]
    show ?thesis
      using fs t' scan_append_fst [of "tr_cap t" "tr_framer t @ tr_stage t" "[]" b "incoming (tr_serial t)"]
      by (simp add: stream_def)
  qed
  then show "tr_stage t' = []" "scan (tr_cap t) (stream t') = scan (tr_cap t) (stream t)" by auto
qed

lemma feed_stage_Some:
  assumes "feed_stage t room = (t', Some f)"
  obtains l2 where "f = take room l2"
    "scan (tr_cap t) (stream t) = (l2 # fst (scan (tr_cap t) (stream t')), snd (scan (tr_cap t) (stream t')))"
proof -
  obtain l2 b rest where fo: "feed_one (tr_cap t) (tr_framer t) (tr_stage t) = (Some l2, b, rest)"
    and t': "t' = t\<lparr>tr_framer := b, tr_stage := rest\<rparr>" and f: "f = take room l2"
    using assms by (auto simp: feed_stage_def split: if_splits prod.splits)
  note fs = feed_one_scan(2) [OF fo refl]
  have "scan (tr_cap t) (stream t) =
      (l2 # fst (scan (tr_cap t) (stream t')), snd (scan (tr_cap t) (stream t')))"
    using scan_append_fst [OF fs, of "incoming (tr_serial t)"]
      scan_append_fst [of "tr_cap t" "b @ rest" _ _ "incoming (tr_serial t)", OF prod.collapse [symmetric]] t'
    by (simp add: stream_def)
  then show thesis using f that by blast
qed

text \<open>
  The receive call returns. If a byte has come since the last call it answers the first frame of the
  stream, and \<open>None\<close> only when the stream holds none; with nothing new it answers \<open>None\<close> without
  looking at the framer's buffer.
\<close>

lemma serial_recv_idle:
  "ok (tr_serial t) \<Longrightarrow> tr_stage t = [] \<Longrightarrow> \<not> read_ready S (tr_serial t) \<Longrightarrow> serial_recv S t room = Some (t, None)"
  by (simp add: serial_recv.simps [of S t] feed_stage_def)

lemma serial_recv_returns:
  assumes "ok (tr_serial t)" "tr_stage t \<noteq> [] \<or> incoming (tr_serial t) \<noteq> []"
  shows "\<exists>t' got. serial_recv S t room = Some (t', got) \<and> ok (tr_serial t') \<and>
    tr_cap t' = tr_cap t \<and> tr_capacity t' = tr_capacity t \<and>
    (case fst (scan (tr_cap t) (stream t)) of
       [] \<Rightarrow> got = None \<and> scan (tr_cap t) (stream t') = scan (tr_cap t) (stream t)
     | f # fs \<Rightarrow> got = Some (take room f) \<and>
         scan (tr_cap t) (stream t') = (fs, snd (scan (tr_cap t) (stream t))))"
  using assms
proof (induction "length (incoming (tr_serial t))" arbitrary: t rule: less_induct)
  case less
  obtain t1 got where fs: "feed_stage t room = (t1, got)" by (cases "feed_stage t room")
  note keeps = feed_stage_keeps [OF fs]
  show ?case
  proof (cases got)
    case (Some f)
    obtain l2 where "f = take room l2"
      "scan (tr_cap t) (stream t) = (l2 # fst (scan (tr_cap t) (stream t1)), snd (scan (tr_cap t) (stream t1)))"
      using feed_stage_Some fs Some by metis
    then show ?thesis
      using fs Some keeps less.prems by (simp add: serial_recv.simps [of S t])
  next
    case None
    note fn = feed_stage_None [OF fs [unfolded None]]
    show ?thesis
    proof (cases "read_ready S (tr_serial t)")
      case True
      obtain s' bs where rd: "read_some S (tr_serial t) PULL_CHUNK = (s', Some bs)" "bs \<noteq> []"
        "incoming (tr_serial t) = bs @ incoming s'" "ok s'"
        using ready_read [OF less.prems(1) True, of PULL_CHUNK] by (auto simp: PULL_CHUNK_def)
      define t2 where "t2 = t1\<lparr>tr_serial := s', tr_stage := bs\<rparr>"
      have t2: "tr_serial t2 = s'" "tr_stage t2 = bs" "tr_cap t2 = tr_cap t" "tr_capacity t2 = tr_capacity t"
        using keeps by (simp_all add: t2_def)
      have "stream t2 = stream t1" using rd(3) fn(1) keeps by (simp add: stream_def t2_def)
      then have st: "scan (tr_cap t) (stream t2) = scan (tr_cap t) (stream t)" using fn(2) by simp
      have run: "serial_recv S t room = serial_recv S t2 room"
        using fs None True rd keeps by (simp add: serial_recv.simps [of S t] t2_def)
      have "length (incoming (tr_serial t2)) < length (incoming (tr_serial t))"
        "ok (tr_serial t2)" "tr_stage t2 \<noteq> [] \<or> incoming (tr_serial t2) \<noteq> []"
        using rd t2 by auto
      from less.hyps [OF this] show ?thesis unfolding run t2(3,4) st .
    next
      case False
      have "incoming (tr_serial t) = []" using not_ready [OF less.prems(1) False] .
      then have ne: "tr_stage t \<noteq> []" and st: "stream t = tr_framer t @ tr_stage t"
        using less.prems(2) by (simp_all add: stream_def)
      obtain b rest where "feed_one (tr_cap t) (tr_framer t) (tr_stage t) = (None, b, rest)"
        using fs None ne by (auto simp: feed_stage_def split: prod.splits)
      then have "scan (tr_cap t) (stream t) = ([], b)"
        using feed_one_scan(1) st by simp
      then show ?thesis
        using fs None False keeps less.prems fn(2) by (simp add: serial_recv.simps [of S t])
    qed
  qed
qed

text \<open>On a clean stream: the next frame, taken exactly, with nothing left in the framer.\<close>

lemma feed_stage_clean:
  assumes l2: "l2 \<noteq> []" "length l2 \<le> MAX_L2_LEN" "length l2 + 4 \<le> tr_cap t"
    and st: "stream t = frame_of l2 @ rest" "length (tr_framer t) < length l2 + 4"
  shows "(\<exists>t'. feed_stage t room = (t', Some (take room l2)) \<and> tr_framer t' = [] \<and> stream t' = rest) \<or>
    (\<exists>t'. feed_stage t room = (t', None) \<and> tr_stage t' = [] \<and> stream t' = stream t \<and>
       length (tr_framer t') < length l2 + 4 \<and> incoming (tr_serial t) \<noteq> [])"
proof -
  let ?all = "tr_framer t @ tr_stage t" and ?in = "incoming (tr_serial t)"
  have eq: "?all @ ?in = frame_of l2 @ rest" using st(1) by (simp add: stream_def)
  show ?thesis
  proof (cases "length l2 + 4 \<le> length ?all")
    case True
    define us where "us = drop (length l2 + 4) ?all"
    have "take (length l2 + 4) ?all = frame_of l2"
      using True arg_cong [OF eq, of "take (length l2 + 4)"] by simp
    then have all: "?all = frame_of l2 @ us" by (metis append_take_drop_id us_def)
    have us: "?all = frame_of l2 @ us" "rest = us @ ?in"
      using all eq unfolding all by simp_all
    have "drain (tr_cap t) True (tr_framer t) (tr_stage t) = ([l2], [], us)"
      using drain_clean [OF l2 us(1)] st(2) by simp
    moreover have "tr_stage t \<noteq> []" using True st(2) by auto
    ultimately show ?thesis
      using us by (auto simp: feed_stage_def feed_one_def stream_def)
  next
    case False
    then have "?in \<noteq> []" using arg_cong [OF eq, of length] by auto
    moreover have all: "?all = take (length ?all) (frame_of l2)"
      using False arg_cong [OF eq, of "take (length ?all)"] by simp
    have "drain (tr_cap t) True (tr_framer t) (tr_stage t) = ([], ?all, [])"
      using drain_partial [OF l2 all] False by simp
    ultimately show ?thesis
      using False by (cases "tr_stage t = []") (auto simp: feed_stage_def feed_one_def stream_def)
  qed
qed

lemma serial_recv_clean:
  assumes "ok (tr_serial t)" "l2 \<noteq> []" "length l2 \<le> MAX_L2_LEN" "length l2 + 4 \<le> tr_cap t"
    and "stream t = frame_of l2 @ rest" "length (tr_framer t) < length l2 + 4"
  shows "\<exists>t'. serial_recv S t room = Some (t', Some (take room l2)) \<and> ok (tr_serial t') \<and>
    tr_cap t' = tr_cap t \<and> tr_capacity t' = tr_capacity t \<and> tr_framer t' = [] \<and> stream t' = rest"
  using assms
proof (induction "length (incoming (tr_serial t))" arbitrary: t rule: less_induct)
  case less
  from feed_stage_clean [OF less.prems(2-6), of room] show ?case
  proof (elim disjE exE conjE)
    fix t' assume f: "feed_stage t room = (t', Some (take room l2))" and "tr_framer t' = []" "stream t' = rest"
    then show ?thesis
      using feed_stage_keeps [OF f] less.prems(1) by (simp add: serial_recv.simps [of S t])
  next
    fix t1 assume f: "feed_stage t room = (t1, None)" and t1: "tr_stage t1 = []" "stream t1 = stream t"
      "length (tr_framer t1) < length l2 + 4" and more: "incoming (tr_serial t) \<noteq> []"
    note keeps = feed_stage_keeps [OF f]
    have ready: "read_ready S (tr_serial t)" using not_ready less.prems(1) more by blast
    obtain s' bs where rd: "read_some S (tr_serial t) PULL_CHUNK = (s', Some bs)" "bs \<noteq> []"
      "incoming (tr_serial t) = bs @ incoming s'" "ok s'"
      using ready_read [OF less.prems(1) ready, of PULL_CHUNK] by (auto simp: PULL_CHUNK_def)
    define t2 where "t2 = t1\<lparr>tr_serial := s', tr_stage := bs\<rparr>"
    have t2: "tr_serial t2 = s'" "tr_framer t2 = tr_framer t1" "tr_cap t2 = tr_cap t" "tr_capacity t2 = tr_capacity t"
      "stream t2 = stream t"
      using keeps rd(3) t1 by (simp_all add: t2_def stream_def)
    have run: "serial_recv S t room = serial_recv S t2 room"
      using f ready rd keeps by (simp add: serial_recv.simps [of S t] t2_def)
    show ?thesis
      using less.hyps [of t2] rd less.prems t1(3) t2 unfolding run by simp
  qed
qed

section \<open>Receiving a whole packet\<close>

lemma poll_recv_clean:
  assumes "ok (tr_serial (lk_transport lk))" "tr_framer (lk_transport lk) = []"
    and "stream (lk_transport lk) = concat (map (\<lambda>(hdr, c). frame_of (hdr # c)) fs) @ rest"
    and "\<forall>(hdr, c) \<in> set fs. length c < MAX_L2_LEN \<and> length c + 5 \<le> tr_cap (lk_transport lk) \<and> length c < lk_scratch lk"
    and "push_all (lk_bound lk) (lk_reasm lk) fs = (r, [packet])" "length packet \<le> room"
    and last: "\<And>gs hs. fs = gs @ hs \<Longrightarrow> hs \<noteq> [] \<Longrightarrow> snd (push_all (lk_bound lk) (lk_reasm lk) gs) = []"
  shows "\<exists>lk'. poll_recv (SerialTransport S) lk room = Some (lk', Packet packet) \<and>
    lk_reasm lk' = r \<and> stream (lk_transport lk') = rest \<and> tr_framer (lk_transport lk') = []"
  using assms
proof (induction fs arbitrary: lk)
  case (Cons f fs)
  obtain hdr c where f: "f = (hdr, c)" by (cases f)
  let ?t = "lk_transport lk"
  have "stream ?t = frame_of (hdr # c) @ concat (map (\<lambda>(hdr, c). frame_of (hdr # c)) fs) @ rest"
    using Cons.prems(3) f by simp
  with Cons.prems(1,2,4) f obtain t' where recv: "serial_recv S ?t (lk_scratch lk) = Some (t', Some (hdr # c))"
    and t': "ok (tr_serial t')" "tr_cap t' = tr_cap ?t" "tr_framer t' = []"
      "stream t' = concat (map (\<lambda>(hdr, c). frame_of (hdr # c)) fs) @ rest"
    using serial_recv_clean [of ?t "hdr # c" _ "lk_scratch lk"] by (auto simp: MAX_L2_LEN_def)
  obtain r1 out where push: "reasm_push (lk_bound lk) (lk_reasm lk) hdr c = (r1, out)"
    by (cases "reasm_push (lk_bound lk) (lk_reasm lk) hdr c")
  show ?case
  proof (cases "fs = []")
    case True
    then have "out = Some packet" "r1 = r"
      using Cons.prems(5) f push by (auto split: option.splits)
    then show ?thesis
      using recv push t' True Cons.prems(6) by (simp add: poll_recv.simps [of _ lk] SerialTransport_def)
  next
    case False
    have out: "out = None"
      using Cons.prems(7) [of "[f]" fs] f push False by (auto split: option.splits)
    define lk1 where "lk1 = lk\<lparr>lk_transport := t', lk_reasm := r1\<rparr>"
    have lk1: "lk_transport lk1 = t'" "lk_reasm lk1 = r1" "lk_bound lk1 = lk_bound lk" "lk_scratch lk1 = lk_scratch lk"
      by (simp_all add: lk1_def)
    have run: "poll_recv (SerialTransport S) lk room = poll_recv (SerialTransport S) lk1 room"
      using recv push out by (simp add: poll_recv.simps [of _ lk] SerialTransport_def lk1_def)
    have all: "push_all (lk_bound lk1) (lk_reasm lk1) fs = (r, [packet])"
      using Cons.prems(5) f push out lk1 by (auto split: prod.splits)
    have lst: "snd (push_all (lk_bound lk1) (lk_reasm lk1) gs) = []" if "fs = gs @ hs" "hs \<noteq> []" for gs hs
      using Cons.prems(7) [of "f # gs" hs] that f push out lk1 by (simp split: prod.splits)
    show ?thesis
      unfolding run using Cons.prems(4,6) t' lk1 by (intro Cons.IH [OF _ _ _ _ all _ lst]) auto
  qed
qed simp

section \<open>Sending\<close>

lemma serial_send_taken:
  assumes "ok (tr_serial t)" "serial_send S t l2 = (t', True)"
  shows "l2 \<noteq> [] \<and> length l2 \<le> MAX_L2_LEN \<and> length l2 + 4 \<le> tr_cap t"
    "outgoing (tr_serial t') = outgoing (tr_serial t) @ frame_of l2" "ok (tr_serial t')"
    "tr_cap t' = tr_cap t" "tr_capacity t' = tr_capacity t"
  using assms write_takes write_keeps
  by (auto simp: serial_send_def frame_encode_eq split: if_splits prod.splits)

lemma send_frames_placed:
  assumes "ok (tr_serial t)" "send_frames (SerialTransport S) scratch t fs True = (t', True)"
    and "\<forall>(hdr, c) \<in> set fs. length c < scratch"
  shows "outgoing (tr_serial t') =
      outgoing (tr_serial t) @ concat (map (\<lambda>(hdr, c). frame_of (frag_encode hdr # c)) fs) \<and>
    (\<forall>(hdr, c) \<in> set fs. length c < MAX_L2_LEN \<and> length c + 5 \<le> tr_cap t)"
  using assms
proof (induction fs arbitrary: t)
  case (Cons f fs)
  obtain hdr c where f: "f = (hdr, c)" by (cases f)
  have frame: "build_frame scratch (frag_encode hdr) c = frag_encode hdr # c"
    using Cons.prems(3) f by (simp add: build_frame_def extend_from_slice_def)
  have stays: "placed = True" if "send_frames (SerialTransport S) scratch u gs placed = (u', True)" for u u' gs placed
    using that by (induction gs arbitrary: u placed) (auto split: prod.splits, blast)
  obtain t1 taken where send: "serial_send S t (frag_encode hdr # c) = (t1, taken)"
    and rest: "send_frames (SerialTransport S) scratch t1 fs taken = (t', True)"
    using Cons.prems(2) f frame by (auto simp: SerialTransport_def split: prod.splits)
  have taken: "taken = True" using stays [OF rest] .
  note st = serial_send_taken [OF Cons.prems(1) send [unfolded taken]]
  show ?case
    using Cons.IH [OF st(3) rest [unfolded taken]] Cons.prems(3) st(1,2,4) f by auto
qed simp

end

section \<open>A queue for a serial port\<close>

text \<open>The loopback serial of the source's tests: a receive queue read at most \<open>q_burst\<close> bytes at a time.\<close>

record queue_serial =
  q_rx :: bytes
  q_tx :: bytes
  q_burst :: nat

definition queue_read :: "queue_serial \<Rightarrow> nat \<Rightarrow> queue_serial \<times> bytes option" where
  "queue_read q n =
     (let k = min (min n (q_burst q)) (length (q_rx q)) in (q\<lparr>q_rx := drop k (q_rx q)\<rparr>, Some (take k (q_rx q))))"

definition QueueSerial :: "queue_serial serial_ops" where
  "QueueSerial =
     \<lparr>write_all = (\<lambda>q bs. (q\<lparr>q_tx := q_tx q @ bs\<rparr>, True)), read_ready = (\<lambda>q. q_rx q \<noteq> []), read_some = queue_read\<rparr>"

interpretation queue: serial_port QueueSerial "\<lambda>q. 0 < q_burst q" q_rx q_tx
  by unfold_locales (auto simp: QueueSerial_def queue_read_def Let_def)

section \<open>Properties\<close>


definition demo_link :: "bytes \<Rightarrow> queue_serial serial_transport link" where
  "demo_link rx =
     \<lparr>lk_transport = serial_new \<lparr>q_rx = rx, q_tx = [], q_burst = 7\<rparr> 20 24, lk_tx_pid = 0,
      lk_reasm = reasm_new, lk_bound = 72, lk_scratch = 20\<rparr>"


text \<open>Staging is sending, one frame at a time: when \<open>send\<close> of a packet reports success, asking
  \<open>stage_fragment\<close> for index 0, 1, .. hands out, frame by frame, exactly the bytes \<open>send\<close> put on the wire;
  \<open>more\<close> is false on the last one only, the packet id moves with that one only and to where \<open>send\<close>
  moves it, and the index after the last yields nothing.\<close>

theorem staging_is_sending:
  assumes "serial_port S ok incoming outgoing" "ok (tr_serial (lk_transport lk))"
    and "link_send (SerialTransport S) lk packet = (lk', Inr u)"
    and "lk_scratch lk \<ge> tr_capacity (lk_transport lk)" "0 < tr_capacity (lk_transport lk)"
  shows "\<exists>frames. frames \<noteq> [] \<and>
    outgoing (tr_serial (lk_transport lk')) = outgoing (tr_serial (lk_transport lk)) @ concat frames \<and>
    (\<forall>i < length frames. stage_fragment (SerialTransport S) lk packet i (tr_cap (lk_transport lk)) =
      (if Suc i < length frames then lk else lk\<lparr>lk_tx_pid := lk_tx_pid lk'\<rparr>,
       Some \<lparr>stg_bytes = frames ! i, stg_more = Suc i < length frames\<rparr>)) \<and>
    snd (stage_fragment (SerialTransport S) lk packet (length frames) (tr_cap (lk_transport lk))) = None"
proof -
  let ?t = "lk_transport lk"
  have cap: "frame_capacity (SerialTransport S) ?t = tr_capacity ?t" by (simp add: SerialTransport_def)
  obtain fs t' where fs: "fragment_packet packet (tr_capacity ?t - 1) (lk_tx_pid lk) = Inr fs"
    and sent: "send_frames (SerialTransport S) (lk_scratch lk) ?t fs True = (t', True)"
    and lk': "lk' = lk\<lparr>lk_transport := t', lk_tx_pid := (lk_tx_pid lk + 1) AND MAX_PID\<rparr>"
    using assms(3) by (auto simp: link_send_def Let_def cap split: sum.splits prod.splits if_splits)
  have scratch: "\<forall>(hdr, c) \<in> set fs. length c < lk_scratch lk"
    using fragment_frame_length [OF fs] assms(4,5) by fastforce
  note sf = serial_port.send_frames_placed [OF assms(1,2) sent scratch]
  define frames where "frames = map (\<lambda>(hdr, c). frame_of (frag_encode hdr # c)) fs"
  have stage: "stage_fragment (SerialTransport S) lk packet i (tr_cap ?t) =
      (if Suc i < length fs then lk else lk\<lparr>lk_tx_pid := (lk_tx_pid lk + 1) AND MAX_PID\<rparr>,
       Some \<lparr>stg_bytes = frames ! i, stg_more = Suc i < length fs\<rparr>)" if i: "i < length fs" for i
  proof -
    obtain hdr c where f: "fs ! i = (hdr, c)" by (cases "fs ! i")
    then have mem: "(hdr, c) \<in> set fs" using i nth_mem by metis
    have "frag_more hdr \<longleftrightarrow> Suc i < length fs" using fragment_packet_more [OF fs i] f by simp
    moreover have "length c < lk_scratch lk" "length c < MAX_L2_LEN" "length c + 5 \<le> tr_cap ?t"
      using mem scratch sf by auto
    ultimately show ?thesis
      using i fs f by (simp add: stage_fragment_def Let_def cap SerialTransport_def serial_encode_def build_frame_def
          extend_from_slice_def frame_encode_eq frames_def)
  qed
  have "frames \<noteq> []" using fragment_packet_some [OF fs] by (simp add: frames_def)
  moreover have "snd (stage_fragment (SerialTransport S) lk packet (length fs) (tr_cap ?t)) = None"
    using fs by (simp add: stage_fragment_def Let_def cap)
  moreover have "length frames = length fs" by (simp add: frames_def)
  moreover have "outgoing (tr_serial (lk_transport lk')) = outgoing (tr_serial ?t) @ concat frames"
    using sf by (simp add: lk' frames_def)
  ultimately show ?thesis using stage by (intro exI [of _ frames]) (simp add: lk')
qed

lemma staging_is_sending_witness:
  "\<exists>frames. frames \<noteq> [] \<and>
    q_tx (tr_serial (lk_transport (fst (link_send (SerialTransport QueueSerial) (demo_link []) (replicate 30 7))))) =
      concat frames \<and>
    snd (stage_fragment (SerialTransport QueueSerial) (demo_link []) (replicate 30 7) (length frames) 24) = None"
proof -
  let ?L = "link_send (SerialTransport QueueSerial) (demo_link []) (replicate 30 7)"
  have "snd ?L = Inr ()" by code_simp
  then have send: "?L = (fst ?L, Inr ())" by (metis prod.collapse)
  show ?thesis
    using staging_is_sending [OF queue.serial_port_axioms _ send]
    by (auto simp: demo_link_def serial_new_def)
qed

end
