(* ===== verification/Net.thy ===== *)
theory Net
  imports Prelude
begin

text \<open>
  The network layer's packets and forwarding (\<open>shared/net/src/pdu.rs\<close>, \<open>shared/net/src/forward.rs\<close>): the
  address space, the opcode table, the three-byte PDU header, and the forwarder that learns the
  direction of a source and floods what it does not know.

  The two callbacks of \<open>ingest\<close> and \<open>originate\<close> are a list of the calls made, in order
  (\<open>net_action\<close>). The routing table, an array indexed by a byte, is a function on bytes.
\<close>

section \<open>Addresses\<close>

definition BROADCAST :: u8 where
  "BROADCAST = 0xFF"

definition NO_ADDRESS :: u8 where
  "NO_ADDRESS = 0x00"

definition GUEST_FIRST :: u8 where
  "GUEST_FIRST = 0x80"

definition GUEST_LAST :: u8 where
  "GUEST_LAST = 0xFE"

definition PDU_HEADER_LEN :: nat where
  "PDU_HEADER_LEN = 3"

definition is_board :: "u8 \<Rightarrow> bool" where
  "is_board a \<longleftrightarrow> 0x01 \<le> a \<and> a < GUEST_FIRST"

definition is_controller :: "u8 \<Rightarrow> bool" where
  "is_controller a \<longleftrightarrow> GUEST_FIRST \<le> a \<and> a \<le> GUEST_LAST"

definition is_unicast :: "u8 \<Rightarrow> bool" where
  "is_unicast a \<longleftrightarrow> is_board a \<or> is_controller a"

lemmas address_defs = BROADCAST_def NO_ADDRESS_def GUEST_FIRST_def GUEST_LAST_def

lemma is_unicast_iff: "is_unicast a \<longleftrightarrow> a \<noteq> NO_ADDRESS \<and> a \<noteq> BROADCAST"
proof -
  have "unat a < 256" using unsigned_less [of a] by simp
  then have "a \<le> 0xFE \<longleftrightarrow> a \<noteq> 0xFF"
    by (auto simp: word_le_nat_alt word_unat_eq_iff)
  moreover have "1 \<le> a \<longleftrightarrow> a \<noteq> 0" by (auto simp: word_le_nat_alt word_unat_eq_iff)
  ultimately show ?thesis
    by (auto simp: is_unicast_def is_board_def is_controller_def address_defs not_less)
qed

lemma board_not_controller: "\<not> (is_board a \<and> is_controller a)"
  by (auto simp: is_board_def is_controller_def)

section \<open>Opcodes\<close>

datatype opcode =
  NodeHello | ProbePorts | Ports | Assign | AssignAck | Identify | IdentityReply | StatusRead
  | StatusReply | ConfigRead | ConfigWrite | ConfigResp | ConfigWriteMulti | ConfigCompact

fun opcode_to_u8 :: "opcode \<Rightarrow> u8" where
  "opcode_to_u8 NodeHello = 0x01"
| "opcode_to_u8 ProbePorts = 0x02"
| "opcode_to_u8 Ports = 0x03"
| "opcode_to_u8 Assign = 0x06"
| "opcode_to_u8 AssignAck = 0x07"
| "opcode_to_u8 Identify = 0x08"
| "opcode_to_u8 IdentityReply = 0x09"
| "opcode_to_u8 StatusRead = 0x0A"
| "opcode_to_u8 StatusReply = 0x0B"
| "opcode_to_u8 ConfigRead = 0x30"
| "opcode_to_u8 ConfigWrite = 0x31"
| "opcode_to_u8 ConfigResp = 0x32"
| "opcode_to_u8 ConfigWriteMulti = 0x33"
| "opcode_to_u8 ConfigCompact = 0x36"

definition opcode_from_u8 :: "u8 \<Rightarrow> opcode option" where
  "opcode_from_u8 b =
     (if b = 0x01 then Some NodeHello else if b = 0x02 then Some ProbePorts
      else if b = 0x03 then Some Ports else if b = 0x06 then Some Assign
      else if b = 0x07 then Some AssignAck else if b = 0x08 then Some Identify
      else if b = 0x09 then Some IdentityReply else if b = 0x0A then Some StatusRead
      else if b = 0x0B then Some StatusReply else if b = 0x30 then Some ConfigRead
      else if b = 0x31 then Some ConfigWrite else if b = 0x32 then Some ConfigResp
      else if b = 0x33 then Some ConfigWriteMulti else if b = 0x36 then Some ConfigCompact
      else None)"

lemma opcode_round_trip [simp]: "opcode_from_u8 (opcode_to_u8 op) = Some op"
  by (cases op) (simp_all add: opcode_from_u8_def)

lemma opcode_from_to: "opcode_from_u8 b = Some op \<Longrightarrow> opcode_to_u8 op = b"
  by (auto simp: opcode_from_u8_def split: if_splits)

lemma opcode_valid [simp]: "opcode_to_u8 op \<noteq> 0x00" "opcode_to_u8 op \<noteq> 0xFF"
  by (cases op; simp)+

section \<open>The PDU codec\<close>

datatype pdu_error = TooShort | InvalidOpcode | PduOutTooSmall

record pdu =
  pdu_opcode :: u8
  pdu_src :: u8
  pdu_dst :: u8
  pdu_payload :: bytes

definition pdu_new :: "u8 \<Rightarrow> u8 \<Rightarrow> u8 \<Rightarrow> bytes \<Rightarrow> pdu_error + pdu" where
  "pdu_new opc src dst payload =
     (if opc = 0x00 \<or> opc = 0xFF then Inl InvalidOpcode
      else Inr \<lparr>pdu_opcode = opc, pdu_src = src, pdu_dst = dst, pdu_payload = payload\<rparr>)"

definition pdu_from_op :: "opcode \<Rightarrow> u8 \<Rightarrow> u8 \<Rightarrow> bytes \<Rightarrow> pdu" where
  "pdu_from_op op src dst payload =
     \<lparr>pdu_opcode = opcode_to_u8 op, pdu_src = src, pdu_dst = dst, pdu_payload = payload\<rparr>"

definition pdu_decode :: "bytes \<Rightarrow> pdu_error + pdu" where
  "pdu_decode buf =
     (if length buf < PDU_HEADER_LEN then Inl TooShort
      else if buf ! 0 = 0x00 \<or> buf ! 0 = 0xFF then Inl InvalidOpcode
      else Inr \<lparr>pdu_opcode = buf ! 0, pdu_src = buf ! 1, pdu_dst = buf ! 2,
                pdu_payload = drop PDU_HEADER_LEN buf\<rparr>)"

text \<open>\<open>encode\<close> writes into a buffer of \<open>room\<close> bytes; the result is the part it wrote.\<close>

definition pdu_encode :: "pdu \<Rightarrow> nat \<Rightarrow> pdu_error + bytes" where
  "pdu_encode p room =
     (if pdu_opcode p = 0x00 \<or> pdu_opcode p = 0xFF then Inl InvalidOpcode
      else
        let total = PDU_HEADER_LEN + length (pdu_payload p)
        in if room < total then Inl PduOutTooSmall
           else Inr ([pdu_opcode p, pdu_src p, pdu_dst p] @ pdu_payload p))"

definition pdu_known :: "pdu \<Rightarrow> opcode option" where
  "pdu_known p = opcode_from_u8 (pdu_opcode p)"

lemma pdu_decode_encode: "pdu_encode p room = Inr bs \<Longrightarrow> pdu_decode bs = Inr p"
  by (auto simp: pdu_encode_def pdu_decode_def PDU_HEADER_LEN_def Let_def split: if_splits)

lemma pdu_encode_decode:
  assumes "pdu_decode bs = Inr p" "length bs \<le> room"
  shows "pdu_encode p room = Inr bs"
proof -
  obtain a b c r where "bs = a # b # c # r"
    using assms(1) by (auto simp: pdu_decode_def PDU_HEADER_LEN_def neq_Nil_conv Suc_le_length_iff
        numeral_3_eq_3 not_less split: if_splits)
  then show ?thesis
    using assms by (auto simp: pdu_encode_def pdu_decode_def PDU_HEADER_LEN_def Let_def split: if_splits)
qed

lemma pdu_decode_valid: "pdu_decode bs = Inr p \<Longrightarrow> pdu_opcode p \<noteq> 0x00 \<and> pdu_opcode p \<noteq> 0xFF"
  by (auto simp: pdu_decode_def split: if_splits)

section \<open>The routing table\<close>

definition NO_PORT :: u8 where
  "NO_PORT = 0xFF"

type_synonym routing_table = "u8 \<Rightarrow> u8"

definition rt_new :: routing_table where
  "rt_new = (\<lambda>_. NO_PORT)"

definition learn :: "routing_table \<Rightarrow> u8 \<Rightarrow> u8 \<Rightarrow> routing_table" where
  "learn t src ingress = (if is_unicast src then t(src := ingress) else t)"

definition port_for :: "routing_table \<Rightarrow> u8 \<Rightarrow> u8 option" where
  "port_for t dst = (let p = t dst in if p = NO_PORT then None else Some p)"

definition rt_clear :: "routing_table \<Rightarrow> routing_table" where
  "rt_clear t = (\<lambda>_. NO_PORT)"

section \<open>The forwarder\<close>

record forwarder =
  fwd_addr :: u8
  fwd_n_ports :: u8
  fwd_table :: routing_table

datatype net_action = Deliver pdu | Forward u8 pdu

definition fwd_new :: "u8 \<Rightarrow> u8 \<Rightarrow> forwarder" where
  "fwd_new addr n_ports = \<lparr>fwd_addr = addr, fwd_n_ports = n_ports, fwd_table = rt_new\<rparr>"

definition set_addr :: "forwarder \<Rightarrow> u8 \<Rightarrow> forwarder" where
  "set_addr f addr = f\<lparr>fwd_addr := addr\<rparr>"

definition port_toward :: "forwarder \<Rightarrow> u8 \<Rightarrow> u8 option" where
  "port_toward f dst = port_for (fwd_table f) dst"

definition clear_routes :: "forwarder \<Rightarrow> forwarder" where
  "clear_routes f = f\<lparr>fwd_table := rt_clear (fwd_table f)\<rparr>"

definition flood :: "forwarder \<Rightarrow> u8 option \<Rightarrow> pdu \<Rightarrow> net_action list" where
  "flood f ingress p =
     map (\<lambda>q. Forward q p) (filter (\<lambda>q. Some q \<noteq> ingress) (map of_nat [0..<unat (fwd_n_ports f)]))"

definition decide :: "forwarder \<Rightarrow> u8 option \<Rightarrow> pdu \<Rightarrow> net_action list" where
  "decide f ingress p =
     (let dst = pdu_dst p
      in if ingress \<noteq> None \<and> dst = NO_ADDRESS then [Deliver p]
         else if dst = fwd_addr f \<and> fwd_addr f \<noteq> NO_ADDRESS then [Deliver p]
         else if dst = BROADCAST then (if ingress \<noteq> None then [Deliver p] else []) @ flood f ingress p
         else case port_for (fwd_table f) dst of
                Some q \<Rightarrow> if Some q \<noteq> ingress then [Forward q p] else []
              | None \<Rightarrow> flood f ingress p)"

definition fwd_ingest :: "forwarder \<Rightarrow> u8 \<Rightarrow> pdu \<Rightarrow> forwarder \<times> net_action list" where
  "fwd_ingest f ingress p =
     (let f = f\<lparr>fwd_table := learn (fwd_table f) (pdu_src p) ingress\<rparr> in (f, decide f (Some ingress) p))"

text \<open>\<open>originate\<close> passes a \<open>deliver\<close> that does nothing, so only its forwards are calls.\<close>

fun is_forward :: "net_action \<Rightarrow> bool" where
  "is_forward (Deliver p) = False"
| "is_forward (Forward q p) = True"

definition fwd_originate :: "forwarder \<Rightarrow> pdu \<Rightarrow> net_action list" where
  "fwd_originate f p = filter is_forward (decide f None p)"

section \<open>What one decision does\<close>

lemma set_flood:
  "Forward q p' \<in> set (flood f ingress p) \<longleftrightarrow> p' = p \<and> q < fwd_n_ports f \<and> Some q \<noteq> ingress"
proof -
  have "q < fwd_n_ports f \<longleftrightarrow> q \<in> of_nat ` {0..<unat (fwd_n_ports f)}"
  proof
    assume "q < fwd_n_ports f"
    then show "q \<in> of_nat ` {0..<unat (fwd_n_ports f)}"
      by (intro image_eqI [of _ _ "unat q"]) (auto simp: word_less_nat_alt)
  next
    assume "q \<in> of_nat ` {0..<unat (fwd_n_ports f)}"
    then obtain k where "q = of_nat k" "k < unat (fwd_n_ports f)" by auto
    moreover have "unat (fwd_n_ports f) < 256" using unsigned_less [of "fwd_n_ports f"] by simp
    ultimately show "q < fwd_n_ports f" by (simp add: word_less_nat_alt unat_of_nat)
  qed
  then show ?thesis by (auto simp: flood_def)
qed

lemma distinct_flood: "distinct (flood f ingress p)"
proof -
  have n: "unat (fwd_n_ports f) < 256" using unsigned_less [of "fwd_n_ports f"] by simp
  have inj: "inj_on (of_nat :: nat \<Rightarrow> u8) {0..<unat (fwd_n_ports f)}"
    using n by (intro inj_onI) (simp add: word_unat_eq_iff unat_of_nat)
  show ?thesis
    unfolding flood_def by (intro distinct_map [THEN iffD2] conjI distinct_filter) (auto simp: distinct_map inj intro: inj_onI)
qed

lemma flood_no_deliver [simp]: "Deliver d \<notin> set (flood f ingress p)"
  by (auto simp: flood_def)

lemma distinct_decide: "distinct (decide f ingress p)"
  using distinct_flood by (auto simp: decide_def Let_def split: option.splits)

lemma decide_Forward:
  assumes "Forward q p' \<in> set (decide f ingress p)"
  shows "p' = p" "Some q \<noteq> ingress" "q < fwd_n_ports f \<or> port_for (fwd_table f) (pdu_dst p) = Some q"
  using assms by (auto simp: decide_def Let_def set_flood split: if_splits option.splits)

lemma decide_Deliver:
  "Deliver p' \<in> set (decide f (Some i) p) \<longleftrightarrow>
    p' = p \<and> (pdu_dst p = NO_ADDRESS \<or> pdu_dst p = fwd_addr f \<or> pdu_dst p = BROADCAST)"
  by (auto simp: decide_def Let_def split: option.splits)

lemma set_originate: "Forward q p' \<in> set (fwd_originate f p) \<longleftrightarrow> Forward q p' \<in> set (decide f None p)"
  by (simp add: fwd_originate_def)

text \<open>A unicast packet for another node leaves through the known route, else through every port.\<close>

lemma decide_reaches:
  assumes "pdu_dst p \<noteq> NO_ADDRESS" "pdu_dst p \<noteq> fwd_addr f" "pdu_dst p \<noteq> BROADCAST"
    and "port_for (fwd_table f) (pdu_dst p) = Some q \<or> port_for (fwd_table f) (pdu_dst p) = None \<and> q < fwd_n_ports f"
    and "Some q \<noteq> ingress"
  shows "Forward q p \<in> set (decide f ingress p)"
  using assms by (auto simp: decide_def Let_def set_flood)

lemma port_for_learn:
  "port_for (learn t src ingress) a =
    (if a = src \<and> is_unicast src then (if ingress = NO_PORT then None else Some ingress) else port_for t a)"
  by (auto simp: port_for_def learn_def)

text \<open>One frame at one node: \<open>ingest\<close> learns the source's direction, and only that (never for the
  shared no-address or for broadcast); it calls each callback at most once per port, always with the
  packet unchanged, never back out of the port the frame came in on; it delivers exactly the frames for
  this node, for the one peer or for everyone; and a frame for another node whose direction is known
  leaves on that one port only.\<close>

theorem forwarder_ingest:
  "case fwd_ingest f ingress p of (f', acts) \<Rightarrow>
    f' = f\<lparr>fwd_table := fwd_table f'\<rparr> \<and>
    (\<forall>a. port_toward f' a =
      (if a = pdu_src p \<and> a \<noteq> NO_ADDRESS \<and> a \<noteq> BROADCAST then (if ingress = NO_PORT then None else Some ingress)
       else port_toward f a)) \<and>
    distinct acts \<and>
    (\<forall>q p'. Forward q p' \<in> set acts \<longrightarrow>
      p' = p \<and> q \<noteq> ingress \<and> (q < fwd_n_ports f \<or> port_toward f' (pdu_dst p) = Some q)) \<and>
    (\<forall>p'. Deliver p' \<in> set acts \<longleftrightarrow>
      p' = p \<and> (pdu_dst p = NO_ADDRESS \<or> pdu_dst p = fwd_addr f \<or> pdu_dst p = BROADCAST)) \<and>
    (\<forall>q. port_toward f' (pdu_dst p) = Some q \<and> pdu_dst p \<notin> {NO_ADDRESS, fwd_addr f, BROADCAST} \<longrightarrow>
      acts = (if q = ingress then [] else [Forward q p]))"
proof -
  obtain f' acts where r: "fwd_ingest f ingress p = (f', acts)" by fastforce
  then have f': "f' = f\<lparr>fwd_table := learn (fwd_table f) (pdu_src p) ingress\<rparr>" and acts: "acts = decide f' (Some ingress) p"
    by (auto simp: fwd_ingest_def Let_def)
  have fields: "fwd_addr f' = fwd_addr f" "fwd_n_ports f' = fwd_n_ports f" by (simp_all add: f')
  have fwd: "p' = p \<and> q \<noteq> ingress \<and> (q < fwd_n_ports f \<or> port_toward f' (pdu_dst p) = Some q)"
    if "Forward q p' \<in> set acts" for q p'
    using decide_Forward [OF that [unfolded acts]] fields by (auto simp: port_toward_def)
  have one: "acts = (if q = ingress then [] else [Forward q p])"
    if "port_toward f' (pdu_dst p) = Some q \<and> pdu_dst p \<notin> {NO_ADDRESS, fwd_addr f, BROADCAST}" for q
    using that by (simp add: acts decide_def Let_def port_toward_def fields)
  have learnt: "port_toward f' a =
      (if a = pdu_src p \<and> a \<noteq> NO_ADDRESS \<and> a \<noteq> BROADCAST then (if ingress = NO_PORT then None else Some ingress)
       else port_toward f a)" for a
    by (auto simp: port_toward_def f' port_for_learn is_unicast_iff)
  have dist: "distinct acts" by (simp add: acts distinct_decide)
  have dels: "Deliver p' \<in> set acts \<longleftrightarrow>
      p' = p \<and> (pdu_dst p = NO_ADDRESS \<or> pdu_dst p = fwd_addr f \<or> pdu_dst p = BROADCAST)" for p'
    by (simp add: acts decide_Deliver fields)
  have same: "f' = f\<lparr>fwd_table := fwd_table f'\<rparr>" by (simp add: f')
  show ?thesis unfolding r prod.case using same learnt dist fwd dels one by blast
qed

definition demo_relay :: forwarder where
  "demo_relay = \<lparr>fwd_addr = 1, fwd_n_ports = 3, fwd_table = rt_new(5 := 1)\<rparr>"

definition demo_read :: pdu where
  "demo_read = \<lparr>pdu_opcode = 0x30, pdu_src = 0x80, pdu_dst = 5, pdu_payload = []\<rparr>"

lemma forwarder_ingest_witness:
  "snd (fwd_ingest demo_relay 0 demo_read) = [Forward 1 demo_read] \<and>
   port_toward (fst (fwd_ingest demo_relay 0 demo_read)) 0x80 = Some 0"
proof -
  have "port_toward (fst (fwd_ingest demo_relay 0 demo_read)) (pdu_dst demo_read) = Some 1"
    by (simp add: demo_relay_def demo_read_def fwd_ingest_def Let_def port_toward_def port_for_def learn_def rt_new_def NO_PORT_def)
  then show ?thesis
    using forwarder_ingest [where f = demo_relay and ingress = 0 and p = demo_read]
    by (simp add: case_prod_beta demo_relay_def demo_read_def address_defs NO_PORT_def)
qed

end
