(* ===== verification/Mesh.thy ===== *)
theory Mesh
  imports Net "HOL-Library.Multiset"
begin

text \<open>
  A mesh of forwarders (the claims of \<open>shared/net/src/forward.rs\<close> about floods on a tree).

  The nodes run the forwarder of theory Net; point-to-point links join their ports; frames in flight
  are a multiset, so that a step may take any of them: every interleaving of the nodes' loops is a
  run. \<open>mesh_run\<close> names the nodes that ingested, in order.

  The wiring is a tree, built link by link. The lemmas root it at any node; the properties say that a
  flood on it ends, reaches no node twice whatever the tables hold, and delivers.
\<close>

record 'n mesh =
  mesh_nodes :: "'n \<Rightarrow> forwarder"
  in_flight :: "('n \<times> u8 \<times> pdu) multiset"
  mesh_delivered :: "('n \<times> pdu) list"

type_synonym 'n wiring = "'n \<times> u8 \<Rightarrow> ('n \<times> u8) option"

text \<open>What the forwards of one node put on the wires; a port nothing is wired to loses the frame.\<close>

fun sent :: "'n wiring \<Rightarrow> 'n \<Rightarrow> net_action list \<Rightarrow> ('n \<times> u8 \<times> pdu) list" where
  "sent w n [] = []"
| "sent w n (Deliver p # acts) = sent w n acts"
| "sent w n (Forward q p # acts) =
     (case w (n, q) of None \<Rightarrow> sent w n acts | Some (m, r) \<Rightarrow> (m, r, p) # sent w n acts)"

fun taken :: "'n \<Rightarrow> net_action list \<Rightarrow> ('n \<times> pdu) list" where
  "taken n [] = []"
| "taken n (Deliver p # acts) = (n, p) # taken n acts"
| "taken n (Forward q p # acts) = taken n acts"

inductive mesh_step :: "'n wiring \<Rightarrow> 'n mesh \<Rightarrow> 'n \<Rightarrow> 'n mesh \<Rightarrow> bool" for w where
  ingest:
    "in_flight s = add_mset (n, r, p) rest \<Longrightarrow> fwd_ingest (mesh_nodes s n) r p = (f, acts) \<Longrightarrow>
     mesh_step w s n
       \<lparr>mesh_nodes = (mesh_nodes s)(n := f), in_flight = rest + mset (sent w n acts),
        mesh_delivered = mesh_delivered s @ taken n acts\<rparr>"

inductive mesh_run :: "'n wiring \<Rightarrow> 'n mesh \<Rightarrow> 'n list \<Rightarrow> 'n mesh \<Rightarrow> bool" for w where
  nil: "mesh_run w s [] s"
| snoc: "mesh_run w s ns t \<Longrightarrow> mesh_step w t n u \<Longrightarrow> mesh_run w s (ns @ [n]) u"

inductive_cases mesh_stepE: "mesh_step w s n t"

text \<open>The mesh after node \<open>o\<close> has originated \<open>p\<close>, nothing else being in flight.\<close>

definition originated :: "'n wiring \<Rightarrow> ('n \<Rightarrow> forwarder) \<Rightarrow> 'n \<Rightarrow> pdu \<Rightarrow> 'n mesh" where
  "originated w nodes orig p =
     \<lparr>mesh_nodes = nodes, in_flight = mset (sent w orig (fwd_originate (nodes orig) p)), mesh_delivered = []\<rparr>"

section \<open>Trees\<close>

text \<open>A tree is one node, or a tree with a new node linked to a free port of one of its nodes.\<close>

inductive tree_wiring :: "'n wiring \<Rightarrow> 'n set \<Rightarrow> bool" where
  single: "tree_wiring (\<lambda>_. None) {n}"
| link: "tree_wiring w V \<Longrightarrow> m \<in> V \<Longrightarrow> n \<notin> V \<Longrightarrow> w (m, p) = None \<Longrightarrow>
    tree_wiring (w((m, p) \<mapsto> (n, q), (n, q) \<mapsto> (m, p))) (insert n V)"

definition edge_ok :: "'n \<Rightarrow> ('n \<Rightarrow> u8) \<Rightarrow> ('n \<Rightarrow> nat) \<Rightarrow> 'n \<Rightarrow> u8 \<Rightarrow> 'n \<Rightarrow> u8 \<Rightarrow> bool" where
  "edge_ok r up depth n p m q \<longleftrightarrow>
     (if n \<noteq> r \<and> p = up n then depth n = Suc (depth m) \<and> (m = r \<or> q \<noteq> up m)
      else m \<noteq> r \<and> q = up m \<and> depth m = Suc (depth n))"

definition rooted :: "'n wiring \<Rightarrow> 'n set \<Rightarrow> 'n \<Rightarrow> ('n \<Rightarrow> u8) \<Rightarrow> ('n \<Rightarrow> nat) \<Rightarrow> bool" where
  "rooted w V r up depth \<longleftrightarrow>
     (\<forall>n p m q. w (n, p) = Some (m, q) \<longrightarrow>
       n \<in> V \<and> m \<in> V \<and> w (m, q) = Some (n, p) \<and> edge_ok r up depth n p m q) \<and>
     (\<forall>n \<in> V. n \<noteq> r \<longrightarrow> w (n, up n) \<noteq> None)"

lemma rootedD:
  assumes "rooted w V r up depth" "w (n, p) = Some (m, q)"
  shows "n \<in> V" "m \<in> V" "w (m, q) = Some (n, p)" "edge_ok r up depth n p m q"
  using assms unfolding rooted_def by blast+

lemma rooted_up: "rooted w V r up depth \<Longrightarrow> n \<in> V \<Longrightarrow> n \<noteq> r \<Longrightarrow> \<exists>m q. w (n, up n) = Some (m, q)"
  unfolding rooted_def by (cases "w (n, up n)") (blast, metis surj_pair)

lemma tree_wiring_V: "tree_wiring w V \<Longrightarrow> finite V"
proof (induction rule: tree_wiring.induct)
  case (single n)
  show ?case by (rule finite.insertI [OF finite.emptyI])
next
  case (link w V m n p q)
  then show ?case by (simp only: finite_insert)
qed

text \<open>Growing a rooted tree by a leaf, and moving the root to the new leaf.\<close>

lemma rooted_link:
  assumes old: "rooted w V r up depth" and "m \<in> V" "n \<notin> V" "w (m, p) = None"
    and new: "edge_ok r' up' depth' m p n q" "edge_ok r' up' depth' n q m p"
    and keep: "\<And>a x b y. w (a, x) = Some (b, y) \<Longrightarrow> edge_ok r up depth a x b y \<Longrightarrow> edge_ok r' up' depth' a x b y"
    and up: "n \<noteq> r' \<Longrightarrow> up' n = q" "\<And>a. a \<in> V \<Longrightarrow> a \<noteq> r' \<Longrightarrow> a = m \<and> up' a = p \<or> a \<noteq> r \<and> up' a = up a"
  shows "rooted (w((m, p) \<mapsto> (n, q), (n, q) \<mapsto> (m, p))) (insert n V) r' up' depth'"
proof -
  let ?w = "w((m, p) \<mapsto> (n, q), (n, q) \<mapsto> (m, p))"
  have nm: "n \<noteq> m" using assms by auto
  have "a \<in> insert n V \<and> b \<in> insert n V \<and> ?w (b, y) = Some (a, x) \<and> edge_ok r' up' depth' a x b y"
    if e: "?w (a, x) = Some (b, y)" for a x b y
  proof -
    consider "(a, x) = (n, q)" | "(a, x) = (m, p)" | "(a, x) \<noteq> (n, q)" "(a, x) \<noteq> (m, p)" by blast
    then show ?thesis
    proof cases
      case 1
      then show ?thesis using e nm assms(2) new by simp
    next
      case 2
      then show ?thesis using e nm assms(2) new by simp
    next
      case 3
      then have 3: "w (a, x) = Some (b, y)" using e by (simp only: fun_upd_apply if_False)
      note d = rootedD [OF old 3]
      have "(b, y) \<noteq> (m, p)" "b \<noteq> n" using d(2,3) assms(3,4) by auto
      then show ?thesis using d keep [OF 3] by auto
    qed
  qed
  moreover have "?w (a, up' a) \<noteq> None" if a: "a \<in> insert n V" "a \<noteq> r'" for a
  proof (cases "a = n")
    case False
    then consider "a = m" "up' a = p" | "a \<noteq> r" "up' a = up a" using up(2) [of a] a False by blast
    then show ?thesis
      using rooted_up [OF old, of a] False a(1) nm by cases auto
  qed (use up(1) a in auto)
  ultimately show ?thesis unfolding rooted_def by blast
qed

lemma rooted_link_old:
  assumes "rooted w V r up depth" "r \<in> V" "m \<in> V" "n \<notin> V" "w (m, p) = None"
  shows "rooted (w((m, p) \<mapsto> (n, q), (n, q) \<mapsto> (m, p))) (insert n V) r (up(n := q)) (depth(n := Suc (depth m)))"
proof (rule rooted_link [OF assms(1,3-5)])
  have ne: "n \<noteq> r" "n \<noteq> m" and free: "m \<noteq> r \<Longrightarrow> up m \<noteq> p"
    using assms rooted_up [OF assms(1), of m] by auto
  show "edge_ok r (up(n := q)) (depth(n := Suc (depth m))) m p n q"
    using ne free by (auto simp: edge_ok_def)
  show "edge_ok r (up(n := q)) (depth(n := Suc (depth m))) n q m p"
    using ne free by (auto simp: edge_ok_def)
  show "edge_ok r (up(n := q)) (depth(n := Suc (depth m))) a x b y"
    if "w (a, x) = Some (b, y)" "edge_ok r up depth a x b y" for a x b y
  proof -
    have "a \<noteq> n" "b \<noteq> n" using rootedD [OF assms(1) that(1)] assms(4) by auto
    then show ?thesis using that(2) by (simp add: edge_ok_def)
  qed
qed (use assms in auto)

lemma rooted_link_new:
  assumes "rooted w V m up depth" "m \<in> V" "n \<notin> V" "w (m, p) = None"
  shows "rooted (w((m, p) \<mapsto> (n, q), (n, q) \<mapsto> (m, p))) (insert n V) n (up(m := p))
    ((\<lambda>a. Suc (depth a))(n := depth m))"
proof (rule rooted_link [OF assms])
  have ne: "n \<noteq> m" using assms by auto
  show "edge_ok n (up(m := p)) ((\<lambda>a. Suc (depth a))(n := depth m)) m p n q"
    using ne by (auto simp: edge_ok_def)
  show "edge_ok n (up(m := p)) ((\<lambda>a. Suc (depth a))(n := depth m)) n q m p"
    using ne by (auto simp: edge_ok_def)
  show "edge_ok n (up(m := p)) ((\<lambda>a. Suc (depth a))(n := depth m)) a x b y"
    if "w (a, x) = Some (b, y)" "edge_ok m up depth a x b y" for a x b y
  proof -
    note d = rootedD [OF assms(1) that(1)]
    have "a \<noteq> n" "b \<noteq> n" "(a, x) \<noteq> (m, p)" "(b, y) \<noteq> (m, p)" using d assms(3,4) that(1) by auto
    then show ?thesis using that(2) by (auto simp: edge_ok_def)
  qed
qed (use assms in auto)

lemma tree_rooted: "tree_wiring w V \<Longrightarrow> r \<in> V \<Longrightarrow> \<exists>up depth. rooted w V r up depth"
proof (induction arbitrary: r rule: tree_wiring.induct)
  case (single n)
  then show ?case by (auto simp: rooted_def)
next
  case (link w V m n p q)
  show ?case
  proof (cases "r = n")
    case True
    obtain up depth where "rooted w V m up depth" using link.IH [OF link.hyps(2)] by blast
    then show ?thesis using rooted_link_new [of w V m up depth n p q] link.hyps True by blast
  next
    case False
    then have "r \<in> V" using link.prems by simp
    then obtain up depth where "rooted w V r up depth" using link.IH by blast
    then show ?thesis using rooted_link_old [of w V r up depth m n p q] \<open>r \<in> V\<close> link.hyps by blast
  qed
qed

section \<open>One step\<close>

lemma set_sent: "(m, r, p) \<in> set (sent w n acts) \<longleftrightarrow> (\<exists>q. Forward q p \<in> set acts \<and> w (n, q) = Some (m, r))"
  by (induction w n acts rule: sent.induct) (auto split: option.splits)

lemma set_taken: "(m, p) \<in> set (taken n acts) \<longleftrightarrow> m = n \<and> Deliver p \<in> set acts"
  by (induction n acts rule: taken.induct) auto

lemma taken_once:
  assumes "distinct acts" "\<forall>d. Deliver d \<in> set acts \<longrightarrow> d = p"
  shows "taken n acts = (if Deliver p \<in> set acts then [(n, p)] else [])"
  using assms
proof (induction n acts rule: taken.induct)
  case (2 n d acts)
  then have "d = p" "Deliver p \<notin> set acts" by auto
  then have "taken n acts = []" using 2 by simp
  then show ?case using \<open>d = p\<close> by simp
qed auto

lemma fwd_ingest_acts: "fwd_ingest f r p = (f', acts) \<Longrightarrow> acts = decide f' (Some r) p \<and>
    f' = f\<lparr>fwd_table := learn (fwd_table f) (pdu_src p) r\<rparr>"
  by (auto simp: fwd_ingest_def Let_def)

lemma ingest_taken:
  assumes "fwd_ingest f r p = (f', acts)"
  shows "taken n acts = (if pdu_dst p \<in> {NO_ADDRESS, fwd_addr f, BROADCAST} then [(n, p)] else [])"
proof -
  have acts: "acts = decide f' (Some r) p" and addr: "fwd_addr f' = fwd_addr f"
    using fwd_ingest_acts [OF assms] by simp_all
  have "taken n acts = (if Deliver p \<in> set acts then [(n, p)] else [])"
    by (rule taken_once) (simp_all add: acts distinct_decide decide_Deliver)
  also have "Deliver p \<in> set acts \<longleftrightarrow> pdu_dst p \<in> {NO_ADDRESS, fwd_addr f, BROADCAST}"
    unfolding acts decide_Deliver addr by blast
  finally show ?thesis .
qed

section \<open>A flood, seen from its origin\<close>

text \<open>
  What holds after the nodes \<open>ns\<close> have ingested: every frame in flight is the originated packet on its way
  down, entering its node by the upward port; the nodes that have ingested and the nodes about to are
  all different, each of them hangs below one that has ingested (or below the origin); the ones that
  have, have learned the way back.
\<close>

definition flood_inv :: "'n wiring \<Rightarrow> ('n \<Rightarrow> forwarder) \<Rightarrow> 'n \<Rightarrow> ('n \<Rightarrow> u8) \<Rightarrow> pdu \<Rightarrow> 'n list \<Rightarrow> 'n mesh \<Rightarrow> bool" where
  "flood_inv w nodes orig up p ns s \<longleftrightarrow>
     (\<forall>(n, r, p') \<in># in_flight s. p' = p \<and> r = up n) \<and>
     (\<forall>a. count (mset ns + image_mset fst (in_flight s)) a \<le> 1) \<and>
     (\<forall>a \<in># mset ns + image_mset fst (in_flight s).
        a \<noteq> orig \<and> (\<exists>b q. w (a, up a) = Some (b, q) \<and> b \<in> insert orig (set ns))) \<and>
     (\<forall>a. mesh_nodes s a = (if a \<in> set ns
        then (nodes a)\<lparr>fwd_table := learn (fwd_table (nodes a)) (pdu_src p) (up a)\<rparr> else nodes a)) \<and>
     mesh_delivered s =
       map (\<lambda>a. (a, p)) (filter (\<lambda>a. pdu_dst p \<in> {NO_ADDRESS, fwd_addr (nodes a), BROADCAST}) ns)"

lemma sent_down:
  assumes "rooted w V orig up depth" "n = orig \<or> ingress = Some (up n)"
    and "\<forall>q p'. Forward q p' \<in> set acts \<longrightarrow> p' = p \<and> Some q \<noteq> ingress"
    and "(m, r, p') \<in> set (sent w n acts)"
  shows "p' = p \<and> m \<noteq> orig \<and> r = up m \<and> (\<exists>q. w (m, up m) = Some (n, q))"
proof -
  obtain q where q: "Forward q p' \<in> set acts" "w (n, q) = Some (m, r)" using assms(4) by (auto simp: set_sent)
  note d = rootedD [OF assms(1) q(2)]
  have "edge_ok orig up depth n q m r" by (rule d(4))
  then have "m \<noteq> orig \<and> r = up m" using assms(2,3) q(1) by (auto simp: edge_ok_def split: if_splits)
  then show ?thesis using d(3) assms(3) q(1) by auto
qed

lemma sent_Cons: "set (sent w n acts) \<subseteq> set (sent w n (a # acts))"
  by (cases a) (auto split: option.splits)

lemma sent_distinct:
  assumes "rooted w V orig up depth" "distinct acts" "\<forall>q p'. Forward q p' \<in> set acts \<longrightarrow> p' = p"
    and "\<forall>m r p'. (m, r, p') \<in> set (sent w n acts) \<longrightarrow> r = up m"
  shows "distinct (map fst (sent w n acts))"
  using assms(2-4)
proof (induction acts)
  case (Cons a acts)
  have IH: "distinct (map fst (sent w n acts))"
    using Cons.prems sent_Cons [of w n acts a] by (intro Cons.IH) (simp, simp, blast)
  show ?case
  proof (cases a)
    case (Deliver d)
    then show ?thesis using IH by simp
  next
    case a: (Forward q p')
    show ?thesis
    proof (cases "w (n, q)")
      case None
      then show ?thesis using IH a by simp
    next
      case (Some e)
      obtain m r where e: "e = (m, r)" by (cases e)
      have r: "r = up m" using Cons.prems(3) Some e a by auto
      have "m \<notin> fst ` set (sent w n acts)"
      proof
        assume "m \<in> fst ` set (sent w n acts)"
        then obtain r' p'' where in_sent: "(m, r', p'') \<in> set (sent w n acts)" by force
        then obtain q' where q': "Forward q' p'' \<in> set acts" "w (n, q') = Some (m, r')" by (auto simp: set_sent)
        have "r' = up m" using Cons.prems(3) in_sent Some e a by auto
        moreover have "w (m, r') = Some (n, q')" by (rule rootedD(3) [OF assms(1) q'(2)])
        moreover have "w (m, r) = Some (n, q)" by (rule rootedD(3) [OF assms(1)]) (simp add: Some e)
        ultimately have "q' = q" using r by simp
        moreover have "p'' = p" "p' = p" using Cons.prems(2) q'(1) a by auto
        ultimately show False using q'(1) Cons.prems(1) a by auto
      qed
      then show ?thesis using IH Some e a by simp
    qed
  qed
qed simp

lemma count_fresh:
  assumes "\<forall>a. count M a \<le> 1" "distinct xs" "\<forall>a \<in> set xs. a \<notin># M"
  shows "count (M + mset xs) a \<le> 1"
proof (cases "a \<in> set xs")
  case True
  then have "count M a = 0" using assms(3) by (simp add: not_in_iff)
  then show ?thesis using assms(2) by (simp add: distinct_count_atmost_1)
next
  case False
  then have "count (mset xs) a = 0" by (simp add: count_eq_zero_iff)
  then show ?thesis using assms(1) by (simp only: count_union add_0_right)
qed

lemma flood_inv_init:
  assumes "rooted w V orig up depth"
  shows "flood_inv w nodes orig up p [] (originated w nodes orig p)"
proof -
  let ?acts = "fwd_originate (nodes orig) p"
  have fwd: "\<forall>q p'. Forward q p' \<in> set ?acts \<longrightarrow> p' = p \<and> Some q \<noteq> None"
    using decide_Forward(1) by (auto simp: set_originate)
  have down: "p' = p \<and> m \<noteq> orig \<and> r = up m \<and> (\<exists>q. w (m, up m) = Some (orig, q))"
    if "(m, r, p') \<in> set (sent w orig ?acts)" for m r p'
    using sent_down [OF assms _ fwd that] by simp
  have "distinct (map fst (sent w orig ?acts))"
    using sent_distinct [OF assms] down fwd distinct_decide unfolding fwd_originate_def by (metis distinct_filter)
  then have "count (mset (map fst (sent w orig ?acts))) a \<le> 1" for a
    by (simp add: distinct_count_atmost_1)
  moreover have "a \<noteq> orig \<and> (\<exists>q. w (a, up a) = Some (orig, q))" if "a \<in> fst ` set (sent w orig ?acts)" for a
    using down that by fastforce
  moreover have "\<forall>(a, r, p') \<in> set (sent w orig ?acts). p' = p \<and> r = up a" using down by blast
  ultimately show ?thesis
    unfolding flood_inv_def originated_def by (simp flip: mset_map)
qed

lemma flood_inv_step:
  assumes rt: "rooted w V orig up depth" and inv: "flood_inv w nodes orig up p ns s" and step: "mesh_step w s n t"
  shows "flood_inv w nodes orig up p (ns @ [n]) t"
proof -
  obtain r p' rest f acts where fl: "in_flight s = add_mset (n, r, p') rest"
    and ing: "fwd_ingest (mesh_nodes s n) r p' = (f, acts)"
    and t: "t = \<lparr>mesh_nodes = (mesh_nodes s)(n := f), in_flight = rest + mset (sent w n acts),
        mesh_delivered = mesh_delivered s @ taken n acts\<rparr>"
    using step by (elim mesh_stepE) blast
  have i1: "\<forall>(a, r, p') \<in># in_flight s. p' = p \<and> r = up a"
    and i2: "\<forall>a. count (mset ns + image_mset fst (in_flight s)) a \<le> 1"
    and i3: "\<forall>a \<in># mset ns + image_mset fst (in_flight s).
        a \<noteq> orig \<and> (\<exists>b q. w (a, up a) = Some (b, q) \<and> b \<in> insert orig (set ns))"
    and i4: "\<forall>a. mesh_nodes s a = (if a \<in> set ns
        then (nodes a)\<lparr>fwd_table := learn (fwd_table (nodes a)) (pdu_src p) (up a)\<rparr> else nodes a)"
    and i5: "mesh_delivered s =
       map (\<lambda>a. (a, p)) (filter (\<lambda>a. pdu_dst p \<in> {NO_ADDRESS, fwd_addr (nodes a), BROADCAST}) ns)"
    using inv unfolding flood_inv_def by blast+
  have pr: "p' = p" "r = up n" using i1 fl by auto
  have "count (mset ns) n = 0" using i2 [rule_format, of n] fl by simp
  then have n: "n \<notin> set ns" by (simp add: count_eq_zero_iff)
  have n_orig: "n \<noteq> orig" using i3 fl by auto
  have node: "mesh_nodes s n = nodes n" using i4 n by simp
  note acts = fwd_ingest_acts [OF ing]
  have fwd: "\<forall>q p'. Forward q p' \<in> set acts \<longrightarrow> p' = p \<and> Some q \<noteq> Some (up n)"
    using acts decide_Forward(1,2) pr by blast
  have down: "p'' = p \<and> m \<noteq> orig \<and> r' = up m \<and> (\<exists>q. w (m, up m) = Some (n, q))"
    if "(m, r', p'') \<in> set (sent w n acts)" for m r' p''
    using sent_down [OF rt _ fwd that] by simp
  let ?new = "map fst (sent w n acts)"
  have c1: "distinct ?new"
    using sent_distinct [OF rt] down fwd acts distinct_decide by metis
  have old: "mset (ns @ [n]) + image_mset fst (in_flight t) = (mset ns + image_mset fst (in_flight s)) + mset ?new"
    by (simp add: t fl)
  have fresh: "a \<notin># mset ns + image_mset fst (in_flight s)" if "a \<in> set ?new" for a
    using down that i3 n n_orig by fastforce
  have "count (mset (ns @ [n]) + image_mset fst (in_flight t)) a \<le> 1" for a
    unfolding old using i2 c1 fresh by (intro count_fresh) blast+
  moreover have "a \<noteq> orig \<and> (\<exists>b q. w (a, up a) = Some (b, q) \<and> b \<in> insert orig (set (ns @ [n])))"
    if "a \<in># mset (ns @ [n]) + image_mset fst (in_flight t)" for a
  proof -
    consider "a \<in># mset ns + image_mset fst (in_flight s)" | "a \<in> set ?new" using \<open>a \<in># _\<close> unfolding old by auto
    then show ?thesis
    proof cases
      case 1
      have "set ns \<subseteq> set (ns @ [n])" by auto
      then show ?thesis using bspec [OF i3 1] by blast
    next
      case 2
      then show ?thesis using down by fastforce
    qed
  qed
  moreover have "mesh_delivered t =
      map (\<lambda>a. (a, p)) (filter (\<lambda>a. pdu_dst p \<in> {NO_ADDRESS, fwd_addr (nodes a), BROADCAST}) (ns @ [n]))"
    using ingest_taken [OF ing, of n] by (simp add: t i5 node pr)
  moreover have "\<forall>(a, r, p') \<in># in_flight t. p' = p \<and> r = up a"
    using i1 down by (auto simp: t fl)
  moreover have "mesh_nodes t a = (if a \<in> set (ns @ [n])
        then (nodes a)\<lparr>fwd_table := learn (fwd_table (nodes a)) (pdu_src p) (up a)\<rparr> else nodes a)" for a
    using i4 acts n by (simp add: t node pr)
  ultimately show ?thesis unfolding flood_inv_def by blast
qed

lemma flood_inv_run:
  assumes "mesh_run w s ns t" "rooted w V orig up depth" "s = originated w nodes orig p"
  shows "flood_inv w nodes orig up p ns t"
  using assms by (induction rule: mesh_run.induct) (auto intro: flood_inv_init flood_inv_step)

section \<open>A flood, seen from its target\<close>

text \<open>Until the target has it, some frame in flight is about to enter a node from the far side of the target.\<close>

definition on_the_way :: "('n \<Rightarrow> u8) \<Rightarrow> 'n set \<Rightarrow> 'n \<Rightarrow> pdu \<Rightarrow> 'n mesh \<Rightarrow> bool" where
  "on_the_way toward V tgt p s \<longleftrightarrow>
     (tgt, p) \<in> set (mesh_delivered s) \<or>
     (\<exists>n r. (n, r, p) \<in># in_flight s \<and> n \<in> V \<and> (n = tgt \<or> r \<noteq> toward n))"

definition route_ok :: "'n wiring \<Rightarrow> ('n \<Rightarrow> u8) \<Rightarrow> 'n set \<Rightarrow> 'n \<Rightarrow> pdu \<Rightarrow> ('n \<Rightarrow> forwarder) \<Rightarrow> bool" where
  "route_ok w toward V tgt p nodes \<longleftrightarrow>
     pdu_dst p \<notin> {NO_ADDRESS, BROADCAST} \<and>
     (\<forall>n \<in> V. fwd_addr (nodes n) = pdu_dst p \<longleftrightarrow> n = tgt) \<and>
     (\<forall>n q e. w (n, q) = Some e \<longrightarrow> q < fwd_n_ports (nodes n)) \<and>
     (\<forall>n \<in> V. n \<noteq> tgt \<longrightarrow> port_toward (nodes n) (pdu_dst p) \<in> {None, Some (toward n)})"

lemma hop_closer:
  assumes rt: "rooted w V tgt toward depth" and ok: "route_ok w toward V tgt p nodes"
    and n: "n \<in> V" "n \<noteq> tgt" "ingress \<noteq> Some (toward n)"
  shows "\<exists>m r. (m, r, p) \<in> set (sent w n (decide (nodes n) ingress p)) \<and> m \<in> V \<and> (m = tgt \<or> r \<noteq> toward m)"
proof -
  obtain m r where e: "w (n, toward n) = Some (m, r)" using rooted_up [OF rt n(1,2)] by blast
  note d = rootedD [OF rt e]
  have closer: "m = tgt \<or> r \<noteq> toward m" using d(4) n(2) by (simp add: edge_ok_def)
  have port: "toward n < fwd_n_ports (nodes n)" and dst: "pdu_dst p \<noteq> NO_ADDRESS" "pdu_dst p \<noteq> BROADCAST"
      "pdu_dst p \<noteq> fwd_addr (nodes n)"
    and table: "port_toward (nodes n) (pdu_dst p) \<in> {None, Some (toward n)}"
    using ok e n(1,2) unfolding route_ok_def by auto
  have "Forward (toward n) p \<in> set (decide (nodes n) ingress p)"
    using decide_reaches [OF dst(1,3,2), of "toward n"] table port n(3) by (auto simp: port_toward_def)
  then have "(m, r, p) \<in> set (sent w n (decide (nodes n) ingress p))" using e by (auto simp: set_sent)
  then show ?thesis using d(2) closer by blast
qed

lemma sent_originate: "set (sent w n (fwd_originate f p)) = set (sent w n (decide f None p))"
proof -
  have "(m, r, p') \<in> set (sent w n (fwd_originate f p)) \<longleftrightarrow> (m, r, p') \<in> set (sent w n (decide f None p))" for m r p'
    unfolding set_sent set_originate ..
  then show ?thesis by (auto simp del: set_sent)
qed

lemma on_the_way_init:
  assumes "rooted w V tgt toward depth" "route_ok w toward V tgt p nodes" "orig \<in> V" "orig \<noteq> tgt"
  shows "on_the_way toward V tgt p (originated w nodes orig p)"
  using hop_closer [OF assms, of None] unfolding on_the_way_def originated_def by (simp add: sent_originate)

lemma on_the_way_step:
  assumes rt: "rooted w V tgt toward depth" and ok: "route_ok w toward V tgt p (mesh_nodes s)"
    and src: "pdu_src p \<noteq> pdu_dst p"
    and inv: "on_the_way toward V tgt p s" and step: "mesh_step w s n t"
  shows "on_the_way toward V tgt p t"
proof -
  obtain r p' rest f acts where fl: "in_flight s = add_mset (n, r, p') rest"
    and ing: "fwd_ingest (mesh_nodes s n) r p' = (f, acts)"
    and t: "t = \<lparr>mesh_nodes = (mesh_nodes s)(n := f), in_flight = rest + mset (sent w n acts),
        mesh_delivered = mesh_delivered s @ taken n acts\<rparr>"
    using step by (elim mesh_stepE) blast
  show ?thesis
  proof (cases "(tgt, p) \<in> set (mesh_delivered s)")
    case True
    then show ?thesis by (simp add: on_the_way_def t)
  next
    case False
    then obtain k kr where k: "(k, kr, p) \<in># in_flight s" "k \<in> V" "k = tgt \<or> kr \<noteq> toward k"
      using inv unfolding on_the_way_def by blast
    show ?thesis
    proof (cases "(k, kr, p) = (n, r, p')")
      case False
      then have "(k, kr, p) \<in># in_flight t" using k(1) by (simp add: t fl) blast
      then show ?thesis using k unfolding on_the_way_def by blast
    next
      case True
      then have eq: "k = n" "kr = r" "p' = p" by auto
      note acts = fwd_ingest_acts [OF ing]
      show ?thesis
      proof (cases "n = tgt")
        case True
        have "pdu_dst p = fwd_addr (mesh_nodes s n)" using ok k(2) True eq unfolding route_ok_def by auto
        then have "taken n acts = [(n, p)]" using ingest_taken [OF ing, of n] eq by simp
        then show ?thesis using True by (simp add: on_the_way_def t)
      next
        case False
        let ?nodes = "(mesh_nodes s)(n := f)"
        have "route_ok w toward V tgt p ?nodes"
          using ok acts src eq unfolding route_ok_def by (auto simp: port_toward_def port_for_learn)
        then have "\<exists>m r'. (m, r', p) \<in> set (sent w n (decide f (Some r) p)) \<and> m \<in> V \<and> (m = tgt \<or> r' \<noteq> toward m)"
          using hop_closer [OF rt, of p ?nodes n "Some r"] False k eq by simp
        then show ?thesis using acts eq unfolding on_the_way_def t by auto
      qed
    qed
  qed
qed

lemma flood_inv_node:
  assumes "flood_inv w nodes orig up p ns s" "rooted w V orig up depth" "n \<in> set ns"
  shows "n \<noteq> orig" "n \<in> V" "\<exists>e. w (n, up n) = Some e" "count (mset ns) n = 1"
proof -
  have "n \<in># mset ns + image_mset fst (in_flight s)" using assms(3) by simp
  then have "n \<noteq> orig \<and> (\<exists>b q. w (n, up n) = Some (b, q))"
    using assms(1) unfolding flood_inv_def by blast
  then obtain b q where n: "n \<noteq> orig" "w (n, up n) = Some (b, q)" by blast
  show "n \<noteq> orig" "\<exists>e. w (n, up n) = Some e" using n by auto
  show "n \<in> V" by (rule rootedD(1) [OF assms(2) n(2)])
  have "count (mset ns + image_mset fst (in_flight s)) n \<le> 1" using assms(1) unfolding flood_inv_def by blast
  moreover have "0 < count (mset ns) n" using assms(3) by simp
  ultimately show "count (mset ns) n = 1" unfolding count_union by linarith
qed

lemma route_ok_inv:
  assumes "flood_inv w nodes orig up p ns s" "route_ok w toward V tgt p nodes" "pdu_src p \<noteq> pdu_dst p"
  shows "route_ok w toward V tgt p (mesh_nodes s)"
proof -
  have nodes: "mesh_nodes s a = (if a \<in> set ns
        then (nodes a)\<lparr>fwd_table := learn (fwd_table (nodes a)) (pdu_src p) (up a)\<rparr> else nodes a)" for a
    using assms(1) unfolding flood_inv_def by blast
  have "fwd_addr (mesh_nodes s a) = fwd_addr (nodes a)" "fwd_n_ports (mesh_nodes s a) = fwd_n_ports (nodes a)"
    "port_toward (mesh_nodes s a) (pdu_dst p) = port_toward (nodes a) (pdu_dst p)" for a
    using assms(3) by (auto simp: nodes port_toward_def port_for_learn)
  then show ?thesis using assms(2) unfolding route_ok_def by simp
qed

lemma on_the_way_run:
  assumes "mesh_run w s0 ns t" "s0 = originated w nodes orig p" "rooted w V orig up d" "rooted w V tgt toward depth"
    "route_ok w toward V tgt p nodes" "orig \<in> V" "orig \<noteq> tgt" "pdu_src p \<noteq> pdu_dst p"
  shows "on_the_way toward V tgt p t"
  using assms
proof (induction rule: mesh_run.induct)
  case (nil s)
  show ?case unfolding nil(1) by (rule on_the_way_init [OF nil(3-6)])
next
  case (snoc s ns t n u)
  then have "flood_inv w nodes orig up p ns t" using flood_inv_run [OF snoc.hyps(1)] by simp
  then have "route_ok w toward V tgt p (mesh_nodes t)" using snoc.prems route_ok_inv by metis
  moreover have "on_the_way toward V tgt p t" using snoc by simp
  ultimately show ?case using on_the_way_step snoc.prems snoc.hyps(2) by metis
qed

section \<open>Properties\<close>

text \<open>C25: Loop freedom is structural: on any tree of nodes, whatever their routing tables hold and however the
  nodes' loops interleave, a packet a node originates makes every other node ingest it at most once, so
  there are fewer ingests than nodes; it never comes back to its origin, is never changed on the way,
  and no node delivers it twice.\<close>

theorem flood_ends:
  assumes "tree_wiring w V" "orig \<in> V" "mesh_run w (originated w nodes orig p) ns s"
  shows "distinct ns \<and> set ns \<subseteq> V - {orig} \<and> length ns < card V \<and>
    distinct (mesh_delivered s) \<and> fst ` set (mesh_delivered s) \<subseteq> set ns \<and>
    snd ` set (mesh_delivered s) \<subseteq> {p} \<and> (\<lambda>(n, r, p'). p') ` set_mset (in_flight s) \<subseteq> {p}"
proof -
  obtain up depth where rt: "rooted w V orig up depth" using tree_rooted [OF assms(1,2)] by blast
  note inv = flood_inv_run [OF assms(3) rt refl]
  have i1: "\<forall>(a, r, p') \<in># in_flight s. p' = p \<and> r = up a"
    and i5: "mesh_delivered s =
       map (\<lambda>a. (a, p)) (filter (\<lambda>a. pdu_dst p \<in> {NO_ADDRESS, fwd_addr (nodes a), BROADCAST}) ns)"
    using inv unfolding flood_inv_def by blast+
  have "count (mset ns) a = (if a \<in> set ns then 1 else 0)" for a
    using flood_inv_node(4) [OF inv rt] by (cases "a \<in> set ns") (simp_all add: count_eq_zero_iff)
  then have dist: "distinct ns" by (simp add: distinct_count_atmost_1)
  have "set ns \<subseteq> V - {orig}" using flood_inv_node(1,2) [OF inv rt] by blast
  moreover from this have "length ns < card V"
    using assms(2) tree_wiring_V [OF assms(1)] dist
    by (metis Diff_iff card_mono distinct_card finite_Diff card_Diff1_less order.strict_trans1)
  ultimately show ?thesis
    using dist i1 by (auto simp: i5 distinct_map inj_on_def)
qed

text \<open>C26: A unicast on a tree arrives. The target's address is its own alone, no port is beyond its node's count,
  and each node either does not know the target or knows the right direction; nothing else is assumed
  about who knows what. Then however the loops interleave, once no frame is left in flight the target
  has taken the packet exactly once, nobody else has taken it, and every node the packet went through
  has learned the way back to its origin.\<close>

theorem unicast_arrives:
  assumes "tree_wiring w V" "orig \<in> V" "tgt \<in> V" "orig \<noteq> tgt"
    and "rooted w V tgt toward depth" "route_ok w toward V tgt p nodes"
    and "is_unicast (pdu_src p)" "pdu_src p \<noteq> pdu_dst p"
    and "mesh_run w (originated w nodes orig p) ns s" "in_flight s = {#}"
  shows "mesh_delivered s = [(tgt, p)] \<and>
    (\<exists>ret d. rooted w V orig ret d \<and> (\<forall>n \<in> set ns. port_toward (mesh_nodes s n) (pdu_src p) = Some (ret n)))"
proof -
  obtain ret d where rt: "rooted w V orig ret d" using tree_rooted [OF assms(1,2)] by blast
  note inv = flood_inv_run [OF assms(9) rt refl]
  have "on_the_way toward V tgt p s" using on_the_way_run [OF assms(9) refl rt assms(5,6,2,4,8)] .
  then have got: "(tgt, p) \<in> set (mesh_delivered s)" using assms(10) by (simp add: on_the_way_def)
  have i4: "\<forall>a. mesh_nodes s a = (if a \<in> set ns
        then (nodes a)\<lparr>fwd_table := learn (fwd_table (nodes a)) (pdu_src p) (ret a)\<rparr> else nodes a)"
    and i5: "mesh_delivered s =
       map (\<lambda>a. (a, p)) (filter (\<lambda>a. pdu_dst p \<in> {NO_ADDRESS, fwd_addr (nodes a), BROADCAST}) ns)"
    using inv unfolding flood_inv_def by blast+
  note node = flood_inv_node [OF inv rt]
  have V: "n \<in> V" "ret n < fwd_n_ports (nodes n)" if "n \<in> set ns" for n
    using node(2,3) [OF that] assms(6) unfolding route_ok_def by blast+
  have "filter (\<lambda>a. pdu_dst p \<in> {NO_ADDRESS, fwd_addr (nodes a), BROADCAST}) ns = filter (\<lambda>a. a = tgt) ns"
  proof (intro filter_cong refl)
    fix a assume "a \<in> set ns"
    then have "fwd_addr (nodes a) = pdu_dst p \<longleftrightarrow> a = tgt" "pdu_dst p \<notin> {NO_ADDRESS, BROADCAST}"
      using V(1) assms(6) unfolding route_ok_def by blast+
    then show "(pdu_dst p \<in> {NO_ADDRESS, fwd_addr (nodes a), BROADCAST}) = (a = tgt)" by auto
  qed
  moreover have "tgt \<in> set ns" using got i5 by auto
  then have "count (mset ns) tgt = 1" by (rule node(4))
  moreover have "length (filter (\<lambda>a. a = tgt) ns) = count (mset ns) tgt" by (induction ns) auto
  ultimately have "length (filter (\<lambda>a. a = tgt) ns) = 1" and dels: "mesh_delivered s = map (\<lambda>a. (a, p)) (filter (\<lambda>a. a = tgt) ns)"
    using i5 by simp_all
  then obtain x where x: "filter (\<lambda>a. a = tgt) ns = [x]" by (auto simp: length_Suc_conv)
  then have "x \<in> set (filter (\<lambda>a. a = tgt) ns)" by (simp only: list.set_intros)
  then have "x = tgt" by simp
  then have "mesh_delivered s = [(tgt, p)]" using dels x by simp
  moreover have "port_toward (mesh_nodes s n) (pdu_src p) = Some (ret n)" if "n \<in> set ns" for n
  proof -
    have "unat (fwd_n_ports (nodes n)) < 256" using unsigned_less [of "fwd_n_ports (nodes n)"] by simp
    then have "ret n \<noteq> NO_PORT" using V(2) [OF that] by (auto simp: NO_PORT_def word_less_nat_alt)
    then show ?thesis using i4 that assms(7) by (simp add: port_toward_def port_for_learn)
  qed
  ultimately show ?thesis using rt by blast
qed

text \<open>The line of the source's tests: a controller, a relay and a far board.\<close>

definition demo_wiring :: "nat wiring" where
  "demo_wiring = ((\<lambda>_. None)((0, 0) \<mapsto> (1, 0), (1, 0) \<mapsto> (0, 0)))((1, 1) \<mapsto> (2, 0), (2, 0) \<mapsto> (1, 1))"

definition demo_nodes :: "nat \<Rightarrow> forwarder" where
  "demo_nodes n = (if n = 0 then fwd_new 0x80 1 else if n = 1 then fwd_new 1 2 else fwd_new 2 1)"

definition demo_packet :: pdu where
  "demo_packet = \<lparr>pdu_opcode = 0x30, pdu_src = 0x80, pdu_dst = 2, pdu_payload = [0xAA]\<rparr>"

lemma demo_tree: "tree_wiring demo_wiring {0, 1, 2}"
proof -
  have "tree_wiring ((\<lambda>_. None)((0, 0) \<mapsto> (1, 0), (1, 0) \<mapsto> (0, 0))) (insert 1 {0 :: nat})"
    by (rule tree_wiring.link [OF tree_wiring.single]) simp_all
  then have "tree_wiring demo_wiring (insert 2 (insert 1 {0}))"
    unfolding demo_wiring_def by (rule tree_wiring.link) simp_all
  then show ?thesis by (simp add: insert_commute)
qed

lemma mesh_stepI:
  "in_flight s = add_mset (n, r, p) rest \<Longrightarrow>
   mesh_step w s n
     \<lparr>mesh_nodes = (mesh_nodes s)(n := fst (fwd_ingest (mesh_nodes s n) r p)),
      in_flight = rest + mset (sent w n (snd (fwd_ingest (mesh_nodes s n) r p))),
      mesh_delivered = mesh_delivered s @ taken n (snd (fwd_ingest (mesh_nodes s n) r p))\<rparr>"
  by (rule mesh_step.ingest) simp_all

lemma demo_run:
  "\<exists>s. mesh_run demo_wiring (originated demo_wiring demo_nodes 0 demo_packet) [1, 2] s \<and> in_flight s = {#}"
proof -
  let ?w = demo_wiring and ?p = demo_packet
  let ?s0 = "originated ?w demo_nodes 0 ?p"
  have "in_flight ?s0 = add_mset (1, 0, ?p) {#}" by code_simp
  moreover have "sent ?w 1 (snd (fwd_ingest (demo_nodes 1) 0 ?p)) = [(2, 0, ?p)]" by code_simp
  moreover have "mesh_nodes ?s0 = demo_nodes" by (simp add: originated_def)
  ultimately obtain s1 where s1: "mesh_step ?w ?s0 1 s1" "in_flight s1 = add_mset (2, 0, ?p) {#}"
      "mesh_nodes s1 2 = demo_nodes 2"
    using mesh_stepI [of ?s0 1 0 ?p "{#}" ?w] by fastforce
  have "sent ?w 2 (snd (fwd_ingest (demo_nodes 2) 0 ?p)) = []" by code_simp
  then obtain s2 where s2: "mesh_step ?w s1 2 s2" "in_flight s2 = {#}"
    using mesh_stepI [OF s1(2), of ?w] s1(3) by fastforce
  have "mesh_run ?w ?s0 (([] @ [1]) @ [2]) s2"
    by (rule mesh_run.snoc [OF mesh_run.snoc [OF mesh_run.nil s1(1)] s2(1)])
  then show ?thesis using s2(2) by auto
qed

lemma flood_ends_witness:
  "\<exists>s. mesh_run demo_wiring (originated demo_wiring demo_nodes 0 demo_packet) [1, 2] s \<and> distinct (mesh_delivered s)"
proof -
  obtain s where run: "mesh_run demo_wiring (originated demo_wiring demo_nodes 0 demo_packet) [1, 2] s"
    using demo_run by blast
  show ?thesis using run flood_ends [OF demo_tree _ run] by auto
qed

definition demo_toward :: "nat \<Rightarrow> u8" where
  "demo_toward n = (if n = 1 then 1 else 0)"

lemma demo_rooted: "rooted demo_wiring {0, 1, 2} 2 demo_toward (\<lambda>n. 2 - n)"
  by (auto simp: rooted_def demo_wiring_def demo_toward_def edge_ok_def split: if_splits)

lemma demo_route: "route_ok demo_wiring demo_toward {0, 1, 2} 2 demo_packet demo_nodes"
  by (auto simp: route_ok_def demo_wiring_def demo_toward_def demo_packet_def demo_nodes_def fwd_new_def
      address_defs port_toward_def port_for_def rt_new_def split: if_splits)

lemma unicast_arrives_witness:
  "\<exists>s. mesh_run demo_wiring (originated demo_wiring demo_nodes 0 demo_packet) [1, 2] s \<and>
    mesh_delivered s = [(2, demo_packet)]"
proof -
  obtain s where run: "mesh_run demo_wiring (originated demo_wiring demo_nodes 0 demo_packet) [1, 2] s"
    and quiet: "in_flight s = {#}"
    using demo_run by blast
  have "is_unicast (pdu_src demo_packet)" "pdu_src demo_packet \<noteq> pdu_dst demo_packet"
    by (simp_all add: is_unicast_iff demo_packet_def address_defs)
  then show ?thesis
    using run unicast_arrives [OF demo_tree _ _ _ demo_rooted demo_route _ _ run quiet] by auto
qed

end
