(* ===== verification/Responder.thy ===== *)
theory Responder
  imports Net Store
begin

text \<open>
  The board side of the discovery walk and the config protocol (\<open>shared/net/src/walk.rs\<close>, up to the
  controller): the wire constants, the checks a bridge puts on a value, and the \<open>Responder\<close> with every
  handler.

  A handler answers the responder, the store and the emissions after it. \<open>None\<close> in place of that triple
  is a panic: an index out of range (an empty hello while a probe is in flight, a port beyond the
  arrays) or a value longer than the reply buffer. Emissions are the bounded list of the source:
  what does not fit is dropped.
\<close>

section \<open>Wire constants\<close>

definition MAX_PORTS :: nat where "MAX_PORTS = 4"
definition MAX_PDU :: nat where "MAX_PDU = 64"
definition MAX_EMIT :: nat where "MAX_EMIT = MAX_PORTS"

definition KIND_CONTROLLER :: u8 where "KIND_CONTROLLER = 0x01"
definition KIND_PROBE :: u8 where "KIND_PROBE = 0x02"

definition NB_EMPTY :: u8 where "NB_EMPTY = 0"
definition NB_UNASSIGNED :: u8 where "NB_UNASSIGNED = 1"
definition NB_ASSIGNED :: u8 where "NB_ASSIGNED = 2"
definition NB_STATE_MASK :: u8 where "NB_STATE_MASK = 0x03"

definition EGRESS_SELF :: u8 where "EGRESS_SELF = 0xFF"
definition STATUS_OK :: u8 where "STATUS_OK = 0"
definition STATUS_ERR :: u8 where "STATUS_ERR = 1"
definition PROTO_VER :: u8 where "PROTO_VER = 1"
definition CLASS_MOTOR :: u8 where "CLASS_MOTOR = 0x01"
definition CLASS_BRIDGE :: u8 where "CLASS_BRIDGE = 0x02"
definition HELLO_REPLY_LEN :: nat where "HELLO_REPLY_LEN = 3"
definition UID_LEN :: nat where "UID_LEN = 12"

definition BRIDGE_NAME_MAX :: nat where "BRIDGE_NAME_MAX = 26"
definition WIFI_SSID_MAX :: nat where "WIFI_SSID_MAX = 32"
definition WIFI_PASS_MIN :: nat where "WIFI_PASS_MIN = 8"
definition WIFI_PASS_MAX :: nat where "WIFI_PASS_MAX = 63"
definition CONFIG_WRITE_HEAD :: nat where "CONFIG_WRITE_HEAD = 3"

definition CFG_OK :: u8 where "CFG_OK = 0"
definition CFG_BAD :: u8 where "CFG_BAD = 1"
definition CFG_UNKNOWN_KEY :: u8 where "CFG_UNKNOWN_KEY = 2"
definition CFG_TYPE_MISMATCH :: u8 where "CFG_TYPE_MISMATCH = 3"
definition CFG_STORE_ERR :: u8 where "CFG_STORE_ERR = 4"
definition CFG_ARMED :: u8 where "CFG_ARMED = 5"
definition CFG_NO_SPACE :: u8 where "CFG_NO_SPACE = 7"
definition CFG_COMMIT_FAILED :: u8 where "CFG_COMMIT_FAILED = 8"
definition CFG_DEFAULT :: u8 where "CFG_DEFAULT = 9"
definition CFG_SECRET :: u8 where "CFG_SECRET = 10"

definition OP_TUNE_WRITE :: u8 where "OP_TUNE_WRITE = 0x34"
definition OP_TUNE_READ :: u8 where "OP_TUNE_READ = 0x35"

lemmas cfg_defs = CFG_OK_def CFG_BAD_def CFG_UNKNOWN_KEY_def CFG_TYPE_MISMATCH_def CFG_STORE_ERR_def
  CFG_ARMED_def CFG_NO_SPACE_def CFG_COMMIT_FAILED_def CFG_DEFAULT_def CFG_SECRET_def

section \<open>Identity\<close>

record identity =
  id_class :: u8
  id_mcu :: u8
  id_fw_ver :: u16
  id_uid :: bytes

definition identity_encode :: "identity \<Rightarrow> bytes" where
  "identity_encode i = [id_class i, id_mcu i] @ le16 (id_fw_ver i) @ id_uid i"

definition identity_decode :: "bytes \<Rightarrow> identity option" where
  "identity_decode p =
     (if length p \<noteq> 4 + UID_LEN then None
      else Some \<lparr>id_class = p ! 0, id_mcu = p ! 1, id_fw_ver = rd16 (p ! 2) (p ! 3), id_uid = drop 4 p\<rparr>)"

lemma identity_round_trip:
  "length (id_uid i) = UID_LEN \<Longrightarrow> identity_decode (identity_encode i) = Some i"
  by (simp add: identity_decode_def identity_encode_def UID_LEN_def nth_append le16_def)

section \<open>What a bridge can use\<close>

definition is_ascii_alphanumeric :: "u8 \<Rightarrow> bool" where
  "is_ascii_alphanumeric b \<longleftrightarrow>
     (0x30 \<le> b \<and> b \<le> 0x39) \<or> (0x41 \<le> b \<and> b \<le> 0x5A) \<or> (0x61 \<le> b \<and> b \<le> 0x7A)"

definition bridge_name_usable :: "bytes \<Rightarrow> bool" where
  "bridge_name_usable name \<longleftrightarrow>
     name \<noteq> [] \<and> length name \<le> BRIDGE_NAME_MAX \<and>
     list_all (\<lambda>b. is_ascii_alphanumeric b \<or> b = 0x2D) name"

text \<open>\<open>core::str::from_utf8(..).is_ok()\<close>: well-formed UTF-8, without surrogates or overlong forms.\<close>

definition utf8_tail :: "u8 \<Rightarrow> bool" where
  "utf8_tail b \<longleftrightarrow> 0x80 \<le> b \<and> b \<le> 0xBF"

fun utf8_valid :: "bytes \<Rightarrow> bool" where
  "utf8_valid [] = True"
| "utf8_valid (a # r) =
     (if a < 0x80 then utf8_valid r
      else if 0xC2 \<le> a \<and> a \<le> 0xDF then (case r of b # r \<Rightarrow> utf8_tail b \<and> utf8_valid r | _ \<Rightarrow> False)
      else if 0xE0 \<le> a \<and> a \<le> 0xEF then
        (case r of b # c # r \<Rightarrow>
           (if a = 0xE0 then 0xA0 \<le> b \<and> b \<le> 0xBF else if a = 0xED then 0x80 \<le> b \<and> b \<le> 0x9F else utf8_tail b)
           \<and> utf8_tail c \<and> utf8_valid r
         | _ \<Rightarrow> False)
      else if 0xF0 \<le> a \<and> a \<le> 0xF4 then
        (case r of b # c # d # r \<Rightarrow>
           (if a = 0xF0 then 0x90 \<le> b \<and> b \<le> 0xBF else if a = 0xF4 then 0x80 \<le> b \<and> b \<le> 0x8F else utf8_tail b)
           \<and> utf8_tail c \<and> utf8_tail d \<and> utf8_valid r
         | _ \<Rightarrow> False)
      else False)"

definition bridge_value_usable :: "key \<Rightarrow> tagged_value \<Rightarrow> bool" where
  "bridge_value_usable k v =
     (if field_id k = WIFI_TX_POWER_ID then (case v of VU8 x \<Rightarrow> 8 \<le> x \<and> x \<le> 84 | _ \<Rightarrow> True)
      else case v of
             VStr s \<Rightarrow>
               if k = DEVICE_NAME then bridge_name_usable s
               else if field_id k = WIFI_SSID_ID then length s \<le> WIFI_SSID_MAX \<and> utf8_valid s
               else if field_id k = WIFI_PASS_ID then
                 (s = [] \<or> (WIFI_PASS_MIN \<le> length s \<and> length s \<le> WIFI_PASS_MAX)) \<and> utf8_valid s
               else True
           | _ \<Rightarrow> True)"

section \<open>Status bytes\<close>

fun cfg_status :: "dyn_error \<Rightarrow> u8" where
  "cfg_status UnknownKey = CFG_UNKNOWN_KEY"
| "cfg_status TypeMismatch = CFG_TYPE_MISMATCH"
| "cfg_status (StoreErr _) = CFG_STORE_ERR"

definition compact_status :: "store_error \<Rightarrow> u8" where
  "compact_status e = (if e = CommitFailed then CFG_COMMIT_FAILED else CFG_STORE_ERR)"

definition push_value :: "bytes \<Rightarrow> tagged_value \<Rightarrow> bytes option" where
  "push_value out v =
     (let out = push_quiet MAX_PDU out (type_tag (value_kind v))
      in case value_encode_into v MAX_PDU of
           None \<Rightarrow> None
         | Some bs \<Rightarrow> Some (extend_quiet MAX_PDU out bs))"

section \<open>The tune lane\<close>

datatype tune_op = TuneRead | TuneWrite u16 | TuneRefuse u8

definition decode_tune :: "u8 \<Rightarrow> bytes \<Rightarrow> (key \<times> tune_op) option" where
  "decode_tune opc payload =
     (if length payload < 2 then None
      else
        let key = \<lparr>field_id = payload ! 0, key_index = payload ! 1\<rparr>
        in if opc = OP_TUNE_READ then Some (key, TuneRead)
           else if opc = OP_TUNE_WRITE then
             Some (key,
               if length payload = 2 then TuneRefuse CFG_BAD
               else case type_from_tag (payload ! 2) of
                      None \<Rightarrow> TuneRefuse CFG_BAD
                    | Some TI16 \<Rightarrow>
                        (case value_decode TI16 (drop 3 payload) of
                           Some (VI16 v) \<Rightarrow> TuneWrite v
                         | _ \<Rightarrow> TuneRefuse CFG_BAD)
                    | Some _ \<Rightarrow> TuneRefuse CFG_TYPE_MISMATCH)
           else None)"

definition tune_resp :: "key \<Rightarrow> u8 \<Rightarrow> u16 option \<Rightarrow> bytes" where
  "tune_resp k status v =
     [field_id k, key_index k, status] @
     (case v of Some v \<Rightarrow> [type_tag TI16] @ le16 v | None \<Rightarrow> [0])"

section \<open>Emissions\<close>

type_synonym emission = "u8 \<times> bytes"

definition emit :: "emission list \<Rightarrow> u8 \<Rightarrow> pdu \<Rightarrow> emission list" where
  "emit out port p =
     (case pdu_encode p MAX_PDU of Inl e \<Rightarrow> out | Inr bs \<Rightarrow> push_quiet MAX_EMIT out (port, bs))"

text \<open>The forwards of one forwarder call, emitted in order.\<close>

fun emit_all :: "emission list \<Rightarrow> net_action list \<Rightarrow> emission list" where
  "emit_all out [] = out"
| "emit_all out (Forward q p # acts) = emit_all (emit out q p) acts"
| "emit_all out (Deliver p # acts) = emit_all out acts"

record delivered_pdu =
  dlv_opcode :: u8
  dlv_src :: u8
  dlv_payload :: bytes

definition delivered_from_pdu :: "pdu \<Rightarrow> delivered_pdu option" where
  "delivered_from_pdu p =
     (case extend_from_slice MAX_PDU [] (pdu_payload p) of
        None \<Rightarrow> None
      | Some payload \<Rightarrow> Some \<lparr>dlv_opcode = pdu_opcode p, dlv_src = pdu_src p, dlv_payload = payload\<rparr>)"

section \<open>Guest addresses\<close>

definition GUEST_SLICE :: u8 where "GUEST_SLICE = 8"

definition guest_slice :: "u8 \<Rightarrow> u8 \<times> u8" where
  "guest_slice addr =
     (let first = GUEST_FIRST + GUEST_SLICE * (addr AND 0x0F) in (first, min (GUEST_LAST - first + 1) GUEST_SLICE))"

section \<open>The responder\<close>

record probe =
  prb_reply_to :: u8
  prb_n_ports :: u8
  prb_states :: "(u8 \<times> u8) list"

record responder =
  rsp_fwd :: forwarder
  rsp_port_kinds :: bytes
  rsp_identity :: identity
  rsp_default_name :: "bytes option"
  rsp_status :: bytes
  rsp_guest_slot :: u8
  rsp_probe :: "probe option"
  rsp_armed :: bool
  rsp_config_persisted :: bool

definition responder_new :: "u8 \<Rightarrow> bytes \<Rightarrow> identity \<Rightarrow> responder" where
  "responder_new n_ports port_kinds ident =
     \<lparr>rsp_fwd = fwd_new NO_ADDRESS n_ports, rsp_port_kinds = port_kinds, rsp_identity = ident,
      rsp_default_name = None, rsp_status = [], rsp_guest_slot = 0, rsp_probe = None, rsp_armed = False,
      rsp_config_persisted = False\<rparr>"

definition set_armed :: "responder \<Rightarrow> bool \<Rightarrow> responder" where
  "set_armed r armed = r\<lparr>rsp_armed := armed\<rparr>"

definition set_default_name :: "responder \<Rightarrow> bytes \<Rightarrow> responder" where
  "set_default_name r name = r\<lparr>rsp_default_name := Some name\<rparr>"

definition set_status :: "responder \<Rightarrow> bytes \<Rightarrow> responder" where
  "set_status r entries = r\<lparr>rsp_status := entries\<rparr>"

definition rsp_addr :: "responder \<Rightarrow> u8" where
  "rsp_addr r = fwd_addr (rsp_fwd r)"

definition take_config_persisted :: "responder \<Rightarrow> responder \<times> bool" where
  "take_config_persisted r = (r\<lparr>rsp_config_persisted := False\<rparr>, rsp_config_persisted r)"

definition read_answer :: "'f flash_ops \<Rightarrow> responder \<Rightarrow> 'f store \<Rightarrow> key \<Rightarrow> dyn_error + (tagged_value \<times> u8)" where
  "read_answer F r st k =
     (case get_value F st k of
        Inl e \<Rightarrow> Inl e
      | Inr (v, Stored) \<Rightarrow> Inr (v, if field_id k \<in> set SECRET then CFG_SECRET else CFG_OK)
      | Inr (v, NotStored) \<Rightarrow>
          (case rsp_default_name r of
             Some name \<Rightarrow> if k = DEVICE_NAME then Inr (VStr name, CFG_DEFAULT) else Inr (v, CFG_DEFAULT)
           | None \<Rightarrow> Inr (v, CFG_DEFAULT)))"

definition restore_addr :: "'f flash_ops \<Rightarrow> responder \<Rightarrow> 'f store \<Rightarrow> responder" where
  "restore_addr F r st =
     (case get_value F st NODE_ADDRESS of
        Inr (VU8 a, _) \<Rightarrow> r\<lparr>rsp_fwd := set_addr (rsp_fwd r) a\<rparr>
      | _ \<Rightarrow> r)"

definition reboot :: "'f flash_ops \<Rightarrow> responder \<Rightarrow> 'f store \<Rightarrow> responder" where
  "reboot F r st = restore_addr F (r\<lparr>rsp_fwd := clear_routes (rsp_fwd r)\<rparr>) st"

definition rsp_originate :: "responder \<Rightarrow> u8 \<Rightarrow> u8 \<Rightarrow> bytes \<Rightarrow> emission list \<Rightarrow> emission list" where
  "rsp_originate r opc dst payload out =
     (case pdu_new opc (rsp_addr r) dst payload of
        Inl e \<Rightarrow> out
      | Inr p \<Rightarrow> emit_all out (fwd_originate (rsp_fwd r) p))"

definition reply :: "responder \<Rightarrow> opcode \<Rightarrow> u8 \<Rightarrow> bytes \<Rightarrow> emission list \<Rightarrow> emission list" where
  "reply r op dst payload out =
     emit_all out (fwd_originate (rsp_fwd r) (pdu_from_op op (rsp_addr r) dst payload))"

definition reply_config :: "responder \<Rightarrow> u8 \<Rightarrow> bytes \<Rightarrow> emission list \<Rightarrow> emission list" where
  "reply_config r dst payload out = reply r ConfigResp dst payload out"

definition reply_tune :: "responder \<Rightarrow> u8 \<Rightarrow> key \<Rightarrow> u8 \<Rightarrow> u16 option \<Rightarrow> emission list \<Rightarrow> emission list" where
  "reply_tune r dst k status v out = reply_config r dst (tune_resp k status v) out"

section \<open>Discovery handlers\<close>

text \<open>The payload of the \<open>PORTS\<close> report; a port beyond the arrays is a panic.\<close>

fun ports_payload :: "bytes \<Rightarrow> (u8 \<times> u8) list \<Rightarrow> nat list \<Rightarrow> bytes \<Rightarrow> bytes option" where
  "ports_payload kinds states [] payload = Some payload"
| "ports_payload kinds states (p # ps) payload =
     (if p < length states \<and> p < length kinds then
        (case states ! p of
           (state, addr) \<Rightarrow>
             ports_payload kinds states ps
               (push_quiet MAX_PDU (push_quiet MAX_PDU (push_quiet MAX_PDU (push_quiet MAX_PDU payload
                 (of_nat p)) (kinds ! p)) state) addr))
      else None)"

definition poll_probe :: "responder \<Rightarrow> emission list \<Rightarrow> (responder \<times> emission list) option" where
  "poll_probe r out =
     (case rsp_probe r of
        None \<Rightarrow> Some (r, out)
      | Some prb \<Rightarrow>
          let r = r\<lparr>rsp_probe := None\<rparr>
          in case ports_payload (rsp_port_kinds r) (prb_states prb) [0..<unat (prb_n_ports prb)]
                    (push_quiet MAX_PDU [] (prb_n_ports prb)) of
               None \<Rightarrow> None
             | Some payload \<Rightarrow> Some (r, reply r Ports (prb_reply_to prb) payload out))"

text \<open>The next grant: wrapped inside the node's slice.\<close>

definition grant_guest :: "responder \<Rightarrow> responder \<times> u8" where
  "grant_guest r =
     (let (first, len) = guest_slice (rsp_addr r); slot = rsp_guest_slot r mod len
      in (r\<lparr>rsp_guest_slot := (slot + 1) mod len\<rparr>, first + slot))"

definition on_hello :: "responder \<Rightarrow> u8 \<Rightarrow> pdu \<Rightarrow> emission list \<Rightarrow> (responder \<times> emission list) option" where
  "on_hello r ingress p out =
     (if length (pdu_payload p) = 1 then
        let kind = pdu_payload p ! 0;
            (r, your_addr) =
              (if kind = KIND_CONTROLLER then grant_guest r
               else (r, NO_ADDRESS));
            node_id = rsp_addr r
        in Some (r, emit out ingress (pdu_from_op NodeHello node_id (pdu_src p) [node_id, PROTO_VER, your_addr]))
      else
        case rsp_probe r of
          None \<Rightarrow> Some (r, out)
        | Some prb \<Rightarrow>
            if unat ingress < MAX_PORTS then
              if pdu_payload p = [] then None
              else
                let node_id = pdu_payload p ! 0;
                    state = (if node_id = NO_ADDRESS then NB_UNASSIGNED else NB_ASSIGNED)
                in Some (r\<lparr>rsp_probe := Some (prb\<lparr>prb_states := (prb_states prb)[unat ingress := (state, node_id)]\<rparr>)\<rparr>, out)
            else Some (r, out))"

fun emit_probes :: "emission list \<Rightarrow> u8 \<Rightarrow> nat list \<Rightarrow> emission list" where
  "emit_probes out addr [] = out"
| "emit_probes out addr (p # ps) =
     emit_probes (emit out (of_nat p) (pdu_from_op NodeHello addr NO_ADDRESS [KIND_PROBE])) addr ps"

definition on_probe_ports :: "responder \<Rightarrow> pdu \<Rightarrow> emission list \<Rightarrow> responder \<times> emission list" where
  "on_probe_ports r p out =
     (let n = fwd_n_ports (rsp_fwd r)
      in (r\<lparr>rsp_probe := Some \<lparr>prb_reply_to = pdu_src p, prb_n_ports = n,
                               prb_states = replicate MAX_PORTS (NB_EMPTY, 0)\<rparr>\<rparr>,
          emit_probes out (rsp_addr r) [0..<unat n]))"

section \<open>Writing through to the store\<close>

text \<open>
  The write the request asks for (\<open>None\<close> un-stores the key) and the store's two remote writers, which
  answer \<open>Full\<close> with one compaction and one retry.
\<close>

definition parse_write :: "responder \<Rightarrow> key \<Rightarrow> u8 \<Rightarrow> bytes \<Rightarrow> tagged_value option option" where
  "parse_write r k tag bs =
     (if tag = ERASED_TAG \<and> bs = [] then Some None
      else case type_from_tag tag of
             None \<Rightarrow> None
           | Some kind \<Rightarrow>
               (case value_decode kind bs of
                  None \<Rightarrow> None
                | Some v \<Rightarrow>
                    if id_class (rsp_identity r) = CLASS_BRIDGE \<and> \<not> bridge_value_usable k v then None
                    else Some (Some v)))"

definition persist :: "'f flash_ops \<Rightarrow> 'f store \<Rightarrow> key \<Rightarrow> tagged_value option \<Rightarrow> 'f store \<times> (dyn_error + unit)" where
  "persist F st k v = (case v of Some v \<Rightarrow> set_value F st k v | None \<Rightarrow> erase_value F st k)"

definition apply_write ::
  "'f flash_ops \<Rightarrow> responder \<Rightarrow> 'f store \<Rightarrow> key \<Rightarrow> u8 \<Rightarrow> bytes \<Rightarrow> responder \<times> 'f store \<times> u8" where
  "apply_write F r st k tag bs =
     (if rsp_armed r then (r, st, CFG_ARMED)
      else case parse_write r k tag bs of
             None \<Rightarrow> (r, st, CFG_BAD)
           | Some v \<Rightarrow>
               (case persist F st k v of
                  (st, Inr u) \<Rightarrow> (r\<lparr>rsp_config_persisted := True\<rparr>, st, CFG_OK)
                | (st, Inl (StoreErr Full)) \<Rightarrow>
                    (case compact F st of
                       (st, Inl e) \<Rightarrow> (r, st, compact_status e)
                     | (st, Inr u) \<Rightarrow>
                         (case persist F st k v of
                            (st, Inr u) \<Rightarrow> (r\<lparr>rsp_config_persisted := True\<rparr>, st, CFG_OK)
                          | (st, Inl (StoreErr Full)) \<Rightarrow> (r, st, CFG_NO_SPACE)
                          | (st, Inl e) \<Rightarrow> (r, st, cfg_status e)))
                | (st, Inl e) \<Rightarrow> (r, st, cfg_status e)))"

definition on_assign ::
  "'f flash_ops \<Rightarrow> responder \<Rightarrow> 'f store \<Rightarrow> pdu \<Rightarrow> emission list \<Rightarrow> responder \<times> 'f store \<times> emission list" where
  "on_assign F r st p out =
     (if length (pdu_payload p) < 2 then (r, st, out)
      else
        let egress = pdu_payload p ! 0; new_addr = pdu_payload p ! 1
        in if egress = EGRESS_SELF then
             let (r, st, status) =
                   (if rsp_armed r then (r, st, STATUS_ERR)
                    else case set_value F st NODE_ADDRESS (VU8 new_addr) of
                           (st, Inr u) \<Rightarrow> (r\<lparr>rsp_fwd := set_addr (rsp_fwd r) new_addr\<rparr>, st, STATUS_OK)
                         | (st, Inl (StoreErr Full)) \<Rightarrow>
                             (case compact F st of
                                (st, Inl e) \<Rightarrow> (r, st, STATUS_ERR)
                              | (st, Inr u) \<Rightarrow>
                                  (case set_value F st NODE_ADDRESS (VU8 new_addr) of
                                     (st, Inr u) \<Rightarrow> (r\<lparr>rsp_fwd := set_addr (rsp_fwd r) new_addr\<rparr>, st, STATUS_OK)
                                   | (st, Inl e) \<Rightarrow> (r, st, STATUS_ERR)))
                         | (st, Inl e) \<Rightarrow> (r, st, STATUS_ERR))
             in (r, st, emit_all out (fwd_originate (rsp_fwd r)
                   (pdu_from_op AssignAck new_addr (pdu_src p) [new_addr, status])))
           else (r, st, emit out egress (pdu_from_op Assign (pdu_src p) NO_ADDRESS [EGRESS_SELF, new_addr])))"

section \<open>Config handlers\<close>

definition payload_key :: "bytes \<Rightarrow> nat \<Rightarrow> key" where
  "payload_key p off = \<lparr>field_id = p ! off, key_index = p ! (off + 1)\<rparr>"

text \<open>The reply to a read: the status and the value, none for a stored secret or an error.\<close>

definition read_reply :: "'f flash_ops \<Rightarrow> responder \<Rightarrow> 'f store \<Rightarrow> key \<Rightarrow> bytes option" where
  "read_reply F r st k =
     (case read_answer F r st k of
        Inr (v, status) \<Rightarrow>
          if status = CFG_SECRET then Some [field_id k, key_index k, status, 0]
          else push_value [field_id k, key_index k, status] v
      | Inl e \<Rightarrow> Some [field_id k, key_index k, cfg_status e, 0])"

definition on_config_read ::
  "'f flash_ops \<Rightarrow> responder \<Rightarrow> 'f store \<Rightarrow> pdu \<Rightarrow> emission list \<Rightarrow> emission list option" where
  "on_config_read F r st p out =
     (if length (pdu_payload p) < 2 then Some out
      else case read_reply F r st (payload_key (pdu_payload p) 0) of
             None \<Rightarrow> None
           | Some resp \<Rightarrow> Some (reply_config r (pdu_src p) resp out))"

text \<open>The echo of a write: the value a read answers now.\<close>

definition write_reply :: "'f flash_ops \<Rightarrow> responder \<Rightarrow> 'f store \<Rightarrow> key \<Rightarrow> u8 \<Rightarrow> bytes option" where
  "write_reply F r st k status =
     (let resp = [field_id k, key_index k, status]
      in case read_answer F r st k of
           Inr (v, rd) \<Rightarrow> if status = CFG_OK \<and> rd \<noteq> CFG_SECRET then push_value resp v else Some (resp @ [0])
         | Inl e \<Rightarrow> Some (resp @ [0]))"

definition on_config_write ::
  "'f flash_ops \<Rightarrow> responder \<Rightarrow> 'f store \<Rightarrow> pdu \<Rightarrow> emission list \<Rightarrow> (responder \<times> 'f store \<times> emission list) option" where
  "on_config_write F r st p out =
     (if length (pdu_payload p) < CONFIG_WRITE_HEAD then Some (r, st, out)
      else
        let k = payload_key (pdu_payload p) 0
        in case apply_write F r st k (pdu_payload p ! 2) (drop CONFIG_WRITE_HEAD (pdu_payload p)) of
             (r, st, status) \<Rightarrow>
               (case write_reply F r st k status of
                  None \<Rightarrow> None
                | Some resp \<Rightarrow> Some (r, st, reply_config r (pdu_src p) resp out)))"

fun write_entries ::
  "'f flash_ops \<Rightarrow> responder \<Rightarrow> 'f store \<Rightarrow> bytes \<Rightarrow> nat \<Rightarrow> nat \<Rightarrow> responder \<times> 'f store \<times> u8" where
  "write_entries F r st p off 0 = (r, st, CFG_OK)"
| "write_entries F r st p off (Suc n) =
     (if off + 4 > length p then (r, st, CFG_BAD)
      else
        let vlen = unat (p ! (off + 3)); at = off + 4
        in if at + vlen > length p then (r, st, CFG_BAD)
           else case apply_write F r st (payload_key p off) (p ! (off + 2)) (take vlen (drop at p)) of
                  (r, st, s) \<Rightarrow> if s \<noteq> CFG_OK then (r, st, s) else write_entries F r st p (at + vlen) n)"

definition on_config_write_multi ::
  "'f flash_ops \<Rightarrow> responder \<Rightarrow> 'f store \<Rightarrow> pdu \<Rightarrow> emission list \<Rightarrow> responder \<times> 'f store \<times> emission list" where
  "on_config_write_multi F r st p out =
     (if pdu_payload p = [] then (r, st, out)
      else case write_entries F r st (pdu_payload p) 1 (unat (pdu_payload p ! 0)) of
             (r, st, status) \<Rightarrow> (r, st, reply_config r (pdu_src p) [0, 0, status, 0] out))"

definition on_config_compact ::
  "'f flash_ops \<Rightarrow> responder \<Rightarrow> 'f store \<Rightarrow> pdu \<Rightarrow> emission list \<Rightarrow> 'f store \<times> emission list" where
  "on_config_compact F r st p out =
     (let (st, status) =
            (if rsp_armed r then (st, CFG_ARMED)
             else case compact F st of
                    (st, Inr u) \<Rightarrow> (st, CFG_OK)
                  | (st, Inl e) \<Rightarrow> (st, compact_status e))
      in (st, reply_config r (pdu_src p) [0, 0, status, 0] out))"

section \<open>Ingest\<close>

type_synonym 'f handled = "(responder \<times> 'f store \<times> emission list \<times> delivered_pdu option) option"

definition handle_local ::
  "'f flash_ops \<Rightarrow> responder \<Rightarrow> 'f store \<Rightarrow> u8 \<Rightarrow> pdu \<Rightarrow> emission list \<Rightarrow> 'f handled" where
  "handle_local F r st ingress p out =
     (case opcode_from_u8 (pdu_opcode p) of
        Some NodeHello \<Rightarrow> (case on_hello r ingress p out of None \<Rightarrow> None | Some (r, out) \<Rightarrow> Some (r, st, out, None))
      | Some ProbePorts \<Rightarrow> (case on_probe_ports r p out of (r, out) \<Rightarrow> Some (r, st, out, None))
      | Some Assign \<Rightarrow> (case on_assign F r st p out of (r, st, out) \<Rightarrow> Some (r, st, out, None))
      | Some ConfigRead \<Rightarrow> (case on_config_read F r st p out of None \<Rightarrow> None | Some out \<Rightarrow> Some (r, st, out, None))
      | Some ConfigWrite \<Rightarrow>
          (case on_config_write F r st p out of None \<Rightarrow> None | Some (r, st, out) \<Rightarrow> Some (r, st, out, None))
      | Some ConfigWriteMulti \<Rightarrow>
          (case on_config_write_multi F r st p out of (r, st, out) \<Rightarrow> Some (r, st, out, None))
      | Some ConfigCompact \<Rightarrow> (case on_config_compact F r st p out of (st, out) \<Rightarrow> Some (r, st, out, None))
      | Some Identify \<Rightarrow>
          Some (r, st, reply r IdentityReply (pdu_src p) (identity_encode (rsp_identity r)) out, None)
      | Some StatusRead \<Rightarrow> Some (r, st, reply r StatusReply (pdu_src p) (rsp_status r) out, None)
      | _ \<Rightarrow> Some (r, st, out, delivered_from_pdu p))"

text \<open>The local copy: the delivered packet, encoded into a \<open>MAX_PDU\<close> buffer and decoded again.\<close>

fun local_copy :: "net_action list \<Rightarrow> pdu option" where
  "local_copy [] = None"
| "local_copy (Forward q p # acts) = local_copy acts"
| "local_copy (Deliver p # acts) =
     (case pdu_encode p MAX_PDU of
        Inl e \<Rightarrow> local_copy acts
      | Inr bs \<Rightarrow> (case pdu_decode bs of Inl e \<Rightarrow> None | Inr d \<Rightarrow> Some d))"

definition rsp_ingest ::
  "'f flash_ops \<Rightarrow> responder \<Rightarrow> 'f store \<Rightarrow> u8 \<Rightarrow> bytes \<Rightarrow> emission list \<Rightarrow> 'f handled" where
  "rsp_ingest F r st ingress frame out =
     (case pdu_decode frame of
        Inl e \<Rightarrow> Some (r, st, out, None)
      | Inr p \<Rightarrow>
          (case fwd_ingest (rsp_fwd r) ingress p of
             (f, acts) \<Rightarrow>
               let r = r\<lparr>rsp_fwd := f\<rparr>; out = emit_all out acts
               in case local_copy acts of
                    None \<Rightarrow> Some (r, st, out, None)
                  | Some d \<Rightarrow> handle_local F r st ingress d out))"

section \<open>Emissions fit the wire\<close>

definition emits_ok :: "emission list \<Rightarrow> bool" where
  "emits_ok out \<longleftrightarrow> length out \<le> MAX_EMIT \<and> (\<forall>(port, bs) \<in> set out. length bs \<le> MAX_PDU \<and> (\<exists>p. pdu_decode bs = Inr p))"

lemma emits_ok_emit [intro]: "emits_ok out \<Longrightarrow> emits_ok (emit out port p)"
  using pdu_decode_encode [of p MAX_PDU]
  by (auto simp: emits_ok_def emit_def push_quiet_def pdu_encode_def PDU_HEADER_LEN_def Let_def split: sum.split)

lemma emits_ok_emit_all [intro]: "emits_ok out \<Longrightarrow> emits_ok (emit_all out acts)"
  by (induction out acts rule: emit_all.induct) auto

lemma emits_ok_emit_probes [intro]: "emits_ok out \<Longrightarrow> emits_ok (emit_probes out addr ps)"
  by (induction out addr ps rule: emit_probes.induct) auto

lemma emits_ok_reply [intro]: "emits_ok out \<Longrightarrow> emits_ok (reply r op dst payload out)"
  by (auto simp: reply_def)

lemma local_copy_Deliver: "local_copy acts = Some d \<Longrightarrow> Deliver d \<in> set acts \<and> length (pdu_payload d) + 3 \<le> MAX_PDU"
  by (induction acts rule: local_copy.induct)
    (auto simp: pdu_encode_def Let_def PDU_HEADER_LEN_def dest: pdu_decode_encode split: sum.splits if_splits,
     auto simp: pdu_decode_def PDU_HEADER_LEN_def split: if_splits)

end
