(* ===== verification/Controller.thy ===== *)
theory Controller
  imports Responder
begin

text \<open>
  The host side of the discovery walk, \<open>Controller\<close> of \<open>src/shared/net/src/walk.rs\<close>: the map of placed
  nodes, the task queue, the one outstanding request, and the steps \<open>next_request\<close> and \<open>on_reply\<close>.

  Bounded vectors are lists and every push carries the code's capacity (\<open>push_quiet\<close>). The address
  allocator is a loop over the 256 values of the counter: it runs with that fuel, and \<open>None\<close> means that it
  went all the way round, so that the code would spin for ever. \<open>alloc_Some\<close> shows that a map of at most
  \<open>MAX_NODES\<close> nodes always leaves an address.
\<close>

section \<open>State\<close>

definition MAX_NODES :: nat where "MAX_NODES = 8"
definition MAX_TASKS :: nat where "MAX_TASKS = 16"

datatype task =
  THello
| TAssignGateway u8
| TProbe u8
| TAssignNeighbor u8 u8 u8

record host_link =
  hl_node :: u8
  hl_port :: u8
  hl_kind :: u8

record placed =
  plc_addr :: u8
  plc_relay :: u8
  plc_egress :: u8
  plc_here :: bool
  plc_kinds :: "u8 option list"

record controller =
  ctl_guest_addr :: u8
  ctl_granted :: bool
  ctl_next_board :: u8
  ctl_assigned :: "placed list"
  ctl_queue :: "task list"
  ctl_outstanding :: "task option"
  ctl_host_link :: "host_link option"

definition controller_new :: controller where
  "controller_new =
     \<lparr>ctl_guest_addr = GUEST_FIRST, ctl_granted = False, ctl_next_board = 0x01, ctl_assigned = [],
      ctl_queue = push_quiet MAX_TASKS [] THello, ctl_outstanding = None, ctl_host_link = None\<rparr>"

section \<open>Reading the map\<close>

definition granted :: "controller \<Rightarrow> u8 option" where
  "granted c = (if ctl_granted c then Some (ctl_guest_addr c) else None)"

definition assigned_addrs :: "controller \<Rightarrow> u8 list" where
  "assigned_addrs c = map plc_addr (ctl_assigned c)"

definition gateway_addr :: "controller \<Rightarrow> u8 option" where
  "gateway_addr c = (case ctl_assigned c of [] \<Rightarrow> None | p # ps \<Rightarrow> Some (plc_addr p))"

definition find_placed :: "placed list \<Rightarrow> u8 \<Rightarrow> placed option" where
  "find_placed ps a = find (\<lambda>p. plc_addr p = a) ps"

definition position_of :: "controller \<Rightarrow> u8 \<Rightarrow> (u8 \<times> u8) option" where
  "position_of c a = map_option (\<lambda>p. (plc_relay p, plc_egress p)) (find_placed (ctl_assigned c) a)"

definition parent_of :: "controller \<Rightarrow> u8 \<Rightarrow> u8 option" where
  "parent_of c a =
     (case find_placed (ctl_assigned c) a of
        None \<Rightarrow> None
      | Some p \<Rightarrow> if is_unicast (plc_relay p) then Some (plc_relay p) else None)"

definition placed_here :: "controller \<Rightarrow> u8 \<Rightarrow> bool" where
  "placed_here c a \<longleftrightarrow> (\<exists>p\<in>set (ctl_assigned c). plc_addr p = a \<and> plc_here p)"

text \<open>The parent first; a push past \<open>MAX_NODES\<close> is dropped.\<close>

definition neighbours :: "controller \<Rightarrow> u8 \<Rightarrow> u8 list" where
  "neighbours c a =
     foldl (push_quiet MAX_NODES) (case parent_of c a of None \<Rightarrow> [] | Some r \<Rightarrow> [r])
       (map plc_addr (filter (\<lambda>p. plc_relay p = a) (ctl_assigned c)))"

definition neighbour_on :: "controller \<Rightarrow> u8 \<Rightarrow> u8 \<Rightarrow> u8 option" where
  "neighbour_on c a port =
     map_option plc_addr (find (\<lambda>p. plc_relay p = a \<and> plc_egress p = port) (ctl_assigned c))"

definition port_of_kind :: "controller \<Rightarrow> u8 \<Rightarrow> u8 \<Rightarrow> u8 option" where
  "port_of_kind c a kind =
     (case find_placed (ctl_assigned c) a of
        None \<Rightarrow> None
      | Some p \<Rightarrow>
          (case find (\<lambda>i. plc_kinds p ! i = Some kind) [0..<length (plc_kinds p)] of
             None \<Rightarrow> None
           | Some i \<Rightarrow> if i < 256 then Some (of_nat i) else None))"

definition is_complete :: "controller \<Rightarrow> bool" where
  "is_complete c \<longleftrightarrow> ctl_queue c = [] \<and> ctl_outstanding c = None"

section \<open>Requests\<close>

text \<open>\<open>encode(..).unwrap_or(0)\<close>: a request that does not fit leaves the buffer empty.\<close>

definition ctl_request :: "opcode \<Rightarrow> u8 \<Rightarrow> u8 \<Rightarrow> bytes \<Rightarrow> bytes" where
  "ctl_request op src dst payload =
     (case pdu_encode (pdu_from_op op src dst payload) MAX_PDU of Inl e \<Rightarrow> [] | Inr bs \<Rightarrow> extend_quiet MAX_PDU [] bs)"

definition assign_request :: "u8 \<Rightarrow> u8 \<Rightarrow> u8 \<Rightarrow> u8 \<Rightarrow> bytes" where
  "assign_request src dst egress new_addr = ctl_request Assign src dst [egress, new_addr]"

fun build_request :: "controller \<Rightarrow> task \<Rightarrow> bytes" where
  "build_request c THello = ctl_request NodeHello (ctl_guest_addr c) NO_ADDRESS [KIND_CONTROLLER]"
| "build_request c (TAssignGateway a) = assign_request (ctl_guest_addr c) NO_ADDRESS EGRESS_SELF a"
| "build_request c (TProbe a) = ctl_request ProbePorts (ctl_guest_addr c) a []"
| "build_request c (TAssignNeighbor relay egress a) = assign_request (ctl_guest_addr c) relay egress a"

definition next_request :: "controller \<Rightarrow> controller \<times> bytes option" where
  "next_request c =
     (case ctl_outstanding c of
        Some t \<Rightarrow> (c, None)
      | None \<Rightarrow>
          (case ctl_queue c of
             [] \<Rightarrow> (c, None)
           | t # q \<Rightarrow> (c\<lparr>ctl_queue := q, ctl_outstanding := Some t\<rparr>, Some (build_request c t))))"

definition reply_to_probe :: "controller \<Rightarrow> bytes \<Rightarrow> bytes option" where
  "reply_to_probe c frame =
     (case pdu_decode frame of
        Inl e \<Rightarrow> None
      | Inr p \<Rightarrow>
          if pdu_known p = Some NodeHello \<and> length (pdu_payload p) = 1 then
            (case pdu_encode (pdu_from_op NodeHello (ctl_guest_addr c) (pdu_src p)
                     [ctl_guest_addr c, PROTO_VER, NO_ADDRESS]) MAX_PDU of
               Inl e \<Rightarrow> None
             | Inr bs \<Rightarrow> extend_from_slice MAX_PDU [] bs)
          else None)"

section \<open>Changing the map\<close>

definition enqueue :: "controller \<Rightarrow> task \<Rightarrow> controller" where
  "enqueue c t = c\<lparr>ctl_queue := push_quiet MAX_TASKS (ctl_queue c) t\<rparr>"

fun alloc_from :: "nat \<Rightarrow> placed list \<Rightarrow> u8 \<Rightarrow> (u8 \<times> u8) option" where
  "alloc_from 0 ps a = None"
| "alloc_from (Suc n) ps a =
     (if is_board a \<and> find_placed ps a = None then Some (a, a + 1) else alloc_from n ps (a + 1))"

definition alloc :: "controller \<Rightarrow> (u8 \<times> controller) option" where
  "alloc c =
     (case alloc_from 256 (ctl_assigned c) (ctl_next_board c) of
        None \<Rightarrow> None
      | Some (a, next) \<Rightarrow> Some (a, c\<lparr>ctl_next_board := next\<rparr>))"

definition record_node :: "controller \<Rightarrow> u8 \<Rightarrow> u8 \<Rightarrow> u8 \<Rightarrow> bool \<Rightarrow> controller \<times> bool" where
  "record_node c a relay egress here =
     (if position_of c a \<noteq> None then (c, False)
      else if length (ctl_assigned c) < MAX_NODES then
        (c\<lparr>ctl_assigned := ctl_assigned c @
             [\<lparr>plc_addr = a, plc_relay = relay, plc_egress = egress, plc_here = here,
               plc_kinds = replicate MAX_PORTS None\<rparr>]\<rparr>, True)
      else (c, False))"

text \<open>
  The three loops of \<open>reassign\<close>: the records that hold the old address (the last one decides the
  \<open>ASSIGN\<close>), the records reached through it, the queued tasks that name it.
\<close>

definition move_task :: "placed \<Rightarrow> u8 \<Rightarrow> task" where
  "move_task p na =
     (if plc_egress p = EGRESS_SELF then TAssignGateway na else TAssignNeighbor (plc_relay p) (plc_egress p) na)"

fun move_records :: "u8 \<Rightarrow> u8 \<Rightarrow> placed list \<Rightarrow> task option \<Rightarrow> placed list \<times> task option" where
  "move_records old na [] t = ([], t)"
| "move_records old na (p # ps) t =
     (if plc_addr p = old then
        let (qs, t) = move_records old na ps (Some (move_task p na)) in (p\<lparr>plc_addr := na\<rparr> # qs, t)
      else let (qs, t) = move_records old na ps t in (p # qs, t))"

definition move_relay :: "u8 \<Rightarrow> u8 \<Rightarrow> placed \<Rightarrow> placed" where
  "move_relay old na p = (if plc_relay p = old then p\<lparr>plc_relay := na\<rparr> else p)"

fun move_queued :: "u8 \<Rightarrow> u8 \<Rightarrow> task \<Rightarrow> task" where
  "move_queued old na (TProbe a) = TProbe (if a = old then na else a)"
| "move_queued old na (TAssignNeighbor relay egress a) = TAssignNeighbor (if relay = old then na else relay) egress a"
| "move_queued old na t = t"

definition reassign :: "controller \<Rightarrow> u8 \<Rightarrow> (u8 \<times> controller) option" where
  "reassign c old =
     (case alloc c of
        None \<Rightarrow> None
      | Some (na, c) \<Rightarrow>
          (case move_records old na (ctl_assigned c) None of
             (ps, t) \<Rightarrow>
               let ps = map (move_relay old na) ps;
                   q = map (move_queued old na) (ctl_queue c);
                   h = map_option (\<lambda>h. if hl_node h = old then h\<lparr>hl_node := na\<rparr> else h) (ctl_host_link c);
                   q = (case t of None \<Rightarrow> q | Some t \<Rightarrow> if length q < MAX_TASKS then t # q else q)
               in Some (na, c\<lparr>ctl_assigned := ps, ctl_queue := q, ctl_host_link := h\<rparr>)))"

section \<open>Replies\<close>

definition assign_ack_status :: "pdu \<Rightarrow> u8 \<Rightarrow> u8 \<Rightarrow> u8 option" where
  "assign_ack_status p guest new_addr =
     (if pdu_known p = Some AssignAck \<and> pdu_dst p = guest \<and> pdu_src p = new_addr \<and> 2 \<le> length (pdu_payload p) \<and>
         pdu_payload p ! 0 = new_addr
      then Some (pdu_payload p ! 1) else None)"

definition answers :: "controller \<Rightarrow> task \<Rightarrow> pdu \<Rightarrow> bool" where
  "answers c t p =
     (if pdu_dst p \<noteq> ctl_guest_addr c then False
      else case t of
             THello \<Rightarrow> pdu_known p = Some NodeHello \<and> length (pdu_payload p) = HELLO_REPLY_LEN
           | TProbe a \<Rightarrow> pdu_known p = Some Ports \<and> pdu_src p = a
           | TAssignGateway a \<Rightarrow> assign_ack_status p (ctl_guest_addr c) a \<noteq> None
           | TAssignNeighbor relay egress a \<Rightarrow> assign_ack_status p (ctl_guest_addr c) a \<noteq> None)"

text \<open>One entry of a \<open>PORTS\<close> reply: port, medium, state (two bits) and the neighbour's address.\<close>

type_synonym port_entry = "u8 \<times> u8 \<times> u8 \<times> u8"

definition port_entry_at :: "bytes \<Rightarrow> nat \<Rightarrow> port_entry option" where
  "port_entry_at payload i =
     (let base = 1 + i * 4
      in if base + 4 \<le> length payload then
           Some (payload ! base, payload ! (base + 1), payload ! (base + 2) AND NB_STATE_MASK, payload ! (base + 3))
         else None)"

fun map_while :: "('a \<Rightarrow> 'b option) \<Rightarrow> 'a list \<Rightarrow> 'b list" where
  "map_while f [] = []"
| "map_while f (x # xs) = (case f x of None \<Rightarrow> [] | Some y \<Rightarrow> y # map_while f xs)"

fun update_first :: "('a \<Rightarrow> bool) \<Rightarrow> ('a \<Rightarrow> 'a) \<Rightarrow> 'a list \<Rightarrow> 'a list" where
  "update_first P f [] = []"
| "update_first P f (x # xs) = (if P x then f x # xs else x # update_first P f xs)"

fun note_kinds :: "u8 option list \<Rightarrow> port_entry list \<Rightarrow> u8 option list" where
  "note_kinds ks [] = ks"
| "note_kinds ks ((port, kind, s, a) # es) =
     note_kinds (if unat port < length ks then ks[unat port := Some kind] else ks) es"

definition note_host :: "controller \<Rightarrow> u8 \<Rightarrow> port_entry \<Rightarrow> controller" where
  "note_host c probed e =
     (case e of (port, kind, s, a) \<Rightarrow>
        if s = NB_ASSIGNED \<and> a = ctl_guest_addr c \<and> ctl_host_link c = None then
          c\<lparr>ctl_host_link := Some \<lparr>hl_node = probed, hl_port = port, hl_kind = kind\<rparr>\<rparr>
        else c)"

text \<open>The loop over the entries; the probed node's address changes when the node itself is moved.\<close>

fun port_entries :: "u8 option \<Rightarrow> controller \<Rightarrow> u8 \<Rightarrow> port_entry list \<Rightarrow> controller option" where
  "port_entries parent c probed [] = Some c"
| "port_entries parent c probed ((port, kind, state, naddr) # es) =
     (let c = note_host c probed (port, kind, state, naddr)
      in if state = NB_UNASSIGNED then
           (case alloc c of
              None \<Rightarrow> None
            | Some (na, c) \<Rightarrow> port_entries parent (enqueue c (TAssignNeighbor probed port na)) probed es)
         else if state = NB_ASSIGNED then
           if is_controller naddr then port_entries parent c probed es
           else if Some naddr = parent then port_entries parent c probed es
           else case position_of c naddr of
                  Some pos \<Rightarrow>
                    if pos = (probed, port) then port_entries parent c probed es
                    else if placed_here c naddr then
                      (case reassign c naddr of
                         None \<Rightarrow> None
                       | Some (moved, c) \<Rightarrow>
                           let probed = (if probed = naddr then moved else probed)
                           in port_entries parent
                                (enqueue (fst (record_node c naddr probed port False)) (TProbe naddr)) probed es)
                    else (case alloc c of
                            None \<Rightarrow> None
                          | Some (na, c) \<Rightarrow>
                              port_entries parent (enqueue c (TAssignNeighbor probed port na)) probed es)
                | None \<Rightarrow>
                    port_entries parent
                      (enqueue (fst (record_node c naddr probed port False)) (TProbe naddr)) probed es
         else port_entries parent c probed es)"

definition on_ports :: "controller \<Rightarrow> u8 \<Rightarrow> pdu \<Rightarrow> controller option" where
  "on_ports c probed p =
     (if pdu_payload p = [] then Some c
      else
        let parent = parent_of c probed;
            n = unat (pdu_payload p ! 0);
            es = map_while (port_entry_at (pdu_payload p)) [0..<n];
            c = c\<lparr>ctl_assigned :=
                    update_first (\<lambda>q. plc_addr q = probed)
                      (\<lambda>q. q\<lparr>plc_kinds := note_kinds (replicate MAX_PORTS None) es\<rparr>) (ctl_assigned c)\<rparr>;
            seen = (\<lambda>par. length (filter (\<lambda>(port, kind, s, a). s = NB_ASSIGNED \<and> a = par)
                                    (List.map_filter (port_entry_at (pdu_payload p)) [0..<n])))
        in case parent of
             Some par \<Rightarrow>
               if seen par > 1 \<and> placed_here c par then
                 (case reassign c par of
                    None \<Rightarrow> None
                  | Some (na, c) \<Rightarrow> Some (enqueue c (TProbe probed)))
               else port_entries parent c probed es
           | None \<Rightarrow> port_entries parent c probed es)"

text \<open>The \<open>Hello\<close> and \<open>ASSIGN\<close> arms.\<close>

definition on_hello_reply :: "controller \<Rightarrow> pdu \<Rightarrow> controller option" where
  "on_hello_reply c p =
     (let node_id = pdu_payload p ! 0;
          c = c\<lparr>ctl_guest_addr := pdu_payload p ! 2, ctl_granted := True\<rparr>
      in if node_id = NO_ADDRESS then
           (case alloc c of None \<Rightarrow> None | Some (na, c) \<Rightarrow> Some (enqueue c (TAssignGateway na)))
         else Some (enqueue (fst (record_node c node_id 0 EGRESS_SELF False)) (TProbe node_id)))"

definition on_assign_ack :: "controller \<Rightarrow> pdu \<Rightarrow> u8 \<Rightarrow> u8 \<Rightarrow> u8 \<Rightarrow> controller" where
  "on_assign_ack c p relay egress new_addr =
     (if pdu_payload p ! 1 = STATUS_OK then
        case record_node c new_addr relay egress True of
          (c, new) \<Rightarrow> if new then enqueue c (TProbe new_addr) else c
      else c)"

definition on_task_reply :: "controller \<Rightarrow> task \<Rightarrow> pdu \<Rightarrow> controller option" where
  "on_task_reply c t p =
     (case t of
        THello \<Rightarrow> on_hello_reply c p
      | TAssignGateway a \<Rightarrow> Some (on_assign_ack c p 0 EGRESS_SELF a)
      | TAssignNeighbor relay egress a \<Rightarrow> Some (on_assign_ack c p relay egress a)
      | TProbe a \<Rightarrow> on_ports c a p)"

definition on_reply :: "controller \<Rightarrow> bytes \<Rightarrow> (controller \<times> bool) option" where
  "on_reply c frame =
     (case pdu_decode frame of
        Inl e \<Rightarrow> Some (c, False)
      | Inr p \<Rightarrow>
          (case ctl_outstanding c of
             None \<Rightarrow> Some (c, False)
           | Some t \<Rightarrow>
               if answers c t p then
                 map_option (\<lambda>c. (c, True)) (on_task_reply (c\<lparr>ctl_outstanding := None\<rparr>) t p)
               else Some (c, False)))"

end
