(* ===== verification/ControllerProps.thy ===== *)
theory ControllerProps
  imports Controller
begin

text \<open>
  What the walk keeps of its map: the allocator always answers, the records keep distinct addresses,
  their bounds and the gateway's place through every sequence of requests and replies; how a node moves;
  and the two ways the map and the boards part.
\<close>

section \<open>Allocating an address\<close>

lemma find_placed_None: "find_placed ps a = None \<longleftrightarrow> a \<notin> plc_addr ` set ps"
  by (auto simp: find_placed_def find_None_iff)

lemma position_of_None: "position_of c a = None \<longleftrightarrow> a \<notin> set (assigned_addrs c)"
  by (auto simp: position_of_def find_placed_None assigned_addrs_def)

lemma alloc_from_Some:
  "alloc_from n ps a = Some (b, nx) \<Longrightarrow> is_board b \<and> find_placed ps b = None \<and> nx = b + 1"
  by (induction n arbitrary: a) (auto split: if_splits)

lemma alloc_from_None:
  "alloc_from n ps a = None \<Longrightarrow> i < n \<Longrightarrow> \<not> (is_board (a + of_nat i) \<and> find_placed ps (a + of_nat i) = None)"
proof (induction n arbitrary: a i)
  case (Suc n)
  show ?case
  proof (cases i)
    case 0
    then show ?thesis using Suc.prems by (auto split: if_splits)
  next
    case step: (Suc j)
    have "alloc_from n ps (a + 1) = None" using Suc.prems(1) by (simp split: if_splits)
    from Suc.IH [OF this, of j] Suc.prems(2) step show ?thesis by (simp add: add.assoc)
  qed
qed simp

lemma boards_many: "set [1, 2, 3, 4, 5, 6, 7, 8, 9 :: u8] \<subseteq> {b. is_board b}"
  by (simp add: is_board_def GUEST_FIRST_def)

lemma alloc_Some:
  assumes "length (ctl_assigned c) \<le> MAX_NODES"
  shows "alloc c \<noteq> None"
proof
  assume "alloc c = None"
  then have none: "alloc_from 256 (ctl_assigned c) (ctl_next_board c) = None"
    by (auto simp: alloc_def split: option.splits prod.splits)
  have "b \<in> plc_addr ` set (ctl_assigned c)" if "is_board b" for b
  proof -
    have "unat (b - ctl_next_board c) < 256" using unsigned_less [of "b - ctl_next_board c"] by simp
    from alloc_from_None [OF none this] that show ?thesis by (auto simp: find_placed_None)
  qed
  then have "set [1, 2, 3, 4, 5, 6, 7, 8, 9 :: u8] \<subseteq> plc_addr ` set (ctl_assigned c)"
    using boards_many by blast
  then have "card (set [1, 2, 3, 4, 5, 6, 7, 8, 9 :: u8]) \<le> card (plc_addr ` set (ctl_assigned c))"
    by (intro card_mono) simp_all
  also have "\<dots> \<le> length (ctl_assigned c)"
    by (metis card_image_le card_length le_trans List.finite_set)
  finally show False using assms by (simp add: MAX_NODES_def)
qed

lemma alloc_fresh:
  "alloc c = Some (a, c') \<Longrightarrow> is_board a \<and> a \<notin> set (assigned_addrs c) \<and> c' = c\<lparr>ctl_next_board := a + 1\<rparr>"
  by (auto simp: alloc_def assigned_addrs_def find_placed_None dest!: alloc_from_Some split: option.splits prod.splits)

section \<open>The invariant\<close>

definition pending :: "controller \<Rightarrow> task list" where
  "pending c = (case ctl_outstanding c of None \<Rightarrow> [] | Some t \<Rightarrow> [t]) @ ctl_queue c"

text \<open>The address a task hands out comes from the allocator.\<close>

fun task_ok :: "task \<Rightarrow> bool" where
  "task_ok (TAssignGateway a) = is_board a"
| "task_ok (TAssignNeighbor relay egress a) = is_board a"
| "task_ok t = True"

fun is_first_contact :: "task \<Rightarrow> bool" where
  "is_first_contact THello = True"
| "is_first_contact (TAssignGateway a) = True"
| "is_first_contact t = False"

definition placed_ok :: "placed \<Rightarrow> bool" where
  "placed_ok p \<longleftrightarrow> (plc_here p \<longrightarrow> is_board (plc_addr p)) \<and> length (plc_kinds p) = MAX_PORTS"

definition gateway_first :: "placed list \<Rightarrow> bool" where
  "gateway_first ps \<longleftrightarrow> (case ps of [] \<Rightarrow> True | p # _ \<Rightarrow> plc_relay p = 0 \<and> plc_egress p = EGRESS_SELF)"

definition map_ok :: "placed list \<Rightarrow> bool" where
  "map_ok ps \<longleftrightarrow> distinct (map plc_addr ps) \<and> length ps \<le> MAX_NODES \<and> list_all placed_ok ps \<and> gateway_first ps"

definition ctl_inv :: "controller \<Rightarrow> bool" where
  "ctl_inv c \<longleftrightarrow> map_ok (ctl_assigned c) \<and> length (ctl_queue c) \<le> MAX_TASKS \<and>
     list_all task_ok (pending c) \<and> (ctl_assigned c = [] \<longrightarrow> list_all is_first_contact (pending c))"

text \<open>The part that holds while a reply is processed: the map is not empty from then on.\<close>

definition walk_inv :: "controller \<Rightarrow> bool" where
  "walk_inv c \<longleftrightarrow> map_ok (ctl_assigned c) \<and> ctl_assigned c \<noteq> [] \<and> length (ctl_queue c) \<le> MAX_TASKS \<and>
     list_all task_ok (ctl_queue c) \<and> ctl_outstanding c = None"

lemma walk_inv_imp: "walk_inv c \<Longrightarrow> ctl_inv c"
  by (simp add: walk_inv_def ctl_inv_def pending_def)

lemma walk_inv_alloc: "walk_inv c \<Longrightarrow> alloc c = Some (a, c') \<Longrightarrow> walk_inv c' \<and> is_board a"
  by (auto simp: walk_inv_def dest!: alloc_fresh)

lemma list_all_push_quiet: "list_all P xs \<Longrightarrow> P x \<Longrightarrow> list_all P (push_quiet n xs x)"
  by (simp add: push_quiet_def)

lemma walk_inv_enqueue: "walk_inv c \<Longrightarrow> task_ok t \<Longrightarrow> walk_inv (enqueue c t)"
  using length_push_quiet [of "ctl_queue c" MAX_TASKS t]
  by (auto simp: walk_inv_def enqueue_def list_all_push_quiet)

lemma map_ok_snoc:
  assumes "map_ok ps" "length ps < MAX_NODES" "plc_addr p \<notin> plc_addr ` set ps" "placed_ok p"
    "ps = [] \<longrightarrow> gateway_first [p]"
  shows "map_ok (ps @ [p])"
  using assms by (cases ps) (auto simp: map_ok_def gateway_first_def)

lemma record_node_cases:
  assumes "record_node c a relay egress here = (c', new)"
  obtains (kept) "c' = c" "\<not> new"
  | (added) "new" "a \<notin> set (assigned_addrs c)" "length (ctl_assigned c) < MAX_NODES"
      "c' = c\<lparr>ctl_assigned := ctl_assigned c @ [\<lparr>plc_addr = a, plc_relay = relay, plc_egress = egress,
                plc_here = here, plc_kinds = replicate MAX_PORTS None\<rparr>]\<rparr>"
  using assms by (auto simp: record_node_def position_of_None split: if_splits)

lemma map_ok_record:
  assumes "map_ok (ctl_assigned c)" "here \<longrightarrow> is_board a" "record_node c a relay egress here = (c', new)"
    "ctl_assigned c = [] \<longrightarrow> relay = 0 \<and> egress = EGRESS_SELF"
  shows "map_ok (ctl_assigned c')"
  using assms(3)
proof (cases rule: record_node_cases)
  case added
  show ?thesis
    unfolding added(4) using added(2,3) assms
    by (auto intro!: map_ok_snoc simp: placed_ok_def gateway_first_def assigned_addrs_def)
qed (use assms in simp)

lemma walk_inv_record:
  "walk_inv c \<Longrightarrow> here \<longrightarrow> is_board a \<Longrightarrow> record_node c a relay egress here = (c', new) \<Longrightarrow> walk_inv c'"
  using map_ok_record [of c here a relay egress c' new]
  by (auto simp: walk_inv_def record_node_def split: if_splits)

lemma walk_inv_note_host: "walk_inv c \<Longrightarrow> walk_inv (note_host c probed e)"
  by (simp add: note_host_def walk_inv_def split: prod.split)

section \<open>Moving a node\<close>

definition move_addr :: "u8 \<Rightarrow> u8 \<Rightarrow> placed \<Rightarrow> placed" where
  "move_addr old na p = (if plc_addr p = old then p\<lparr>plc_addr := na\<rparr> else p)"

lemma move_records_map: "fst (move_records old na ps t) = map (move_addr old na) ps"
  by (induction ps arbitrary: t) (simp_all add: move_addr_def case_prod_beta)

lemma move_records_task:
  assumes "distinct (map plc_addr ps)"
  shows "snd (move_records old na ps t) =
    (case find_placed ps old of None \<Rightarrow> t | Some p \<Rightarrow> Some (move_task p na))"
  using assms
proof (induction ps arbitrary: t)
  case (Cons p ps)
  show ?case
  proof (cases "plc_addr p = old")
    case True
    then have "find_placed ps old = None" using Cons.prems by (auto simp: find_placed_None)
    then show ?thesis using True Cons by (simp add: find_placed_def case_prod_beta)
  next
    case False
    then show ?thesis using Cons by (simp add: find_placed_def case_prod_beta)
  qed
qed (simp add: find_placed_def)

lemma moved_fields [simp]:
  "plc_addr (move_relay old na p) = plc_addr p" "plc_here (move_relay old na p) = plc_here p"
  "plc_egress (move_relay old na p) = plc_egress p" "plc_kinds (move_relay old na p) = plc_kinds p"
  "plc_relay (move_relay old na p) = (if plc_relay p = old then na else plc_relay p)"
  "plc_addr (move_addr old na p) = (if plc_addr p = old then na else plc_addr p)"
  "plc_here (move_addr old na p) = plc_here p" "plc_egress (move_addr old na p) = plc_egress p"
  "plc_kinds (move_addr old na p) = plc_kinds p" "plc_relay (move_addr old na p) = plc_relay p"
  by (simp_all add: move_relay_def move_addr_def)

definition moved_map :: "u8 \<Rightarrow> u8 \<Rightarrow> placed list \<Rightarrow> placed list" where
  "moved_map old na ps = map (move_relay old na \<circ> move_addr old na) ps"

lemma reassign_eq:
  assumes "distinct (assigned_addrs c)" "find_placed (ctl_assigned c) old = Some p" "reassign c old = Some (na, c')"
  shows "\<exists>q. q = map (move_queued old na) (ctl_queue c) \<and>
    c' = c\<lparr>ctl_next_board := na + 1, ctl_assigned := moved_map old na (ctl_assigned c),
           ctl_queue := (if length q < MAX_TASKS then move_task p na # q else q),
           ctl_host_link := map_option (\<lambda>h. if hl_node h = old then h\<lparr>hl_node := na\<rparr> else h) (ctl_host_link c)\<rparr> \<and>
    is_board na \<and> na \<notin> set (assigned_addrs c)"
proof -
  obtain c1 where a: "alloc c = Some (na, c1)"
    using assms(3) by (auto simp: reassign_def Let_def split: option.splits prod.splits)
  note f = alloc_fresh [OF a]
  obtain ps t where m: "move_records old na (ctl_assigned c) None = (ps, t)" by fastforce
  have "ps = map (move_addr old na) (ctl_assigned c)" "t = Some (move_task p na)"
    using move_records_map [of old na "ctl_assigned c" None] m assms(1,2)
      move_records_task [of "ctl_assigned c" old na None] by (simp_all add: assigned_addrs_def)
  then show ?thesis using assms(3) a f m by (auto simp: reassign_def Let_def moved_map_def)
qed


lemma placed_here_found:
  assumes "distinct (assigned_addrs c)" "placed_here c a"
  obtains p where "find_placed (ctl_assigned c) a = Some p" "plc_here p" "plc_addr p = a" "p \<in> set (ctl_assigned c)"
proof -
  have "find_placed (ctl_assigned c) a \<noteq> None"
    using assms(2) by (auto simp: find_placed_None placed_here_def)
  then obtain p where p: "find_placed (ctl_assigned c) a = Some p" by blast
  then have "p \<in> set (ctl_assigned c)" "plc_addr p = a" by (auto simp: find_placed_def find_Some_iff)
  moreover obtain q where "q \<in> set (ctl_assigned c)" "plc_addr q = a" "plc_here q"
    using assms(2) by (auto simp: placed_here_def)
  ultimately have "plc_here p"
    using assms(1) by (auto simp: assigned_addrs_def dest: eq_key_imp_eq_value inj_onD simp: distinct_map)
  then show thesis using that p \<open>p \<in> set (ctl_assigned c)\<close> \<open>plc_addr p = a\<close> by blast
qed

lemma moved_addrs: "map plc_addr (moved_map old na ps) = map (\<lambda>a. if a = old then na else a) (map plc_addr ps)"
  by (simp add: moved_map_def)

lemma map_ok_moved:
  assumes "map_ok ps" "is_board na" "na \<notin> plc_addr ` set ps" "old \<noteq> 0"
  shows "map_ok (moved_map old na ps)"
proof -
  have "inj_on (\<lambda>a. if a = old then na else a) (plc_addr ` set ps)"
    using assms(3) by (auto simp: inj_on_def)
  then have "distinct (map plc_addr (moved_map old na ps))"
    using assms(1) distinct_map [of "\<lambda>a. if a = old then na else a" "map plc_addr ps"]
    unfolding moved_addrs map_ok_def by (simp del: map_map)
  moreover have "list_all placed_ok (moved_map old na ps)"
    using assms(1,2) by (auto simp: map_ok_def moved_map_def list_all_iff placed_ok_def)
  moreover have "gateway_first (moved_map old na ps)"
    using assms(1,4) by (cases ps) (auto simp: map_ok_def gateway_first_def moved_map_def)
  ultimately show ?thesis using assms(1) by (simp add: map_ok_def moved_map_def)
qed

lemma task_ok_moved: "list_all task_ok q \<Longrightarrow> list_all task_ok (map (move_queued old na) q)"
proof -
  have "task_ok (move_queued old na t) = task_ok t" for t by (cases t) auto
  then show "list_all task_ok q \<Longrightarrow> list_all task_ok (map (move_queued old na) q)" by (simp add: list_all_iff)
qed

lemma walk_inv_reassign:
  assumes inv: "walk_inv c" and here: "placed_here c old" and r: "reassign c old = Some (na, c')"
  shows "walk_inv c'"
proof -
  have d: "distinct (assigned_addrs c)" using inv by (simp add: walk_inv_def map_ok_def assigned_addrs_def)
  obtain p where p: "find_placed (ctl_assigned c) old = Some p" "plc_here p" "plc_addr p = old" "p \<in> set (ctl_assigned c)"
    using placed_here_found [OF d here] by blast
  then have "is_board old" using inv by (auto simp: walk_inv_def map_ok_def list_all_iff placed_ok_def)
  then have "old \<noteq> 0" by (auto simp: is_board_def)
  from reassign_eq [OF d p(1) r] obtain q where q: "q = map (move_queued old na) (ctl_queue c)"
      "c' = c\<lparr>ctl_next_board := na + 1, ctl_assigned := moved_map old na (ctl_assigned c),
           ctl_queue := (if length q < MAX_TASKS then move_task p na # q else q),
           ctl_host_link := map_option (\<lambda>h. if hl_node h = old then h\<lparr>hl_node := na\<rparr> else h) (ctl_host_link c)\<rparr>"
      "is_board na" "na \<notin> set (assigned_addrs c)" by blast
  have "map_ok (moved_map old na (ctl_assigned c))"
    using map_ok_moved [of "ctl_assigned c" na old] inv q(3,4) \<open>old \<noteq> 0\<close>
    by (simp add: walk_inv_def assigned_addrs_def)
  moreover have "task_ok (move_task p na)" using q(3) by (simp add: move_task_def)
  ultimately show ?thesis
    using inv q(1) task_ok_moved [of "ctl_queue c" old na]
    by (auto simp: walk_inv_def q(2) moved_map_def)
qed

lemma reassign_Some: "length (ctl_assigned c) \<le> MAX_NODES \<Longrightarrow> reassign c old \<noteq> None"
  using alloc_Some [of c] by (auto simp: reassign_def Let_def split: option.splits prod.splits)

section \<open>Reports\<close>

lemma task_ok_probe: "task_ok (TProbe a)" by simp

lemma port_entries_inv:
  assumes "walk_inv c"
  shows "\<exists>c'. port_entries parent c probed es = Some c' \<and> walk_inv c'"
  using assms
proof (induction es arbitrary: c probed)
  case (Cons e es)
  obtain port kind state naddr where e: "e = (port, kind, state, naddr)" by (cases e)
  define c1 where "c1 = note_host c probed (port, kind, state, naddr)"
  have c1: "walk_inv c1" using Cons.prems by (simp add: c1_def walk_inv_note_host)
  then have len: "length (ctl_assigned c1) \<le> MAX_NODES" by (simp add: walk_inv_def map_ok_def)
  have adopt: "walk_inv (enqueue (fst (record_node c' naddr r port False)) (TProbe naddr))" if "walk_inv c'" for c' r
    using walk_inv_record [OF that, of False] by (metis prod.collapse task_ok_probe walk_inv_enqueue)
  note run = port_entries.simps(2) [of parent c probed port kind state naddr es, folded c1_def]
  obtain na c2 where a: "alloc c1 = Some (na, c2)" using alloc_Some [OF len] by (metis not_None_eq surj_pair)
  have assign: "walk_inv (enqueue c2 (TAssignNeighbor probed port na))"
    using walk_inv_alloc [OF c1 a] by (simp add: walk_inv_enqueue)
  obtain moved c3 where m: "reassign c1 naddr = Some (moved, c3)"
    using reassign_Some [OF len] by (metis not_None_eq surj_pair)
  let ?ok = "\<lambda>r. \<exists>c'. r = Some c' \<and> walk_inv c'"
  have "?ok (port_entries parent c1 probed es)" by (rule Cons.IH [OF c1])
  moreover have "?ok (port_entries parent (enqueue c2 (TAssignNeighbor probed port na)) probed es)"
    by (rule Cons.IH [OF assign])
  moreover have "?ok (port_entries parent (enqueue (fst (record_node c3 naddr r port False)) (TProbe naddr)) r es)"
    if "placed_here c1 naddr" for r
    by (rule Cons.IH [OF adopt [OF walk_inv_reassign [OF c1 that m]]])
  moreover have "?ok (port_entries parent (enqueue (fst (record_node c1 naddr probed port False)) (TProbe naddr)) probed es)"
    by (rule Cons.IH [OF adopt [OF c1]])
  ultimately show ?case
    unfolding e run Let_def a m option.case prod.case
    by (cases "position_of c1 naddr"; cases "probed = naddr") simp_all
qed simp

lemma length_note_kinds [simp]: "length (note_kinds ks es) = length ks"
  by (induction ks es rule: note_kinds.induct) simp_all

lemma length_update_first [simp]: "length (update_first P f xs) = length xs"
  by (induction xs) simp_all

lemma map_ok_kinds:
  assumes "map_ok ps" "length ks = MAX_PORTS"
  shows "map_ok (update_first P (\<lambda>q. q\<lparr>plc_kinds := ks\<rparr>) ps) \<and> (update_first P (\<lambda>q. q\<lparr>plc_kinds := ks\<rparr>) ps = [] \<longleftrightarrow> ps = [])"
proof -
  let ?f = "update_first P (\<lambda>q. q\<lparr>plc_kinds := ks\<rparr>)"
  have "map plc_addr (?f ps) = map plc_addr ps" "list_all placed_ok ps \<longrightarrow> list_all placed_ok (?f ps)"
    using assms(2) by (induction ps) (auto simp: placed_ok_def)
  moreover have "gateway_first (?f ps) = gateway_first ps" by (cases ps) (auto simp: gateway_first_def)
  moreover have "length (?f ps) = length ps" using calculation(1) by (metis length_map)
  ultimately show ?thesis using assms(1) by (auto simp: map_ok_def)
qed

lemma on_ports_inv:
  assumes "walk_inv c"
  shows "\<exists>c'. on_ports c probed p = Some c' \<and> walk_inv c'"
proof (cases "pdu_payload p")
  case Nil
  then show ?thesis using assms by (simp add: on_ports_def)
next
  case (Cons b bs)
  define es where "es = map_while (port_entry_at (pdu_payload p)) [0..<unat (pdu_payload p ! 0)]"
  define c1 where "c1 = c\<lparr>ctl_assigned := update_first (\<lambda>q. plc_addr q = probed)
      (\<lambda>q. q\<lparr>plc_kinds := note_kinds (replicate MAX_PORTS None) es\<rparr>) (ctl_assigned c)\<rparr>"
  have c1: "walk_inv c1"
    using assms map_ok_kinds [of "ctl_assigned c" "note_kinds (replicate MAX_PORTS None) es"]
    by (simp add: walk_inv_def c1_def)
  then have len: "length (ctl_assigned c1) \<le> MAX_NODES" by (simp add: walk_inv_def map_ok_def)
  have "\<exists>c'. (case reassign c1 par of None \<Rightarrow> None | Some (na, c) \<Rightarrow> Some (enqueue c (TProbe probed))) = Some c' \<and> walk_inv c'"
    if here: "placed_here c1 par" for par
  proof -
    obtain na c2 where m: "reassign c1 par = Some (na, c2)" using reassign_Some [OF len] by (metis not_None_eq surj_pair)
    from walk_inv_reassign [OF c1 here m] show ?thesis by (simp add: m walk_inv_enqueue)
  qed
  then show ?thesis
    using Cons port_entries_inv [OF c1] unfolding on_ports_def Let_def es_def [symmetric] c1_def [symmetric]
    by (simp split: option.split)
qed


section \<open>Every sequence of steps\<close>

lemma task_reply_inv:
  assumes inv: "ctl_inv c" and out: "ctl_outstanding c = Some t"
  shows "\<exists>c'. on_task_reply (c\<lparr>ctl_outstanding := None\<rparr>) t p = Some c' \<and> ctl_inv c'"
proof -
  define c0 where "c0 = c\<lparr>ctl_outstanding := None\<rparr>"
  have t: "task_ok t" using inv out by (simp add: ctl_inv_def pending_def)
  have c0: "walk_inv c0" if "ctl_assigned c \<noteq> []"
    using inv that out by (simp add: ctl_inv_def walk_inv_def c0_def pending_def)
  have ack: "walk_inv (on_assign_ack c0 p relay egress a)" if "ctl_assigned c \<noteq> []" "is_board a" for relay egress a
    using walk_inv_record [OF c0 [OF that(1)], of True a relay egress] that c0
    by (auto simp: on_assign_ack_def walk_inv_enqueue split: prod.splits)
  have start: "walk_inv (enqueue (fst (record_node c1 a 0 EGRESS_SELF here)) (TProbe a))"
    if "ctl_assigned c = []" "here \<longrightarrow> is_board a" "ctl_assigned c1 = []" "ctl_outstanding c1 = None" "ctl_queue c1 = ctl_queue c"
    for c1 a here
    using inv that out
    by (intro walk_inv_enqueue) (auto simp: record_node_def position_of_def find_placed_def walk_inv_def ctl_inv_def
      map_ok_def gateway_first_def placed_ok_def pending_def MAX_NODES_def)
  show ?thesis
  proof (cases "ctl_assigned c = []")
    case False
    then have len: "length (ctl_assigned c0) \<le> MAX_NODES" using inv by (simp add: ctl_inv_def map_ok_def c0_def)
    show ?thesis
    proof (cases t)
      case THello
      define c1 where "c1 = c0\<lparr>ctl_guest_addr := pdu_payload p ! 2, ctl_granted := True\<rparr>"
      have c1: "walk_inv c1" using c0 [OF False] by (simp add: c1_def walk_inv_def)
      obtain na c2 where a: "alloc c1 = Some (na, c2)"
        using alloc_Some [of c1] len by (metis c1_def controller.select_convs(4) controller.surjective
            controller.update_convs(1,2) not_None_eq surj_pair)
      have "walk_inv (enqueue c2 (TAssignGateway na))"
        using walk_inv_alloc [OF c1 a] by (simp add: walk_inv_enqueue)
      moreover have "walk_inv (enqueue (fst (record_node c1 b 0 EGRESS_SELF False)) (TProbe b))" for b
        using walk_inv_record [OF c1, of False] by (metis prod.collapse task_ok_probe walk_inv_enqueue)
      ultimately show ?thesis
        using a walk_inv_imp unfolding THello c0_def [symmetric]
        by (auto simp: on_task_reply_def on_hello_reply_def Let_def c1_def [symmetric])
    next
      case (TProbe a)
      then show ?thesis
        using on_ports_inv [OF c0 [OF False]] walk_inv_imp unfolding c0_def [symmetric]
        by (fastforce simp: on_task_reply_def)
    qed (use ack [OF False] t walk_inv_imp in \<open>auto simp: on_task_reply_def c0_def [symmetric]\<close>)
  next
    case True
    then have "is_first_contact t" using inv out by (simp add: ctl_inv_def pending_def)
    then show ?thesis
    proof (cases t)
      case THello
      define c1 where "c1 = c0\<lparr>ctl_guest_addr := pdu_payload p ! 2, ctl_granted := True\<rparr>"
      have e: "ctl_assigned c1 = []" "ctl_queue c1 = ctl_queue c" "ctl_outstanding c1 = None"
        using True by (simp_all add: c1_def c0_def)
      obtain na c2 where a: "alloc c1 = Some (na, c2)"
        using alloc_Some [of c1] e by (metis le0 list.size(3) not_None_eq surj_pair)
      note f = alloc_fresh [OF a]
      have "ctl_inv (enqueue c2 (TAssignGateway na))"
        using inv True f e length_push_quiet [of "ctl_queue c" MAX_TASKS "TAssignGateway na"] out
        by (auto simp: ctl_inv_def pending_def enqueue_def list_all_push_quiet)
      moreover have "ctl_inv (enqueue (fst (record_node c1 b 0 EGRESS_SELF False)) (TProbe b))" for b
        by (rule walk_inv_imp [OF start]) (use e True in simp_all)
      ultimately show ?thesis
        using a unfolding THello c0_def [symmetric]
        by (auto simp: on_task_reply_def on_hello_reply_def Let_def c1_def [symmetric])
    next
      case (TAssignGateway a)
      have "ctl_inv c0" using inv out True by (simp add: ctl_inv_def c0_def pending_def)
      moreover have "ctl_inv (enqueue (fst (record_node c0 a 0 EGRESS_SELF True)) (TProbe a))"
        by (rule walk_inv_imp [OF start]) (use True t TAssignGateway in \<open>simp_all add: c0_def\<close>)
      ultimately show ?thesis
        unfolding TAssignGateway c0_def [symmetric]
        by (auto simp: on_task_reply_def on_assign_ack_def record_node_def split: if_splits)
    qed simp_all
  qed
qed

lemma on_reply_inv:
  assumes "ctl_inv c"
  shows "\<exists>c' b. on_reply c frame = Some (c', b) \<and> ctl_inv c'"
  using assms task_reply_inv [OF assms]
  by (fastforce simp: on_reply_def split: sum.split option.split)

lemma next_request_inv:
  assumes "ctl_inv c" "next_request c = (c', r)"
  shows "ctl_inv c'"
  using assms by (auto simp: next_request_def ctl_inv_def pending_def split: option.splits list.splits)

text \<open>The two steps of the walk, in any order, whatever frames arrive.\<close>

inductive ctl_step :: "controller \<Rightarrow> controller \<Rightarrow> bool" where
  request: "next_request c = (c', r) \<Longrightarrow> ctl_step c c'"
| reply: "on_reply c frame = Some (c', b) \<Longrightarrow> ctl_step c c'"

lemma reachable_inv: "ctl_step\<^sup>*\<^sup>* controller_new c \<Longrightarrow> ctl_inv c"
proof (induction rule: rtranclp_induct)
  case base
  then show ?case
    by (simp add: ctl_inv_def controller_new_def map_ok_def gateway_first_def pending_def push_quiet_def MAX_TASKS_def)
next
  case (step c c')
  from step(2) show ?case
    using next_request_inv [OF step(3)] on_reply_inv [OF step(3)]
    by (cases rule: ctl_step.cases) (metis, metis option.inject prod.inject)
qed

text \<open>C29: The map under every sequence of requests and replies, whatever frames arrive: no two records
  hold one address, the bounds of both vectors hold, an address this walk handed out is a board address,
  the first record is the node on the controller's own link, and the next frame is always processed to
  the end (the address allocator never spins).\<close>

theorem walk_keeps_map:
  assumes "ctl_step\<^sup>*\<^sup>* controller_new c"
  shows "distinct (assigned_addrs c) \<and> length (ctl_assigned c) \<le> MAX_NODES \<and> length (ctl_queue c) \<le> MAX_TASKS \<and>
    (\<forall>a. placed_here c a \<longrightarrow> is_board a) \<and>
    (\<forall>a. gateway_addr c = Some a \<longrightarrow> position_of c a = Some (0, EGRESS_SELF)) \<and>
    (\<forall>frame. on_reply c frame \<noteq> None)"
proof (intro conjI allI)
  have inv: "ctl_inv c" by (rule reachable_inv [OF assms])
  then have m: "map_ok (ctl_assigned c)" by (simp add: ctl_inv_def)
  then show "distinct (assigned_addrs c)" "length (ctl_assigned c) \<le> MAX_NODES"
    by (simp_all add: map_ok_def assigned_addrs_def)
  show "length (ctl_queue c) \<le> MAX_TASKS" using inv by (simp add: ctl_inv_def)
  show "placed_here c a \<longrightarrow> is_board a" for a
    using m by (auto simp: map_ok_def placed_here_def list_all_iff placed_ok_def)
  show "gateway_addr c = Some a \<longrightarrow> position_of c a = Some (0, EGRESS_SELF)" for a
    using m by (auto simp: map_ok_def gateway_addr_def position_of_def find_placed_def gateway_first_def split: list.splits)
  show "on_reply c frame \<noteq> None" for frame using on_reply_inv [OF inv, of frame] by auto
qed


section \<open>Replies are bound to requests\<close>

lemma outstanding_alloc: "alloc c = Some (a, c') \<Longrightarrow> ctl_outstanding c' = ctl_outstanding c"
  by (auto dest: alloc_fresh)

lemma outstanding_reassign: "reassign c old = Some (na, c') \<Longrightarrow> ctl_outstanding c' = ctl_outstanding c"
  by (auto simp: reassign_def Let_def dest: outstanding_alloc split: option.splits prod.splits)

lemma outstanding_kept [simp]:
  "ctl_outstanding (enqueue c t) = ctl_outstanding c"
  "ctl_outstanding (note_host c probed e) = ctl_outstanding c"
  "ctl_outstanding (fst (record_node c a relay egress here)) = ctl_outstanding c"
  by (simp_all add: enqueue_def note_host_def record_node_def split: prod.split)

lemma outstanding_port_entries:
  "port_entries parent c probed es = Some c' \<Longrightarrow> ctl_outstanding c' = ctl_outstanding c"
proof (induction es arbitrary: c probed parent)
  case (Cons e es)
  obtain port kind state naddr where e: "e = (port, kind, state, naddr)" by (cases e)
  show ?case
    using Cons.prems unfolding e port_entries.simps Let_def
    by (auto dest!: Cons.IH dest: outstanding_alloc outstanding_reassign split: if_splits option.splits)
qed simp

lemma outstanding_on_ports: "on_ports c probed p = Some c' \<Longrightarrow> ctl_outstanding c' = ctl_outstanding c"
  unfolding on_ports_def Let_def
  by (auto dest: outstanding_port_entries outstanding_reassign split: if_splits option.splits)

lemma outstanding_task_reply:
  "on_task_reply c t p = Some c' \<Longrightarrow> ctl_outstanding c' = ctl_outstanding c"
proof (cases t)
  case THello
  then show "on_task_reply c t p = Some c' \<Longrightarrow> ctl_outstanding c' = ctl_outstanding c"
    by (auto simp: on_task_reply_def on_hello_reply_def Let_def dest: outstanding_alloc split: if_splits option.splits)
qed (auto simp: on_task_reply_def on_assign_ack_def outstanding_on_ports record_node_def split: if_splits prod.splits)

text \<open>A reply is bound to the request it answers: a frame is consumed exactly when a request is
  outstanding and the frame is a PDU addressed to this controller of the kind, and from the node, that
  request asked for; it then settles that one request. Any other frame leaves the controller as it was,
  and while a request is outstanding no other is sent.\<close>

theorem reply_bound:
  assumes "on_reply c frame = Some (c', consumed)"
  shows "(consumed \<longleftrightarrow> (\<exists>p t. pdu_decode frame = Inr p \<and> ctl_outstanding c = Some t \<and> pdu_dst p = ctl_guest_addr c \<and>
      (case t of
         THello \<Rightarrow> pdu_known p = Some NodeHello \<and> length (pdu_payload p) = 3
       | TProbe a \<Rightarrow> pdu_known p = Some Ports \<and> pdu_src p = a
       | TAssignGateway a \<Rightarrow> pdu_known p = Some AssignAck \<and> pdu_src p = a \<and> (\<exists>s r. pdu_payload p = a # s # r)
       | TAssignNeighbor relay egress a \<Rightarrow> pdu_known p = Some AssignAck \<and> pdu_src p = a \<and> (\<exists>s r. pdu_payload p = a # s # r)))) \<and>
    (if consumed then ctl_outstanding c' = None else c' = c) \<and>
    (ctl_outstanding c \<noteq> None \<longrightarrow> next_request c = (c, None))"
proof (intro conjI)
  have ack: "assign_ack_status p g a \<noteq> None \<longleftrightarrow>
      pdu_dst p = g \<and> pdu_known p = Some AssignAck \<and> pdu_src p = a \<and> (\<exists>s r. pdu_payload p = a # s # r)" for p g a
    by (auto simp: assign_ack_status_def numeral_2_eq_2 Suc_le_length_iff)
  have answers: "answers c t p \<longleftrightarrow> pdu_dst p = ctl_guest_addr c \<and>
      (case t of
         THello \<Rightarrow> pdu_known p = Some NodeHello \<and> length (pdu_payload p) = 3
       | TProbe a \<Rightarrow> pdu_known p = Some Ports \<and> pdu_src p = a
       | TAssignGateway a \<Rightarrow> pdu_known p = Some AssignAck \<and> pdu_src p = a \<and> (\<exists>s r. pdu_payload p = a # s # r)
       | TAssignNeighbor relay egress a \<Rightarrow> pdu_known p = Some AssignAck \<and> pdu_src p = a \<and> (\<exists>s r. pdu_payload p = a # s # r))"
    for t p
    using ack by (cases t) (auto simp: answers_def HELLO_REPLY_LEN_def)
  show "consumed \<longleftrightarrow> (\<exists>p t. pdu_decode frame = Inr p \<and> ctl_outstanding c = Some t \<and> pdu_dst p = ctl_guest_addr c \<and>
      (case t of
         THello \<Rightarrow> pdu_known p = Some NodeHello \<and> length (pdu_payload p) = 3
       | TProbe a \<Rightarrow> pdu_known p = Some Ports \<and> pdu_src p = a
       | TAssignGateway a \<Rightarrow> pdu_known p = Some AssignAck \<and> pdu_src p = a \<and> (\<exists>s r. pdu_payload p = a # s # r)
       | TAssignNeighbor relay egress a \<Rightarrow> pdu_known p = Some AssignAck \<and> pdu_src p = a \<and> (\<exists>s r. pdu_payload p = a # s # r)))"
    unfolding answers [symmetric]
    using assms by (auto simp: on_reply_def split: sum.splits option.splits if_splits)
  show "if consumed then ctl_outstanding c' = None else c' = c"
    using assms by (auto simp: on_reply_def dest!: outstanding_task_reply split: sum.splits option.splits if_splits)
  show "ctl_outstanding c \<noteq> None \<longrightarrow> next_request c = (c, None)" by (auto simp: next_request_def)
qed

section \<open>Moving a node: the map follows\<close>

text \<open>Moving a placed node: the new address is a free board address, every record keeps its place
  with the old address replaced wherever it stood, no request still queued behind the new \<open>ASSIGN\<close> is
  addressed to the old address, and the \<open>ASSIGN\<close> that moves the node (directly, or through its relay) is
  the next to be sent.\<close>

theorem reassign_moves:
  assumes "walk_inv c" "placed_here c old" "reassign c old = Some (na, c')" "length (ctl_queue c) < MAX_TASKS"
  shows "is_board na \<and> na \<notin> set (assigned_addrs c) \<and>
    map (\<lambda>p. (plc_addr p, plc_relay p, plc_egress p, plc_here p)) (ctl_assigned c') =
      map (\<lambda>p. (if plc_addr p = old then na else plc_addr p, if plc_relay p = old then na else plc_relay p,
                plc_egress p, plc_here p)) (ctl_assigned c) \<and>
    (\<exists>relay egress q. position_of c old = Some (relay, egress) \<and>
       ctl_queue c' = (if egress = EGRESS_SELF then TAssignGateway na else TAssignNeighbor relay egress na) # q \<and>
       (\<forall>t\<in>set q. t \<noteq> TProbe old \<and> (\<forall>e a. t \<noteq> TAssignNeighbor old e a)))"
proof -
  have d: "distinct (assigned_addrs c)" using assms(1) by (simp add: walk_inv_def map_ok_def assigned_addrs_def)
  obtain p where p: "find_placed (ctl_assigned c) old = Some p" using placed_here_found [OF d assms(2)] by blast
  from reassign_eq [OF d this assms(3)]
  have b: "is_board na" "na \<notin> set (assigned_addrs c)"
    and a: "ctl_assigned c' = moved_map old na (ctl_assigned c)"
    and q: "ctl_queue c' = move_task p na # map (move_queued old na) (ctl_queue c)"
    using assms(4) by auto
  have "position_of c old = Some (plc_relay p, plc_egress p)" using p by (simp add: position_of_def)
  moreover have "t \<noteq> TProbe old \<and> (\<forall>e a. t \<noteq> TAssignNeighbor old e a)" if queued: "t \<in> set (map (move_queued old na) (ctl_queue c))" for t
  proof -
    have "na \<noteq> old" using b(2) p by (auto simp: assigned_addrs_def find_placed_def find_Some_iff)
    moreover obtain u where "t = move_queued old na u" using queued by auto
    ultimately show ?thesis by (cases u) auto
  qed
  ultimately show ?thesis using b a q by (auto simp: moved_map_def move_task_def)
qed


section \<open>Where the map and the boards part\<close>

fun hands_out :: "task \<Rightarrow> u8 option" where
  "hands_out (TAssignGateway a) = Some a"
| "hands_out (TAssignNeighbor relay egress a) = Some a"
| "hands_out t = None"

lemma hands_out_move [simp]: "hands_out (move_task p na) = Some na"
  by (simp add: move_task_def)

lemma hands_out_queued [simp]: "hands_out (move_queued old na t) = hands_out t"
  by (cases t) simp_all

lemma find_placed_moved:
  assumes "distinct (map plc_addr ps)" "find_placed ps old = Some p" "na \<notin> plc_addr ` set ps"
  shows "find_placed (moved_map old na ps) na = Some (move_relay old na (move_addr old na p))"
  using assms by (induction ps) (auto simp: find_placed_def moved_map_def split: if_splits)

text \<open>A node moved twice before its first \<open>ASSIGN\<close> is sent (a report of two neighbours that hold its old
  and its new address) is left with the wrong one: the map ends with the second address, but the second
  \<open>ASSIGN\<close> is put in front of the first, so the last one the node is sent is the first, which by then
  belongs to a neighbour.\<close>

theorem moved_twice:
  assumes "walk_inv c" "placed_here c old" "length (ctl_queue c) + 2 \<le> MAX_TASKS"
    "reassign c old = Some (n1, c1)" "reassign c1 n1 = Some (n2, c2)"
  shows "n1 \<noteq> n2 \<and> n1 \<notin> set (assigned_addrs c2) \<and> n2 \<in> set (assigned_addrs c2) \<and>
    (\<exists>t1 t2 q. ctl_queue c2 = t2 # t1 # q \<and> hands_out t2 = Some n2 \<and> hands_out t1 = Some n1)"
proof -
  have d: "distinct (assigned_addrs c)" using assms(1) by (simp add: walk_inv_def map_ok_def assigned_addrs_def)
  obtain p where p: "find_placed (ctl_assigned c) old = Some p" using placed_here_found [OF d assms(2)] by blast
  from reassign_eq [OF d p assms(4)]
  have n1: "n1 \<notin> set (assigned_addrs c)" and a1: "ctl_assigned c1 = moved_map old n1 (ctl_assigned c)"
    and q1: "ctl_queue c1 = move_task p n1 # map (move_queued old n1) (ctl_queue c)"
    using assms(3) by auto
  have "walk_inv c1" by (rule walk_inv_reassign [OF assms(1,2,4)])
  then have d1: "distinct (assigned_addrs c1)" by (simp add: walk_inv_def map_ok_def assigned_addrs_def)
  obtain p1 where p1: "find_placed (ctl_assigned c1) n1 = Some p1"
    using find_placed_moved [OF _ p, of n1] d n1 by (auto simp: a1 assigned_addrs_def)
  from reassign_eq [OF d1 p1 assms(5)]
  have n2: "n2 \<notin> set (assigned_addrs c1)" and a2: "ctl_assigned c2 = moved_map n1 n2 (ctl_assigned c1)"
    and q2: "ctl_queue c2 = move_task p1 n2 # map (move_queued n1 n2) (ctl_queue c1)"
    using assms(3) by (auto simp: q1)
  have "n1 \<in> set (assigned_addrs c1)"
    using p1 by (auto simp: assigned_addrs_def find_placed_def find_Some_iff)
  moreover have "n1 \<notin> set (assigned_addrs c2)" "n2 \<in> set (assigned_addrs c2)"
    using calculation n2 by (auto simp: assigned_addrs_def a2 moved_map_def)
  ultimately show ?thesis using n2 by (auto simp: q2 q1)
qed

lemma find_placed_kinds:
  "find_placed (update_first P (\<lambda>q. q\<lparr>plc_kinds := ks\<rparr>) ps) a = None \<longleftrightarrow> find_placed ps a = None"
proof -
  have "map plc_addr (update_first P (\<lambda>q. q\<lparr>plc_kinds := ks\<rparr>) ps) = map plc_addr ps" by (induction ps) auto
  then show ?thesis unfolding find_placed_None by (metis list.set_map)
qed

lemma find_snoc: "find P (xs @ [x]) = (case find P xs of None \<Rightarrow> if P x then Some x else None | Some y \<Rightarrow> Some y)"
  by (induction xs) auto

lemma alloc_from_cong: "(\<And>a. find_placed ps a = None \<longleftrightarrow> find_placed qs a = None) \<Longrightarrow> alloc_from n ps a = alloc_from n qs a"
  by (induction n arbitrary: a) auto

text \<open>The allocator looks at the placed nodes only, not at the addresses queued requests are about to
  hand out: when a report names an unassigned neighbour and then one that already holds the address just
  set aside for the first, the walk places the holder and still sends the other node the same address.\<close>

theorem assigns_held_address:
  assumes "walk_inv c" "alloc c = Some (x, c0)" "length (ctl_assigned c) < MAX_NODES"
    "length (ctl_queue c) + 2 \<le> MAX_TASKS" "parent_of c probed \<noteq> Some x"
    "pdu_payload p = [2, p1, k1, NB_UNASSIGNED, a1, p2, k2, NB_ASSIGNED, x]"
  shows "\<exists>c'. on_ports c probed p = Some c' \<and> position_of c' x = Some (probed, p2) \<and>
    TAssignNeighbor probed p1 x \<in> set (ctl_queue c')"
proof -
  define es where "es = [(p1, k1, NB_UNASSIGNED, a1), (p2, k2, NB_ASSIGNED, x)]"
  define c1 where "c1 = c\<lparr>ctl_assigned := update_first (\<lambda>q. plc_addr q = probed)
      (\<lambda>q. q\<lparr>plc_kinds := note_kinds (replicate MAX_PORTS None) es\<rparr>) (ctl_assigned c)\<rparr>"
  have es: "map_while (port_entry_at (pdu_payload p)) [0..<unat (pdu_payload p ! 0)] = es"
    "List.map_filter (port_entry_at (pdu_payload p)) [0..<unat (pdu_payload p ! 0)] = es"
    by (simp_all add: assms(6) es_def port_entry_at_def upt_rec NB_UNASSIGNED_def NB_ASSIGNED_def NB_STATE_MASK_def
        map_filter_simps)
  have x: "is_board x" "x \<notin> set (assigned_addrs c)" using alloc_fresh [OF assms(2)] by auto
  have nx: "alloc_from 256 (ctl_assigned c) (ctl_next_board c) = Some (x, x + 1)"
    using assms(2) by (auto simp: alloc_def split: option.splits prod.splits dest: alloc_from_Some)
  have "alloc_from n (ctl_assigned c1) a = alloc_from n (ctl_assigned c) a" for n a
    unfolding c1_def by (rule alloc_from_cong) (simp add: find_placed_kinds)
  then have a: "alloc c1 = Some (x, c1\<lparr>ctl_next_board := x + 1\<rparr>)"
    using nx by (simp add: alloc_def c1_def)
  have len: "length (ctl_assigned c1) = length (ctl_assigned c)"
    by (simp add: c1_def)
  have pos: "find_placed (ctl_assigned c1) x = None"
    using x(2) find_placed_None [of "ctl_assigned c" x] by (simp add: c1_def find_placed_kinds assigned_addrs_def)
  have "\<not> is_controller x" using x(1) board_not_controller by blast
  then have run: "port_entries parent c1 probed es =
      Some (enqueue (fst (record_node (note_host (enqueue (c1\<lparr>ctl_next_board := x + 1\<rparr>)
        (TAssignNeighbor probed p1 x)) probed (p2, k2, NB_ASSIGNED, x)) x probed p2 False)) (TProbe x))"
    if "parent \<noteq> Some x" for parent
    using that pos unfolding es_def
    by (auto simp: a NB_UNASSIGNED_def NB_ASSIGNED_def position_of_def enqueue_def note_host_def Let_def)
  have "on_ports c probed p = port_entries (parent_of c probed) c1 probed es"
    using assms(6) unfolding on_ports_def Let_def es c1_def [symmetric]
    by (cases "parent_of c probed") (auto simp: es_def NB_UNASSIGNED_def NB_ASSIGNED_def simp del: port_entries.simps)
  then show ?thesis
    using run [OF assms(5)] pos len assms(3,4)
    by (auto simp: position_of_def record_node_def enqueue_def note_host_def push_quiet_def c1_def find_placed_def
        find_snoc MAX_TASKS_def)
qed


section \<open>Concrete walks\<close>

text \<open>
  The controller that has made first contact with a board at address 5, and the one that has then given
  the unassigned board behind it address 1.
\<close>

fun answer_all :: "controller \<Rightarrow> bytes list \<Rightarrow> controller option" where
  "answer_all c [] = Some c"
| "answer_all c (f # fs) =
     (case on_reply (fst (next_request c)) f of None \<Rightarrow> None | Some (c', b) \<Rightarrow> if b then answer_all c' fs else None)"

lemma answer_all_reachable:
  "answer_all c fs = Some c' \<Longrightarrow> ctl_step\<^sup>*\<^sup>* controller_new c \<Longrightarrow> ctl_step\<^sup>*\<^sup>* controller_new c'"
proof (induction fs arbitrary: c)
  case (Cons f fs)
  obtain c1 b where r: "on_reply (fst (next_request c)) f = Some (c1, b)" "answer_all c1 fs = Some c'"
    using Cons.prems(1) by (auto split: option.splits if_splits)
  have "ctl_step c (fst (next_request c))" by (rule ctl_step.request) (rule surjective_pairing)
  moreover have "ctl_step (fst (next_request c)) c1" by (rule ctl_step.reply) (rule r(1))
  ultimately have "ctl_step\<^sup>*\<^sup>* controller_new c1" using Cons.prems(2) by (meson rtranclp.rtrancl_into_rtrancl)
  then show ?case using Cons.IH [OF r(2)] by blast
qed simp

definition demo_hello :: bytes where "demo_hello = [0x01, 0x05, 0x80, 0x05, 0x01, 0x80]"
definition demo_ports :: bytes where "demo_ports = [0x03, 0x05, 0x80, 0x01, 0x01, 0x00, 0x01, 0x00]"
definition demo_ack :: bytes where "demo_ack = [0x07, 0x01, 0x80, 0x01, 0x00]"

definition at_gateway :: controller where
  "at_gateway =
     \<lparr>ctl_guest_addr = 0x80, ctl_granted = True, ctl_next_board = 0x01,
      ctl_assigned = [\<lparr>plc_addr = 5, plc_relay = 0, plc_egress = 0xFF, plc_here = False, plc_kinds = replicate 4 None\<rparr>],
      ctl_queue = [TProbe 5], ctl_outstanding = None, ctl_host_link = None\<rparr>"

definition one_behind :: controller where
  "one_behind =
     \<lparr>ctl_guest_addr = 0x80, ctl_granted = True, ctl_next_board = 0x02,
      ctl_assigned =
        [\<lparr>plc_addr = 5, plc_relay = 0, plc_egress = 0xFF, plc_here = False, plc_kinds = [None, Some 0, None, None]\<rparr>,
         \<lparr>plc_addr = 1, plc_relay = 5, plc_egress = 1, plc_here = True, plc_kinds = replicate 4 None\<rparr>],
      ctl_queue = [TProbe 1], ctl_outstanding = None, ctl_host_link = None\<rparr>"

lemma answer_hello: "answer_all controller_new [demo_hello] = Some at_gateway"
  by code_simp

lemma answer_ports: "answer_all at_gateway [demo_ports, demo_ack] = Some one_behind"
  by code_simp

lemma answer_append: "answer_all c fs = Some c' \<Longrightarrow> answer_all c (fs @ gs) = answer_all c' gs"
  by (induction c fs rule: answer_all.induct) (auto split: option.splits if_splits)

lemma demo_reachable: "ctl_step\<^sup>*\<^sup>* controller_new at_gateway" "ctl_step\<^sup>*\<^sup>* controller_new one_behind"
proof -
  show "ctl_step\<^sup>*\<^sup>* controller_new at_gateway" by (rule answer_all_reachable [OF answer_hello]) simp
  then show "ctl_step\<^sup>*\<^sup>* controller_new one_behind" by (rule answer_all_reachable [OF answer_ports])
qed

lemma demo_walk_inv: "walk_inv at_gateway" "walk_inv one_behind"
  by (simp_all add: walk_inv_def map_ok_def placed_ok_def gateway_first_def at_gateway_def one_behind_def MAX_NODES_def
      MAX_TASKS_def MAX_PORTS_def EGRESS_SELF_def is_board_def GUEST_FIRST_def)

lemma walk_keeps_map_witness:
  "ctl_step\<^sup>*\<^sup>* controller_new one_behind \<and> distinct (assigned_addrs one_behind) \<and> on_reply one_behind demo_ack \<noteq> None"
  using walk_keeps_map [OF demo_reachable(2)] demo_reachable(2) by blast

lemma reply_bound_witness:
  "\<exists>c'. on_reply (fst (next_request one_behind)) demo_ports = Some (c', False) \<and> c' = fst (next_request one_behind)"
proof -
  have "on_reply (fst (next_request one_behind)) demo_ports = Some (fst (next_request one_behind), False)" by code_simp
  from reply_bound [OF this] this show ?thesis by auto
qed

lemma one_behind_moves: "\<exists>c1 c2. reassign one_behind 1 = Some (2, c1) \<and> reassign c1 2 = Some (3, c2)"
proof -
  have "map_option fst (reassign one_behind 1) = Some 2" by code_simp
  moreover have "(case reassign one_behind 1 of None \<Rightarrow> None | Some (a, c) \<Rightarrow> map_option fst (reassign c 2)) = Some 3"
    by code_simp
  ultimately show ?thesis by (auto split: option.splits)
qed

lemma one_behind_here: "placed_here one_behind 1" "length (ctl_queue one_behind) + 2 \<le> MAX_TASKS"
  by (simp_all add: placed_here_def one_behind_def MAX_TASKS_def)

lemma reassign_moves_witness:
  "\<exists>c'. reassign one_behind 1 = Some (2, c') \<and> (\<exists>q. ctl_queue c' = TAssignNeighbor 5 1 2 # q)"
proof -
  obtain c1 where m: "reassign one_behind 1 = Some (2, c1)" using one_behind_moves by blast
  have "position_of one_behind 1 = Some (5, 1)" by code_simp
  with reassign_moves [OF demo_walk_inv(2) one_behind_here(1) m] one_behind_here(2) m show ?thesis
    by (auto simp: EGRESS_SELF_def)
qed

lemma moved_twice_witness:
  "\<exists>c1 c2 t1 t2 q. reassign one_behind 1 = Some (2, c1) \<and> reassign c1 2 = Some (3, c2) \<and>
     ctl_queue c2 = t2 # t1 # q \<and> hands_out t2 = Some 3 \<and> hands_out t1 = Some 2"
proof -
  obtain c1 c2 where "reassign one_behind 1 = Some (2, c1)" "reassign c1 2 = Some (3, c2)"
    using one_behind_moves by blast
  with moved_twice [OF demo_walk_inv(2) one_behind_here this] show ?thesis by blast
qed

lemma assigns_held_address_witness:
  "\<exists>c'. on_ports at_gateway 5 (pdu_from_op Ports 5 0x80 [2, 1, 0, NB_UNASSIGNED, 0, 2, 0, NB_ASSIGNED, 1]) = Some c' \<and>
     position_of c' 1 = Some (5, 2) \<and> TAssignNeighbor 5 1 1 \<in> set (ctl_queue c')"
proof -
  have "map_option fst (alloc at_gateway) = Some 1" by code_simp
  then obtain c0 where a: "alloc at_gateway = Some (1, c0)" by auto
  have "parent_of at_gateway 5 = None" by code_simp
  then show ?thesis
    using assigns_held_address [OF demo_walk_inv(1) a,
        of 5 "pdu_from_op Ports 5 0x80 [2, 1, 0, NB_UNASSIGNED, 0, 2, 0, NB_ASSIGNED, 1]" 1 0 0 2 0]
    by (simp add: pdu_from_op_def at_gateway_def MAX_NODES_def MAX_TASKS_def)
qed

end
