(* ===== verification/ResponderProps.thy ===== *)
theory ResponderProps
  imports Responder StoreProps
begin

text \<open>
  The properties of the board side of the walk: the armed gate, what a remote write does to the
  configuration, the address a reboot restores, guest addresses, secrets, the probe report and where
  a frame can panic the node.
\<close>

section \<open>Results of a write\<close>

text \<open>What a persist of \<open>v\<close> (or an un-store) makes a later \<open>get_value\<close> answer.\<close>

definition wanted :: "key \<Rightarrow> tagged_value option \<Rightarrow> dyn_error + (tagged_value \<times> stored)" where
  "wanted k v =
     (case lookup_key k of
        None \<Rightarrow> Inl UnknownKey
      | Some d \<Rightarrow> Inr (case v of Some v \<Rightarrow> (v, Stored) | None \<Rightarrow> (def_default d, NotStored)))"

lemma get_value_cong: "live (contents F st' k) = live (contents F st k) \<Longrightarrow> get_value F st' k = get_value F st k"
  by (cases "lookup_key k") (simp_all add: get_value_contents read_value_def)

context flash_backend begin

lemma persist_Ok:
  assumes "ok (store_flash st)" "store_ok F st" "persist F st k v = (st', Inr u)"
  shows "ok (store_flash st')" "store_ok F st'" "get_value F st' k = wanted k v"
    "k' \<noteq> k \<Longrightarrow> get_value F st' k' = get_value F st k'"
proof -
  have "ok (store_flash st') \<and> store_ok F st' \<and> get_value F st' k = wanted k v \<and>
    (k' \<noteq> k \<longrightarrow> get_value F st' k' = get_value F st k')" for k'
  proof (cases v)
    case (Some x)
    then obtain d where d: "lookup_key k = Some d" "value_kind x = def_kind d"
      and a: "append_rec F st k (type_tag (def_kind d)) (value_encode x) = (st', Inr ())"
      using assms(3) by (auto simp: persist_def set_value_cases split: sum.splits dest: unit_result)
    note ap = append_Ok [OF assms(1,2) lookup_key_sound(2) [OF d(1)] a]
    have "get_value F st' k' = get_value F st k'" if "k' \<noteq> k"
      using contents_append [OF ap(3)] that by (intro get_value_cong) simp
    then show ?thesis
      using ap contents_append [OF ap(3)] d Some by (simp add: get_value_contents wanted_def)
  next
    case None
    then have e: "erase_value F st k = (st', Inr u)" using assms(3) by (simp add: persist_def)
    then obtain d where d: "lookup_key k = Some d" by (auto simp: erase_value_cases)
    show ?thesis
    proof (cases "live (contents F st k)")
      case None
      then show ?thesis
        using e d assms(1,2) \<open>v = None\<close>
        by (auto simp: erase_value_cases get_value_contents wanted_def read_value_def)
    next
      case (Some x)
      then have a: "append_rec F st k ERASED_TAG [] = (st', Inr ())"
        using e by (auto simp: erase_value_cases split: sum.splits dest: unit_result)
      note ap = append_Ok [OF assms(1,2) lookup_key_sound(2) [OF d] a]
      have "get_value F st' k' = get_value F st k'" if "k' \<noteq> k"
        using contents_append [OF ap(3)] that by (intro get_value_cong) simp
      then show ?thesis
        using ap contents_append [OF ap(3)] d \<open>v = None\<close>
        by (simp add: get_value_contents wanted_def read_value_def)
    qed
  qed
  then show "ok (store_flash st')" "store_ok F st'" "get_value F st' k = wanted k v"
    "k' \<noteq> k \<Longrightarrow> get_value F st' k' = get_value F st k'"
    by blast+
qed

end

context reliable_flash begin

lemma append_refusal:
  assumes "ok (store_flash st)" "store_ok F st" "append_rec F st k tag v = (st', Inl e)"
  shows "st' = st" "e = Full \<or> e = ValueTooLarge"
proof -
  show "e = Full \<or> e = ValueTooLarge"
    using append_result [OF assms(1,2), of k tag v] assms(3) by (auto split: if_splits)
  then show "st' = st" by (rule append_refused [OF assms(2,3)])
qed

lemma persist_Err:
  assumes "ok (store_flash st)" "store_ok F st" "persist F st k v = (st', Inl e)"
  shows "st' = st \<and> e \<in> {UnknownKey, TypeMismatch, StoreErr Full, StoreErr ValueTooLarge}"
proof (cases v)
  case (Some x)
  then have "set_value F st k x = (st', Inl e)" using assms(3) by (simp add: persist_def)
  then consider "st' = st" "e = UnknownKey \<or> e = TypeMismatch"
    | tag e' where "append_rec F st k tag (value_encode x) = (st', Inl e')" "e = StoreErr e'"
    by (auto simp: set_value_def split: option.splits prod.splits sum.splits if_splits)
  then show ?thesis using append_refusal [OF assms(1,2)] by cases auto
next
  case None
  then have "erase_value F st k = (st', Inl e)" using assms(3) by (simp add: persist_def)
  then consider "st' = st" "e = UnknownKey"
    | e' where "append_rec F st k ERASED_TAG [] = (st', Inl e')" "e = StoreErr e'"
    by (auto simp: erase_value_def split: option.splits prod.splits sum.splits if_splits)
  then show ?thesis using append_refusal [OF assms(1,2)] by cases auto
qed

lemma compact_keeps_values:
  assumes "ok (store_flash st)" "store_ok F st"
  obtains st' where "compact F st = (st', Inr ())" "ok (store_flash st')" "store_ok F st'"
    "\<And>k. get_value F st' k = get_value F st k"
proof -
  note geo = store_ok_geometry [OF assms(2)]
  obtain st' where c: "compact F st = (st', Inr ())" using compact_succeeds [OF assms(1) geo] by blast
  note co = compact_Ok [OF assms(1) geo c]
  have "get_value F st' k = get_value F st k" for k
    using contents_survivors [OF co(3), of k] by (intro get_value_cong) (simp add: live_def split: option.split)
  then show ?thesis using that c co(1,2) by blast
qed

text \<open>One compaction, one retry: how either remote writer ends.\<close>

lemma persist_retry:
  assumes st: "ok (store_flash st)" "store_ok F st"
  obtains (direct) st' where "persist F st k v = (st', Inr ())"
  | (refused) e where "persist F st k v = (st, Inl e)" "e \<noteq> StoreErr Full"
      "e \<in> {UnknownKey, TypeMismatch, StoreErr ValueTooLarge}"
  | (retried) st1 st' where "persist F st k v = (st, Inl (StoreErr Full))" "compact F st = (st1, Inr ())"
      "ok (store_flash st1)" "store_ok F st1" "\<And>k. get_value F st1 k = get_value F st k"
      "persist F st1 k v = (st', Inr ())"
  | (no_space) st1 e where "persist F st k v = (st, Inl (StoreErr Full))" "compact F st = (st1, Inr ())"
      "ok (store_flash st1)" "store_ok F st1" "\<And>k. get_value F st1 k = get_value F st k"
      "persist F st1 k v = (st1, Inl e)" "e \<in> {UnknownKey, TypeMismatch, StoreErr Full, StoreErr ValueTooLarge}"
proof -
  obtain st1 x where p: "persist F st k v = (st1, x)" by fastforce
  show thesis
  proof (cases x)
    case (Inr u)
    then show thesis using p that(1) by simp
  next
    case (Inl e)
    note err = persist_Err [OF st p [unfolded Inl]]
    show thesis
    proof (cases "e = StoreErr Full")
      case False
      then show thesis using p Inl err that(2) by blast
    next
      case True
      obtain st2 where c: "compact F st = (st2, Inr ())" "ok (store_flash st2)" "store_ok F st2"
          "\<And>k. get_value F st2 k = get_value F st k"
        using compact_keeps_values [OF st] by blast
      obtain st3 y where p2: "persist F st2 k v = (st3, y)" by fastforce
      show thesis
      proof (cases y)
        case (Inr u)
        then show thesis using p Inl err True c p2 that(3) by simp
      next
        case (Inl e')
        then show thesis
          using p \<open>x = Inl e\<close> err True c p2 persist_Err [OF c(2,3) p2 [unfolded Inl]] that(4) by blast
      qed
    qed
  qed
qed

end

section \<open>Armed\<close>

lemma apply_write_fields:
  "apply_write F r st k tag bs = (r', st', s) \<Longrightarrow>
    r' = r\<lparr>rsp_config_persisted := rsp_config_persisted r'\<rparr> \<and>
    (rsp_armed r \<longrightarrow> r' = r \<and> st' = st \<and> s = CFG_ARMED)"
  by (auto simp: apply_write_def split: if_splits option.splits prod.splits sum.splits dyn_error.splits store_error.splits)

lemma write_entries_fields:
  "write_entries F r st p off n = (r', st', s) \<Longrightarrow>
    r' = r\<lparr>rsp_config_persisted := rsp_config_persisted r'\<rparr> \<and> (rsp_armed r \<longrightarrow> r' = r \<and> st' = st)"
proof (induction n arbitrary: r st off r' st' s)
  case (Suc n)
  obtain r1 st1 s1 where w: "apply_write F r st (payload_key p off) (p ! (off + 2))
      (take (unat (p ! (off + 3))) (drop (off + 4) p)) = (r1, st1, s1)"
    by (metis prod_cases3)
  note aw = apply_write_fields [OF w]
  show ?case
  proof (cases "length p < off + 4 \<or> length p < off + 4 + unat (p ! (off + 3)) \<or> s1 \<noteq> CFG_OK")
    case True
    then show ?thesis using Suc.prems aw w by (auto simp: Let_def split: if_splits)
  next
    case False
    then have "write_entries F r1 st1 p (off + 4 + unat (p ! (off + 3))) n = (r', st', s)"
      using Suc.prems w by (simp add: Let_def)
    then have ih: "r' = r1\<lparr>rsp_config_persisted := rsp_config_persisted r'\<rparr>" "rsp_armed r1 \<Longrightarrow> r' = r1 \<and> st' = st1"
      using Suc.IH by blast+
    have "r' = r\<lparr>rsp_config_persisted := rsp_config_persisted r1, rsp_config_persisted := rsp_config_persisted r'\<rparr>"
      using ih(1) conjunct1 [OF aw] by metis
    moreover have "r' = r \<and> st' = st" if "rsp_armed r" using aw ih(2) that by simp
    ultimately show ?thesis by simp
  qed
qed auto

text \<open>What no handler of an armed node changes.\<close>

definition same_gate :: "responder \<Rightarrow> responder \<Rightarrow> bool" where
  "same_gate r r' \<longleftrightarrow> rsp_armed r' = rsp_armed r \<and> rsp_addr r' = rsp_addr r \<and>
     rsp_config_persisted r' = rsp_config_persisted r"

lemma same_gate_refl [simp]: "same_gate r r"
  by (simp add: same_gate_def)

lemma on_hello_gate: "on_hello r ingress p out = Some (r', out') \<Longrightarrow> same_gate r r'"
  by (auto simp: on_hello_def grant_guest_def same_gate_def rsp_addr_def Let_def
      split: if_splits option.splits prod.splits)

lemma on_probe_ports_gate: "on_probe_ports r p out = (r', out') \<Longrightarrow> same_gate r r'"
  by (auto simp: on_probe_ports_def same_gate_def rsp_addr_def Let_def)

lemma on_assign_armed: "rsp_armed r \<Longrightarrow> on_assign F r st p out = (r', st', out') \<Longrightarrow> r' = r \<and> st' = st"
  by (auto simp: on_assign_def Let_def split: if_splits)

lemma on_config_write_armed:
  "rsp_armed r \<Longrightarrow> on_config_write F r st p out = Some (r', st', out') \<Longrightarrow> r' = r \<and> st' = st"
  by (auto simp: on_config_write_def Let_def split: if_splits prod.splits option.splits dest!: apply_write_fields)

lemma on_config_write_multi_armed:
  "rsp_armed r \<Longrightarrow> on_config_write_multi F r st p out = (r', st', out') \<Longrightarrow> r' = r \<and> st' = st"
  by (auto simp: on_config_write_multi_def split: if_splits prod.splits dest!: write_entries_fields)

lemma on_config_compact_armed: "rsp_armed r \<Longrightarrow> on_config_compact F r st p out = (st', out') \<Longrightarrow> st' = st"
  by (auto simp: on_config_compact_def)

lemma handle_local_armed:
  assumes "rsp_armed r" "handle_local F r st ingress p out = Some (r', st', out', d)"
  shows "same_gate r r' \<and> st' = st"
proof (cases "opcode_from_u8 (pdu_opcode p)")
  case None
  then show ?thesis using assms(2) by (simp add: handle_local_def)
next
  case (Some op)
  then show ?thesis
    using assms
    by (cases op)
      (auto simp: handle_local_def split: option.splits prod.splits
        dest: on_hello_gate on_probe_ports_gate on_assign_armed on_config_write_armed
          on_config_write_multi_armed on_config_compact_armed)
qed

lemma rsp_ingest_cases:
  assumes "rsp_ingest F r st ingress frame out = x"
  obtains (bad) e where "pdu_decode frame = Inl e" "x = Some (r, st, out, None)"
  | (passed) p f acts where "pdu_decode frame = Inr p" "fwd_ingest (rsp_fwd r) ingress p = (f, acts)"
      "x = Some (r\<lparr>rsp_fwd := f\<rparr>, st, emit_all out acts, None)"
  | (mine) p f acts where "pdu_decode frame = Inr p" "fwd_ingest (rsp_fwd r) ingress p = (f, acts)"
      "local_copy acts = Some p"
      "x = handle_local F (r\<lparr>rsp_fwd := f\<rparr>) st ingress p (emit_all out acts)"
proof (cases "pdu_decode frame")
  case (Inl e)
  then show thesis using assms that(1) by (simp add: rsp_ingest_def)
next
  case (Inr p)
  obtain f acts where fa: "fwd_ingest (rsp_fwd r) ingress p = (f, acts)" by fastforce
  show thesis
  proof (cases "local_copy acts")
    case None
    then show thesis using assms Inr fa that(2) by (simp add: rsp_ingest_def Let_def)
  next
    case (Some d)
    then have "Deliver d \<in> set acts" by (simp add: local_copy_Deliver)
    then have "d = p" using fa by (auto simp: fwd_ingest_def Let_def decide_Deliver)
    then show thesis using assms Inr fa Some that(3) by (simp add: rsp_ingest_def Let_def)
  qed
qed

text \<open>C27: The armed gate is airtight: while the node is armed no received frame, whatever its opcode and
  payload, changes the configuration store or its flash, the node's address or the persisted flag; and
  nothing a frame carries disarms it.\<close>

theorem armed_writes_nothing:
  assumes "rsp_armed r" "rsp_ingest F r st ingress frame out = Some (r', st', out', d)"
  shows "st' = st \<and> rsp_armed r' \<and> rsp_addr r' = rsp_addr r \<and>
    rsp_config_persisted r' = rsp_config_persisted r"
  using assms(2)
proof (cases rule: rsp_ingest_cases)
  case (mine p f acts)
  then have "same_gate (r\<lparr>rsp_fwd := f\<rparr>) r' \<and> st' = st"
    using handle_local_armed [OF _ mine(4) [symmetric]] assms(1) by simp
  moreover have "fwd_addr f = fwd_addr (rsp_fwd r)" using mine(2) by (auto simp: fwd_ingest_def Let_def)
  ultimately show ?thesis using assms(1) by (simp add: same_gate_def rsp_addr_def)
qed (use assms(1) in \<open>auto simp: rsp_addr_def fwd_ingest_def Let_def\<close>)

definition demo_board :: responder where
  "demo_board = responder_new 2 [0, 0, 0, 0] \<lparr>id_class = CLASS_MOTOR, id_mcu = 1, id_fw_ver = 7, id_uid = replicate 12 0\<rparr>"

lemma armed_writes_nothing_witness:
  "\<exists>r' st' out' d. rsp_ingest MockFlash (set_armed demo_board True) (fresh_store 16) 0 [0x06, 0x80, 0, 0xFF, 5] [] =
      Some (r', st', out', d) \<and> st' = fresh_store 16 \<and> rsp_addr r' = 0"
proof -
  let ?I = "rsp_ingest MockFlash (set_armed demo_board True) (fresh_store 16) 0 [0x06, 0x80, 0, 0xFF, 5] []"
  have "?I \<noteq> None" by code_simp
  then obtain r' st' out' d where run: "?I = Some (r', st', out', d)" by auto
  from armed_writes_nothing [OF _ this] run show ?thesis
    by (auto simp: set_armed_def demo_board_def responder_new_def rsp_addr_def fwd_new_def NO_ADDRESS_def)
qed

section \<open>Remote writes\<close>

context reliable_flash begin

lemma apply_write_effect:
  assumes "ok (store_flash st)" "store_ok F st" "\<not> rsp_armed r"
    and "apply_write F r st k tag bs = (r', st', s)"
  shows "ok (store_flash st') \<and> store_ok F st' \<and>
    (\<forall>k'. k' \<noteq> k \<longrightarrow> get_value F st' k' = get_value F st k') \<and>
    (if s = CFG_OK then \<exists>v. parse_write r k tag bs = Some v \<and> get_value F st' k = wanted k v
     else get_value F st' k = get_value F st k) \<and>
    r' = r\<lparr>rsp_config_persisted := s = CFG_OK \<or> rsp_config_persisted r\<rparr> \<and>
    s \<in> {CFG_OK, CFG_BAD, CFG_UNKNOWN_KEY, CFG_TYPE_MISMATCH, CFG_STORE_ERR, CFG_NO_SPACE} \<and>
    (s = CFG_BAD \<longleftrightarrow> parse_write r k tag bs = None)"
proof (cases "parse_write r k tag bs")
  case None
  then show ?thesis using assms by (auto simp: apply_write_def cfg_defs)
next
  case (Some v)
  note ok = persist_Ok
  from assms(1,2) show ?thesis
  proof (cases rule: persist_retry [of st k v])
    case (direct st1)
    then have "r' = r\<lparr>rsp_config_persisted := True\<rparr>" "st' = st1" "s = CFG_OK"
      using assms(3,4) Some by (auto simp: apply_write_def)
    then show ?thesis using ok [OF assms(1,2) direct] Some by (auto simp: cfg_defs)
  next
    case (refused e)
    then have "r' = r" "st' = st" "s = cfg_status e"
      using assms(3,4) Some by (auto simp: apply_write_def split: dyn_error.splits store_error.splits)
    then show ?thesis using refused assms(1,2) Some by (auto simp: cfg_defs)
  next
    case (retried st1 st2)
    then have "r' = r\<lparr>rsp_config_persisted := True\<rparr>" "st' = st2" "s = CFG_OK"
      using assms(3,4) Some by (auto simp: apply_write_def)
    then show ?thesis using ok [OF retried(3,4,6)] retried(5) Some by (auto simp: cfg_defs)
  next
    case (no_space st1 e)
    then have "r' = r" "st' = st1" "s = (if e = StoreErr Full then CFG_NO_SPACE else cfg_status e)"
      using assms(3,4) Some by (auto simp: apply_write_def split: dyn_error.splits store_error.splits)
    then show ?thesis using no_space Some by (auto simp: cfg_defs)
  qed
qed

end

text \<open>What a remote write does, on every backend that obeys the write rules and every store in order:
  status OK exactly when it persisted, and then the key reads what was asked for (the value, or the
  default when the write un-stores it); any other status leaves the key's reading as it was; no other
  key is ever disturbed, although a full page is compacted on the way; the store stays in order; and
  the statuses left are a malformed request, the two registry refusals, a value no page can hold and a
  live set that fills the page, never a failed commit.\<close>

theorem remote_write:
  assumes "reliable_flash F ok" "ok (store_flash st)" "store_ok F st" "\<not> rsp_armed r"
    and "apply_write F r st k tag bs = (r', st', s)"
  shows "ok (store_flash st') \<and> store_ok F st' \<and>
    (\<forall>k'. k' \<noteq> k \<longrightarrow> get_value F st' k' = get_value F st k') \<and>
    (if s = CFG_OK then \<exists>v. parse_write r k tag bs = Some v \<and> get_value F st' k = wanted k v
     else get_value F st' k = get_value F st k) \<and>
    r' = r\<lparr>rsp_config_persisted := s = CFG_OK \<or> rsp_config_persisted r\<rparr> \<and>
    s \<in> {CFG_OK, CFG_BAD, CFG_UNKNOWN_KEY, CFG_TYPE_MISMATCH, CFG_STORE_ERR, CFG_NO_SPACE} \<and>
    (s = CFG_BAD \<longleftrightarrow> parse_write r k tag bs = None)"
  by (rule reliable_flash.apply_write_effect [OF assms])

lemma address_row: "\<exists>d. lookup_key NODE_ADDRESS = Some d \<and> def_kind d = TU8"
  by (simp add: lookup_key_def NODE_ADDRESS_def REGISTRY_def new_row_def row_descr_def)

lemma fresh_address_write: "\<exists>st'. set_value MockFlash (fresh_store 1024) NODE_ADDRESS (VU8 a) = (st', Inr ())"
proof -
  obtain d where d: "lookup_key NODE_ADDRESS = Some d" "def_kind d = TU8" using address_row by blast
  obtain st' where "append_rec MockFlash (fresh_store 1024) NODE_ADDRESS (type_tag TU8) [a] = (st', Inr ())"
    using fresh_append [of 1024 "[a]" NODE_ADDRESS "type_tag TU8"]
    by (auto simp: record_size_def padded_len_def layout_defs)
  then show ?thesis using d by (simp add: set_value_def)
qed

lemma remote_write_witness:
  "\<exists>r' st'. apply_write MockFlash demo_board (fresh_store 1024) NODE_ADDRESS 0x01 [5] = (r', st', CFG_OK) \<and>
     get_value MockFlash st' NODE_ADDRESS = Inr (VU8 5, Stored)"
proof -
  let ?W = "apply_write MockFlash demo_board (fresh_store 1024) NODE_ADDRESS 0x01 [5]"
  obtain d where d: "lookup_key NODE_ADDRESS = Some d" using address_row by blast
  obtain st where st: "set_value MockFlash (fresh_store 1024) NODE_ADDRESS (VU8 5) = (st, Inr ())"
    using fresh_address_write by blast
  have parse: "parse_write demo_board NODE_ADDRESS 0x01 [5] = Some (Some (VU8 5))"
    by (simp add: parse_write_def demo_board_def responder_new_def type_from_tag_def CLASS_MOTOR_def CLASS_BRIDGE_def)
  have run: "?W = (demo_board\<lparr>rsp_config_persisted := True\<rparr>, st, CFG_OK)"
    using st parse by (simp add: apply_write_def persist_def) (simp add: demo_board_def responder_new_def)
  show ?thesis
    using remote_write [OF mock.reliable_flash_axioms _ _ _ run] run parse d
    by (simp add: fresh_ok wanted_def) (simp add: demo_board_def responder_new_def)
qed

section \<open>The address\<close>

lemma reboot_addr: "get_value F st NODE_ADDRESS = Inr (VU8 a, x) \<Longrightarrow> rsp_addr (reboot F r st) = a"
  by (simp add: reboot_def restore_addr_def rsp_addr_def set_addr_def)

lemma wanted_address: "wanted NODE_ADDRESS (Some (VU8 a)) = Inr (VU8 a, Stored)"
  using address_row by (auto simp: wanted_def)

context reliable_flash begin

lemma on_assign_effect:
  assumes "ok (store_flash st)" "store_ok F st" "\<not> rsp_armed r"
    and "2 \<le> length (pdu_payload p)" "pdu_payload p ! 0 = EGRESS_SELF"
    and "on_assign F r st p out = (r', st', out')"
  shows "ok (store_flash st') \<and> store_ok F st' \<and>
    (\<forall>k. k \<noteq> NODE_ADDRESS \<longrightarrow> get_value F st' k = get_value F st k) \<and>
    (rsp_addr r' = pdu_payload p ! 1 \<and> get_value F st' NODE_ADDRESS = Inr (VU8 (pdu_payload p ! 1), Stored) \<and>
       rsp_addr (reboot F r' st') = pdu_payload p ! 1 \<or>
     r' = r \<and> get_value F st' NODE_ADDRESS = get_value F st NODE_ADDRESS)"
proof -
  let ?a = "pdu_payload p ! 1" and ?k = NODE_ADDRESS
  have set_value: "set_value F s k v = persist F s k (Some v)" for s k v by (simp add: persist_def)
  let ?new = "r\<lparr>rsp_fwd := set_addr (rsp_fwd r) ?a\<rparr>"
  have adopt: "rsp_addr ?new = ?a" by (simp add: rsp_addr_def set_addr_def)
  note ok = persist_Ok [where k = ?k and v = "Some (VU8 ?a)", unfolded wanted_address]
  from assms(1,2) show ?thesis
  proof (cases rule: persist_retry [of st ?k "Some (VU8 ?a)"])
    case (direct st1)
    then have "r' = ?new" "st' = st1"
      using assms(3-6) by (auto simp: on_assign_def set_value Let_def)
    then show ?thesis using ok [OF assms(1,2) direct] adopt reboot_addr [OF ok(3) [OF assms(1,2) direct]] by simp
  next
    case (refused e)
    then have "r' = r" "st' = st"
      using assms(3-6) by (auto simp: on_assign_def set_value Let_def split: dyn_error.splits store_error.splits)
    then show ?thesis using assms(1,2) by simp
  next
    case (retried st1 st2)
    then have "r' = ?new" "st' = st2"
      using assms(3-6) by (auto simp: on_assign_def set_value Let_def)
    then show ?thesis using ok [OF retried(3,4,6)] retried(5) adopt reboot_addr [OF ok(3) [OF retried(3,4,6)]] by simp
  next
    case (no_space st1 e)
    then have "r' = r" "st' = st1"
      using assms(3-6) by (auto simp: on_assign_def set_value Let_def)
    then show ?thesis using no_space by simp
  qed
qed

end

text \<open>An \<open>ASSIGN\<close> to this node is all or nothing: on a disarmed node and a backend that obeys the write
  rules, either the new address is adopted at once, persisted, and is what the node comes back with
  after a reboot, or the node keeps its address, in RAM and in the store; every other key reads as
  before in both cases.\<close>

theorem assign_all_or_nothing:
  assumes "reliable_flash F ok" "ok (store_flash st)" "store_ok F st" "\<not> rsp_armed r"
    and "2 \<le> length (pdu_payload p)" "pdu_payload p ! 0 = EGRESS_SELF"
    and "on_assign F r st p out = (r', st', out')"
  shows "ok (store_flash st') \<and> store_ok F st' \<and>
    (\<forall>k. k \<noteq> NODE_ADDRESS \<longrightarrow> get_value F st' k = get_value F st k) \<and>
    (rsp_addr r' = pdu_payload p ! 1 \<and> get_value F st' NODE_ADDRESS = Inr (VU8 (pdu_payload p ! 1), Stored) \<and>
       rsp_addr (reboot F r' st') = pdu_payload p ! 1 \<or>
     r' = r \<and> get_value F st' NODE_ADDRESS = get_value F st NODE_ADDRESS)"
  by (rule reliable_flash.on_assign_effect [OF assms])

lemma assign_all_or_nothing_witness:
  "\<exists>r' st' out'. on_assign MockFlash demo_board (fresh_store 1024)
      \<lparr>pdu_opcode = 6, pdu_src = 0x80, pdu_dst = 0, pdu_payload = [0xFF, 5]\<rparr> [] = (r', st', out') \<and>
    rsp_addr (reboot MockFlash r' st') = 5"
proof -
  let ?p = "\<lparr>pdu_opcode = 6, pdu_src = 0x80, pdu_dst = 0, pdu_payload = [0xFF, 5]\<rparr>"
  obtain st where st: "set_value MockFlash (fresh_store 1024) NODE_ADDRESS (VU8 5) = (st, Inr ())"
    using fresh_address_write by blast
  have off: "\<not> rsp_armed demo_board" by (simp add: demo_board_def responder_new_def)
  obtain out' where run: "on_assign MockFlash demo_board (fresh_store 1024) ?p [] =
      (demo_board\<lparr>rsp_fwd := set_addr (rsp_fwd demo_board) 5\<rparr>, st, out')"
    using st off by (simp add: on_assign_def EGRESS_SELF_def)
  have "rsp_addr demo_board \<noteq> 5" by (simp add: demo_board_def responder_new_def rsp_addr_def fwd_new_def NO_ADDRESS_def)
  then have "demo_board\<lparr>rsp_fwd := set_addr (rsp_fwd demo_board) 5\<rparr> \<noteq> demo_board"
    by (auto simp: rsp_addr_def set_addr_def dest: arg_cong [where f = "\<lambda>r. fwd_addr (rsp_fwd r)"])
  then show ?thesis
    using assign_all_or_nothing [OF mock.reliable_flash_axioms _ _ off _ _ run] run
    by (simp add: fresh_ok EGRESS_SELF_def)
qed

section \<open>Guest addresses\<close>

lemma low_nibble: "unat (a AND 0x0F :: u8) < 16"
proof -
  have "unat (a AND 0x0F) \<le> unat (0x0F :: u8)"
    by (rule word_and_le1 [THEN word_le_nat_alt [THEN iffD1]])
  then show ?thesis by simp
qed

lemma unat_byte: "k < 256 \<Longrightarrow> unat (of_nat k :: u8) = k"
  by (subst unat_of_nat) simp

lemma guest_slice_nat:
  "unat (fst (guest_slice addr)) = 0x80 + 8 * unat (addr AND 0x0F)"
  "unat (snd (guest_slice addr)) = min (127 - 8 * unat (addr AND 0x0F)) 8"
proof -
  define n where "n = unat (addr AND 0x0F)"
  have n: "n < 16" unfolding n_def by (rule low_nibble)
  have w: "addr AND 0x0F = of_nat n" by (simp add: n_def)
  have f: "fst (guest_slice addr) = of_nat (0x80 + 8 * n)"
    by (simp add: guest_slice_def Let_def GUEST_FIRST_def GUEST_SLICE_def w)
  show "unat (fst (guest_slice addr)) = 0x80 + 8 * unat (addr AND 0x0F)"
    unfolding f n_def [symmetric] using n by (intro unat_byte) simp
  have "GUEST_LAST - fst (guest_slice addr) + 1 = of_nat (127 - 8 * n)"
    unfolding f using n by (simp add: GUEST_LAST_def of_nat_diff)
  moreover have "unat (of_nat (127 - 8 * n) :: u8) = 127 - 8 * n" by (rule unat_byte) simp
  ultimately show "unat (snd (guest_slice addr)) = min (127 - 8 * unat (addr AND 0x0F)) 8"
    by (simp add: guest_slice_def Let_def GUEST_SLICE_def min_def word_le_nat_alt n_def [symmetric])
qed

text \<open>The addresses \<open>n\<close> consecutive first contacts are granted.\<close>

fun grants :: "responder \<Rightarrow> nat \<Rightarrow> u8 list" where
  "grants r 0 = []"
| "grants r (Suc n) = (case grant_guest r of (r, a) \<Rightarrow> a # grants r n)"

lemma grant_guest_nat:
  assumes "grant_guest r = (r', a)"
  defines "base \<equiv> 0x80 + 8 * unat (rsp_addr r AND 0x0F)"
    and "len \<equiv> min (127 - 8 * unat (rsp_addr r AND 0x0F)) 8"
  shows "rsp_addr r' = rsp_addr r" "unat a = base + unat (rsp_guest_slot r) mod len"
    "unat (rsp_guest_slot r') = (unat (rsp_guest_slot r) + 1) mod len"
proof -
  obtain first ln where gs: "guest_slice (rsp_addr r) = (first, ln)" by fastforce
  have fl: "unat first = base" "unat ln = len"
    using guest_slice_nat [of "rsp_addr r"] gs by (simp_all add: base_def len_def)
  have n: "unat (rsp_addr r AND 0x0F) < 16" by (rule low_nibble)
  then have len: "0 < len" "len \<le> 8" "base + len \<le> 255" by (auto simp: len_def base_def)
  let ?slot = "rsp_guest_slot r mod ln"
  have ra: "r' = r\<lparr>rsp_guest_slot := (?slot + 1) mod ln\<rparr>" "a = first + ?slot"
    using assms(1) gs by (auto simp: grant_guest_def Let_def)
  show "rsp_addr r' = rsp_addr r" by (simp add: ra rsp_addr_def)
  have slot: "unat ?slot = unat (rsp_guest_slot r) mod len" by (simp add: unat_mod fl)
  then have lt: "unat ?slot < len" using len by simp
  show "unat a = base + unat (rsp_guest_slot r) mod len"
  proof -
    have "unat first + unat ?slot < 2 ^ LENGTH(8)" using lt len fl by simp
    then show ?thesis unfolding ra using slot fl by (simp add: unat_add_lem [THEN iffD1])
  qed
  have "unat (?slot + 1) = unat ?slot + 1" using lt len by (subst unat_add_lem [THEN iffD1]) auto
  then show "unat (rsp_guest_slot r') = (unat (rsp_guest_slot r) + 1) mod len"
    by (simp add: ra unat_mod fl slot mod_simps)
qed

lemma grants_nth:
  fixes r :: responder
  defines "base \<equiv> 0x80 + 8 * unat (rsp_addr r AND 0x0F)"
    and "len \<equiv> min (127 - 8 * unat (rsp_addr r AND 0x0F)) 8"
  shows "map unat (grants r n) = map (\<lambda>i. base + (unat (rsp_guest_slot r) + i) mod len) [0..<n]"
  unfolding base_def len_def
proof (induction n arbitrary: r)
  case (Suc n)
  obtain r' a where g: "grant_guest r = (r', a)" by fastforce
  note gn = grant_guest_nat [OF g]
  have "[0..<Suc n] = 0 # map Suc [0..<n]" by (simp only: map_Suc_upt upt_conv_Cons zero_less_Suc)
  then show ?case using Suc.IH [of r'] gn g by (simp add: mod_simps)
qed simp

lemma mod_add_inj:
  assumes "i < len" "j < len" "(s + i) mod len = (s + j) mod (len :: nat)"
  shows "i = j"
proof -
  have aux: "i' = j'" if "i' \<le> j'" "j' < len" "(s + i') mod len = (s + j') mod len" for i' j'
  proof -
    have "len dvd (s + j') - (s + i')" using that by (subst mod_eq_dvd_iff_nat [symmetric]) auto
    then have "len dvd j' - i'" by simp
    then show ?thesis using that by (auto dest: dvd_imp_le)
  qed
  show ?thesis using aux [of i j] aux [of j i] assms by (cases "i \<le> j") auto
qed

text \<open>Guest grants never leave the guest range: however many controllers make first contact and whatever
  the slot counter held, each granted address is a controller address of the eight-address slice the
  low nibble of the node's own address selects (so nodes whose low nibbles differ never grant the same
  one), never a board address, broadcast or the no-address; and the grants only repeat after the slice
  is used up (seven addresses in the top slice).\<close>

theorem guest_grants:
  "(\<forall>a \<in> set (grants r n). is_controller a \<and> (unat a - 0x80) div 8 = unat (rsp_addr r AND 0x0F)) \<and>
   (n \<le> unat (snd (guest_slice (rsp_addr r))) \<longrightarrow> distinct (grants r n))"
proof -
  define nib where "nib = unat (rsp_addr r AND 0x0F)"
  define len where "len = min (127 - 8 * nib) 8"
  have n16: "nib < 16" unfolding nib_def by (rule low_nibble)
  then have len: "0 < len" "len \<le> 8" "8 * nib + len \<le> 127" by (auto simp: len_def)
  note nth = grants_nth [of r n, folded nib_def, folded len_def]
  have "is_controller a \<and> (unat a - 0x80) div 8 = nib" if "a \<in> set (grants r n)" for a
  proof -
    have "unat a \<in> set (map unat (grants r n))" using that by auto
    then obtain i where "unat a = 0x80 + 8 * nib + i mod len" unfolding nth by auto
    then obtain j where a: "unat a = 0x80 + 8 * nib + j" and j: "j < len" using len(1) mod_less_divisor by blast
    have "0x80 \<le> unat a" "unat a \<le> 0xFE" "(unat a - 0x80) div 8 = nib"
      using j len unfolding a by simp_all
    then show ?thesis by (simp add: is_controller_def GUEST_FIRST_def GUEST_LAST_def word_le_nat_alt)
  qed
  moreover have "distinct (grants r n)" if "n \<le> unat (snd (guest_slice (rsp_addr r)))"
  proof -
    have n: "n \<le> len" using that guest_slice_nat(2) [of "rsp_addr r"] by (simp add: nib_def len_def)
    have "i = j" if "i < n" "j < n" "(s + i) mod len = (s + j) mod len" for i j s :: nat
      using mod_add_inj [OF _ _ that(3)] that n by simp
    then have "inj_on (\<lambda>i. 0x80 + 8 * nib + (unat (rsp_guest_slot r) + i) mod len) {0..<n}"
      by (intro inj_onI) auto
    then have "distinct (map unat (grants r n))" unfolding nth by (simp add: distinct_map)
    then show ?thesis by (simp add: distinct_map)
  qed
  ultimately show ?thesis by (simp add: nib_def)
qed

lemma guest_grants_witness: "distinct (grants demo_board 8) \<and> grants demo_board 2 = [0x80, 0x81]"
proof
  have "unat (snd (guest_slice (rsp_addr demo_board))) = 8"
    by (simp add: guest_slice_nat demo_board_def responder_new_def rsp_addr_def fwd_new_def NO_ADDRESS_def)
  then show "distinct (grants demo_board 8)" using guest_grants [of demo_board 8] by simp
  show "grants demo_board 2 = [0x80, 0x81]" by code_simp
qed

section \<open>Secrets\<close>

text \<open>Two stores that differ only in what their stored secrets are.\<close>

definition same_but_secrets :: "'f flash_ops \<Rightarrow> 'f store \<Rightarrow> 'f store \<Rightarrow> bool" where
  "same_but_secrets F st1 st2 \<longleftrightarrow>
     (\<forall>k. get_value F st1 k = get_value F st2 k \<or>
       (field_id k \<in> set SECRET \<and> (\<exists>v1 v2. get_value F st1 k = Inr (v1, Stored) \<and> get_value F st2 k = Inr (v2, Stored))))"

lemma read_reply_secret:
  assumes "same_but_secrets F st1 st2"
  shows "read_reply F r st1 k = read_reply F r st2 k"
    "s \<noteq> CFG_OK \<Longrightarrow> write_reply F r st1 k s = write_reply F r st2 k s"
proof -
  have "get_value F st1 k = get_value F st2 k \<or>
      (field_id k \<in> set SECRET \<and> (\<exists>v1 v2. get_value F st1 k = Inr (v1, Stored) \<and> get_value F st2 k = Inr (v2, Stored)))"
    using assms unfolding same_but_secrets_def by blast
  then show "read_reply F r st1 k = read_reply F r st2 k"
    by (auto simp: read_reply_def read_answer_def)
  show "write_reply F r st1 k s = write_reply F r st2 k s" if "s \<noteq> CFG_OK"
    using that by (auto simp: write_reply_def Let_def split: sum.split)
qed

definition shown :: "'f handled \<Rightarrow> (responder \<times> emission list \<times> delivered_pdu option) option" where
  "shown x = map_option (\<lambda>(r, st, out, d). (r, out, d)) x"

lemma handle_local_secret:
  assumes "same_but_secrets F st1 st2"
    and "rsp_armed r \<or> opcode_from_u8 (pdu_opcode p) \<notin> Some ` {ConfigWrite, ConfigWriteMulti, ConfigCompact, Assign}"
  shows "shown (handle_local F r st1 ingress p out) = shown (handle_local F r st2 ingress p out)"
proof (cases "opcode_from_u8 (pdu_opcode p)")
  case None
  then show ?thesis by (simp add: handle_local_def shown_def)
next
  case (Some op)
  note rr = read_reply_secret [OF assms(1)]
  have multi: "rsp_armed r \<Longrightarrow> write_entries F r st pl off n =
      (r, st, snd (snd (write_entries F r st pl off n)))" for st pl off n
    using write_entries_fields [of F r st pl off n] by (metis prod.collapse)
  have status: "rsp_armed r \<Longrightarrow> snd (snd (write_entries F r st1 pl off n)) = snd (snd (write_entries F r st2 pl off n))"
    for pl off n
    by (cases n) (simp_all add: Let_def apply_write_def cfg_defs)
  show ?thesis
  proof (cases op)
    case ConfigWriteMulti
    then have armed: "rsp_armed r" using assms(2) Some by auto
    let ?n = "unat (pdu_payload p ! 0)" and ?pl = "pdu_payload p"
    obtain s where "write_entries F r st1 ?pl 1 ?n = (r, st1, s)" "write_entries F r st2 ?pl 1 ?n = (r, st2, s)"
      using multi [OF armed] status [OF armed] by metis
    then show ?thesis
      using Some ConfigWriteMulti by (simp add: handle_local_def shown_def on_config_write_multi_def)
  qed (use Some assms(2) rr in \<open>auto simp: handle_local_def shown_def on_hello_def on_config_read_def
      on_config_write_def on_config_compact_def on_assign_def apply_write_def cfg_defs Let_def
      split: option.splits prod.splits\<close>)
qed

text \<open>No frame reads a secret back: for two nodes in the same state whose stores differ only in the bytes
  of stored secrets, every frame that writes nothing (and, while armed, every frame at all) makes both
  answer with exactly the same emissions and the same hand-back.\<close>

theorem secrets_unreadable:
  assumes "same_but_secrets F st1 st2"
    and "rsp_armed r \<or> (\<forall>p. pdu_decode frame = Inr p \<longrightarrow>
      opcode_from_u8 (pdu_opcode p) \<notin> Some ` {ConfigWrite, ConfigWriteMulti, ConfigCompact, Assign})"
  shows "shown (rsp_ingest F r st1 ingress frame out) = shown (rsp_ingest F r st2 ingress frame out)"
proof (cases "pdu_decode frame")
  case (Inr p)
  obtain f acts where fa: "fwd_ingest (rsp_fwd r) ingress p = (f, acts)" by fastforce
  have "d = p" if "local_copy acts = Some d" for d
    using local_copy_Deliver [OF that] fa by (auto simp: fwd_ingest_def Let_def decide_Deliver)
  moreover have "shown (handle_local F (r\<lparr>rsp_fwd := f\<rparr>) st1 ingress p (emit_all out acts)) =
      shown (handle_local F (r\<lparr>rsp_fwd := f\<rparr>) st2 ingress p (emit_all out acts))"
    using assms(2) Inr by (intro handle_local_secret [OF assms(1)]) auto
  ultimately show ?thesis
    using Inr fa by (auto simp: rsp_ingest_def Let_def shown_def split: option.split)
qed (simp add: rsp_ingest_def shown_def)

definition demo_pass :: key where
  "demo_pass = \<lparr>field_id = WIFI_PASS_ID, key_index = 0\<rparr>"

lemma pass_store:
  "\<exists>st. get_value MockFlash st demo_pass = Inr (VStr [b], Stored) \<and>
    (\<forall>k. k \<noteq> demo_pass \<longrightarrow> get_value MockFlash st k = get_value MockFlash (fresh_store 1024) k)"
proof -
  have row: "\<exists>d. lookup_key demo_pass = Some d \<and> def_kind d = TStr"
    by (simp add: lookup_key_def demo_pass_def WIFI_PASS_ID_def REGISTRY_def new_row_def row_descr_def)
  then obtain d where d: "lookup_key demo_pass = Some d" "def_kind d = TStr" by blast
  obtain st where "append_rec MockFlash (fresh_store 1024) demo_pass (type_tag TStr) [b] = (st, Inr ())"
    using fresh_append [of 1024 "[b]" demo_pass "type_tag TStr"]
    by (auto simp: record_size_def padded_len_def layout_defs)
  then have p: "persist MockFlash (fresh_store 1024) demo_pass (Some (VStr [b])) = (st, Inr ())"
    using d by (simp add: persist_def set_value_def)
  have f: "mock_ok (store_flash (fresh_store 1024))" "store_ok MockFlash (fresh_store 1024)"
    by (simp_all add: fresh_ok)
  show ?thesis using mock.persist_Ok [OF f p] d by (auto simp: wanted_def)
qed

lemma secrets_unreadable_witness:
  "\<exists>st1 st2. get_value MockFlash st1 demo_pass = Inr (VStr [0x41], Stored) \<and>
    get_value MockFlash st2 demo_pass = Inr (VStr [0x42], Stored) \<and>
    shown (rsp_ingest MockFlash demo_board st1 0 [0x30, 0x80, 0, 0x04, 0] []) =
    shown (rsp_ingest MockFlash demo_board st2 0 [0x30, 0x80, 0, 0x04, 0] [])"
proof -
  obtain st1 st2 where st1: "get_value MockFlash st1 demo_pass = Inr (VStr [0x41], Stored)"
      "\<forall>k. k \<noteq> demo_pass \<longrightarrow> get_value MockFlash st1 k = get_value MockFlash (fresh_store 1024) k"
    and st2: "get_value MockFlash st2 demo_pass = Inr (VStr [0x42], Stored)"
      "\<forall>k. k \<noteq> demo_pass \<longrightarrow> get_value MockFlash st2 k = get_value MockFlash (fresh_store 1024) k"
    using pass_store by blast
  have "same_but_secrets MockFlash st1 st2"
    unfolding same_but_secrets_def
  proof
    fix k
    show "get_value MockFlash st1 k = get_value MockFlash st2 k \<or>
      (field_id k \<in> set SECRET \<and>
       (\<exists>v1 v2. get_value MockFlash st1 k = Inr (v1, Stored) \<and> get_value MockFlash st2 k = Inr (v2, Stored)))"
      using st1 st2 by (cases "k = demo_pass") (simp_all add: demo_pass_def SECRET_def)
  qed
  then have "shown (rsp_ingest MockFlash demo_board st1 0 [0x30, 0x80, 0, 0x04, 0] []) =
      shown (rsp_ingest MockFlash demo_board st2 0 [0x30, 0x80, 0, 0x04, 0] [])"
    by (rule secrets_unreadable) (auto simp: pdu_decode_def PDU_HEADER_LEN_def opcode_from_u8_def)
  then show ?thesis using st1(1) st2(1) by blast
qed

section \<open>Panics and emissions\<close>

lemma emits_ok_handle:
  assumes "emits_ok out" "handle_local F r st ingress p out = Some (r', st', out', d)"
  shows "emits_ok out'"
proof (cases "opcode_from_u8 (pdu_opcode p)")
  case None
  then show ?thesis using assms by (simp add: handle_local_def)
next
  case (Some op)
  then show ?thesis
    using assms
    by (cases op)
      (auto simp: handle_local_def on_hello_def on_probe_ports_def on_assign_def on_config_read_def
        on_config_write_def on_config_write_multi_def on_config_compact_def reply_config_def Let_def
        split: option.splits prod.splits if_splits)
qed

lemma emits_ok_ingest:
  assumes "emits_ok out" "rsp_ingest F r st ingress frame out = Some (r', st', out', d)"
  shows "emits_ok out'"
  using assms(2)
proof (cases rule: rsp_ingest_cases)
  case (mine p f acts)
  then show ?thesis using emits_ok_handle [OF _ mine(4) [symmetric]] assms(1) by blast
qed (use assms(1) in auto)

lemma default_short: "lookup_key k = Some d \<Longrightarrow> length (value_encode (def_default d)) \<le> MAX_PDU"
proof -
  assume "lookup_key k = Some d"
  moreover have "list_all (\<lambda>e. length (value_encode (def_default (row_descr e))) \<le> MAX_PDU) REGISTRY"
    by (simp add: REGISTRY_def new_row_def row_descr_def MAX_PDU_def BYTES_DEFAULTS_def nth_Cons le32_def le16_def)
  ultimately show ?thesis by (auto elim!: lookup_key_Some simp: list_all_iff)
qed

lemma decode_short: "value_decode kind bs = Some v \<Longrightarrow> length (value_encode v) \<le> max 8 (length bs)"
  by (cases kind) (auto simp: fixed_def split: list.splits if_splits)

definition short_values :: "'f flash_ops \<Rightarrow> responder \<Rightarrow> 'f store \<Rightarrow> bool" where
  "short_values F r st \<longleftrightarrow>
     (\<forall>k v x. get_value F st k = Inr (v, x) \<longrightarrow> length (value_encode v) \<le> MAX_PDU) \<and>
     (\<forall>name. rsp_default_name r = Some name \<longrightarrow> length name \<le> MAX_PDU)"

lemma short_replies:
  assumes "short_values F r st"
  shows "read_reply F r st k \<noteq> None" "write_reply F r st k s \<noteq> None"
proof -
  have "length (value_encode v) \<le> MAX_PDU" if "read_answer F r st k = Inr (v, x)" for v x
    using assms that unfolding short_values_def
    by (fastforce simp: read_answer_def split: sum.splits prod.splits stored.splits option.splits if_splits)
  then show "read_reply F r st k \<noteq> None" "write_reply F r st k s \<noteq> None"
    by (auto simp: read_reply_def write_reply_def push_value_def value_encode_into_def Let_def split: sum.split)
qed

lemma local_copy_found:
  assumes "Deliver p \<in> set acts" "\<forall>d. Deliver d \<in> set acts \<longrightarrow> d = p" "pdu_encode p MAX_PDU = Inr bs"
  shows "local_copy acts = Some p"
  using assms(1,2)
proof (induction acts rule: local_copy.induct)
  case (3 d acts)
  then have "d = p" by (meson list.set_intros(1))
  then show ?case using assms(3) pdu_decode_encode [OF assms(3)] by simp
next
  case (2 q d acts)
  have "Deliver p \<in> set acts" using 2(2) by simp
  then have "local_copy acts = Some p" by (rule 2(1)) (meson 2(3) list.set_intros(2))
  then show ?case by simp
qed simp

lemma parse_write_short:
  assumes "parse_write r k tag bs = Some (Some v)" "length bs \<le> MAX_PDU"
  shows "length (value_encode v) \<le> MAX_PDU"
proof -
  obtain kind where "value_decode kind bs = Some v"
    using assms(1) by (auto simp: parse_write_def split: if_splits option.splits)
  then show ?thesis using decode_short [of kind bs v] assms(2) by (simp add: MAX_PDU_def)
qed

context reliable_flash begin

lemma apply_write_short:
  assumes st: "ok (store_flash st)" "store_ok F st" and short: "short_values F r st" and len: "length bs \<le> MAX_PDU"
    and w: "apply_write F r st k tag bs = (r', st', s)"
  shows "short_values F r' st'"
proof (cases "rsp_armed r")
  case True
  then show ?thesis using w short by (simp add: apply_write_def)
next
  case False
  note e = apply_write_effect [OF st False w]
  have name: "rsp_default_name r' = rsp_default_name r" using e by (metis responder.select_convs(4) responder.surjective responder.update_convs(9))
  have "length (value_encode v) \<le> MAX_PDU" if g: "get_value F st' k' = Inr (v, x)" for k' v x
  proof (cases "get_value F st' k' = get_value F st k'")
    case True
    then show ?thesis using short g unfolding short_values_def by metis
  next
    case False
    then have "k' = k" and "s = CFG_OK" using e by (metis, metis)
    then obtain w where w: "parse_write r k tag bs = Some w" "get_value F st' k = wanted k w" using e by auto
    then have "wanted k w = Inr (v, x)" using g \<open>k' = k\<close> by simp
    then show ?thesis
      using parse_write_short [OF _ len] w(1) default_short by (auto simp: wanted_def split: option.splits)
  qed
  then show ?thesis using short name unfolding short_values_def by metis
qed

lemma handle_local_None:
  assumes st: "ok (store_flash st)" "store_ok F st" and short: "short_values F r st" and len: "length (pdu_payload p) \<le> MAX_PDU"
  shows "handle_local F r st ingress p out = None \<longleftrightarrow>
    opcode_from_u8 (pdu_opcode p) = Some NodeHello \<and> pdu_payload p = [] \<and> rsp_probe r \<noteq> None \<and> unat ingress < MAX_PORTS"
proof (cases "opcode_from_u8 (pdu_opcode p)")
  case (Some op)
  show ?thesis
  proof (cases op)
    case NodeHello
    then show ?thesis
      using Some by (auto simp: handle_local_def on_hello_def Let_def split: option.splits prod.splits if_splits)
  next
    case ConfigWrite
    obtain r' st' s where w: "apply_write F r st (payload_key (pdu_payload p) 0) (pdu_payload p ! 2)
        (drop CONFIG_WRITE_HEAD (pdu_payload p)) = (r', st', s)"
      by (metis prod_cases3)
    have "short_values F r' st'" using apply_write_short [OF st short _ w] len by simp
    then obtain resp where "write_reply F r' st' (payload_key (pdu_payload p) 0) s = Some resp"
      using short_replies(2) by blast
    then show ?thesis
      using Some ConfigWrite w by (simp add: handle_local_def on_config_write_def Let_def)
  next
    case ConfigRead
    obtain resp where "read_reply F r st (payload_key (pdu_payload p) 0) = Some resp"
      using short_replies(1) [OF short] by blast
    with ConfigRead show ?thesis
      using Some by (simp add: handle_local_def on_config_read_def)
  qed (use Some in \<open>auto simp: handle_local_def split: prod.splits\<close>)
qed (simp add: handle_local_def)

lemma rsp_ingest_None:
  assumes st: "ok (store_flash st)" "store_ok F st" and short: "short_values F r st"
  shows "rsp_ingest F r st ingress frame out = None \<longleftrightarrow>
    (\<exists>p. pdu_decode frame = Inr p \<and> length frame \<le> MAX_PDU \<and> pdu_dst p \<in> {NO_ADDRESS, rsp_addr r, BROADCAST} \<and>
      opcode_from_u8 (pdu_opcode p) = Some NodeHello \<and> pdu_payload p = [] \<and>
      rsp_probe r \<noteq> None \<and> unat ingress < MAX_PORTS)"
proof (cases "pdu_decode frame")
  case (Inl e)
  then show ?thesis by (simp add: rsp_ingest_def)
next
  case (Inr p)
  obtain f acts where fa: "fwd_ingest (rsp_fwd r) ingress p = (f, acts)" by fastforce
  have acts: "acts = decide f (Some ingress) p" and addr: "fwd_addr f = rsp_addr r"
    using fa by (auto simp: fwd_ingest_def Let_def rsp_addr_def)
  have all: "\<forall>d. Deliver d \<in> set acts \<longrightarrow> d = p" by (simp add: acts decide_Deliver)
  have dst: "Deliver p \<in> set acts \<longleftrightarrow> pdu_dst p \<in> {NO_ADDRESS, rsp_addr r, BROADCAST}"
    by (auto simp: acts decide_Deliver addr)
  have copy: "local_copy acts = (if Deliver p \<in> set acts \<and> length frame \<le> MAX_PDU then Some p else None)"
  proof (cases "Deliver p \<in> set acts \<and> length frame \<le> MAX_PDU")
    case True
    then show ?thesis using local_copy_found [OF _ all] pdu_encode_decode [OF Inr] by auto
  next
    case False
    have "length frame = length (pdu_payload p) + 3"
      using Inr by (auto simp: pdu_decode_def PDU_HEADER_LEN_def split: if_splits)
    moreover have "d = p \<and> Deliver p \<in> set acts \<and> length (pdu_payload p) + 3 \<le> MAX_PDU"
      if "local_copy acts = Some d" for d
      using local_copy_Deliver [OF that] all by blast
    ultimately have "local_copy acts = None"
      using False by (cases "local_copy acts") simp_all
    then show ?thesis using False by simp
  qed
  have "short_values F (r\<lparr>rsp_fwd := f\<rparr>) st" using short by (simp add: short_values_def)
  moreover have "length (pdu_payload p) \<le> MAX_PDU" if "length frame \<le> MAX_PDU"
    using that Inr by (auto simp: pdu_decode_def split: if_splits)
  ultimately have "handle_local F (r\<lparr>rsp_fwd := f\<rparr>) st ingress p (emit_all out acts) = None \<longleftrightarrow>
      opcode_from_u8 (pdu_opcode p) = Some NodeHello \<and> pdu_payload p = [] \<and> rsp_probe r \<noteq> None \<and> unat ingress < MAX_PORTS"
    if "length frame \<le> MAX_PDU"
    using handle_local_None [OF st, of "r\<lparr>rsp_fwd := f\<rparr>" p ingress "emit_all out acts"] that by simp
  moreover have "rsp_ingest F r st ingress frame out =
      (case local_copy acts of None \<Rightarrow> Some (r\<lparr>rsp_fwd := f\<rparr>, st, emit_all out acts, None)
       | Some d \<Rightarrow> handle_local F (r\<lparr>rsp_fwd := f\<rparr>) st ingress d (emit_all out acts))"
    using Inr fa by (simp add: rsp_ingest_def Let_def)
  ultimately have "rsp_ingest F r st ingress frame out = None \<longleftrightarrow>
      length frame \<le> MAX_PDU \<and> pdu_dst p \<in> {NO_ADDRESS, rsp_addr r, BROADCAST} \<and>
      opcode_from_u8 (pdu_opcode p) = Some NodeHello \<and> pdu_payload p = [] \<and> rsp_probe r \<noteq> None \<and> unat ingress < MAX_PORTS"
    unfolding copy dst by (simp split: if_split)
  then show ?thesis using Inr by simp
qed

end

text \<open>C28: Where a frame can panic the node: with the values a store of this protocol holds (64 bytes at
  most) every frame, of any bytes, from any port, is handled to the end, with one exception that the
  code does not mean: an empty \<open>NODE_HELLO\<close> delivered while a probe is in flight indexes its missing
  first byte.\<close>

theorem ingest_panics:
  assumes "reliable_flash F ok" "ok (store_flash st)" "store_ok F st" "short_values F r st"
  shows "rsp_ingest F r st ingress frame out = None \<longleftrightarrow>
    (\<exists>p. pdu_decode frame = Inr p \<and> length frame \<le> MAX_PDU \<and> pdu_dst p \<in> {NO_ADDRESS, rsp_addr r, BROADCAST} \<and>
      opcode_from_u8 (pdu_opcode p) = Some NodeHello \<and> pdu_payload p = [] \<and>
      rsp_probe r \<noteq> None \<and> unat ingress < MAX_PORTS)"
  by (rule reliable_flash.rsp_ingest_None [OF assms])

lemma fresh_short: "short_values MockFlash demo_board (fresh_store 1024)"
proof -
  have "contents MockFlash (fresh_store 1024) k = None" for k by (simp add: contents_def fresh_ok)
  then show ?thesis
    unfolding short_values_def
    using default_short
    by (auto simp: get_value_contents read_value_def demo_board_def responder_new_def split: option.splits)
qed

lemma ingest_panics_witness:
  "rsp_ingest MockFlash (demo_board\<lparr>rsp_probe := Some \<lparr>prb_reply_to = 0x80, prb_n_ports = 2, prb_states = replicate 4 (0, 0)\<rparr>\<rparr>)
     (fresh_store 1024) 1 [0x01, 0x02, 0x00] [] = None \<and>
   rsp_ingest MockFlash demo_board (fresh_store 1024) 1 [0x01, 0x02, 0x00] [] \<noteq> None"
proof -
  let ?r = "demo_board\<lparr>rsp_probe := Some \<lparr>prb_reply_to = 0x80, prb_n_ports = 2, prb_states = replicate 4 (0, 0)\<rparr>\<rparr>"
  have "short_values MockFlash ?r (fresh_store 1024)" using fresh_short by (simp add: short_values_def)
  note p1 = ingest_panics [OF mock.reliable_flash_axioms _ _ this]
    and p2 = ingest_panics [OF mock.reliable_flash_axioms _ _ fresh_short]
  show ?thesis
    using p1 [of 1 "[0x01, 0x02, 0x00]" "[]"] p2 [of 1 "[0x01, 0x02, 0x00]" "[]"]
    by (simp add: fresh_ok pdu_decode_def PDU_HEADER_LEN_def MAX_PDU_def MAX_PORTS_def NO_ADDRESS_def opcode_from_u8_def)
      (simp add: demo_board_def responder_new_def)
qed

text \<open>Whatever arrives, what a step puts on the wire is well formed and bounded: at most four emissions,
  each at most 64 bytes, each a decodable PDU.\<close>

theorem emissions_bounded:
  assumes "rsp_ingest F r st ingress frame [] = Some (r', st', out', d)"
  shows "length out' \<le> MAX_EMIT \<and> (\<forall>(port, bs) \<in> set out'. length bs \<le> MAX_PDU \<and> (\<exists>p. pdu_decode bs = Inr p))"
  using emits_ok_ingest [OF _ assms] by (simp add: emits_ok_def)

lemma emissions_bounded_witness:
  "\<exists>r' st' out' d. rsp_ingest MockFlash demo_board (fresh_store 16) 0 [0x02, 0x80, 0x00] [] = Some (r', st', out', d) \<and>
     length out' \<le> 4"
proof -
  let ?I = "rsp_ingest MockFlash demo_board (fresh_store 16) 0 [0x02, 0x80, 0x00] []"
  have "?I \<noteq> None" by code_simp
  then obtain r' st' out' d where run: "?I = Some (r', st', out', d)" by auto
  from emissions_bounded [OF run] run show ?thesis by (auto simp: MAX_EMIT_def MAX_PORTS_def)
qed

end
