(* ===== verification/Attach.thy ===== *)
theory Attach
  imports ControllerProps ResponderProps
begin

text \<open>
  The two sides of the walk together: the controller of \<open>Controller\<close> and the board of \<open>Responder\<close>, one
  link between them, exchanging the frames each of them produces.
\<close>

section \<open>First contact\<close>

definition learned :: "responder \<Rightarrow> u8 \<Rightarrow> u8 \<Rightarrow> responder" where
  "learned r a port = r\<lparr>rsp_fwd := (rsp_fwd r)\<lparr>fwd_table := (fwd_table (rsp_fwd r))(a := port)\<rparr>\<rparr>"

definition first_grant :: "responder \<Rightarrow> u8" where
  "first_grant r = 0x80 + rsp_guest_slot r mod 8"

lemma first_grant_controller: "is_controller (first_grant r)" "is_unicast (first_grant r)" "first_grant r \<noteq> 1"
proof -
  have "unat (rsp_guest_slot r mod 8) < 8" by (simp add: unat_mod_distrib)
  then have "unat (first_grant r) = 128 + unat (rsp_guest_slot r mod 8)"
    unfolding first_grant_def by (subst unat_add_lem [THEN iffD1]) simp_all
  then show c: "is_controller (first_grant r)" using \<open>unat (rsp_guest_slot r mod 8) < 8\<close>
    by (simp add: is_controller_def word_le_nat_alt GUEST_FIRST_def GUEST_LAST_def)
  then show "is_unicast (first_grant r)" by (simp add: is_unicast_def)
  show "first_grant r \<noteq> 1" using c by (auto simp: is_controller_def GUEST_FIRST_def word_le_nat_alt)
qed

lemma hello_frame: "next_request controller_new =
    (controller_new\<lparr>ctl_queue := [], ctl_outstanding := Some THello\<rparr>, Some [0x01, 0x80, 0x00, 0x01])"
  by (simp add: next_request_def controller_new_def push_quiet_def MAX_TASKS_def ctl_request_def pdu_encode_def
      pdu_from_op_def extend_quiet_def extend_from_slice_def MAX_PDU_def PDU_HEADER_LEN_def GUEST_FIRST_def NO_ADDRESS_def
      KIND_CONTROLLER_def)

lemma board_hello:
  assumes "rsp_addr r = NO_ADDRESS"
  shows "rsp_ingest F r st ingress [0x01, 0x80, 0x00, 0x01] [] =
    Some ((learned r 0x80 ingress)\<lparr>rsp_guest_slot := (rsp_guest_slot r mod 8 + 1) mod 8\<rparr>, st,
      [(ingress, [0x01, 0x00, 0x80, 0x00, 0x01, first_grant r])], None)"
  using assms
  by (simp add: rsp_ingest_def pdu_decode_def PDU_HEADER_LEN_def fwd_ingest_def decide_def Let_def learn_def NO_ADDRESS_def
      is_unicast_iff BROADCAST_def pdu_encode_def MAX_PDU_def handle_local_def opcode_from_u8_def on_hello_def
      KIND_CONTROLLER_def grant_guest_def guest_slice_def rsp_addr_def learned_def emit_def pdu_from_op_def push_quiet_def
      MAX_EMIT_def MAX_PORTS_def PROTO_VER_def GUEST_SLICE_def GUEST_FIRST_def GUEST_LAST_def first_grant_def min_def)


lemma first_alloc: "alloc_from 256 [] 1 = Some (1, 2)"
  using alloc_from.simps(2) [of 255 "[]" 1] by (simp add: is_board_def find_placed_def GUEST_FIRST_def)

lemma hello_answered:
  "on_reply (controller_new\<lparr>ctl_queue := [], ctl_outstanding := Some THello\<rparr>) [0x01, 0x00, 0x80, 0x00, 0x01, g] =
    Some (controller_new\<lparr>ctl_guest_addr := g, ctl_granted := True, ctl_next_board := 2,
            ctl_queue := [TAssignGateway 1]\<rparr>, True)"
  by (simp add: on_reply_def pdu_decode_def PDU_HEADER_LEN_def answers_def controller_new_def GUEST_FIRST_def
      pdu_known_def opcode_from_u8_def HELLO_REPLY_LEN_def on_task_reply_def on_hello_reply_def Let_def NO_ADDRESS_def
      alloc_def first_alloc enqueue_def push_quiet_def MAX_TASKS_def)

definition met_gateway :: "u8 \<Rightarrow> controller" where
  "met_gateway g = controller_new\<lparr>ctl_guest_addr := g, ctl_granted := True, ctl_next_board := 2,
            ctl_queue := [TAssignGateway 1]\<rparr>"

lemma assign_frame: "next_request (met_gateway g) =
    ((met_gateway g)\<lparr>ctl_queue := [], ctl_outstanding := Some (TAssignGateway 1)\<rparr>, Some [0x06, g, 0x00, 0xFF, 0x01])"
  by (simp add: next_request_def met_gateway_def controller_new_def assign_request_def ctl_request_def pdu_encode_def
      pdu_from_op_def extend_quiet_def extend_from_slice_def MAX_PDU_def PDU_HEADER_LEN_def NO_ADDRESS_def EGRESS_SELF_def)

lemma board_assign:
  assumes "set_value F st NODE_ADDRESS (VU8 1) = (st', Inr u)" "\<not> rsp_armed r" "is_controller g" "ingress \<noteq> NO_PORT"
  shows "rsp_ingest F r st ingress [0x06, g, 0x00, 0xFF, 0x01] [] =
    Some ((learned r g ingress)\<lparr>rsp_fwd := set_addr (rsp_fwd (learned r g ingress)) 1\<rparr>, st',
      [(ingress, [0x07, 0x01, g, 0x01, 0x00])], None)"
proof -
  have g: "is_unicast g" using assms(3) by (simp add: is_unicast_def)
  then have "g \<noteq> 0" "g \<noteq> 0xFF" by (auto simp: is_unicast_iff NO_ADDRESS_def BROADCAST_def)
  moreover have "g \<noteq> 1" using assms(3) by (auto simp: is_controller_def GUEST_FIRST_def word_le_nat_alt)
  ultimately show ?thesis
    using assms g
    by (simp add: rsp_ingest_def pdu_decode_def PDU_HEADER_LEN_def fwd_ingest_def decide_def Let_def learn_def NO_ADDRESS_def
        BROADCAST_def pdu_encode_def MAX_PDU_def handle_local_def opcode_from_u8_def on_assign_def EGRESS_SELF_def
        learned_def emit_def pdu_from_op_def push_quiet_def MAX_EMIT_def MAX_PORTS_def STATUS_OK_def fwd_originate_def
        set_addr_def port_for_def)
qed

lemma assign_answered:
  "on_reply ((met_gateway g)\<lparr>ctl_queue := [], ctl_outstanding := Some (TAssignGateway 1)\<rparr>) [0x07, 0x01, g, 0x01, 0x00] =
    Some ((met_gateway g)\<lparr>ctl_queue := [TProbe 1],
      ctl_assigned := [\<lparr>plc_addr = 1, plc_relay = 0, plc_egress = EGRESS_SELF, plc_here = True,
        plc_kinds = replicate MAX_PORTS None\<rparr>]\<rparr>, True)"
  by (simp add: on_reply_def pdu_decode_def PDU_HEADER_LEN_def answers_def met_gateway_def controller_new_def
      assign_ack_status_def pdu_known_def opcode_from_u8_def on_task_reply_def on_assign_ack_def STATUS_OK_def
      record_node_def position_of_def find_placed_def MAX_NODES_def enqueue_def push_quiet_def MAX_TASKS_def)

text \<open>C37: First contact of the two sides: from a fresh controller and an unarmed, unaddressed board with room
  for one record, the four frames the two produce (\<open>NODE_HELLO\<close>, its reply, \<open>ASSIGN\<close>, its acknowledgement,
  each the only frame its handler emits, out the port the request came in on) end with the board live
  at, and storing, the address 1, the controller's map naming it as the gateway, and the controller
  using the guest address the board granted.\<close>

theorem first_contact:
  assumes "flash_backend F ok" "ok (store_flash st)" "store_ok F st"
    and "rsp_addr r = NO_ADDRESS" "\<not> rsp_armed r" "ingress \<noteq> NO_PORT"
    and "set_value F st NODE_ADDRESS (VU8 1) = (st', Inr u)"
  shows "\<exists>c1 c2 c3 c4 hello greeting request ack r1 r2.
    next_request controller_new = (c1, Some hello) \<and>
    rsp_ingest F r st ingress hello [] = Some (r1, st, [(ingress, greeting)], None) \<and>
    on_reply c1 greeting = Some (c2, True) \<and> next_request c2 = (c3, Some request) \<and>
    rsp_ingest F r1 st ingress request [] = Some (r2, st', [(ingress, ack)], None) \<and>
    on_reply c3 ack = Some (c4, True) \<and>
    rsp_addr r2 = 1 \<and> get_value F st' NODE_ADDRESS = Inr (VU8 1, Stored) \<and>
    gateway_addr c4 = Some 1 \<and> granted c4 = Some (first_grant r) \<and> is_controller (first_grant r)"
proof -
  define r1 where "r1 = (learned r 0x80 ingress)\<lparr>rsp_guest_slot := (rsp_guest_slot r mod 8 + 1) mod 8\<rparr>"
  have armed: "\<not> rsp_armed r1" using assms(5) by (simp add: r1_def learned_def)
  let ?g = "first_grant r"
  have g: "is_controller ?g" by (rule first_grant_controller)
  note stored = set_value_then_get [OF assms(1,2,3,7)]
  have "gateway_addr ((met_gateway ?g)\<lparr>ctl_queue := [TProbe 1], ctl_assigned := [\<lparr>plc_addr = 1, plc_relay = 0,
      plc_egress = EGRESS_SELF, plc_here = True, plc_kinds = replicate MAX_PORTS None\<rparr>]\<rparr>) = Some 1"
    "granted ((met_gateway ?g)\<lparr>ctl_queue := [TProbe 1], ctl_assigned := [\<lparr>plc_addr = 1, plc_relay = 0,
      plc_egress = EGRESS_SELF, plc_here = True, plc_kinds = replicate MAX_PORTS None\<rparr>]\<rparr>) = Some ?g"
    "rsp_addr ((learned r1 ?g ingress)\<lparr>rsp_fwd := set_addr (rsp_fwd (learned r1 ?g ingress)) 1\<rparr>) = 1"
    by (simp_all add: gateway_addr_def granted_def met_gateway_def rsp_addr_def set_addr_def)
  then show ?thesis
    using hello_frame board_hello [OF assms(4), of F st ingress, folded r1_def] hello_answered [of ?g, folded met_gateway_def]
      assign_frame [of ?g] board_assign [OF assms(7) armed g assms(6)] assign_answered [of ?g] g stored
    by blast
qed

lemma first_contact_witness:
  "\<exists>c4 st' r2. gateway_addr c4 = Some 1 \<and> rsp_addr r2 = 1 \<and>
     get_value MockFlash st' NODE_ADDRESS = Inr (VU8 1, Stored)"
proof -
  obtain st' where w: "set_value MockFlash (fresh_store 1024) NODE_ADDRESS (VU8 1) = (st', Inr ())"
    using fresh_address_write by blast
  have f: "mock_ok (store_flash (fresh_store 1024))" "store_ok MockFlash (fresh_store 1024)"
    by (simp_all add: fresh_ok)
  have "rsp_addr demo_board = NO_ADDRESS" "\<not> rsp_armed demo_board" "(1 :: u8) \<noteq> NO_PORT"
    by (simp_all add: demo_board_def responder_new_def rsp_addr_def fwd_new_def NO_PORT_def)
  from first_contact [OF mock.flash_backend_axioms f this w] show ?thesis by blast
qed

end
