(* ===== verification/Machine.thy ===== *)
theory Machine
  imports Prelude
begin

text \<open>
  The mode and fault layer of one board, \<open>src/motorcontroller/state/src\<close>: the MOE gates (\<open>moe.rs\<close>), the mode
  machine that owns them (\<open>mode.rs\<close>) and the per-motor fault latch (\<open>fault.rs\<close>), with the invariants and
  the time bounds of the three.
\<close>

section \<open>The gates\<close>

record moe_gate =
  gate_allowed :: bool

definition moe_new :: moe_gate where
  "moe_new = \<lparr>gate_allowed = False\<rparr>"

definition set_at_init :: "moe_gate \<Rightarrow> moe_gate" where
  "set_at_init g = g\<lparr>gate_allowed := True\<rparr>"

definition moe_clear :: "moe_gate \<Rightarrow> moe_gate" where
  "moe_clear g = g\<lparr>gate_allowed := False\<rparr>"

section \<open>The mode machine\<close>

datatype mode = Off | Init | Ready | Run | Shutdown

fun mode_byte_of :: "mode \<Rightarrow> u8" where
  "mode_byte_of Off = 0"
| "mode_byte_of Init = 1"
| "mode_byte_of Ready = 2"
| "mode_byte_of Run = 3"
| "mode_byte_of Shutdown = 4"

record mode_inputs =
  mi_power_request :: bool
  mi_fault_a :: bool
  mi_fault_b :: bool
  mi_off_inhibit :: bool

record tick_outcome =
  to_mode :: mode
  to_bringup :: "bool option"
  to_safedown :: "bool option"

record mode_machine =
  mm_mode :: mode
  mm_moe :: "moe_gate list"
  mm_power_request :: bool

definition mode_machine_new :: "nat \<Rightarrow> mode_machine" where
  "mode_machine_new n = \<lparr>mm_mode = Off, mm_moe = replicate n moe_new, mm_power_request = False\<rparr>"

definition moe_allowed :: "mode_machine \<Rightarrow> nat \<Rightarrow> bool" where
  "moe_allowed m i = (if i < length (mm_moe m) then gate_allowed (mm_moe m ! i) else False)"

definition any_moe_allowed :: "mode_machine \<Rightarrow> bool" where
  "any_moe_allowed m = list_ex gate_allowed (mm_moe m)"

definition mode_tick :: "mode_machine \<Rightarrow> mode_inputs \<Rightarrow> mode_machine \<times> tick_outcome" where
  "mode_tick m inp =
     (let m = m\<lparr>mm_power_request := mi_power_request inp\<rparr>
      in case mm_mode m of
           Off \<Rightarrow>
             let blocked = mi_fault_a inp \<or> mi_fault_b inp \<or> mi_off_inhibit inp;
                 m = (if \<not> blocked \<and> mm_power_request m then m\<lparr>mm_mode := Init\<rparr> else m)
             in (m, \<lparr>to_mode = mm_mode m, to_bringup = None, to_safedown = None\<rparr>)
         | Init \<Rightarrow>
             let m = m\<lparr>mm_moe := map set_at_init (mm_moe m), mm_mode := Ready\<rparr>
             in (m, \<lparr>to_mode = mm_mode m, to_bringup = Some True, to_safedown = None\<rparr>)
         | Ready \<Rightarrow>
             let m = m\<lparr>mm_mode := Run\<rparr>
             in (m, \<lparr>to_mode = mm_mode m, to_bringup = None, to_safedown = None\<rparr>)
         | Run \<Rightarrow>
             let m = (if mi_fault_a inp \<or> mi_fault_b inp \<or> \<not> mm_power_request m then m\<lparr>mm_mode := Shutdown\<rparr> else m)
             in (m, \<lparr>to_mode = mm_mode m, to_bringup = None, to_safedown = None\<rparr>)
         | Shutdown \<Rightarrow>
             let m = m\<lparr>mm_moe := map moe_clear (mm_moe m), mm_mode := Off, mm_power_request := False\<rparr>
             in (m, \<lparr>to_mode = mm_mode m, to_bringup = None, to_safedown = Some True\<rparr>))"

section \<open>The fault latch\<close>

definition CODE_OVERCURRENT :: u8 where "CODE_OVERCURRENT = 0x11"
definition CODE_STALL :: u8 where "CODE_STALL = 0x21"
definition LATCH_THRESHOLD :: u32 where "LATCH_THRESHOLD = 150000"
definition COUNT_CAP :: u32 where "COUNT_CAP = 1000000"
definition RUN_SUBSTATE :: u8 where "RUN_SUBSTATE = 3"

text \<open>The two signed fields are only ever compared for equality, so they are words of their width.\<close>

record fault_latch =
  fl_running_enable :: u8
  fl_ext_trip :: u8
  fl_code :: u8
  fl_a_substate :: u8
  fl_b_motion :: u16
  fl_counter :: u32
  fl_latch :: u8

definition fault_latch_new :: fault_latch where
  "fault_latch_new =
     \<lparr>fl_running_enable = 0, fl_ext_trip = 0, fl_code = 0, fl_a_substate = 0, fl_b_motion = 0, fl_counter = 0,
      fl_latch = 0\<rparr>"

definition is_latched :: "fault_latch \<Rightarrow> bool" where
  "is_latched f \<longleftrightarrow> fl_latch f \<noteq> 0"

definition is_healthy :: "fault_latch \<Rightarrow> bool" where
  "is_healthy f \<longleftrightarrow> (fl_a_substate f \<noteq> 0 \<or> fl_b_motion f \<noteq> 0) \<and> (fl_a_substate f = RUN_SUBSTATE \<or> fl_b_motion f = 0)"

definition latch_tick :: "fault_latch \<Rightarrow> fault_latch" where
  "latch_tick f =
     (if fl_running_enable f = 0 then f
      else
        let f = (if fl_ext_trip f \<noteq> 0 then f\<lparr>fl_latch := 1\<rparr> else f);
            code = fl_code f;
            f = f\<lparr>fl_code := 0\<rparr>;
            f = (if code = CODE_OVERCURRENT then f\<lparr>fl_latch := 1\<rparr> else f)
        in if is_healthy f then f\<lparr>fl_counter := 0\<rparr>
           else
             let f = (if fl_counter f < COUNT_CAP then f\<lparr>fl_counter := fl_counter f + 1\<rparr> else f)
             in if fl_counter f \<ge> LATCH_THRESHOLD then f\<lparr>fl_counter := LATCH_THRESHOLD, fl_latch := 1\<rparr> else f)"

section \<open>The mode machine: reachable states\<close>

inductive mode_reach :: "nat \<Rightarrow> mode_machine \<Rightarrow> bool" for n where
  boot: "mode_reach n (mode_machine_new n)"
| tick: "mode_reach n m \<Longrightarrow> mode_reach n (fst (mode_tick m inp))"

fun run_modes :: "mode_machine \<Rightarrow> mode_inputs list \<Rightarrow> mode_machine" where
  "run_modes m [] = m"
| "run_modes m (i # is) = run_modes (fst (mode_tick m i)) is"

lemma run_modes_append: "run_modes m (is @ js) = run_modes (run_modes m is) js"
  by (induction m "is" rule: run_modes.induct) simp_all

lemma run_modes_reach: "mode_reach n m \<Longrightarrow> mode_reach n (run_modes m is)"
  by (induction m "is" rule: run_modes.induct) (auto intro: mode_reach.tick)

definition powered :: "mode \<Rightarrow> bool" where
  "powered md \<longleftrightarrow> md = Ready \<or> md = Run \<or> md = Shutdown"

lemma mode_reach_inv:
  "mode_reach n m \<Longrightarrow> length (mm_moe m) = n \<and> (\<forall>g\<in>set (mm_moe m). gate_allowed g \<longleftrightarrow> powered (mm_mode m))"
proof (induction rule: mode_reach.induct)
  case boot
  then show ?case by (simp add: mode_machine_new_def moe_new_def powered_def)
next
  case (tick m inp)
  then show ?case
    by (cases "mm_mode m")
      (auto simp: mode_tick_def Let_def powered_def set_at_init_def moe_clear_def)
qed

text \<open>The gate that energises the bridge: in every state any sequence of 4 ms ticks reaches, every
  motor's MOE gate is allowed exactly in \<open>READY\<close>, \<open>RUN\<close> and \<open>SHUTDOWN\<close>; so it is closed through every dwell
  in \<open>OFF\<close> and \<open>INIT\<close>, no motor is ever left open alone, and the answer to "is the board armed" is the
  mode byte's. It opens on no tick but the one that runs the bring-up, and that tick follows one on
  which power was requested with no fault and no inhibit.\<close>

theorem moe_follows_mode:
  assumes "mode_reach n m"
  shows "(\<forall>i. moe_allowed m i \<longleftrightarrow> i < n \<and> mode_byte_of (mm_mode m) \<in> {2, 3, 4}) \<and>
    (any_moe_allowed m \<longleftrightarrow> 0 < n \<and> mode_byte_of (mm_mode m) \<in> {2, 3, 4}) \<and>
    (\<forall>inp. \<not> any_moe_allowed m \<and> any_moe_allowed (fst (mode_tick m inp)) \<longrightarrow>
       to_bringup (snd (mode_tick m inp)) = Some True) \<and>
    (\<forall>inp. mm_mode (fst (mode_tick m inp)) = Init \<longrightarrow>
       mi_power_request inp \<and> \<not> mi_fault_a inp \<and> \<not> mi_fault_b inp \<and> \<not> mi_off_inhibit inp)"
proof -
  note inv = mode_reach_inv [OF assms]
  have byte: "mode_byte_of md \<in> {2, 3, 4} \<longleftrightarrow> powered md" for md by (cases md) (simp_all add: powered_def)
  have any: "any_moe_allowed k \<longleftrightarrow> 0 < n \<and> powered (mm_mode k)" if "mode_reach n k" for k
    using mode_reach_inv [OF that] by (cases "mm_moe k") (auto simp: any_moe_allowed_def list_ex_iff)
  show ?thesis
    unfolding byte any [OF assms] any [OF mode_reach.tick [OF assms]]
    using inv by (cases "mm_mode m") (auto simp: moe_allowed_def mode_tick_def Let_def powered_def)
qed

definition run_request :: mode_inputs where
  "run_request = \<lparr>mi_power_request = True, mi_fault_a = False, mi_fault_b = False, mi_off_inhibit = False\<rparr>"

definition demo_machine :: mode_machine where
  "demo_machine = run_modes (mode_machine_new 2) [run_request, run_request, run_request]"

lemma moe_follows_mode_witness:
  "mode_reach 2 demo_machine \<and> moe_allowed demo_machine 1 \<and> \<not> moe_allowed demo_machine 2"
proof -
  have r: "mode_reach 2 demo_machine"
    unfolding demo_machine_def by (intro run_modes_reach mode_reach.boot)
  have "mode_byte_of (mm_mode demo_machine) = 3" by code_simp
  with moe_follows_mode [OF r] r show ?thesis by auto
qed

fun settle :: "mode \<Rightarrow> nat" where
  "settle Off = 0"
| "settle Init = 4"
| "settle Ready = 3"
| "settle Run = 2"
| "settle Shutdown = 1"

text \<open>How fast a fault takes the bridge down, and that it keeps it down: while a fault is present or the
  power request is absent on every tick, the machine is in \<open>OFF\<close> with every gate closed from exactly the
  second tick on when it was in \<open>RUN\<close>, the third from \<open>READY\<close>, the fourth from \<open>INIT\<close> (which still opens the
  gates for three ticks) and at once from \<open>OFF\<close>.\<close>

theorem fault_disarms:
  assumes "mode_reach n m" "\<forall>i\<in>set inputs. mi_fault_a i \<or> mi_fault_b i \<or> \<not> mi_power_request i"
  shows "(mm_mode (run_modes m inputs) = Off \<longleftrightarrow> settle (mm_mode m) \<le> length inputs) \<and>
    (settle (mm_mode m) \<le> length inputs \<longrightarrow> \<not> any_moe_allowed (run_modes m inputs))"
proof -
  have "mm_mode (run_modes m inputs) = Off \<longleftrightarrow> settle (mm_mode m) \<le> length inputs"
    using assms(2)
  proof (induction inputs arbitrary: m)
    case Nil
    then show ?case by (cases "mm_mode m") simp_all
  next
    case (Cons i inputs)
    have "settle (mm_mode (fst (mode_tick m i))) = settle (mm_mode m) - 1"
      using Cons.prems by (cases "mm_mode m") (auto simp: mode_tick_def Let_def)
    then show ?case using Cons by (cases "mm_mode m") auto
  qed
  moreover have "\<not> any_moe_allowed k" if "mode_reach n k" "mm_mode k = Off" for k
    using mode_reach_inv [OF that(1)] that(2) by (simp add: any_moe_allowed_def list_ex_iff powered_def)
  ultimately show ?thesis using run_modes_reach [OF assms(1)] by blast
qed

lemma fault_disarms_witness:
  "any_moe_allowed demo_machine \<and>
   \<not> any_moe_allowed (run_modes demo_machine [run_request\<lparr>mi_fault_a := True\<rparr>, run_request\<lparr>mi_fault_b := True\<rparr>])"
proof -
  have "mode_reach 2 demo_machine"
    unfolding demo_machine_def by (intro run_modes_reach mode_reach.boot)
  moreover have "mm_mode demo_machine = Run" "any_moe_allowed demo_machine" by code_simp+
  ultimately show ?thesis
    using fault_disarms [of 2 demo_machine "[run_request\<lparr>mi_fault_a := True\<rparr>, run_request\<lparr>mi_fault_b := True\<rparr>]"]
    by (simp add: run_request_def)
qed

section \<open>The fault latch: when it fires\<close>

text \<open>The fields other components write between two ticks; the counter and the latch are the unit's own.\<close>

record latch_inputs =
  li_enable :: u8
  li_trip :: u8
  li_code :: u8
  li_a :: u8
  li_b :: u16

definition feed_latch :: "latch_inputs \<Rightarrow> fault_latch \<Rightarrow> fault_latch" where
  "feed_latch x f =
     f\<lparr>fl_running_enable := li_enable x, fl_ext_trip := li_trip x, fl_code := li_code x, fl_a_substate := li_a x,
       fl_b_motion := li_b x\<rparr>"

definition run_latch :: "latch_inputs list \<Rightarrow> fault_latch \<Rightarrow> fault_latch" where
  "run_latch xs f = foldl (\<lambda>f x. latch_tick (feed_latch x f)) f xs"

definition healthy_input :: "latch_inputs \<Rightarrow> bool" where
  "healthy_input x \<longleftrightarrow> (li_a x \<noteq> 0 \<or> li_b x \<noteq> 0) \<and> (li_a x = 3 \<or> li_b x = 0)"

text \<open>The specification: an unbounded count of the consecutive enabled unhealthy passes (a disabled pass
  counts for nothing, a healthy one starts the count again).\<close>

fun inconsistent_run :: "latch_inputs list \<Rightarrow> nat" where
  "inconsistent_run [] = 0"
| "inconsistent_run (x # xs) =
     (if li_enable x = 0 then inconsistent_run xs else if healthy_input x then 0 else Suc (inconsistent_run xs))"

definition fast_fault :: "latch_inputs \<Rightarrow> bool" where
  "fast_fault x \<longleftrightarrow> li_enable x \<noteq> 0 \<and> (li_trip x \<noteq> 0 \<or> li_code x = 0x11)"

definition must_latch :: "latch_inputs list \<Rightarrow> bool" where
  "must_latch xs \<longleftrightarrow> (\<exists>x\<in>set xs. fast_fault x) \<or> (\<exists>k \<le> length xs. 150000 \<le> inconsistent_run (rev (take k xs)))"

lemma counter_step:
  assumes "unat (fl_counter f) = min n 150000"
  shows "unat (fl_counter (latch_tick (feed_latch x f))) =
    min (if li_enable x = 0 then n else if healthy_input x then 0 else Suc n) 150000"
proof -
  have le: "unat (fl_counter f) \<le> 150000" using assms by simp
  then have "unat (fl_counter f + 1) = Suc (unat (fl_counter f))" by (simp add: unat_plus_simple word_le_nat_alt unat_word_ariths)
  then show ?thesis
    using assms le
    by (auto simp: latch_tick_def feed_latch_def Let_def is_healthy_def healthy_input_def RUN_SUBSTATE_def COUNT_CAP_def
        LATCH_THRESHOLD_def word_le_nat_alt word_less_nat_alt)
qed

lemma latch_step:
  assumes "unat (fl_counter f) = min n 150000"
  shows "is_latched (latch_tick (feed_latch x f)) \<longleftrightarrow>
    is_latched f \<or> fast_fault x \<or> (li_enable x \<noteq> 0 \<and> \<not> healthy_input x \<and> 150000 \<le> Suc n)"
proof -
  have le: "unat (fl_counter f) \<le> 150000" using assms by simp
  then have "unat (fl_counter f + 1) = Suc (unat (fl_counter f))" by (simp add: unat_plus_simple word_le_nat_alt unat_word_ariths)
  then show ?thesis
    using assms le
    by (auto simp: latch_tick_def feed_latch_def Let_def is_healthy_def healthy_input_def RUN_SUBSTATE_def COUNT_CAP_def
        LATCH_THRESHOLD_def word_le_nat_alt word_less_nat_alt is_latched_def fast_fault_def CODE_OVERCURRENT_def)
qed


lemma must_latch_snoc:
  "must_latch (xs @ [x]) \<longleftrightarrow>
    must_latch xs \<or> fast_fault x \<or> (li_enable x \<noteq> 0 \<and> \<not> healthy_input x \<and> 150000 \<le> Suc (inconsistent_run (rev xs)))"
proof -
  have "(\<exists>k\<le>length (xs @ [x]). P (take k (xs @ [x]))) \<longleftrightarrow> (\<exists>k\<le>length xs. P (take k xs)) \<or> P (xs @ [x])" for P
    by (auto simp: le_Suc_eq)
  from this [of "\<lambda>ys. 150000 \<le> inconsistent_run (rev ys)"] show ?thesis
    unfolding must_latch_def by (auto simp del: take_append)
qed

text \<open>Exactly when the latch fires: a unit fed any sequence of inputs from boot is latched if and only if
  some enabled pass saw the external trip or the over-current code, or at some point 150000 enabled
  passes in a row (ten minutes, disabled passes not counted and not interrupting) were inconsistent.
  It never un-latches, and its 32-bit counter is that unbounded count cut off at the threshold.\<close>

theorem latch_fires:
  "is_latched (run_latch xs fault_latch_new) = must_latch xs \<and>
   unat (fl_counter (run_latch xs fault_latch_new)) = min (inconsistent_run (rev xs)) 150000"
proof (induction xs rule: rev_induct)
  case Nil
  then show ?case by (simp add: run_latch_def fault_latch_new_def is_latched_def must_latch_def)
next
  case (snoc x xs)
  have run: "run_latch (xs @ [x]) fault_latch_new = latch_tick (feed_latch x (run_latch xs fault_latch_new))"
    by (simp add: run_latch_def)
  show ?case
    unfolding run must_latch_snoc
    using snoc latch_step [of "run_latch xs fault_latch_new" "inconsistent_run (rev xs)" x]
      counter_step [of "run_latch xs fault_latch_new" "inconsistent_run (rev xs)" x] by auto
qed

end
