(* ===== verification/Inputs.thy ===== *)
theory Inputs
  imports Prelude
begin

unbundle bit_operations_syntax

text \<open>
  Input conditioning, \<open>src/motorcontroller/inputs/src\<close>: the polarity map (\<open>lib.rs\<close>), the debounced lines and
  their bank (\<open>debounce.rs\<close>), the combined button and the two-key combos (\<open>combo.rs\<close>) and the foot pads
  (\<open>pad.rs\<close>). Each debouncer is proved equal to a condition on the last samples of its whole history.
\<close>

section \<open>Polarity\<close>

definition INPUT_LINES :: u8 where "INPUT_LINES = 0b111"

definition asserted :: "u8 \<Rightarrow> u8 \<Rightarrow> u8" where
  "asserted levels polarity = (levels XOR NOT polarity) AND INPUT_LINES"

section \<open>Debounced lines\<close>

definition MAX_LINES :: nat where "MAX_LINES = 8"

datatype debounce_phase = Idle | Candidate | Held

record debounce_line =
  ln_phase :: debounce_phase
  ln_pressed :: bool

definition line_new :: debounce_line where
  "line_new = \<lparr>ln_phase = Idle, ln_pressed = False\<rparr>"

definition line_update :: "debounce_line \<Rightarrow> bool \<Rightarrow> debounce_line" where
  "line_update l a =
     (case ln_phase l of
        Idle \<Rightarrow> if a then l\<lparr>ln_phase := Candidate\<rparr> else l\<lparr>ln_pressed := False\<rparr>
      | Candidate \<Rightarrow> if a then l\<lparr>ln_pressed := True, ln_phase := Held\<rparr> else l\<lparr>ln_phase := Idle\<rparr>
      | Held \<Rightarrow> if \<not> a then l\<lparr>ln_phase := Idle, ln_pressed := False\<rparr> else l)"

text \<open>A bank is its lines; line \<open>i\<close> takes bit \<open>i\<close>.\<close>

type_synonym line_bank = "debounce_line list"

definition bank_new :: "nat \<Rightarrow> line_bank" where
  "bank_new n = replicate n line_new"

fun bank_update_from :: "nat \<Rightarrow> line_bank \<Rightarrow> u8 \<Rightarrow> line_bank" where
  "bank_update_from i [] bits = []"
| "bank_update_from i (l # ls) bits =
     line_update l (drop_bit i bits AND 1 \<noteq> 0) # bank_update_from (Suc i) ls bits"

definition bank_update :: "line_bank \<Rightarrow> u8 \<Rightarrow> line_bank" where
  "bank_update b bits = bank_update_from 0 b bits"

definition bank_pressed :: "line_bank \<Rightarrow> nat \<Rightarrow> bool" where
  "bank_pressed b i = (if i < length b then ln_pressed (b ! i) else False)"

fun flags_from :: "nat \<Rightarrow> line_bank \<Rightarrow> u8 \<Rightarrow> u8" where
  "flags_from i [] b = b"
| "flags_from i (l # ls) b = flags_from (Suc i) ls (if ln_pressed l then b AND NOT (push_bit i 1) else b)"

definition flags_byte :: "line_bank \<Rightarrow> u8" where
  "flags_byte b = flags_from 0 b 0xFF"

section \<open>Combos\<close>

record combo_state =
  cb_a :: bool
  cb_b :: bool

definition combo_new :: combo_state where
  "combo_new = \<lparr>cb_a = False, cb_b = False\<rparr>"

definition combined :: "combo_state \<Rightarrow> bool" where
  "combined s \<longleftrightarrow> cb_a s \<or> cb_b s"

definition combined_button :: "combo_state \<Rightarrow> bool \<Rightarrow> bool \<Rightarrow> combo_state \<times> bool" where
  "combined_button s button_pressed brake_active =
     (let s = (if button_pressed then
                 if \<not> brake_active then s\<lparr>cb_a := True\<rparr> else s\<lparr>cb_b := True\<rparr>
               else if \<not> brake_active then s\<lparr>cb_a := False\<rparr>
               else s\<lparr>cb_b := False\<rparr>)
      in (s, combined s))"

record combo_pair =
  pair_a :: nat
  pair_b :: nat

definition pair_active :: "combo_pair \<Rightarrow> line_bank \<Rightarrow> bool" where
  "pair_active c b \<longleftrightarrow> bank_pressed b (pair_a c) \<and> bank_pressed b (pair_b c)"

record combo_set =
  set_power :: combo_pair
  set_mode :: combo_pair

record combo_flags =
  flag_power :: bool
  flag_mode :: bool

definition combo_evaluate :: "combo_set \<Rightarrow> line_bank \<Rightarrow> combo_flags" where
  "combo_evaluate c b = \<lparr>flag_power = pair_active (set_power c) b, flag_mode = pair_active (set_mode c) b\<rparr>"

section \<open>Foot pads\<close>

definition PAD_A_BIT :: u8 where "PAD_A_BIT = 0b01"
definition PAD_B_BIT :: u8 where "PAD_B_BIT = 0b10"

record pad_sensor =
  ps_on :: bool
  ps_low_run :: u8

definition pad_new :: pad_sensor where
  "pad_new = \<lparr>ps_on = False, ps_low_run = 0\<rparr>"

definition pad_update :: "pad_sensor \<Rightarrow> bool \<Rightarrow> pad_sensor" where
  "pad_update p high =
     (if high then p\<lparr>ps_on := True, ps_low_run := 0\<rparr>
      else
        let p = (if ps_low_run p < 2 then p\<lparr>ps_low_run := ps_low_run p + 1\<rparr> else p)
        in if ps_low_run p \<ge> 2 then p\<lparr>ps_on := False\<rparr> else p)"

record pad_bank =
  pb_a :: pad_sensor
  pb_b :: pad_sensor
  pb_changes :: u8
  pb_held :: u8

definition pad_bank_new :: pad_bank where
  "pad_bank_new = \<lparr>pb_a = pad_new, pb_b = pad_new, pb_changes = 0, pb_held = 0\<rparr>"

definition field_from :: "bool \<Rightarrow> bool \<Rightarrow> u8" where
  "field_from a b =
     (let f = 0; f = (if a then f OR PAD_A_BIT else f) in if b then f OR PAD_B_BIT else f)"

definition pad_field :: "pad_bank \<Rightarrow> u8" where
  "pad_field p = field_from (ps_on (pb_a p)) (ps_on (pb_b p))"

definition saturating_inc :: "u8 \<Rightarrow> u8" where
  "saturating_inc x = (if x = 0xFF then x else x + 1)"

definition pad_bank_update :: "pad_bank \<Rightarrow> bool \<Rightarrow> bool \<Rightarrow> pad_bank \<times> u8" where
  "pad_bank_update p a_high b_high =
     (let before = pad_field p;
          p = p\<lparr>pb_a := pad_update (pb_a p) a_high\<rparr>;
          p = p\<lparr>pb_b := pad_update (pb_b p) b_high\<rparr>;
          a = ps_on (pb_a p); b = ps_on (pb_b p);
          f = field_from a b;
          p = (if f \<noteq> before then p\<lparr>pb_changes := saturating_inc (pb_changes p)\<rparr> else p);
          p = (if a \<noteq> a_high then p\<lparr>pb_held := saturating_inc (pb_held p)\<rparr> else p);
          p = (if b \<noteq> b_high then p\<lparr>pb_held := saturating_inc (pb_held p)\<rparr> else p)
      in (p, f))"

section \<open>Histories\<close>

text \<open>The last sample and the one before it, in a history with the newest sample last; absent samples are
  the released level.\<close>

definition last_two :: "bool list \<Rightarrow> bool \<times> bool" where
  "last_two h = (h \<noteq> [] \<and> last h, butlast h \<noteq> [] \<and> last (butlast h))"

lemma last_two_snoc [simp]: "last_two (h @ [x]) = (x, fst (last_two h))"
  by (simp add: last_two_def)

definition line_after :: "bool list \<Rightarrow> debounce_line" where
  "line_after h = foldl line_update line_new h"

lemma line_after_eq:
  "line_after h =
     (case last_two h of
        (a, b) \<Rightarrow> \<lparr>ln_phase = (if a then if b then Held else Candidate else Idle), ln_pressed = (a \<and> b)\<rparr>)"
proof (induction h rule: rev_induct)
  case Nil
  then show ?case by (simp add: line_after_def line_new_def last_two_def)
next
  case (snoc x h)
  obtain a b where ab: "last_two h = (a, b)" by fastforce
  have "line_after (h @ [x]) = line_update (line_after h) x" by (simp add: line_after_def)
  then show ?case using snoc ab by (auto simp: line_update_def)
qed

text \<open>The sampled levels of line \<open>i\<close> in a history of the whole bank.\<close>

definition bank_after :: "nat \<Rightarrow> u8 list \<Rightarrow> line_bank" where
  "bank_after n h = foldl bank_update (bank_new n) h"

definition samples :: "nat \<Rightarrow> u8 list \<Rightarrow> bool list" where
  "samples i h = map (\<lambda>x. bit x i) h"

lemma bank_update_nth: "i < length b \<Longrightarrow> bank_update_from k b bits ! i = line_update (b ! i) (bit bits (k + i))"
proof (induction k b bits arbitrary: i rule: bank_update_from.induct)
  case (2 k l ls bits)
  have "drop_bit k bits AND 1 \<noteq> 0 \<longleftrightarrow> bit bits k"
    by (simp add: and_one_eq even_drop_bit_iff_not_bit flip: odd_iff_mod_2_eq_one)
  then show ?case using 2 by (cases i) simp_all
qed simp

lemma length_bank_update [simp]: "length (bank_update_from k b bits) = length b"
  by (induction k b bits rule: bank_update_from.induct) simp_all

lemma bank_after_nth: "i < n \<Longrightarrow> length (bank_after n h) = n \<and> bank_after n h ! i = line_after (samples i h)"
proof (induction h rule: rev_induct)
  case Nil
  then show ?case by (simp add: bank_after_def bank_new_def line_after_def samples_def)
next
  case (snoc x h)
  then show ?case
    using bank_update_nth [of i "bank_after n h" 0 x]
    by (simp add: bank_after_def bank_update_def line_after_def samples_def)
qed

lemma length_bank_after [simp]: "length (bank_after n h) = n"
proof (induction h rule: rev_induct)
  case Nil
  then show ?case by (simp add: bank_after_def bank_new_def)
next
  case (snoc x h)
  then show ?case by (simp add: bank_after_def bank_update_def)
qed

lemma bit_flags_from:
  "bit (flags_from k b x) j \<longleftrightarrow> bit x j \<and> \<not> (k \<le> j \<and> j < k + length b \<and> ln_pressed (b ! (j - k)))"
proof (induction k b x rule: flags_from.induct)
  case (2 k l ls x)
  show ?case
  proof (cases "j = k")
    case True
    then show ?thesis using 2 by (auto simp: bit_simps)
  next
    case False
    then have "k \<le> j \<longleftrightarrow> Suc k \<le> j" "k \<le> j \<longrightarrow> j - k = Suc (j - Suc k)" by auto
    then show ?thesis using 2 False by (auto simp: bit_simps dest: bit_imp_le_length)
  qed
qed simp

lemma all_set: "i < 8 \<Longrightarrow> bit (0xFF :: u8) i"
  by (auto simp: less_Suc_eq numeral_eq_Suc)

text \<open>What the published flags byte says after any history of samples: bit \<open>i\<close> is clear exactly when line
  \<open>i\<close> exists and its last two samples were both asserted. A press takes two samples and a release one, on
  every line independently, whatever came before; an absent line always reads released.\<close>

theorem flags_byte_history:
  assumes "n \<le> MAX_LINES" "i < 8"
  shows "bit (flags_byte (bank_after n (map (\<lambda>l. asserted l polarity) levels))) i \<longleftrightarrow>
      \<not> (i < n \<and> i < 3 \<and> 2 \<le> length levels \<and>
         (bit (last levels) i \<longleftrightarrow> bit polarity i) \<and> (bit (last (butlast levels)) i \<longleftrightarrow> bit polarity i))"
proof (cases "i < n")
  case True
  let ?h = "map (\<lambda>l. asserted l polarity) levels"
  note at = bank_after_nth [OF True, of ?h]
  have level: "bit (asserted l polarity) i \<longleftrightarrow> i < 3 \<and> (bit l i \<longleftrightarrow> bit polarity i)" for l
    using assms(2) by (auto simp: asserted_def INPUT_LINES_def bit_simps less_Suc_eq numeral_eq_Suc)
  have "ln_pressed (line_after (samples i ?h)) \<longleftrightarrow>
      2 \<le> length levels \<and> bit (asserted (last levels) polarity) i \<and> bit (asserted (last (butlast levels)) polarity) i"
    by (cases levels rule: rev_cases; cases "butlast levels" rule: rev_cases)
      (auto simp: line_after_eq last_two_def samples_def butlast_append last_append)
  moreover have "bit (flags_byte (bank_after n ?h)) i \<longleftrightarrow> \<not> ln_pressed (line_after (samples i ?h))"
    using at True assms(2) all_set [OF assms(2)] by (simp add: flags_byte_def bit_flags_from)
  ultimately show ?thesis using True by (simp add: level) blast
next
  case False
  then show ?thesis
    using all_set [OF assms(2)] by (simp add: flags_byte_def bit_flags_from)
qed

lemma flags_byte_history_witness:
  "bit (flags_byte (bank_after 3 (map (\<lambda>l. asserted l 0b110) [0b001, 0b110, 0b010]))) 0 = False \<and>
   bit (flags_byte (bank_after 3 (map (\<lambda>l. asserted l 0b110) [0b001, 0b110, 0b010]))) 2 = True"
  using flags_byte_history [of 3 0 "0b110" "[0b001, 0b110, 0b010]"] flags_byte_history [of 3 2 "0b110" "[0b001, 0b110, 0b010]"]
  by (simp add: MAX_LINES_def)

section \<open>The pads\<close>

definition pad_after :: "bool list \<Rightarrow> pad_sensor" where
  "pad_after h = foldl pad_update pad_new h"

lemma pad_after_eq:
  "pad_after h =
     (case last_two h of
        (a, b) \<Rightarrow> \<lparr>ps_on = (a \<or> b), ps_low_run = (if a \<or> h = [] then 0 else if b \<or> length h = 1 then 1 else 2)\<rparr>)"
proof (induction h rule: rev_induct)
  case Nil
  then show ?case by (simp add: pad_after_def pad_new_def last_two_def)
next
  case (snoc x h)
  obtain a b where ab: "last_two h = (a, b)" by fastforce
  have "b \<Longrightarrow> h \<noteq> [] \<and> length h \<noteq> 1" "a \<Longrightarrow> h \<noteq> []" using ab by (auto simp: last_two_def length_Suc_conv)
  moreover have "pad_after (h @ [x]) = pad_update (pad_after h) x" by (simp add: pad_after_def)
  moreover have "\<not> (2 :: u8) \<le> 1" by (simp add: word_le_nat_alt)
  ultimately show ?case using snoc ab by (auto simp: pad_update_def Let_def)
qed

text \<open>The specification: a pad is on when one of its last two samples was high; a release is a low sample
  after a high one; the field moves when the pads change.\<close>

definition pads_on :: "(bool \<times> bool) list \<Rightarrow> bool \<times> bool" where
  "pads_on h =
     (fst (last_two (map fst h)) \<or> snd (last_two (map fst h)), fst (last_two (map snd h)) \<or> snd (last_two (map snd h)))"

definition releases :: "bool list \<Rightarrow> nat" where
  "releases h = length (filter (\<lambda>(x, y). x \<and> \<not> y) (zip h (tl h)))"

definition field_moves :: "(bool \<times> bool) list \<Rightarrow> nat" where
  "field_moves h = length (filter (\<lambda>k. pads_on (take (Suc k) h) \<noteq> pads_on (take k h)) [0..<length h])"

definition pads_after :: "(bool \<times> bool) list \<Rightarrow> pad_bank" where
  "pads_after h = foldl (\<lambda>p (a, b). fst (pad_bank_update p a b)) pad_bank_new h"

lemma zip_tl_snoc: "xs \<noteq> [] \<Longrightarrow> zip (xs @ [x]) (tl xs @ [x]) = zip xs (tl xs) @ [(last xs, x)]"
  by (induction xs rule: induct_list012) auto

lemma releases_snoc: "releases (h @ [x]) = releases h + (if fst (last_two h) \<and> \<not> x then 1 else 0)"
  using zip_tl_snoc [of h x] by (cases "h = []") (simp_all add: releases_def last_two_def)

lemma field_moves_snoc: "field_moves (h @ [x]) = field_moves h + (if pads_on (h @ [x]) \<noteq> pads_on h then 1 else 0)"
proof -
  have "filter (\<lambda>k. pads_on (take (Suc k) (h @ [x])) \<noteq> pads_on (take k (h @ [x]))) [0..<length h] =
      filter (\<lambda>k. pads_on (take (Suc k) h) \<noteq> pads_on (take k h)) [0..<length h]"
    by (rule filter_cong) auto
  then show ?thesis by (simp add: field_moves_def)
qed

lemma field_from_inject: "field_from a b = field_from c d \<longleftrightarrow> a = c \<and> b = d"
  by (cases a; cases b; cases c; cases d) (simp_all add: field_from_def PAD_A_BIT_def PAD_B_BIT_def)

lemma unat_saturating: "unat (saturating_inc x) = min 255 (Suc (unat x))"
proof (cases "x = 0xFF")
  case False
  then have "unat x \<noteq> 255" by (auto simp: word_unat_eq_iff)
  moreover have "unat x < 256" using unsigned_less [of x] by simp
  ultimately show ?thesis using False by (simp add: saturating_inc_def unat_word_ariths)
qed (simp add: saturating_inc_def)

lemma pad_bank_update_eq:
  "fst (pad_bank_update p a b) =
     (let on_a = ps_on (pad_update (pb_a p) a); on_b = ps_on (pad_update (pb_b p) b);
          held = (if on_a \<noteq> a then saturating_inc (pb_held p) else pb_held p)
      in \<lparr>pb_a = pad_update (pb_a p) a, pb_b = pad_update (pb_b p) b,
          pb_changes = (if field_from on_a on_b \<noteq> pad_field p then saturating_inc (pb_changes p) else pb_changes p),
          pb_held = (if on_b \<noteq> b then saturating_inc held else held)\<rparr>)"
  by (simp add: pad_bank_update_def Let_def)

text \<open>The foot pads after any history of samples: each pad is on exactly when one of its last two samples
  was high (one sample engages, two release), the published field is the two of them, and the two
  counters are the number of moves of the field and the number of releases (high then low samples,
  over both pads), cut off at 255.\<close>

theorem pads_history:
  "pad_field (pads_after h) = field_from (fst (pads_on h)) (snd (pads_on h)) \<and>
   unat (pb_changes (pads_after h)) = min 255 (field_moves h) \<and>
   unat (pb_held (pads_after h)) = min 255 (releases (map fst h) + releases (map snd h))"
proof -
  have "pb_a (pads_after h) = pad_after (map fst h) \<and> pb_b (pads_after h) = pad_after (map snd h) \<and>
    unat (pb_changes (pads_after h)) = min 255 (field_moves h) \<and>
    unat (pb_held (pads_after h)) = min 255 (releases (map fst h) + releases (map snd h))"
  proof (induction h rule: rev_induct)
    case Nil
    then show ?case
      by (simp add: pads_after_def pad_bank_new_def pad_after_def field_moves_def releases_def)
  next
    case (snoc x h)
    obtain a b where x: "x = (a, b)" by (cases x)
    have step: "pads_after (h @ [x]) = fst (pad_bank_update (pads_after h) a b)" by (simp add: pads_after_def x)
    have pads: "pb_a (pads_after (h @ [x])) = pad_after (map fst (h @ [x]))" "pb_b (pads_after (h @ [x])) = pad_after (map snd (h @ [x]))"
      using snoc by (simp_all add: step [unfolded x] pad_bank_update_eq Let_def pad_after_def x)
    have on: "ps_on (pad_after (g @ [c])) = (c \<or> fst (last_two g))" for g c
      by (simp add: pad_after_eq split: prod.split)
    have before: "pad_field (pads_after h) = field_from (fst (pads_on h)) (snd (pads_on h))"
      using snoc by (simp add: pad_field_def pads_on_def pad_after_eq split: prod.split)
    have pads_x: "pads_on (h @ [x]) = (a \<or> fst (last_two (map fst h)), b \<or> fst (last_two (map snd h)))"
      by (simp add: pads_on_def x)
    have now: "ps_on (pad_update (pb_a (pads_after h)) a) = (a \<or> fst (last_two (map fst h)))"
      "ps_on (pad_update (pb_b (pads_after h)) b) = (b \<or> fst (last_two (map snd h)))"
      using on [of "map fst h" a] on [of "map snd h" b] snoc by (simp_all add: pad_after_def)
    have ih: "unat (pb_changes (pads_after h)) = min 255 (field_moves h)"
      "unat (pb_held (pads_after h)) = min 255 (releases (map fst h) + releases (map snd h))"
      using snoc by simp_all
    have changes: "unat (pb_changes (pads_after (h @ [x]))) = min 255 (field_moves (h @ [x]))"
      using ih(1) by (auto simp: step pad_bank_update_eq Let_def now before pads_x field_from_inject field_moves_snoc unat_saturating prod_eq_iff)
    have held: "unat (pb_held (pads_after (h @ [x]))) = min 255 (releases (map fst (h @ [x])) + releases (map snd (h @ [x])))"
      using ih(2) by (auto simp: step [unfolded x] pad_bank_update_eq Let_def now releases_snoc unat_saturating x)
    show ?case using pads changes held by simp
  qed
  then show ?thesis by (simp add: pad_field_def pads_on_def pad_after_eq split: prod.split)
qed

end
