(* ===== verification/Arith.thy ===== *)
theory Arith
  imports Prelude
begin

text \<open>
  The signed arithmetic under the control code: Rust's \<open>i32\<close> and \<open>i64\<close> operators as they run in the
  firmware image (the build turns the overflow checks off, so they wrap), the helper routines of
  \<open>src/motorcontroller/control/src/helpers.rs\<close>, the PI step of \<open>src/shared/base/src/pi.rs\<close> and the
  three-slot selector of \<open>src/shared/base/src/lane.rs\<close>.
\<close>

section \<open>Machine operators\<close>

definition as_i64 :: "int \<Rightarrow> int" where
  "as_i64 x = signed_take_bit 63 x"

lemma as_i64_id [simp]: "- 9223372036854775808 \<le> x \<Longrightarrow> x \<le> 9223372036854775807 \<Longrightarrow> as_i64 x = x"
  by (simp add: as_i64_def signed_take_bit_int_eq_self)

lemma as_i32_mod: "as_i32 x = (x + 2147483648) mod 4294967296 - 2147483648"
proof -
  have "signed_take_bit 31 x = (x + 2 ^ 31) mod 2 ^ 32 - 2 ^ 31"
    by (simp add: signed_take_bit_eq_take_bit_shift take_bit_eq_mod)
  then show ?thesis by (simp add: as_i32_def)
qed

lemma as_i32_add: "as_i32 (as_i32 x + y) = as_i32 (x + y)" "as_i32 (y + as_i32 x) = as_i32 (y + x)"
  by (simp_all add: as_i32_mod mod_simps algebra_simps)

definition add32 :: "int \<Rightarrow> int \<Rightarrow> int" where "add32 x y = as_i32 (x + y)"
definition sub32 :: "int \<Rightarrow> int \<Rightarrow> int" where "sub32 x y = as_i32 (x - y)"
definition mul32 :: "int \<Rightarrow> int \<Rightarrow> int" where "mul32 x y = as_i32 (x * y)"
definition neg32 :: "int \<Rightarrow> int" where "neg32 x = as_i32 (- x)"
definition add64 :: "int \<Rightarrow> int \<Rightarrow> int" where "add64 x y = as_i64 (x + y)"
definition sub64 :: "int \<Rightarrow> int \<Rightarrow> int" where "sub64 x y = as_i64 (x - y)"
definition mul64 :: "int \<Rightarrow> int \<Rightarrow> int" where "mul64 x y = as_i64 (x * y)"

lemmas machine_ops = add32_def sub32_def mul32_def neg32_def add64_def sub64_def mul64_def

text \<open>Which integers a variable of each type holds.\<close>

definition i16_range :: "int set" where "i16_range = {- 32768..32767}"
definition i32_range :: "int set" where "i32_range = {- 2147483648..2147483647}"

lemma as_i16_range: "as_i16 x \<in> i16_range"
  using as_i16_bounds [of x] by (simp add: i16_range_def)

lemma as_i32_range: "as_i32 x \<in> i32_range"
  using as_i32_bounds [of x] by (simp add: i32_range_def)

section \<open>Helpers\<close>

definition clamp_sym :: "int \<Rightarrow> int \<Rightarrow> int" where
  "clamp_sym v limit = (if v > limit then limit else if v < neg32 limit then neg32 limit else v)"

definition clamp :: "int \<Rightarrow> int \<Rightarrow> int \<Rightarrow> int" where
  "clamp v lo hi = (if v < lo then lo else if v > hi then hi else v)"

definition iabs :: "int \<Rightarrow> int" where
  "iabs x = (if x < 0 then neg32 x else x)"

text \<open>The second shift is on the unsigned view of the sign mask: the bias is \<open>2 ^ n - 1\<close> or 0.\<close>

definition shr_round_to_zero :: "int \<Rightarrow> nat \<Rightarrow> int" where
  "shr_round_to_zero x n =
     (let correction = as_i32 (drop_bit (32 - n) (take_bit 32 (drop_bit 31 x)))
      in drop_bit n (add32 x correction))"

record ramp_record =
  rr_current_value :: int
  rr_step_threshold :: int
  rr_step_bound :: int
  rr_small_step :: int
  rr_counter :: int

definition RAMP_STEP :: int where "RAMP_STEP = 0x20"
definition RAMP_COUNTER_CAP :: int where "RAMP_COUNTER_CAP = 0xFA"

definition ramp_step :: "int \<Rightarrow> int \<Rightarrow> ramp_record \<Rightarrow> ramp_record \<times> int" where
  "ramp_step target current_speed r =
     (if current_speed sdiv 1000 \<le> rr_step_threshold r then
        let r = r\<lparr>rr_step_bound := RAMP_STEP, rr_current_value := add32 (rr_current_value r) (rr_small_step r)\<rparr>
        in (r, rr_current_value r)
      else
        let r = (if rr_counter r < RAMP_COUNTER_CAP then r\<lparr>rr_counter := add32 (rr_counter r) 1\<rparr> else r);
            b = rr_step_bound r; cv = rr_current_value r;
            r = r\<lparr>rr_current_value :=
                   (if b < cv then sub32 cv b
                    else if cv > 0 then sub32 cv RAMP_STEP
                    else if neg32 b < cv then add32 cv RAMP_STEP
                    else add32 cv b)\<rparr>
        in (r, rr_current_value r))"

lemma clamp_sym_abs: "0 \<le> limit \<Longrightarrow> limit \<le> 2147483647 \<Longrightarrow> \<bar>clamp_sym v limit\<bar> \<le> limit"
  by (auto simp: clamp_sym_def neg32_def abs_le_iff)

lemma clamp_sym_id: "\<bar>v\<bar> \<le> limit \<Longrightarrow> limit \<le> 2147483647 \<Longrightarrow> clamp_sym v limit = v"
  by (auto simp: clamp_sym_def neg32_def)

lemma clamp_sym_max_min: "0 \<le> limit \<Longrightarrow> limit \<le> 2147483647 \<Longrightarrow> clamp_sym v limit = max (- limit) (min limit v)"
  by (auto simp: clamp_sym_def neg32_def)

lemma iabs_abs: "- 2147483648 < x \<Longrightarrow> x \<le> 2147483647 \<Longrightarrow> iabs x = \<bar>x\<bar>"
  by (auto simp: iabs_def neg32_def)

text \<open>The shift divides by a power of two and truncates toward zero.\<close>

lemma shr_round_to_zero_sdiv:
  assumes "1 \<le> n" "n \<le> 31" "x \<in> i32_range"
  shows "shr_round_to_zero x n = x sdiv 2 ^ n"
proof (cases "x < 0")
  case False
  then have "drop_bit 31 x = 0" using assms(3) by (simp add: i32_range_def drop_bit_eq_div)
  then show ?thesis
    using False assms(3)
    by (simp add: shr_round_to_zero_def add32_def i32_range_def drop_bit_eq_div signed_divide_int_def zsgn_def)
next
  case True
  define m where "m = (2 :: int) ^ n"
  have m: "0 < m" "m \<le> 2147483648"
    using assms(2) power_increasing [of n 31 "2 :: int"] by (simp_all add: m_def)
  have "drop_bit 31 x = - 1" using True assms(3) by (simp add: i32_range_def drop_bit_eq_div)
  then have "drop_bit (32 - n) (take_bit 32 (drop_bit 31 x)) = m - 1"
    using assms(1,2) drop_bit_mask_eq [of "32 - n" 32, where 'a = int]
    by (simp only: take_bit_minus_one_eq_mask) (simp add: m_def mask_eq_exp_minus_1)
  moreover have "as_i32 (m - 1) = m - 1" "as_i32 (x + (m - 1)) = x + (m - 1)"
    using m True assms(3) by (simp_all add: i32_range_def)
  ultimately have "shr_round_to_zero x n = (x + (m - 1)) div m"
    by (simp add: shr_round_to_zero_def add32_def drop_bit_eq_div m_def)
  also have "\<dots> = - (- x div m)"
  proof -
    define q r where "q = - x div m" and "r = - x mod m"
    have "- x = q * m + r" by (simp add: q_def r_def)
    then have "x + (m - 1) = (m - 1 - r) + (- q) * m" by (simp add: algebra_simps)
    moreover have "0 \<le> m - 1 - r" "m - 1 - r < m" using pos_mod_bound [OF m(1), of "- x"] pos_mod_sign [OF m(1), of "- x"] by (simp_all add: r_def)
    then have "(m - 1 - r) div m = 0" by (rule div_pos_pos_trivial)
    ultimately show ?thesis using m(1) by (simp only: div_mult_self1) (simp add: q_def)
  qed
  finally show ?thesis using True m by (simp add: signed_divide_int_def m_def)
qed

section \<open>The PI step\<close>

record pi_gains =
  pi_kp :: int
  pi_kp_divisor :: int
  pi_ki :: int
  pi_ki_divisor :: int
  pi_out_max :: int
  pi_int_max :: int

definition div_defined :: "int \<Rightarrow> int \<Rightarrow> int" where
  "div_defined num divisor = (if divisor = 0 then 0 else as_i32 (num sdiv divisor))"

definition pi_step :: "int \<Rightarrow> int \<Rightarrow> pi_gains \<Rightarrow> int \<Rightarrow> int \<times> int" where
  "pi_step reference measured g acc =
     (let e = sub32 reference measured;
          hi = pi_int_max g;
          s = add64 acc (mul64 e (pi_ki g));
          acc = as_i32 (min (max s (- hi)) hi);
          out = add32 (div_defined acc (pi_ki_divisor g)) (div_defined (mul32 e (pi_kp g)) (pi_kp_divisor g));
          hi = min (max (pi_out_max g) 0) 32767
      in (acc, as_i16 (min (max out (- hi)) hi)))"

section \<open>Three-slot selectors\<close>

datatype lane = LaneA | LaneB | LaneC

definition lane_from_index :: "u8 \<Rightarrow> lane option" where
  "lane_from_index i = (if i = 0 then Some LaneA else if i = 1 then Some LaneB else if i = 2 then Some LaneC else None)"

fun lane_index :: "lane \<Rightarrow> u8" where
  "lane_index LaneA = 0"
| "lane_index LaneB = 1"
| "lane_index LaneC = 2"

fun lane_pick :: "lane \<Rightarrow> 'a \<times> 'a \<times> 'a \<Rightarrow> 'a" where
  "lane_pick LaneA (a, b, c) = a"
| "lane_pick LaneB (a, b, c) = b"
| "lane_pick LaneC (a, b, c) = c"

end
