(* ===== verification/BalanceProps.thy ===== *)
theory BalanceProps
  imports Balance
begin

text \<open>
  The balance law computes its unbounded formula, the steering split keeps the common torque, and the live
  words stay in range and follow flash only where flash moved.
\<close>

section \<open>Wrapped positions\<close>

lemma as_i32_cong: "(x - y) mod 4294967296 = 0 \<Longrightarrow> as_i32 x = as_i32 y"
proof -
  assume "(x - y) mod 4294967296 = 0"
  then have "(x + 2147483648) mod 4294967296 = (y + 2147483648) mod 4294967296"
    by (simp add: mod_eq_dvd_iff mod_eq_0_iff_dvd)
  then show "as_i32 x = as_i32 y" by (simp add: as_i32_mod)
qed

lemma as_i32_diff: "(as_i32 x - x) mod 4294967296 = 0"
proof -
  have "as_i32 x - x = - ((x + 2147483648) div 4294967296) * 4294967296"
    by (simp add: as_i32_mod minus_mod_eq_div_mult [symmetric] algebra_simps)
  then show ?thesis by simp
qed

lemma as_i32_sub: "as_i32 (as_i32 x - y) = as_i32 (x - y)" "as_i32 (y - as_i32 x) = as_i32 (y - x)"
  using as_i32_diff [of x] by (auto intro!: as_i32_cong simp: mod_eq_0_iff_dvd dvd_minus_iff [of _ "as_i32 x - x", symmetric])

lemma as_i32_neg: "as_i32 (- as_i32 x) = as_i32 (- x)"
  using as_i32_sub(2) [of 0 x] by simp

lemma wheel_forward_wrap: "wheel_forward (as_i32 x) right_wheel = as_i32 (if right_wheel then - x else x)"
  by (simp add: wheel_forward_def neg32_def as_i32_neg)

text \<open>Twice the mean wheel motion of a tick, from two counters that wrap.\<close>

lemma fold_motion:
  "add32 (sub32 (as_i32 a) (as_i32 b)) (sub32 (as_i32 c) (as_i32 d)) = as_i32 ((a - b) + (c - d))"
  by (simp add: add32_def sub32_def as_i32_add as_i32_sub)

section \<open>The law without wrapping\<close>

definition bounded :: "int \<Rightarrow> int \<Rightarrow> int" where
  "bounded lim x = max (- lim) (min lim x)"

definition forward :: "bool \<Rightarrow> int \<Rightarrow> int" where
  "forward right_wheel x = (if right_wheel then - x else x)"

text \<open>The formula of the law over unbounded integers; \<open>motion\<close> is the sum of the two wheels' forward motion
  since the last tick, in edges.\<close>

definition sf_spec :: "sf_config \<Rightarrow> sf_inputs \<Rightarrow> sf_state \<Rightarrow> int \<Rightarrow> int \<times> int \<times> int \<times> int list \<times> int" where
  "sf_spec cfg inp st motion =
     (let v = forward (sfi_role_right inp) (sfi_wheel_rate_q12 inp);
          v_filt = sf_v_filt st + (v - sf_v_filt st) sdiv 4;
          target = sfi_value inp * sfc_speed_max cfg sdiv 128;
          v_ref = (if sfi_in_run inp then sf_v_ref st + bounded (sfc_speed_slew cfg) (target - sf_v_ref st) else 0);
          pos_err = (if sfi_in_run inp
                     then bounded (sfc_pos_clamp cfg * 20480) (sf_pos_err st + v_ref - motion * 10240) else 0);
          g = (if sfi_in_run inp
               then map (\<lambda>i. sf_live st ! i + bounded (if i = 0 then 2 else 1) (sfc_gains cfg ! i - sf_live st ! i)) [0..<4]
               else sfc_gains cfg);
          numer = g ! 0 * sfi_pitch_word inp sdiv 100 + g ! 1 * sfi_pitch_rate inp sdiv 1000 +
                  g ! 2 * pos_err sdiv 20480 + g ! 3 * bounded 131072 (v_ref - v_filt) sdiv 256
      in (v_filt, v_ref, pos_err, g,
          if sfi_scale inp = 0 then 0 else bounded 28500 (numer * 3900 sdiv sfi_scale inp)))"

text \<open>The ranges: the types' for the words a sensor or the link delivers, half the type for the wheel rate,
  the seams' for the configuration.\<close>

definition sf_config_ok :: "sf_config \<Rightarrow> bool" where
  "sf_config_ok cfg \<longleftrightarrow> length (sfc_gains cfg) = 4 \<and> set (sfc_gains cfg) \<subseteq> {0..32767} \<and>
     sfc_speed_max cfg \<in> {0..512} \<and> sfc_speed_slew cfg \<in> {1..4096} \<and> sfc_pos_clamp cfg \<in> {0..450}"

definition sf_inputs_ok :: "sf_inputs \<Rightarrow> bool" where
  "sf_inputs_ok inp \<longleftrightarrow> sfi_pitch_word inp \<in> i16_range \<and> sfi_pitch_rate inp \<in> i32_range \<and> sfi_value inp \<in> i16_range \<and>
     sfi_scale inp \<in> i16_range \<and> \<bar>sfi_wheel_rate_q12 inp\<bar> \<le> 1073741823"

definition sf_ok :: "sf_state \<Rightarrow> bool" where
  "sf_ok st \<longleftrightarrow> \<bar>sf_v_filt st\<bar> \<le> 1073741823 \<and> \<bar>sf_v_ref st\<bar> \<le> 131072 \<and> \<bar>sf_pos_err st\<bar> \<le> 9216000 \<and>
     length (sf_live st) = 4 \<and> set (sf_live st) \<subseteq> {0..32767}"

lemma list4: "length xs = 4 \<Longrightarrow> xs = [xs ! 0, xs ! 1, xs ! 2, xs ! 3]"
  by (auto simp: numeral_eq_Suc length_Suc_conv)

lemma sdiv_bound: "\<bar>a :: int\<bar> \<le> m \<Longrightarrow> \<bar>a sdiv b\<bar> \<le> m"
  using sdiv_abs_le [of a b] by linarith

lemma mul_bound: "\<bar>a :: int\<bar> \<le> m \<Longrightarrow> \<bar>b\<bar> \<le> n \<Longrightarrow> \<bar>a * b\<bar> \<le> m * n"
  by (simp add: abs_mult mult_mono)

lemma bounded_abs: "0 \<le> lim \<Longrightarrow> \<bar>bounded lim x\<bar> \<le> lim"
  by (auto simp: bounded_def)

lemma clamp_sym_bounded: "0 \<le> lim \<Longrightarrow> lim \<le> 2147483647 \<Longrightarrow> clamp_sym v lim = bounded lim v"
  by (simp add: clamp_sym_max_min bounded_def)

lemma clamp_sym64_bounded: "0 \<le> lim \<Longrightarrow> clamp_sym64 v lim = bounded lim v"
  by (auto simp: clamp_sym64_def bounded_def)

text \<open>A quarter of the way from one value to another does not overshoot.\<close>

lemma filter_step_bound:
  assumes "\<bar>x :: int\<bar> \<le> m" "\<bar>v\<bar> \<le> m"
  shows "\<bar>x + (v - x) sdiv 4\<bar> \<le> m"
  using assms by (auto simp: signed_divide_int_def sgn_if abs_if split: if_splits)

lemma gain_step:
  assumes "0 \<le> l" "l \<le> 32767" "0 \<le> t" "t \<le> 32767" "0 \<le> (c :: int)" "c \<le> 2"
  shows "as_i16 (add32 l (clamp_sym (sub32 t l) c)) = l + bounded c (t - l)" "0 \<le> l + bounded c (t - l)"
    "l + bounded c (t - l) \<le> 32767"
proof -
  show b: "0 \<le> l + bounded c (t - l)" "l + bounded c (t - l) \<le> 32767"
    using assms by (auto simp: bounded_def)
  have "sub32 t l = t - l" using assms by (simp add: sub32_def)
  then show "as_i16 (add32 l (clamp_sym (sub32 t l) c)) = l + bounded c (t - l)"
    using b assms by (simp add: clamp_sym_bounded add32_def)
qed


lemma word_of_eq:
  assumes "\<bar>numer\<bar> \<le> 1125899906842624"
  shows "word_of numer scale = (if scale = 0 then 0 else bounded 28500 (numer * 3900 sdiv scale))"
proof -
  have p: "\<bar>numer * 3900\<bar> \<le> 1125899906842624 * 3900" using assms by (simp add: abs_mult)
  then have m: "mul64 numer RAW_NUMERATOR = numer * 3900"
    by (simp add: mul64_def RAW_NUMERATOR_def abs_le_iff)
  have "\<bar>numer * 3900 sdiv scale\<bar> \<le> 1125899906842624 * 3900" by (rule sdiv_bound [OF p])
  then have "as_i64 (numer * 3900 sdiv scale) = numer * 3900 sdiv scale" by (simp add: abs_le_iff)
  moreover have "as_i16 (bounded 28500 x) = bounded 28500 x" for x by (simp add: bounded_def)
  ultimately show ?thesis by (simp add: word_of_def m clamp_sym64_bounded TORQUE_FULL_SCALE_def)
qed

lemma terms_eq:
  assumes "length g = 4" "set g \<subseteq> {0..32767}" "pitch \<in> i16_range" "rate \<in> i32_range" "\<bar>pos\<bar> \<le> 9216000" "\<bar>e\<bar> \<le> 131072"
  shows "terms g pitch rate pos e =
      [g ! 0 * pitch sdiv 100, g ! 1 * rate sdiv 1000, g ! 2 * pos sdiv 20480, g ! 3 * e sdiv 256]"
    and "\<bar>g ! 0 * pitch sdiv 100\<bar> \<le> 70368744177664" "\<bar>g ! 1 * rate sdiv 1000\<bar> \<le> 70368744177664"
    "\<bar>g ! 2 * pos sdiv 20480\<bar> \<le> 70368744177664" "\<bar>g ! 3 * e sdiv 256\<bar> \<le> 70368744177664"
proof -
  have g: "\<bar>g ! i\<bar> \<le> 32767" if "i < 4" for i
    using assms(1,2) that nth_mem [of i g] by (auto simp: subset_iff)
  have p: "\<bar>g ! 0 * pitch\<bar> \<le> 70368744177664" "\<bar>g ! 1 * rate\<bar> \<le> 70368744177664"
    "\<bar>g ! 2 * pos\<bar> \<le> 70368744177664" "\<bar>g ! 3 * e\<bar> \<le> 70368744177664"
    using mul_bound [OF g [of 0], of pitch 32768] mul_bound [OF g [of 1], of rate 2147483648]
      mul_bound [OF g [of 2] assms(5)] mul_bound [OF g [of 3] assms(6)] assms(3,4)
    by (simp_all add: i16_range_def i32_range_def abs_le_iff)
  then have "mul64 (g ! 0) pitch = g ! 0 * pitch" "mul64 (g ! 1) rate = g ! 1 * rate" "mul64 (g ! 2) pos = g ! 2 * pos"
    "mul64 (g ! 3) e = g ! 3 * e"
    by (simp_all add: mul64_def abs_le_iff)
  moreover have "[0..<4] = [0, 1, 2, 3 :: nat]" by (simp add: upt_rec)
  ultimately show "terms g pitch rate pos e =
      [g ! 0 * pitch sdiv 100, g ! 1 * rate sdiv 1000, g ! 2 * pos sdiv 20480, g ! 3 * e sdiv 256]"
    by (simp add: terms_def TERM_DIV_def)
  show "\<bar>g ! 0 * pitch sdiv 100\<bar> \<le> 70368744177664" "\<bar>g ! 1 * rate sdiv 1000\<bar> \<le> 70368744177664"
    "\<bar>g ! 2 * pos sdiv 20480\<bar> \<le> 70368744177664" "\<bar>g ! 3 * e sdiv 256\<bar> \<le> 70368744177664"
    by (rule sdiv_bound, fact p)+
qed

lemma gain_ramp_eq:
  assumes "length live = 4" "set live \<subseteq> {0..32767}" "length target = 4" "set target \<subseteq> {0..32767}"
  shows "gain_ramp live target = map (\<lambda>i. live ! i + bounded (if i = 0 then 2 else 1) (target ! i - live ! i)) [0..<4]"
    and "set (gain_ramp live target) \<subseteq> {0..32767}"
proof -
  have r: "0 \<le> live ! i" "live ! i \<le> 32767" "0 \<le> target ! i" "target ! i \<le> 32767" if "i < 4" for i
    using assms that nth_mem [of i live] nth_mem [of i target] by (auto simp: subset_iff)
  have c: "RAMP_CAPS ! i = (if i = 0 then 2 else 1)" if "i < 4" for i
    using that by (auto simp: RAMP_CAPS_def less_Suc_eq numeral_eq_Suc)
  note step = gain_step [OF r]
  show e: "gain_ramp live target = map (\<lambda>i. live ! i + bounded (if i = 0 then 2 else 1) (target ! i - live ! i)) [0..<4]"
    unfolding gain_ramp_def using step(1) c by (intro map_cong refl) auto
  show "set (gain_ramp live target) \<subseteq> {0..32767}"
    unfolding e using step(2,3) by auto
qed

text \<open>C30: The balance law computes its formula: for any sensor words of their types, a wheel rate of half the
  type, a configuration the seams let through and a state within its bounds, one pass leaves the
  machine arithmetic nowhere to wrap. The filter, the slewed reference, the clamped position error
  (fed by the true wheel motion although both counters wrap), the ramped gains and the torque word are
  those of the formula over unbounded integers, the word is within the output stage's full scale and 0
  on an unknown battery, and the state is within its bounds for the next pass.\<close>

theorem sf_step_exact:
  assumes "sf_config_ok cfg" "sf_inputs_ok inp" "sf_ok st"
    and "sfi_wheel_pos inp = as_i32 own" "sf_own_prev st = as_i32 (forward (sfi_role_right inp) own0)"
    and "sfi_peer_pos inp = as_i32 peer" "sf_peer_prev st = as_i32 (forward (\<not> sfi_role_right inp) peer0)"
    and "motion = forward (sfi_role_right inp) (own - own0) + forward (\<not> sfi_role_right inp) (peer - peer0)"
    and "motion \<in> i32_range" "sf_step cfg inp st = (st', word)"
  shows "sf_spec cfg inp st motion = (sf_v_filt st', sf_v_ref st', sf_pos_err st', sf_live st', word) \<and>
    \<bar>word\<bar> \<le> 28500 \<and> sf_ok st'"
proof -
  let ?right = "sfi_role_right inp" and ?run = "sfi_in_run inp"
  have cfg: "length (sfc_gains cfg) = 4" "set (sfc_gains cfg) \<subseteq> {0..32767}" "0 \<le> sfc_speed_max cfg" "sfc_speed_max cfg \<le> 512"
    "1 \<le> sfc_speed_slew cfg" "sfc_speed_slew cfg \<le> 4096" "0 \<le> sfc_pos_clamp cfg" "sfc_pos_clamp cfg \<le> 450"
    using assms(1) by (simp_all add: sf_config_ok_def)
  have st: "\<bar>sf_v_filt st\<bar> \<le> 1073741823" "\<bar>sf_v_ref st\<bar> \<le> 131072" "\<bar>sf_pos_err st\<bar> \<le> 9216000"
    "length (sf_live st) = 4" "set (sf_live st) \<subseteq> {0..32767}"
    using assms(3) by (simp_all add: sf_ok_def)
  have inp: "sfi_pitch_word inp \<in> i16_range" "sfi_pitch_rate inp \<in> i32_range" "sfi_value inp \<in> i16_range"
    "\<bar>sfi_wheel_rate_q12 inp\<bar> \<le> 1073741823"
    using assms(2) by (simp_all add: sf_inputs_ok_def)
  \<comment> \<open>the fold\<close>
  have fwd: "wheel_forward (as_i32 x) b = as_i32 (forward b x)" for x b
    by (simp add: wheel_forward_wrap forward_def)
  define dx2 where "dx2 = add32 (sub32 (wheel_forward (sfi_wheel_pos inp) ?right) (sf_own_prev st))
      (sub32 (wheel_forward (sfi_peer_pos inp) (\<not> ?right)) (sf_peer_prev st))"
  have dx2: "dx2 = motion"
    using assms(8,9) unfolding dx2_def assms(4-7) fwd fold_motion
    by (simp add: i32_range_def forward_def algebra_simps split: if_splits)
  \<comment> \<open>the filter\<close>
  define v where "v = forward ?right (sfi_wheel_rate_q12 inp)"
  have v: "wheel_forward (sfi_wheel_rate_q12 inp) ?right = v" "\<bar>v\<bar> \<le> 1073741823"
    using inp(4) by (auto simp: v_def wheel_forward_def forward_def neg32_def abs_le_iff)
  define filt where "filt = sf_v_filt st + (v - sf_v_filt st) sdiv 4"
  have filt_bound: "\<bar>filt\<bar> \<le> 1073741823" unfolding filt_def by (rule filter_step_bound [OF st(1) v(2)])
  then have filt: "add32 (sf_v_filt st) (sub32 v (sf_v_filt st) sdiv FILT_DIV) = filt"
    using st(1) v(2) by (simp add: filt_def add32_def sub32_def FILT_DIV_def abs_le_iff)
  \<comment> \<open>the reference\<close>
  define target where "target = sfi_value inp * sfc_speed_max cfg sdiv 128"
  have prod: "\<bar>sfi_value inp * sfc_speed_max cfg\<bar> \<le> 32768 * 512"
    using inp(3) cfg(3,4) by (intro mul_bound) (auto simp: i16_range_def abs_le_iff)
  then have target: "mul32 (sfi_value inp) (sfc_speed_max cfg) sdiv STICK_DIV = target"
    by (simp add: target_def mul32_def STICK_DIV_def abs_le_iff)
  have target_bound: "\<bar>target\<bar> \<le> 131072"
    using prod unfolding target_def by (auto simp: signed_divide_int_def sgn_if abs_if split: if_splits)
  define ref where "ref = (if ?run then sf_v_ref st + bounded (sfc_speed_slew cfg) (target - sf_v_ref st) else 0)"
  have ref_bound: "\<bar>ref\<bar> \<le> 131072" using st(2) target_bound cfg(5,6) by (auto simp: ref_def bounded_def)
  have ref: "?run \<Longrightarrow> add32 (sf_v_ref st) (clamp_sym (sub32 target (sf_v_ref st)) (sfc_speed_slew cfg)) = ref"
    using st(2) target_bound cfg(5,6) ref_bound by (simp add: ref_def sub32_def clamp_sym_bounded add32_def abs_le_iff)
  define pos where "pos = (if ?run then bounded (sfc_pos_clamp cfg * 20480) (sf_pos_err st + ref - motion * 10240) else 0)"
  have pos_bound: "\<bar>pos\<bar> \<le> 9216000" using cfg(7,8) by (auto simp: pos_def bounded_def)
  have pos: "?run \<Longrightarrow> as_i32 (clamp_sym64 (sub64 (add64 (sf_pos_err st) ref) (mul64 motion HALF_EDGE))
      (mul64 (sfc_pos_clamp cfg) POS_Q)) = pos"
    using assms(9) st(3) ref_bound cfg(7,8) pos_bound
    by (simp add: HALF_EDGE_def POS_Q_def mul64_def add64_def sub64_def i32_range_def abs_le_iff clamp_sym64_bounded pos_def
        signed_divide_int_def)
  \<comment> \<open>the gains and the word\<close>
  define g where "g = (if ?run
      then map (\<lambda>i. sf_live st ! i + bounded (if i = 0 then 2 else 1) (sfc_gains cfg ! i - sf_live st ! i)) [0..<4]
      else sfc_gains cfg)"
  have g: "(if ?run then gain_ramp (sf_live st) (sfc_gains cfg) else sfc_gains cfg) = g" "length g = 4" "set g \<subseteq> {0..32767}"
    using gain_ramp_eq [OF st(4,5) cfg(1,2)] cfg(1,2) by (simp_all add: g_def)
  define e where "e = bounded 131072 (ref - filt)"
  have e_bound: "\<bar>e\<bar> \<le> 131072" by (simp add: e_def bounded_abs)
  have e: "clamp_sym (sub32 ref filt) E_V_CLAMP = e"
    using ref_bound filt_bound by (simp add: e_def sub32_def E_V_CLAMP_def clamp_sym_bounded abs_le_iff)
  note t = terms_eq [OF g(2,3) inp(1,2) pos_bound e_bound]
  define numer where "numer = g ! 0 * sfi_pitch_word inp sdiv 100 + g ! 1 * sfi_pitch_rate inp sdiv 1000 +
      g ! 2 * pos sdiv 20480 + g ! 3 * e sdiv 256"
  have numer_bound: "\<bar>numer\<bar> \<le> 1125899906842624" using t(2-5) unfolding numer_def by linarith
  have numer: "add64 (add64 (add64 (g ! 0 * sfi_pitch_word inp sdiv 100) (g ! 1 * sfi_pitch_rate inp sdiv 1000))
      (g ! 2 * pos sdiv 20480)) (g ! 3 * e sdiv 256) = numer"
    using t(2-5) by (simp add: add64_def numer_def abs_le_iff)
  have step: "word = word_of numer (sfi_scale inp)" "sf_v_filt st' = filt" "sf_v_ref st' = ref" "sf_pos_err st' = pos" "sf_live st' = g"
  proof -
    note run = assms(10) [unfolded sf_step_def Let_def dx2_def [symmetric] dx2 v(1) target]
    have "word = word_of numer (sfi_scale inp) \<and> sf_v_filt st' = filt \<and> sf_v_ref st' = ref \<and> sf_pos_err st' = pos \<and> sf_live st' = g"
    proof (cases ?run)
      case True
      have gr: "gain_ramp (sf_live st) (sfc_gains cfg) = g" using g(1) True by simp
      show ?thesis using run by (auto simp: True filt ref [OF True] pos [OF True] gr e t(1) numer [unfolded One_nat_def])
    next
      case False
      have "sfc_gains cfg = g" "ref = 0" "pos = 0" using False by (simp_all add: g_def ref_def pos_def)
      then show ?thesis using run e t(1) numer [unfolded One_nat_def] by (auto simp: False filt)
    qed
    then show "word = word_of numer (sfi_scale inp)" "sf_v_filt st' = filt" "sf_v_ref st' = ref" "sf_pos_err st' = pos"
      "sf_live st' = g" by simp_all
  qed
  have "sf_spec cfg inp st motion = (filt, ref, pos, g, word)"
    unfolding step(1) word_of_eq [OF numer_bound] sf_spec_def Let_def v_def [symmetric] filt_def [symmetric]
      target_def [symmetric] ref_def [symmetric] pos_def [symmetric] g_def [symmetric] e_def [symmetric] numer_def [symmetric]
    by (rule refl)
  moreover have "\<bar>word\<bar> \<le> 28500" unfolding step(1) word_of_eq [OF numer_bound] by (simp add: bounded_abs)
  ultimately show ?thesis
    using filt_bound ref_bound pos_bound g(2,3) by (simp add: step sf_ok_def)
qed


definition demo_config :: sf_config where
  "demo_config = \<lparr>sfc_gains = [3491, 4002, 197, 926], sfc_speed_max = 512, sfc_speed_slew = 41, sfc_pos_clamp = 90\<rparr>"

definition demo_reading :: sf_inputs where
  "demo_reading =
     \<lparr>sfi_pitch_word = - 150, sfi_pitch_rate = - 400, sfi_wheel_rate_q12 = 900, sfi_wheel_pos = - 2147483648,
      sfi_peer_pos = 11, sfi_role_right = False, sfi_value = 12000, sfi_scale = 2960, sfi_in_run = True\<rparr>"

definition demo_running :: sf_state where
  "demo_running = sf_default\<lparr>sf_live := [3400, 4002, 197, 926], sf_own_prev := 2147483646, sf_peer_prev := - 12\<rparr>"

lemma sf_step_exact_witness:
  "\<exists>st' word. sf_step demo_config demo_reading demo_running = (st', word) \<and> \<bar>word\<bar> \<le> 28500 \<and>
     sf_spec demo_config demo_reading demo_running 3 = (sf_v_filt st', sf_v_ref st', sf_pos_err st', sf_live st', word)"
proof -
  obtain st' word where run: "sf_step demo_config demo_reading demo_running = (st', word)" by fastforce
  have "sf_config_ok demo_config" "sf_inputs_ok demo_reading" "sf_ok demo_running"
    by (simp_all add: sf_config_ok_def demo_config_def sf_inputs_ok_def demo_reading_def sf_ok_def demo_running_def
        sf_default_def i16_range_def i32_range_def)
  note ok = this
  have "sfi_wheel_pos demo_reading = as_i32 2147483648" "sfi_peer_pos demo_reading = as_i32 11"
    "sf_own_prev demo_running = as_i32 (forward (sfi_role_right demo_reading) 2147483646)"
    "sf_peer_prev demo_running = as_i32 (forward (\<not> sfi_role_right demo_reading) 12)"
    by (simp_all add: demo_reading_def demo_running_def forward_def as_i32_mod)
  note pos = this
  have "3 = forward (sfi_role_right demo_reading) (2147483648 - 2147483646) + forward (\<not> sfi_role_right demo_reading) (11 - 12)"
    by (simp add: demo_reading_def forward_def)
  from sf_step_exact [OF ok pos(1,3,2,4) this _ run] run show ?thesis by (auto simp: i32_range_def)
qed

section \<open>The steering split\<close>

lemma wheel_split_eq:
  assumes "\<bar>t\<bar> \<le> 28500" "turn \<in> i32_range"
  defines "k \<equiv> bounded (28500 - \<bar>t\<bar>) turn"
  shows "wheel_split t turn side_right = (if side_right then (t + k, t - k) else (t - k, t + k))" "\<bar>k\<bar> \<le> 28500 - \<bar>t\<bar>"
proof -
  let ?room = "28500 - \<bar>t\<bar>"
  show k: "\<bar>k\<bar> \<le> ?room" unfolding k_def by (rule bounded_abs) (use assms(1) in simp)
  have "iabs t = \<bar>t\<bar>" using assms(1) by (intro iabs_abs) linarith+
  moreover have "sub32 28500 \<bar>t\<bar> = ?room" using assms(1) by (simp add: sub32_def)
  moreover have "clamp_sym turn ?room = k" unfolding k_def using assms(1) by (intro clamp_sym_bounded) linarith+
  moreover have "as_i16 (add32 t k) = t + k" "as_i16 (sub32 t k) = t - k"
    using assms(1) k by (simp_all add: add32_def sub32_def abs_if split: if_splits)
  ultimately show "wheel_split t turn side_right = (if side_right then (t + k, t - k) else (t - k, t + k))"
    using assms(1) by (simp add: wheel_split_def Let_def TORQUE_FULL_SCALE_def)
qed

text \<open>The steering split: for a common torque within full scale and any turn, the two wheels' demands add
  up to exactly twice the common torque, neither leaves the full scale, and they differ by twice the
  turn whenever that fits (otherwise by as much as fits, with the turn's sign); a positive turn gives
  the right wheel the more positive demand, on either side of the machine.\<close>

theorem wheel_split_exact:
  assumes "\<bar>t\<bar> \<le> 28500" "turn \<in> i32_range" "wheel_split t turn side_right = (own, peer)"
  shows "own + peer = 2 * t \<and> \<bar>own\<bar> \<le> 28500 \<and> \<bar>peer\<bar> \<le> 28500 \<and>
    (if side_right then own - peer else peer - own) = 2 * bounded (28500 - \<bar>t\<bar>) turn"
proof -
  note split = wheel_split_eq(1) [OF assms(1,2), of side_right] wheel_split_eq(2) [OF assms(1,2)]
  have "\<bar>t + bounded (28500 - \<bar>t\<bar>) turn\<bar> \<le> 28500" "\<bar>t - bounded (28500 - \<bar>t\<bar>) turn\<bar> \<le> 28500"
    using split(2) by linarith+
  then show ?thesis using split(1) assms(3) by (auto split: if_splits)
qed

lemma wheel_split_exact_witness: "wheel_split 28000 3000 True = (28500, 27500)"
proof -
  obtain own peer where s: "wheel_split 28000 3000 True = (own, peer)" by fastforce
  from wheel_split_exact [OF _ _ this] show ?thesis
    by (simp add: s i32_range_def bounded_def)
qed

section \<open>The live words\<close>

definition shadow_ok :: "gain_shadow \<Rightarrow> bool" where
  "shadow_ok s \<longleftrightarrow> length (gs_live s) = 6 \<and> length (gs_stored s) = 6 \<and> length (gs_max s) = 6 \<and>
     (\<forall>i<6. MINIMA ! i \<le> gs_max s ! i \<and> MINIMA ! i \<le> gs_live s ! i \<and> gs_live s ! i \<le> gs_max s ! i)"

text \<open>What reaches the words: a tune write, the maxima read at an arm, the words read from flash.\<close>

datatype tune_event = TuneSet u8 u8 int | ArmMaxima "int list" | FlashRead "int list"

fun tune_event_ok :: "tune_event \<Rightarrow> bool" where
  "tune_event_ok (ArmMaxima m) = (length m = 4)"
| "tune_event_ok (FlashRead w) = (length w = 6)"
| "tune_event_ok (TuneSet fid idx v) = True"

fun apply_event :: "gain_shadow \<Rightarrow> tune_event \<Rightarrow> gain_shadow" where
  "apply_event s (TuneSet fid idx v) = fst (shadow_set s fid idx v)"
| "apply_event s (ArmMaxima m) = re_apply_max s m"
| "apply_event s (FlashRead w) = reconcile s w"

lemma MINIMA_nth: "i < 6 \<Longrightarrow> MINIMA ! i = (if i = 5 then 1 else 0)"
  by (auto simp: MINIMA_def GAIN_MIN_def REFERENCE_MIN_def less_Suc_eq numeral_eq_Suc)

lemma maxima_ok: "length m = 4 \<Longrightarrow> length (maxima m) = 6 \<and> (\<forall>i<6. MINIMA ! i \<le> maxima m ! i)"
  by (auto simp: MINIMA_nth maxima_def REFERENCE_MAX_def GAIN_MIN_def nth_append nth_Cons' less_Suc_eq numeral_eq_Suc)

lemma clamp_all_nth: "i < 6 \<Longrightarrow> clamp_all t mx ! i = (if t ! i < MINIMA ! i then MINIMA ! i else min (mx ! i) (t ! i))"
  by (simp add: clamp_all_def TUNED_def GAINS_def REFERENCE_WORDS_def)

lemma length_clamp_all [simp]: "length (clamp_all t mx) = 6"
  by (simp add: clamp_all_def TUNED_def GAINS_def REFERENCE_WORDS_def)

lemma reconcile_from_nth:
  assumes "length (gs_live s) = k + length c" "length (gs_stored s) = k + length c"
  shows "gs_max (reconcile_from k c s) = gs_max s \<and>
    length (gs_live (reconcile_from k c s)) = k + length c \<and> length (gs_stored (reconcile_from k c s)) = k + length c \<and>
    (\<forall>i < k + length c.
       gs_stored (reconcile_from k c s) ! i = (if i < k then gs_stored s ! i else c ! (i - k)) \<and>
       gs_live (reconcile_from k c s) ! i =
         (if i < k \<or> c ! (i - k) = gs_stored s ! i then gs_live s ! i else c ! (i - k)))"
  using assms
proof (induction k c s rule: reconcile_from.induct)
  case (2 k fresh c s)
  define s' where "s' = (if fresh \<noteq> gs_stored s ! k
      then s\<lparr>gs_stored := (gs_stored s)[k := fresh], gs_live := (gs_live s)[k := fresh]\<rparr> else s)"
  have len: "length (gs_live s') = Suc k + length c" "length (gs_stored s') = Suc k + length c" "gs_max s' = gs_max s"
    using 2(2,3) by (simp_all add: s'_def)
  have run: "reconcile_from k (fresh # c) s = reconcile_from (Suc k) c s'" by (simp add: s'_def)
  note ih = 2(1) [folded s'_def, OF len(1,2)]
  have same: "gs_stored s' ! i = gs_stored s ! i" "gs_live s' ! i = gs_live s ! i" if "i \<noteq> k" for i
    using that by (simp_all add: s'_def)
  have at: "gs_stored s' ! k = fresh" "gs_live s' ! k = (if fresh = gs_stored s ! k then gs_live s ! k else fresh)"
    using 2(2,3) by (simp_all add: s'_def)
  have "gs_stored (reconcile_from (Suc k) c s') ! i = (if i < k then gs_stored s ! i else (fresh # c) ! (i - k)) \<and>
      gs_live (reconcile_from (Suc k) c s') ! i =
         (if i < k \<or> (fresh # c) ! (i - k) = gs_stored s ! i then gs_live s ! i else (fresh # c) ! (i - k))"
    if i: "i < Suc k + length c" for i
  proof -
    from ih i have st: "gs_stored (reconcile_from (Suc k) c s') ! i = (if i < Suc k then gs_stored s' ! i else c ! (i - Suc k))"
      and lv: "gs_live (reconcile_from (Suc k) c s') ! i =
         (if i < Suc k \<or> c ! (i - Suc k) = gs_stored s' ! i then gs_live s' ! i else c ! (i - Suc k))"
      by blast+
    consider "i < k" | "i = k" | "Suc k \<le> i" by linarith
    then show ?thesis
    proof cases
      case 1
      then show ?thesis unfolding st lv by (simp add: same)
    next
      case 2
      then show ?thesis unfolding st lv by (simp add: at)
    next
      case 3
      then have "i - k = Suc (i - Suc k)" by simp
      then show ?thesis using 3 unfolding st lv by (simp add: same)
    qed
  qed
  then show ?case unfolding run using ih len(3) by simp
qed simp


lemma reconcile_nth:
  assumes "shadow_ok s"
  shows "gs_max (reconcile s w) = gs_max s" "length (gs_live (reconcile s w)) = 6" "length (gs_stored (reconcile s w)) = 6"
    "i < 6 \<Longrightarrow> gs_live (reconcile s w) ! i =
       (if clamp_all w (gs_max s) ! i = gs_stored s ! i then gs_live s ! i else clamp_all w (gs_max s) ! i)"
  using reconcile_from_nth [of s 0 "clamp_all w (gs_max s)"] assms by (simp_all add: reconcile_def shadow_ok_def)

lemma clamp_all_range:
  assumes "i < 6" "MINIMA ! i \<le> mx ! i"
  shows "MINIMA ! i \<le> clamp_all t mx ! i" "clamp_all t mx ! i \<le> mx ! i"
  using assms by (simp_all add: clamp_all_nth)

lemma shadow_ok_init: "length flash = 6 \<Longrightarrow> shadow_ok (shadow_of_stored flash)"
  using maxima_ok [of DEFAULT_GAIN_MAX] clamp_all_range
  by (simp add: shadow_ok_def shadow_of_stored_def Let_def DEFAULT_GAIN_MAX_def)

lemma tune_slot_less: "tune_slot fid idx = Some i \<Longrightarrow> i < 6"
  by (auto simp: tune_slot_def Let_def GAINS_def REFERENCE_WORDS_def split: if_splits)

lemma shadow_ok_event:
  assumes "shadow_ok s" "tune_event_ok e"
  shows "shadow_ok (apply_event s e)"
proof (cases e)
  case (TuneSet fid idx v)
  have "shadow_ok (s\<lparr>gs_live := (gs_live s)[i := v]\<rparr>)" if "i < 6" "MINIMA ! i \<le> v" "v \<le> gs_max s ! i" for i
    using assms(1) that by (auto simp: shadow_ok_def nth_list_update)
  then show ?thesis
    using TuneSet assms(1) tune_slot_less by (auto simp: shadow_set_def split: option.split)
next
  case (ArmMaxima m)
  then show ?thesis
    using assms maxima_ok [of m] clamp_all_range by (auto simp: shadow_ok_def re_apply_max_def Let_def)
next
  case (FlashRead w)
  have "MINIMA ! i \<le> gs_live (reconcile s w) ! i \<and> gs_live (reconcile s w) ! i \<le> gs_max s ! i" if "i < 6" for i
    using reconcile_nth(4) [OF assms(1) that, of w] clamp_all_range [OF that, of "gs_max s" w] assms(1) that
    by (simp add: shadow_ok_def)
  then show ?thesis
    using FlashRead reconcile_nth(1-3) [OF assms(1), of w] assms(1) by (simp add: shadow_ok_def)
qed

text \<open>The live tunable words under any sequence of tune writes, arm-time reads of the maxima and flash
  reads, from boot: every word stays between its minimum and its current maximum; a tune write is taken
  exactly when the key is one of the six words and the value in that range, and then reads back; a
  flash read moves exactly the words whose clamped flash value differs from the one last read, so a
  word tuned live survives a read of unchanged flash.\<close>

theorem live_words:
  assumes "length flash = 6" "list_all tune_event_ok events" "s = foldl apply_event (shadow_of_stored flash) events"
  shows "(\<forall>i<6. MINIMA ! i \<le> gs_live s ! i \<and> gs_live s ! i \<le> gs_max s ! i) \<and>
    (\<forall>fid idx v. snd (shadow_set s fid idx v) = Inr () \<longleftrightarrow>
       (\<exists>i. tune_slot fid idx = Some i \<and> MINIMA ! i \<le> v \<and> v \<le> gs_max s ! i)) \<and>
    (\<forall>fid idx v. snd (shadow_set s fid idx v) = Inr () \<longrightarrow> shadow_get (fst (shadow_set s fid idx v)) fid idx = Some v) \<and>
    (\<forall>w. \<forall>i<6. gs_live (reconcile s w) ! i =
       (if clamp_all w (gs_max s) ! i = gs_stored s ! i then gs_live s ! i else clamp_all w (gs_max s) ! i))"
proof -
  have "shadow_ok (foldl apply_event s0 events)" if "shadow_ok s0" for s0
    using assms(2) that by (induction events arbitrary: s0) (simp_all add: shadow_ok_event)
  then have ok: "shadow_ok s" using shadow_ok_init [OF assms(1)] assms(3) by simp
  then have len: "length (gs_live s) = 6" by (simp add: shadow_ok_def)
  show ?thesis
    using ok len tune_slot_less reconcile_nth(4) [OF ok]
    by (auto simp: shadow_ok_def shadow_set_def shadow_get_def split: option.splits)
qed

lemma live_words_witness:
  "snd (shadow_set (foldl apply_event (shadow_of_stored [1, 2, 3, 4, 5, 6]) [ArmMaxima [9, 9, 9, 9]]) 0x27 1 9) = Inr () \<and>
   snd (shadow_set (foldl apply_event (shadow_of_stored [1, 2, 3, 4, 5, 6]) [ArmMaxima [9, 9, 9, 9]]) 0x27 1 10) \<noteq> Inr ()"
proof -
  let ?s = "foldl apply_event (shadow_of_stored [1, 2, 3, 4, 5, 6]) [ArmMaxima [9, 9, 9, 9]]"
  have "gs_max ?s ! 1 = 9" "MINIMA ! 1 = 0" "tune_slot 0x27 1 = Some 1" by code_simp+
  then show ?thesis
    using live_words [of "[1, 2, 3, 4, 5, 6]" "[ArmMaxima [9, 9, 9, 9]]" ?s] by simp
qed

end
