(* ===== verification/Engage.thy ===== *)
theory Engage
  imports Balance
begin

text \<open>
  The balance engagement machine, \<open>src/motorcontroller/control/src/fsm.rs\<close>, with its constants and the gain
  ramp of \<open>config.rs\<close>. The Q number type of three words is a third-party crate's (\<open>base::fixed::Fix\<close>): the
  operations the code uses of it are the parameter \<open>fix_ops\<close>, and nothing here depends on what they compute.
\<close>

section \<open>The number type\<close>

record 'f fix_ops =
  fx_num :: "int \<Rightarrow> int \<Rightarrow> 'f"
  fx_add :: "'f \<Rightarrow> 'f \<Rightarrow> 'f"
  fx_mul :: "'f \<Rightarrow> 'f \<Rightarrow> 'f"
  fx_round_to_zero :: "'f \<Rightarrow> 'f"
  fx_to_bits :: "'f \<Rightarrow> int"

text \<open>\<open>fx_num F n d\<close> stands for \<open>Fix::from_num\<close> of the decimal literal \<open>n / d\<close>; \<open>Fix::ZERO\<close> is \<open>fx_num F 0 1\<close>.\<close>

definition FRAC_NBITS :: nat where "FRAC_NBITS = 32"

definition q_to_int_d2iz :: "'f fix_ops \<Rightarrow> 'f \<Rightarrow> int" where
  "q_to_int_d2iz F x = drop_bit FRAC_NBITS (fx_to_bits F (fx_round_to_zero F x))"

section \<open>The gating cell\<close>

record 'f gating_filter =
  gf_state :: 'f

definition gating_new :: "'f fix_ops \<Rightarrow> 'f gating_filter" where
  "gating_new F = \<lparr>gf_state = fx_num F 0 1\<rparr>"

definition gating_tick :: "'f fix_ops \<Rightarrow> 'f \<Rightarrow> 'f gating_filter \<Rightarrow> 'f gating_filter \<times> int" where
  "gating_tick F up_axis g =
     (let g = g\<lparr>gf_state := fx_add F (fx_mul F (fx_num F 2 100) up_axis) (fx_mul F (fx_num F 98 100) (gf_state g))\<rparr>
      in (g, as_i16 (q_to_int_d2iz F (gf_state g))))"

section \<open>Gains and constants\<close>

record gain_triple =
  gt_kp :: int
  gt_bk :: int
  gt_pr :: int

definition triple :: "int \<Rightarrow> int \<Rightarrow> int \<Rightarrow> gain_triple" where
  "triple kp bk pr = \<lparr>gt_kp = kp, gt_bk = bk, gt_pr = pr\<rparr>"

definition STANDBY_SET :: gain_triple where "STANDBY_SET = triple 0x32 0x14 0"
definition ARMING_SEED_ORIENT_NZ :: gain_triple where "ARMING_SEED_ORIENT_NZ = triple 1000 300 0"

record gain_profile =
  gp_coeff1 :: int
  gp_coeff2 :: int
  gp_coeff3 :: int

definition profile_of :: "gain_triple \<Rightarrow> gain_profile" where
  "profile_of t = \<lparr>gp_coeff1 = gt_kp t, gp_coeff2 = gt_bk t, gp_coeff3 = gt_pr t\<rparr>"

definition as_triple :: "gain_profile \<Rightarrow> gain_triple" where
  "as_triple p = triple (gp_coeff1 p) (gp_coeff2 p) (gp_coeff3 p)"

definition ENV_CAP :: int where "ENV_CAP = 0x6F54"
definition ENV_RAMP_UP :: int where "ENV_RAMP_UP = 200"
definition ENV_DECAY :: int where "ENV_DECAY = 1000"
definition UPRIGHT_LIMIT :: int where "UPRIGHT_LIMIT = 0x9C3"
definition UPRIGHT_LIMIT_ALT :: int where "UPRIGHT_LIMIT_ALT = 0x1D4B"
definition TILT_LIMIT :: int where "TILT_LIMIT = 4500"
definition GATING_THRESHOLD :: int where "GATING_THRESHOLD = 500"
definition PICKUP_TRIP :: int where "PICKUP_TRIP = 0x14"
definition PICKUP_CAP :: int where "PICKUP_CAP = 100"
definition WINDDOWN_TRIP :: int where "WINDDOWN_TRIP = 10"
definition PROMOTE_TRIP :: int where "PROMOTE_TRIP = 5"
definition DEBOUNCE_CAP :: int where "DEBOUNCE_CAP = 0x8ACE"

lemmas engage_consts = ENV_CAP_def ENV_RAMP_UP_def ENV_DECAY_def UPRIGHT_LIMIT_def UPRIGHT_LIMIT_ALT_def
  TILT_LIMIT_def GATING_THRESHOLD_def PICKUP_TRIP_def PICKUP_CAP_def WINDDOWN_TRIP_def PROMOTE_TRIP_def
  DEBOUNCE_CAP_def

section \<open>The gain ramp\<close>

definition PROP_DIVISOR :: int where "PROP_DIVISOR = 100"
definition BATT_DIVISOR :: int where "BATT_DIVISOR = 10000"
definition DERIV_DIVISOR :: int where "DERIV_DIVISOR = 100"
definition PP_BOUND :: int where "PP_BOUND = UPRIGHT_LIMIT"
definition BV_BOUND :: int where "BV_BOUND = 87266"
definition KP_SHARE :: int where "KP_SHARE = 180"
definition BK_SHARE :: int where "BK_SHARE = 45"
definition PR_SHARE :: int where "PR_SHARE = 10"

function gcd32 :: "u32 \<Rightarrow> u32 \<Rightarrow> u32" where
  "gcd32 a b = (if b = 0 then a else gcd32 b (a mod b))"
  by pat_completeness auto
termination
  by (relation "measure (\<lambda>(a, b). unat b)") (auto simp: unat_mod word_unat_eq_iff [of _ 0] intro!: mod_less_divisor)

definition reduced :: "int \<Rightarrow> int \<Rightarrow> int \<Rightarrow> u32 \<times> u32" where
  "reduced share divisor bound =
     (let num = word_of_int (mul32 share divisor);
          den = word_of_int (mul32 RAW_NUMERATOR bound);
          g = gcd32 num den
      in (num div g, den div g))"

definition KP_FRAC :: "u32 \<times> u32" where "KP_FRAC = reduced KP_SHARE PROP_DIVISOR PP_BOUND"
definition BK_FRAC :: "u32 \<times> u32" where "BK_FRAC = reduced BK_SHARE BATT_DIVISOR BV_BOUND"

definition ramp_caps :: "'f fix_ops \<Rightarrow> int \<Rightarrow> 'f \<Rightarrow> u32 \<times> u32 \<times> u32" where
  "ramp_caps F scale kd =
     (let s = (if scale > 0 then word_of_int scale else 0 :: u32);
          kp = s * fst KP_FRAC div snd KP_FRAC;
          bk = s * fst BK_FRAC div snd BK_FRAC;
          mag = (word_of_int \<bar>fx_to_bits F kd\<bar> :: 64 word);
          kd_ceil = (ucast (drop_bit 32 mag + (if (ucast mag :: u32) \<noteq> 0 then 1 else 0)) :: u32);
          pr = (if kd_ceil = 0 then 0xFFFFFFFF
                else s * word_of_int (mul32 PR_SHARE DERIV_DIVISOR) div word_of_int RAW_NUMERATOR div kd_ceil)
      in (kp, bk, pr))"

definition gain_step :: "int \<Rightarrow> int \<Rightarrow> u32 \<Rightarrow> int" where
  "gain_step live target cap =
     (let c = (if cap = 0 then 1 else if cap > 0x7FFFFFFF then 0x7FFFFFFF else as_i32 (uint cap))
      in add32 live (clamp (sub32 target live) (neg32 c) c))"

definition ramp_toward :: "'f fix_ops \<Rightarrow> gain_triple \<Rightarrow> gain_triple \<Rightarrow> int \<Rightarrow> 'f \<Rightarrow> gain_triple" where
  "ramp_toward F live target scale kd =
     (case ramp_caps F scale kd of
        (kp, bk, pr) \<Rightarrow>
          triple (gain_step (gt_kp live) (gt_kp target) kp) (gain_step (gt_bk live) (gt_bk target) bk)
            (gain_step (gt_pr live) (gt_pr target) pr))"

section \<open>The machine\<close>

datatype sub_state = Idle | Arming | AltEngaged | Run

record 'f fsm_inputs =
  fi_orientation_nz :: bool
  fi_upright_ref :: 'f
  fi_pre_gate_clear :: bool
  fi_smoothed_ref :: int
  fi_gating_field :: int
  fi_rider_present :: bool
  fi_battery_ok :: bool
  fi_over_current :: bool
  fi_stall :: bool
  fi_comms_loss :: bool
  fi_tilt :: bool
  fi_enable_bytes_clear :: bool
  fi_power_enable :: bool
  fi_stop_byte :: bool
  fi_winddown_enables_clear :: bool
  fi_promote_condition :: bool
  fi_ref_9c :: int
  fi_ref_34 :: int
  fi_ref_36 :: int
  fi_feedback_fb :: int
  fi_pid_scale :: int
  fi_pid_kd :: 'f

record 'f fsm_state =
  fs_sub_state :: sub_state
  fs_env :: int
  fs_out_mirror :: int
  fs_gains :: gain_triple
  fs_base_coeff :: 'f
  fs_balancing_active :: bool
  fs_word_84 :: int
  fs_word_88 :: int
  fs_word_8c :: int
  fs_promote_counter :: int
  fs_winddown_counter :: int
  fs_pickup_counter :: int
  fs_sub_state_shadow :: sub_state
  fs_prev_fb :: int
  fs_tracking_delta :: int
  fs_torque_setpoint :: int

definition fsm_default :: "'f fix_ops \<Rightarrow> 'f fsm_state" where
  "fsm_default F =
     \<lparr>fs_sub_state = Idle, fs_env = 0, fs_out_mirror = 0, fs_gains = STANDBY_SET, fs_base_coeff = fx_num F 0 1,
      fs_balancing_active = False, fs_word_84 = 0, fs_word_88 = 0, fs_word_8c = 0, fs_promote_counter = 0,
      fs_winddown_counter = 0, fs_pickup_counter = 0, fs_sub_state_shadow = Idle, fs_prev_fb = 0,
      fs_tracking_delta = 0, fs_torque_setpoint = 0\<rparr>"

definition tilt_cutout :: "int \<Rightarrow> int \<Rightarrow> bool" where
  "tilt_cutout pitch_word roll_word \<longleftrightarrow> iabs pitch_word > TILT_LIMIT \<or> iabs roll_word > TILT_LIMIT"

definition fsm_idle :: "'f fix_ops \<Rightarrow> 'f fsm_inputs \<Rightarrow> gain_profile \<Rightarrow> 'f fsm_state \<Rightarrow> 'f fsm_state" where
  "fsm_idle F inp profile st =
     (let st = st\<lparr>fs_out_mirror := 0\<rparr>;
          st = (if fs_env st < 0x3E9 then
                  if fs_env st < - 1000 then st\<lparr>fs_env := add32 (fs_env st) ENV_DECAY\<rparr> else st\<lparr>fs_env := 0\<rparr>
                else st\<lparr>fs_env := sub32 (fs_env st) ENV_DECAY\<rparr>)
      in if \<not> fi_pre_gate_clear inp then st
         else
           let scaled = as_i16 (q_to_int_d2iz F (fx_mul F (fi_upright_ref inp) (fx_num F 100 1)));
               mag = iabs scaled;
               skip = (if fi_orientation_nz inp then mag > UPRIGHT_LIMIT_ALT else mag > UPRIGHT_LIMIT)
           in if skip then st
              else
                let faults_clear = \<not> fi_over_current inp \<and> \<not> fi_stall inp \<and> \<not> fi_comms_loss inp \<and> \<not> fi_tilt inp \<and>
                      fi_enable_bytes_clear inp;
                    engage = fi_gating_field inp > GATING_THRESHOLD \<and> fi_rider_present inp \<and> fi_battery_ok inp \<and>
                      faults_clear \<and> fi_power_enable inp
                in if engage then
                     let st = st\<lparr>fs_sub_state := Arming, fs_word_84 := 0, fs_word_88 := 0, fs_balancing_active := True,
                                 fs_env := 0\<rparr>
                     in if fi_orientation_nz inp then
                          st\<lparr>fs_base_coeff := fx_num F 3 1, fs_gains := ARMING_SEED_ORIENT_NZ\<rparr>
                        else
                          st\<lparr>fs_base_coeff := fx_num F 4 10,
                             fs_gains := triple (gp_coeff1 profile) (gp_coeff2 profile) 0\<rparr>
                   else st)"

definition install_kp_bk :: "gain_profile \<Rightarrow> 'f fsm_state \<Rightarrow> 'f fsm_state" where
  "install_kp_bk profile st =
     st\<lparr>fs_gains := triple (gp_coeff1 profile) (gp_coeff2 profile) (gt_pr (fs_gains st))\<rparr>"

definition fsm_stop :: "'f fsm_state \<Rightarrow> 'f fsm_state" where
  "fsm_stop st = st\<lparr>fs_balancing_active := False, fs_sub_state := Idle, fs_word_84 := 0, fs_word_88 := 0\<rparr>"

definition fsm_arming :: "'f fix_ops \<Rightarrow> 'f fsm_inputs \<Rightarrow> gain_profile \<Rightarrow> 'f fsm_state \<Rightarrow> 'f fsm_state" where
  "fsm_arming F inp profile st =
     (let st = st\<lparr>fs_out_mirror := fi_smoothed_ref inp\<rparr>;
          st = (if fs_env st < 0x6F55 then st\<lparr>fs_env := add32 (fs_env st) ENV_RAMP_UP\<rparr>
                else
                  let st = st\<lparr>fs_env := ENV_CAP, fs_word_8c := 0\<rparr>
                  in if fi_orientation_nz inp then
                       st\<lparr>fs_sub_state := AltEngaged, fs_base_coeff := fx_num F 4 10, fs_gains := STANDBY_SET\<rparr>
                     else install_kp_bk profile (st\<lparr>fs_sub_state := Run, fs_base_coeff := fx_num F 4 10\<rparr>))
      in if (fi_comms_loss inp \<or> fi_stop_byte inp \<or> fi_over_current inp) \<and> fi_orientation_nz inp then fsm_stop st
         else st)"

definition alt_reference :: "'f fsm_inputs \<Rightarrow> int" where
  "alt_reference inp =
     (let batt_num = mul64 (fi_ref_9c inp) 0x50;
          mix_term = mul32 (add32 (mul32 (fi_ref_34 inp) 7) (mul32 (fi_ref_36 inp) (- 6))) 0x32 sdiv 100;
          sum_over_10000 = add64 batt_num (mul64 mix_term 10000);
          refv = as_i32 (sum_over_10000 sdiv 10000)
      in clamp refv (neg32 ENV_CAP) ENV_CAP)"

definition fsm_alt_engaged :: "'f fix_ops \<Rightarrow> 'f fsm_inputs \<Rightarrow> gain_profile \<Rightarrow> 'f fsm_state \<Rightarrow> 'f fsm_state" where
  "fsm_alt_engaged F inp profile st =
     (let refv = alt_reference inp;
          st = st\<lparr>fs_out_mirror := refv, fs_env := iabs refv\<rparr>;
          st = (if fi_comms_loss inp \<or> fi_stop_byte inp \<or> fi_over_current inp then fsm_stop st else st)
      in if fi_promote_condition inp then
           let st = (if fs_promote_counter st < DEBOUNCE_CAP
                     then st\<lparr>fs_promote_counter := add32 (fs_promote_counter st) 1\<rparr> else st)
           in if fs_promote_counter st > PROMOTE_TRIP then
                (install_kp_bk profile (st\<lparr>fs_sub_state := Run, fs_base_coeff := fx_num F 4 10\<rparr>))
                  \<lparr>fs_env := iabs refv, fs_winddown_counter := 0\<rparr>
              else st
         else st\<lparr>fs_promote_counter := 0\<rparr>)"

definition run_pickup :: "'f fsm_inputs \<Rightarrow> 'f fsm_state \<Rightarrow> 'f fsm_state" where
  "run_pickup inp st =
     (if fi_gating_field inp < 0 then
        let st = (if fs_pickup_counter st < PICKUP_CAP
                  then st\<lparr>fs_pickup_counter := add32 (fs_pickup_counter st) 1\<rparr> else st)
        in if fs_pickup_counter st > PICKUP_TRIP then st\<lparr>fs_sub_state := Idle\<rparr> else st
      else st\<lparr>fs_pickup_counter := 0\<rparr>)"

definition run_envelope :: "'f fsm_inputs \<Rightarrow> 'f fsm_state \<Rightarrow> 'f fsm_state" where
  "run_envelope inp st =
     (if fi_orientation_nz inp then
        if fs_env st < 0x6F55 then st\<lparr>fs_env := add32 (fs_env st) ENV_RAMP_UP\<rparr> else st\<lparr>fs_env := ENV_CAP\<rparr>
      else st)"

definition run_winddown :: "'f fix_ops \<Rightarrow> 'f fsm_inputs \<Rightarrow> gain_profile \<Rightarrow> 'f fsm_state \<Rightarrow> 'f fsm_state" where
  "run_winddown F inp profile st =
     (if fi_winddown_enables_clear inp then
        let st = (if fs_winddown_counter st < DEBOUNCE_CAP
                  then st\<lparr>fs_winddown_counter := add32 (fs_winddown_counter st) 1\<rparr> else st)
        in if fs_winddown_counter st > WINDDOWN_TRIP then
             let st = st\<lparr>fs_word_8c := 0, fs_promote_counter := 0\<rparr>;
                 st = (if fi_orientation_nz inp then
                         st\<lparr>fs_sub_state := AltEngaged, fs_base_coeff := fx_num F 4 10, fs_gains := STANDBY_SET\<rparr>
                       else
                         st\<lparr>fs_sub_state := Idle, fs_base_coeff := fx_num F 4 10,
                            fs_gains := triple (gp_coeff1 profile) (gp_coeff2 profile) 0\<rparr>)
             in st\<lparr>fs_env := ENV_CAP\<rparr>
           else st
      else st\<lparr>fs_winddown_counter := 0\<rparr>)"

definition fsm_run :: "'f fix_ops \<Rightarrow> 'f fsm_inputs \<Rightarrow> gain_profile \<Rightarrow> 'f fsm_state \<Rightarrow> 'f fsm_state" where
  "fsm_run F inp profile st =
     (let st = st\<lparr>fs_gains := ramp_toward F (fs_gains st) (as_triple profile) (fi_pid_scale inp) (fi_pid_kd inp)\<rparr>;
          st = st\<lparr>fs_out_mirror := fi_smoothed_ref inp\<rparr>;
          st = run_pickup inp st;
          st = run_envelope inp st;
          st = run_winddown F inp profile st
      in if fi_comms_loss inp \<or> fi_over_current inp \<or> fi_tilt inp then fsm_stop st else st)"

definition final_output :: "'f fsm_inputs \<Rightarrow> 'f fsm_state \<Rightarrow> 'f fsm_state \<times> int" where
  "final_output inp st =
     (let st = st\<lparr>fs_sub_state_shadow := fs_sub_state st\<rparr>;
          env = fs_env st;
          out = fs_out_mirror st;
          out = (if env < out then env else if out < neg32 env then neg32 env else out);
          st = st\<lparr>fs_torque_setpoint := as_i16 out\<rparr>;
          st = st\<lparr>fs_prev_fb := fi_feedback_fb inp\<rparr>;
          x = sub32 (fs_torque_setpoint st) (fi_feedback_fb inp);
          st = st\<lparr>fs_tracking_delta := as_i16 (shr_round_to_zero x 6)\<rparr>
      in (st, fs_torque_setpoint st))"

definition fsm_step :: "'f fix_ops \<Rightarrow> 'f fsm_inputs \<Rightarrow> gain_profile \<Rightarrow> 'f fsm_state \<Rightarrow> 'f fsm_state \<times> int" where
  "fsm_step F inp profile st =
     final_output inp
       (case fs_sub_state st of
          Idle \<Rightarrow> fsm_idle F inp profile st
        | Arming \<Rightarrow> fsm_arming F inp profile st
        | AltEngaged \<Rightarrow> fsm_alt_engaged F inp profile st
        | Run \<Rightarrow> fsm_run F inp profile st)"

section \<open>A concrete number type\<close>

text \<open>A concrete number type: the 64-bit pattern of the code's, on unbounded integers.\<close>

definition demo_fix :: "int fix_ops" where
  "demo_fix =
     \<lparr>fx_num = (\<lambda>n d. n * 4294967296 sdiv d), fx_add = (+), fx_mul = (\<lambda>a b. a * b div 4294967296),
      fx_round_to_zero = (\<lambda>a. a sdiv 4294967296 * 4294967296), fx_to_bits = id\<rparr>"

end
