(* ===== verification/EngageProps.thy ===== *)
theory EngageProps
  imports Engage
begin

text \<open>
  What the engagement machine guarantees: the bound of the torque word and the soft start, the exact condition of
  an engage, how long a fault can go on driving, and that the gain ramp arrives.
\<close>

section \<open>Sequences of ticks\<close>

definition run_fsm :: "'f fix_ops \<Rightarrow> ('f fsm_inputs \<times> gain_profile) list \<Rightarrow> 'f fsm_state \<Rightarrow> 'f fsm_state" where
  "run_fsm F ticks st = foldl (\<lambda>st (inp, profile). fst (fsm_step F inp profile st)) st ticks"

lemma run_fsm_simps [simp]:
  "run_fsm F [] st = st"
  "run_fsm F ((inp, profile) # ticks) st = run_fsm F ticks (fst (fsm_step F inp profile st))"
  by (simp_all add: run_fsm_def)

lemma run_fsm_snoc [simp]:
  "run_fsm F (ticks @ [(inp, profile)]) st = fst (fsm_step F inp profile (run_fsm F ticks st))"
  by (simp add: run_fsm_def)

text \<open>The torque of a tick is the mirror cut at the envelope, both as the sub-state's handler left them.\<close>

definition handler :: "'f fix_ops \<Rightarrow> 'f fsm_inputs \<Rightarrow> gain_profile \<Rightarrow> 'f fsm_state \<Rightarrow> 'f fsm_state" where
  "handler F inp profile st =
     (case fs_sub_state st of
        Idle \<Rightarrow> fsm_idle F inp profile st
      | Arming \<Rightarrow> fsm_arming F inp profile st
      | AltEngaged \<Rightarrow> fsm_alt_engaged F inp profile st
      | Run \<Rightarrow> fsm_run F inp profile st)"

lemma step_handler:
  "fs_sub_state (fst (fsm_step F inp profile st)) = fs_sub_state (handler F inp profile st)"
  "fs_env (fst (fsm_step F inp profile st)) = fs_env (handler F inp profile st)"
  "fs_out_mirror (fst (fsm_step F inp profile st)) = fs_out_mirror (handler F inp profile st)"
  "fs_gains (fst (fsm_step F inp profile st)) = fs_gains (handler F inp profile st)"
  "fs_torque_setpoint (fst (fsm_step F inp profile st)) = snd (fsm_step F inp profile st)"
  "fs_pickup_counter (fst (fsm_step F inp profile st)) = fs_pickup_counter (handler F inp profile st)"
  "fs_winddown_counter (fst (fsm_step F inp profile st)) = fs_winddown_counter (handler F inp profile st)"
  by (simp_all add: fsm_step_def handler_def final_output_def Let_def)

lemma step_torque:
  assumes "0 \<le> fs_env (handler F inp profile st)" "fs_env (handler F inp profile st) \<le> 28700"
  shows "snd (fsm_step F inp profile st) =
    max (- fs_env (handler F inp profile st)) (min (fs_env (handler F inp profile st)) (fs_out_mirror (handler F inp profile st)))"
  using assms unfolding fsm_step_def handler_def [symmetric]
  by (auto simp: final_output_def Let_def neg32_def max_def min_def)

section \<open>The envelope\<close>

lemma alt_reference_bound: "\<bar>alt_reference inp\<bar> \<le> 28500"
  by (auto simp: alt_reference_def clamp_def neg32_def ENV_CAP_def Let_def)

definition fsm_ok :: "'f fsm_state \<Rightarrow> bool" where
  "fsm_ok st \<longleftrightarrow> 0 \<le> fs_env st \<and> fs_env st \<le> 28700 \<and> (fs_sub_state st = Arming \<longrightarrow> fs_env st \<le> 28600 \<and> fs_env st mod 200 = 0)"

text \<open>The conjunction an engage needs, read off the documentation of the inputs.\<close>

definition upright :: "'f fix_ops \<Rightarrow> 'f fsm_inputs \<Rightarrow> bool" where
  "upright F inp \<longleftrightarrow>
     \<bar>as_i16 (q_to_int_d2iz F (fx_mul F (fi_upright_ref inp) (fx_num F 100 1)))\<bar> \<le>
     (if fi_orientation_nz inp then 7499 else 2499)"

definition engages :: "'f fix_ops \<Rightarrow> 'f fsm_inputs \<Rightarrow> bool" where
  "engages F inp \<longleftrightarrow>
     fi_pre_gate_clear inp \<and> upright F inp \<and> 500 < fi_gating_field inp \<and> fi_rider_present inp \<and> fi_battery_ok inp \<and>
     fi_power_enable inp \<and> fi_enable_bytes_clear inp \<and>
     \<not> (fi_over_current inp \<or> fi_stall inp \<or> fi_comms_loss inp \<or> fi_tilt inp)"

lemma iabs_i16: "iabs (as_i16 x) = \<bar>as_i16 x\<bar>"
  using as_i16_bounds [of x] by (intro iabs_abs) auto

lemma idle_handler:
  "fs_sub_state (fsm_idle F inp profile st) = (if engages F inp then Arming else fs_sub_state st)"
  "fs_out_mirror (fsm_idle F inp profile st) = 0"
  by (auto simp: fsm_idle_def engages_def upright_def Let_def engage_consts iabs_i16)

lemma idle_env:
  assumes "0 \<le> fs_env st" "fs_env st \<le> 28700"
  shows "fs_env (fsm_idle F inp profile st) = (if engages F inp then 0 else max 0 (fs_env st - 1000))"
  using assms by (auto simp: fsm_idle_def engages_def upright_def Let_def engage_consts iabs_i16 sub32_def)

lemma arming_env:
  assumes "0 \<le> fs_env st" "fs_env st \<le> 28700"
  shows "fs_env (fsm_arming F inp profile st) = (if fs_env st \<le> 28500 then fs_env st + 200 else 28500)"
  using assms by (auto simp: fsm_arming_def Let_def engage_consts add32_def install_kp_bk_def fsm_stop_def)

lemma arming_handler:
  "fs_sub_state (fsm_arming F inp profile st) =
     (if fi_orientation_nz inp \<and> (fi_comms_loss inp \<or> fi_stop_byte inp \<or> fi_over_current inp) then Idle
      else if fs_env st \<le> 28500 then fs_sub_state st
      else if fi_orientation_nz inp then AltEngaged else Run)"
  "fs_out_mirror (fsm_arming F inp profile st) = fi_smoothed_ref inp"
  by (auto simp: fsm_arming_def Let_def install_kp_bk_def fsm_stop_def)

lemma alt_handler:
  "fs_env (fsm_alt_engaged F inp profile st) = \<bar>alt_reference inp\<bar>"
  "fs_out_mirror (fsm_alt_engaged F inp profile st) = alt_reference inp"
  "fs_sub_state (fsm_alt_engaged F inp profile st) \<in> {fs_sub_state st, Idle, Run}"
  "fi_comms_loss inp \<or> fi_over_current inp \<Longrightarrow> fs_sub_state (fsm_alt_engaged F inp profile st) \<in> {Idle, Run}"
  using alt_reference_bound [of inp]
  by (auto simp: fsm_alt_engaged_def Let_def install_kp_bk_def fsm_stop_def iabs_abs)

lemma run_parts [simp]:
  "fs_env (run_pickup inp st) = fs_env st"
  "fs_out_mirror (run_pickup inp st) = fs_out_mirror st"
  "fs_out_mirror (run_envelope inp st) = fs_out_mirror st"
  "fs_out_mirror (run_winddown F inp profile st) = fs_out_mirror st"
  "fs_sub_state (run_envelope inp st) = fs_sub_state st"
  "fs_pickup_counter (run_envelope inp st) = fs_pickup_counter st"
  "fs_pickup_counter (run_winddown F inp profile st) = fs_pickup_counter st"
  "fs_winddown_counter (run_pickup inp st) = fs_winddown_counter st"
  "fs_winddown_counter (run_envelope inp st) = fs_winddown_counter st"
  by (simp_all add: run_pickup_def run_envelope_def run_winddown_def Let_def)

lemma run_handler:
  "fs_out_mirror (fsm_run F inp profile st) = fi_smoothed_ref inp"
  "fi_comms_loss inp \<or> fi_over_current inp \<or> fi_tilt inp \<Longrightarrow> fs_sub_state (fsm_run F inp profile st) = Idle"
  "fs_sub_state st = Run \<Longrightarrow> fs_sub_state (fsm_run F inp profile st) \<noteq> Arming"
  by (auto simp: fsm_run_def Let_def fsm_stop_def run_pickup_def run_winddown_def)

lemma run_env:
  assumes "0 \<le> fs_env st" "fs_env st \<le> 28700"
  shows "0 \<le> fs_env (fsm_run F inp profile st) \<and> fs_env (fsm_run F inp profile st) \<le> 28700"
  using assms
  by (auto simp: fsm_run_def Let_def fsm_stop_def run_winddown_def run_envelope_def engage_consts add32_def)

lemma handler_ok:
  assumes "fsm_ok st"
  shows "fsm_ok (handler F inp profile st)"
proof (cases "fs_sub_state st")
  case Idle
  then show ?thesis using assms by (auto simp: fsm_ok_def handler_def idle_handler idle_env)
next
  case Arming
  have "e \<le> 28500 \<Longrightarrow> e mod 200 = 0 \<Longrightarrow> e + 200 \<le> 28600 \<and> (e + 200) mod 200 = 0" for e :: int by presburger
  then show ?thesis using Arming assms by (auto simp: fsm_ok_def handler_def arming_handler arming_env)
next
  case AltEngaged
  then show ?thesis
    using assms alt_reference_bound [of inp] alt_handler(3) [of F inp profile st]
    by (auto simp: fsm_ok_def handler_def alt_handler(1))
next
  case Run
  then show ?thesis
    using assms run_env [of st F inp profile] run_handler(3) [of st F inp profile]
    by (auto simp: fsm_ok_def handler_def)
qed

lemma step_ok: "fsm_ok st \<Longrightarrow> fsm_ok (fst (fsm_step F inp profile st))"
  using handler_ok [of st F inp profile] by (simp add: fsm_ok_def step_handler)

lemma run_ok: "fsm_ok st \<Longrightarrow> fsm_ok (run_fsm F ticks st)"
  by (induction ticks rule: rev_induct) (auto simp: step_ok)

lemma default_ok: "fsm_ok (fsm_default F)"
  by (simp add: fsm_ok_def fsm_default_def)

lemma torque_of_step:
  assumes "fsm_ok st"
  shows "snd (fsm_step F inp profile st) =
    max (- fs_env (handler F inp profile st)) (min (fs_env (handler F inp profile st)) (fs_out_mirror (handler F inp profile st)))"
  using handler_ok [OF assms, of F inp profile] by (intro step_torque) (auto simp: fsm_ok_def)

section \<open>Torque\<close>

definition demo_inputs :: "int fsm_inputs" where
  "demo_inputs =
     \<lparr>fi_orientation_nz = False, fi_upright_ref = 0, fi_pre_gate_clear = True, fi_smoothed_ref = 20000,
      fi_gating_field = 8000, fi_rider_present = True, fi_battery_ok = True, fi_over_current = False, fi_stall = False,
      fi_comms_loss = False, fi_tilt = False, fi_enable_bytes_clear = True, fi_power_enable = True, fi_stop_byte = False,
      fi_winddown_enables_clear = False, fi_promote_condition = False, fi_ref_9c = 0, fi_ref_34 = 0, fi_ref_36 = 0,
      fi_feedback_fb = 0, fi_pid_scale = 3600, fi_pid_kd = 0\<rparr>"

abbreviation demo_tick :: "int fsm_inputs \<times> gain_profile" where
  "demo_tick \<equiv> (demo_inputs, profile_of STANDBY_SET)"

text \<open>C31: The torque word: on every tick of every run from boot, with any inputs, the word written is within the
  envelope of that tick and the envelope within 28700; it is within the full scale of 28500 whenever the
  reference it mirrors is (the envelope alone does not say so: it overshoots its cap by one ramp step), it
  is 0 on a tick that began in IDLE, and it leaves IDLE exactly when every clause of the engage
  conjunction holds on that tick, and then into ARMING with a closed envelope.\<close>

theorem torque_bounded:
  assumes "st = run_fsm F ticks (fsm_default F)" "fsm_step F inp profile st = (st', out)"
  shows "\<bar>out\<bar> \<le> fs_env st' \<and> fs_env st' \<le> 28700 \<and> \<bar>out\<bar> \<le> max 28500 \<bar>fi_smoothed_ref inp\<bar> \<and>
    (fs_sub_state st = Idle \<longrightarrow>
       out = 0 \<and> fs_sub_state st' = (if engages F inp then Arming else Idle) \<and>
       fs_env st' = (if engages F inp then 0 else max 0 (fs_env st - 1000)))"
proof -
  have ok: "fsm_ok st" unfolding assms(1) by (intro run_ok default_ok)
  define h where "h = handler F inp profile st"
  have st': "fs_env st' = fs_env h" "fs_sub_state st' = fs_sub_state h"
    using step_handler [of F inp profile st] by (simp_all add: h_def assms(2))
  have out: "out = max (- fs_env h) (min (fs_env h) (fs_out_mirror h))"
    using torque_of_step [OF ok, of F inp profile] by (simp add: h_def assms(2))
  have h: "0 \<le> fs_env h" "fs_env h \<le> 28700"
    using handler_ok [OF ok, of F inp profile] by (auto simp: fsm_ok_def h_def)
  have mirror: "\<bar>fs_out_mirror h\<bar> \<le> max 28500 \<bar>fi_smoothed_ref inp\<bar>"
    using alt_reference_bound [of inp]
    by (cases "fs_sub_state st") (auto simp: h_def handler_def idle_handler arming_handler alt_handler(2) run_handler)
  have "\<bar>out\<bar> \<le> fs_env h" "\<bar>out\<bar> \<le> \<bar>fs_out_mirror h\<bar>" using h unfolding out by linarith+
  moreover have "fs_sub_state st = Idle \<longrightarrow>
       out = 0 \<and> fs_sub_state h = (if engages F inp then Arming else Idle) \<and>
       fs_env h = (if engages F inp then 0 else max 0 (fs_env st - 1000))"
    using ok h by (auto simp: out h_def handler_def idle_handler idle_env fsm_ok_def)
  ultimately show ?thesis using h mirror st' by auto
qed

lemma torque_bounded_witness:
  "snd (fsm_step demo_fix demo_inputs (profile_of STANDBY_SET) (fsm_default demo_fix)) = 0 \<and>
   fs_sub_state (fst (fsm_step demo_fix demo_inputs (profile_of STANDBY_SET) (fsm_default demo_fix))) = Arming"
proof -
  have "engages demo_fix demo_inputs" by code_simp
  moreover have "fs_sub_state (fsm_default demo_fix) = Idle" by (simp add: fsm_default_def)
  ultimately show ?thesis
    using torque_bounded [OF run_fsm_simps(1) [symmetric] prod.collapse [symmetric],
        where F = demo_fix and inp = demo_inputs and profile = "profile_of STANDBY_SET"] by auto
qed

text \<open>The start is soft: once an engage is taken, the torque word of the k-th tick after it is at most 200 k
  for the first 143 ticks (0.57 s), whatever the inputs do, aborts and new engages included.\<close>

theorem soft_start:
  assumes "st = run_fsm F ticks (fsm_default F)" "fs_sub_state st = Idle" "engages F inp" "length later \<le> 143"
  shows "\<bar>fs_torque_setpoint (run_fsm F later (fst (fsm_step F inp profile st)))\<bar> \<le> 200 * int (length later)"
proof -
  have ok: "fsm_ok st" unfolding assms(1) by (intro run_ok default_ok)
  define st1 where "st1 = fst (fsm_step F inp profile st)"
  have "length later \<le> 143 \<longrightarrow>
      fs_sub_state (run_fsm F later st1) \<in> {Idle, Arming} \<and> fs_env (run_fsm F later st1) \<le> 200 * int (length later) \<and>
      \<bar>fs_torque_setpoint (run_fsm F later st1)\<bar> \<le> 200 * int (length later) \<and> fsm_ok (run_fsm F later st1)"
  proof (induction later rule: rev_induct)
    case Nil
    have "\<bar>snd (fsm_step F inp profile st)\<bar> \<le> 0"
      using torque_of_step [OF ok, of F inp profile] ok assms(2,3)
      by (simp add: handler_def idle_handler idle_env fsm_ok_def)
    then show ?case
      using ok assms(2,3) step_ok [OF ok]
      by (simp add: st1_def step_handler handler_def idle_handler idle_env fsm_ok_def)
  next
    case (snoc t later)
    obtain i p where t: "t = (i, p)" by fastforce
    define s h where "s = run_fsm F later st1" and "h = handler F i p s"
    show ?case
    proof (intro impI)
      assume len: "length (later @ [t]) \<le> 143"
      then have s: "fs_sub_state s \<in> {Idle, Arming}" "fs_env s \<le> 200 * int (length later)" "fsm_ok s"
        using snoc by (simp_all add: s_def)
      then have small: "fs_env s \<le> 28500" "0 \<le> fs_env s" using len by (auto simp: fsm_ok_def)
      have h: "fs_sub_state h \<in> {Idle, Arming}" "fs_env h \<le> 200 * int (length (later @ [t]))" "0 \<le> fs_env h"
        using s small by (auto simp: h_def handler_def idle_handler idle_env arming_handler arming_env split: if_splits)
      have "\<bar>snd (fsm_step F i p s)\<bar> \<le> fs_env h"
        using torque_of_step [OF s(3), of F i p] h(3) unfolding h_def [symmetric] by linarith
      then show "fs_sub_state (run_fsm F (later @ [t]) st1) \<in> {Idle, Arming} \<and>
          fs_env (run_fsm F (later @ [t]) st1) \<le> 200 * int (length (later @ [t])) \<and>
          \<bar>fs_torque_setpoint (run_fsm F (later @ [t]) st1)\<bar> \<le> 200 * int (length (later @ [t])) \<and>
          fsm_ok (run_fsm F (later @ [t]) st1)"
        using h step_ok [OF s(3)] unfolding t run_fsm_snoc s_def [symmetric] step_handler h_def [symmetric] by auto
    qed
  qed
  then show ?thesis using assms(4) by (simp add: st1_def)
qed

lemma soft_start_witness:
  "\<bar>fs_torque_setpoint (run_fsm demo_fix [demo_tick, demo_tick]
     (fst (fsm_step demo_fix demo_inputs (profile_of STANDBY_SET) (fsm_default demo_fix))))\<bar> \<le> 400"
proof -
  have "engages demo_fix demo_inputs" by code_simp
  then show ?thesis
    using soft_start [OF run_fsm_simps(1) [symmetric], of demo_fix demo_inputs "[demo_tick, demo_tick]" "profile_of STANDBY_SET"]
    by (simp add: fsm_default_def)
qed

section \<open>Faults\<close>

definition ticks_left :: "'f fsm_state \<Rightarrow> nat" where
  "ticks_left st =
     (case fs_sub_state st of
        Idle \<Rightarrow> 0 | Run \<Rightarrow> 1 | AltEngaged \<Rightarrow> 2 | Arming \<Rightarrow> 3 + nat ((28600 - fs_env st) div 200))"

lemma ticks_left_step:
  assumes "fsm_ok st" "fi_comms_loss inp \<or> fi_over_current inp"
  shows "ticks_left (fst (fsm_step F inp profile st)) \<le> ticks_left st - 1"
proof (cases "fs_sub_state st")
  case Idle
  then show ?thesis using assms by (auto simp: ticks_left_def step_handler handler_def idle_handler engages_def)
next
  case Arming
  have down: "Suc (nat ((28400 - e) div 200)) \<le> nat ((28600 - e) div 200)"
    if "e mod 200 = 0" "e \<le> 28500" for e :: int
  proof -
    note e = that
    then obtain k where k: "e = 200 * k" by (meson dvdE mod_0_imp_dvd)
    have "28400 - e = 200 * (142 - k)" "28600 - e = 200 * (143 - k)" by (simp_all add: k)
    then have "(28400 - e) div 200 = 142 - k" "(28600 - e) div 200 = 143 - k"
      by (simp_all only: nonzero_mult_div_cancel_left)
    moreover have "k \<le> 142" using e(2) k by simp
    ultimately show ?thesis by simp
  qed
  show ?thesis
  proof (cases "fs_env st \<le> 28500")
    case True
    then have "Suc (nat ((28400 - fs_env st) div 200)) \<le> nat ((28600 - fs_env st) div 200)"
      using down assms(1) Arming by (simp add: fsm_ok_def)
    then show ?thesis
      using True Arming assms by (simp add: ticks_left_def step_handler handler_def arming_handler arming_env fsm_ok_def)
  next
    case False
    then show ?thesis
      using Arming assms by (auto simp: ticks_left_def step_handler handler_def arming_handler)
  qed
next
  case AltEngaged
  then show ?thesis
    using alt_handler(4) [OF assms(2), of F profile st] by (auto simp: ticks_left_def step_handler handler_def)
next
  case Run
  then show ?thesis using assms by (auto simp: ticks_left_def step_handler handler_def run_handler(2))
qed

text \<open>How long a fault can go on driving: with the comms-loss or over-current flag raised on every tick, from
  any reachable state, the machine is in IDLE with a torque word of 0 from the second tick on when it was
  in RUN, the third from AltEngaged, and the 147th from ARMING (whose abort asks for the orientation bit:
  without it the soft start runs to its end, faults or not, before RUN stops it), and stays there.\<close>

theorem fault_stops:
  assumes "st = run_fsm F ticks (fsm_default F)"
    "\<forall>(i, p)\<in>set faulty. fi_comms_loss i \<or> fi_over_current i"
    "(case fs_sub_state st of Idle \<Rightarrow> 1 | Run \<Rightarrow> 2 | AltEngaged \<Rightarrow> 3 | Arming \<Rightarrow> 147) \<le> length faulty"
  shows "fs_sub_state (run_fsm F faulty st) = Idle \<and> fs_torque_setpoint (run_fsm F faulty st) = 0"
proof -
  have ok: "fsm_ok st" unfolding assms(1) by (intro run_ok default_ok)
  have left: "\<forall>(i, p)\<in>set fs. fi_comms_loss i \<or> fi_over_current i \<Longrightarrow> ticks_left (run_fsm F fs st) \<le> ticks_left st - length fs" for fs
  proof (induction fs rule: rev_induct)
    case (snoc t fs)
    obtain i p where t: "t = (i, p)" by fastforce
    have "ticks_left (run_fsm F (fs @ [t]) st) \<le> ticks_left (run_fsm F fs st) - 1"
      unfolding t run_fsm_snoc using snoc(2) t by (intro ticks_left_step run_ok ok) auto
    then show ?case using snoc by simp
  qed simp
  have start: "ticks_left st < length faulty"
  proof -
    have "0 \<le> e \<Longrightarrow> (28600 - e) div 200 \<le> 143" for e :: int
      using zdiv_mono1 [of "28600 - e" 28600 200] by simp
    from this [of "fs_env st"] have "nat ((28600 - fs_env st) div 200) \<le> 143" using ok by (simp only: fsm_ok_def nat_le_iff) simp
    then show ?thesis using assms(3) by (cases "fs_sub_state st") (auto simp: ticks_left_def)
  qed
  then obtain fs t where ft: "faulty = fs @ [t]" by (cases faulty rule: rev_cases) auto
  obtain i p where t: "t = (i, p)" by fastforce
  define s where "s = run_fsm F fs st"
  have "ticks_left s = 0" using left [of fs] assms(2) start by (simp add: ft s_def)
  then have idle: "fs_sub_state s = Idle" by (auto simp: ticks_left_def split: sub_state.splits)
  have "\<not> engages F i" using assms(2) by (auto simp: ft t engages_def)
  moreover have "fsm_ok s" unfolding s_def by (intro run_ok ok)
  ultimately show ?thesis
    using idle torque_of_step [of s F i p]
    by (simp add: ft t s_def [symmetric] step_handler handler_def idle_handler idle_env fsm_ok_def)
qed

abbreviation demo_fault :: "int fsm_inputs \<times> gain_profile" where
  "demo_fault \<equiv> (demo_inputs\<lparr>fi_comms_loss := True\<rparr>, profile_of STANDBY_SET)"

lemma fault_stops_witness:
  "fs_torque_setpoint (run_fsm demo_fix [demo_tick, demo_fault, demo_fault, demo_fault] (fsm_default demo_fix)) = 600 \<and>
   fs_torque_setpoint (run_fsm demo_fix (replicate 147 demo_fault) (run_fsm demo_fix [demo_tick] (fsm_default demo_fix))) = 0"
proof -
  have "fs_sub_state (run_fsm demo_fix [demo_tick] (fsm_default demo_fix)) = Arming" by code_simp
  moreover have "fs_torque_setpoint (run_fsm demo_fix [demo_tick, demo_fault, demo_fault, demo_fault] (fsm_default demo_fix)) = 600"
    by code_simp
  ultimately show ?thesis
    using fault_stops [OF refl, of "replicate 147 demo_fault" demo_fix "[demo_tick]"] by simp
qed

section \<open>The gain ramp\<close>

lemma FRACs: "KP_FRAC = (20, 10829)" "BK_FRAC = (750, 567229)" by code_simp+

lemma gain_step_eq:
  assumes "live \<in> i16_range" "target \<in> i16_range"
  shows "gain_step live target cap =
    (let c = max 1 (min (uint cap) 2147483647) in if target - live < - c then live - c else if target - live > c then live + c else target)"
proof -
  define c where "c = (if cap = 0 then 1 else if cap > 0x7FFFFFFF then 0x7FFFFFFF else as_i32 (uint cap))"
  have u: "uint cap \<le> 2147483647" if "\<not> cap > 0x7FFFFFFF" using that by (simp add: word_less_alt)
  have c: "c = max 1 (min (uint cap) 2147483647)"
  proof (cases "cap > 0x7FFFFFFF")
    case True
    then have "2147483647 < uint cap" by (simp add: word_less_alt)
    then show ?thesis using True by (auto simp: c_def)
  next
    case False
    moreover have "0 < uint cap" if "cap \<noteq> 0" using that by (simp add: word_neq_0_conv word_less_alt)
    ultimately show ?thesis using u by (auto simp: c_def word_less_alt)
  qed
  have "1 \<le> c" "c \<le> 2147483647" by (auto simp: c)
  then show ?thesis
    using assms unfolding gain_step_def c_def [symmetric] c [symmetric]
    by (auto simp: Let_def clamp_def add32_def sub32_def neg32_def i16_range_def)
qed

lemma gain_step_moves:
  assumes "live \<in> i16_range" "target \<in> i16_range"
  shows "gain_step live target cap \<in> i16_range"
    "\<bar>gain_step live target cap - live\<bar> \<le> max 1 (uint cap)"
    "\<bar>target - gain_step live target cap\<bar> \<le> max 0 (\<bar>target - live\<bar> - 1)"
    "min live target \<le> gain_step live target cap" "gain_step live target cap \<le> max live target"
  using assms unfolding gain_step_eq [OF assms] by (auto simp: Let_def i16_range_def)

lemma caps_kp_bk:
  assumes "0 \<le> scale" "scale \<le> 32767" "ramp_caps F scale kd = (kp, bk, pr)"
  shows "uint kp = scale * 20 div 10829" "uint bk = scale * 750 div 567229"
  using assms by (auto simp: ramp_caps_def FRACs Let_def uint_div uint_word_ariths uint_word_of_int)

definition kd_ceil :: "int \<Rightarrow> int" where
  "kd_ceil b = \<bar>b\<bar> div 4294967296 + (if \<bar>b\<bar> mod 4294967296 = 0 then 0 else 1)"

lemma kd_ceil_upper: "\<bar>b\<bar> \<le> 4294967296 * kd_ceil b"
proof -
  have "\<bar>b\<bar> = 4294967296 * (\<bar>b\<bar> div 4294967296) + \<bar>b\<bar> mod 4294967296" "\<bar>b\<bar> mod 4294967296 < 4294967296" by simp_all
  then show ?thesis unfolding kd_ceil_def by (auto simp: algebra_simps simp del: mult_div_mod_eq)
qed

lemma caps_pr:
  assumes "0 \<le> scale" "scale \<le> 32767" "\<bar>fx_to_bits F kd\<bar> \<le> 9223372036854775808" "ramp_caps F scale kd = (kp, bk, pr)"
    "fx_to_bits F kd \<noteq> 0"
  shows "uint pr = scale * 1000 div 3900 div kd_ceil (fx_to_bits F kd)"
proof -
  define b mag where "b = \<bar>fx_to_bits F kd\<bar>" and "mag = (word_of_int b :: 64 word)"
  have mag: "uint mag = b" using assms(3) by (simp add: mag_def b_def uint_word_of_int)
  define low hi where "low = (ucast mag :: u32)" and "hi = drop_bit 32 mag"
  have "uint low = b mod 4294967296" by (simp add: low_def mag unsigned_ucast_eq take_bit_eq_mod)
  then have low: "low \<noteq> 0 \<longleftrightarrow> b mod 4294967296 \<noteq> 0" by (metis uint_0_iff)
  have hi: "uint hi = b div 4294967296" using assms(3) by (simp only: hi_def unsigned_drop_bit_eq mag) (simp add: drop_bit_eq_div take_bit_eq_mod b_def)
  have top: "b div 4294967296 \<le> 2147483648" "0 \<le> b div 4294967296"
    using assms(3) zdiv_mono1 [of b 9223372036854775808 4294967296] by (simp_all add: b_def)
  define c where "c = (ucast (hi + (if low \<noteq> 0 then 1 else 0)) :: u32)"
  have c: "uint c = kd_ceil (fx_to_bits F kd)"
    using top low hi by (auto simp: c_def kd_ceil_def b_def [symmetric] unsigned_ucast_eq take_bit_eq_mod uint_word_ariths)
  have "0 < kd_ceil (fx_to_bits F kd)" using kd_ceil_upper [of "fx_to_bits F kd"] assms(5) by linarith
  then have "c \<noteq> 0" using c by auto
  moreover have "pr = (if c = 0 then 0xFFFFFFFF else word_of_int scale * word_of_int 1000 div word_of_int 3900 div c)"
    using assms(1,4) unfolding ramp_caps_def Let_def mag_def b_def c_def hi_def low_def
    by (auto simp: PR_SHARE_def DERIV_DIVISOR_def RAW_NUMERATOR_def mul32_def)
  ultimately show ?thesis using assms(1,2) c by (simp add: uint_div uint_word_ariths uint_word_of_int)
qed

definition gains_ok :: "gain_triple \<Rightarrow> bool" where
  "gains_ok g \<longleftrightarrow> gt_kp g \<in> i16_range \<and> gt_bk g \<in> i16_range \<and> gt_pr g \<in> i16_range"

lemma ramp_toward_ok: "gains_ok live \<Longrightarrow> gains_ok target \<Longrightarrow> gains_ok (ramp_toward F live target scale kd)"
  by (auto simp: gains_ok_def ramp_toward_def triple_def gain_step_moves(1) split: prod.splits)

lemma share_bound:
  assumes "\<bar>d\<bar> \<le> max 1 (m div n)" "n \<le> m" "0 < n" "\<bar>x\<bar> \<le> y"
  shows "n * \<bar>d * x\<bar> \<le> m * (y :: int)"
proof -
  have "1 \<le> m div n" using assms(2,3) by (simp add: pos_imp_zdiv_pos_iff int_one_le_iff_zero_less)
  then have "\<bar>d\<bar> \<le> m div n" using assms(1) by simp
  then have "n * \<bar>d\<bar> \<le> n * (m div n)" using assms(3) by (intro mult_left_mono) auto
  also have "\<dots> \<le> m" using mult_div_mod_eq [of n m] pos_mod_sign [OF assms(3), of m] by linarith
  finally have "n * \<bar>d\<bar> \<le> m" .
  then have "n * \<bar>d\<bar> * \<bar>x\<bar> \<le> m * y" using assms by (intro mult_mono) auto
  then show ?thesis by (simp add: abs_mult)
qed

text \<open>What one pass of the gain ramp can do to the torque: for gains and targets of the 16-bit range, a battery
  word of at least 757 centivolts and a derivative coefficient whose ceiling is at most 1000/3900 of it, the
  step of the first two gains moves the retired law's output, at its worst-case pitch and rate inputs, by at
  most 225 counts, and the step of the third by at most 10: the shares the caps were derived from, before the
  integer truncations. So the reduced fractions, the 32-bit products and the ceiling of the 64-bit pattern
  compute the derivation.\<close>

theorem gain_ramp_bounded:
  assumes "gains_ok live" "gains_ok target" "757 \<le> scale" "scale \<le> 32767" "\<bar>pp\<bar> \<le> 2499" "\<bar>bv\<bar> \<le> 87266"
    "kd_ceil (fx_to_bits F kd) \<le> scale * 1000 div 3900"
    "g = ramp_toward F live target scale kd"
  shows "3900 * (100 * \<bar>(gt_kp g - gt_kp live) * pp\<bar> + \<bar>(gt_bk g - gt_bk live) * bv\<bar>) \<le> 225 * 10000 * scale \<and>
    3900 * \<bar>(gt_pr g - gt_pr live) * fx_to_bits F kd\<bar> \<le> 10 * 100 * scale * 4294967296"
proof -
  obtain kp bk pr where caps: "ramp_caps F scale kd = (kp, bk, pr)" by (metis prod_cases3)
  have scale: "0 \<le> scale" "scale \<le> 32767" using assms(3,4) by simp_all
  have g: "gt_kp g = gain_step (gt_kp live) (gt_kp target) kp" "gt_bk g = gain_step (gt_bk live) (gt_bk target) bk"
      "gt_pr g = gain_step (gt_pr live) (gt_pr target) pr"
    by (simp_all add: assms(8) ramp_toward_def caps triple_def)
  have moved: "\<bar>gt_kp g - gt_kp live\<bar> \<le> max 1 (uint kp)" "\<bar>gt_bk g - gt_bk live\<bar> \<le> max 1 (uint bk)"
      "\<bar>gt_pr g - gt_pr live\<bar> \<le> max 1 (uint pr)"
    using assms(1,2) unfolding g gains_ok_def by (auto intro!: gain_step_moves(2))
  define K B where "K = \<bar>(gt_kp g - gt_kp live) * pp\<bar>" and "B = \<bar>(gt_bk g - gt_bk live) * bv\<bar>"
  have "10829 * K \<le> scale * 20 * 2499" unfolding K_def
    using moved(1) assms(3,5) caps_kp_bk(1) [OF scale caps] by (intro share_bound) simp_all
  moreover have "567229 * B \<le> scale * 750 * 87266" unfolding B_def
    using moved(2) assms(3,6) caps_kp_bk(2) [OF scale caps] by (intro share_bound) simp_all
  ultimately have "3900 * (100 * K + B) \<le> 225 * 10000 * scale" by simp
  moreover have "3900 * \<bar>(gt_pr g - gt_pr live) * fx_to_bits F kd\<bar> \<le> 10 * 100 * scale * 4294967296"
  proof (cases "fx_to_bits F kd = 0")
    case True
    then show ?thesis using scale by simp
  next
    case False
    define b c where "b = fx_to_bits F kd" and "c = kd_ceil (fx_to_bits F kd)"
    have c: "\<bar>b\<bar> \<le> 4294967296 * c" unfolding b_def c_def by (rule kd_ceil_upper)
    have "0 < c" using c False by (simp add: b_def)
    have "scale * 1000 div 3900 \<le> 32767" using zdiv_mono1 [of "scale * 1000" "32767 * 3900" 3900] assms(4) by simp
    then have "\<bar>b\<bar> \<le> 9223372036854775808" using c assms(7) by (simp add: c_def)
    then have "uint pr = scale * 1000 div 3900 div c"
      using caps_pr [OF scale _ caps] False by (simp add: b_def c_def)
    then have "c * \<bar>(gt_pr g - gt_pr live) * 1\<bar> \<le> (scale * 1000 div 3900) * 1"
      using moved(3) assms(7) \<open>0 < c\<close> by (intro share_bound) (simp_all add: c_def)
    moreover have "3900 * (scale * 1000 div 3900) \<le> scale * 1000" by simp
    ultimately have "3900 * (c * \<bar>gt_pr g - gt_pr live\<bar>) \<le> scale * 1000" by simp
    moreover have "\<bar>(gt_pr g - gt_pr live) * b\<bar> \<le> \<bar>gt_pr g - gt_pr live\<bar> * (4294967296 * c)"
      unfolding abs_mult using c by (intro mult_left_mono) auto
    ultimately show ?thesis unfolding b_def [symmetric] by (simp add: algebra_simps)
  qed
  ultimately show ?thesis unfolding K_def B_def by blast
qed


definition run_ramp :: "'f fix_ops \<Rightarrow> gain_triple \<Rightarrow> (int \<times> 'f) list \<Rightarrow> gain_triple \<Rightarrow> gain_triple" where
  "run_ramp F target passes live = foldl (\<lambda>g (scale, kd). ramp_toward F g target scale kd) live passes"

definition between :: "int \<Rightarrow> int \<Rightarrow> int \<Rightarrow> bool" where
  "between a x b \<longleftrightarrow> min a b \<le> x \<and> x \<le> max a b"

lemma run_ramp_invariant:
  assumes "gains_ok live" "gains_ok target" "g = run_ramp F target passes live"
  shows "gains_ok g \<and> (\<forall>sel\<in>{gt_kp, gt_bk, gt_pr}. between (sel live) (sel g) (sel target) \<and>
    \<bar>sel target - sel g\<bar> \<le> max 0 (\<bar>sel target - sel live\<bar> - int (length passes)))"
  using assms(3)
proof (induction passes arbitrary: g rule: rev_induct)
  case Nil
  then show ?case using assms(1) by (auto simp: run_ramp_def between_def)
next
  case (snoc p passes)
  obtain scale kd where p: "p = (scale, kd)" by fastforce
  define h where "h = run_ramp F target passes live"
  note h = snoc.IH [OF h_def]
  obtain kp bk pr where caps: "ramp_caps F scale kd = (kp, bk, pr)" by (metis prod_cases3)
  have g: "g = ramp_toward F h target scale kd" using snoc.prems by (simp add: run_ramp_def p h_def)
  have one: "between a (gain_step x t c) t \<and> \<bar>t - gain_step x t c\<bar> \<le> max 0 (\<bar>t - a\<bar> - int (length (passes @ [p])))"
    if "between a x t" "\<bar>t - x\<bar> \<le> max 0 (\<bar>t - a\<bar> - int (length passes))" "x \<in> i16_range" "t \<in> i16_range" for a x t c
  proof -
    define y n where "y = gain_step x t c" and "n = int (length passes)"
    have y: "\<bar>t - y\<bar> \<le> max 0 (\<bar>t - x\<bar> - 1)" "min x t \<le> y" "y \<le> max x t"
      unfolding y_def by (rule gain_step_moves [OF that(3,4)])+
    have "min a t \<le> y" "y \<le> max a t" using y that(1) unfolding between_def by linarith+
    moreover have "\<bar>t - y\<bar> \<le> max 0 (\<bar>t - a\<bar> - (1 + n))" using y(1) that(2) unfolding n_def [symmetric] by linarith
    ultimately show ?thesis by (simp add: between_def y_def n_def)
  qed
  show ?case
    using h assms(2) ramp_toward_ok [of h target F scale kd] one
    by (auto simp: g ramp_toward_def caps triple_def gains_ok_def)
qed

lemma gain_ramp_bounded_witness:
  "3900 * (100 * \<bar>(gt_kp (ramp_toward demo_fix STANDBY_SET (triple 6000 2000 40) 2400 0) - 50) * 2499\<bar> +
     \<bar>(gt_bk (ramp_toward demo_fix STANDBY_SET (triple 6000 2000 40) 2400 0) - 20) * 87266\<bar>) \<le> 225 * 10000 * 2400 \<and>
   gt_kp (ramp_toward demo_fix STANDBY_SET (triple 6000 2000 40) 2400 0) = 54"
proof -
  have "gains_ok STANDBY_SET" "gains_ok (triple 6000 2000 40)"
    by (simp_all add: gains_ok_def STANDBY_SET_def triple_def i16_range_def)
  moreover have "gt_kp STANDBY_SET = 50" "gt_bk STANDBY_SET = 20" by (simp_all add: STANDBY_SET_def triple_def)
  moreover have "gt_kp (ramp_toward demo_fix STANDBY_SET (triple 6000 2000 40) 2400 0) = 54" by code_simp
  ultimately show ?thesis
    using gain_ramp_bounded [of STANDBY_SET "triple 6000 2000 40" 2400 2499 87266 demo_fix 0, OF _ _ _ _ _ _ _ refl]
    by (simp add: kd_ceil_def demo_fix_def)
qed

text \<open>The gain ramp arrives: over any passes, whatever the battery words and coefficients, every gain stays
  between where it started and its target, and once there have been as many passes as the widest gap the
  live gains are the target (the floor of one count per pass).\<close>

theorem gain_ramp_arrives:
  assumes "gains_ok live" "gains_ok target" "g = run_ramp F target passes live"
  shows "(\<forall>sel\<in>{gt_kp, gt_bk, gt_pr}. between (sel live) (sel g) (sel target)) \<and>
    ((\<forall>sel\<in>{gt_kp, gt_bk, gt_pr}. \<bar>sel target - sel live\<bar> \<le> int (length passes)) \<longrightarrow> g = target)"
  using run_ramp_invariant [OF assms] by (auto intro!: gain_triple.equality)

lemma gain_ramp_arrives_witness:
  "run_ramp demo_fix (triple 60 30 10) (replicate 10 (0, 7)) STANDBY_SET = triple 60 30 10"
proof -
  have "gains_ok STANDBY_SET" "gains_ok (triple 60 30 10)"
    by (simp_all add: gains_ok_def STANDBY_SET_def triple_def i16_range_def)
  then show ?thesis
    using gain_ramp_arrives [OF _ _ refl, of STANDBY_SET "triple 60 30 10" demo_fix "replicate 10 (0, 7)"]
    by (simp add: STANDBY_SET_def triple_def)
qed


end
