(* ===== verification/Throttle.thy ===== *)
theory Throttle
  imports Balance
begin

text \<open>
  The reference producers' front end, \<open>src/motorcontroller/control/src\<close>: the throttle conditioner
  (\<open>throttle.rs\<close>, constants of \<open>config.rs\<close>) and the mode model with its dispatch (\<open>mode.rs\<close>).
\<close>

section \<open>The throttle conditioner\<close>

definition RATE :: int where "RATE = 480"
definition FILTER_COEF :: int where "FILTER_COEF = 6553"
definition SPEED_COEFFICIENT :: int where "SPEED_COEFFICIENT = 16384"
definition STEER_COEFFICIENT :: int where "STEER_COEFFICIENT = 8192"
definition CMD_LIMIT :: int where "CMD_LIMIT = 1000"
definition FRAME_IN_MAX :: int where "FRAME_IN_MAX = 32767"
definition REF_SCALE_NUM :: int where "REF_SCALE_NUM = 57"
definition REF_SCALE_DEN :: int where "REF_SCALE_DEN = 2"

record throttle_config =
  tc_rate :: int
  tc_filter :: int
  tc_speed_coeff :: int
  tc_steer_coeff :: int

definition throttle_config_default :: throttle_config where
  "throttle_config_default =
     \<lparr>tc_rate = RATE, tc_filter = FILTER_COEF, tc_speed_coeff = SPEED_COEFFICIENT, tc_steer_coeff = STEER_COEFFICIENT\<rparr>"

record throttle_state =
  ts_steer_rate :: int
  ts_speed_rate :: int
  ts_steer :: int
  ts_speed :: int

definition throttle_state_default :: throttle_state where
  "throttle_state_default = \<lparr>ts_steer_rate = 0, ts_speed_rate = 0, ts_steer = 0, ts_speed = 0\<rparr>"

record throttle_output =
  to_cmd_right :: int
  to_cmd_left :: int
  to_ref_right :: int
  to_ref_left :: int

definition rate_limiter16 :: "int \<Rightarrow> int \<Rightarrow> int \<Rightarrow> int" where
  "rate_limiter16 u rate y =
     (let q0 = as_i16 (sub32 (as_i32 (push_bit 4 u)) y);
          q0 = (if q0 > rate then rate else if q0 < as_i16 (- rate) then as_i16 (- rate) else q0)
      in as_i16 (q0 + y))"

definition filt_low_pass32 :: "int \<Rightarrow> int \<Rightarrow> int \<Rightarrow> int" where
  "filt_low_pass32 u coef y =
     (let inner = sub32 (as_i32 (push_bit 4 u)) (drop_bit 12 y);
          tmp = drop_bit 4 (mul64 inner coef);
          tmp = (if tmp < - 2147483648 then - 2147483648 else if tmp > 2147483647 then 2147483647 else tmp)
      in add32 (as_i32 tmp) y)"

definition clamp_cmd :: "int \<Rightarrow> int" where
  "clamp_cmd c = (if c < - CMD_LIMIT then - CMD_LIMIT else if c > CMD_LIMIT then CMD_LIMIT else c)"

definition mixer_fcn :: "int \<Rightarrow> int \<Rightarrow> int \<Rightarrow> int \<Rightarrow> int \<times> int" where
  "mixer_fcn rtu_speed rtu_steer speed_coeff steer_coeff =
     (let prod_speed = as_i16 (drop_bit 14 (mul32 rtu_speed speed_coeff));
          prod_steer = as_i16 (drop_bit 14 (mul32 rtu_steer steer_coeff));
          tmp = clamp (sub32 prod_speed prod_steer) (- 32768) 32767;
          cmd_right = clamp_cmd (as_i16 (drop_bit 4 tmp));
          tmp = clamp (add32 prod_speed prod_steer) (- 32768) 32767;
          cmd_left = clamp_cmd (as_i16 (drop_bit 4 tmp))
      in (cmd_right, cmd_left))"

definition throttle_tick :: "throttle_config \<Rightarrow> int \<Rightarrow> int \<Rightarrow> throttle_state \<Rightarrow> throttle_state \<times> throttle_output" where
  "throttle_tick cfg speed_in steer_in st =
     (let speed_cmd = as_i16 (mul32 speed_in CMD_LIMIT sdiv FRAME_IN_MAX);
          steer_cmd = as_i16 (mul32 steer_in CMD_LIMIT sdiv FRAME_IN_MAX);
          st = st\<lparr>ts_steer_rate := rate_limiter16 steer_cmd (tc_rate cfg) (ts_steer_rate st)\<rparr>;
          st = st\<lparr>ts_speed_rate := rate_limiter16 speed_cmd (tc_rate cfg) (ts_speed_rate st)\<rparr>;
          st = st\<lparr>ts_steer := filt_low_pass32 (drop_bit 4 (ts_steer_rate st)) (tc_filter cfg) (ts_steer st)\<rparr>;
          st = st\<lparr>ts_speed := filt_low_pass32 (drop_bit 4 (ts_speed_rate st)) (tc_filter cfg) (ts_speed st)\<rparr>;
          steer = as_i16 (drop_bit 16 (ts_steer st));
          speed = as_i16 (drop_bit 16 (ts_speed st))
      in case mixer_fcn (as_i16 (push_bit 4 speed)) (as_i16 (push_bit 4 steer)) (tc_speed_coeff cfg) (tc_steer_coeff cfg) of
           (cmd_right, cmd_left) \<Rightarrow>
             (st, \<lparr>to_cmd_right = cmd_right, to_cmd_left = cmd_left,
                   to_ref_right = mul32 cmd_right REF_SCALE_NUM sdiv REF_SCALE_DEN,
                   to_ref_left = mul32 cmd_left REF_SCALE_NUM sdiv REF_SCALE_DEN\<rparr>))"

section \<open>Control modes\<close>

datatype control_mode = ThrottleMode | BalanceMode

definition control_mode_from_u8 :: "u8 \<Rightarrow> control_mode" where
  "control_mode_from_u8 v = (if v = 1 then BalanceMode else ThrottleMode)"

datatype frame = Pivoting | Rigid

definition frame_from_u8 :: "u8 \<Rightarrow> frame" where
  "frame_from_u8 v = (if v = 1 then Rigid else Pivoting)"

datatype producer = ThrottleProducer | BalanceProducer | Leader | Follower

record mode_selection =
  ms_active :: producer
  ms_fault :: bool

definition select_mode :: "u8 \<Rightarrow> u8 \<Rightarrow> u8 \<Rightarrow> bool \<Rightarrow> mode_selection" where
  "select_mode requested frame_byte leader_byte imu_configured =
     (case (control_mode_from_u8 requested, frame_from_u8 frame_byte) of
        (ThrottleMode, _) \<Rightarrow> \<lparr>ms_active = ThrottleProducer, ms_fault = False\<rparr>
      | (BalanceMode, Pivoting) \<Rightarrow>
          if imu_configured then \<lparr>ms_active = BalanceProducer, ms_fault = False\<rparr>
          else \<lparr>ms_active = ThrottleProducer, ms_fault = True\<rparr>
      | (BalanceMode, Rigid) \<Rightarrow>
          if leader_byte \<noteq> 0 then \<lparr>ms_active = Leader, ms_fault = \<not> imu_configured\<rparr>
          else \<lparr>ms_active = Follower, ms_fault = False\<rparr>)"

record control_dispatch =
  cd_mode :: producer
  cd_mode_fault :: bool
  cd_rider_required :: bool
  cd_battery_floor :: int
  cd_throttle :: "throttle_state list"

definition rider_required_from :: "u8 \<Rightarrow> bool" where
  "rider_required_from b \<longleftrightarrow> b \<noteq> 0"

definition dispatch_new :: "nat \<Rightarrow> u8 \<Rightarrow> u8 \<Rightarrow> u8 \<Rightarrow> bool \<Rightarrow> u8 \<Rightarrow> int \<Rightarrow> control_dispatch" where
  "dispatch_new m mode_byte frame_byte leader_byte imu_configured rider_byte battery_floor =
     (let sel = select_mode mode_byte frame_byte leader_byte imu_configured
      in \<lparr>cd_mode = ms_active sel, cd_mode_fault = ms_fault sel, cd_rider_required = rider_required_from rider_byte,
          cd_battery_floor = battery_floor, cd_throttle = replicate m throttle_state_default\<rparr>)"

definition re_apply_values ::
  "control_dispatch \<Rightarrow> u8 \<Rightarrow> u8 \<Rightarrow> u8 \<Rightarrow> bool \<Rightarrow> u8 \<Rightarrow> int \<Rightarrow> control_dispatch \<times> bool" where
  "re_apply_values d mode_byte frame_byte leader_byte imu_configured rider_byte battery_floor =
     (let sel = select_mode mode_byte frame_byte leader_byte imu_configured;
          changed = ms_active sel \<noteq> cd_mode d;
          d = d\<lparr>cd_mode := ms_active sel, cd_mode_fault := ms_fault sel\<rparr>;
          d = (if changed then d\<lparr>cd_throttle := replicate (length (cd_throttle d)) throttle_state_default\<rparr> else d)
      in (d\<lparr>cd_rider_required := rider_required_from rider_byte, cd_battery_floor := battery_floor\<rparr>, changed))"

definition battery_ok :: "control_dispatch \<Rightarrow> int \<Rightarrow> bool" where
  "battery_ok d battery \<longleftrightarrow> battery \<noteq> 0 \<and> (cd_battery_floor d \<le> 0 \<or> battery \<ge> cd_battery_floor d)"

text \<open>The motor's index is below the number of records: the caller iterates its motors.\<close>

definition throttle_reference ::
  "control_dispatch \<Rightarrow> nat \<Rightarrow> throttle_config \<Rightarrow> int \<Rightarrow> int \<Rightarrow> control_dispatch \<times> throttle_output" where
  "throttle_reference d motor cfg speed_in steer_in =
     (case throttle_tick cfg speed_in steer_in (cd_throttle d ! motor) of
        (st, out) \<Rightarrow> (d\<lparr>cd_throttle := (cd_throttle d)[motor := st]\<rparr>, out))"

section \<open>The conditioner is its formula\<close>

definition command_spec :: "int \<Rightarrow> int" where
  "command_spec v = v * 1000 sdiv 32767"

definition rate_spec :: "int \<Rightarrow> int \<Rightarrow> int \<Rightarrow> int" where
  "rate_spec u rate y = y + max (- rate) (min rate (16 * u - y))"

definition filter_spec :: "int \<Rightarrow> int \<Rightarrow> int \<Rightarrow> int" where
  "filter_spec u coef y = y + ((16 * u - y div 4096) * coef) div 16"

definition mix_spec :: "int \<Rightarrow> int \<Rightarrow> int" where
  "mix_spec a b = max (- 1000) (min 1000 ((a + b) div 16))"

definition throttle_cfg_ok :: "throttle_config \<Rightarrow> bool" where
  "throttle_cfg_ok cfg \<longleftrightarrow> 0 \<le> tc_rate cfg \<and> tc_rate cfg \<le> 32767 \<and> 0 \<le> tc_filter cfg \<and> tc_filter cfg \<le> 65535 \<and>
     0 \<le> tc_speed_coeff cfg \<and> tc_speed_coeff cfg \<le> 16384 \<and> 0 \<le> tc_steer_coeff cfg \<and> tc_steer_coeff cfg \<le> 16384"

definition carries_ok :: "throttle_state \<Rightarrow> bool" where
  "carries_ok st \<longleftrightarrow> \<bar>ts_steer_rate st\<bar> \<le> 16000 \<and> \<bar>ts_speed_rate st\<bar> \<le> 16000 \<and>
     - 65536000 \<le> ts_steer st \<and> ts_steer st \<le> 65540095 \<and> - 65536000 \<le> ts_speed st \<and> ts_speed st \<le> 65540095"

lemma command_eq:
  assumes "v \<in> i16_range"
  shows "as_i16 (mul32 v CMD_LIMIT sdiv FRAME_IN_MAX) = command_spec v" "\<bar>command_spec v\<bar> \<le> 1000"
proof -
  have v: "\<bar>v * 1000\<bar> \<le> 32768000" using assms by (auto simp: i16_range_def)
  have q: "\<bar>v * 1000\<bar> div 32767 \<le> 1000"
    using zdiv_mono1 [OF v, of 32767] by simp
  then show b: "\<bar>command_spec v\<bar> \<le> 1000"
    by (auto simp: command_spec_def signed_divide_int_def abs_mult sgn_if split: if_splits)
  show "as_i16 (mul32 v CMD_LIMIT sdiv FRAME_IN_MAX) = command_spec v"
    using b assms by (simp add: mul32_def CMD_LIMIT_def FRAME_IN_MAX_def i16_range_def command_spec_def)
qed

lemma rate_eq:
  assumes "\<bar>u\<bar> \<le> 1000" "\<bar>y\<bar> \<le> 16000" "0 \<le> rate" "rate \<le> 32767"
  shows "rate_limiter16 u rate y = rate_spec u rate y" "\<bar>rate_spec u rate y\<bar> \<le> 16000"
proof -
  show "\<bar>rate_spec u rate y\<bar> \<le> 16000" using assms unfolding rate_spec_def by linarith
  then show "rate_limiter16 u rate y = rate_spec u rate y"
    using assms
    by (auto simp: rate_limiter16_def rate_spec_def Let_def sub32_def push_bit_eq_mult max_def min_def)
qed

lemma filter_eq:
  assumes "\<bar>u\<bar> \<le> 1000" "- 65536000 \<le> y" "y \<le> 65540095" "0 \<le> coef" "coef \<le> 65535"
  shows "filt_low_pass32 u coef y = filter_spec u coef y"
    "- 65536000 \<le> filter_spec u coef y" "filter_spec u coef y \<le> 65540095"
proof -
  define q r where "q = y div 4096" and "r = y mod 4096"
  have y: "y = 4096 * q + r" "0 \<le> r" "r \<le> 4095" by (simp_all add: q_def r_def)
  define d where "d = 16 * u - q"
  have q: "- 16000 \<le> q" "q \<le> 16000" using y assms(2,3) by linarith+
  then have d: "\<bar>d\<bar> \<le> 32000" using assms(1) unfolding d_def by linarith
  define inc where "inc = (d * coef) div 16"
  have inc: "(0 \<le> d \<longrightarrow> 0 \<le> inc \<and> inc \<le> 4096 * d) \<and> (d < 0 \<longrightarrow> 4096 * d \<le> inc \<and> inc \<le> 0)"
  proof (cases "0 \<le> d")
    case True
    then have "0 \<le> d * coef" "d * coef \<le> d * 65536" using assms(4,5) by (simp_all add: mult_left_mono)
    then have "0 div 16 \<le> inc" "inc \<le> (d * 65536) div 16" unfolding inc_def by (intro zdiv_mono1; simp)+
    then show ?thesis using True by simp
  next
    case False
    then have "d * coef \<le> 0" "d * 65536 \<le> d * coef" using assms(4,5) by (simp_all add: mult_nonpos_nonneg mult_left_mono_neg)
    then have "inc \<le> 0 div 16" "(d * 65536) div 16 \<le> inc" unfolding inc_def by (intro zdiv_mono1; simp)+
    then show ?thesis using False by simp
  qed
  have new: "filter_spec u coef y = y + inc" by (simp add: filter_spec_def inc_def d_def q_def)
  have u: "- 1000 \<le> u" "u \<le> 1000" using assms(1) by simp_all
  show lo: "- 65536000 \<le> filter_spec u coef y"
    using inc y u assms(2) unfolding new by (cases "0 \<le> d") (simp_all add: d_def)
  show hi: "filter_spec u coef y \<le> 65540095"
    using inc y u assms(3) unfolding new by (cases "0 \<le> d") (simp_all add: d_def)
  have prod: "\<bar>d * coef\<bar> \<le> 32000 * 65535" unfolding abs_mult using d assms(4,5) by (intro mult_mono) auto
  have "as_i32 (16 * u - q) = d" using d by (simp add: d_def)
  moreover have "as_i64 (d * coef) = d * coef" using prod by (intro as_i64_id) linarith+
  moreover have "- 131072000 \<le> inc" "inc \<le> 131072000" using inc d by (cases "0 \<le> d"; linarith)+
  ultimately show "filt_low_pass32 u coef y = filter_spec u coef y"
    using assms(1) lo hi unfolding new
    by (simp add: filt_low_pass32_def Let_def sub32_def mul64_def add32_def push_bit_eq_mult drop_bit_eq_div q_def [symmetric]
        inc_def [symmetric] mult.commute [of u 16])
qed

lemma readback: "- 65536000 \<le> y \<Longrightarrow> y \<le> 65540095 \<Longrightarrow> \<bar>y div 65536\<bar> \<le> 1000" for y :: int
  using zdiv_mono1 [of "- 65536000" y 65536] zdiv_mono1 [of y 65540095 65536] by simp

lemma product_eq:
  assumes "\<bar>s\<bar> \<le> 1000" "0 \<le> coeff" "coeff \<le> 16384"
  shows "as_i16 (drop_bit 14 (mul32 (as_i16 (push_bit 4 s)) coeff)) = s * coeff div 1024" "\<bar>s * coeff div 1024\<bar> \<le> 16000"
proof -
  have "\<bar>s * coeff\<bar> \<le> 1000 * 16384" unfolding abs_mult using assms by (intro mult_mono) auto
  then have b: "- 16384000 \<le> s * coeff" "s * coeff \<le> 16384000" by simp_all
  show c: "\<bar>s * coeff div 1024\<bar> \<le> 16000"
    using zdiv_mono1 [OF b(1), of 1024] zdiv_mono1 [OF b(2), of 1024] by simp
  have "as_i16 (push_bit 4 s) = 16 * s" using assms(1) by (simp add: push_bit_eq_mult)
  moreover have "as_i32 (16 * (s * coeff)) = 16 * (s * coeff)" using b by (intro as_i32_id) linarith+
  moreover have "16 * (s * coeff) div 16384 = s * coeff div 1024" using div_mult_mult1 [of 16 "s * coeff" 1024] by simp
  ultimately show "as_i16 (drop_bit 14 (mul32 (as_i16 (push_bit 4 s)) coeff)) = s * coeff div 1024"
    using c by (simp add: mul32_def drop_bit_eq_div mult.assoc)
qed

lemma mix_eq:
  assumes "\<bar>a\<bar> \<le> 16000" "\<bar>b\<bar> \<le> 16000"
  shows "clamp_cmd (as_i16 (drop_bit 4 (clamp (add32 a b) (- 32768) 32767))) = mix_spec a b"
    "clamp_cmd (as_i16 (drop_bit 4 (clamp (sub32 a b) (- 32768) 32767))) = mix_spec a (- b)"
proof -
  have *: "clamp_cmd (as_i16 (drop_bit 4 (clamp (as_i32 c) (- 32768) 32767))) = max (- 1000) (min 1000 (c div 16))"
    if "\<bar>c\<bar> \<le> 32000" for c
  proof -
    have "- 32000 \<le> c" "c \<le> 32000" using that by simp_all
    then have "- 2000 \<le> c div 16" "c div 16 \<le> 2000"
      using zdiv_mono1 [of "- 32000" c 16] zdiv_mono1 [of c 32000 16] by simp_all
    then show ?thesis using that by (simp add: clamp_def drop_bit_eq_div clamp_cmd_def CMD_LIMIT_def)
  qed
  show "clamp_cmd (as_i16 (drop_bit 4 (clamp (add32 a b) (- 32768) 32767))) = mix_spec a b"
    "clamp_cmd (as_i16 (drop_bit 4 (clamp (sub32 a b) (- 32768) 32767))) = mix_spec a (- b)"
    using *[of "a + b"] *[of "a - b"] assms by (simp_all add: add32_def sub32_def mix_spec_def)
qed

definition throttle_spec :: "throttle_config \<Rightarrow> int \<Rightarrow> int \<Rightarrow> throttle_state \<Rightarrow> throttle_state \<times> throttle_output" where
  "throttle_spec cfg speed_in steer_in st =
     (let steer_rate = rate_spec (command_spec steer_in) (tc_rate cfg) (ts_steer_rate st);
          speed_rate = rate_spec (command_spec speed_in) (tc_rate cfg) (ts_speed_rate st);
          steer = filter_spec (steer_rate div 16) (tc_filter cfg) (ts_steer st);
          speed = filter_spec (speed_rate div 16) (tc_filter cfg) (ts_speed st);
          a = speed div 65536 * tc_speed_coeff cfg div 1024;
          b = steer div 65536 * tc_steer_coeff cfg div 1024
      in (\<lparr>ts_steer_rate = steer_rate, ts_speed_rate = speed_rate, ts_steer = steer, ts_speed = speed\<rparr>,
          \<lparr>to_cmd_right = mix_spec a (- b), to_cmd_left = mix_spec a b,
           to_ref_right = mix_spec a (- b) * 57 sdiv 2, to_ref_left = mix_spec a b * 57 sdiv 2\<rparr>))"

lemma reference_eq:
  assumes "\<bar>c\<bar> \<le> 1000"
  shows "mul32 c REF_SCALE_NUM sdiv REF_SCALE_DEN = c * 57 sdiv 2" "\<bar>c * 57 sdiv 2\<bar> \<le> 28500"
proof -
  show "mul32 c REF_SCALE_NUM sdiv REF_SCALE_DEN = c * 57 sdiv 2"
    using assms by (simp add: mul32_def REF_SCALE_NUM_def REF_SCALE_DEN_def)
  have "\<bar>c * 57\<bar> div 2 \<le> 28500" using zdiv_mono1 [of "\<bar>c * 57\<bar>" 57000 2] assms by simp
  then show "\<bar>c * 57 sdiv 2\<bar> \<le> 28500" by (auto simp: signed_divide_int_def sgn_if split: if_splits)
qed

lemma mix_spec_bound: "\<bar>mix_spec a b\<bar> \<le> 1000"
  unfolding mix_spec_def by linarith

lemma throttle_tick_exact:
  assumes "throttle_cfg_ok cfg" "carries_ok st" "speed_in \<in> i16_range" "steer_in \<in> i16_range"
    "throttle_tick cfg speed_in steer_in st = (st', out)"
  shows "(st', out) = throttle_spec cfg speed_in steer_in st \<and> carries_ok st' \<and>
    \<bar>to_cmd_right out\<bar> \<le> 1000 \<and> \<bar>to_cmd_left out\<bar> \<le> 1000 \<and> \<bar>to_ref_right out\<bar> \<le> 28500 \<and> \<bar>to_ref_left out\<bar> \<le> 28500"
proof -
  define u w where "u = command_spec steer_in" and "w = command_spec speed_in"
  define sr vr where "sr = rate_spec u (tc_rate cfg) (ts_steer_rate st)" and "vr = rate_spec w (tc_rate cfg) (ts_speed_rate st)"
  define s v where "s = filter_spec (sr div 16) (tc_filter cfg) (ts_steer st)" and
    "v = filter_spec (vr div 16) (tc_filter cfg) (ts_speed st)"
  note cfg = assms(1) [unfolded throttle_cfg_ok_def] and st = assms(2) [unfolded carries_ok_def]
  have uw: "\<bar>u\<bar> \<le> 1000" "\<bar>w\<bar> \<le> 1000" unfolding u_def w_def by (intro command_eq(2) assms)+
  have rates: "rate_limiter16 u (tc_rate cfg) (ts_steer_rate st) = sr" "\<bar>sr\<bar> \<le> 16000"
      "rate_limiter16 w (tc_rate cfg) (ts_speed_rate st) = vr" "\<bar>vr\<bar> \<le> 16000"
    unfolding sr_def vr_def using uw cfg st by (auto intro!: rate_eq)
  have sixteenth: "\<bar>x div 16\<bar> \<le> 1000" if "\<bar>x\<bar> \<le> 16000" for x :: int
    using zdiv_mono1 [of "- 16000" x 16] zdiv_mono1 [of x 16000 16] that by simp
  have filters: "filt_low_pass32 (sr div 16) (tc_filter cfg) (ts_steer st) = s" "- 65536000 \<le> s" "s \<le> 65540095"
      "filt_low_pass32 (vr div 16) (tc_filter cfg) (ts_speed st) = v" "- 65536000 \<le> v" "v \<le> 65540095"
    unfolding s_def v_def using sixteenth rates(2,4) cfg st by (auto intro!: filter_eq)
  have read: "\<bar>s div 65536\<bar> \<le> 1000" "\<bar>v div 65536\<bar> \<le> 1000" using filters by (auto intro!: readback)
  then have narrow: "as_i16 (s div 65536) = s div 65536" "as_i16 (v div 65536) = v div 65536" by simp_all
  define a where "a = v div 65536 * tc_speed_coeff cfg div 1024"
  define b where "b = s div 65536 * tc_steer_coeff cfg div 1024"
  have ab: "as_i16 (drop_bit 14 (mul32 (as_i16 (push_bit 4 (v div 65536))) (tc_speed_coeff cfg))) = a" "\<bar>a\<bar> \<le> 16000"
      "as_i16 (drop_bit 14 (mul32 (as_i16 (push_bit 4 (s div 65536))) (tc_steer_coeff cfg))) = b" "\<bar>b\<bar> \<le> 16000"
    unfolding a_def b_def using read cfg by (auto intro!: product_eq)
  have mix: "mixer_fcn (as_i16 (push_bit 4 (v div 65536))) (as_i16 (push_bit 4 (s div 65536))) (tc_speed_coeff cfg) (tc_steer_coeff cfg) =
      (mix_spec a (- b), mix_spec a b)"
    unfolding mixer_fcn_def Let_def ab mix_eq [OF ab(2,4)] by (rule refl)
  have eq: "throttle_tick cfg speed_in steer_in st = throttle_spec cfg speed_in steer_in st"
    unfolding throttle_tick_def throttle_spec_def Let_def
    by (simp add: command_eq(1) assms(3,4) u_def [symmetric] w_def [symmetric] rates sr_def [symmetric] vr_def [symmetric]
        drop_bit_eq_div filters s_def [symmetric] v_def [symmetric] narrow mix a_def [symmetric] b_def [symmetric]
        reference_eq(1) mix_spec_bound)
  moreover have "throttle_spec cfg speed_in steer_in st =
      (\<lparr>ts_steer_rate = sr, ts_speed_rate = vr, ts_steer = s, ts_speed = v\<rparr>,
       \<lparr>to_cmd_right = mix_spec a (- b), to_cmd_left = mix_spec a b,
        to_ref_right = mix_spec a (- b) * 57 sdiv 2, to_ref_left = mix_spec a b * 57 sdiv 2\<rparr>)"
    by (simp add: throttle_spec_def Let_def u_def w_def sr_def vr_def s_def v_def a_def b_def)
  ultimately show ?thesis
    using assms(5) rates filters by (simp add: carries_ok_def reference_eq(2) mix_spec_bound)
qed

text \<open>The throttle conditioner: for the input frames of 16 bits, any configuration up to unity gain and carries
  that any earlier ticks left, the 16- and 32-bit pipeline computes its unbounded formula (no intermediate
  product, shift or narrowing wraps, neither clamp of the mixer's sums acts), the carries stay in the range
  that makes it so, the commands are within 1000 and the references within the full scale of 28500.\<close>

theorem throttle_exact:
  assumes "throttle_cfg_ok cfg" "carries_ok st" "speed_in \<in> i16_range" "steer_in \<in> i16_range"
    "throttle_tick cfg speed_in steer_in st = (st', out)"
  shows "(st', out) = throttle_spec cfg speed_in steer_in st \<and> carries_ok st' \<and>
    \<bar>to_cmd_right out\<bar> \<le> 1000 \<and> \<bar>to_cmd_left out\<bar> \<le> 1000 \<and> \<bar>to_ref_right out\<bar> \<le> 28500 \<and> \<bar>to_ref_left out\<bar> \<le> 28500"
  by (rule throttle_tick_exact [OF assms])

lemma throttle_exact_witness:
  "throttle_tick throttle_config_default 32767 (- 32768) throttle_state_default =
     throttle_spec throttle_config_default 32767 (- 32768) throttle_state_default"
proof -
  have "throttle_cfg_ok throttle_config_default" "carries_ok throttle_state_default"
    by (simp_all add: throttle_cfg_ok_def throttle_config_default_def carries_ok_def throttle_state_default_def
        RATE_def FILTER_COEF_def SPEED_COEFFICIENT_def STEER_COEFFICIENT_def)
  then show ?thesis
    using throttle_exact [OF _ _ _ _ prod.collapse [symmetric], of throttle_config_default throttle_state_default 32767 "- 32768"]
    by (simp add: i16_range_def)
qed

end
