(* ===== verification/ThrottleProps.thy ===== *)
theory ThrottleProps
  imports Throttle
begin

text \<open>
  The throttle conditioner over time: with both inputs at 0 the rate limiter arrives at 0, the flooring low-pass
  fades (\<open>shrink\<close> bounds one tick of it), and the references become and stay 0.
\<close>

section \<open>Releasing the stick\<close>

definition run_throttle :: "nat \<Rightarrow> throttle_state \<Rightarrow> throttle_state" where
  "run_throttle n st = ((\<lambda>s. fst (throttle_tick throttle_config_default 0 0 s)) ^^ n) st"

definition rate_down :: "int \<Rightarrow> int" where
  "rate_down y = rate_spec 0 480 y"

definition fade :: "int \<Rightarrow> int" where
  "fade y = filter_spec 0 6553 y"

lemma rate_down_iterate: "\<bar>y\<bar> \<le> 480 * int n \<Longrightarrow> (rate_down ^^ n) y = 0"
proof (induction n arbitrary: y)
  case (Suc n)
  then have "\<bar>rate_down y\<bar> \<le> 480 * int n" by (simp add: rate_down_def rate_spec_def)
  from Suc.IH [OF this] show ?case by (simp only: funpow_Suc_right comp_apply)
qed simp

definition shrink :: "int \<Rightarrow> int" where "shrink m = (3687 * m + 4095) div 4096"

lemma fade_step:
  assumes "y = 4096 * q + r" "0 \<le> r" "r \<le> 4095"
  shows "fade y = y + (- (q * 6553)) div 16"
proof -
  have "y div 4096 = q" using assms by simp
  then show ?thesis by (simp add: fade_def filter_spec_def)
qed

lemma shrink_mono: "a \<le> b \<Longrightarrow> shrink a \<le> shrink b"
  unfolding shrink_def by (intro zdiv_mono1) auto

text \<open>\<open>within m y\<close>: the carry's upper part is at most \<open>m\<close> away from 0.\<close>

definition within :: "int \<Rightarrow> int \<Rightarrow> bool" where
  "within m y \<longleftrightarrow> - (4096 * m) \<le> y \<and> y < 4096 * m + 4096"

lemma fade_within:
  assumes "within m y" "0 \<le> m"
  shows "within (shrink m) (fade y)" "0 \<le> y \<Longrightarrow> 0 \<le> fade y" "y < 0 \<Longrightarrow> y + 409 \<le> fade y"
proof -
  define q r where "q = y div 4096" and "r = y mod 4096"
  have y: "y = 4096 * q + r" "0 \<le> r" "r \<le> 4095" by (simp_all add: q_def r_def)
  define inc where "inc = (- (q * 6553)) div 16"
  have f: "fade y = y + inc" using fade_step [OF y] by (simp add: inc_def)
  have m: "- m \<le> q" "q \<le> m" using assms(1) y unfolding within_def by linarith+
  have exact: "(x * 16) div 16 = x" for x :: int by simp
  have inc: "(0 \<le> q \<longrightarrow> - 410 * q \<le> inc \<and> inc \<le> - 409 * q) \<and> (q < 0 \<longrightarrow> - 409 * q \<le> inc \<and> inc \<le> - 410 * q)"
    using zdiv_mono1 [of "(- 410 * q) * 16" "- (q * 6553)" 16] zdiv_mono1 [of "- (q * 6553)" "(- 409 * q) * 16" 16]
      zdiv_mono1 [of "(- 409 * q) * 16" "- (q * 6553)" 16] zdiv_mono1 [of "- (q * 6553)" "(- 410 * q) * 16" 16]
    unfolding exact inc_def [symmetric] by auto
  define X where "X = 3687 * m + 4095"
  have X: "X < 4096 * shrink m + 4096" "X - 4095 \<le> 4096 * shrink m" "0 \<le> shrink m"
  proof -
    have "X = 4096 * (X div 4096) + X mod 4096" "X mod 4096 < 4096" "0 \<le> X mod 4096" by simp_all
    then show "X < 4096 * shrink m + 4096" "X - 4095 \<le> 4096 * shrink m"
      unfolding shrink_def X_def [symmetric] by linarith+
    show "0 \<le> shrink m" using assms(2) by (simp add: shrink_def)
  qed
  show "within (shrink m) (fade y)"
    using inc y m X unfolding within_def f X_def by (cases "0 \<le> q") auto
  show "0 \<le> fade y" if "0 \<le> y"
    using inc y that unfolding f by (cases "0 \<le> q") auto
  show "y + 409 \<le> fade y" if "y < 0"
    using inc y that unfolding f by (cases "0 \<le> q") auto
qed

lemma fade_iterate: "within m y \<Longrightarrow> 0 \<le> m \<Longrightarrow> within ((shrink ^^ n) m) ((fade ^^ n) y) \<and> 0 \<le> (shrink ^^ n) m"
proof (induction n)
  case (Suc n)
  have "0 \<le> shrink k" if "0 \<le> k" for k using that by (simp add: shrink_def)
  then show ?case using Suc fade_within(1) by simp
qed simp

lemma shrink_16000: "(shrink ^^ 76) 16000 = 10"
  by (simp add: shrink_def numeral_eq_Suc)

lemma shrink_10: "(shrink ^^ n) 10 = 10"
  by (induction n) (simp_all add: shrink_def)

lemma fade_up: "0 \<le> (fade ^^ n) y \<or> y + 409 * int n \<le> (fade ^^ n) y"
proof (induction n)
  case (Suc n)
  define z where "z = (fade ^^ n) y"
  have "within \<bar>z\<bar> z" by (auto simp: within_def)
  from fade_within(2,3) [OF this abs_ge_zero] Suc show ?case unfolding z_def [symmetric] by (cases "0 \<le> z") (auto simp: z_def [symmetric])
qed simp

lemma fade_releases:
  assumes "within 16000 y" "177 \<le> n"
  shows "(fade ^^ n) y div 65536 = 0"
proof -
  define z where "z = (fade ^^ 76) y"
  have z: "within 10 z" using fade_iterate [OF assms(1), of 76] by (simp add: z_def shrink_16000)
  define k where "k = n - 76"
  have k: "n = k + 76" "101 \<le> k" using assms(2) by (simp_all add: k_def)
  have "(fade ^^ n) y = (fade ^^ k) z" unfolding k(1) funpow_add z_def by simp
  moreover have "within 10 ((fade ^^ k) z)" using fade_iterate [OF z, of k] by (simp add: shrink_10)
  moreover have "0 \<le> (fade ^^ k) z" using fade_up [of k z] z k(2) by (auto simp: within_def)
  ultimately show ?thesis by (simp add: within_def)
qed


lemma throttle_spec_out:
  "snd (throttle_spec cfg x y st) =
     (let st' = fst (throttle_spec cfg x y st);
          a = ts_speed st' div 65536 * tc_speed_coeff cfg div 1024;
          b = ts_steer st' div 65536 * tc_steer_coeff cfg div 1024
      in \<lparr>to_cmd_right = mix_spec a (- b), to_cmd_left = mix_spec a b,
          to_ref_right = mix_spec a (- b) * 57 sdiv 2, to_ref_left = mix_spec a b * 57 sdiv 2\<rparr>)"
  by (simp add: throttle_spec_def Let_def)

lemma throttle_step_zero:
  assumes "carries_ok st"
  defines "st' \<equiv> fst (throttle_tick throttle_config_default 0 0 st)"
  shows "carries_ok st'" "ts_steer_rate st' = rate_down (ts_steer_rate st)" "ts_speed_rate st' = rate_down (ts_speed_rate st)"
    "ts_steer_rate st' = 0 \<Longrightarrow> ts_steer st' = fade (ts_steer st)"
    "ts_speed_rate st' = 0 \<Longrightarrow> ts_speed st' = fade (ts_speed st)"
    "ts_steer st' div 65536 = 0 \<Longrightarrow> ts_speed st' div 65536 = 0 \<Longrightarrow>
       snd (throttle_tick throttle_config_default 0 0 st) = \<lparr>to_cmd_right = 0, to_cmd_left = 0, to_ref_right = 0, to_ref_left = 0\<rparr>"
proof -
  have "throttle_cfg_ok throttle_config_default"
    by (simp add: throttle_cfg_ok_def throttle_config_default_def RATE_def FILTER_COEF_def SPEED_COEFFICIENT_def STEER_COEFFICIENT_def)
  moreover have "(0 :: int) \<in> i16_range" by (simp add: i16_range_def)
  ultimately have *: "throttle_tick throttle_config_default 0 0 st = throttle_spec throttle_config_default 0 0 st" "carries_ok st'"
    using throttle_tick_exact [OF _ assms(1) _ _ prod.collapse [symmetric], of throttle_config_default 0 0]
    unfolding st'_def prod.collapse by blast+
  show "carries_ok st'" by (rule *(2))
  show r: "ts_steer_rate st' = rate_down (ts_steer_rate st)" "ts_speed_rate st' = rate_down (ts_speed_rate st)"
    unfolding st'_def *(1)
    by (simp_all add: throttle_spec_def Let_def rate_down_def command_spec_def throttle_config_default_def RATE_def)
  have f: "ts_steer st' = filter_spec (ts_steer_rate st' div 16) 6553 (ts_steer st)"
      "ts_speed st' = filter_spec (ts_speed_rate st' div 16) 6553 (ts_speed st)"
    unfolding st'_def *(1)
    by (simp_all add: throttle_spec_def Let_def throttle_config_default_def FILTER_COEF_def)
  show "ts_steer st' = fade (ts_steer st)" if "ts_steer_rate st' = 0" using f(1) unfolding that fade_def by simp
  show "ts_speed st' = fade (ts_speed st)" if "ts_speed_rate st' = 0" using f(2) unfolding that fade_def by simp
  show "snd (throttle_tick throttle_config_default 0 0 st) = \<lparr>to_cmd_right = 0, to_cmd_left = 0, to_ref_right = 0, to_ref_left = 0\<rparr>"
    if "ts_steer st' div 65536 = 0" "ts_speed st' div 65536 = 0"
    using that unfolding st'_def *(1) throttle_spec_out Let_def by (simp only:) (simp add: mix_spec_def)
qed

lemma run_throttle_Suc: "run_throttle (Suc n) st = fst (throttle_tick throttle_config_default 0 0 (run_throttle n st))"
  by (simp add: run_throttle_def)

lemma run_throttle_rates:
  assumes "carries_ok st"
  shows "carries_ok (run_throttle n st) \<and> ts_steer_rate (run_throttle n st) = (rate_down ^^ n) (ts_steer_rate st) \<and>
    ts_speed_rate (run_throttle n st) = (rate_down ^^ n) (ts_speed_rate st)"
proof (induction n)
  case 0
  then show ?case using assms by (simp add: run_throttle_def)
next
  case (Suc n)
  then show ?case using throttle_step_zero(1-3) [of "run_throttle n st"] unfolding run_throttle_Suc by simp
qed

lemma run_throttle_idle:
  assumes "carries_ok st" "34 \<le> n"
  shows "ts_steer_rate (run_throttle n st) = 0 \<and> ts_speed_rate (run_throttle n st) = 0"
proof -
  have "\<bar>ts_steer_rate st\<bar> \<le> 480 * int n" "\<bar>ts_speed_rate st\<bar> \<le> 480 * int n"
    using assms by (auto simp: carries_ok_def)
  then show ?thesis using run_throttle_rates [OF assms(1), of n] by (simp add: rate_down_iterate)
qed

lemma run_throttle_fade:
  assumes "carries_ok st" "34 \<le> k"
  shows "ts_steer (run_throttle (k + n) st) = (fade ^^ n) (ts_steer (run_throttle k st)) \<and>
    ts_speed (run_throttle (k + n) st) = (fade ^^ n) (ts_speed (run_throttle k st))"
proof (induction n)
  case (Suc n)
  have idle: "ts_steer_rate (run_throttle (Suc (k + n)) st) = 0" "ts_speed_rate (run_throttle (Suc (k + n)) st) = 0"
    using run_throttle_idle [OF assms(1), of "Suc (k + n)"] assms(2) by simp_all
  have ok: "carries_ok (run_throttle (k + n) st)" using run_throttle_rates [OF assms(1)] by blast
  show ?case
    using throttle_step_zero(4,5) [OF ok] Suc idle unfolding run_throttle_Suc add_Suc_right by simp
qed simp

text \<open>Letting go of the stick: from any carries the conditioner can hold, once the two inputs have been 0 for
  211 ticks (0.85 s) the commands and both references are exactly 0 on every later tick. The low-pass
  floors, so its carry does not reach 0, and a negative one would read back as -1 for ever did it not drift
  up past 0; the bound covers that drift.\<close>

theorem throttle_releases:
  assumes "carries_ok st" "211 \<le> n"
  shows "snd (throttle_tick throttle_config_default 0 0 (run_throttle n st)) =
    \<lparr>to_cmd_right = 0, to_cmd_left = 0, to_ref_right = 0, to_ref_left = 0\<rparr>"
proof -
  have ok: "carries_ok (run_throttle k st)" for k using run_throttle_rates [OF assms(1)] by blast
  have "within 16000 (ts_steer (run_throttle 34 st))" "within 16000 (ts_speed (run_throttle 34 st))"
    using ok [of 34] by (auto simp: carries_ok_def within_def)
  then have "(fade ^^ (Suc n - 34)) (ts_steer (run_throttle 34 st)) div 65536 = 0"
      "(fade ^^ (Suc n - 34)) (ts_speed (run_throttle 34 st)) div 65536 = 0"
    using assms(2) by (intro fade_releases; simp)+
  then have "ts_steer (run_throttle (Suc n) st) div 65536 = 0 \<and> ts_speed (run_throttle (Suc n) st) div 65536 = 0"
    using run_throttle_fade [OF assms(1), of 34 "Suc n - 34"] assms(2) by simp
  then show ?thesis using throttle_step_zero(6) [OF ok [of n]] unfolding run_throttle_Suc by simp
qed

lemma throttle_releases_witness:
  "snd (throttle_tick throttle_config_default 0 0
     (run_throttle 211 \<lparr>ts_steer_rate = - 16000, ts_speed_rate = 16000, ts_steer = - 65536000, ts_speed = 65536000\<rparr>)) =
   \<lparr>to_cmd_right = 0, to_cmd_left = 0, to_ref_right = 0, to_ref_left = 0\<rparr>"
  by (rule throttle_releases) (simp_all add: carries_ok_def)

end
