(* ===== verification/Scheduler.thy ===== *)
theory Scheduler
  imports Prelude
begin

text \<open>
  The cooperative scheduler, \<open>src/motorcontroller/scheduler/src/lib.rs\<close>: the slot table, registration, the tick
  of the interrupt and the dispatch of the main loop. The interrupt preempts the main loop between any two
  atomic accesses and runs to completion; \<open>dispatch_step\<close> is one atomic access of a dispatch, and an execution
  is any sequence of ticks and dispatch steps.
\<close>

section \<open>The table\<close>

definition NSLOT :: nat where "NSLOT = 4"
definition TICK_HZ :: u32 where "TICK_HZ = 250"
definition TICK_MS :: u32 where "TICK_MS = 1000 div TICK_HZ"

datatype sched_error = NoError | Full | UnregisterEmpty

text \<open>A null callback is None; a task is any value.\<close>

record 'c slot =
  sl_callback :: "'c option"
  sl_counter :: u16
  sl_reload :: u16
  sl_runcount :: u8

definition slot_empty :: "'c slot" where
  "slot_empty = \<lparr>sl_callback = None, sl_counter = 0, sl_reload = 0, sl_runcount = 0\<rparr>"

record 'c scheduler =
  sc_table :: "'c slot list"
  sc_status :: sched_error
  sc_enabled :: bool

definition sched_new :: "'c scheduler" where
  "sched_new = \<lparr>sc_table = replicate NSLOT slot_empty, sc_status = NoError, sc_enabled = False\<rparr>"

definition mark_tick_source_enabled :: "'c scheduler \<Rightarrow> 'c scheduler" where
  "mark_tick_source_enabled s = s\<lparr>sc_enabled := True\<rparr>"

definition systick_init :: "'c scheduler \<Rightarrow> 'c scheduler" where
  "systick_init s = s\<lparr>sc_table := replicate (length (sc_table s)) slot_empty, sc_status := NoError\<rparr>"

fun first_free :: "nat \<Rightarrow> 'c slot list \<Rightarrow> nat option" where
  "first_free i [] = None"
| "first_free i (sl # sls) = (if sl_callback sl = None then Some i else first_free (Suc i) sls)"

definition sched_register :: "'c scheduler \<Rightarrow> 'c \<Rightarrow> u16 \<Rightarrow> u16 \<Rightarrow> 'c scheduler \<times> nat" where
  "sched_register s c initial_counter reload =
     (case first_free 0 (sc_table s) of
        Some i \<Rightarrow>
          (s\<lparr>sc_table := (sc_table s)[i := \<lparr>sl_callback = Some c, sl_counter = initial_counter, sl_reload = reload,
                                           sl_runcount = 0\<rparr>]\<rparr>, i)
      | None \<Rightarrow> (s\<lparr>sc_status := Full\<rparr>, NSLOT))"

definition register_task :: "'c scheduler \<Rightarrow> 'c \<Rightarrow> u16 \<Rightarrow> 'c scheduler \<times> (sched_error + nat)" where
  "register_task s c reload =
     (case sched_register s c reload reload of (s, i) \<Rightarrow> (s, if i < NSLOT then Inr i else Inl Full))"

definition register_oneshot :: "'c scheduler \<Rightarrow> 'c \<Rightarrow> u16 \<Rightarrow> 'c scheduler \<times> (sched_error + nat)" where
  "register_oneshot s c delay =
     (case sched_register s c delay 0 of (s, i) \<Rightarrow> (s, if i < NSLOT then Inr i else Inl Full))"

definition sched_unregister :: "'c scheduler \<Rightarrow> nat \<Rightarrow> 'c scheduler \<times> bool" where
  "sched_unregister s i =
     (let was_already_empty = sl_callback (sc_table s ! i) = None;
          s = (if was_already_empty then s\<lparr>sc_status := UnregisterEmpty\<rparr> else s)
      in (s\<lparr>sc_table := (sc_table s)[i := slot_empty]\<rparr>, was_already_empty))"

definition unregister :: "'c scheduler \<Rightarrow> nat \<Rightarrow> 'c scheduler \<times> (sched_error + unit)" where
  "unregister s i = (case sched_unregister s i of (s, e) \<Rightarrow> (s, if e then Inl UnregisterEmpty else Inr ()))"

definition systick_load :: "u32 \<Rightarrow> u32 option" where
  "systick_load sysclk_hz = (let load = sysclk_hz div TICK_HZ - 1 in if load \<ge> 0x01000000 then None else Some load)"

section \<open>Ticks and dispatch\<close>

definition tick_slot :: "'c slot \<Rightarrow> 'c slot" where
  "tick_slot sl =
     (if sl_callback sl = None then sl
      else if sl_counter sl \<noteq> 0 then sl\<lparr>sl_counter := sl_counter sl - 1\<rparr>
      else
        let sl = sl\<lparr>sl_runcount := sl_runcount sl + 1\<rparr>
        in if sl_reload sl \<noteq> 0 then sl\<lparr>sl_counter := sl_reload sl - 1\<rparr> else sl)"

definition sched_tick :: "'c scheduler \<Rightarrow> 'c scheduler" where
  "sched_tick s = s\<lparr>sc_table := map tick_slot (sc_table s)\<rparr>"

text \<open>The whole dispatch, when no tick preempts it: the runs it makes, in order, as slot and task.\<close>

definition dispatch_slot :: "nat \<Rightarrow> 'c slot \<Rightarrow> 'c slot \<times> (nat \<times> 'c) list" where
  "dispatch_slot i sl =
     (if sl_runcount sl \<noteq> 0 then
        let runs = (case sl_callback sl of None \<Rightarrow> [] | Some c \<Rightarrow> [(i, c)]);
            sl = sl\<lparr>sl_runcount := sl_runcount sl - 1\<rparr>
        in (if sl_reload sl = 0 then slot_empty else sl, runs)
      else (sl, []))"

fun dispatch_from :: "nat \<Rightarrow> 'c slot list \<Rightarrow> 'c slot list \<times> (nat \<times> 'c) list" where
  "dispatch_from i [] = ([], [])"
| "dispatch_from i (sl # sls) =
     (case (dispatch_slot i sl, dispatch_from (Suc i) sls) of ((sl, rs), (sls, rs')) \<Rightarrow> (sl # sls, rs @ rs'))"

definition dispatch :: "'c scheduler \<Rightarrow> 'c scheduler \<times> (nat \<times> 'c) list" where
  "dispatch s = (case dispatch_from 0 (sc_table s) of (t, rs) \<Rightarrow> (s\<lparr>sc_table := t\<rparr>, rs))"

text \<open>Where a dispatch stands: at the due test of a slot, at the load and call of its task, at the decrement, at
  the test for a one-shot, at one of the four stores that clear a slot, or out of the pass.\<close>

datatype dispatch_pos = AtTest nat | AtCall nat | AtTake nat | AtReload nat | AtClear nat nat | AtEnd

definition update_slot :: "nat \<Rightarrow> ('c slot \<Rightarrow> 'c slot) \<Rightarrow> 'c scheduler \<Rightarrow> 'c scheduler" where
  "update_slot i f s = s\<lparr>sc_table := (sc_table s)[i := f (sc_table s ! i)]\<rparr>"

definition clear_store :: "nat \<Rightarrow> 'c slot \<Rightarrow> 'c slot" where
  "clear_store k sl =
     (if k = 0 then sl\<lparr>sl_callback := None\<rparr> else if k = 1 then sl\<lparr>sl_counter := 0\<rparr>
      else if k = 2 then sl\<lparr>sl_reload := 0\<rparr> else sl\<lparr>sl_runcount := 0\<rparr>)"

fun dispatch_step :: "'c scheduler \<Rightarrow> dispatch_pos \<Rightarrow> ('c scheduler \<times> dispatch_pos) \<times> (nat \<times> 'c) list" where
  "dispatch_step s (AtTest i) =
     ((s, if i < length (sc_table s) then if sl_runcount (sc_table s ! i) \<noteq> 0 then AtCall i else AtTest (Suc i)
          else AtEnd), [])"
| "dispatch_step s (AtCall i) =
     ((s, AtTake i), case sl_callback (sc_table s ! i) of None \<Rightarrow> [] | Some c \<Rightarrow> [(i, c)])"
| "dispatch_step s (AtTake i) = ((update_slot i (\<lambda>sl. sl\<lparr>sl_runcount := sl_runcount sl - 1\<rparr>) s, AtReload i), [])"
| "dispatch_step s (AtReload i) = ((s, if sl_reload (sc_table s ! i) = 0 then AtClear i 0 else AtTest (Suc i)), [])"
| "dispatch_step s (AtClear i k) =
     ((update_slot i (clear_store k) s, if k < 3 then AtClear i (Suc k) else AtTest (Suc i)), [])"
| "dispatch_step s AtEnd = ((s, AtTest 0), [])"

datatype sched_event = Tick | Step

fun exec :: "sched_event list \<Rightarrow> 'c scheduler \<times> dispatch_pos \<Rightarrow> ('c scheduler \<times> dispatch_pos) \<times> (nat \<times> 'c) list" where
  "exec [] c = (c, [])"
| "exec (Tick # es) (s, p) = exec es (sched_tick s, p)"
| "exec (Step # es) (s, p) =
     (case dispatch_step s p of (c, rs) \<Rightarrow> case exec es c of (c, rs') \<Rightarrow> (c, rs @ rs'))"

lemma exec_snoc:
  "exec (es @ [e]) c =
     (case exec es c of ((s, p), rs) \<Rightarrow>
        (case e of Tick \<Rightarrow> ((sched_tick s, p), rs) | Step \<Rightarrow> case dispatch_step s p of (c, rs') \<Rightarrow> (c, rs @ rs')))"
proof (induction es c rule: exec.induct)
  case (1 c)
  then show ?case by (cases c; cases e) (auto split: prod.splits)
qed (auto split: prod.splits sched_event.splits)

section \<open>Periodic tasks under preemption\<close>

definition dues :: "nat \<Rightarrow> nat \<Rightarrow> nat \<Rightarrow> nat" where
  "dues start period t = (if t \<le> start then 0 else (t - start - 1) div period + 1)"

definition runs_of :: "nat \<Rightarrow> (nat \<times> 'c) list \<Rightarrow> nat" where
  "runs_of i rs = length (filter (\<lambda>r. fst r = i) rs)"

definition ticks_of :: "sched_event list \<Rightarrow> nat" where
  "ticks_of es = length (filter (\<lambda>e. e = Tick) es)"

lemma counts [simp]:
  "runs_of i [] = 0" "runs_of i ((j, c) # rs) = (if j = i then 1 else 0) + runs_of i rs"
  "runs_of i (rs @ rs') = runs_of i rs + runs_of i rs'"
  "ticks_of [] = 0" "ticks_of (es @ [e]) = ticks_of es + (if e = Tick then 1 else 0)"
  by (simp_all add: runs_of_def ticks_of_def)

text \<open>The ticks left to the next due one.\<close>

definition until_due :: "nat \<Rightarrow> nat \<Rightarrow> nat \<Rightarrow> nat" where
  "until_due start period t = (if t \<le> start then start - t else period - 1 - (t - start - 1) mod period)"

lemma dues_Suc:
  assumes "0 < period"
  shows "dues start period (Suc t) = dues start period t + (if until_due start period t = 0 then 1 else 0)"
    "until_due start period (Suc t) =
      (if until_due start period t = 0 then period - 1 else until_due start period t - 1)"
proof -
  consider "t < start" | "t = start" | k where "t = start + Suc k" by (metis add_Suc_right less_imp_Suc_add linorder_neqE_nat)
  then have "dues start period (Suc t) = dues start period t + (if until_due start period t = 0 then 1 else 0) \<and>
      until_due start period (Suc t) = (if until_due start period t = 0 then period - 1 else until_due start period t - 1)"
  proof cases
    case 3
    have "Suc k div period = (if Suc k mod period = 0 then Suc (k div period) else k div period)" by (simp add: div_Suc)
    moreover have "Suc k mod period = 0 \<longleftrightarrow> k mod period = period - 1"
      using assms mod_less_divisor [OF assms, of k] by (auto simp: mod_Suc)
    ultimately show ?thesis
      using 3 assms mod_less_divisor [OF assms, of k] by (auto simp: dues_def until_due_def mod_Suc)
  qed (use assms in \<open>auto simp: dues_def until_due_def\<close>)
  then show "dues start period (Suc t) = dues start period t + (if until_due start period t = 0 then 1 else 0)"
    "until_due start period (Suc t) =
      (if until_due start period t = 0 then period - 1 else until_due start period t - 1)"
    by blast+
qed

text \<open>Whether slot \<open>i\<close> has made a run whose decrement is still to come.\<close>

definition in_flight :: "nat \<Rightarrow> dispatch_pos \<Rightarrow> nat" where
  "in_flight i p = (if p = AtTake i then 1 else 0)"

definition slot_inv :: "nat \<Rightarrow> 'c \<Rightarrow> nat \<Rightarrow> nat \<Rightarrow> nat \<Rightarrow> nat \<Rightarrow> 'c slot \<Rightarrow> dispatch_pos \<Rightarrow> bool" where
  "slot_inv i c start period t r sl p \<longleftrightarrow>
     sl_callback sl = Some c \<and> unat (sl_reload sl) = period \<and> unat (sl_counter sl) = until_due start period t \<and>
     sl_runcount sl = of_nat (dues start period t) - of_nat (r - in_flight i p) \<and> in_flight i p \<le> r \<and>
     (\<forall>k. p \<noteq> AtClear i k)"

lemma slot_inv_tick:
  assumes "slot_inv i c start period t r sl p" "0 < period"
  shows "slot_inv i c start period (Suc t) r (tick_slot sl) p"
proof -
  note inv = assms(1) [unfolded slot_inv_def]
  show ?thesis
  proof (cases "until_due start period t = 0")
    case True
    then have c0: "sl_counter sl = 0" using inv by (metis unat_eq_zero)
    have "sl_reload sl \<noteq> 0" using inv assms(2) by auto
    moreover from this have "unat (sl_reload sl - 1) = period - 1" using inv by (metis unat_minus_one)
    ultimately show ?thesis
      using inv c0 True dues_Suc [OF assms(2), of start t] by (simp add: slot_inv_def tick_slot_def Let_def)
  next
    case False
    then have "sl_counter sl \<noteq> 0" using inv by auto
    moreover from this have "unat (sl_counter sl - 1) = until_due start period t - 1" using inv by (metis unat_minus_one)
    ultimately show ?thesis
      using inv False dues_Suc [OF assms(2), of start t] by (simp add: slot_inv_def tick_slot_def)
  qed
qed

lemma slot_inv_step:
  assumes "dispatch_step s p = ((s', p'), rs)" "i < length (sc_table s)" "0 < period"
    "slot_inv i c start period t r (sc_table s ! i) p"
  shows "slot_inv i c start period t (r + runs_of i rs) (sc_table s' ! i) p' \<and> length (sc_table s') = length (sc_table s) \<and>
    (\<forall>c'. (i, c') \<in> set rs \<longrightarrow> c' = c)"
proof (cases p)
  case (AtTake j)
  then show ?thesis using assms
    by (cases "j = i") (auto simp: slot_inv_def in_flight_def update_slot_def nth_list_update of_nat_diff)
next
  case (AtReload j)
  have "sl_reload (sc_table s ! i) \<noteq> 0" using assms(3,4) by (auto simp: slot_inv_def)
  then show ?thesis using AtReload assms by (cases "j = i") (auto simp: slot_inv_def in_flight_def split: if_splits)
next
  case (AtClear j k)
  then show ?thesis using assms by (auto simp: slot_inv_def in_flight_def update_slot_def split: if_splits)
next
  case (AtCall j)
  then show ?thesis using assms by (auto simp: slot_inv_def in_flight_def split: option.splits)
qed (use assms in \<open>auto simp: slot_inv_def in_flight_def split: if_splits\<close>)

lemma slot_inv_exec:
  assumes "i < length (sc_table s)" "0 < period" "slot_inv i c start period 0 0 (sc_table s ! i) p"
    "exec es (s, p) = ((s', p'), rs)"
  shows "slot_inv i c start period (ticks_of es) (runs_of i rs) (sc_table s' ! i) p' \<and>
    length (sc_table s') = length (sc_table s) \<and> (\<forall>c'. (i, c') \<in> set rs \<longrightarrow> c' = c)"
  using assms(4)
proof (induction es arbitrary: s' p' rs rule: rev_induct)
  case Nil
  then show ?case using assms by auto
next
  case (snoc e es)
  obtain s1 p1 rs1 where e1: "exec es (s, p) = ((s1, p1), rs1)" by (metis prod_cases3 surj_pair)
  note inv = snoc.IH [OF e1]
  show ?case
  proof (cases e)
    case Tick
    then have "s' = sched_tick s1" "p' = p1" "rs = rs1" using snoc.prems by (simp_all add: exec_snoc e1)
    then show ?thesis using inv slot_inv_tick [of i c start period "ticks_of es" _ _ p1] assms(1,2) Tick
      by (simp add: sched_tick_def)
  next
    case Step
    obtain s2 p2 rs2 where e2: "dispatch_step s1 p1 = ((s2, p2), rs2)" by (metis prod_cases3 surj_pair)
    then have "s' = s2" "p' = p2" "rs = rs1 @ rs2" using snoc.prems Step by (simp_all add: exec_snoc e1)
    then show ?thesis using inv slot_inv_step [OF e2 _ assms(2)] assms(1) Step by auto
  qed
qed

section \<open>Properties\<close>

text \<open>C32: No tick is lost and none is counted twice, whatever the preemption: register a periodic task in a free
  slot, and let any sequence of interrupt ticks and single atomic dispatch steps follow. The task is due on
  tick start + 1 and every period ticks after it, no matter when it is dispatched; its pending count is
  exactly (modulo the byte it is kept in) the due events so far minus the runs whose decrement has been
  made; every run of the slot is of the registered task, and the slot is never freed.\<close>

theorem no_tick_lost:
  assumes "sched_register s c start period = (s1, i)" "i < NSLOT" "length (sc_table s) = NSLOT" "period \<noteq> 0"
    "exec es (s1, AtEnd) = ((s', p'), rs)"
  shows "sl_callback (sc_table s' ! i) = Some c \<and> (\<forall>c'. (i, c') \<in> set rs \<longrightarrow> c' = c) \<and>
    sl_runcount (sc_table s' ! i) =
      of_nat (dues (unat start) (unat period) (ticks_of es)) - of_nat (runs_of i rs - in_flight i p')"
proof -
  obtain j where j: "first_free 0 (sc_table s) = Some j" "i = j"
    using assms(1,2) by (auto simp: sched_register_def split: option.splits)
  have s1: "sc_table s1 = (sc_table s)[i := \<lparr>sl_callback = Some c, sl_counter = start, sl_reload = period, sl_runcount = 0\<rparr>]"
    using assms(1) j by (auto simp: sched_register_def)
  have inv: "slot_inv i c (unat start) (unat period) 0 0 (sc_table s1 ! i) AtEnd"
    using assms(2,3) by (simp add: s1 slot_inv_def until_due_def dues_def in_flight_def)
  have "0 < unat period" using assms(4) by (simp add: unat_gt_0)
  from slot_inv_exec [OF _ this inv assms(5)] show ?thesis
    using assms(2,3) by (simp add: s1 slot_inv_def)
qed

definition demo_sched :: "nat scheduler" where
  "demo_sched = fst (sched_register sched_new 7 0 1)"

lemma no_tick_lost_witness:
  "sl_runcount (sc_table (fst (fst (exec [Tick, Tick, Step, Step, Step, Tick, Step, Tick] (demo_sched, AtEnd)))) ! 0) = 3"
proof -
  obtain s' p' rs where e: "exec [Tick, Tick, Step, Step, Step, Tick, Step, Tick] (demo_sched, AtEnd) = ((s', p'), rs)"
    by (metis prod_cases3 surj_pair)
  have "sched_register sched_new 7 0 1 = (demo_sched, 0)" by code_simp
  from no_tick_lost [OF this _ _ _ e]
  have "sl_runcount (sc_table s' ! 0) = of_nat (dues 0 1 4) - of_nat (runs_of 0 rs - in_flight 0 p')"
    by (simp add: NSLOT_def sched_new_def ticks_of_def dues_def)
  moreover have "runs_of 0 rs - in_flight 0 p' = 1"
  proof -
    have "exec [Tick, Tick, Step, Step, Step, Tick, Step, Tick] (demo_sched, AtEnd) = ((s', p'), rs) \<longrightarrow>
        runs_of 0 (snd (exec [Tick, Tick, Step, Step, Step, Tick, Step, Tick] (demo_sched, AtEnd))) = 1 \<and>
        snd (fst (exec [Tick, Tick, Step, Step, Step, Tick, Step, Tick] (demo_sched, AtEnd))) = AtReload 0"
      by code_simp
    then show ?thesis using e by (simp add: in_flight_def)
  qed
  ultimately show ?thesis by (simp only: e fst_conv) (simp add: dues_def)
qed

section \<open>One-shots\<close>

definition busy :: "nat \<Rightarrow> dispatch_pos \<Rightarrow> bool" where
  "busy i p \<longleftrightarrow> p = AtTake i \<or> p = AtReload i \<or> (\<exists>k. p = AtClear i k)"

definition oneshot_inv :: "nat \<Rightarrow> nat \<Rightarrow> 'c slot \<Rightarrow> dispatch_pos \<Rightarrow> bool" where
  "oneshot_inv i r sl p \<longleftrightarrow>
     (if r = 0 then sl_callback sl \<noteq> None \<and> sl_reload sl = 0 \<and> \<not> busy i p
      else r = 1 \<and>
        (if p = AtTake i \<or> p = AtReload i then sl_reload sl = 0
         else if busy i p then \<forall>k. p = AtClear i k \<longrightarrow> k \<le> 3 \<and> (0 < k \<longrightarrow> sl_callback sl = None)
         else sl_callback sl = None \<and> sl_runcount sl = 0 \<and> p \<noteq> AtCall i))"

lemma oneshot_tick: "oneshot_inv i r sl p \<Longrightarrow> oneshot_inv i r (tick_slot sl) p"
proof (cases "sl_callback sl = None")
  case True
  then have "tick_slot sl = sl" by (simp add: tick_slot_def)
  then show "oneshot_inv i r sl p \<Longrightarrow> oneshot_inv i r (tick_slot sl) p" by simp
next
  case False
  moreover have "sl_callback (tick_slot sl) = sl_callback sl" "sl_reload (tick_slot sl) = sl_reload sl"
    by (simp_all add: tick_slot_def Let_def)
  ultimately show "oneshot_inv i r sl p \<Longrightarrow> oneshot_inv i r (tick_slot sl) p"
    unfolding oneshot_inv_def by (auto split: if_splits)
qed

lemma oneshot_step:
  assumes "dispatch_step s p = ((s', p'), rs)" "i < length (sc_table s)" "oneshot_inv i r (sc_table s ! i) p"
  shows "oneshot_inv i (r + runs_of i rs) (sc_table s' ! i) p' \<and> length (sc_table s') = length (sc_table s)"
proof (cases p)
  case (AtClear j k)
  then show ?thesis using assms
    by (cases "j = i") (auto simp: oneshot_inv_def busy_def update_slot_def clear_store_def split: if_splits)
next
  case (AtCall j)
  then show ?thesis using assms by (auto simp: oneshot_inv_def busy_def split: option.splits if_splits)
next
  case (AtTake j)
  then show ?thesis using assms by (auto simp: oneshot_inv_def busy_def update_slot_def nth_list_update split: if_splits)
qed (use assms in \<open>auto simp: oneshot_inv_def busy_def split: if_splits\<close>)

lemma oneshot_exec:
  assumes "i < length (sc_table s)" "oneshot_inv i 0 (sc_table s ! i) p" "exec es (s, p) = ((s', p'), rs)"
  shows "oneshot_inv i (runs_of i rs) (sc_table s' ! i) p' \<and> length (sc_table s') = length (sc_table s)"
  using assms(3)
proof (induction es arbitrary: s' p' rs rule: rev_induct)
  case Nil
  then show ?case using assms by auto
next
  case (snoc e es)
  obtain s1 p1 rs1 where e1: "exec es (s, p) = ((s1, p1), rs1)" by (metis prod_cases3 surj_pair)
  note inv = snoc.IH [OF e1]
  show ?case
  proof (cases e)
    case Tick
    then have "s' = sched_tick s1" "p' = p1" "rs = rs1" using snoc.prems by (simp_all add: exec_snoc e1)
    then show ?thesis using inv inv [THEN conjunct1, THEN oneshot_tick] assms(1) by (simp add: sched_tick_def)
  next
    case Step
    obtain s2 p2 rs2 where e2: "dispatch_step s1 p1 = ((s2, p2), rs2)" by (metis prod_cases3 surj_pair)
    then have "s' = s2" "p' = p2" "rs = rs1 @ rs2" using snoc.prems Step by (simp_all add: exec_snoc e1)
    then show ?thesis using inv oneshot_step [OF e2] assms(1) by auto
  qed
qed

text \<open>A one-shot runs at most once, whatever the preemption: register one in a free slot, and let any sequence
  of ticks and atomic dispatch steps follow. It has run once or never, however many due events it piled up
  while it waited; and whenever the dispatcher is past the slot after the run, the slot is free again.\<close>

theorem oneshot_once:
  assumes "sched_register s c delay 0 = (s1, i)" "i < NSLOT" "length (sc_table s) = NSLOT"
    "exec es (s1, AtEnd) = ((s', p'), rs)"
  shows "runs_of i rs \<le> 1 \<and> (runs_of i rs = 1 \<and> \<not> busy i p' \<longrightarrow> sl_callback (sc_table s' ! i) = None)"
proof -
  obtain j where j: "first_free 0 (sc_table s) = Some j" "i = j"
    using assms(1,2) by (auto simp: sched_register_def split: option.splits)
  have s1: "sc_table s1 = (sc_table s)[i := \<lparr>sl_callback = Some c, sl_counter = delay, sl_reload = 0, sl_runcount = 0\<rparr>]"
    using assms(1) j by (auto simp: sched_register_def)
  have "oneshot_inv i 0 (sc_table s1 ! i) AtEnd"
    using assms(2,3) by (simp add: s1 oneshot_inv_def busy_def)
  from oneshot_exec [OF _ this assms(4)] show ?thesis
    using assms(2,3) by (auto simp: s1 oneshot_inv_def busy_def split: if_splits)
qed

lemma oneshot_once_witness:
  "runs_of 0 (snd (exec ([Tick, Tick, Tick] @ replicate 60 Step)
     (fst (sched_register sched_new (7 :: nat) 0 0), AtEnd))) \<le> 1"
proof -
  have "sched_register sched_new (7 :: nat) 0 0 = (fst (sched_register sched_new 7 0 0), 0)" by code_simp
  moreover obtain s' p' rs where e: "exec ([Tick, Tick, Tick] @ replicate 60 Step) (fst (sched_register sched_new (7 :: nat) 0 0), AtEnd) = ((s', p'), rs)"
    by (metis prod_cases3 surj_pair)
  ultimately have "runs_of 0 rs \<le> 1" using oneshot_once [OF _ _ _ e] by (simp add: NSLOT_def sched_new_def)
  then show ?thesis by (simp only: e snd_conv)
qed

section \<open>A pass no tick preempts\<close>

lemma exec_append:
  "exec (es @ es') c = (case exec es c of (c, rs) \<Rightarrow> case exec es' c of (c, rs') \<Rightarrow> (c, rs @ rs'))"
  by (induction es c rule: exec.induct) (auto split: prod.splits)

lemma cleared [simp]: "sl\<lparr>sl_runcount := r, sl_callback := None, sl_counter := 0, sl_reload := 0, sl_runcount := 0\<rparr> = slot_empty"
  for sl :: "'c slot" by (simp add: slot_empty_def)

lemma pass_slot:
  assumes "i < length (sc_table s)"
  shows "\<exists>n\<le>8. exec (replicate n Step) (s, AtTest i) =
    ((s\<lparr>sc_table := (sc_table s)[i := fst (dispatch_slot i (sc_table s ! i))]\<rparr>, AtTest (Suc i)),
     snd (dispatch_slot i (sc_table s ! i)))"
proof -
  let ?sl = "sc_table s ! i"
  consider "sl_runcount ?sl = 0" | "sl_runcount ?sl \<noteq> 0" "sl_reload ?sl \<noteq> 0" | "sl_runcount ?sl \<noteq> 0" "sl_reload ?sl = 0"
    by blast
  then show ?thesis
  proof cases
    case 1
    then show ?thesis using assms by (intro exI [of _ 1]) (simp add: dispatch_slot_def)
  next
    case 2
    then show ?thesis using assms
      by (intro exI [of _ 4]) (simp add: dispatch_slot_def numeral_eq_Suc update_slot_def Let_def)
  next
    case 3
    then show ?thesis using assms
      by (intro exI [of _ 8])
        (simp add: dispatch_slot_def numeral_eq_Suc update_slot_def clear_store_def Let_def slot_empty_def)
  qed
qed

lemma pass_from:
  "sc_table s = xs @ ys \<Longrightarrow>
    \<exists>n\<le>8 * length ys + 1. exec (replicate n Step) (s, AtTest (length xs)) =
      ((s\<lparr>sc_table := xs @ fst (dispatch_from (length xs) ys)\<rparr>, AtEnd), snd (dispatch_from (length xs) ys))"
proof (induction ys arbitrary: xs s)
  case Nil
  then show ?case by (intro exI [of _ 1]) simp
next
  case (Cons sl ys)
  let ?i = "length xs"
  obtain n where n: "n \<le> 8" "exec (replicate n Step) (s, AtTest ?i) =
      ((s\<lparr>sc_table := xs @ fst (dispatch_slot ?i sl) # ys\<rparr>, AtTest (Suc ?i)), snd (dispatch_slot ?i sl))"
    using pass_slot [of ?i s] Cons.prems by auto
  define s1 where "s1 = s\<lparr>sc_table := xs @ fst (dispatch_slot ?i sl) # ys\<rparr>"
  have "sc_table s1 = (xs @ [fst (dispatch_slot ?i sl)]) @ ys" by (simp add: s1_def)
  from Cons.IH [OF this] obtain m where m: "m \<le> 8 * length ys + 1"
      "exec (replicate m Step) (s1, AtTest (Suc ?i)) =
        ((s1\<lparr>sc_table := (xs @ [fst (dispatch_slot ?i sl)]) @ fst (dispatch_from (Suc ?i) ys)\<rparr>, AtEnd), snd (dispatch_from (Suc ?i) ys))"
    by auto
  have "exec (replicate (n + m) Step) (s, AtTest ?i) =
      ((s\<lparr>sc_table := xs @ fst (dispatch_from ?i (sl # ys))\<rparr>, AtEnd), snd (dispatch_from ?i (sl # ys)))"
    unfolding replicate_add exec_append n(2) s1_def [symmetric] using m(2) by (simp add: s1_def split: prod.splits)
  then show ?case using n(1) m(1) by (intro exI [of _ "n + m"]) simp
qed

lemma dispatch_from_runs:
  "sorted_wrt (<) (map fst (snd (dispatch_from i ys))) \<and>
   (\<forall>j c. (j, c) \<in> set (snd (dispatch_from i ys)) \<longleftrightarrow>
     i \<le> j \<and> j < i + length ys \<and> sl_callback (ys ! (j - i)) = Some c \<and> sl_runcount (ys ! (j - i)) \<noteq> 0)"
proof (induction i ys rule: dispatch_from.induct)
  case (2 i sl ys)
  obtain sls rs where d: "dispatch_from (Suc i) ys = (sls, rs)" by fastforce
  have one: "set (snd (dispatch_slot i sl)) = {(j, c). j = i \<and> sl_callback sl = Some c \<and> sl_runcount sl \<noteq> 0}"
      "length (snd (dispatch_slot i sl)) \<le> 1"
    by (auto simp: dispatch_slot_def Let_def split: option.splits)
  have later: "\<forall>j c. (j, c) \<in> set rs \<longleftrightarrow> Suc i \<le> j \<and> j < Suc i + length ys \<and>
      sl_callback (ys ! (j - Suc i)) = Some c \<and> sl_runcount (ys ! (j - Suc i)) \<noteq> 0" "sorted_wrt (<) (map fst rs)"
    using 2 d by auto
  have runs: "snd (dispatch_from i (sl # ys)) = snd (dispatch_slot i sl) @ rs"
    by (simp add: d split: prod.splits)
  have at: "(sl # ys) ! (j - i) = (if j = i then sl else ys ! (j - Suc i))" if "i \<le> j" for j
    using that by (simp add: nth_Cons')
  have "sorted_wrt (<) (map fst (snd (dispatch_slot i sl)))"
    using one(2) by (cases "snd (dispatch_slot i sl)") auto
  moreover have "\<forall>x\<in>set (snd (dispatch_slot i sl)). \<forall>y\<in>set rs. fst x < fst y" using one(1) later(1) by fastforce
  ultimately have "sorted_wrt (<) (map fst (snd (dispatch_slot i sl) @ rs))"
    using later(2) by (simp add: sorted_wrt_append)
  moreover have "(j, c) \<in> set (snd (dispatch_slot i sl) @ rs) \<longleftrightarrow>
     i \<le> j \<and> j < i + length (sl # ys) \<and> sl_callback ((sl # ys) ! (j - i)) = Some c \<and> sl_runcount ((sl # ys) ! (j - i)) \<noteq> 0"
    for j c
  proof (cases "j = i")
    case True
    then show ?thesis using one(1) later(1) by simp
  next
    case False
    then have "(j, c) \<notin> set (snd (dispatch_slot i sl))" using one(1) by simp
    then show ?thesis using later(1) at [of j] False by auto
  qed
  ultimately show ?case unfolding runs by blast
qed simp

text \<open>What a pass does when no tick preempts it: the atomic steps of the main loop's dispatch, taken alone from
  the first slot, end after at most 33 with the table and the runs of the whole-pass definition; the runs are
  those of the due slots, each once and in ascending order, whatever the pending counts, and one due event of
  each is consumed.\<close>

theorem dispatch_pass:
  assumes "length (sc_table s) = NSLOT" "dispatch s = (s', rs)"
  shows "(\<exists>n\<le>33. exec (replicate n Step) (s, AtTest 0) = ((s', AtEnd), rs)) \<and> sorted_wrt (<) (map fst rs) \<and>
    (\<forall>i c. (i, c) \<in> set rs \<longleftrightarrow>
       i < NSLOT \<and> sl_callback (sc_table s ! i) = Some c \<and> sl_runcount (sc_table s ! i) \<noteq> 0)"
proof -
  have d: "s' = s\<lparr>sc_table := fst (dispatch_from 0 (sc_table s))\<rparr>" "rs = snd (dispatch_from 0 (sc_table s))"
    using assms(2) by (auto simp: dispatch_def split: prod.splits)
  have "\<exists>n\<le>8 * 4 + 1. exec (replicate n Step) (s, AtTest 0) = ((s', AtEnd), rs)"
    using pass_from [of s "[]" "sc_table s"] assms(1) unfolding d by (simp add: NSLOT_def)
  then show ?thesis using dispatch_from_runs [of 0 "sc_table s"] assms(1) unfolding d by simp
qed

definition demo_due :: "nat scheduler" where
  "demo_due = sched_tick (sched_tick (fst (sched_register (fst (sched_register demo_sched 8 9 2)) 9 1 0)))"

lemma dispatch_pass_witness:
  "\<exists>n\<le>33. exec (replicate n Step) (demo_due, AtTest 0) = ((fst (dispatch demo_due), AtEnd), [(0, 7), (2, 9)])"
proof -
  have "length (sc_table demo_due) = NSLOT" "snd (dispatch demo_due) = [(0, 7), (2, 9)]" by code_simp+
  then show ?thesis using dispatch_pass [of demo_due "fst (dispatch demo_due)" "[(0, 7), (2, 9)]"] by (simp add: prod_eq_iff)
qed

end
