(* ===== verification/Linkctl.thy ===== *)
theory Linkctl
  imports Prelude
begin

unbundle bit_operations_syntax

text \<open>
  The control payloads of the link, \<open>src/shared/linkctl/src/lib.rs\<close>: opcodes, supervision constants, the cyclic
  state with its observation block and motor-1 block, the drive command, the input mirror, and their codecs.
  A signed field is an integer of its type's range. An encoder writes into the caller's buffer and panics when
  it is too short (None).
\<close>

section \<open>Constants\<close>

definition OP_CYCLIC_STATE :: u8 where "OP_CYCLIC_STATE = 0x10"
definition OP_DRIVE_CMD :: u8 where "OP_DRIVE_CMD = 0x11"
definition OP_INPUTS :: u8 where "OP_INPUTS = 0x12"
definition CYCLIC_TIMEOUT_TICKS :: u32 where "CYCLIC_TIMEOUT_TICKS = 25"
definition DRIVE_TIMEOUT_TICKS :: u32 where "DRIVE_TIMEOUT_TICKS = 50"
definition INPUTS_TIMEOUT_TICKS :: u32 where "INPUTS_TIMEOUT_TICKS = 375"

definition OBS_LEN :: nat where "OBS_LEN = 12"
definition CYCLIC_LEN :: nat where "CYCLIC_LEN = 16"
definition WHEEL_RATE_OFF :: nat where "WHEEL_RATE_OFF = CYCLIC_LEN + OBS_LEN"
definition MACHINE_OFF :: nat where "MACHINE_OFF = WHEEL_RATE_OFF + 4"
definition ENCODED_LEN :: nat where "ENCODED_LEN = 34"
definition MOTOR_LEN :: nat where "MOTOR_LEN = 12"
definition MOTOR1_OFF :: nat where "MOTOR1_OFF = ENCODED_LEN"
definition TWO_MOTOR_LEN :: nat where "TWO_MOTOR_LEN = MOTOR1_OFF + MOTOR_LEN"
definition DRIVE_LEN :: nat where "DRIVE_LEN = 6"
definition MOTOR_OFF :: nat where "MOTOR_OFF = 5"
definition INPUTS_LEN :: nat where "INPUTS_LEN = 2"

definition FLAG_RIDER :: u8 where "FLAG_RIDER = push_bit 0 1"
definition FLAG_LEADER :: u8 where "FLAG_LEADER = push_bit 1 1"
definition FLAG_FOLLOWER :: u8 where "FLAG_FOLLOWER = push_bit 2 1"
definition FLAG_REARM :: u8 where "FLAG_REARM = push_bit 3 1"
definition FLAG_REBOOT :: u8 where "FLAG_REBOOT = push_bit 4 1"
definition FLAG_PEER_SILENT :: u8 where "FLAG_PEER_SILENT = push_bit 5 1"
definition FLAG_LOCKDOWN :: u8 where "FLAG_LOCKDOWN = push_bit 7 1"
definition FAULT_MACHINE :: u16 where "FAULT_MACHINE = push_bit 13 1"
definition BUTTON_POWER :: u8 where "BUTTON_POWER = push_bit 0 1"
definition BUTTON_HORN :: u8 where "BUTTON_HORN = push_bit 1 1"
definition RIDER_PRESENT :: u8 where "RIDER_PRESENT = push_bit 0 1"

lemmas linkctl_lens = OBS_LEN_def CYCLIC_LEN_def WHEEL_RATE_OFF_def MACHINE_OFF_def ENCODED_LEN_def MOTOR_LEN_def
  MOTOR1_OFF_def TWO_MOTOR_LEN_def DRIVE_LEN_def MOTOR_OFF_def INPUTS_LEN_def

datatype decode_error = TooShort | WrongLen

section \<open>Field codecs\<close>

definition le_i16 :: "int \<Rightarrow> bytes" where
  "le_i16 v = le16 (word_of_int v)"

definition le_i32 :: "int \<Rightarrow> bytes" where
  "le_i32 v = le32 (word_of_int v)"

definition rd_u16 :: "bytes \<Rightarrow> nat \<Rightarrow> u16" where
  "rd_u16 b off = rd16 (b ! off) (b ! (off + 1))"

definition rd_i16 :: "bytes \<Rightarrow> nat \<Rightarrow> int" where
  "rd_i16 b off = sint (rd16 (b ! off) (b ! (off + 1)))"

definition rd_u32 :: "bytes \<Rightarrow> nat \<Rightarrow> u32" where
  "rd_u32 b off = rd32 (b ! off) (b ! (off + 1)) (b ! (off + 2)) (b ! (off + 3))"

definition rd_i32 :: "bytes \<Rightarrow> nat \<Rightarrow> int" where
  "rd_i32 b off = sint (rd_u32 b off)"

definition i16_field :: "int \<Rightarrow> bool" where
  "i16_field v \<longleftrightarrow> - 32768 \<le> v \<and> v \<le> 32767"

definition i32_field :: "int \<Rightarrow> bool" where
  "i32_field v \<longleftrightarrow> - 2147483648 \<le> v \<and> v \<le> 2147483647"

lemma sint_field [simp]:
  "i16_field v \<Longrightarrow> sint (word_of_int v :: u16) = v"
  "i32_field v \<Longrightarrow> sint (word_of_int v :: u32) = v"
  by (simp_all add: i16_field_def i32_field_def signed_of_int signed_take_bit_int_eq_self)

section \<open>Payloads\<close>

datatype chip_tag = Unknown | F103C8 | F130C8 | F103RC

fun chip_to_u8 :: "chip_tag \<Rightarrow> u8" where
  "chip_to_u8 Unknown = 0"
| "chip_to_u8 F103C8 = 1"
| "chip_to_u8 F130C8 = 2"
| "chip_to_u8 F103RC = 3"

definition chip_from_u8 :: "u8 \<Rightarrow> chip_tag" where
  "chip_from_u8 b = (if b = 1 then F103C8 else if b = 2 then F130C8 else if b = 3 then F103RC else Unknown)"

record cyclic_obs =
  ob_phase_peak :: int
  ob_phase_mean :: int
  ob_duty_on :: u16
  ob_boot_tag :: u8
  ob_chip :: chip_tag
  ob_odometer :: u32

definition obs_bytes :: "cyclic_obs \<Rightarrow> bytes" where
  "obs_bytes b = le_i16 (ob_phase_peak b) @ le_i16 (ob_phase_mean b) @ le16 (ob_duty_on b) @ [ob_boot_tag b] @
     [chip_to_u8 (ob_chip b)] @ le32 (ob_odometer b)"

definition obs_decode :: "bytes \<Rightarrow> cyclic_obs" where
  "obs_decode b =
     \<lparr>ob_phase_peak = rd_i16 b 0, ob_phase_mean = rd_i16 b 2, ob_duty_on = rd_u16 b 4, ob_boot_tag = b ! 6,
      ob_chip = chip_from_u8 (b ! 7), ob_odometer = rd_u32 b 8\<rparr>"

record cyclic_state =
  cs_pitch :: int
  cs_roll :: int
  cs_wheel_speed :: int
  cs_battery :: u16
  cs_mode :: u8
  cs_fault :: u16
  cs_flags :: u8
  cs_peer_demand :: int
  cs_wheel_pos :: int
  cs_obs :: cyclic_obs
  cs_wheel_rate :: int
  cs_machine :: u16

definition cs_rider_present :: "cyclic_state \<Rightarrow> bool" where
  "cs_rider_present c \<longleftrightarrow> cs_flags c AND FLAG_RIDER \<noteq> 0"

definition cs_leader :: "cyclic_state \<Rightarrow> bool" where
  "cs_leader c \<longleftrightarrow> cs_flags c AND FLAG_LEADER \<noteq> 0"

definition cs_follower :: "cyclic_state \<Rightarrow> bool" where
  "cs_follower c \<longleftrightarrow> cs_flags c AND FLAG_FOLLOWER \<noteq> 0"

definition cs_rearm :: "cyclic_state \<Rightarrow> bool" where
  "cs_rearm c \<longleftrightarrow> cs_flags c AND FLAG_REARM \<noteq> 0"

definition cs_reboot :: "cyclic_state \<Rightarrow> bool" where
  "cs_reboot c \<longleftrightarrow> cs_flags c AND FLAG_REBOOT \<noteq> 0"

definition cs_peer_silent :: "cyclic_state \<Rightarrow> bool" where
  "cs_peer_silent c \<longleftrightarrow> cs_flags c AND FLAG_PEER_SILENT \<noteq> 0"

definition cs_machine_mismatch :: "cyclic_state \<Rightarrow> bool" where
  "cs_machine_mismatch c \<longleftrightarrow> cs_fault c AND FAULT_MACHINE \<noteq> 0"

definition cs_lockdown :: "cyclic_state \<Rightarrow> bool" where
  "cs_lockdown c \<longleftrightarrow> cs_flags c AND FLAG_LOCKDOWN \<noteq> 0"

definition cyclic_bytes :: "cyclic_state \<Rightarrow> bytes" where
  "cyclic_bytes c =
     le_i16 (cs_pitch c) @ le_i16 (cs_roll c) @ le_i16 (cs_wheel_speed c) @ le16 (cs_battery c) @ [cs_mode c] @
     le16 (cs_fault c) @ [cs_flags c] @ le_i16 (cs_peer_demand c) @ le_i16 (cs_wheel_pos c) @ obs_bytes (cs_obs c) @
     le_i32 (cs_wheel_rate c) @ le16 (cs_machine c)"

definition cyclic_encode :: "cyclic_state \<Rightarrow> bytes \<Rightarrow> (bytes \<times> nat) option" where
  "cyclic_encode c out =
     (if length out < ENCODED_LEN then None else Some (overwrite out 0 (cyclic_bytes c), ENCODED_LEN))"

definition decode_base :: "bytes \<Rightarrow> cyclic_state" where
  "decode_base b =
     \<lparr>cs_pitch = rd_i16 b 0, cs_roll = rd_i16 b 2, cs_wheel_speed = rd_i16 b 4, cs_battery = rd_u16 b 6, cs_mode = b ! 8,
      cs_fault = rd_u16 b 9, cs_flags = b ! 11, cs_peer_demand = rd_i16 b 12, cs_wheel_pos = rd_i16 b 14,
      cs_obs = obs_decode (drop CYCLIC_LEN b), cs_wheel_rate = rd_i32 b WHEEL_RATE_OFF, cs_machine = rd_u16 b MACHINE_OFF\<rparr>"

definition cyclic_decode :: "bytes \<Rightarrow> decode_error + cyclic_state" where
  "cyclic_decode b =
     (if length b \<noteq> ENCODED_LEN \<and> length b \<noteq> TWO_MOTOR_LEN then Inl WrongLen else Inr (decode_base b))"

record cyclic_motor =
  cm_wheel_speed :: int
  cm_phase_peak :: int
  cm_phase_mean :: int
  cm_duty_on :: u16
  cm_wheel_rate :: int

definition motor_zero :: cyclic_motor where
  "motor_zero = \<lparr>cm_wheel_speed = 0, cm_phase_peak = 0, cm_phase_mean = 0, cm_duty_on = 0, cm_wheel_rate = 0\<rparr>"

definition motor_bytes :: "cyclic_motor \<Rightarrow> bytes" where
  "motor_bytes m = le_i16 (cm_wheel_speed m) @ le_i16 (cm_phase_peak m) @ le_i16 (cm_phase_mean m) @ le16 (cm_duty_on m) @
     le_i32 (cm_wheel_rate m)"

definition motor_encode :: "cyclic_motor \<Rightarrow> bytes \<Rightarrow> (bytes \<times> nat) option" where
  "motor_encode m out = (if length out < MOTOR_LEN then None else Some (overwrite out 0 (motor_bytes m), MOTOR_LEN))"

definition motor_decode :: "bytes \<Rightarrow> cyclic_motor" where
  "motor_decode b =
     \<lparr>cm_wheel_speed = rd_i16 b 0, cm_phase_peak = rd_i16 b 2, cm_phase_mean = rd_i16 b 4, cm_duty_on = rd_u16 b 6,
      cm_wheel_rate = rd_i32 b 8\<rparr>"

definition decode_with_motor1 :: "bytes \<Rightarrow> decode_error + (cyclic_state \<times> cyclic_motor option)" where
  "decode_with_motor1 b =
     (case cyclic_decode b of
        Inl e \<Rightarrow> Inl e
      | Inr base \<Rightarrow> Inr (base, if length b = TWO_MOTOR_LEN then Some (motor_decode (drop MOTOR1_OFF b)) else None))"

datatype drive_kind = Neutral | Throttle

fun kind_to_u8 :: "drive_kind \<Rightarrow> u8" where
  "kind_to_u8 Neutral = 0"
| "kind_to_u8 Throttle = 1"

record drive_cmd =
  dc_kind :: drive_kind
  dc_value :: int
  dc_steer :: int
  dc_motor :: u8

definition drive_bytes :: "drive_cmd \<Rightarrow> bytes" where
  "drive_bytes d = [kind_to_u8 (dc_kind d)] @ le_i16 (dc_value d) @ le_i16 (dc_steer d) @ [dc_motor d]"

definition drive_encode :: "drive_cmd \<Rightarrow> bytes \<Rightarrow> (bytes \<times> nat) option" where
  "drive_encode d out = (if length out < DRIVE_LEN then None else Some (overwrite out 0 (drive_bytes d), DRIVE_LEN))"

definition drive_decode :: "bytes \<Rightarrow> decode_error + drive_cmd" where
  "drive_decode b =
     (if length b < DRIVE_LEN then Inl TooShort
      else Inr \<lparr>dc_kind = (if b ! 0 = 1 then Throttle else Neutral), dc_value = rd_i16 b 1, dc_steer = rd_i16 b 3,
                dc_motor = b ! MOTOR_OFF\<rparr>)"

record remote_inputs =
  ri_buttons :: u8
  ri_rider :: u8

definition ri_power_request :: "remote_inputs \<Rightarrow> bool" where
  "ri_power_request i \<longleftrightarrow> ri_buttons i AND BUTTON_POWER \<noteq> 0"

definition ri_horn :: "remote_inputs \<Rightarrow> bool" where
  "ri_horn i \<longleftrightarrow> ri_buttons i AND BUTTON_HORN \<noteq> 0"

definition ri_rider_present :: "remote_inputs \<Rightarrow> bool" where
  "ri_rider_present i \<longleftrightarrow> ri_rider i AND RIDER_PRESENT \<noteq> 0"

definition inputs_encode :: "remote_inputs \<Rightarrow> bytes \<Rightarrow> (bytes \<times> nat) option" where
  "inputs_encode i out =
     (if length out < INPUTS_LEN then None else Some (overwrite out 0 [ri_buttons i, ri_rider i], INPUTS_LEN))"

definition inputs_decode :: "bytes \<Rightarrow> decode_error + remote_inputs" where
  "inputs_decode b =
     (if length b < INPUTS_LEN then Inl TooShort else Inr \<lparr>ri_buttons = b ! 0, ri_rider = b ! 1\<rparr>)"

datatype payload = CyclicPayload cyclic_state | DrivePayload drive_cmd | InputsPayload remote_inputs

definition result_ok :: "'e + 'a \<Rightarrow> 'a option" where
  "result_ok r = (case r of Inl e \<Rightarrow> None | Inr x \<Rightarrow> Some x)"

definition linkctl_decode :: "u8 \<Rightarrow> bytes \<Rightarrow> payload option" where
  "linkctl_decode op payload =
     (if op = OP_CYCLIC_STATE then map_option CyclicPayload (result_ok (cyclic_decode payload))
      else if op = OP_DRIVE_CMD then map_option DrivePayload (result_ok (drive_decode payload))
      else if op = OP_INPUTS then map_option InputsPayload (result_ok (inputs_decode payload))
      else None)"

section \<open>Round trips\<close>

lemma le_lengths [simp]: "length (le_i16 v) = 2" "length (le_i32 w) = 4"
  by (simp_all add: le_i16_def le_i32_def)

lemma rd_le [simp]:
  "i16_field v \<Longrightarrow> rd_i16 (le_i16 v @ r) 0 = v"
  "rd_u16 (le16 x @ r) 0 = x"
  "i32_field w \<Longrightarrow> rd_i32 (le_i32 w @ r) 0 = w"
  "rd_u32 (le32 y @ r) 0 = y"
  by (simp_all add: rd_i16_def rd_u16_def rd_i32_def rd_u32_def le_i16_def le_i32_def le16_def le32_def)

lemma rd_skip:
  "length a = n \<Longrightarrow> rd_i16 (a @ b) (n + k) = rd_i16 b k" "length a = n \<Longrightarrow> rd_u16 (a @ b) (n + k) = rd_u16 b k"
  "length a = n \<Longrightarrow> rd_i32 (a @ b) (n + k) = rd_i32 b k" "length a = n \<Longrightarrow> rd_u32 (a @ b) (n + k) = rd_u32 b k"
  by (auto simp: rd_i16_def rd_u16_def rd_i32_def rd_u32_def nth_append add.assoc)

definition obs_ok :: "cyclic_obs \<Rightarrow> bool" where
  "obs_ok b \<longleftrightarrow> i16_field (ob_phase_peak b) \<and> i16_field (ob_phase_mean b)"

definition cyclic_ok :: "cyclic_state \<Rightarrow> bool" where
  "cyclic_ok c \<longleftrightarrow> i16_field (cs_pitch c) \<and> i16_field (cs_roll c) \<and> i16_field (cs_wheel_speed c) \<and>
     i16_field (cs_peer_demand c) \<and> i16_field (cs_wheel_pos c) \<and> i32_field (cs_wheel_rate c) \<and> obs_ok (cs_obs c)"

definition motor_ok :: "cyclic_motor \<Rightarrow> bool" where
  "motor_ok m \<longleftrightarrow> i16_field (cm_wheel_speed m) \<and> i16_field (cm_phase_peak m) \<and> i16_field (cm_phase_mean m) \<and>
     i32_field (cm_wheel_rate m)"

definition drive_ok :: "drive_cmd \<Rightarrow> bool" where
  "drive_ok d \<longleftrightarrow> i16_field (dc_value d) \<and> i16_field (dc_steer d)"

lemma chip_round_trip [simp]: "chip_from_u8 (chip_to_u8 c) = c"
  by (cases c) (simp_all add: chip_from_u8_def)

lemma obs_round_trip: "obs_ok b \<Longrightarrow> obs_decode (obs_bytes b @ r) = b"
  by (simp add: obs_ok_def obs_decode_def obs_bytes_def rd_i16_def rd_u16_def rd_u32_def le_i16_def le16_def le32_def)

lemma motor_round_trip: "motor_ok m \<Longrightarrow> motor_decode (motor_bytes m) = m"
  by (simp add: motor_ok_def motor_decode_def motor_bytes_def rd_i16_def rd_u16_def rd_u32_def rd_i32_def le_i16_def
      le_i32_def le16_def le32_def)

lemma lengths [simp]: "length (obs_bytes b) = 12" "length (motor_bytes m) = 12" "length (cyclic_bytes c) = 34" "length (drive_bytes d) = 6"
  by (simp_all add: obs_bytes_def motor_bytes_def cyclic_bytes_def drive_bytes_def)

lemma base_round_trip: "cyclic_ok c \<Longrightarrow> decode_base (cyclic_bytes c @ r) = c"
proof -
  assume ok: "cyclic_ok c"
  have obs: "drop 16 (cyclic_bytes c @ r) = obs_bytes (cs_obs c) @ le_i32 (cs_wheel_rate c) @ le16 (cs_machine c) @ r"
    by (simp add: cyclic_bytes_def)
  have tail: "rd_i32 (cyclic_bytes c @ r) 28 = cs_wheel_rate c" "rd_u16 (cyclic_bytes c @ r) 32 = cs_machine c"
  proof -
    define front where "front = le_i16 (cs_pitch c) @ le_i16 (cs_roll c) @ le_i16 (cs_wheel_speed c) @ le16 (cs_battery c) @
      [cs_mode c] @ le16 (cs_fault c) @ [cs_flags c] @ le_i16 (cs_peer_demand c) @ le_i16 (cs_wheel_pos c) @ obs_bytes (cs_obs c)"
    have f: "length front = 28" "cyclic_bytes c @ r = front @ le_i32 (cs_wheel_rate c) @ le16 (cs_machine c) @ r"
      by (simp_all add: front_def cyclic_bytes_def)
    then have g: "cyclic_bytes c @ r = (front @ le_i32 (cs_wheel_rate c)) @ le16 (cs_machine c) @ r"
      "length (front @ le_i32 (cs_wheel_rate c)) = 32" by simp_all
    show "rd_i32 (cyclic_bytes c @ r) 28 = cs_wheel_rate c"
      using rd_skip(3) [OF f(1), of _ 0] ok unfolding f(2) cyclic_ok_def by simp
    show "rd_u16 (cyclic_bytes c @ r) 32 = cs_machine c"
      using rd_skip(2) [OF g(2), of _ 0] unfolding g(1) by simp
  qed
  have head: "rd_i16 (cyclic_bytes c @ r) 0 = cs_pitch c" "rd_i16 (cyclic_bytes c @ r) 2 = cs_roll c"
    "rd_i16 (cyclic_bytes c @ r) 4 = cs_wheel_speed c" "rd_u16 (cyclic_bytes c @ r) 6 = cs_battery c"
    "(cyclic_bytes c @ r) ! 8 = cs_mode c" "rd_u16 (cyclic_bytes c @ r) 9 = cs_fault c" "(cyclic_bytes c @ r) ! 11 = cs_flags c"
    "rd_i16 (cyclic_bytes c @ r) 12 = cs_peer_demand c" "rd_i16 (cyclic_bytes c @ r) 14 = cs_wheel_pos c"
    using ok by (simp_all add: cyclic_bytes_def cyclic_ok_def rd_i16_def rd_u16_def le_i16_def le16_def)
  have "obs_ok (cs_obs c)" using ok by (simp add: cyclic_ok_def)
  then show "decode_base (cyclic_bytes c @ r) = c"
    unfolding decode_base_def CYCLIC_LEN_def WHEEL_RATE_OFF_def MACHINE_OFF_def OBS_LEN_def obs
    by (simp add: head tail obs_round_trip)
qed

section \<open>Properties\<close>

definition encode_payload :: "payload \<Rightarrow> bytes \<Rightarrow> (bytes \<times> nat) option" where
  "encode_payload p out =
     (case p of CyclicPayload c \<Rightarrow> cyclic_encode c out | DrivePayload d \<Rightarrow> drive_encode d out | InputsPayload i \<Rightarrow> inputs_encode i out)"

fun payload_ok :: "payload \<Rightarrow> bool" where
  "payload_ok (CyclicPayload c) = cyclic_ok c"
| "payload_ok (DrivePayload d) = drive_ok d"
| "payload_ok (InputsPayload i) = True"

fun opcode_of :: "payload \<Rightarrow> u8" where
  "opcode_of (CyclicPayload c) = 0x10"
| "opcode_of (DrivePayload d) = 0x11"
| "opcode_of (InputsPayload i) = 0x12"

text \<open>What a sender encodes is what the receiver decodes, for the three control families: written into any
  buffer that holds it, the bytes the encoder says it wrote, taken under the family's opcode, decode to the
  payload; a drive command or an input mirror also with any bytes appended, a cyclic state with a motor-1
  block appended and then to both; and a buffer too short is the only failure.\<close>

theorem control_round_trip:
  assumes "payload_ok p" "encode_payload p out = Some (out', n)"
  shows "linkctl_decode (opcode_of p) (take n out') = Some p \<and>
    (case p of
       CyclicPayload c \<Rightarrow> \<forall>m. motor_ok m \<longrightarrow> decode_with_motor1 (take n out' @ motor_bytes m) = Inr (c, Some m)
     | _ \<Rightarrow> linkctl_decode (opcode_of p) (take n out' @ extra) = Some p)"
proof (cases p)
  case (CyclicPayload c)
  then have w: "take n out' = cyclic_bytes c" "n = 34"
    using assms(2) by (auto simp: encode_payload_def cyclic_encode_def overwrite_def ENCODED_LEN_def split: if_splits)
  then show ?thesis
    using CyclicPayload assms(1) base_round_trip [of c] base_round_trip [of c "[]"]
    by (simp add: linkctl_decode_def OP_CYCLIC_STATE_def cyclic_decode_def linkctl_lens decode_with_motor1_def result_ok_def
        motor_round_trip)
next
  case (DrivePayload d)
  then have "take n out' = drive_bytes d" "n = 6"
    using assms(2) by (auto simp: encode_payload_def drive_encode_def overwrite_def DRIVE_LEN_def split: if_splits)
  then show ?thesis
    using DrivePayload assms(1)
    by (cases "dc_kind d")
      (auto simp: linkctl_decode_def OP_CYCLIC_STATE_def OP_DRIVE_CMD_def drive_decode_def linkctl_lens drive_bytes_def
        result_ok_def drive_ok_def rd_i16_def le_i16_def le16_def intro!: drive_cmd.equality)
next
  case (InputsPayload i)
  then have "take n out' = [ri_buttons i, ri_rider i]" "n = 2"
    using assms(2) by (auto simp: encode_payload_def inputs_encode_def overwrite_def INPUTS_LEN_def split: if_splits)
  then show ?thesis
    using InputsPayload
    by (simp add: linkctl_decode_def OP_CYCLIC_STATE_def OP_DRIVE_CMD_def OP_INPUTS_def inputs_decode_def linkctl_lens result_ok_def)
qed

lemma control_round_trip_witness:
  "linkctl_decode 0x11 [1, 0xFE, 0xFF, 3, 0, 1] =
     Some (DrivePayload \<lparr>dc_kind = Throttle, dc_value = - 2, dc_steer = 3, dc_motor = 1\<rparr>)"
proof -
  let ?d = "\<lparr>dc_kind = Throttle, dc_value = - 2, dc_steer = 3, dc_motor = 1\<rparr>"
  have "encode_payload (DrivePayload ?d) (replicate 8 0) = Some ([1, 0xFE, 0xFF, 3, 0, 1, 0, 0], 6)" by code_simp
  from control_round_trip [OF _ this] show ?thesis by (simp add: drive_ok_def i16_field_def)
qed

end
