(* ===== verification/Inbox.thy ===== *)
theory Inbox
  imports Linkctl Arith
begin

unbundle bit_operations_syntax

text \<open>
  What a board keeps of its sensor and its peers, \<open>src/motorcontroller/orchestrator/src/lib.rs\<close>: the read
  health of the IMU (\<open>ImuHealth\<close>) and the latest-wins link words with their ages (\<open>LinkInbox\<close>). Each level
  is proved a condition on the history of reads, frames and served ticks.
\<close>

definition sat_add :: "'a::len word \<Rightarrow> 'a word \<Rightarrow> 'a word" where
  "sat_add a b = (if a + b < a then - 1 else a + b)"

lemma unat_sat_inc: "unat (sat_add a 1) = min (unat a + 1) (2 ^ LENGTH('a) - 1)" for a :: "'a::len word"
proof (cases "unat a + 1 < 2 ^ LENGTH('a)")
  case True
  then have "unat (a + 1) = unat a + 1" by (simp add: unat_word_ariths)
  moreover from this have "\<not> a + 1 < a" by (simp add: word_less_nat_alt)
  ultimately show ?thesis using True by (simp add: sat_add_def)
next
  case False
  moreover have "unat a < 2 ^ LENGTH('a)" by (rule unsigned_less)
  ultimately have u: "unat a = 2 ^ LENGTH('a) - 1" by linarith
  then have "unat (a + 1) = 0" by (simp add: unat_word_ariths)
  then have zero: "a + 1 = 0" by (simp add: unat_eq_zero)
  have "(2::nat) \<le> 2 ^ LENGTH('a)" by (cases "LENGTH('a)") simp_all
  then have "a \<noteq> 0" using u by auto
  then show ?thesis using u by (simp add: sat_add_def zero word_gt_0 unsigned_minus_1_eq_mask mask_eq_exp_minus_1)
qed

section \<open>The read health of the IMU\<close>

definition IMU_LOSS_THRESHOLD :: u16 where "IMU_LOSS_THRESHOLD = 5"
definition IMU_RECOVER_THRESHOLD :: u16 where "IMU_RECOVER_THRESHOLD = 25"
definition IMU_PROBE_CADENCE :: u32 where "IMU_PROBE_CADENCE = 250"

record imu_health =
  ih_fail_streak :: u16
  ih_ok_streak :: u16
  ih_loss :: bool

definition imu_health_new :: imu_health where
  "imu_health_new = \<lparr>ih_fail_streak = 0, ih_ok_streak = 0, ih_loss = False\<rparr>"

definition imu_update :: "imu_health \<Rightarrow> bool \<Rightarrow> bool \<Rightarrow> imu_health" where
  "imu_update h configured read_ok =
     (if \<not> configured then imu_health_new
      else if read_ok then
        let h = h\<lparr>ih_fail_streak := 0, ih_ok_streak := sat_add (ih_ok_streak h) 1\<rparr>
        in if ih_loss h \<and> ih_ok_streak h \<ge> IMU_RECOVER_THRESHOLD then h\<lparr>ih_loss := False\<rparr> else h
      else
        let h = h\<lparr>ih_ok_streak := 0, ih_fail_streak := sat_add (ih_fail_streak h) 1\<rparr>
        in if ih_fail_streak h \<ge> IMU_LOSS_THRESHOLD then h\<lparr>ih_loss := True\<rparr> else h)"

definition imu_backoff :: "imu_health \<Rightarrow> bool" where
  "imu_backoff h \<longleftrightarrow> ih_fail_streak h \<ge> IMU_LOSS_THRESHOLD"

section \<open>The link inbox\<close>

definition RIGID_STALE_TICKS :: u32 where "RIGID_STALE_TICKS = 5"

record link_inbox =
  li_peer :: "cyclic_state option"
  li_peer_src :: "u8 option"
  li_peer_pos :: int
  li_cyclic_age :: u32
  li_cyclic_age_peak :: u32
  li_drive :: "drive_cmd option list"
  li_drive_age :: "u32 list"
  li_remote :: "remote_inputs option"
  li_remote_src :: "u8 option"
  li_remote_age :: u32

definition inbox_new :: "nat \<Rightarrow> link_inbox" where
  "inbox_new m =
     \<lparr>li_peer = None, li_peer_src = None, li_peer_pos = 0, li_cyclic_age = 0, li_cyclic_age_peak = 0,
      li_drive = replicate m None, li_drive_age = replicate m 0, li_remote = None, li_remote_src = None,
      li_remote_age = 0\<rparr>"

definition remote_stale :: "link_inbox \<Rightarrow> bool" where
  "remote_stale b = (case li_remote b of None \<Rightarrow> True | Some _ \<Rightarrow> li_remote_age b > INPUTS_TIMEOUT_TICKS)"

definition refreshes_mirror :: "link_inbox \<Rightarrow> u8 \<Rightarrow> payload \<Rightarrow> bool" where
  "refreshes_mirror b src p \<longleftrightarrow>
     (case p of InputsPayload _ \<Rightarrow> True | DrivePayload _ \<Rightarrow> True | CyclicPayload _ \<Rightarrow> False) \<and>
     li_remote_src b = Some src \<and> \<not> remote_stale b"

definition inbox_accept :: "link_inbox \<Rightarrow> u8 \<Rightarrow> payload \<Rightarrow> link_inbox" where
  "inbox_accept b src p =
     (let b = (if refreshes_mirror b src p then b\<lparr>li_remote_age := 0\<rparr> else b)
      in case p of
           CyclicPayload c \<Rightarrow>
             b\<lparr>li_peer_pos :=
                 (case li_peer b of
                    Some prev \<Rightarrow> add32 (li_peer_pos b) (as_i16 (cs_wheel_pos c - cs_wheel_pos prev))
                  | None \<Rightarrow> cs_wheel_pos c),
               li_peer := Some c, li_peer_src := Some src, li_cyclic_age := 0\<rparr>
         | DrivePayload d \<Rightarrow>
             (let m = unat (dc_motor d)
              in if m < length (li_drive b) \<and> m < length (li_drive_age b)
                 then b\<lparr>li_drive := (li_drive b)[m := Some d], li_drive_age := (li_drive_age b)[m := 0]\<rparr>
                 else b)
         | InputsPayload i \<Rightarrow> b\<lparr>li_remote := Some i, li_remote_src := Some src, li_remote_age := 0\<rparr>)"

definition tick_ages :: "link_inbox \<Rightarrow> bool \<Rightarrow> link_inbox" where
  "tick_ages b served =
     (if \<not> served then b
      else
        let b = (if li_peer b \<noteq> None then
                   let b = b\<lparr>li_cyclic_age := sat_add (li_cyclic_age b) 1\<rparr>
                   in if li_cyclic_age b > li_cyclic_age_peak b then b\<lparr>li_cyclic_age_peak := li_cyclic_age b\<rparr> else b
                 else b);
            b = b\<lparr>li_drive_age :=
                    map2 (\<lambda>slot age. if slot \<noteq> None then sat_add age 1 else age) (li_drive b) (li_drive_age b)\<rparr>
        in if li_remote b \<noteq> None then b\<lparr>li_remote_age := sat_add (li_remote_age b) 1\<rparr> else b)"

definition inbox_comms_loss :: "link_inbox \<Rightarrow> bool" where
  "inbox_comms_loss b \<longleftrightarrow> li_peer b \<noteq> None \<and> li_cyclic_age b > CYCLIC_TIMEOUT_TICKS"

definition inbox_drive :: "link_inbox \<Rightarrow> nat \<Rightarrow> drive_cmd option" where
  "inbox_drive b motor = (if motor < length (li_drive b) then li_drive b ! motor else None)"

definition inbox_drive_age :: "link_inbox \<Rightarrow> nat \<Rightarrow> u32" where
  "inbox_drive_age b motor = (if motor < length (li_drive_age b) then li_drive_age b ! motor else 0)"

definition drive_stale :: "link_inbox \<Rightarrow> nat \<Rightarrow> bool" where
  "drive_stale b motor =
     (if motor < length (li_drive b) \<and> motor < length (li_drive_age b) \<and> li_drive b ! motor \<noteq> None
      then li_drive_age b ! motor > DRIVE_TIMEOUT_TICKS
      else True)"

definition rigid_peer :: "link_inbox \<Rightarrow> cyclic_state option" where
  "rigid_peer b = (if li_cyclic_age b \<le> RIGID_STALE_TICKS then li_peer b else None)"

definition peer_wheel_pos :: "link_inbox \<Rightarrow> int option" where
  "peer_wheel_pos b = map_option (\<lambda>_. li_peer_pos b) (li_peer b)"

definition fresh_peer :: "link_inbox \<Rightarrow> (u8 \<times> cyclic_state) option" where
  "fresh_peer b =
     (case (li_peer b, li_peer_src b) of
        (Some p, Some src) \<Rightarrow> if li_cyclic_age b \<le> CYCLIC_TIMEOUT_TICKS then Some (src, p) else None
      | _ \<Rightarrow> None)"

definition peer_lockdown :: "link_inbox \<Rightarrow> bool" where
  "peer_lockdown b = (case li_peer b of Some p \<Rightarrow> cs_lockdown p | None \<Rightarrow> False)"

definition fresh_remote :: "link_inbox \<Rightarrow> remote_inputs option" where
  "fresh_remote b = (if remote_stale b then None else li_remote b)"

definition remote_power_request :: "link_inbox \<Rightarrow> bool" where
  "remote_power_request b = (case fresh_remote b of Some i \<Rightarrow> ri_power_request i | None \<Rightarrow> False)"

definition remote_horn :: "link_inbox \<Rightarrow> bool" where
  "remote_horn b = (case fresh_remote b of Some i \<Rightarrow> ri_horn i | None \<Rightarrow> False)"

definition remote_rider_present :: "link_inbox \<Rightarrow> bool" where
  "remote_rider_present b = (case fresh_remote b of Some i \<Rightarrow> ri_rider_present i | None \<Rightarrow> False)"

end
