(* ===== verification/InboxProps.thy ===== *)
theory InboxProps
  imports Inbox
begin

text \<open>
  The levels of the inbox as conditions on its history: the sequence of decoded frames, each under the address
  it came from, and of control passes, each serving a new tick or not.
\<close>

section \<open>Histories\<close>

datatype inbox_event = Heard u8 payload | Pass bool

fun inbox_event_step :: "link_inbox \<Rightarrow> inbox_event \<Rightarrow> link_inbox" where
  "inbox_event_step b (Heard src p) = inbox_accept b src p"
| "inbox_event_step b (Pass served) = tick_ages b served"

definition run_inbox :: "nat \<Rightarrow> inbox_event list \<Rightarrow> link_inbox" where
  "run_inbox m es = foldl inbox_event_step (inbox_new m) es"

lemma run_inbox_simps [simp]:
  "run_inbox m [] = inbox_new m"
  "run_inbox m (es @ [e]) = inbox_event_step (run_inbox m es) e"
  by (simp_all add: run_inbox_def)

text \<open>The served ticks of a stretch of history.\<close>

definition served :: "inbox_event list \<Rightarrow> nat" where
  "served es = length (filter (\<lambda>e. e = Pass True) es)"

lemma served_simps [simp]: "served [] = 0" "served (es @ fs) = served es + served fs"
  "served (Heard s p # es) = served es" "served (Pass t # es) = (if t then 1 else 0) + served es"
  by (simp_all add: served_def)

text \<open>An age is the served ticks since the last event of a kind, saturated at the width of its word.\<close>

definition age_of :: "nat \<Rightarrow> u32" where
  "age_of n = (if n < 2 ^ 32 then of_nat n else - 1)"

lemma unat_age: "unat (age_of n) = min n (2 ^ 32 - 1)"
proof (cases "n < 2 ^ 32")
  case True
  then show ?thesis by (simp add: age_of_def unsigned_of_nat take_bit_eq_mod)
qed (simp add: age_of_def unsigned_minus_1_eq_mask mask_eq_exp_minus_1)

lemma age_0 [simp]: "age_of 0 = 0" by (simp add: age_of_def)

lemma age_Suc: "sat_add (age_of n) 1 = age_of (Suc n)"
  by (rule word_unat_eq_iff [THEN iffD2]) (auto simp: unat_sat_inc unat_age)

lemma age_le: "unat k < 2 ^ 32 - 1 \<Longrightarrow> age_of n \<le> k \<longleftrightarrow> n \<le> unat k" "unat k < 2 ^ 32 - 1 \<Longrightarrow> k < age_of n \<longleftrightarrow> unat k < n"
  by (auto simp: word_le_nat_alt word_less_nat_alt unat_age)

lemma age_bounds:
  "age_of n \<le> RIGID_STALE_TICKS \<longleftrightarrow> n \<le> 5" "age_of n \<le> CYCLIC_TIMEOUT_TICKS \<longleftrightarrow> n \<le> 25"
  "CYCLIC_TIMEOUT_TICKS < age_of n \<longleftrightarrow> 25 < n" "DRIVE_TIMEOUT_TICKS < age_of n \<longleftrightarrow> 50 < n"
  "INPUTS_TIMEOUT_TICKS < age_of n \<longleftrightarrow> 375 < n"
  by (simp_all add: age_le RIGID_STALE_TICKS_def CYCLIC_TIMEOUT_TICKS_def DRIVE_TIMEOUT_TICKS_def INPUTS_TIMEOUT_TICKS_def)

section \<open>The last event of a kind\<close>

definition since :: "('a \<Rightarrow> bool) \<Rightarrow> 'a list \<Rightarrow> ('a \<times> 'a list) option" where
  "since P es =
     (case dropWhile (\<lambda>e. \<not> P e) (rev es) of
        [] \<Rightarrow> None
      | e # pre \<Rightarrow> Some (e, rev (takeWhile (\<lambda>e. \<not> P e) (rev es))))"

lemma since_simps [simp]:
  "since P [] = None"
  "since P (es @ [e]) = (if P e then Some (e, []) else map_option (\<lambda>(x, post). (x, post @ [e])) (since P es))"
  by (auto simp: since_def split: list.splits) (metis dropWhile_eq_Nil_conv list.distinct(1) set_rev)

lemma since_iff: "since P es = Some (e, post) \<longleftrightarrow> (\<exists>pre. es = pre @ e # post) \<and> P e \<and> (\<forall>x\<in>set post. \<not> P x)"
proof (induction es arbitrary: post rule: rev_induct)
  case (snoc x es)
  show ?case
  proof (cases "P x")
    case True
    have "(\<exists>pre. es @ [x] = pre @ e # post) \<and> P e \<and> (\<forall>x\<in>set post. \<not> P x) \<longleftrightarrow> e = x \<and> post = []"
      using True by (cases post rule: rev_cases) auto
    then show ?thesis using True by auto
  next
    case False
    show ?thesis
    proof (cases post rule: rev_cases)
      case Nil
      then show ?thesis using False by auto
    next
      case (snoc ps y)
      have "since P (es @ [x]) = Some (e, post) \<longleftrightarrow> y = x \<and> since P es = Some (e, ps)"
        using False snoc by auto
      also have "\<dots> \<longleftrightarrow> (\<exists>pre. es @ [x] = pre @ e # post) \<and> P e \<and> (\<forall>x\<in>set post. \<not> P x)"
        unfolding snoc.IH using False snoc by auto
      finally show ?thesis .
    qed
  qed
qed simp

lemma since_None: "since P es = None \<longleftrightarrow> (\<forall>x\<in>set es. \<not> P x)"
  by (induction es rule: rev_induct) auto

fun is_cyclic :: "inbox_event \<Rightarrow> bool" where
  "is_cyclic (Heard src (CyclicPayload c)) = True"
| "is_cyclic e = False"

fun is_drive :: "nat \<Rightarrow> inbox_event \<Rightarrow> bool" where
  "is_drive k (Heard src (DrivePayload d)) = (unat (dc_motor d) = k)"
| "is_drive k e = False"

fun is_inputs :: "inbox_event \<Rightarrow> bool" where
  "is_inputs (Heard src (InputsPayload i)) = True"
| "is_inputs e = False"

fun from_owner :: "u8 \<Rightarrow> inbox_event \<Rightarrow> bool" where
  "from_owner src (Heard s (CyclicPayload c)) = False"
| "from_owner src (Heard s p) = (s = src)"
| "from_owner src (Pass t) = False"

section \<open>Peer and drive levels\<close>

lemma tick_parts [simp]:
  "li_peer (tick_ages b t) = li_peer b" "li_peer_src (tick_ages b t) = li_peer_src b"
  "li_peer_pos (tick_ages b t) = li_peer_pos b" "li_drive (tick_ages b t) = li_drive b"
  "li_remote (tick_ages b t) = li_remote b" "li_remote_src (tick_ages b t) = li_remote_src b"
  "li_cyclic_age (tick_ages b t) = (if t \<and> li_peer b \<noteq> None then sat_add (li_cyclic_age b) 1 else li_cyclic_age b)"
  "li_remote_age (tick_ages b t) = (if t \<and> li_remote b \<noteq> None then sat_add (li_remote_age b) 1 else li_remote_age b)"
  "li_drive_age (tick_ages b t) =
     (if t then map2 (\<lambda>slot age. if slot \<noteq> None then sat_add age 1 else age) (li_drive b) (li_drive_age b)
      else li_drive_age b)"
  by (cases "li_remote b"; cases "li_peer b"; simp add: tick_ages_def Let_def)+

lemma accept_parts [simp]:
  "li_peer (inbox_accept b src p) = (case p of CyclicPayload c \<Rightarrow> Some c | _ \<Rightarrow> li_peer b)"
  "li_peer_src (inbox_accept b src p) = (case p of CyclicPayload c \<Rightarrow> Some src | _ \<Rightarrow> li_peer_src b)"
  "li_cyclic_age (inbox_accept b src p) = (case p of CyclicPayload c \<Rightarrow> 0 | _ \<Rightarrow> li_cyclic_age b)"
  "li_remote (inbox_accept b src p) = (case p of InputsPayload i \<Rightarrow> Some i | _ \<Rightarrow> li_remote b)"
  "li_remote_src (inbox_accept b src p) = (case p of InputsPayload i \<Rightarrow> Some src | _ \<Rightarrow> li_remote_src b)"
  "li_remote_age (inbox_accept b src p) =
     (case p of InputsPayload i \<Rightarrow> 0 | _ \<Rightarrow> if refreshes_mirror b src p then 0 else li_remote_age b)"
  by (simp_all add: inbox_accept_def Let_def split: payload.splits)

lemma accept_drive:
  "length (li_drive b) = length (li_drive_age b) \<Longrightarrow>
    li_drive (inbox_accept b src p) =
      (case p of DrivePayload d \<Rightarrow> (li_drive b)[unat (dc_motor d) := Some d] | _ \<Rightarrow> li_drive b) \<and>
    li_drive_age (inbox_accept b src p) =
      (case p of DrivePayload d \<Rightarrow> (li_drive_age b)[unat (dc_motor d) := 0] | _ \<Rightarrow> li_drive_age b)"
  by (auto simp: inbox_accept_def Let_def list_update_beyond split: payload.splits)

lemma inbox_lengths:
  "length (li_drive (run_inbox m es)) = m \<and> length (li_drive_age (run_inbox m es)) = m"
proof (induction es rule: rev_induct)
  case Nil
  then show ?case by (simp add: inbox_new_def)
next
  case (snoc e es)
  then show ?case by (cases e) (auto simp: accept_drive split: payload.splits)
qed

lemma peer_inv:
  "case since is_cyclic es of
     None \<Rightarrow> li_peer (run_inbox m es) = None \<and> li_peer_src (run_inbox m es) = None
   | Some (e, post) \<Rightarrow> \<exists>src c. e = Heard src (CyclicPayload c) \<and> li_peer (run_inbox m es) = Some c \<and>
       li_peer_src (run_inbox m es) = Some src \<and> li_cyclic_age (run_inbox m es) = age_of (served post)"
proof (induction es rule: rev_induct)
  case Nil
  then show ?case by (simp add: inbox_new_def)
next
  case (snoc e es)
  then show ?case
    by (cases e; cases "since is_cyclic es") (auto simp: age_Suc split: payload.splits)
qed

lemma drive_inv:
  assumes "k < m"
  shows "case since (is_drive k) es of
     None \<Rightarrow> li_drive (run_inbox m es) ! k = None
   | Some (e, post) \<Rightarrow> \<exists>src d. e = Heard src (DrivePayload d) \<and> unat (dc_motor d) = k \<and>
       li_drive (run_inbox m es) ! k = Some d \<and> li_drive_age (run_inbox m es) ! k = age_of (served post)"
proof (induction es rule: rev_induct)
  case Nil
  then show ?case using assms by (simp add: inbox_new_def)
next
  case (snoc e es)
  have len: "length (li_drive (run_inbox m es)) = m" "length (li_drive_age (run_inbox m es)) = m"
    by (simp_all add: inbox_lengths)
  show ?case
  proof (cases e)
    case (Heard src p)
    then show ?thesis using snoc assms len
      by (cases "since (is_drive k) es"; cases p) (auto simp: accept_drive nth_list_update)
  next
    case (Pass t)
    then show ?thesis using snoc assms len by (cases "since (is_drive k) es") (auto simp: age_Suc)
  qed
qed

lemma since_cyclic:
  "since is_cyclic es = Some (Heard src (CyclicPayload c), post) \<longleftrightarrow>
    (\<exists>pre. es = pre @ Heard src (CyclicPayload c) # post) \<and> (\<forall>s d. Heard s (CyclicPayload d) \<notin> set post)"
proof -
  have "(\<forall>x\<in>set post. \<not> is_cyclic x) \<longleftrightarrow> (\<forall>s d. Heard s (CyclicPayload d) \<notin> set post)"
    by (auto elim!: is_cyclic.elims)
  then show ?thesis by (simp add: since_iff)
qed

lemma since_drive:
  "since (is_drive k) es = Some (Heard src (DrivePayload d), post) \<longleftrightarrow>
    (\<exists>pre. es = pre @ Heard src (DrivePayload d) # post) \<and> unat (dc_motor d) = k \<and>
    (\<forall>s d. Heard s (DrivePayload d) \<in> set post \<longrightarrow> unat (dc_motor d) \<noteq> k)"
proof -
  have "(\<forall>x\<in>set post. \<not> is_drive k x) \<longleftrightarrow> (\<forall>s d. Heard s (DrivePayload d) \<in> set post \<longrightarrow> unat (dc_motor d) \<noteq> k)"
    by (auto elim!: is_drive.elims)
  then show ?thesis by (simp add: since_iff)
qed

text \<open>C35: What a board may conclude of its peer, from any history of frames and passes: the rigid frame reads the
  last cyclic heard, and only while at most 5 served ticks have passed since; the display forward reads it
  with the address it came from for at most 25; the disarm level is raised exactly when one was heard and
  more than 25 have passed, so never before the first; and motor \<open>k\<close>'s command is the last drive frame that
  named it, live for at most 50. Passes that serve no new tick age nothing, whatever their number.\<close>

theorem peer_levels:
  assumes "b = run_inbox m es"
  shows "(rigid_peer b = Some c \<longleftrightarrow>
      (\<exists>src post. since is_cyclic es = Some (Heard src (CyclicPayload c), post) \<and> served post \<le> 5)) \<and>
    (fresh_peer b = Some (src, c) \<longleftrightarrow>
      (\<exists>post. since is_cyclic es = Some (Heard src (CyclicPayload c), post) \<and> served post \<le> 25)) \<and>
    (inbox_comms_loss b \<longleftrightarrow>
      (\<exists>s d post. since is_cyclic es = Some (Heard s (CyclicPayload d), post) \<and> 25 < served post)) \<and>
    (\<not> drive_stale b k \<and> inbox_drive b k = Some d \<longleftrightarrow>
      k < m \<and> (\<exists>s post. since (is_drive k) es = Some (Heard s (DrivePayload d), post) \<and> served post \<le> 50))"
proof -
  have len: "length (li_drive b) = m" "length (li_drive_age b) = m" by (simp_all add: assms inbox_lengths)
  have "\<not> drive_stale b k \<and> inbox_drive b k = Some d \<longleftrightarrow>
      k < m \<and> (\<exists>s post. since (is_drive k) es = Some (Heard s (DrivePayload d), post) \<and> served post \<le> 50)"
  proof (cases "k < m")
    case True
    show ?thesis using drive_inv [OF True, of es] len True
      by (cases "since (is_drive k) es") (auto simp: assms drive_stale_def inbox_drive_def age_bounds split: prod.splits)
  qed (simp add: drive_stale_def len)
  moreover have "rigid_peer b = Some c \<longleftrightarrow>
      (\<exists>src post. since is_cyclic es = Some (Heard src (CyclicPayload c), post) \<and> served post \<le> 5)"
    using peer_inv [of m es]
    by (cases "since is_cyclic es") (auto simp: assms rigid_peer_def age_bounds split: prod.splits)
  moreover have "fresh_peer b = Some (src, c) \<longleftrightarrow>
      (\<exists>post. since is_cyclic es = Some (Heard src (CyclicPayload c), post) \<and> served post \<le> 25)"
    using peer_inv [of m es]
    by (cases "since is_cyclic es") (auto simp: assms fresh_peer_def age_bounds split: prod.splits if_splits)
  moreover have "inbox_comms_loss b \<longleftrightarrow>
      (\<exists>s d post. since is_cyclic es = Some (Heard s (CyclicPayload d), post) \<and> 25 < served post)"
    using peer_inv [of m es]
    by (cases "since is_cyclic es") (auto simp: assms inbox_comms_loss_def age_bounds split: prod.splits)
  ultimately show ?thesis by blast
qed

section \<open>The mirror of a remote control\<close>

text \<open>A stretch in which the owner of the mirror says nothing that counts.\<close>

definition silent :: "u8 \<Rightarrow> inbox_event list \<Rightarrow> bool" where
  "silent src w \<longleftrightarrow> (\<forall>e\<in>set w. \<not> from_owner src e)"

definition trailing :: "u8 \<Rightarrow> inbox_event list \<Rightarrow> inbox_event list" where
  "trailing src post = rev (takeWhile (\<lambda>e. \<not> from_owner src e) (rev post))"

lemma trailing_simps [simp]:
  "trailing src [] = []"
  "trailing src (post @ [e]) = (if from_owner src e then [] else trailing src post @ [e])"
  by (simp_all add: trailing_def)

lemma trailing_silent: "silent src (trailing src post)" "\<exists>pre. post = pre @ trailing src post"
proof -
  show "silent src (trailing src post)" by (auto simp: silent_def trailing_def dest: set_takeWhileD)
  have "rev post = takeWhile (\<lambda>e. \<not> from_owner src e) (rev post) @ dropWhile (\<lambda>e. \<not> from_owner src e) (rev post)"
    by simp
  then have "post = rev (dropWhile (\<lambda>e. \<not> from_owner src e) (rev post)) @ trailing src post"
    unfolding trailing_def by (metis rev_append rev_rev_ident)
  then show "\<exists>pre. post = pre @ trailing src post" ..
qed

lemma silent_suffix: "post = a @ w \<Longrightarrow> silent src w \<Longrightarrow> \<exists>v. trailing src post = v @ w"
proof (induction w arbitrary: post rule: rev_induct)
  case (snoc e w)
  then show ?case by (auto simp: silent_def simp flip: append_assoc)
qed simp

definition never_silent :: "u8 \<Rightarrow> inbox_event list \<Rightarrow> bool" where
  "never_silent src post \<longleftrightarrow> (\<forall>a w b. post = a @ w @ b \<and> silent src w \<longrightarrow> served w \<le> 375)"

lemma never_silent_Nil [simp]: "never_silent src []"
  by (simp add: never_silent_def)

lemma never_silent_snoc [simp]:
  "never_silent src (post @ [e]) \<longleftrightarrow> never_silent src post \<and> served (trailing src (post @ [e])) \<le> 375"
proof
  assume l: "never_silent src (post @ [e])"
  have "never_silent src post"
    unfolding never_silent_def
  proof (intro allI impI)
    fix a w b
    assume "post = a @ w @ b \<and> silent src w"
    then show "served w \<le> 375" using l unfolding never_silent_def by (metis append_assoc)
  qed
  moreover obtain pre where "post @ [e] = pre @ trailing src (post @ [e])" using trailing_silent(2) by blast
  then have "served (trailing src (post @ [e])) \<le> 375"
    using l trailing_silent(1) unfolding never_silent_def by (metis append_Nil2)
  ultimately show "never_silent src post \<and> served (trailing src (post @ [e])) \<le> 375" ..
next
  assume r: "never_silent src post \<and> served (trailing src (post @ [e])) \<le> 375"
  show "never_silent src (post @ [e])"
    unfolding never_silent_def
  proof (intro allI impI)
    fix a w b
    assume w: "post @ [e] = a @ w @ b \<and> silent src w"
    show "served w \<le> 375"
    proof (cases b rule: rev_cases)
      case Nil
      then obtain v where "trailing src (post @ [e]) = v @ w" using silent_suffix w by (metis append_Nil2)
      then show ?thesis using r by (metis le_add2 le_trans served_simps(2))
    next
      case (snoc b' x)
      then have "post = a @ w @ b'" using w by (simp flip: append_assoc)
      then show ?thesis using r w by (auto simp: never_silent_def)
    qed
  qed
qed

lemma mirror_inv:
  "case since is_inputs es of
     None \<Rightarrow> li_remote (run_inbox m es) = None
   | Some (e, post) \<Rightarrow> \<exists>src i. e = Heard src (InputsPayload i) \<and> li_remote (run_inbox m es) = Some i \<and>
       li_remote_src (run_inbox m es) = Some src \<and>
       (\<exists>n. li_remote_age (run_inbox m es) = age_of n \<and>
          (if never_silent src post then n = served (trailing src post) else 375 < n))"
proof (induction es rule: rev_induct)
  case Nil
  then show ?case by (simp add: inbox_new_def)
next
  case (snoc e es)
  show ?case
  proof (cases "since is_inputs es")
    case None
    then show ?thesis using snoc by (cases e) (auto simp: refreshes_mirror_def remote_stale_def split: payload.splits intro!: exI [of _ 0])
  next
    case (Some r)
    then obtain src i post n where r: "since is_inputs es = Some (Heard src (InputsPayload i), post)"
      "li_remote (run_inbox m es) = Some i" "li_remote_src (run_inbox m es) = Some src"
      "li_remote_age (run_inbox m es) = age_of n"
      "if never_silent src post then n = served (trailing src post) else 375 < n"
      using snoc by (auto split: prod.splits)
    have bound: "never_silent src post \<Longrightarrow> served (trailing src post) \<le> 375"
      using trailing_silent(1) [of src post] trailing_silent(2) [of post src] unfolding never_silent_def by (metis append_Nil2)
    show ?thesis
    proof (cases e)
      case (Heard s p)
      show ?thesis
      proof (cases p)
        case (CyclicPayload c)
        then show ?thesis using r bound Heard
          by (cases "never_silent src post") (auto simp: refreshes_mirror_def)
      next
        case (DrivePayload d)
        have "refreshes_mirror (run_inbox m es) s p \<longleftrightarrow> s = src \<and> n \<le> 375"
          using r DrivePayload by (auto simp: refreshes_mirror_def remote_stale_def age_bounds)
        then show ?thesis using r bound Heard DrivePayload
          by (cases "s = src"; cases "never_silent src post") (auto intro: exI [of _ 0])
      next
        case (InputsPayload j)
        then show ?thesis using Heard by (auto intro: exI [of _ 0])
      qed
    next
      case (Pass t)
      then show ?thesis using r bound
        by (cases t; cases "never_silent src post")
          (auto simp: age_Suc intro: exI [of _ n] exI [of _ "Suc n"])
    qed
  qed
qed

text \<open>The remote control's hold on a machine, from any history: the mirror is a source exactly when inputs were
  heard at all, and since the last of them its sender was never silent for more than 375 served ticks: in no
  stretch of the history that holds neither an input frame nor a drive frame of that sender did more ticks
  pass. The level then is that frame's. So a drive frame prolongs a level and can neither state one nor
  reopen one that lapsed, and nobody else's frames, and no peer's cyclic, count.\<close>

theorem mirror_is_held:
  "fresh_remote (run_inbox m es) = Some i \<longleftrightarrow>
    (\<exists>pre src post. es = pre @ Heard src (InputsPayload i) # post \<and> (\<forall>s j. Heard s (InputsPayload j) \<notin> set post) \<and>
      (\<forall>a w b. post = a @ w @ b \<and> (\<forall>d. Heard src (DrivePayload d) \<notin> set w) \<longrightarrow> served w \<le> 375))"
proof -
  have quiet: "(\<forall>x\<in>set post. \<not> is_inputs x) \<longleftrightarrow> (\<forall>s j. Heard s (InputsPayload j) \<notin> set post)" for post
    by (auto elim!: is_inputs.elims)
  have ns: "never_silent src post \<longleftrightarrow>
      (\<forall>a w b. post = a @ w @ b \<and> (\<forall>d. Heard src (DrivePayload d) \<notin> set w) \<longrightarrow> served w \<le> 375)"
    if "\<forall>s j. Heard s (InputsPayload j) \<notin> set post" for src post
  proof -
    have "silent src w \<longleftrightarrow> (\<forall>d. Heard src (DrivePayload d) \<notin> set w)" if "post = a @ w @ b" for a w b
      using that \<open>\<forall>s j. _ s j\<close> by (auto simp: silent_def elim!: from_owner.elims)
    then have "never_silent src post \<longleftrightarrow>
        (\<forall>a w b. post = a @ w @ b \<longrightarrow> (\<forall>d. Heard src (DrivePayload d) \<notin> set w) \<longrightarrow> served w \<le> 375)"
      unfolding never_silent_def by (intro all_cong1) auto
    then show ?thesis by (simp only: imp_conjL)
  qed
  have "fresh_remote (run_inbox m es) = Some i \<longleftrightarrow>
      (\<exists>src post. since is_inputs es = Some (Heard src (InputsPayload i), post) \<and> never_silent src post)"
  proof (cases "since is_inputs es")
    case None
    then show ?thesis using mirror_inv [of m es] by (simp add: fresh_remote_def remote_stale_def)
  next
    case (Some r)
    obtain src j post n where r: "since is_inputs es = Some (Heard src (InputsPayload j), post)"
      "li_remote (run_inbox m es) = Some j" "li_remote_age (run_inbox m es) = age_of n"
      "if never_silent src post then n = served (trailing src post) else 375 < n"
      using mirror_inv [of m es] Some by (auto split: prod.splits)
    have "never_silent src post \<longleftrightarrow> n \<le> 375"
      using r(4) trailing_silent(1) [of src post] trailing_silent(2) [of post src] unfolding never_silent_def by (metis append_Nil2 not_le)
    then show ?thesis using r by (auto simp: fresh_remote_def remote_stale_def age_bounds)
  qed
  also have "\<dots> \<longleftrightarrow> (\<exists>pre src post. es = pre @ Heard src (InputsPayload i) # post \<and>
      (\<forall>s j. Heard s (InputsPayload j) \<notin> set post) \<and> never_silent src post)"
    by (auto simp: since_iff quiet)
  also have "\<dots> \<longleftrightarrow> (\<exists>pre src post. es = pre @ Heard src (InputsPayload i) # post \<and>
      (\<forall>s j. Heard s (InputsPayload j) \<notin> set post) \<and>
      (\<forall>a w b. post = a @ w @ b \<and> (\<forall>d. Heard src (DrivePayload d) \<notin> set w) \<longrightarrow> served w \<le> 375))"
    by (intro ex_cong1 conj_cong refl ns)
  finally show ?thesis .
qed

lemma mirror_is_held_witness:
  "fresh_remote (run_inbox 1 [Heard 7 (InputsPayload \<lparr>ri_buttons = 1, ri_rider = 0\<rparr>), Pass True]) =
    Some \<lparr>ri_buttons = 1, ri_rider = 0\<rparr>"
  unfolding mirror_is_held
proof (intro exI conjI allI impI)
  show "[Heard 7 (InputsPayload \<lparr>ri_buttons = 1, ri_rider = 0\<rparr>), Pass True] =
      [] @ Heard 7 (InputsPayload \<lparr>ri_buttons = 1, ri_rider = 0\<rparr>) # [Pass True]" by simp
  fix a w b
  assume "[Pass True] = a @ w @ b \<and> (\<forall>d. Heard 7 (DrivePayload d) \<notin> set w)"
  then have "served w \<le> served [Pass True]" by (metis served_simps(2) le_add1 le_add2 le_trans)
  then show "served w \<le> 375" by simp
qed simp

definition demo_cyclic :: "int \<Rightarrow> cyclic_state" where
  "demo_cyclic w =
     \<lparr>cs_pitch = 0, cs_roll = 0, cs_wheel_speed = 0, cs_battery = 3600, cs_mode = 3, cs_fault = 0x80, cs_flags = 2,
      cs_peer_demand = 900, cs_wheel_pos = w,
      cs_obs = \<lparr>ob_phase_peak = 0, ob_phase_mean = 0, ob_duty_on = 0, ob_boot_tag = 0, ob_chip = Unknown, ob_odometer = 0\<rparr>,
      cs_wheel_rate = 0, cs_machine = 0\<rparr>"

lemma peer_levels_witness:
  "rigid_peer (run_inbox 1 (Heard 7 (CyclicPayload (demo_cyclic 0)) # replicate 3 (Pass False))) = Some (demo_cyclic 0)"
proof -
  have "since is_cyclic (Heard 7 (CyclicPayload (demo_cyclic 0)) # replicate 3 (Pass False)) =
      Some (Heard 7 (CyclicPayload (demo_cyclic 0)), replicate 3 (Pass False))"
    by (simp add: since_def numeral_eq_Suc)
  moreover have "served (replicate 3 (Pass False)) \<le> 5" by (simp add: numeral_eq_Suc)
  ultimately show ?thesis
    by (intro peer_levels [OF refl, THEN conjunct1, THEN iffD2] exI conjI)
qed

section \<open>The peer's wheel\<close>

definition cyclics :: "inbox_event list \<Rightarrow> int list" where
  "cyclics es = List.map_filter (\<lambda>e. case e of Heard src (CyclicPayload c) \<Rightarrow> Some (cs_wheel_pos c) | _ \<Rightarrow> None) es"

lemma cyclics_simps [simp]:
  "cyclics [] = []"
  "cyclics (es @ [e]) = cyclics es @ (case e of Heard src (CyclicPayload c) \<Rightarrow> [cs_wheel_pos c] | _ \<Rightarrow> [])"
  by (auto simp: cyclics_def List.map_filter_def split: inbox_event.splits payload.splits)

lemma as_i16_diff: "as_i16 (as_i16 x - as_i16 y) = as_i16 (x - y)"
  unfolding as_i16_def
  by (simp add: signed_take_bit_diff)

lemma accept_pos:
  "li_peer_pos (inbox_accept b src p) =
     (case p of CyclicPayload c \<Rightarrow>
        (case li_peer b of
           Some prev \<Rightarrow> add32 (li_peer_pos b) (as_i16 (cs_wheel_pos c - cs_wheel_pos prev))
         | None \<Rightarrow> cs_wheel_pos c)
      | _ \<Rightarrow> li_peer_pos b)"
  by (simp add: inbox_accept_def Let_def split: payload.splits option.splits)

lemma peer_last:
  "(cyclics es = [] \<longrightarrow> li_peer (run_inbox m es) = None) \<and>
   (cyclics es \<noteq> [] \<longrightarrow> map_option cs_wheel_pos (li_peer (run_inbox m es)) = Some (last (cyclics es)))"
proof (induction es rule: rev_induct)
  case Nil
  then show ?case by (simp add: inbox_new_def)
next
  case (snoc e es)
  then show ?case by (cases e) (auto split: payload.splits)
qed

definition small_steps :: "int list \<Rightarrow> bool" where
  "small_steps ps \<longleftrightarrow> (\<forall>i. Suc i < length ps \<longrightarrow> ps ! Suc i - ps ! i \<in> i16_range)"

lemma small_steps_snoc:
  "small_steps (ps @ [p]) \<longleftrightarrow> small_steps ps \<and> (ps \<noteq> [] \<longrightarrow> p - last ps \<in> i16_range)"
proof -
  have "small_steps (ps @ [p]) \<longleftrightarrow>
      (\<forall>i < length ps. Suc i < length ps \<longrightarrow> ps ! Suc i - ps ! i \<in> i16_range) \<and>
      (\<forall>i < length ps. Suc i = length ps \<longrightarrow> p - ps ! i \<in> i16_range)"
    by (auto simp: small_steps_def nth_append less_Suc_eq)
  also have "(\<forall>i < length ps. Suc i = length ps \<longrightarrow> p - ps ! i \<in> i16_range) \<longleftrightarrow> (ps \<noteq> [] \<longrightarrow> p - last ps \<in> i16_range)"
    by (cases ps rule: rev_cases) (auto simp: nth_append)
  finally show ?thesis by (auto simp: small_steps_def)
qed

text \<open>The peer's position survives the wire's 16 bits: when the frames carry the low 16 bits of a counter and
  the counter moves by less than half their range from one accepted frame to the next, in either direction
  and however often the words wrap, the unwrapped position is the first word plus the counter's true travel
  since, as a 32-bit number; drive frames, inputs and passes between them do not touch it.\<close>

theorem peer_position_unwraps:
  assumes "cyclics es = map as_i16 ps" "ps \<noteq> []" "small_steps ps"
  shows "peer_wheel_pos (run_inbox m es) = Some (as_i32 (as_i16 (hd ps) + (last ps - hd ps)))"
  using assms
proof (induction es arbitrary: ps rule: rev_induct)
  case (snoc e es)
  let ?b = "run_inbox m es"
  show ?case
  proof (cases "\<exists>src c. e = Heard src (CyclicPayload c)")
    case True
    then obtain src c where e: "e = Heard src (CyclicPayload c)" by blast
    obtain qs p where ps: "ps = qs @ [p]" using snoc.prems(2) by (cases ps rule: rev_cases) auto
    have c: "cs_wheel_pos c = as_i16 p" and qs: "cyclics es = map as_i16 qs"
      using snoc.prems(1) unfolding e ps by simp_all
    show ?thesis
    proof (cases "qs = []")
      case True
      then have "li_peer ?b = None" using peer_last [of es m] qs by simp
      then show ?thesis using True as_i16_bounds [of p]
        by (simp add: e ps peer_wheel_pos_def accept_pos c)
    next
      case False
      have s: "small_steps qs" "p - last qs \<in> i16_range" using snoc.prems(3) False by (auto simp: ps small_steps_snoc)
      obtain d where d: "li_peer ?b = Some d" "cs_wheel_pos d = as_i16 (last qs)"
        using peer_last [of es m] False qs by (auto simp: last_map)
      have "li_peer_pos ?b = as_i32 (as_i16 (hd qs) + (last qs - hd qs))"
        using snoc.IH [OF qs False s(1)] d by (simp add: peer_wheel_pos_def)
      moreover have "as_i16 (as_i16 p - as_i16 (last qs)) = p - last qs"
        using s(2) by (simp add: as_i16_diff i16_range_def)
      ultimately have "peer_wheel_pos (run_inbox m (es @ [e])) =
          Some (as_i32 ((as_i16 (hd qs) + (last qs - hd qs)) + (p - last qs)))"
        by (simp add: e peer_wheel_pos_def accept_pos d c add32_def as_i32_add)
      then show ?thesis using False by (simp add: ps algebra_simps)
    qed
  next
    case False
    then have same: "cyclics (es @ [e]) = cyclics es" by (auto split: inbox_event.splits payload.splits)
    have "peer_wheel_pos (run_inbox m (es @ [e])) = peer_wheel_pos ?b"
      using False by (cases e) (auto simp: peer_wheel_pos_def accept_pos split: payload.splits)
    then show ?thesis using snoc.IH [OF _ snoc.prems(2,3)] snoc.prems(1) same by simp
  qed
qed simp

section \<open>The loss of the IMU\<close>

definition run_health :: "bool list \<Rightarrow> imu_health" where
  "run_health reads = foldl (\<lambda>h ok. imu_update h True ok) imu_health_new reads"

lemma run_health_simps [simp]: "run_health [] = imu_health_new" "run_health (rs @ [r]) = imu_update (run_health rs) True r"
  by (simp_all add: run_health_def)

definition streak :: "bool \<Rightarrow> bool list \<Rightarrow> nat" where
  "streak v rs = length (takeWhile ((=) v) (rev rs))"

lemma streak_simps [simp]: "streak v [] = 0" "streak v (rs @ [r]) = (if r = v then Suc (streak v rs) else 0)"
  by (auto simp: streak_def)

lemma streak_ends: "n \<le> streak v rs \<longleftrightarrow> (\<exists>pre. rs = pre @ replicate n v)"
proof (induction n arbitrary: rs)
  case (Suc n)
  show ?case
  proof (cases rs rule: rev_cases)
    case (snoc qs q)
    have "(\<exists>pre. rs = pre @ replicate (Suc n) v) \<longleftrightarrow> q = v \<and> (\<exists>pre. qs = pre @ replicate n v)"
    proof -
      have "replicate (Suc n) v = replicate n v @ [v]" by (simp add: replicate_append_same)
      then show ?thesis unfolding snoc by (auto simp del: replicate_Suc simp flip: append_assoc)
    qed
    then show ?thesis using Suc by (auto simp: snoc)
  qed simp
qed simp

definition holds_run :: "nat \<Rightarrow> bool \<Rightarrow> bool list \<Rightarrow> bool" where
  "holds_run n v rs \<longleftrightarrow> (\<exists>a b. rs = a @ replicate n v @ b)"

lemma holds_run_snoc: "holds_run n v (rs @ [r]) \<longleftrightarrow> holds_run n v rs \<or> n \<le> streak v (rs @ [r])"
proof -
  have "holds_run n v (rs @ [r]) \<longleftrightarrow> (\<exists>a. rs @ [r] = a @ replicate n v) \<or> (\<exists>a b x. rs @ [r] = a @ replicate n v @ b @ [x])"
    unfolding holds_run_def by (metis append_Nil2 rev_exhaust)
  also have "\<dots> \<longleftrightarrow> n \<le> streak v (rs @ [r]) \<or> holds_run n v rs"
    unfolding streak_ends holds_run_def by (simp flip: append_assoc)
  finally show ?thesis by blast
qed

definition lost :: "bool list \<Rightarrow> bool" where
  "lost rs \<longleftrightarrow> (\<exists>pre post. rs = pre @ replicate 5 False @ post \<and> \<not> holds_run 25 True post)"

lemma streak_past: "v \<noteq> w \<Longrightarrow> streak v (pre @ w # post) = streak v post"
  by (auto simp: streak_def takeWhile_append takeWhile_eq_all_conv [THEN iffD2])

lemma lost_snoc:
  "lost (rs @ [r]) \<longleftrightarrow> (if r then lost rs \<and> streak True (rs @ [r]) < 25 else lost rs \<or> 5 \<le> streak False (rs @ [r]))"
proof -
  have split: "lost (rs @ [r]) \<longleftrightarrow> 5 \<le> streak False (rs @ [r]) \<or>
      (\<exists>pre post. rs = pre @ replicate 5 False @ post \<and> \<not> holds_run 25 True (post @ [r]))" (is "_ \<longleftrightarrow> _ \<or> ?later")
  proof -
    have "lost (rs @ [r]) \<longleftrightarrow> (\<exists>pre. rs @ [r] = pre @ replicate 5 False) \<or>
        (\<exists>pre post x. rs @ [r] = pre @ replicate 5 False @ post @ [x] \<and> \<not> holds_run 25 True (post @ [x]))"
    proof -
      have "\<not> holds_run 25 True []" by (simp add: holds_run_def)
      then show ?thesis unfolding lost_def by (metis append_Nil2 rev_exhaust)
    qed
    then show ?thesis unfolding streak_ends by (simp flip: append_assoc)
  qed
  have past: "streak True (pre @ replicate 5 False @ post @ [r]) = streak True (post @ [r])" for pre post
    using streak_past [of True False "pre @ replicate 4 False" "post @ [r]"]
    by (simp add: numeral_eq_Suc replicate_append_same)
  show ?thesis
  proof (cases r)
    case True
    have "?later \<longleftrightarrow> (\<exists>pre post. rs = pre @ replicate 5 False @ post \<and> \<not> holds_run 25 True post \<and> streak True (rs @ [r]) < 25)"
      by (intro ex_cong1 conj_cong refl) (simp only: holds_run_snoc de_Morgan_disj not_le past append_assoc)
    then have "?later \<longleftrightarrow> lost rs \<and> streak True (rs @ [r]) < 25" by (auto simp: lost_def)
    then show ?thesis unfolding split using True by auto
  next
    case False
    then have "?later \<longleftrightarrow> lost rs" unfolding lost_def holds_run_snoc by simp
    then show ?thesis unfolding split using False by auto
  qed
qed

lemma imu_inv:
  "unat (ih_fail_streak (run_health rs)) = min (streak False rs) 65535 \<and>
   unat (ih_ok_streak (run_health rs)) = min (streak True rs) 65535 \<and> (ih_loss (run_health rs) \<longleftrightarrow> lost rs)"
proof (induction rs rule: rev_induct)
  case Nil
  then show ?case by (simp add: imu_health_new_def lost_def)
next
  case (snoc r rs)
  have le: "IMU_LOSS_THRESHOLD \<le> w \<longleftrightarrow> 5 \<le> unat w" "IMU_RECOVER_THRESHOLD \<le> w \<longleftrightarrow> 25 \<le> unat w" for w
    by (simp_all add: IMU_LOSS_THRESHOLD_def IMU_RECOVER_THRESHOLD_def word_le_nat_alt)
  show ?case using snoc
    by (cases r) (auto simp: imu_update_def Let_def lost_snoc le unat_sat_inc)
qed

text \<open>The IMU loss fault, from the whole history of a configured sensor's reads: it is raised exactly when some five
  consecutive reads failed and no 25 consecutive reads have succeeded after them; and the retry breaker is
  open exactly while the last five reads all failed, so one good read closes it and the fault stays.\<close>

theorem imu_loss_exact:
  "(ih_loss (run_health reads) \<longleftrightarrow>
      (\<exists>pre post. reads = pre @ replicate 5 False @ post \<and> \<not> (\<exists>a b. post = a @ replicate 25 True @ b))) \<and>
   (imu_backoff (run_health reads) \<longleftrightarrow> (\<exists>pre. reads = pre @ replicate 5 False))"
proof -
  have "IMU_LOSS_THRESHOLD \<le> ih_fail_streak (run_health reads) \<longleftrightarrow> 5 \<le> streak False reads"
    using imu_inv [of reads] by (simp add: IMU_LOSS_THRESHOLD_def word_le_nat_alt)
  then show ?thesis using imu_inv [of reads]
    by (simp add: imu_backoff_def streak_ends lost_def holds_run_def)
qed

lemma peer_position_unwraps_witness:
  "peer_wheel_pos (run_inbox 1
     [Heard 7 (CyclicPayload (demo_cyclic 32766)), Pass True, Heard 7 (CyclicPayload (demo_cyclic (- 32768)))]) =
   Some 32768"
proof -
  have "cyclics [Heard 7 (CyclicPayload (demo_cyclic 32766)), Pass True, Heard 7 (CyclicPayload (demo_cyclic (- 32768)))] =
      map as_i16 [32766, 32768]"
    by (simp add: cyclics_def List.map_filter_def demo_cyclic_def as_i16_def)
  then show ?thesis
    using peer_position_unwraps [of _ "[32766, 32768]" 1] by (simp add: small_steps_def less_Suc_eq i16_range_def)
qed

end
