(* ===== verification/Levels.thy ===== *)
theory Levels
  imports Inbox Store
begin

unbundle bit_operations_syntax

text \<open>
  The levels a board gates itself by, \<open>src/motorcontroller/orchestrator/src\<close>: the mask of the gating
  producers and its counters (\<open>events.rs\<close>), the battery word (\<open>battery.rs\<close>) and the agreement of the boards on
  the machine they are parts of (\<open>machine.rs\<close>).
\<close>

section \<open>The gating producers\<close>

definition EV_COMMS_LOSS :: u16 where "EV_COMMS_LOSS = push_bit 0 1"
definition EV_STOP_ALL :: u16 where "EV_STOP_ALL = push_bit 1 1"
definition EV_IMU_LOSS :: u16 where "EV_IMU_LOSS = push_bit 2 1"
definition EV_LATCH_A :: u16 where "EV_LATCH_A = push_bit 4 1"
definition EV_LATCH_B :: u16 where "EV_LATCH_B = push_bit 5 1"
definition EV_MODE_FAULT :: u16 where "EV_MODE_FAULT = push_bit 6 1"
definition EV_POWER_REQUEST :: u16 where "EV_POWER_REQUEST = push_bit 7 1"
definition EV_MOTOR_HALL :: u16 where "EV_MOTOR_HALL = push_bit 8 1"
definition EV_MOTOR_CAL :: u16 where "EV_MOTOR_CAL = push_bit 9 1"
definition EV_MOTOR_PERIOD :: u16 where "EV_MOTOR_PERIOD = push_bit 10 1"
definition EV_MOTOR_ARM :: u16 where "EV_MOTOR_ARM = push_bit 11 1"
definition EV_CONFIG :: u16 where "EV_CONFIG = push_bit 12 1"
definition EV_MACHINE :: u16 where "EV_MACHINE = FAULT_MACHINE"
definition EV_MOTOR_BITS :: u16 where
  "EV_MOTOR_BITS = EV_MOTOR_HALL OR EV_MOTOR_CAL OR EV_MOTOR_PERIOD OR EV_MOTOR_ARM"
definition N_EVENT_PRODUCERS :: nat where "N_EVENT_PRODUCERS = 8"
definition COUNTED_MOTOR :: u8 where "COUNTED_MOTOR = push_bit 3 1"

lemmas ev_bits = EV_COMMS_LOSS_def EV_STOP_ALL_def EV_IMU_LOSS_def EV_LATCH_A_def EV_LATCH_B_def EV_MODE_FAULT_def
  EV_POWER_REQUEST_def EV_MOTOR_HALL_def EV_MOTOR_CAL_def EV_MOTOR_PERIOD_def EV_MOTOR_ARM_def EV_CONFIG_def
  EV_MACHINE_def FAULT_MACHINE_def

definition counted :: "u16 \<Rightarrow> u8" where
  "counted m =
     (let low = ucast (m AND 0xFF) in if m AND EV_MOTOR_BITS \<noteq> 0 then low OR COUNTED_MOTOR else low)"

definition FAULT_A_BITS :: u16 where
  "FAULT_A_BITS = EV_COMMS_LOSS OR EV_STOP_ALL OR EV_IMU_LOSS OR EV_LATCH_A OR EV_MOTOR_BITS"

record levels =
  lv_comms_loss :: bool
  lv_imu_loss :: bool
  lv_motor :: u16
  lv_latch_a :: bool
  lv_latch_b :: bool
  lv_mode_fault :: bool
  lv_power_request :: bool
  lv_peer_down :: bool
  lv_tilt :: bool
  lv_config :: bool
  lv_machine :: bool

definition own_mask :: "levels \<Rightarrow> u16" where
  "own_mask l =
     (let b = (\<lambda>set ev. if set then ev else 0)
      in b (lv_comms_loss l) EV_COMMS_LOSS OR b (lv_imu_loss l) EV_IMU_LOSS OR (lv_motor l AND EV_MOTOR_BITS) OR
         b (lv_latch_a l) EV_LATCH_A OR b (lv_latch_b l) EV_LATCH_B OR b (lv_mode_fault l) EV_MODE_FAULT OR
         b (lv_power_request l) EV_POWER_REQUEST OR b (lv_tilt l) EV_STOP_ALL OR b (lv_config l) EV_CONFIG OR
         b (lv_machine l) EV_MACHINE)"

definition level_mask :: "levels \<Rightarrow> u16" where
  "level_mask l = own_mask l OR (if lv_peer_down l then EV_COMMS_LOSS else 0)"

definition lv_fault_a :: "levels \<Rightarrow> bool" where
  "lv_fault_a l \<longleftrightarrow> level_mask l AND FAULT_A_BITS \<noteq> 0"

definition lv_fault_b :: "levels \<Rightarrow> bool" where
  "lv_fault_b l \<longleftrightarrow> lv_latch_b l"

record fault_events =
  fe_counts :: "u8 list"
  fe_prev :: u16

definition fault_events_new :: fault_events where
  "fault_events_new = \<lparr>fe_counts = replicate N_EVENT_PRODUCERS 0, fe_prev = 0\<rparr>"

definition events_tick :: "fault_events \<Rightarrow> u16 \<Rightarrow> fault_events" where
  "events_tick f lv =
     (let changed = counted lv XOR counted (fe_prev f);
          f = f\<lparr>fe_prev := lv\<rparr>
      in if changed \<noteq> 0 then
           f\<lparr>fe_counts :=
               map (\<lambda>i. if changed AND push_bit i 1 \<noteq> 0 then sat_add (fe_counts f ! i) 1 else fe_counts f ! i)
                 [0..<length (fe_counts f)]\<rparr>
         else f)"

text \<open>The slot of a mask is the position of its lowest set bit.\<close>

definition event_count :: "fault_events \<Rightarrow> u16 \<Rightarrow> u8" where
  "event_count f ev =
     (case find (\<lambda>i. bit (counted ev) i) [0..<8] of
        Some i \<Rightarrow> if i < N_EVENT_PRODUCERS then fe_counts f ! i else 0
      | None \<Rightarrow> 0)"

section \<open>The battery word\<close>

definition SLOPE_MIN :: int where "SLOPE_MIN = 10000"
definition SLOPE_MAX :: int where "SLOPE_MAX = 32000"
definition OFFSET_MIN :: int where "OFFSET_MIN = - 500"
definition OFFSET_MAX :: int where "OFFSET_MAX = 500"

record vbatt_cal =
  vc_slope :: int
  vc_offset :: int

definition vbatt_cal_new :: "int \<Rightarrow> int \<Rightarrow> vbatt_cal" where
  "vbatt_cal_new slope offset =
     \<lparr>vc_slope = clamp slope SLOPE_MIN SLOPE_MAX, vc_offset = clamp offset OFFSET_MIN OFFSET_MAX\<rparr>"

definition vbatt_convert :: "vbatt_cal \<Rightarrow> u16 \<Rightarrow> int" where
  "vbatt_convert c raw12 =
     (let cv = add32 (mul32 (uint raw12) (vc_slope c) sdiv 10000) (vc_offset c) in as_i16 (clamp cv 1 32767))"

record local_sense =
  ls_cal :: vbatt_cal
  ls_filt :: int

definition local_sense_new :: "vbatt_cal \<Rightarrow> local_sense" where
  "local_sense_new c = \<lparr>ls_cal = c, ls_filt = 0\<rparr>"

definition sense_step :: "local_sense \<Rightarrow> u16 \<Rightarrow> local_sense \<times> int" where
  "sense_step s raw12 =
     (let s = (if raw12 \<noteq> 0 then
                 let cv = vbatt_convert (ls_cal s) raw12
                 in s\<lparr>ls_filt :=
                        (if ls_filt s = 0 then as_i16 cv
                         else let f = ls_filt s in as_i16 (add32 f (drop_bit 4 (sub32 cv f))))\<rparr>
               else s)
      in (s, ls_filt s))"

definition battery_source :: "int option \<Rightarrow> cyclic_state option \<Rightarrow> bool \<Rightarrow> int" where
  "battery_source own peer peer_fresh =
     (case (own, peer) of
        (Some w, _) \<Rightarrow> w
      | (None, Some p) \<Rightarrow> if peer_fresh \<and> cs_battery p \<noteq> 0 then uint (min (cs_battery p) 0x7FFF) else 0
      | (None, None) \<Rightarrow> 0)"

section \<open>The machine\<close>

definition LINKS :: u8 where "LINKS = 2"
definition N_LINKS :: nat where "N_LINKS = unat LINKS"

record digests =
  dg_machine :: u16
  dg_arm :: u16
  dg_boot :: u16

definition digests_of :: "'f flash_ops \<Rightarrow> 'f store \<Rightarrow> digests" where
  "digests_of F s =
     \<lparr>dg_machine = machine_digest F s, dg_arm = effect_digest F s Arm, dg_boot = effect_digest F s Boot\<rparr>"

record machine =
  mc_stored :: digests
  mc_arm_running :: u16
  mc_boot_running :: u16
  mc_peer :: "u16 list"
  mc_configured :: u8
  mc_heard :: u8

definition machine_new :: "digests \<Rightarrow> bool list \<Rightarrow> machine" where
  "machine_new boot configured =
     \<lparr>mc_stored = boot, mc_arm_running = dg_arm boot, mc_boot_running = dg_boot boot, mc_peer = replicate N_LINKS 0,
      mc_configured = foldl (\<lambda>m (i, c). m OR push_bit i (if c then 1 else 0)) 0 (List.enumerate 0 configured),
      mc_heard = 0\<rparr>"

definition machine_persisted :: "machine \<Rightarrow> digests \<Rightarrow> machine" where
  "machine_persisted m stored = m\<lparr>mc_stored := stored\<rparr>"

definition machine_armed :: "machine \<Rightarrow> machine" where
  "machine_armed m = m\<lparr>mc_arm_running := dg_arm (mc_stored m)\<rparr>"

definition hear :: "machine \<Rightarrow> nat \<Rightarrow> u16 \<Rightarrow> machine" where
  "hear m link dg =
     (if link < length (mc_peer m) \<and> mc_configured m AND push_bit link 1 \<noteq> 0
      then m\<lparr>mc_peer := (mc_peer m)[link := dg], mc_heard := mc_heard m OR push_bit link 1\<rparr>
      else m)"

definition machine_digest_word :: "machine \<Rightarrow> u16" where
  "machine_digest_word m = dg_machine (mc_stored m)"

definition peer_silent :: "machine \<Rightarrow> bool" where
  "peer_silent m \<longleftrightarrow> mc_configured m \<noteq> mc_heard m"

definition disagrees :: "machine \<Rightarrow> bool" where
  "disagrees m \<longleftrightarrow>
     peer_silent m \<or>
     list_ex (\<lambda>(i, d). mc_heard m AND push_bit i 1 \<noteq> 0 \<and> d \<noteq> dg_machine (mc_stored m)) (List.enumerate 0 (mc_peer m))"

definition machine_flags :: "machine \<Rightarrow> u8" where
  "machine_flags m =
     (let f = 0;
          f = (if peer_silent m then f OR FLAG_PEER_SILENT else f);
          f = (if mc_arm_running m \<noteq> dg_arm (mc_stored m) then f OR FLAG_REARM else f)
      in if mc_boot_running m \<noteq> dg_boot (mc_stored m) then f OR FLAG_REBOOT else f)"

end
