(* ===== verification/LevelsProps.thy ===== *)
theory LevelsProps
  imports Levels InboxProps
begin

unbundle bit_operations_syntax

text \<open>
  What the levels of a board say of their histories: the transition counters, the battery filter and the
  agreement of the machine's boards.
\<close>

section \<open>The counters\<close>

definition run_events :: "u16 list \<Rightarrow> fault_events" where
  "run_events ms = foldl events_tick fault_events_new ms"

lemma run_events_simps [simp]:
  "run_events [] = fault_events_new" "run_events (ms @ [m]) = events_tick (run_events ms) m"
  by (simp_all add: run_events_def)

text \<open>The changes of one counted level over a history that starts clear.\<close>

fun changes :: "bool \<Rightarrow> bool list \<Rightarrow> nat" where
  "changes b [] = 0"
| "changes b (x # xs) = (if x = b then 0 else 1) + changes x xs"

lemma changes_snoc: "changes b (xs @ [x]) = changes b xs + (if x = last (b # xs) then 0 else 1)"
  by (induction xs arbitrary: b) auto

lemma changes_parity: "odd (changes b xs) \<longleftrightarrow> last (b # xs) \<noteq> b"
  by (induction xs arbitrary: b) auto

text \<open>Counter 3 counts the union of the four motor causes, every other counter the bit of its number.\<close>

definition level_at :: "nat \<Rightarrow> u16 \<Rightarrow> bool" where
  "level_at i m \<longleftrightarrow> bit m i \<or> i = 3 \<and> (\<exists>k\<in>{8, 9, 10, 11}. bit m k)"

lemma and_push_bit: "w AND push_bit i 1 \<noteq> 0 \<longleftrightarrow> bit w i" for w :: "'a::len word"
  by (metis and_exp_eq_0_iff_not_bit push_bit_of_1)

lemma motor_bits: "m AND EV_MOTOR_BITS \<noteq> 0 \<longleftrightarrow> (\<exists>k\<in>{8, 9, 10, 11}. bit m k)"
proof -
  have "m AND EV_MOTOR_BITS \<noteq> 0 \<longleftrightarrow>
      (m AND push_bit 8 1) OR (m AND push_bit 9 1) OR (m AND push_bit 10 1) OR (m AND push_bit 11 1) \<noteq> 0"
    unfolding EV_MOTOR_BITS_def ev_bits bit.conj_disj_distrib ..
  then show ?thesis by (simp add: or_eq_0_iff flip: and_push_bit)
qed

lemma bit_counted: "i < 8 \<Longrightarrow> bit (counted m) i \<longleftrightarrow> level_at i m"
proof -
  have low: "bit (ucast (m AND 0xFF) :: u8) i \<longleftrightarrow> bit m i" if "i < 8" for i
  proof -
    have "(0xFF :: u16) = mask 8" by (simp add: mask_eq_exp_minus_1)
    show ?thesis unfolding \<open>0xFF = mask 8\<close> using that by (simp add: bit_unsigned_iff bit_and_iff bit_mask_iff del: mask_numeral)
  qed
  have slot: "bit COUNTED_MOTOR i \<longleftrightarrow> i = 3"
    unfolding COUNTED_MOTOR_def push_bit_of_1 bit_exp_iff by (auto simp: possible_bit_def)
  assume "i < 8"
  then show ?thesis using motor_bits [of m]
    by (auto simp: counted_def Let_def low level_at_def bit_or_iff slot)
qed

lemma level_at_0 [simp]: "\<not> level_at i 0"
  by (simp add: level_at_def)

lemma events_inv:
  "length (fe_counts (run_events ms)) = 8 \<and> fe_prev (run_events ms) = last (0 # ms) \<and>
   (\<forall>i<8. unat (fe_counts (run_events ms) ! i) = min 255 (changes False (map (level_at i) ms)))"
proof (induction ms rule: rev_induct)
  case Nil
  then show ?case by (simp add: fault_events_new_def N_EVENT_PRODUCERS_def)
next
  case (snoc m ms)
  let ?f = "run_events ms"
  have last: "last (False # map (level_at i) ms) = level_at i (last (0 # ms))" for i
    by (cases ms rule: rev_cases) simp_all
  have bit: "bit (counted m XOR counted (fe_prev ?f)) i \<longleftrightarrow> level_at i m \<noteq> level_at i (last (0 # ms))" if "i < 8" for i
    using snoc bit_counted [OF that] by (simp only: bit_xor_iff)
  show ?case
  proof (cases "counted m XOR counted (fe_prev ?f) = 0")
    case True
    then have "level_at i m = level_at i (last (0 # ms))" if "i < 8" for i using bit [OF that] by simp
    then show ?thesis using snoc True
      by (auto simp add: events_tick_def Let_def changes_snoc last_map)
  next
    case False
    then have c: "fe_counts (events_tick ?f m) =
        map (\<lambda>i. if level_at i m \<noteq> level_at i (last (0 # ms)) then sat_add (fe_counts ?f ! i) 1 else fe_counts ?f ! i) [0..<8]"
    proof -
      have "length (fe_counts ?f) = 8" using snoc by simp
      then have "fe_counts (events_tick ?f m) =
          map (\<lambda>i. if (counted m XOR counted (fe_prev ?f)) AND push_bit i 1 \<noteq> 0 then sat_add (fe_counts ?f ! i) 1
            else fe_counts ?f ! i) [0..<8]"
        using False by (simp add: events_tick_def Let_def)
      then show ?thesis unfolding and_push_bit by (simp add: bit cong: map_cong)
    qed
    have "fe_prev (events_tick ?f m) = m" using False by (simp add: events_tick_def Let_def)
    moreover have "unat (fe_counts (events_tick ?f m) ! i) = min 255 (changes False (map (level_at i) (ms @ [m])))"
      if i: "i < 8" for i
    proof -
      have "unat (fe_counts ?f ! i) = min 255 (changes False (map (level_at i) ms))" using snoc i by simp
      then show ?thesis
        unfolding c using i by (cases "ms = []") (auto simp: changes_snoc last_map unat_sat_inc min_def)
    qed
    ultimately show ?thesis by (simp add: c)
  qed
qed

text \<open>The attribution counters: after any history of level masks, counter \<open>i\<close> holds the number of changes of
  its level since boot, counted from clear and saturated at 255, where counter 3's level is the union of the
  four motor causes and every other counter's is the mask bit of its number; so below saturation an even
  count says the level is clear now and an odd one that it is held.\<close>

theorem event_counts_exact:
  assumes "i < 8"
  shows "unat (fe_counts (run_events ms) ! i) = min 255 (changes False (map (level_at i) ms)) \<and>
    (unat (fe_counts (run_events ms) ! i) < 255 \<longrightarrow>
       (odd (unat (fe_counts (run_events ms) ! i)) \<longleftrightarrow> ms \<noteq> [] \<and> level_at i (last ms)))"
proof -
  have c: "unat (fe_counts (run_events ms) ! i) = min 255 (changes False (map (level_at i) ms))"
    using events_inv [of ms] assms by blast
  have "odd (changes False (map (level_at i) ms)) \<longleftrightarrow> ms \<noteq> [] \<and> level_at i (last ms)"
    by (simp add: changes_parity last_map)
  then show ?thesis using c by (auto simp: min_def)
qed

lemma event_counts_exact_witness: "unat (fe_counts (run_events [0x100, 0x800, 0, 0x201]) ! 3) = 3"
  using event_counts_exact [of 3 "[0x100, 0x800, 0, 0x201]"] by (simp add: level_at_def bit_numeral_rec numeral_eq_Suc)

section \<open>The battery filter\<close>

definition run_sense :: "vbatt_cal \<Rightarrow> u16 list \<Rightarrow> local_sense" where
  "run_sense c raws = foldl (\<lambda>s raw. fst (sense_step s raw)) (local_sense_new c) raws"

lemma run_sense_simps [simp]:
  "run_sense c [] = local_sense_new c" "run_sense c (rs @ [r]) = fst (sense_step (run_sense c rs) r)"
  by (simp_all add: run_sense_def)

definition centivolts :: "int \<Rightarrow> int \<Rightarrow> u16 \<Rightarrow> int" where
  "centivolts slope offset raw =
     max 1 (min 32767 (uint raw * max 10000 (min 32000 slope) div 10000 + max (- 500) (min 500 offset)))"

lemma sdiv_nonneg: "0 \<le> a \<Longrightarrow> 0 < b \<Longrightarrow> a sdiv b = a div b" for a b :: int
  by (cases "a = 0") (simp_all add: signed_divide_int_def)

lemma convert_exact:
  assumes "raw < 0x1000"
  shows "vbatt_convert (vbatt_cal_new slope offset) raw = centivolts slope offset raw"
proof -
  define s where "s = max 10000 (min 32000 slope)"
  define f where "f = max (- 500) (min 500 offset)"
  have c: "vc_slope (vbatt_cal_new slope offset) = s" "vc_offset (vbatt_cal_new slope offset) = f"
    by (auto simp: vbatt_cal_new_def clamp_def SLOPE_MIN_def SLOPE_MAX_def OFFSET_MIN_def OFFSET_MAX_def s_def f_def)
  have s: "0 \<le> s" "s \<le> 32000" and f: "- 500 \<le> f" "f \<le> 500" by (auto simp: s_def f_def)
  have r: "0 \<le> uint raw" "uint raw \<le> 4095" using assms by (simp_all add: word_less_def)
  have p: "0 \<le> uint raw * s" "uint raw * s \<le> 4095 * 32000"
    using r s mult_mono [of "uint raw" 4095 s 32000] by simp_all
  then have q: "0 \<le> uint raw * s div 10000" "uint raw * s div 10000 \<le> 13104"
    using zdiv_mono1 [of "uint raw * s" "4095 * 32000" 10000] by (simp_all add: pos_imp_zdiv_nonneg_iff)
  have "mul32 (uint raw) s sdiv 10000 = uint raw * s div 10000"
    using p by (simp add: mul32_def sdiv_nonneg)
  then show ?thesis using q f
    by (auto simp: vbatt_convert_def Let_def c clamp_def add32_def centivolts_def simp flip: s_def f_def)
qed

text \<open>The conversions of a history: the counts of 0 say that none arrived.\<close>

definition readings :: "int \<Rightarrow> int \<Rightarrow> u16 list \<Rightarrow> int list" where
  "readings slope offset raws = map (centivolts slope offset) (filter (\<lambda>r. r \<noteq> 0) raws)"

lemma readings_simps [simp]:
  "readings s f [] = []"
  "readings s f (rs @ [r]) = readings s f rs @ (if r \<noteq> 0 then [centivolts s f r] else [])"
  by (simp_all add: readings_def)

text \<open>One step of the filter toward a reading, over the integers.\<close>

definition filt_spec :: "int \<Rightarrow> int \<Rightarrow> int" where
  "filt_spec f cv = (if f = 0 then cv else f + (cv - f) div 16)"

lemma centivolts_bounds: "1 \<le> centivolts s f r" "centivolts s f r \<le> 32767"
  by (auto simp: centivolts_def)

lemma filt_between: "1 \<le> f \<Longrightarrow> min f cv \<le> filt_spec f cv \<and> filt_spec f cv \<le> max f cv"
  by (auto simp: filt_spec_def min_def max_def)

lemma sense_inv:
  assumes "\<forall>r\<in>set rs. r < 0x1000"
  shows "ls_cal (run_sense (vbatt_cal_new s f) rs) = vbatt_cal_new s f \<and>
    ls_filt (run_sense (vbatt_cal_new s f) rs) = foldl filt_spec 0 (readings s f rs) \<and>
    (readings s f rs \<noteq> [] \<longrightarrow>
       Min (set (readings s f rs)) \<le> foldl filt_spec 0 (readings s f rs) \<and>
       foldl filt_spec 0 (readings s f rs) \<le> Max (set (readings s f rs)))"
  using assms
proof (induction rs rule: rev_induct)
  case Nil
  then show ?case by (simp add: local_sense_new_def)
next
  case (snoc r rs)
  let ?w = "foldl filt_spec 0 (readings s f rs)"
  let ?cv = "centivolts s f r"
  have r: "vbatt_convert (vbatt_cal_new s f) r = ?cv" using snoc.prems by (intro convert_exact) simp
  have IH: "ls_cal (run_sense (vbatt_cal_new s f) rs) = vbatt_cal_new s f" "ls_filt (run_sense (vbatt_cal_new s f) rs) = ?w"
    "readings s f rs \<noteq> [] \<Longrightarrow> Min (set (readings s f rs)) \<le> ?w \<and> ?w \<le> Max (set (readings s f rs))"
    using snoc by auto
  show ?case
  proof (cases "r = 0")
    case True
    then show ?thesis using snoc by (simp add: sense_step_def)
  next
    case False
    show ?thesis
    proof (cases "readings s f rs = []")
      case True
      then show ?thesis using False IH(1,2) r centivolts_bounds [of s f r]
        by (simp add: sense_step_def Let_def filt_spec_def)
    next
      case ne: False
      have "\<forall>x\<in>set (readings s f rs). 1 \<le> x \<and> x \<le> 32767" by (auto simp: readings_def centivolts_bounds)
      then have lo: "1 \<le> Min (set (readings s f rs))" and hi: "Max (set (readings s f rs)) \<le> 32767"
        using ne by simp_all
      then have w: "1 \<le> ?w" "?w \<le> 32767" using IH(3) [OF ne] by linarith+
      have b: "min ?w ?cv \<le> filt_spec ?w ?cv" "filt_spec ?w ?cv \<le> max ?w ?cv" using filt_between [OF w(1)] by blast+
      have "as_i16 (add32 ?w (drop_bit 4 (sub32 ?cv ?w))) = filt_spec ?w ?cv"
      proof -
        have "sub32 ?cv ?w = ?cv - ?w" using w centivolts_bounds [of s f r] by (simp add: sub32_def)
        moreover have "drop_bit 4 (?cv - ?w) = (?cv - ?w) div 16" by (simp add: drop_bit_eq_div)
        moreover have "?w + (?cv - ?w) div 16 = filt_spec ?w ?cv" using w by (simp add: filt_spec_def)
        moreover have "1 \<le> filt_spec ?w ?cv" "filt_spec ?w ?cv \<le> 32767"
          using b w centivolts_bounds [of s f r] by linarith+
        ultimately show ?thesis by (simp add: add32_def)
      qed
      then have step: "ls_filt (run_sense (vbatt_cal_new s f) (rs @ [r])) = filt_spec ?w ?cv"
        using False IH(1,2) r w by (simp add: sense_step_def Let_def)
      have "ls_cal (run_sense (vbatt_cal_new s f) (rs @ [r])) = vbatt_cal_new s f"
        using False IH(1) by (simp add: sense_step_def Let_def)
      moreover have "Min (set (readings s f (rs @ [r]))) = min ?cv (Min (set (readings s f rs)))"
        "Max (set (readings s f (rs @ [r]))) = max ?cv (Max (set (readings s f rs)))"
        "foldl filt_spec 0 (readings s f (rs @ [r])) = filt_spec ?w ?cv"
        using ne False by simp_all
      moreover have "min ?cv (Min (set (readings s f rs))) \<le> filt_spec ?w ?cv"
        "filt_spec ?w ?cv \<le> max ?cv (Max (set (readings s f rs)))"
        using b IH(3) [OF ne] by linarith+
      ultimately show ?thesis using step by simp
    qed
  qed
qed

text \<open>How far the filter can be from a reading that stays: it closes at least a sixteenth of the distance, rounded
  down below the reading and up above it.\<close>

fun gap_below :: "nat \<Rightarrow> nat \<Rightarrow> nat" where
  "gap_below 0 d = d"
| "gap_below (Suc n) d = gap_below n (d - d div 16)"

fun gap_above :: "nat \<Rightarrow> nat \<Rightarrow> nat" where
  "gap_above 0 d = d"
| "gap_above (Suc n) d = gap_above n (d - (d + 15) div 16)"

lemma gap_below_mono: "d \<le> e \<Longrightarrow> gap_below n d \<le> gap_below n e"
proof (induction n arbitrary: d e)
  case (Suc n)
  have "d - d div 16 \<le> e - e div 16" using Suc.prems by linarith
  then show ?case using Suc.IH by simp
qed simp

lemma gap_above_mono: "d \<le> e \<Longrightarrow> gap_above n d \<le> gap_above n e"
proof (induction n arbitrary: d e)
  case (Suc n)
  have "d - (d + 15) div 16 \<le> e - (e + 15) div 16" using Suc.prems by linarith
  then show ?case using Suc.IH by simp
qed simp

lemma gap_numeral:
  "gap_below (numeral k) d = gap_below (pred_numeral k) (d - d div 16)"
  "gap_above (numeral k) d = gap_above (pred_numeral k) (d - (d + 15) div 16)"
  by (subst numeral_eq_Suc, simp only: gap_below.simps gap_above.simps)+

lemma gap_ends: "gap_below 128 32767 \<le> 15" "gap_above 128 32767 = 0"
  by (simp_all add: gap_numeral)

lemma gap_add: "gap_below (m + n) d = gap_below n (gap_below m d)" "gap_above (m + n) d = gap_above n (gap_above m d)"
  by (induction m arbitrary: d) simp_all

lemma gap_le: "gap_below n d \<le> d" "gap_above n d \<le> d"
proof -
  show "gap_below n d \<le> d"
    by (induction n arbitrary: d) (simp, metis diff_le_self gap_below.simps(2) le_trans)
  show "gap_above n d \<le> d"
    by (induction n arbitrary: d) (simp, metis diff_le_self gap_above.simps(2) le_trans)
qed

lemma gap_after:
  assumes "128 \<le> n" "d \<le> 32767"
  shows "gap_below n d \<le> 15" "gap_above n d = 0"
proof -
  obtain k where n: "n = 128 + k" using assms(1) le_Suc_ex by blast
  have "gap_below n d \<le> gap_below 128 32767"
    unfolding n gap_add using gap_le gap_below_mono [OF assms(2)] le_trans by blast
  then show "gap_below n d \<le> 15" using gap_ends by linarith
  have "gap_above n d \<le> gap_above 128 32767"
    unfolding n gap_add using gap_le gap_above_mono [OF assms(2)] le_trans by blast
  then show "gap_above n d = 0" using gap_ends by simp
qed

lemma steady_below:
  "1 \<le> f \<Longrightarrow> foldl filt_spec f (replicate n (f + int d)) = f + int d - int (gap_below n d)"
proof (induction n arbitrary: f d)
  case (Suc n)
  define e where "e = f + int (d div 16)"
  have "filt_spec f (f + int d) = e" using Suc.prems by (simp add: filt_spec_def zdiv_int e_def)
  moreover have "f + int d = e + int (d - d div 16)" by (simp add: of_nat_diff e_def)
  moreover have "1 \<le> e" using Suc.prems by (simp add: e_def)
  ultimately show ?case using Suc.IH [of e "d - d div 16"] by (simp only: replicate_Suc foldl.simps gap_below.simps)
qed simp

lemma steady_above:
  "1 \<le> cv \<Longrightarrow> foldl filt_spec (cv + int d) (replicate n cv) = cv + int (gap_above n d)"
proof (induction n arbitrary: d)
  case (Suc n)
  have "(d + 15) div 16 \<le> d" by linarith
  moreover have "(- int d) div 16 = - int ((d + 15) div 16)" by linarith
  ultimately have "filt_spec (cv + int d) cv = cv + int (d - (d + 15) div 16)"
    using Suc.prems by (simp add: filt_spec_def of_nat_diff)
  then show ?case using Suc.IH [OF Suc.prems] by (simp only: replicate_Suc foldl.simps gap_above.simps)
qed simp

text \<open>The battery word of a board that senses: it is 0, UNKNOWN, exactly until the first conversion arrives, and
  from then on lies between the smallest and the largest reading since boot, each reading being the 12-bit
  count through the calibration clamped to its range and at least 1, so it is never UNKNOWN again; and
  whatever came before, 128 passes (half a second) of one steady reading bring it to that reading from above,
  and from below to at most 15 centivolts under it, where the truncated shift stops.\<close>

theorem battery_word_settles:
  assumes "\<forall>r\<in>set raws. r < 0x1000" "0 < r" "r < 0x1000" "w = ls_filt (run_sense (vbatt_cal_new slope offset) raws)"
    "128 \<le> n" "w' = ls_filt (run_sense (vbatt_cal_new slope offset) (raws @ replicate n r))"
  shows "(w = 0 \<longleftrightarrow> (\<forall>r\<in>set raws. r = 0)) \<and>
    (w \<noteq> 0 \<longrightarrow> (\<exists>r1\<in>set raws. \<exists>r2\<in>set raws. r1 \<noteq> 0 \<and> r2 \<noteq> 0 \<and>
       centivolts slope offset r1 \<le> w \<and> w \<le> centivolts slope offset r2)) \<and>
    centivolts slope offset r - 15 \<le> w' \<and> w' \<le> centivolts slope offset r \<and>
    (centivolts slope offset r \<le> w \<longrightarrow> w' = centivolts slope offset r)"
proof -
  let ?rd = "readings slope offset raws" and ?cv = "centivolts slope offset r"
  have w: "w = foldl filt_spec 0 ?rd" "?rd \<noteq> [] \<Longrightarrow> Min (set ?rd) \<le> w \<and> w \<le> Max (set ?rd)"
    using sense_inv [OF assms(1), of slope offset] assms(4) by auto
  have w': "w' = foldl filt_spec w (replicate n ?cv)"
  proof -
    have "\<forall>q\<in>set (raws @ replicate n r). q < 0x1000" using assms(1,3) by auto
    then show ?thesis
      using sense_inv [of "raws @ replicate n r" slope offset] assms(2,6)
      by (auto simp: w(1) readings_def filter_replicate)
  qed
  have rd: "?rd = [] \<longleftrightarrow> (\<forall>r\<in>set raws. r = 0)" by (auto simp: readings_def filter_empty_conv)
  have from_readings: "x \<in> set ?rd \<Longrightarrow> \<exists>q\<in>set raws. q \<noteq> 0 \<and> x = centivolts slope offset q" for x
    by (auto simp: readings_def)
  have range: "1 \<le> w \<and> w \<le> 32767 \<and> (\<exists>r1\<in>set raws. \<exists>r2\<in>set raws. r1 \<noteq> 0 \<and> r2 \<noteq> 0 \<and>
       centivolts slope offset r1 \<le> w \<and> w \<le> centivolts slope offset r2)" if "?rd \<noteq> []"
  proof -
    note ne = that
    obtain r1 r2 where r: "r1\<in>set raws" "r2\<in>set raws" "r1 \<noteq> 0" "r2 \<noteq> 0" "Min (set ?rd) = centivolts slope offset r1"
      "Max (set ?rd) = centivolts slope offset r2"
      using from_readings [OF Min_in] from_readings [OF Max_in] ne by auto
    then have "centivolts slope offset r1 \<le> w" "w \<le> centivolts slope offset r2" using w(2) [OF that] by simp_all
    then show ?thesis using r centivolts_bounds [of slope offset r1] centivolts_bounds [of slope offset r2] by fastforce
  qed
  have zero: "w = 0 \<longleftrightarrow> ?rd = []" using range w(1) by fastforce
  have "?cv - 15 \<le> w' \<and> w' \<le> ?cv \<and> (?cv \<le> w \<longrightarrow> w' = ?cv)"
  proof -
    obtain k where k: "n = Suc k" "127 \<le> k" using assms(5) by (cases n) auto
    have cv: "1 \<le> ?cv" "?cv \<le> 32767" by (rule centivolts_bounds)+
    show ?thesis
    proof (cases "w = 0")
      case True
      have "gap_above k 0 = 0" using gap_le(2) [of k 0] by simp
      then have "w' = ?cv" using w' True k(1) steady_above [OF cv(1), of 0 k] by (simp add: filt_spec_def)
      then show ?thesis by simp
    next
      case False
      then have w1: "1 \<le> w" "w \<le> 32767" using range zero by blast+
      show ?thesis
      proof (cases "?cv \<le> w")
        case True
        then have "w = ?cv + int (nat (w - ?cv))" by simp
        then have "w' = ?cv + int (gap_above n (nat (w - ?cv)))" using w' steady_above [OF cv(1)] by metis
        then show ?thesis using gap_after(2) [OF assms(5), of "nat (w - ?cv)"] w1 cv by simp
      next
        case less: False
        then have "?cv = w + int (nat (?cv - w))" by simp
        then have "w' = ?cv - int (gap_below n (nat (?cv - w)))" using w' steady_below [OF w1(1)] by metis
        then show ?thesis using gap_after(1) [OF assms(5), of "nat (?cv - w)"] w1 cv less by simp
      qed
    qed
  qed
  then show ?thesis using zero rd range by blast
qed

lemma battery_word_settles_witness:
  "ls_filt (run_sense (vbatt_cal_new 20000 0) ([2000] @ replicate 128 1800)) = 3600"
proof -
  have "2000 * max 10000 (min 32000 20000) div 10000 + max (- 500) (min 500 0) = (4000 :: int)"
    "1800 * max 10000 (min 32000 20000) div 10000 + max (- 500) (min 500 0) = (3600 :: int)" by simp_all
  then have c: "centivolts 20000 0 2000 = 4000" "centivolts 20000 0 1800 = 3600" by (simp_all add: centivolts_def)
  have w: "ls_filt (run_sense (vbatt_cal_new 20000 0) [2000]) = 4000"
    using sense_inv [of "[2000]" 20000 0] by (simp add: readings_def c filt_spec_def)
  show ?thesis
    using battery_word_settles [of "[2000]" 1800 _ 20000 0 128, OF _ _ _ refl _ refl] by (simp add: c w)
qed

section \<open>The agreement of the machine\<close>

datatype machine_event = Hear nat u16 | Persisted digests | Armed

fun machine_step :: "machine \<Rightarrow> machine_event \<Rightarrow> machine" where
  "machine_step m (Hear link d) = hear m link d"
| "machine_step m (Persisted d) = machine_persisted m d"
| "machine_step m Armed = machine_armed m"

definition run_machine :: "digests \<Rightarrow> bool list \<Rightarrow> machine_event list \<Rightarrow> machine" where
  "run_machine boot conf es = foldl machine_step (machine_new boot conf) es"

lemma run_machine_simps [simp]:
  "run_machine boot conf [] = machine_new boot conf"
  "run_machine boot conf (es @ [e]) = machine_step (run_machine boot conf es) e"
  by (simp_all add: run_machine_def)

fun is_hear :: "nat \<Rightarrow> machine_event \<Rightarrow> bool" where
  "is_hear k (Hear l d) = (l = k)"
| "is_hear k e = False"

fun is_persisted :: "machine_event \<Rightarrow> bool" where
  "is_persisted (Persisted d) = True"
| "is_persisted e = False"

definition last_heard :: "nat \<Rightarrow> machine_event list \<Rightarrow> u16 option" where
  "last_heard k es = (case since (is_hear k) es of Some (Hear l d, post) \<Rightarrow> Some d | _ \<Rightarrow> None)"

definition stored_now :: "digests \<Rightarrow> machine_event list \<Rightarrow> digests" where
  "stored_now boot es = (case since is_persisted es of Some (Persisted d, post) \<Rightarrow> d | _ \<Rightarrow> boot)"

lemma last_heard_simps [simp]:
  "last_heard k [] = None"
  "last_heard k (es @ [e]) = (case e of Hear l d \<Rightarrow> if l = k then Some d else last_heard k es | _ \<Rightarrow> last_heard k es)"
  by (auto simp: last_heard_def split: machine_event.splits option.splits)

lemma stored_now_simps [simp]:
  "stored_now boot [] = boot"
  "stored_now boot (es @ [e]) = (case e of Persisted d \<Rightarrow> d | _ \<Rightarrow> stored_now boot es)"
  by (auto simp: stored_now_def split: machine_event.splits option.splits)

lemma configured_bits:
  assumes "length conf = 2"
  shows "mc_configured (machine_new boot conf) = (if conf ! 0 then 1 else 0) OR (if conf ! 1 then 2 else 0)"
proof -
  obtain a b where "conf = [a, b]" using assms by (cases conf; cases "tl conf"; cases "tl (tl conf)") auto
  then show ?thesis by (simp add: machine_new_def)
qed

lemma machine_inv:
  assumes "length conf = 2"
  shows "mc_stored (run_machine boot conf es) = stored_now boot es \<and> length (mc_peer (run_machine boot conf es)) = 2 \<and>
    mc_configured (run_machine boot conf es) = mc_configured (machine_new boot conf) \<and>
    (\<forall>k. bit (mc_configured (run_machine boot conf es)) k \<longleftrightarrow> k < 2 \<and> conf ! k) \<and>
    (\<forall>k. bit (mc_heard (run_machine boot conf es)) k \<longleftrightarrow> k < 2 \<and> conf ! k \<and> last_heard k es \<noteq> None) \<and>
    (\<forall>k<2. conf ! k \<longrightarrow> last_heard k es \<noteq> None \<longrightarrow> Some (mc_peer (run_machine boot conf es) ! k) = last_heard k es) \<and>
    mc_boot_running (run_machine boot conf es) = dg_boot boot"
proof (induction es rule: rev_induct)
  case Nil
  have "bit (mc_configured (machine_new boot conf)) k \<longleftrightarrow> k < 2 \<and> conf ! k" for k
  proof -
    have two: "bit (2 :: u8) k \<longleftrightarrow> k = 1" using bit_exp_iff [where 'a = "8 word", of 1 k] by auto
    have "bit (mc_configured (machine_new boot conf)) k \<longleftrightarrow> conf ! 0 \<and> k = 0 \<or> conf ! 1 \<and> k = 1"
      unfolding configured_bits [OF assms] by (simp only: bit_or_iff if_distrib [of "\<lambda>w. bit w k"] bit_1_iff two bit_0_eq bot_apply) auto
    then show ?thesis by (auto simp: less_2_cases_iff)
  qed
  then show ?case by (simp add: machine_new_def N_LINKS_def LINKS_def)
next
  case (snoc e es)
  show ?case
  proof (cases e)
    case (Hear l d)
    let ?m = "run_machine boot conf es"
    have cond: "l < length (mc_peer ?m) \<and> mc_configured ?m AND push_bit l 1 \<noteq> 0 \<longleftrightarrow> l < 2 \<and> conf ! l"
      unfolding and_push_bit using snoc by auto
    show ?thesis
    proof (cases "l < 2 \<and> conf ! l")
      case True
      define h where "h = mc_heard ?m OR push_bit l 1"
      have h: "bit h k \<longleftrightarrow> bit (mc_heard ?m) k \<or> k = l" for k
        using True by (auto simp: h_def bit_or_iff bit_exp_iff possible_bit_def)
      have "hear ?m l d = ?m\<lparr>mc_peer := (mc_peer ?m)[l := d], mc_heard := h\<rparr>"
        unfolding hear_def cond using True by (simp add: h_def)
      then show ?thesis using snoc Hear True by (auto simp: h nth_list_update)
    next
      case False
      then have "hear ?m l d = ?m" unfolding hear_def cond by auto
      then show ?thesis using snoc Hear False by auto
    qed
  next
    case (Persisted d)
    let ?m = "run_machine boot conf es"
    have lh: "last_heard k (es @ [Persisted d]) = last_heard k es" for k by simp
    have fields: "mc_stored (machine_persisted ?m d) = d" "mc_peer (machine_persisted ?m d) = mc_peer ?m"
      "mc_configured (machine_persisted ?m d) = mc_configured ?m" "mc_heard (machine_persisted ?m d) = mc_heard ?m"
      "mc_boot_running (machine_persisted ?m d) = mc_boot_running ?m"
      by (simp_all add: machine_persisted_def)
    show ?thesis using snoc
      unfolding Persisted run_machine_simps machine_step.simps fields lh stored_now_simps machine_event.case by blast
  next
    case Armed
    let ?m = "run_machine boot conf es"
    have lh: "last_heard k (es @ [Armed]) = last_heard k es" for k by simp
    have fields: "mc_stored (machine_armed ?m) = mc_stored ?m" "mc_peer (machine_armed ?m) = mc_peer ?m"
      "mc_configured (machine_armed ?m) = mc_configured ?m" "mc_heard (machine_armed ?m) = mc_heard ?m"
      "mc_boot_running (machine_armed ?m) = mc_boot_running ?m"
      by (simp_all add: machine_armed_def)
    show ?thesis using snoc
      unfolding Armed run_machine_simps machine_step.simps fields lh stored_now_simps machine_event.case by blast
  qed
qed

lemma enumerate_ex: "list_ex P (List.enumerate 0 xs) \<longleftrightarrow> (\<exists>i<length xs. P (i, xs ! i))"
  by (auto simp: list_ex_length nth_enumerate_eq)

text \<open>When a board refuses to arm over the machine, from any history of peers heard, writes persisted and arms: the
  level is raised exactly when some configured link has heard no peer since boot, or the digest last heard on
  it is not the digest of what this board stores now; the flag that names the first cause is raised by it
  alone, and the reboot flag exactly when a boot-effect value differs from what the board booted with. Frames
  on a link that is not configured never count.\<close>

theorem machine_agreement:
  assumes "length conf = 2" "m = run_machine boot conf es"
  shows "(disagrees m \<longleftrightarrow> (\<exists>k<2. conf ! k \<and> last_heard k es \<noteq> Some (dg_machine (stored_now boot es)))) \<and>
    (peer_silent m \<longleftrightarrow> (\<exists>k<2. conf ! k \<and> last_heard k es = None)) \<and>
    (machine_flags m AND FLAG_PEER_SILENT \<noteq> 0 \<longleftrightarrow> (\<exists>k<2. conf ! k \<and> last_heard k es = None)) \<and>
    (machine_flags m AND FLAG_REBOOT \<noteq> 0 \<longleftrightarrow> dg_boot (stored_now boot es) \<noteq> dg_boot boot)"
proof -
  note inv = machine_inv [OF assms(1), of boot es, folded assms(2)]
  have silent: "peer_silent m \<longleftrightarrow> (\<exists>k<2. conf ! k \<and> last_heard k es = None)"
  proof -
    have "peer_silent m \<longleftrightarrow> (\<exists>k. bit (mc_configured m) k \<noteq> bit (mc_heard m) k)"
      by (metis bit_word_eqI peer_silent_def)
    moreover have "bit (mc_configured m) k \<noteq> bit (mc_heard m) k \<longleftrightarrow> k < 2 \<and> conf ! k \<and> last_heard k es = None" for k
      using inv by blast
    ultimately show ?thesis by simp
  qed
  have "list_ex (\<lambda>(i, d). mc_heard m AND push_bit i 1 \<noteq> 0 \<and> d \<noteq> dg_machine (mc_stored m)) (List.enumerate 0 (mc_peer m)) \<longleftrightarrow>
      (\<exists>k<2. conf ! k \<and> last_heard k es \<noteq> None \<and> last_heard k es \<noteq> Some (dg_machine (stored_now boot es)))"
    unfolding enumerate_ex and_push_bit prod.case using inv by (metis option.inject)
  then have "disagrees m \<longleftrightarrow> (\<exists>k<2. conf ! k \<and> last_heard k es \<noteq> Some (dg_machine (stored_now boot es)))"
    unfolding disagrees_def silent by auto
  moreover have "machine_flags m AND FLAG_PEER_SILENT \<noteq> 0 \<longleftrightarrow> peer_silent m"
    "machine_flags m AND FLAG_REBOOT \<noteq> 0 \<longleftrightarrow> mc_boot_running m \<noteq> dg_boot (mc_stored m)"
    by (simp_all add: machine_flags_def Let_def FLAG_PEER_SILENT_def FLAG_REARM_def FLAG_REBOOT_def)
  ultimately show ?thesis using silent inv by auto
qed

lemma machine_agreement_witness:
  "disagrees (run_machine \<lparr>dg_machine = 5, dg_arm = 1, dg_boot = 2\<rparr> [False, True] [Hear 0 9, Hear 1 7])"
proof -
  have "\<exists>k<2. [False, True] ! k \<and> last_heard k [Hear 0 9, Hear 1 7] \<noteq>
      Some (dg_machine (stored_now \<lparr>dg_machine = 5, dg_arm = 1, dg_boot = 2\<rparr> [Hear 0 9, Hear 1 7]))"
    by (intro exI [of _ 1]) (simp add: last_heard_def since_def stored_now_def)
  then show ?thesis using machine_agreement [OF _ refl, of "[False, True]"] by simp
qed

end
