(* ===== verification/Imu.thy ===== *)
theory Imu
  imports Engage
begin

unbundle bit_operations_syntax

text \<open>
  The sensor front end, \<open>src/motorcontroller/imu/src/lib.rs\<close>: the mounting of the chip (sign triple and axis
  roles) and its check, the pre-filter, the driver over any I2C bus and the decoding of one burst. The bus is
  the trait of a third-party crate: a record of its two operations over a state.
\<close>

section \<open>Constants of the device\<close>

definition IMU_ADDR :: u8 where "IMU_ADDR = 0x68"
definition REG_SMPLRT_DIV :: u8 where "REG_SMPLRT_DIV = 0x19"
definition REG_CONFIG :: u8 where "REG_CONFIG = 0x1A"
definition REG_GYRO_CONFIG :: u8 where "REG_GYRO_CONFIG = 0x1B"
definition REG_ACCEL_CONFIG :: u8 where "REG_ACCEL_CONFIG = 0x1C"
definition REG_PWR_MGMT_1 :: u8 where "REG_PWR_MGMT_1 = 0x6B"
definition REG_ACCEL_XOUT_H :: u8 where "REG_ACCEL_XOUT_H = 0x3B"
definition REG_WHO_AM_I :: u8 where "REG_WHO_AM_I = 0x75"

record imu_model =
  im_who_am_i :: u8

definition MPU6050 :: imu_model where "MPU6050 = \<lparr>im_who_am_i = 0x68\<rparr>"
definition CLONE_2E :: imu_model where "CLONE_2E = \<lparr>im_who_am_i = 0x2E\<rparr>"

definition model_from_index :: "u8 \<Rightarrow> imu_model option" where
  "model_from_index i = (if i = 1 then Some MPU6050 else if i = 2 then Some CLONE_2E else None)"

definition BURST_LEN :: nat where "BURST_LEN = 14"

definition CONFIG_WRITES :: "(u8 \<times> u8) list" where
  "CONFIG_WRITES =
     [(REG_PWR_MGMT_1, 0x00), (REG_SMPLRT_DIV, 0x00), (REG_CONFIG, 0x00), (REG_GYRO_CONFIG, 0x08), (REG_ACCEL_CONFIG, 0x08)]"

text \<open>The scale \<open>0.000266316114\<close> as a decimal fraction.\<close>

definition GYRO_SCALE :: "'f fix_ops \<Rightarrow> 'f" where
  "GYRO_SCALE F = fx_num F 266316114 1000000000000"

definition TEMP_OFFSET :: int where "TEMP_OFFSET = 12420"
definition TEMP_DIV :: int where "TEMP_DIV = 340"
definition CLAMP_MAX :: int where "CLAMP_MAX = 32767"
definition CLAMP_MIN :: int where "CLAMP_MIN = - 32767"
definition STILL_COUNTER_CAP :: u16 where "STILL_COUNTER_CAP = 0xFFFE"
definition STILL_THRESHOLD :: u16 where "STILL_THRESHOLD = 50"

section \<open>The mounting\<close>

record imu_config =
  ic_sign :: "int list"
  ic_gyro_bias :: "int list"
  ic_roles :: "u8 \<times> u8"

definition DEFAULT_ROLES :: "u8 \<times> u8" where "DEFAULT_ROLES = (3, 2)"

datatype imu_frame_error = RolesError | AccelError

definition imu_config_default :: imu_config where
  "imu_config_default = \<lparr>ic_sign = [- 1, 1, - 1, - 1, 1, - 1], ic_gyro_bias = [0, 0, 0], ic_roles = DEFAULT_ROLES\<rparr>"

definition imu_staged :: "int list \<Rightarrow> int list \<Rightarrow> u8 \<times> u8 \<Rightarrow> imu_config" where
  "imu_staged sign gyro_bias roles =
     (let cfg = imu_config_default\<lparr>ic_gyro_bias := gyro_bias\<rparr>;
          s = foldl (\<lambda>s axis. if sign ! axis \<noteq> 0 then s[axis := sign ! axis, axis + 3 := sign ! axis] else s)
                (ic_sign cfg) [0..<3];
          role = (\<lambda>staged dst. if staged \<noteq> 0 then staged else dst)
      in cfg\<lparr>ic_sign := s,
             ic_roles := (role (fst roles) (fst (ic_roles cfg)), role (snd roles) (snd (ic_roles cfg)))\<rparr>)"

definition body_order :: "u8 \<times> u8 \<Rightarrow> (lane \<times> lane \<times> lane) option" where
  "body_order roles =
     (case roles of (up, pitch) \<Rightarrow>
        if \<not> (1 \<le> up \<and> up \<le> 3) \<or> \<not> (1 \<le> pitch \<and> pitch \<le> 3) \<or> up = pitch then None
        else
          let up = up - 1; pitch = pitch - 1
          in case (lane_from_index (3 - up - pitch), lane_from_index pitch, lane_from_index up) of
               (Some a, Some b, Some c) \<Rightarrow> Some (a, b, c)
             | _ \<Rightarrow> None)"

definition frame_is_rotation :: "u8 \<times> u8 \<Rightarrow> int list \<Rightarrow> bool" where
  "frame_is_rotation roles signs =
     (case body_order roles of
        None \<Rightarrow> False
      | Some (o0, o1, o2) \<Rightarrow>
          let parity = (if lane_index o2 = (lane_index o1 + 1) mod 3 then 1 else - 1)
          in list_all (\<lambda>s. s = 1 \<or> s = - 1) signs \<and> mul32 (mul32 (signs ! 0) (signs ! 1)) (signs ! 2) = parity)"

definition triple_is_rotation :: "int list \<Rightarrow> bool" where
  "triple_is_rotation signs = frame_is_rotation DEFAULT_ROLES signs"

definition frame_error_of :: "int list \<Rightarrow> u8 \<times> u8 \<Rightarrow> imu_frame_error option" where
  "frame_error_of sign roles =
     (let cfg = imu_staged sign [0, 0, 0] roles; s = ic_sign cfg
      in if body_order (ic_roles cfg) = None then Some RolesError
         else if \<not> frame_is_rotation (ic_roles cfg) [s ! 0, s ! 1, s ! 2] then Some AccelError
         else None)"

definition order_of :: "imu_config \<Rightarrow> lane \<times> lane \<times> lane" where
  "order_of cfg = (case body_order (ic_roles cfg) of Some o3 \<Rightarrow> o3 | None \<Rightarrow> (LaneA, LaneB, LaneC))"

section \<open>The pre-filter\<close>

record 'f iir =
  iir_new_w :: 'f
  iir_old_w :: 'f
  iir_y :: 'f
  iir_primed :: bool

definition iir_new :: "'f fix_ops \<Rightarrow> 'f \<Rightarrow> 'f \<Rightarrow> 'f iir" where
  "iir_new F new_w old_w = \<lparr>iir_new_w = new_w, iir_old_w = old_w, iir_y = fx_num F 0 1, iir_primed = False\<rparr>"

definition iir_fast :: "'f fix_ops \<Rightarrow> 'f iir" where
  "iir_fast F = iir_new F (fx_num F 2 100) (fx_num F 98 100)"

definition iir_slow :: "'f fix_ops \<Rightarrow> 'f iir" where
  "iir_slow F = iir_new F (fx_num F 1 100) (fx_num F 99 100)"

definition iir_step :: "'f fix_ops \<Rightarrow> 'f iir \<Rightarrow> 'f \<Rightarrow> 'f iir \<times> 'f" where
  "iir_step F f x =
     (let f = (if \<not> iir_primed f then f\<lparr>iir_y := x, iir_primed := True\<rparr>
               else f\<lparr>iir_y := fx_add F (fx_mul F (iir_new_w f) x) (fx_mul F (iir_old_w f) (iir_y f))\<rparr>)
      in (f, iir_y f))"

section \<open>One sample\<close>

record 'f imu_sample =
  sm_gyro :: "'f list"
  sm_gyro_raw :: "int list"
  sm_accel_raw :: "int list"
  sm_temp :: int
  sm_still :: bool

datatype 'e imu_error = Bus 'e | Identity u8 u8

definition be_i16 :: "u8 \<Rightarrow> u8 \<Rightarrow> int" where
  "be_i16 hi lo = sint (push_bit 8 (ucast hi) OR ucast lo :: u16)"

definition sign_clamp :: "int \<Rightarrow> int \<Rightarrow> int" where
  "sign_clamp s raw = as_i16 (clamp (mul32 s raw) CLAMP_MIN CLAMP_MAX)"

record imu_driver =
  id_model :: imu_model
  id_cfg :: imu_config
  id_order :: "lane \<times> lane \<times> lane"
  id_prev_words :: "int list option"
  id_still_count :: u16

definition imu_new :: "imu_model \<Rightarrow> imu_config \<Rightarrow> imu_driver" where
  "imu_new m cfg =
     \<lparr>id_model = m, id_cfg = cfg, id_order = order_of cfg, id_prev_words = None, id_still_count = 0\<rparr>"

definition imu_set_config :: "imu_driver \<Rightarrow> imu_config \<Rightarrow> imu_driver" where
  "imu_set_config d cfg = d\<lparr>id_order := order_of cfg, id_cfg := cfg\<rparr>"

definition chip_accel :: "imu_config \<Rightarrow> u8 list \<Rightarrow> nat \<Rightarrow> int" where
  "chip_accel cfg buf i = sign_clamp (ic_sign cfg ! i) (be_i16 (buf ! (2 * i)) (buf ! (2 * i + 1)))"

definition chip_gyro :: "imu_config \<Rightarrow> u8 list \<Rightarrow> nat \<Rightarrow> int" where
  "chip_gyro cfg buf i =
     (let sgnd = mul32 (ic_sign cfg ! (3 + i)) (be_i16 (buf ! (8 + 2 * i)) (buf ! (9 + 2 * i)));
          corrected = sub32 sgnd (ic_gyro_bias cfg ! i)
      in as_i16 (clamp corrected CLAMP_MIN CLAMP_MAX))"

definition lane_permute :: "lane \<times> lane \<times> lane \<Rightarrow> 'a \<times> 'a \<times> 'a \<Rightarrow> 'a list" where
  "lane_permute ord v = (case ord of (a, b, c) \<Rightarrow> [lane_pick a v, lane_pick b v, lane_pick c v])"

definition burst_temp :: "u8 list \<Rightarrow> int" where
  "burst_temp buf = add32 (be_i16 (buf ! 6) (buf ! 7)) TEMP_OFFSET sdiv TEMP_DIV"

definition imu_decode :: "'f fix_ops \<Rightarrow> imu_driver \<Rightarrow> u8 list \<Rightarrow> imu_driver \<times> 'f imu_sample" where
  "imu_decode F d buf =
     (let cfg = id_cfg d;
          acc = lane_permute (id_order d) (chip_accel cfg buf 0, chip_accel cfg buf 1, chip_accel cfg buf 2);
          gyro_raw = lane_permute (id_order d) (chip_gyro cfg buf 0, chip_gyro cfg buf 1, chip_gyro cfg buf 2);
          gyro = map (\<lambda>w. fx_mul F (fx_num F w 1) (GYRO_SCALE F)) gyro_raw;
          words = acc @ gyro_raw;
          d = d\<lparr>id_still_count :=
                  (if id_prev_words d = Some words then
                     if id_still_count d < STILL_COUNTER_CAP then id_still_count d + 1 else id_still_count d
                   else 0),
                id_prev_words := Some words\<rparr>
      in (d, \<lparr>sm_gyro = gyro, sm_gyro_raw = gyro_raw, sm_accel_raw = acc, sm_temp = burst_temp buf,
              sm_still = (id_still_count d > STILL_THRESHOLD)\<rparr>))"

section \<open>The bus\<close>

record ('b, 'e) i2c_ops =
  i2c_write :: "'b \<Rightarrow> u8 \<Rightarrow> u8 list \<Rightarrow> 'b \<times> 'e option"
  i2c_write_read :: "'b \<Rightarrow> u8 \<Rightarrow> u8 list \<Rightarrow> nat \<Rightarrow> 'b \<times> ('e + u8 list)"

definition imu_probe :: "('b, 'e) i2c_ops \<Rightarrow> imu_driver \<Rightarrow> 'b \<Rightarrow> 'b \<times> 'e imu_error option" where
  "imu_probe B d bus =
     (case i2c_write_read B bus IMU_ADDR [REG_WHO_AM_I] 1 of
        (bus, Inl e) \<Rightarrow> (bus, Some (Bus e))
      | (bus, Inr got) \<Rightarrow>
          (bus, if got ! 0 \<noteq> im_who_am_i (id_model d) then Some (Identity (im_who_am_i (id_model d)) (got ! 0)) else None))"

fun imu_init_from :: "('b, 'e) i2c_ops \<Rightarrow> (u8 \<times> u8) list \<Rightarrow> 'b \<Rightarrow> 'b \<times> 'e imu_error option" where
  "imu_init_from B [] bus = (bus, None)"
| "imu_init_from B ((reg, val) # ws) bus =
     (case i2c_write B bus IMU_ADDR [reg, val] of
        (bus, Some e) \<Rightarrow> (bus, Some (Bus e))
      | (bus, None) \<Rightarrow> imu_init_from B ws bus)"

definition imu_init :: "('b, 'e) i2c_ops \<Rightarrow> 'b \<Rightarrow> 'b \<times> 'e imu_error option" where
  "imu_init B bus = imu_init_from B CONFIG_WRITES bus"

definition imu_read :: "('b, 'e) i2c_ops \<Rightarrow> 'f fix_ops \<Rightarrow> imu_driver \<Rightarrow> 'b \<Rightarrow>
    'b \<times> imu_driver \<times> ('e imu_error + 'f imu_sample)" where
  "imu_read B F d bus =
     (case i2c_write_read B bus IMU_ADDR [REG_ACCEL_XOUT_H] BURST_LEN of
        (bus, Inl e) \<Rightarrow> (bus, d, Inl (Bus e))
      | (bus, Inr buf) \<Rightarrow> (case imu_decode F d buf of (d, s) \<Rightarrow> (bus, d, Inr s)))"

end
