(* ===== verification/ImuProps.thy ===== *)
theory ImuProps
  imports Imu
begin

text \<open>
  What the sensor front end promises: the mounting check accepts exactly the rotations, a decoded sample is the
  chip's words turned by that rotation, and the still flag is a condition on the last words.
\<close>

section \<open>Rotations of the chip\<close>

text \<open>The matrix of a mounting: row \<open>i\<close> picks, with its sign, the chip axis that plays body axis \<open>i\<close>.\<close>

definition unit_row :: "int list \<Rightarrow> lane \<Rightarrow> int list" where
  "unit_row s l = map (\<lambda>j. if j = unat (lane_index l) then s ! j else 0) [0..<3]"

definition frame_matrix :: "lane \<times> lane \<times> lane \<Rightarrow> int list \<Rightarrow> int list list" where
  "frame_matrix ord s = (case ord of (a, b, c) \<Rightarrow> [unit_row s a, unit_row s b, unit_row s c])"

definition dot3 :: "int list \<Rightarrow> int list \<Rightarrow> int" where
  "dot3 u v = u ! 0 * v ! 0 + u ! 1 * v ! 1 + u ! 2 * v ! 2"

definition cross3 :: "int list \<Rightarrow> int list \<Rightarrow> int list" where
  "cross3 u v = [u ! 1 * v ! 2 - u ! 2 * v ! 1, u ! 2 * v ! 0 - u ! 0 * v ! 2, u ! 0 * v ! 1 - u ! 1 * v ! 0]"

definition rotation_matrix :: "int list list \<Rightarrow> bool" where
  "rotation_matrix m \<longleftrightarrow>
     (\<forall>i\<in>{0, 1, 2}. \<forall>j\<in>{0, 1, 2}. dot3 (m ! i) (m ! j) = (if i = j then 1 else 0)) \<and>
     dot3 (m ! 0) (cross3 (m ! 1) (m ! 2)) = 1"

text \<open>The frame a staged sign triple and role pair stand for: 0 is the default of its place.\<close>

definition frame_signs :: "int list \<Rightarrow> int list" where
  "frame_signs sign = map (\<lambda>i. if sign ! i \<noteq> 0 then sign ! i else [- 1, 1, - 1] ! i) [0..<3]"

definition frame_roles :: "u8 \<times> u8 \<Rightarrow> u8 \<times> u8" where
  "frame_roles r = (if fst r \<noteq> 0 then fst r else 3, if snd r \<noteq> 0 then snd r else 2)"

lemma upt_3: "[0..<3] = [0, 1, 2]" by (simp add: upt_rec)

lemma staged_frame:
  "ic_roles (imu_staged sign bias roles) = frame_roles roles"
  "ic_gyro_bias (imu_staged sign bias roles) = bias"
  "ic_sign (imu_staged sign bias roles) = frame_signs sign @ frame_signs sign"
  by (simp_all add: imu_staged_def imu_config_default_def DEFAULT_ROLES_def frame_roles_def frame_signs_def Let_def upt_3)

lemma three_words: "(1::u8) \<le> r \<and> r \<le> 3 \<longleftrightarrow> r = 1 \<or> r = 2 \<or> r = 3"
proof
  assume "1 \<le> r \<and> r \<le> 3"
  then have "unat r = unat (1::u8) \<or> unat r = unat (2::u8) \<or> unat r = unat (3::u8)" by (auto simp: word_le_nat_alt)
  then show "r = 1 \<or> r = 2 \<or> r = 3" by (simp only: word_unat_eq_iff)
qed auto

lemma body_order_cases:
  "body_order r = Some ord \<longleftrightarrow>
     (r, ord) \<in> {((3, 2), (LaneA, LaneB, LaneC)), ((2, 3), (LaneA, LaneC, LaneB)), ((3, 1), (LaneB, LaneA, LaneC)),
       ((1, 3), (LaneB, LaneC, LaneA)), ((2, 1), (LaneC, LaneA, LaneB)), ((1, 2), (LaneC, LaneB, LaneA))}"
proof -
  obtain up pitch where r: "r = (up, pitch)" by (cases r)
  show ?thesis
  proof (cases "(up = 1 \<or> up = 2 \<or> up = 3) \<and> (pitch = 1 \<or> pitch = 2 \<or> pitch = 3) \<and> up \<noteq> pitch")
    case False
    then have "body_order r = None" by (auto simp: body_order_def r three_words)
    then show ?thesis using False by (auto simp: r)
  next
    case True
    then show ?thesis by (elim conjE disjE) (auto simp: body_order_def r lane_from_index_def)
  qed
qed

lemma small_products:
  assumes "list_all (\<lambda>s. s = 1 \<or> s = - 1) [a, b, c]"
  shows "mul32 (mul32 a b) c = a * b * c"
  using assms by (auto simp: mul32_def)

lemma unit_square: "(x::int) * x = 1 \<longleftrightarrow> x = 1 \<or> x = - 1"
  by (metis mult_cancel_left1 mult_minus_left mult_minus_right square_eq_1_iff verit_minus_simplify(4))

text \<open>Whether the axes keep their cyclic order, as a sign.\<close>

fun order_sign :: "lane \<times> lane \<times> lane \<Rightarrow> int" where
  "order_sign (a, b, c) = (if lane_index c = (lane_index b + 1) mod 3 then 1 else - 1)"

lemma rotation_frame:
  assumes "body_order r = Some ord"
  shows "rotation_matrix (frame_matrix ord [a, b, c]) \<longleftrightarrow>
    a * a = 1 \<and> b * b = 1 \<and> c * c = 1 \<and> order_sign ord * (a * b * c) = 1"
proof -
  have "ord \<in> {(LaneA, LaneB, LaneC), (LaneA, LaneC, LaneB), (LaneB, LaneA, LaneC), (LaneB, LaneC, LaneA),
      (LaneC, LaneA, LaneB), (LaneC, LaneB, LaneA)}"
    using assms unfolding body_order_cases by blast
  then show ?thesis
    by (elim insertE emptyE)
      (simp_all add: rotation_matrix_def frame_matrix_def unit_row_def dot3_def cross3_def upt_3 mult.commute mult.left_commute conj_ac)
qed

text \<open>The check of a mounting accepts exactly the proper rotations. For every staged sign triple and role
  pair, \<open>frame_error\<close> answers nothing iff the resolved roles (0 is the default of its place) are two different
  ones of 1, 2, 3 and the matrix they make with the resolved signs (row \<open>i\<close>: the chip axis that plays body axis
  \<open>i\<close>, with its sign) has orthonormal rows and determinant 1; the error is the one of the roles exactly when the
  roles name no permutation. So a reflection, or a sign that is no unit, is always refused, and none of the 24
  ways of turning the chip is.\<close>

theorem frame_checked:
  "(frame_error_of sign roles = None \<longleftrightarrow>
      (\<exists>ord. body_order (frame_roles roles) = Some ord \<and> rotation_matrix (frame_matrix ord (frame_signs sign)))) \<and>
   (frame_error_of sign roles = Some RolesError \<longleftrightarrow> body_order (frame_roles roles) = None)"
proof -
  define s where "s = frame_signs sign"
  obtain a b c where s: "s = [a, b, c]" by (auto simp: s_def frame_signs_def upt_3)
  have err: "frame_error_of sign roles =
    (if body_order (frame_roles roles) = None then Some RolesError
     else if \<not> frame_is_rotation (frame_roles roles) [a, b, c] then Some AccelError else None)"
    by (simp add: frame_error_of_def Let_def staged_frame s_def [symmetric] s)
  have rot: "frame_is_rotation r [a, b, c] \<longleftrightarrow> rotation_matrix (frame_matrix ord [a, b, c])"
    if order: "body_order r = Some ord" for r ord
  proof -
    obtain x y z where ord: "ord = (x, y, z)" by (cases ord)
    have "frame_is_rotation r [a, b, c] \<longleftrightarrow>
        list_all (\<lambda>s. s = 1 \<or> s = - 1) [a, b, c] \<and> mul32 (mul32 a b) c = order_sign ord"
      by (simp add: frame_is_rotation_def order ord Let_def)
    also have "\<dots> \<longleftrightarrow> list_all (\<lambda>s. s = 1 \<or> s = - 1) [a, b, c] \<and> order_sign ord * (a * b * c) = 1"
      using small_products [of a b c] by (auto simp: ord)
    also have "\<dots> \<longleftrightarrow> rotation_matrix (frame_matrix ord [a, b, c])"
      unfolding rotation_frame [OF order] by (auto simp: unit_square)
    finally show ?thesis .
  qed
  show ?thesis using rot unfolding err s_def [symmetric] s by (cases "body_order (frame_roles roles)") auto
qed

text \<open>The reference mount, and the same one with the up axis alone negated.\<close>

lemma frame_examples:
  "frame_error_of [0, 0, 0] (0, 0) = None" "frame_error_of [0, 0, 1] (0, 0) = Some AccelError"
  "frame_error_of [0, 0, 0] (2, 2) = Some RolesError"
  by code_simp+

section \<open>A decoded sample\<close>

definition guard :: "int \<Rightarrow> int" where
  "guard x = max (- 32767) (min 32767 x)"

definition turn_by :: "int list list \<Rightarrow> int list \<Rightarrow> int list" where
  "turn_by m v = map (\<lambda>row. dot3 row v) m"

text \<open>The three big-endian words of a burst from a byte on.\<close>

definition burst_words :: "u8 list \<Rightarrow> nat \<Rightarrow> int list" where
  "burst_words buf at = map (\<lambda>i. be_i16 (buf ! (at + 2 * i)) (buf ! (at + 2 * i + 1))) [0..<3]"

lemma be_i16_range: "- 32768 \<le> be_i16 hi lo" "be_i16 hi lo \<le> 32767"
  using sint_range_size [of "push_bit 8 (ucast hi) OR ucast lo :: u16"] by (simp_all add: be_i16_def word_size)

lemma guard_range: "- 32767 \<le> guard x" "guard x \<le> 32767" by (simp_all add: guard_def)

lemma clamp_guard: "as_i16 (clamp x CLAMP_MIN CLAMP_MAX) = guard x"
  by (simp add: clamp_def guard_def CLAMP_MIN_def CLAMP_MAX_def)

lemma sign_clamp_guard:
  assumes "s = 1 \<or> s = - 1"
  shows "sign_clamp s (be_i16 hi lo) = guard (s * be_i16 hi lo)" "mul32 s (be_i16 hi lo) = s * be_i16 hi lo"
  using assms be_i16_range [of hi lo] by (auto simp: sign_clamp_def clamp_guard mul32_def)

lemma turn_unit_rows:
  "turn_by (frame_matrix ord [a, b, c]) [x, y, z] = lane_permute ord (a * x, b * y, c * z)"
proof -
  have row: "dot3 (unit_row [a, b, c] l) [x, y, z] = lane_pick l (a * x, b * y, c * z)" for l
    by (cases l) (simp_all add: unit_row_def dot3_def upt_3)
  show ?thesis by (simp add: turn_by_def frame_matrix_def lane_permute_def row split: prod.splits)
qed

lemma lane_permute_map: "lane_permute ord (f x, f y, f z) = map f (lane_permute ord (x, y, z))"
proof -
  have "lane_pick l (f x, f y, f z) = f (lane_pick l (x, y, z))" for l by (cases l) simp_all
  then show ?thesis by (simp add: lane_permute_def split: prod.splits)
qed

lemma lane_permute_map2: "lane_permute ord (x - u, y - v, z - w) = map2 (-) (lane_permute ord (x, y, z)) (lane_permute ord (u, v, w))"
proof -
  have "lane_pick l (x - u, y - v, z - w) = lane_pick l (x, y, z) - lane_pick l (u, v, w)" for l by (cases l) simp_all
  then show ?thesis by (simp add: lane_permute_def split: prod.splits)
qed

text \<open>The order a driver holds is the one of its configuration, whatever it is asked to do.\<close>

definition driver_ok :: "imu_driver \<Rightarrow> bool" where
  "driver_ok d \<longleftrightarrow> id_order d = order_of (id_cfg d)"

lemma driver_ok_ops:
  "driver_ok (imu_new m cfg)" "driver_ok (imu_set_config d cfg)" "driver_ok d \<Longrightarrow> driver_ok (fst (imu_decode F d buf))"
  by (simp_all add: driver_ok_def imu_new_def imu_set_config_def imu_decode_def Let_def)

text \<open>C36: A sample is the chip's words in the body frame. For a driver set up with a staged frame the check
  accepts, whatever it decoded before and whatever the 14 bytes are: the acceleration words are the rotation
  matrix of the mounting applied to the three raw words; the gyro words are the same rotation applied to theirs,
  less the bias, which is kept per chip axis and so is only permuted; both are guarded to \<open>-32767 .. 32767\<close> (the
  one word that needs it is the negated \<open>-32768\<close>, besides the bias), no product of the 32-bit arithmetic wraps,
  and the rates are the gyro words by the scale.\<close>

theorem decode_body_frame:
  assumes "frame_error_of sign roles = None" "body_order (frame_roles roles) = Some ord"
    "id_cfg d = imu_staged sign [b0, b1, b2] roles" "driver_ok d"
    "\<forall>b\<in>{b0, b1, b2}. \<bar>b\<bar> \<le> 2147000000"
    "m = frame_matrix ord (frame_signs sign)" "p = frame_matrix ord [1, 1, 1]"
    "imu_decode F d buf = (d', smp)"
  shows "sm_accel_raw smp = map guard (turn_by m (burst_words buf 0)) \<and>
    sm_gyro_raw smp = map guard (map2 (-) (turn_by m (burst_words buf 8)) (turn_by p [b0, b1, b2])) \<and>
    sm_gyro smp = map (\<lambda>w. fx_mul F (fx_num F w 1) (GYRO_SCALE F)) (sm_gyro_raw smp) \<and>
    (\<forall>w\<in>set (sm_accel_raw smp) \<union> set (sm_gyro_raw smp). - 32767 \<le> w \<and> w \<le> 32767)"
proof -
  define s where "s = frame_signs sign"
  obtain a b c where s: "s = [a, b, c]" by (auto simp: s_def frame_signs_def upt_3)
  have "rotation_matrix (frame_matrix ord [a, b, c])" using frame_checked [of sign roles] assms(1,2) by (simp add: s [symmetric] s_def)
  then have units: "a = 1 \<or> a = - 1" "b = 1 \<or> b = - 1" "c = 1 \<or> c = - 1"
    unfolding rotation_frame [OF assms(2)] unit_square by auto
  have signs: "ic_sign (id_cfg d) = [a, b, c, a, b, c]" by (simp add: assms(3) staged_frame s [symmetric, unfolded s_def] s_def s)
  have ord: "id_order d = ord" using assms(2,3,4) by (simp add: driver_ok_def order_of_def staged_frame)
  have bias: "ic_gyro_bias (id_cfg d) = [b0, b1, b2]" by (simp add: assms(3) staged_frame)
  let ?w = "\<lambda>i. be_i16 (buf ! i) (buf ! Suc i)"
  have gyro: "as_i16 (clamp (sub32 (mul32 e (be_i16 hi lo)) bi) CLAMP_MIN CLAMP_MAX) = guard (e * be_i16 hi lo - bi)"
    if "e = 1 \<or> e = - 1" "\<bar>bi\<bar> \<le> 2147000000" for e hi lo bi
  proof -
    have "sub32 (mul32 e (be_i16 hi lo)) bi = e * be_i16 hi lo - bi"
      using be_i16_range [of hi lo] that by (auto simp: sign_clamp_guard(2) [OF that(1)] sub32_def)
    then show ?thesis by (simp add: clamp_guard)
  qed
  have acc: "sm_accel_raw smp = lane_permute ord (guard (a * ?w 0), guard (b * ?w 2), guard (c * ?w 4))"
    using assms(8) units by (auto simp: imu_decode_def Let_def ord chip_accel_def signs sign_clamp_guard numeral_eq_Suc)
  have gyr: "sm_gyro_raw smp = lane_permute ord (guard (a * ?w 8 - b0), guard (b * ?w 10 - b1), guard (c * ?w 12 - b2))"
    using assms(8) gyro [OF units(1)] gyro [OF units(2)] gyro [OF units(3)] assms(5)
    by (auto simp: imu_decode_def Let_def ord chip_gyro_def signs bias)
  have words: "burst_words buf 0 = [?w 0, ?w 2, ?w 4]" "burst_words buf 8 = [?w 8, ?w 10, ?w 12]"
    by (simp_all add: burst_words_def upt_3)
  have bias_turn: "turn_by p [b0, b1, b2] = lane_permute ord (b0, b1, b2)" by (simp add: assms(7) turn_unit_rows)
  have "sm_accel_raw smp = map guard (turn_by m (burst_words buf 0))"
    unfolding acc words assms(6) s_def [symmetric] s turn_unit_rows lane_permute_map ..
  moreover have "sm_gyro_raw smp = map guard (map2 (-) (turn_by m (burst_words buf 8)) (turn_by p [b0, b1, b2]))"
    unfolding gyr words assms(6) s_def [symmetric] s turn_unit_rows lane_permute_map bias_turn
    by (simp only: lane_permute_map2)
  moreover have "sm_gyro smp = map (\<lambda>w. fx_mul F (fx_num F w 1) (GYRO_SCALE F)) (sm_gyro_raw smp)"
    using assms(8) by (auto simp: imu_decode_def Let_def)
  ultimately show ?thesis using guard_range by auto
qed

lemma decode_body_frame_witness:
  "snd (imu_decode demo_fix (imu_new MPU6050 (imu_staged [0, 0, 0] [0, 5, 0] (0, 0)))
      [0, 100, 0, 0, 0x80, 0, 0, 0, 0, 0, 0, 10, 0, 0]) =
    \<lparr>sm_gyro = map (\<lambda>w. fx_mul demo_fix (fx_num demo_fix w 1) (GYRO_SCALE demo_fix)) [0, 5, 0],
     sm_gyro_raw = [0, 5, 0], sm_accel_raw = [- 100, 0, 32767], sm_temp = 36, sm_still = False\<rparr>" (is "snd ?d = _")
proof -
  obtain d' smp where d: "?d = (d', smp)" by fastforce
  have w: "be_i16 0 100 = 100" "be_i16 0 0 = 0" "be_i16 0x80 0 = - 32768" "be_i16 0 10 = 10" by code_simp+
  have o: "body_order (frame_roles (0, 0)) = Some (LaneA, LaneB, LaneC)" by code_simp
  have bw: "burst_words [0, 100, 0, 0, 0x80, 0, 0, 0, 0, 0, 0, 10, 0, 0] 0 = [100, 0, - 32768]"
    "burst_words [0, 100, 0, 0, 0x80, 0, 0, 0, 0, 0, 0, 10, 0, 0] 8 = [0, 10, 0]"
    by (simp_all add: burst_words_def upt_3 w)
  have rest: "sm_temp smp = 36" "sm_still smp = False"
    using arg_cong [OF d, of "\<lambda>x. sm_temp (snd x)"] arg_cong [OF d, of "\<lambda>x. sm_still (snd x)"]
    by (simp_all add: imu_decode_def Let_def imu_new_def burst_temp_def w TEMP_OFFSET_def TEMP_DIV_def add32_def
        STILL_THRESHOLD_def signed_divide_int_def)
  have "sm_accel_raw smp = [- 100, 0, 32767] \<and> sm_gyro_raw smp = [0, 5, 0] \<and>
      sm_gyro smp = map (\<lambda>w. fx_mul demo_fix (fx_num demo_fix w 1) (GYRO_SCALE demo_fix)) (sm_gyro_raw smp)"
    using decode_body_frame [OF frame_examples(1) o _ _ _ refl refl d, of 0 5 0]
    by (simp add: imu_new_def driver_ok_def bw turn_by_def frame_matrix_def unit_row_def frame_signs_def upt_3 dot3_def guard_def)
  with rest have "smp = \<lparr>sm_gyro = map (\<lambda>w. fx_mul demo_fix (fx_num demo_fix w 1) (GYRO_SCALE demo_fix)) [0, 5, 0],
     sm_gyro_raw = [0, 5, 0], sm_accel_raw = [- 100, 0, 32767], sm_temp = 36, sm_still = False\<rparr>" by simp
  then show ?thesis using d by simp
qed

section \<open>The still flag\<close>

definition corrected_words :: "imu_config \<Rightarrow> u8 list \<Rightarrow> int list" where
  "corrected_words cfg buf =
     lane_permute (order_of cfg) (chip_accel cfg buf 0, chip_accel cfg buf 1, chip_accel cfg buf 2) @
     lane_permute (order_of cfg) (chip_gyro cfg buf 0, chip_gyro cfg buf 1, chip_gyro cfg buf 2)"

definition run_imu :: "'f fix_ops \<Rightarrow> u8 list list \<Rightarrow> imu_driver \<Rightarrow> imu_driver" where
  "run_imu F bufs d = foldl (\<lambda>d buf. fst (imu_decode F d buf)) d bufs"

text \<open>How many words at the end of a history equal the last one.\<close>

definition equal_run :: "'a list \<Rightarrow> nat" where
  "equal_run ws = length (takeWhile (\<lambda>w. w = last ws) (rev ws))"

lemma equal_run_snoc: "equal_run (ws @ [w]) = (if ws \<noteq> [] \<and> last ws = w then Suc (equal_run ws) else 1)"
  by (cases ws rule: rev_cases) (auto simp: equal_run_def)

lemma equal_run_le: "n \<le> equal_run ws \<longleftrightarrow> (\<exists>w. drop (length ws - n) ws = replicate n w)"
proof
  assume n: "n \<le> equal_run ws"
  let ?P = "\<lambda>w. w = last ws"
  have "take n (rev ws) = take n (takeWhile ?P (rev ws) @ dropWhile ?P (rev ws))" by simp
  also have "\<dots> = take n (takeWhile ?P (rev ws))"
    using n unfolding take_append equal_run_def by simp
  also have "\<dots> = replicate n (last ws)"
    using n by (intro replicate_eqI) (auto simp: equal_run_def dest: in_set_takeD set_takeWhileD)
  finally have "rev (take n (rev ws)) = replicate n (last ws)" by simp
  then show "\<exists>w. drop (length ws - n) ws = replicate n w" by (auto simp: rev_take)
next
  assume "\<exists>w. drop (length ws - n) ws = replicate n w"
  then obtain w where w: "drop (length ws - n) ws = replicate n w" ..
  show "n \<le> equal_run ws"
  proof (cases n)
    case (Suc k)
    have split: "ws = take (length ws - n) ws @ replicate n w" using w by (metis append_take_drop_id)
    then have "last ws = w" by (metis Suc last_append last_replicate nat.distinct(1) replicate_empty)
    moreover have "rev ws = replicate n w @ rev (take (length ws - n) ws)" by (subst split) simp
    ultimately have "equal_run ws = length (takeWhile (\<lambda>x. x = w) (replicate n w @ rev (take (length ws - n) ws)))"
      by (simp add: equal_run_def)
    then show ?thesis using takeWhile_append2 [of "replicate n w" "\<lambda>x. x = w"] by simp
  qed simp
qed

lemma still_inv:
  "id_order (run_imu F bufs (imu_new m cfg)) = order_of cfg \<and> id_cfg (run_imu F bufs (imu_new m cfg)) = cfg \<and>
   id_prev_words (run_imu F bufs (imu_new m cfg)) = (if bufs = [] then None else Some (corrected_words cfg (last bufs))) \<and>
   unat (id_still_count (run_imu F bufs (imu_new m cfg))) = min (equal_run (map (corrected_words cfg) bufs) - 1) 65534"
proof (induction bufs rule: rev_induct)
  case Nil
  then show ?case by (simp add: run_imu_def imu_new_def equal_run_def)
next
  case (snoc buf bufs)
  define d where "d = run_imu F bufs (imu_new m cfg)"
  have run: "run_imu F (bufs @ [buf]) (imu_new m cfg) = fst (imu_decode F d buf)" by (simp add: run_imu_def d_def)
  note ih = snoc.IH [folded d_def]
  have same: "id_prev_words d = Some (corrected_words cfg buf) \<longleftrightarrow>
      map (corrected_words cfg) bufs \<noteq> [] \<and> last (map (corrected_words cfg) bufs) = corrected_words cfg buf"
    using ih by (auto simp: last_map)
  have pos: "bufs \<noteq> [] \<Longrightarrow> 0 < equal_run (map (corrected_words cfg) bufs)"
    by (cases bufs rule: rev_cases) (auto simp: equal_run_snoc)
  have count: "unat (id_still_count d) < 65535" using ih by simp
  then have inc: "unat (id_still_count d + 1) = unat (id_still_count d) + 1" by (simp add: unat_word_ariths)
  have ord: "id_order d = order_of cfg" "id_cfg d = cfg" using ih by blast+
  have fields: "id_order (fst (imu_decode F d buf)) = order_of cfg" "id_cfg (fst (imu_decode F d buf)) = cfg"
    "id_prev_words (fst (imu_decode F d buf)) = Some (corrected_words cfg buf)"
    by (simp_all add: imu_decode_def Let_def ord corrected_words_def)
  have next_count: "id_still_count (fst (imu_decode F d buf)) =
      (if id_prev_words d = Some (corrected_words cfg buf) then
         if id_still_count d < STILL_COUNTER_CAP then id_still_count d + 1 else id_still_count d
       else 0)"
    by (simp add: imu_decode_def Let_def ord corrected_words_def)
  have "unat (if c < STILL_COUNTER_CAP then c + 1 else c) = min (unat c + 1) 65534"
    if "unat c \<le> 65534" "unat (c + 1) = unat c + 1" for c
    using that by (auto simp: STILL_COUNTER_CAP_def word_less_nat_alt)
  from this [OF _ inc] have "unat (id_still_count (fst (imu_decode F d buf))) =
      (if id_prev_words d = Some (corrected_words cfg buf) then min (unat (id_still_count d) + 1) 65534 else 0)"
    using count unfolding next_count by simp
  also have "\<dots> = min (equal_run (map (corrected_words cfg) (bufs @ [buf])) - 1) 65534"
  proof (cases "id_prev_words d = Some (corrected_words cfg buf)")
    case True
    then have "equal_run (map (corrected_words cfg) (bufs @ [buf])) = Suc (equal_run (map (corrected_words cfg) bufs))"
      using same by (simp add: equal_run_snoc)
    moreover have "0 < equal_run (map (corrected_words cfg) bufs)" using True same pos by auto
    ultimately have "min (unat (id_still_count d) + 1) 65534 = min (equal_run (map (corrected_words cfg) (bufs @ [buf])) - 1) 65534"
      using ih by linarith
    then show ?thesis using True by simp
  next
    case False
    then have "\<not> (map (corrected_words cfg) bufs \<noteq> [] \<and> last (map (corrected_words cfg) bufs) = corrected_words cfg buf)"
      unfolding same .
    then have "equal_run (map (corrected_words cfg) (bufs @ [buf])) = 1"
      unfolding map_append list.map equal_run_snoc by (rule if_not_P)
    then show ?thesis using False by simp
  qed
  finally show ?case unfolding run fields by simp
qed

text \<open>The still flag tells a frozen sensor by its last 52 samples. After any sequence of bursts, the flag of
  the next sample is set iff that sample is at least the 52nd and its six corrected words equal those of each of
  the 51 before it, bit for bit; nothing older has a say, and the saturated counter never forgets a run.\<close>

theorem still_exact:
  "sm_still (snd (imu_decode F (run_imu F bufs (imu_new m cfg)) buf)) \<longleftrightarrow>
     (\<exists>w. drop (length bufs + 1 - 52) (map (corrected_words cfg) (bufs @ [buf])) = replicate 52 w)"
proof -
  define d where "d = run_imu F bufs (imu_new m cfg)"
  have run: "run_imu F (bufs @ [buf]) (imu_new m cfg) = fst (imu_decode F d buf)" by (simp add: run_imu_def d_def)
  have "sm_still (snd (imu_decode F d buf)) \<longleftrightarrow> 50 < unat (id_still_count (fst (imu_decode F d buf)))"
    by (simp add: imu_decode_def Let_def STILL_THRESHOLD_def word_less_nat_alt)
  also have "\<dots> \<longleftrightarrow> 52 \<le> equal_run (map (corrected_words cfg) (bufs @ [buf]))"
    using still_inv [of F "bufs @ [buf]" m cfg] unfolding run by auto
  finally show ?thesis unfolding equal_run_le d_def by simp
qed

text \<open>The transfer of the temperature is whole degrees: the integer form of \<open>raw / 340 + 36.53\<close>.\<close>

lemma temp_is_degrees:
  assumes "buf ! 6 = 0" "buf ! 7 = 0"
  shows "burst_temp buf = 36"
  using assms by (simp add: burst_temp_def be_i16_def TEMP_OFFSET_def TEMP_DIV_def add32_def signed_divide_int_def)

end
