(* ===== verification/Attitude.thy ===== *)
theory Attitude
  imports Imu Complex_Main
begin

text \<open>
  The attitude filter, \<open>src/motorcontroller/attitude/src/lib.rs\<close>, with the three routines of
  \<open>src/shared/base/src/fixed.rs\<close> it divides, multiplies and takes roots by. The two fixed-point types and the
  CORDIC functions are third-party crates': the parameter \<open>q_ops\<close> holds the operations the filter uses of them,
  and every theorem names what it needs of those.
\<close>

section \<open>The number types\<close>

text \<open>\<open>q_div\<close> is the operator \<open>/\<close>, which the code never applies to a zero divisor; \<open>q_num_out\<close> stands for
  \<open>Out::from_num\<close> of a decimal fraction.\<close>

record ('f, 'o) q_ops =
  q_fix :: "'f fix_ops"
  q_sub :: "'f \<Rightarrow> 'f \<Rightarrow> 'f"
  q_neg :: "'f \<Rightarrow> 'f"
  q_div :: "'f \<Rightarrow> 'f \<Rightarrow> 'f"
  q_shl :: "'f \<Rightarrow> nat \<Rightarrow> 'f"
  q_shr :: "'f \<Rightarrow> nat \<Rightarrow> 'f"
  q_less :: "'f \<Rightarrow> 'f \<Rightarrow> bool"
  q_sqrt :: "'f \<Rightarrow> 'f"
  q_asin :: "'f \<Rightarrow> 'f"
  q_atan :: "'f \<Rightarrow> 'f"
  q_pi :: 'f
  q_half_pi :: 'f
  q_of_bits :: "int \<Rightarrow> 'f"
  q_num_out :: "int \<Rightarrow> int \<Rightarrow> 'o"
  q_out_add :: "'o \<Rightarrow> 'o \<Rightarrow> 'o"
  q_out_sub :: "'o \<Rightarrow> 'o \<Rightarrow> 'o"
  q_out_mul :: "'o \<Rightarrow> 'o \<Rightarrow> 'o"
  q_out_div :: "'o \<Rightarrow> 'o \<Rightarrow> 'o"
  q_out_of :: "'f \<Rightarrow> 'o"
  q_out_bits :: "'o \<Rightarrow> int"

definition q_zero :: "('f, 'o) q_ops \<Rightarrow> 'f" where "q_zero Q = fx_num (q_fix Q) 0 1"
definition q_add :: "('f, 'o) q_ops \<Rightarrow> 'f \<Rightarrow> 'f \<Rightarrow> 'f" where "q_add Q = fx_add (q_fix Q)"
definition q_lit :: "('f, 'o) q_ops \<Rightarrow> int \<Rightarrow> int \<Rightarrow> 'f" where "q_lit Q = fx_num (q_fix Q)"

definition fixed_mul :: "('f, 'o) q_ops \<Rightarrow> 'f \<Rightarrow> 'f \<Rightarrow> 'f" where
  "fixed_mul Q a b = fx_mul (q_fix Q) a b"

definition fixed_div :: "('f, 'o) q_ops \<Rightarrow> 'f \<Rightarrow> 'f \<Rightarrow> 'f" where
  "fixed_div Q a b = (if b = q_zero Q then q_zero Q else q_div Q a b)"

definition fixed_sqrt :: "('f, 'o) q_ops \<Rightarrow> 'f \<Rightarrow> 'f" where
  "fixed_sqrt Q x = q_sqrt Q x"

section \<open>Constants and configuration\<close>

definition HALF_STEP :: "('f, 'o) q_ops \<Rightarrow> 'f" where "HALF_STEP Q = q_lit Q 2 1000"
definition MAX_DT_TICKS :: u32 where "MAX_DT_TICKS = 25"
definition RAD_TO_DEG :: "('f, 'o) q_ops \<Rightarrow> 'f" where "RAD_TO_DEG Q = q_lit Q 5729578399658203 100000000000000"
definition OUT_IIR_NEW :: "('f, 'o) q_ops \<Rightarrow> 'o" where "OUT_IIR_NEW Q = q_num_out Q 1 10"
definition OUT_IIR_PREV_ROLL :: "('f, 'o) q_ops \<Rightarrow> 'o" where
  "OUT_IIR_PREV_ROLL Q = q_num_out Q 8999997615814209 10000000000000000"

record ('f, 'o) att_config =
  ac_kp :: 'f
  ac_gyro_bias :: "'f list"
  ac_gyro_sign :: "int list"
  ac_accel_sign :: "int list"
  ac_pitch_trim :: 'o
  ac_roll_trim :: 'o

definition att_config_default :: "('f, 'o) q_ops \<Rightarrow> ('f, 'o) att_config" where
  "att_config_default Q =
     \<lparr>ac_kp = q_lit Q 1 1, ac_gyro_bias = replicate 3 (q_zero Q), ac_gyro_sign = [1, 1, 1], ac_accel_sign = [1, 1, 1],
      ac_pitch_trim = q_num_out Q 0 1, ac_roll_trim = q_num_out Q 0 1\<rparr>"

definition att_staged :: "('f, 'o) q_ops \<Rightarrow> int \<Rightarrow> int \<Rightarrow> ('f, 'o) att_config" where
  "att_staged Q pitch_centi roll_centi =
     (let deg = (\<lambda>centi. q_out_div Q (q_num_out Q centi 1) (q_num_out Q 100 1))
      in (att_config_default Q)\<lparr>ac_pitch_trim := deg pitch_centi, ac_roll_trim := deg roll_centi\<rparr>)"

record ('f, 'o) att_output =
  ao_q :: "'f list"
  ao_pitch :: 'o
  ao_roll :: 'o

definition att_output_default :: "('f, 'o) q_ops \<Rightarrow> ('f, 'o) att_output" where
  "att_output_default Q = \<lparr>ao_q = replicate 4 (q_zero Q), ao_pitch = q_num_out Q 0 1, ao_roll = q_num_out Q 0 1\<rparr>"

record ('f, 'o) mahony =
  mh_q :: "'f list"
  mh_roll_prev :: 'o
  mh_roll_primed :: bool
  mh_cfg :: "('f, 'o) att_config"

definition mahony_new :: "('f, 'o) q_ops \<Rightarrow> ('f, 'o) att_config \<Rightarrow> ('f, 'o) mahony" where
  "mahony_new Q cfg =
     \<lparr>mh_q = [q_lit Q 1 1, q_zero Q, q_zero Q, q_zero Q], mh_roll_prev = q_num_out Q 0 1, mh_roll_primed = False, mh_cfg = cfg\<rparr>"

definition mahony_set_config :: "('f, 'o) mahony \<Rightarrow> ('f, 'o) att_config \<Rightarrow> ('f, 'o) mahony" where
  "mahony_set_config m cfg = m\<lparr>mh_cfg := cfg\<rparr>"

definition gyro_to_rad :: "('f, 'o) q_ops \<Rightarrow> ('f, 'o) mahony \<Rightarrow> nat \<Rightarrow> int \<Rightarrow> 'f" where
  "gyro_to_rad Q m axis raw =
     fixed_mul Q (q_lit Q (mul32 (ac_gyro_sign (mh_cfg m) ! axis) raw) 1) (GYRO_SCALE (q_fix Q))"

definition accel_signed :: "('f, 'o) q_ops \<Rightarrow> ('f, 'o) mahony \<Rightarrow> nat \<Rightarrow> int \<Rightarrow> 'f" where
  "accel_signed Q m axis raw = q_lit Q (mul32 (ac_accel_sign (mh_cfg m) ! axis) raw) 1"

section \<open>The functions the filter calls\<close>

definition clamp_unit :: "('f, 'o) q_ops \<Rightarrow> 'f \<Rightarrow> 'f" where
  "clamp_unit Q x =
     (let one = q_lit Q 1 1
      in if q_less Q one x then one else if q_less Q x (q_neg Q one) then q_neg Q one else x)"

definition to_out :: "('f, 'o) q_ops \<Rightarrow> 'f \<Rightarrow> 'o" where
  "to_out Q x = q_out_of Q x"

definition atan2 :: "('f, 'o) q_ops \<Rightarrow> 'f \<Rightarrow> 'f \<Rightarrow> 'f" where
  "atan2 Q y x =
     (if x = q_zero Q then if q_less Q y (q_zero Q) then q_neg Q (q_half_pi Q) else q_half_pi Q
      else if y = q_zero Q then if \<not> q_less Q x (q_zero Q) then q_zero Q else q_pi Q
      else
        let x_neg = q_less Q x (q_zero Q);
            y_neg = q_less Q y (q_zero Q);
            q = fixed_div Q y x;
            a = q_atan Q (if x_neg = y_neg then q else q_neg Q q)
        in case (x_neg, y_neg) of
             (False, False) \<Rightarrow> a
           | (False, True) \<Rightarrow> q_neg Q a
           | (True, False) \<Rightarrow> q_sub Q (q_pi Q) a
           | (True, True) \<Rightarrow> q_sub Q a (q_pi Q))"

section \<open>One step\<close>

text \<open>Step 1: the direction of the acceleration, unless its magnitude (or the root of it) is zero.\<close>

definition accel_direction :: "('f, 'o) q_ops \<Rightarrow> 'f list \<Rightarrow> 'f list option" where
  "accel_direction Q accel =
     (let h = map (\<lambda>a. q_shr Q a 1) accel;
          mag2 = q_add Q (q_add Q (fixed_mul Q (h ! 0) (h ! 0)) (fixed_mul Q (h ! 1) (h ! 1))) (fixed_mul Q (h ! 2) (h ! 2))
      in if mag2 = q_zero Q then None
         else
           let mag = fixed_sqrt Q mag2
           in if mag = q_zero Q then None else Some (map (\<lambda>a. fixed_div Q a mag) h))"

text \<open>Step 2, and the two columns the Euler angles read: \<open>vx\<close>, \<open>vy\<close> and \<open>vz\<close> of a quaternion.\<close>

definition gravity_x :: "('f, 'o) q_ops \<Rightarrow> 'f list \<Rightarrow> 'f" where
  "gravity_x Q q = q_shl Q (q_sub Q (fixed_mul Q (q ! 1) (q ! 3)) (fixed_mul Q (q ! 0) (q ! 2))) 1"

definition gravity_y :: "('f, 'o) q_ops \<Rightarrow> 'f list \<Rightarrow> 'f" where
  "gravity_y Q q = q_shl Q (q_add Q (fixed_mul Q (q ! 0) (q ! 1)) (fixed_mul Q (q ! 2) (q ! 3))) 1"

definition gravity_z :: "('f, 'o) q_ops \<Rightarrow> 'f list \<Rightarrow> 'f" where
  "gravity_z Q q =
     q_add Q (q_sub Q (q_sub Q (fixed_mul Q (q ! 0) (q ! 0)) (fixed_mul Q (q ! 1) (q ! 1))) (fixed_mul Q (q ! 2) (q ! 2)))
       (fixed_mul Q (q ! 3) (q ! 3))"

text \<open>Steps 3 and 4: the rate, with the error of the direction fed back when there is one.\<close>

definition fused_rate :: "('f, 'o) q_ops \<Rightarrow> ('f, 'o) att_config \<Rightarrow> 'f list \<Rightarrow> 'f list \<Rightarrow> 'f list option \<Rightarrow> 'f list" where
  "fused_rate Q cfg q gyro dir =
     (let w = map (\<lambda>i. q_add Q (gyro ! i) (ac_gyro_bias cfg ! i)) [0, 1, 2]
      in case dir of
           None \<Rightarrow> w
         | Some a \<Rightarrow>
             let vx = gravity_x Q q; vy = gravity_y Q q; vz = gravity_z Q q;
                 ex = q_sub Q (fixed_mul Q (a ! 1) vz) (fixed_mul Q (a ! 2) vy);
                 ey = q_sub Q (fixed_mul Q (a ! 2) vx) (fixed_mul Q (a ! 0) vz);
                 ez = q_sub Q (fixed_mul Q (a ! 0) vy) (fixed_mul Q (a ! 1) vx)
             in [q_add Q (w ! 0) (fixed_mul Q (ac_kp cfg) ex), q_add Q (w ! 1) (fixed_mul Q (ac_kp cfg) ey),
                 q_add Q (w ! 2) (fixed_mul Q (ac_kp cfg) ez)])"

text \<open>Step 5: the quaternion's derivative over the ticks that passed.\<close>

definition integrate :: "('f, 'o) q_ops \<Rightarrow> 'f list \<Rightarrow> 'f list \<Rightarrow> u32 \<Rightarrow> 'f list" where
  "integrate Q q w dt_ticks =
     (let q0 = q ! 0; q1 = q ! 1; q2 = q ! 2; q3 = q ! 3; wx = w ! 0; wy = w ! 1; wz = w ! 2;
          m = fixed_mul Q; s = q_sub Q; p = q_add Q;
          dq0 = s (s (m (q_neg Q q1) wx) (m q2 wy)) (m q3 wz);
          dq1 = s (p (m q0 wx) (m q2 wz)) (m q3 wy);
          dq2 = p (s (m q0 wy) (m q1 wz)) (m q3 wx);
          dq3 = s (p (m q0 wz) (m q1 wy)) (m q2 wx);
          h = m (HALF_STEP Q) (q_lit Q (uint (max 1 (min dt_ticks MAX_DT_TICKS))) 1)
      in [p q0 (m h dq0), p q1 (m h dq1), p q2 (m h dq2), p q3 (m h dq3)])"

text \<open>Step 6: unit length again, or the last good quaternion when the norm is zero.\<close>

definition renormalize :: "('f, 'o) q_ops \<Rightarrow> 'f list \<Rightarrow> 'f list \<Rightarrow> 'f list" where
  "renormalize Q old nq =
     (let m = fixed_mul Q; p = q_add Q;
          norm2 = p (p (p (m (nq ! 0) (nq ! 0)) (m (nq ! 1) (nq ! 1))) (m (nq ! 2) (nq ! 2))) (m (nq ! 3) (nq ! 3))
      in if norm2 \<noteq> q_zero Q then
           let norm = fixed_sqrt Q norm2
           in if norm \<noteq> q_zero Q then map (\<lambda>x. fixed_div Q x norm) nq else old
         else old)"

definition pitch_of :: "('f, 'o) q_ops \<Rightarrow> 'f list \<Rightarrow> 'o" where
  "pitch_of Q q = to_out Q (q_neg Q (fixed_mul Q (q_asin Q (clamp_unit Q (gravity_x Q q))) (RAD_TO_DEG Q)))"

definition roll_of :: "('f, 'o) q_ops \<Rightarrow> 'f list \<Rightarrow> 'o" where
  "roll_of Q q =
     (let vy = gravity_y Q q; vz = gravity_z Q q;
          roll_rad = (if vy = q_zero Q \<and> vz = q_zero Q then q_zero Q else atan2 Q vy vz)
      in to_out Q (q_neg Q (fixed_mul Q roll_rad (RAD_TO_DEG Q))))"

definition update_dt :: "('f, 'o) q_ops \<Rightarrow> ('f, 'o) mahony \<Rightarrow> 'f list \<Rightarrow> 'f list \<Rightarrow> u32 \<Rightarrow>
    ('f, 'o) mahony \<times> ('f, 'o) att_output" where
  "update_dt Q m gyro accel dt_ticks =
     (let w = fused_rate Q (mh_cfg m) (mh_q m) gyro (accel_direction Q accel);
          m = m\<lparr>mh_q := renormalize Q (mh_q m) (integrate Q (mh_q m) w dt_ticks)\<rparr>;
          pitch_new = pitch_of Q (mh_q m);
          roll_new = roll_of Q (mh_q m);
          roll_smoothed =
            (if mh_roll_primed m
             then q_out_add Q (q_out_mul Q (OUT_IIR_NEW Q) roll_new) (q_out_mul Q (OUT_IIR_PREV_ROLL Q) (mh_roll_prev m))
             else roll_new);
          m = m\<lparr>mh_roll_primed := True, mh_roll_prev := roll_smoothed\<rparr>
      in (m, \<lparr>ao_q = mh_q m, ao_pitch = q_out_sub Q pitch_new (ac_pitch_trim (mh_cfg m)),
              ao_roll = q_out_sub Q roll_smoothed (ac_roll_trim (mh_cfg m))\<rparr>))"

definition mahony_update :: "('f, 'o) q_ops \<Rightarrow> ('f, 'o) mahony \<Rightarrow> 'f list \<Rightarrow> 'f list \<Rightarrow> ('f, 'o) mahony \<times> ('f, 'o) att_output" where
  "mahony_update Q m gyro accel = update_dt Q m gyro accel 1"

section \<open>A concrete instance\<close>

text \<open>A concrete instance: bit patterns of 32 fractional bits on unbounded integers.\<close>

definition demo_q :: "(int, int) q_ops" where
  "demo_q =
     \<lparr>q_fix = demo_fix, q_sub = (-), q_neg = uminus, q_div = (\<lambda>a b. a * 4294967296 sdiv b), q_shl = (\<lambda>a n. a * 2 ^ n),
      q_shr = (\<lambda>a n. a div 2 ^ n), q_less = (<), q_sqrt = id, q_asin = id, q_atan = id, q_pi = 13493037704,
      q_half_pi = 6746518852, q_of_bits = id, q_num_out = (\<lambda>n d. n * 65536 sdiv d), q_out_add = (+), q_out_sub = (-),
      q_out_mul = (\<lambda>a b. a * b div 65536), q_out_div = (\<lambda>a b. a * 65536 sdiv b), q_out_of = (\<lambda>a. a div 65536),
      q_out_bits = id\<rparr>"

lemma demo_q_simps [simp]:
  "q_div demo_q a b = a * 4294967296 sdiv b" "q_neg demo_q a = - a" "q_atan demo_q a = a" "q_less demo_q a b \<longleftrightarrow> a < b"
  "q_zero demo_q = 0" "q_pi demo_q = 13493037704" "q_sub demo_q a b = a - b"
  by (simp_all add: demo_q_def demo_fix_def q_zero_def)

end
