(* ===== verification/AttitudeProps.thy ===== *)
theory AttitudeProps
  imports Attitude
begin

text \<open>
  The attitude filter against references: the arc tangent with one division against the four-armed one it
  replaces, and the filter in exact arithmetic against the quaternion algebra it discretises.
\<close>

section \<open>The arc tangent\<close>

text \<open>The routine of the CORDIC crate as the code's comment states it: a division and a kernel in each arm.\<close>

definition atan2_arms :: "('f, 'o) q_ops \<Rightarrow> 'f \<Rightarrow> 'f \<Rightarrow> 'f" where
  "atan2_arms Q y x =
     (if x = q_zero Q then if q_less Q y (q_zero Q) then q_neg Q (q_half_pi Q) else q_half_pi Q
      else if y = q_zero Q then if \<not> q_less Q x (q_zero Q) then q_zero Q else q_pi Q
      else if \<not> q_less Q x (q_zero Q) then
        if \<not> q_less Q y (q_zero Q) then q_atan Q (q_div Q y x) else q_neg Q (q_atan Q (q_div Q (q_neg Q y) x))
      else
        if \<not> q_less Q y (q_zero Q) then q_sub Q (q_pi Q) (q_atan Q (q_div Q y (q_neg Q x)))
        else q_sub Q (q_atan Q (q_div Q y x)) (q_pi Q))"

text \<open>Fixed-point division truncates toward zero, so it is odd in each argument.\<close>

definition odd_division :: "('f, 'o) q_ops \<Rightarrow> bool" where
  "odd_division Q \<longleftrightarrow>
     (\<forall>y x. x \<noteq> q_zero Q \<longrightarrow>
        q_div Q (q_neg Q y) x = q_neg Q (q_div Q y x) \<and> q_div Q y (q_neg Q x) = q_neg Q (q_div Q y x))"

text \<open>The arc tangent with one division and one kernel is the four-armed routine it stands in for, bit for
  bit on every pair of arguments, whatever the kernel computes. What it needs of the number type is that the
  division truncates toward zero, so that a sign moves freely through it; the division body's answer for a zero
  divisor is never taken.\<close>

theorem atan2_one_division:
  assumes "odd_division Q"
  shows "atan2 Q y x = atan2_arms Q y x"
proof (cases "x = q_zero Q \<or> y = q_zero Q")
  case False
  then have "fixed_div Q y x = q_div Q y x" "q_div Q (q_neg Q y) x = q_neg Q (q_div Q y x)"
    "q_div Q y (q_neg Q x) = q_neg Q (q_div Q y x)"
    using assms by (auto simp: fixed_div_def odd_division_def)
  then show ?thesis using False
    by (cases "q_less Q x (q_zero Q)"; cases "q_less Q y (q_zero Q)") (simp_all add: atan2_def atan2_arms_def Let_def)
qed (auto simp: atan2_def atan2_arms_def)

lemma atan2_one_division_witness: "atan2_arms demo_q (- 3) 7 = - (3 * 4294967296 div 7)"
proof -
  have "odd_division demo_q" by (simp add: odd_division_def signed_divide_int_def)
  from atan2_one_division [OF this, of "- 3" 7] show ?thesis
    by (simp add: atan2_def fixed_div_def Let_def signed_divide_int_def)
qed

section \<open>Exact arithmetic\<close>

definition exact_fix :: "real fix_ops" where
  "exact_fix =
     \<lparr>fx_num = (\<lambda>n d. of_int n / of_int d), fx_add = (+), fx_mul = (*), fx_round_to_zero = (\<lambda>x. of_int \<lfloor>x\<rfloor>),
      fx_to_bits = (\<lambda>x. \<lfloor>x * 4294967296\<rfloor>)\<rparr>"

definition exact_ops :: "(real, real) q_ops" where
  "exact_ops =
     \<lparr>q_fix = exact_fix, q_sub = (-), q_neg = uminus, q_div = (/), q_shl = (\<lambda>x n. x * 2 ^ n), q_shr = (\<lambda>x n. x / 2 ^ n),
      q_less = (<), q_sqrt = sqrt, q_asin = arcsin, q_atan = arctan, q_pi = pi, q_half_pi = pi / 2,
      q_of_bits = (\<lambda>b. of_int b / 4294967296), q_num_out = (\<lambda>n d. of_int n / of_int d), q_out_add = (+), q_out_sub = (-),
      q_out_mul = (*), q_out_div = (/), q_out_of = id, q_out_bits = (\<lambda>x. \<lfloor>x * 65536\<rfloor>)\<rparr>"

lemma exact_simps [simp]:
  "q_zero exact_ops = 0" "q_add exact_ops a b = a + b" "q_lit exact_ops i j = of_int i / of_int j"
  "fixed_mul exact_ops a b = a * b" "fixed_sqrt exact_ops a = sqrt a" "fixed_div exact_ops a b = a / b"
  "q_sub exact_ops a b = a - b" "q_neg exact_ops a = - a" "q_shl exact_ops a 1 = a * 2" "q_shl exact_ops a (Suc 0) = a * 2"
  "q_shr exact_ops a n = a / 2 ^ n" "q_less exact_ops a b \<longleftrightarrow> a < b" "to_out exact_ops a = a"
  "q_asin exact_ops a = arcsin a" "q_out_sub exact_ops a b = a - b" "q_atan exact_ops a = arctan a"
  "q_pi exact_ops = pi" "q_half_pi exact_ops = pi / 2" "RAD_TO_DEG exact_ops = 5729578399658203 / 100000000000000"
  by (simp_all add: q_zero_def q_add_def q_lit_def fixed_mul_def fixed_sqrt_def fixed_div_def exact_ops_def exact_fix_def
      to_out_def RAD_TO_DEG_def)

text \<open>The sum of the squares of a quaternion, and the body-frame gravity it stands for.\<close>

definition norm2 :: "real list \<Rightarrow> real" where
  "norm2 q = (\<Sum>x\<leftarrow>q. x\<^sup>2)"

definition gravity :: "real list \<Rightarrow> real list" where
  "gravity q = [gravity_x exact_ops q, gravity_y exact_ops q, gravity_z exact_ops q]"

lemma list_4: "length q = 4 \<Longrightarrow> \<exists>a b c d. q = [a, b, c, d]"
  by (auto simp: numeral_eq_Suc length_Suc_conv)

lemma list_3: "length q = 3 \<Longrightarrow> \<exists>a b c. q = [a, b, c]"
  by (auto simp: numeral_eq_Suc length_Suc_conv)

lemma gravity_unit:
  assumes "length q = 4" "norm2 q = 1"
  shows "norm2 (gravity q) = 1"
proof -
  obtain a b c d where q: "q = [a, b, c, d]" using list_4 [OF assms(1)] by blast
  have "norm2 (gravity q) = (norm2 q)\<^sup>2"
    by (simp add: q norm2_def gravity_def gravity_x_def gravity_y_def gravity_z_def power2_eq_square algebra_simps)
  then show ?thesis using assms by simp
qed

lemma integrate_norm:
  fixes dt :: u32
  assumes "length q = 4" "length w = 3"
  defines "h \<equiv> 2 / 1000 * of_int (uint (max 1 (min dt MAX_DT_TICKS)))"
  shows "norm2 (integrate exact_ops q w dt) = norm2 q * (1 + h\<^sup>2 * norm2 w)" "length (integrate exact_ops q w dt) = 4"
proof -
  obtain a b c d where q: "q = [a, b, c, d]" using list_4 [OF assms(1)] by blast
  obtain x y z where w: "w = [x, y, z]" using list_3 [OF assms(2)] by blast
  have step: "integrate exact_ops q w dt =
      [a + h * (- b * x - c * y - d * z), b + h * (a * x + c * z - d * y), c + h * (a * y - b * z + d * x),
       d + h * (a * z + b * y - c * x)]"
    by (simp add: integrate_def Let_def q w HALF_STEP_def h_def)
  show "length (integrate exact_ops q w dt) = 4" by (simp add: step)
  show "norm2 (integrate exact_ops q w dt) = norm2 q * (1 + h\<^sup>2 * norm2 w)"
    unfolding step by (simp add: norm2_def q w power2_eq_square) algebra
qed

lemma norm2_nonneg: "0 \<le> norm2 q"
  unfolding norm2_def by (rule sum_list_nonneg) auto

lemma renormalize_exact:
  assumes "length nq = 4" "0 < norm2 nq"
  shows "renormalize exact_ops old nq = map (\<lambda>x. x / sqrt (norm2 nq)) nq" "norm2 (renormalize exact_ops old nq) = 1"
proof -
  obtain a b c d where q: "nq = [a, b, c, d]" using list_4 [OF assms(1)] by blast
  have n: "a * a + b * b + c * c + d * d = norm2 nq" by (simp add: q norm2_def power2_eq_square)
  show ren: "renormalize exact_ops old nq = map (\<lambda>x. x / sqrt (norm2 nq)) nq"
    using assms(2) by (simp add: renormalize_def Let_def q n [unfolded q] numeral_eq_Suc)
  have "norm2 (map (\<lambda>x. x / sqrt (norm2 nq)) nq) = norm2 nq / (sqrt (norm2 nq))\<^sup>2"
    using assms(2) by (simp add: q norm2_def power_divide flip: add_divide_distrib)
  then show "norm2 (renormalize exact_ops old nq) = 1" using assms(2) by (simp add: ren)
qed

lemma fused_rate_length: "length gyro = 3 \<Longrightarrow> length (fused_rate exact_ops cfg q gyro dir) = 3"
  by (simp add: fused_rate_def Let_def split: option.split)

lemma aligned_rate:
  assumes "length q = 4" "norm2 q = 1" "0 < k"
    "\<forall>i<3. gyro ! i + ac_gyro_bias cfg ! i = 0"
  shows "fused_rate exact_ops cfg q gyro (accel_direction exact_ops (map ((*) k) (gravity q))) = [0, 0, 0]"
proof -
  obtain x y z where g: "gravity q = [x, y, z]" "gravity_x exact_ops q = x" "gravity_y exact_ops q = y" "gravity_z exact_ops q = z"
    by (simp add: gravity_def)
  have unit: "x * x + y * y + z * z = 1"
    using gravity_unit [OF assms(1,2)] by (simp add: g(1) norm2_def power2_eq_square)
  define n where "n = k * x * (k * x) / 4 + k * y * (k * y) / 4 + k * z * (k * z) / 4"
  have "n = (k / 2)\<^sup>2 * (x * x + y * y + z * z)"
    by (simp add: n_def power2_eq_square algebra_simps)
  then have n: "n \<noteq> 0" "sqrt n = k / 2" using unit assms(3) by simp_all
  have "accel_direction exact_ops (map ((*) k) (gravity q)) = Some [x, y, z]"
    using assms(3) n(1) by (simp add: accel_direction_def Let_def g(1) n(2) flip: n_def)
  then show ?thesis using assms(4) by (simp add: fused_rate_def g Let_def numeral_eq_Suc mult.commute)
qed

lemma zero_rate:
  assumes "length q = 4" "norm2 q = 1"
  shows "renormalize exact_ops q (integrate exact_ops q [0, 0, 0] dt) = q"
proof -
  obtain a b c d where q: "q = [a, b, c, d]" using list_4 [OF assms(1)] by blast
  have "integrate exact_ops q [0, 0, 0] dt = q" by (simp add: integrate_def Let_def q)
  then show ?thesis using assms renormalize_exact(1) [of q q] by simp
qed

text \<open>In exact arithmetic the filter is the quaternion filter it discretises. From a unit quaternion, for any
  rate, acceleration, gain and elapsed time, a step yields a unit quaternion (the derivative is orthogonal to
  it, so the norm before the division is at least 1 and the fall-back to the last good quaternion is never
  taken); the clamp of the arc sine's argument never binds, the published pitch plus its trim is the arc sine of
  the gravity column in degrees, at most a quarter turn either way. And the estimate that explains the measurement stays: with no
  net rate and an acceleration along the estimated gravity, of any magnitude, the quaternion does not move,
  whatever the gain.\<close>

theorem exact_filter:
  assumes "length (mh_q m) = 4" "norm2 (mh_q m) = 1" "length gyro = 3"
    "update_dt exact_ops m gyro accel dt = (m', out)"
  shows "length (mh_q m') = 4 \<and> norm2 (mh_q m') = 1 \<and> ao_q out = mh_q m' \<and>
    (let p = ao_pitch out + ac_pitch_trim (mh_cfg m)
     in p = - (5729578399658203 / 100000000000000 * arcsin (gravity_x exact_ops (mh_q m'))) \<and> \<bar>p\<bar> \<le> 5729578399658203 / 100000000000000 * (pi / 2)) \<and>
    ((\<forall>i<3. gyro ! i + ac_gyro_bias (mh_cfg m) ! i = 0) \<and> (\<exists>k>0. accel = map ((*) k) (gravity (mh_q m))) \<longrightarrow>
       mh_q m' = mh_q m)"
proof -
  define w where "w = fused_rate exact_ops (mh_cfg m) (mh_q m) gyro (accel_direction exact_ops accel)"
  define nq where "nq = integrate exact_ops (mh_q m) w dt"
  have w: "length w = 3" using assms(3) by (simp add: w_def fused_rate_length)
  have new: "mh_q m' = renormalize exact_ops (mh_q m) nq" "ao_q out = mh_q m'"
    and pitch: "ao_pitch out = pitch_of exact_ops (mh_q m') - ac_pitch_trim (mh_cfg m)"
    using assms(4) by (auto simp: update_dt_def Let_def w_def nq_def)
  have "norm2 nq = 1 + (2 / 1000 * of_int (uint (max 1 (min dt MAX_DT_TICKS))))\<^sup>2 * norm2 w"
    using integrate_norm(1) [OF assms(1) w, of dt] by (simp add: nq_def assms(2))
  then have pos: "0 < norm2 nq" using norm2_nonneg [of w] by (simp add: add_pos_nonneg)
  have len: "length nq = 4" using integrate_norm(2) [OF assms(1) w, of dt] by (simp add: nq_def)
  have q: "length (mh_q m') = 4" "norm2 (mh_q m') = 1"
    unfolding new using renormalize_exact [OF len pos] len by simp_all
  let ?g = "gravity_x exact_ops (mh_q m')"
  have "?g\<^sup>2 \<le> 1" using gravity_unit [OF q] by (simp add: gravity_def norm2_def) (metis le_add_same_cancel1 sum_power2_ge_zero)
  then have g: "- 1 \<le> ?g" "?g \<le> 1" by (auto simp: abs_square_le_1 abs_le_iff)
  then have clamp: "clamp_unit exact_ops ?g = ?g" by (simp add: clamp_unit_def Let_def)
  have asin: "\<bar>arcsin ?g\<bar> \<le> pi / 2" using arcsin_bounded [OF g] by (auto simp: abs_le_iff)
  have p: "ao_pitch out + ac_pitch_trim (mh_cfg m) = - (5729578399658203 / 100000000000000 * arcsin ?g)"
    unfolding pitch by (simp add: pitch_of_def clamp)
  have bound: "\<bar>- (5729578399658203 / 100000000000000 * arcsin ?g)\<bar> \<le> 5729578399658203 / 100000000000000 * (pi / 2)"
    unfolding abs_minus_cancel abs_mult using asin by (intro mult_mono) auto
  have "mh_q m' = mh_q m"
    if "\<forall>i<3. gyro ! i + ac_gyro_bias (mh_cfg m) ! i = 0" "0 < k" "accel = map ((*) k) (gravity (mh_q m))" for k
    unfolding new nq_def w_def that(3) aligned_rate [OF assms(1,2) that(2,1)] by (rule zero_rate [OF assms(1,2)])
  then show ?thesis using q new(2) p bound by (auto simp: Let_def)
qed

lemma exact_filter_witness:
  "mh_q (fst (update_dt exact_ops (mahony_new exact_ops (att_config_default exact_ops)) [0, 0, 0] [0, 0, 8192] 1)) = [1, 0, 0, 0]"
proof -
  let ?m = "mahony_new exact_ops (att_config_default exact_ops)"
  obtain m' out where step: "update_dt exact_ops ?m [0, 0, 0] [0, 0, 8192] 1 = (m', out)" by fastforce
  have q: "mh_q ?m = [1, 0, 0, 0]" by (simp add: mahony_new_def)
  have "\<forall>i<3. [0, 0, 0] ! i + ac_gyro_bias (mh_cfg ?m) ! i = 0"
    by (auto simp: mahony_new_def att_config_default_def less_Suc_eq numeral_3_eq_3)
  moreover have "\<exists>k>0. [0, 0, 8192] = map ((*) k) (gravity (mh_q ?m))"
    by (intro exI [of _ 8192]) (simp add: q gravity_def gravity_x_def gravity_y_def gravity_z_def)
  ultimately show ?thesis
    using exact_filter [OF _ _ _ step] by (simp add: q norm2_def step)
qed

end
