(* ===== verification/Orchestra.thy ===== *)
theory Orchestra
  imports Levels Machine Inputs Engage Throttle Attitude
begin

unbundle bit_operations_syntax

text \<open>
  One board's 250 Hz pipeline, \<open>src/motorcontroller/orchestrator/src\<close>: the state every task body shares
  (\<open>lib.rs\<close>, \<open>OrchestratorState\<close>), the control dispatch and the frames it emits (\<open>dispatch.rs\<close>), and the two tasks
  (\<open>control_task\<close>, \<open>input_task\<close>). Every component below it is the one of its own theory; the number types are
  the parameter \<open>q_ops\<close>. The motor count \<open>M\<close> of the code is the length of the per-motor lists.
\<close>

section \<open>The control section's state\<close>

definition N_BUTTON_LINES :: nat where "N_BUTTON_LINES = 1"
definition PITCH_RATE_AXIS :: nat where "PITCH_RATE_AXIS = 1"
definition UP_AXIS :: nat where "UP_AXIS = 2"
definition FOLLOWER_GATE :: int where "FOLLOWER_GATE = 1000"
definition NOMINAL_SCALE :: int where "NOMINAL_SCALE = 2960"
definition CYCLIC_EMIT_TICKS :: u32 where "CYCLIC_EMIT_TICKS = 2"
definition BLE_CYCLIC_DIVISOR :: u32 where "BLE_CYCLIC_DIVISOR = 50"
definition BLE_PEER_CYCLIC_TICKS :: u32 where "BLE_PEER_CYCLIC_TICKS = 100"

record 'f control_ctl =
  ct_dispatch :: control_dispatch
  ct_throttle_cfg :: throttle_config
  ct_sf :: sf_state
  ct_fsm :: "'f fsm_state"
  ct_gains :: gain_shadow
  ct_pos_clamp :: int
  ct_drive_turn :: drive_turn
  ct_turn :: int
  ct_gating :: "'f gating_filter"
  ct_pre_env_ref :: int
  ct_wheel_demand :: "int list"
  ct_peer_demand :: int

definition control_ctl_new :: "('f, 'o) q_ops \<Rightarrow> nat \<Rightarrow> u8 \<Rightarrow> u8 \<Rightarrow> u8 \<Rightarrow> bool \<Rightarrow> gain_shadow \<Rightarrow> int \<Rightarrow> drive_turn \<Rightarrow> u8 \<Rightarrow>
    int \<Rightarrow> 'f control_ctl" where
  "control_ctl_new Q m mode_byte frame_byte leader_byte imu_configured gains pclamp dturn rider_byte battery_floor =
     \<lparr>ct_dispatch = dispatch_new m mode_byte frame_byte leader_byte imu_configured rider_byte battery_floor,
      ct_throttle_cfg = throttle_config_default, ct_sf = sf_default, ct_fsm = fsm_default (q_fix Q), ct_gains = gains,
      ct_pos_clamp = pos_clamp pclamp, ct_drive_turn = dturn, ct_turn = 0, ct_gating = gating_new (q_fix Q),
      ct_pre_env_ref = 0, ct_wheel_demand = replicate m 0, ct_peer_demand = 0\<rparr>"

record block_words =
  bw_pitch_word :: int
  bw_roll_word :: int
  bw_pitch_rate :: int
  bw_wheel_speed :: "int list"
  bw_wheel_rate_q12 :: "int list"
  bw_wheel_pos :: int
  bw_battery :: int
  bw_gating_field :: int
  bw_orientation_nz :: bool
  bw_role_right :: bool
  bw_torque_is_current :: bool

definition block_words_new :: "nat \<Rightarrow> bool \<Rightarrow> block_words" where
  "block_words_new m role_right =
     \<lparr>bw_pitch_word = 0, bw_roll_word = 0, bw_pitch_rate = 0, bw_wheel_speed = replicate m 0,
      bw_wheel_rate_q12 = replicate m 0, bw_wheel_pos = 0, bw_battery = 0, bw_gating_field = 0,
      bw_orientation_nz = False, bw_role_right = role_right, bw_torque_is_current = False\<rparr>"

definition law_scale :: "int \<Rightarrow> bool \<Rightarrow> int" where
  "law_scale battery torque_is_current = (if torque_is_current then NOMINAL_SCALE else battery)"

definition side_is_right :: "u8 \<Rightarrow> bool" where
  "side_is_right b \<longleftrightarrow> b = 1"

section \<open>The state of a board\<close>

record phase_window =
  pw_peak :: int
  pw_mean :: int
  pw_duty_on :: u16

record board_identity =
  bi_boot_tag :: u8
  bi_chip :: chip_tag
  bi_config_fault :: bool

record ('f, 'o) board =
  os_mahony :: "('f, 'o) mahony"
  os_attitude :: "('f, 'o) att_output"
  os_imu_configured :: bool
  os_imu_staged :: bool
  os_imu_live :: bool
  os_imu_health :: imu_health
  os_inbox :: link_inbox
  os_latches :: "fault_latch list"
  os_mode :: mode_machine
  os_button :: line_bank
  os_button_pressed :: bool
  os_pads :: pad_bank
  os_pad_field :: u8
  os_rider_present :: bool
  os_control_ticks :: u32
  os_cyclic_since_tx :: u32
  os_cyclic_due :: bool
  os_ble_cyclic_since_tx :: u32
  os_ble_cyclic_due :: bool
  os_ble_peer_since_tx :: u32
  os_ble_peer_due :: bool
  os_input_ticks :: u32
  os_enact_inits :: u32
  os_enact_shutdowns :: u32
  os_ctl :: "'f control_ctl"
  os_block :: block_words
  os_motor_fault :: u16
  os_motor_moving :: bool
  os_vbatt :: "local_sense option"
  os_vbatt_raw :: u16
  os_events :: fault_events
  os_own_levels :: u16
  os_tilt_latch :: bool
  os_phase :: "phase_window list"
  os_odometer :: u32
  os_identity :: board_identity
  os_machine :: machine

section \<open>What the state says\<close>

definition motors :: "('f, 'o) board \<Rightarrow> nat" where
  "motors s = length (ct_wheel_demand (os_ctl s))"

definition power_request :: "('f, 'o) board \<Rightarrow> bool" where
  "power_request s \<longleftrightarrow> os_button_pressed s \<or> remote_power_request (os_inbox s)"

definition imu_read_due :: "('f, 'o) board \<Rightarrow> u32 \<Rightarrow> bool" where
  "imu_read_due s tick \<longleftrightarrow> \<not> imu_backoff (os_imu_health s) \<or> tick mod IMU_PROBE_CADENCE = 0"

definition raise_over_current :: "('f, 'o) board \<Rightarrow> nat \<Rightarrow> ('f, 'o) board" where
  "raise_over_current s motor =
     s\<lparr>os_latches := (os_latches s)[motor := (os_latches s ! motor)\<lparr>fl_code := CODE_OVERCURRENT\<rparr>]\<rparr>"

definition set_ext_trip :: "('f, 'o) board \<Rightarrow> nat \<Rightarrow> bool \<Rightarrow> ('f, 'o) board" where
  "set_ext_trip s motor level =
     s\<lparr>os_latches := (os_latches s)[motor := (os_latches s ! motor)\<lparr>fl_ext_trip := (if level then 1 else 0)\<rparr>]\<rparr>"

definition effective_drive :: "link_inbox \<Rightarrow> nat \<Rightarrow> int \<times> int" where
  "effective_drive b motor =
     (case inbox_drive b motor of
        Some d \<Rightarrow> if dc_kind d = drive_kind.Throttle \<and> \<not> drive_stale b motor then (dc_value d, dc_steer d) else (0, 0)
      | None \<Rightarrow> (0, 0))"

definition rider_level :: "('f, 'o) board \<Rightarrow> bool" where
  "rider_level s \<longleftrightarrow>
     os_rider_present s \<or> remote_rider_present (os_inbox s) \<or>
     (case li_peer (os_inbox s) of Some p \<Rightarrow> cs_rider_present p | None \<Rightarrow> False)"

definition effective_rider :: "('f, 'o) board \<Rightarrow> bool" where
  "effective_rider s \<longleftrightarrow> \<not> cd_rider_required (ct_dispatch (os_ctl s)) \<or> rider_level s"

definition mode_fault_level :: "('f, 'o) board \<Rightarrow> bool" where
  "mode_fault_level s \<longleftrightarrow>
     cd_mode_fault (ct_dispatch (os_ctl s)) \<or>
     (cd_mode (ct_dispatch (os_ctl s)) = Leader \<and>
      (case rigid_peer (os_inbox s) of Some p \<Rightarrow> cs_leader p | None \<Rightarrow> False))"

definition is_rigid :: "producer \<Rightarrow> bool" where
  "is_rigid p \<longleftrightarrow> p = Leader \<or> p = Follower"

definition peer_down_level :: "('f, 'o) board \<Rightarrow> bool" where
  "peer_down_level s \<longleftrightarrow>
     is_rigid (cd_mode (ct_dispatch (os_ctl s))) \<and>
     (case rigid_peer (os_inbox s) of Some p \<Rightarrow> cs_fault p AND FAULT_A_BITS \<noteq> 0 | None \<Rightarrow> False)"

section \<open>The control dispatch\<close>

definition out_to_centi :: "('f, 'o) q_ops \<Rightarrow> 'o \<Rightarrow> int" where
  "out_to_centi Q deg = as_i16 (clamp (drop_bit 16 (mul64 (q_out_bits Q deg) 100)) (- 32768) 32767)"

definition fix_from_out :: "('f, 'o) q_ops \<Rightarrow> 'o \<Rightarrow> 'f" where
  "fix_from_out Q deg = q_of_bits Q (as_i64 (push_bit 16 (q_out_bits Q deg)))"

definition run_shell :: "('f, 'o) q_ops \<Rightarrow> 'f control_ctl \<Rightarrow> 'f fsm_inputs \<Rightarrow> 'f control_ctl \<times> int" where
  "run_shell Q c inp =
     (let c = c\<lparr>ct_pre_env_ref := as_i16 (clamp (fi_smoothed_ref inp) (- 32768) 32767)\<rparr>
      in case fsm_step (q_fix Q) inp (profile_of STANDBY_SET) (ct_fsm c) of (fsm, t) \<Rightarrow> (c\<lparr>ct_fsm := fsm\<rparr>, t))"

definition latch_a_fires :: "('f, 'o) board \<Rightarrow> bool" where
  "latch_a_fires s \<longleftrightarrow> is_latched (os_latches s ! 0)"

definition peer_speed :: "('f, 'o) board \<Rightarrow> int" where
  "peer_speed s = (case li_peer (os_inbox s) of Some p \<Rightarrow> cs_wheel_speed p | None \<Rightarrow> 0)"

definition gated_inputs :: "('f, 'o) q_ops \<Rightarrow> ('f, 'o) board \<Rightarrow> bool \<Rightarrow> int \<Rightarrow> int \<Rightarrow> 'f fsm_inputs" where
  "gated_inputs Q s run reference gate =
     \<lparr>fi_orientation_nz = bw_orientation_nz (os_block s), fi_upright_ref = q_zero Q, fi_pre_gate_clear = True,
      fi_smoothed_ref = reference, fi_gating_field = gate, fi_rider_present = True, fi_battery_ok = True,
      fi_over_current = (latch_a_fires s \<or> peer_lockdown (os_inbox s)), fi_stall = False,
      fi_comms_loss = inbox_comms_loss (os_inbox s), fi_tilt = os_tilt_latch s, fi_enable_bytes_clear = True,
      fi_power_enable = run, fi_stop_byte = peer_lockdown (os_inbox s), fi_winddown_enables_clear = False,
      fi_promote_condition = False, fi_ref_9c = bw_pitch_rate (os_block s), fi_ref_34 = bw_wheel_speed (os_block s) ! 0,
      fi_ref_36 = peer_speed s, fi_feedback_fb = 0, fi_pid_scale = bw_battery (os_block s), fi_pid_kd = q_zero Q\<rparr>"

definition run_gated_shell :: "('f, 'o) q_ops \<Rightarrow> ('f, 'o) board \<Rightarrow> bool \<Rightarrow> int \<Rightarrow> int \<Rightarrow> ('f, 'o) board \<times> int" where
  "run_gated_shell Q s run reference gate =
     (case run_shell Q (os_ctl s) (gated_inputs Q s run reference gate) of (c, t) \<Rightarrow> (s\<lparr>os_ctl := c\<rparr>, t))"

definition law_config :: "'f control_ctl \<Rightarrow> sf_config" where
  "law_config c =
     \<lparr>sfc_gains = shadow_gains (ct_gains c), sfc_speed_max = shadow_reference (ct_gains c) ! 0,
      sfc_speed_slew = shadow_reference (ct_gains c) ! 1, sfc_pos_clamp = ct_pos_clamp c\<rparr>"

definition law_inputs :: "('f, 'o) board \<Rightarrow> bool \<Rightarrow> int \<Rightarrow> sf_inputs" where
  "law_inputs s run drive_value =
     \<lparr>sfi_pitch_word = bw_pitch_word (os_block s), sfi_pitch_rate = bw_pitch_rate (os_block s),
      sfi_wheel_rate_q12 = bw_wheel_rate_q12 (os_block s) ! 0, sfi_wheel_pos = bw_wheel_pos (os_block s),
      sfi_peer_pos = (case peer_wheel_pos (os_inbox s) of Some p \<Rightarrow> p | None \<Rightarrow> 0),
      sfi_role_right = bw_role_right (os_block s), sfi_value = drive_value,
      sfi_scale = law_scale (bw_battery (os_block s)) (bw_torque_is_current (os_block s)),
      sfi_in_run = (run \<and> fs_sub_state (ct_fsm (os_ctl s)) = sub_state.Run)\<rparr>"

text \<open>The leader's partner gate, the machine's inputs, and the turn the leader slews.\<close>

definition partner_ok :: "('f, 'o) board \<Rightarrow> bool" where
  "partner_ok s \<longleftrightarrow>
     cd_mode (ct_dispatch (os_ctl s)) \<noteq> Leader \<or>
     os_imu_configured s \<and>
     (case rigid_peer (os_inbox s) of Some p \<Rightarrow> cs_follower p \<and> \<not> cs_leader p | None \<Rightarrow> False)"

definition balance_inputs :: "('f, 'o) q_ops \<Rightarrow> ('f, 'o) board \<Rightarrow> bool \<Rightarrow> int \<Rightarrow> 'f fsm_inputs" where
  "balance_inputs Q s run word =
     \<lparr>fi_orientation_nz = bw_orientation_nz (os_block s), fi_upright_ref = fix_from_out Q (ao_pitch (os_attitude s)),
      fi_pre_gate_clear = True, fi_smoothed_ref = word,
      fi_gating_field = (if partner_ok s then bw_gating_field (os_block s) else 0), fi_rider_present = effective_rider s,
      fi_battery_ok = battery_ok (ct_dispatch (os_ctl s)) (bw_battery (os_block s)),
      fi_over_current = (latch_a_fires s \<or> peer_lockdown (os_inbox s)), fi_stall = False,
      fi_comms_loss = inbox_comms_loss (os_inbox s), fi_tilt = os_tilt_latch s, fi_enable_bytes_clear = True,
      fi_power_enable = run, fi_stop_byte = peer_lockdown (os_inbox s), fi_winddown_enables_clear = (\<not> effective_rider s),
      fi_promote_condition = False, fi_ref_9c = bw_pitch_rate (os_block s),
      fi_ref_34 = bw_wheel_speed (os_block s) ! 0, fi_ref_36 = peer_speed s, fi_feedback_fb = 0,
      fi_pid_scale = bw_battery (os_block s), fi_pid_kd = q_zero Q\<rparr>"

definition leader_turn :: "'f control_ctl \<Rightarrow> int \<Rightarrow> 'f control_ctl" where
  "leader_turn c steer =
     (if cd_mode (ct_dispatch c) = Leader then c\<lparr>ct_turn := turn_step (ct_drive_turn c) steer (ct_turn c)\<rparr> else c)"

definition balance_step :: "('f, 'o) q_ops \<Rightarrow> ('f, 'o) board \<Rightarrow> bool \<Rightarrow> ('f, 'o) board \<times> int" where
  "balance_step Q s run =
     (case effective_drive (os_inbox s) 0 of (drive_value, drive_steer) \<Rightarrow>
        let c = leader_turn (os_ctl s) drive_steer
        in case sf_step (law_config c) (law_inputs s run drive_value) (ct_sf c) of (sf, word) \<Rightarrow>
             case run_shell Q (c\<lparr>ct_sf := sf\<rparr>) (balance_inputs Q s run word) of (c, t) \<Rightarrow> (s\<lparr>os_ctl := c\<rparr>, t))"

text \<open>The references of the motors from \<open>m\<close> on, each from its own drive slot through its own conditioner.\<close>

fun throttle_refs :: "throttle_config \<Rightarrow> link_inbox \<Rightarrow> bool \<Rightarrow> nat list \<Rightarrow> control_dispatch \<Rightarrow> control_dispatch \<times> int list" where
  "throttle_refs cfg b right [] d = (d, [])"
| "throttle_refs cfg b right (m # ms) d =
     (case effective_drive b m of (speed_cmd, steer_cmd) \<Rightarrow>
        case throttle_reference d m cfg speed_cmd steer_cmd of (d, out) \<Rightarrow>
          case throttle_refs cfg b right ms d of (d, refs) \<Rightarrow>
            (d, (if right then to_ref_right out else to_ref_left out) # refs))"

definition demand_magnitude :: "int list \<Rightarrow> int" where
  "demand_magnitude refs = (case map iabs refs of [] \<Rightarrow> 0 | x # xs \<Rightarrow> foldl max x xs)"

definition throttle_step :: "('f, 'o) q_ops \<Rightarrow> ('f, 'o) board \<Rightarrow> bool \<Rightarrow> ('f, 'o) board \<times> int \<times> int list" where
  "throttle_step Q s run =
     (let c = os_ctl s;
          (d, refs) = throttle_refs (ct_throttle_cfg c) (os_inbox s) (bw_role_right (os_block s)) [0..<motors s] (ct_dispatch c);
          s = s\<lparr>os_ctl := c\<lparr>ct_dispatch := d\<rparr>\<rparr>;
          demand_gate = as_i16 (clamp (demand_magnitude refs) 0 32767);
          driven = (fs_sub_state (ct_fsm (os_ctl s)) \<noteq> sub_state.Idle);
          (s, setpoint) = run_gated_shell Q s run (refs ! 0) demand_gate;
          env = fs_env (ct_fsm (os_ctl s))
      in (s, setpoint, map (\<lambda>r. if driven then as_i16 (clamp r (neg32 env) env) else 0) (tl refs)))"

definition follower_step :: "('f, 'o) q_ops \<Rightarrow> ('f, 'o) board \<Rightarrow> bool \<Rightarrow> ('f, 'o) board \<times> int" where
  "follower_step Q s run =
     (let leader = (case rigid_peer (os_inbox s) of Some p \<Rightarrow> if cs_leader p then Some p else None | None \<Rightarrow> None);
          demand = (case leader of Some p \<Rightarrow> cs_peer_demand p | None \<Rightarrow> 0);
          gate = (case leader of Some p \<Rightarrow> if cs_mode p = mode_byte_of mode.Run then FOLLOWER_GATE else 0 | None \<Rightarrow> 0)
      in run_gated_shell Q s run demand gate)"

definition control_dispatch_step :: "('f, 'o) q_ops \<Rightarrow> ('f, 'o) board \<Rightarrow> bool \<Rightarrow> ('f, 'o) board \<times> int list" where
  "control_dispatch_step Q s run =
     (let p = cd_mode (ct_dispatch (os_ctl s));
          (s, setpoint, others) =
            (case p of
               ThrottleProducer \<Rightarrow> throttle_step Q s run
             | Follower \<Rightarrow> (case follower_step Q s run of (s', t) \<Rightarrow> (s', t, replicate (motors s - 1) 0))
             | _ \<Rightarrow> (case balance_step Q s run of (s', t) \<Rightarrow> (s', t, replicate (motors s - 1) 0)));
          (own, peer) =
            (if p = Leader then wheel_split setpoint (ct_turn (os_ctl s)) (bw_role_right (os_block s)) else (setpoint, 0));
          stale = (is_rigid p \<and> rigid_peer (os_inbox s) = None);
          demands = (if stale then 0 else own) # others
      in (s\<lparr>os_ctl := (os_ctl s)\<lparr>ct_wheel_demand := demands, ct_peer_demand := (if stale then 0 else peer)\<rparr>\<rparr>, demands))"

definition reset_engagement :: "('f, 'o) q_ops \<Rightarrow> 'f control_ctl \<Rightarrow> 'f control_ctl" where
  "reset_engagement Q c = c\<lparr>ct_fsm := fsm_default (q_fix Q), ct_turn := 0\<rparr>"

definition re_apply_control_values :: "('f, 'o) q_ops \<Rightarrow> ('f, 'o) board \<Rightarrow> u8 \<Rightarrow> u8 \<Rightarrow> u8 \<Rightarrow> u8 \<Rightarrow> u8 \<Rightarrow> int \<Rightarrow> int \<Rightarrow>
    ('f, 'o) board" where
  "re_apply_control_values Q s mode_byte frame_byte leader_byte side_byte rider_byte battery_floor pclamp =
     (let s = s\<lparr>os_block := (os_block s)\<lparr>bw_role_right := side_is_right side_byte\<rparr>\<rparr>;
          c = (os_ctl s)\<lparr>ct_pos_clamp := pos_clamp pclamp\<rparr>;
          (d, changed) = re_apply_values (ct_dispatch c) mode_byte frame_byte leader_byte (os_imu_configured s) rider_byte battery_floor;
          c = c\<lparr>ct_dispatch := d\<rparr>;
          c = (if changed then reset_engagement Q (c\<lparr>ct_sf := sf_default\<rparr>) else c)
      in s\<lparr>os_ctl := c\<rparr>)"

text \<open>The control part of the arm row, and what the firmware's arm-row function installs of it into the board.\<close>

record arm_control =
  ar_mode_byte :: u8
  ar_frame_byte :: u8
  ar_leader_byte :: u8
  ar_side_byte :: u8
  ar_rider_byte :: u8
  ar_battery_floor :: int
  ar_drive_turn :: drive_turn
  ar_gain_max :: "int list"
  ar_pos_clamp :: int

definition install_arm_control :: "('f, 'o) q_ops \<Rightarrow> ('f, 'o) board \<Rightarrow> arm_control \<Rightarrow> ('f, 'o) board" where
  "install_arm_control Q s r =
     (let s = re_apply_control_values Q s (ar_mode_byte r) (ar_frame_byte r) (ar_leader_byte r) (ar_side_byte r) (ar_rider_byte r)
                (ar_battery_floor r) (ar_pos_clamp r)
      in s\<lparr>os_ctl := (os_ctl s)\<lparr>ct_drive_turn := ar_drive_turn r, ct_gains := re_apply_max (ct_gains (os_ctl s)) (ar_gain_max r)\<rparr>,
           os_machine := machine_armed (os_machine s)\<rparr>)"

section \<open>The frames a board emits\<close>

definition cyclic_flags :: "('f, 'o) board \<Rightarrow> u8" where
  "cyclic_flags s =
     (let flags = machine_flags (os_machine s);
          flags = (if os_rider_present s then flags OR FLAG_RIDER else flags)
      in case cd_mode (ct_dispatch (os_ctl s)) of
           Leader \<Rightarrow> flags OR FLAG_LEADER
         | Follower \<Rightarrow> flags OR FLAG_FOLLOWER
         | _ \<Rightarrow> flags)"

definition cyclic_of :: "('f, 'o) board \<Rightarrow> cyclic_state" where
  "cyclic_of s =
     \<lparr>cs_pitch = bw_pitch_word (os_block s), cs_roll = bw_roll_word (os_block s),
      cs_wheel_speed = bw_wheel_speed (os_block s) ! 0, cs_battery = word_of_int (bw_battery (os_block s)),
      cs_mode = mode_byte_of (mm_mode (os_mode s)), cs_fault = os_own_levels s, cs_flags = cyclic_flags s,
      cs_peer_demand = ct_peer_demand (os_ctl s), cs_wheel_pos = as_i16 (bw_wheel_pos (os_block s)),
      cs_obs = \<lparr>ob_phase_peak = pw_peak (os_phase s ! 0), ob_phase_mean = pw_mean (os_phase s ! 0),
                ob_duty_on = pw_duty_on (os_phase s ! 0), ob_boot_tag = bi_boot_tag (os_identity s),
                ob_chip = bi_chip (os_identity s), ob_odometer = os_odometer s\<rparr>,
      cs_wheel_rate = bw_wheel_rate_q12 (os_block s) ! 0, cs_machine = machine_digest_word (os_machine s)\<rparr>"

definition cyclic_tx :: "('f, 'o) board \<Rightarrow> bool \<Rightarrow> cyclic_state option" where
  "cyclic_tx s addressed = (if \<not> addressed then None else if \<not> os_cyclic_due s then None else Some (cyclic_of s))"

definition ble_cyclic_tx :: "('f, 'o) board \<Rightarrow> bool \<Rightarrow> cyclic_state option" where
  "ble_cyclic_tx s addressed = (if \<not> addressed then None else if \<not> os_ble_cyclic_due s then None else Some (cyclic_of s))"

definition ble_peer_tx :: "('f, 'o) board \<Rightarrow> bool \<Rightarrow> (u8 \<times> cyclic_state) option" where
  "ble_peer_tx s addressed = (if \<not> addressed \<or> \<not> os_ble_peer_due s then None else fresh_peer (os_inbox s))"

definition cyclic_motor_of :: "('f, 'o) board \<Rightarrow> nat \<Rightarrow> cyclic_motor" where
  "cyclic_motor_of s motor =
     \<lparr>cm_wheel_speed = bw_wheel_speed (os_block s) ! motor, cm_phase_peak = pw_peak (os_phase s ! motor),
      cm_phase_mean = pw_mean (os_phase s ! motor), cm_duty_on = pw_duty_on (os_phase s ! motor),
      cm_wheel_rate = bw_wheel_rate_q12 (os_block s) ! motor\<rparr>"

section \<open>The control task\<close>

text \<open>Step 1: the read health, on the passes that serve a new tick.\<close>

definition task_health :: "('f, 'o) board \<Rightarrow> bool \<Rightarrow> bool \<Rightarrow> ('f, 'o) board" where
  "task_health s read_ok served =
     (if served then
        s\<lparr>os_imu_live := (os_imu_configured s \<and> read_ok),
          os_imu_health := imu_update (os_imu_health s) (os_imu_configured s) read_ok\<rparr>
      else s)"

text \<open>Step 2: the attitude and the words it writes.\<close>

definition task_attitude :: "('f, 'o) q_ops \<Rightarrow> ('f, 'o) board \<Rightarrow> 'f imu_sample option \<Rightarrow> u32 \<Rightarrow> ('f, 'o) board" where
  "task_attitude Q s smp dt_ticks =
     (case smp of
        None \<Rightarrow> s
      | Some x \<Rightarrow>
          if dt_ticks > 0 then
            let accel = map (\<lambda>i. q_lit Q (sm_accel_raw x ! i) 1) [0, 1, 2];
                (m, out) = update_dt Q (os_mahony s) (sm_gyro x) accel dt_ticks;
                (g, gate) = gating_tick (q_fix Q) (q_lit Q (sm_accel_raw x ! UP_AXIS) 1) (ct_gating (os_ctl s));
                rate = as_i32 (q_to_int_d2iz (q_fix Q)
                                 (fx_mul (q_fix Q) (sm_gyro x ! PITCH_RATE_AXIS) (q_lit Q 10000 1)))
            in s\<lparr>os_mahony := m, os_attitude := out,
                 os_block := (os_block s)\<lparr>bw_pitch_word := out_to_centi Q (ao_pitch out),
                                          bw_roll_word := out_to_centi Q (ao_roll out), bw_pitch_rate := rate,
                                          bw_gating_field := gate\<rparr>,
                 os_ctl := (os_ctl s)\<lparr>ct_gating := g\<rparr>\<rparr>
          else s)"

text \<open>Step 3: the ages of the inbox, and the three emission cadences on the same clock.\<close>

definition cadence :: "u32 \<Rightarrow> u32 \<Rightarrow> u32 \<Rightarrow> u32 \<times> bool" where
  "cadence since dt_ticks period =
     (let since = sat_add since dt_ticks; due = (since \<ge> period) in (if due then 0 else since, due))"

definition task_clocks :: "('f, 'o) board \<Rightarrow> u32 \<Rightarrow> ('f, 'o) board" where
  "task_clocks s dt_ticks =
     (let s = s\<lparr>os_inbox := tick_ages (os_inbox s) (dt_ticks > 0)\<rparr>;
          (a, a_due) = cadence (os_cyclic_since_tx s) dt_ticks CYCLIC_EMIT_TICKS;
          (b, b_due) = cadence (os_ble_cyclic_since_tx s) dt_ticks BLE_CYCLIC_DIVISOR;
          (c, c_due) = cadence (os_ble_peer_since_tx s) dt_ticks BLE_PEER_CYCLIC_TICKS
      in s\<lparr>os_cyclic_since_tx := a, os_cyclic_due := a_due, os_ble_cyclic_since_tx := b, os_ble_cyclic_due := b_due,
           os_ble_peer_since_tx := c, os_ble_peer_due := c_due\<rparr>)"

definition task_battery :: "('f, 'o) board \<Rightarrow> ('f, 'o) board" where
  "task_battery s =
     (let sensed = map_option (\<lambda>v. sense_step v (os_vbatt_raw s)) (os_vbatt s)
      in s\<lparr>os_vbatt := map_option fst sensed,
           os_block := (os_block s)\<lparr>bw_battery :=
             battery_source (map_option snd sensed) (li_peer (os_inbox s)) (\<not> inbox_comms_loss (os_inbox s))\<rparr>\<rparr>)"

text \<open>Step 4: the latches, fed the sub-state and the wheel words.\<close>

fun sub_state_byte :: "sub_state \<Rightarrow> u8" where
  "sub_state_byte sub_state.Idle = 0"
| "sub_state_byte Arming = 1"
| "sub_state_byte AltEngaged = 2"
| "sub_state_byte sub_state.Run = 3"

definition task_latches :: "('f, 'o) board \<Rightarrow> ('f, 'o) board" where
  "task_latches s =
     (let a = sub_state_byte (fs_sub_state (ct_fsm (os_ctl s)));
          en = (if mm_mode (os_mode s) = mode.Run then 1 else 0)
      in s\<lparr>os_latches :=
             map2 (\<lambda>l w. latch_tick (l\<lparr>fl_running_enable := en, fl_a_substate := a, fl_b_motion := word_of_int w\<rparr>))
               (os_latches s) (bw_wheel_speed (os_block s))\<rparr>)"

text \<open>Step 5: the levels, each producer read once.\<close>

definition task_tilt :: "('f, 'o) board \<Rightarrow> ('f, 'o) board" where
  "task_tilt s =
     s\<lparr>os_tilt_latch := (os_tilt_latch s \<or>
        os_imu_configured s \<and> tilt_cutout (bw_pitch_word (os_block s)) (bw_roll_word (os_block s)))\<rparr>"

definition board_levels :: "('f, 'o) board \<Rightarrow> levels" where
  "board_levels s =
     \<lparr>lv_comms_loss = inbox_comms_loss (os_inbox s), lv_imu_loss = ih_loss (os_imu_health s), lv_motor = os_motor_fault s,
      lv_latch_a = latch_a_fires s, lv_latch_b = (1 < length (os_latches s) \<and> is_latched (os_latches s ! 1)),
      lv_mode_fault = mode_fault_level s, lv_power_request = power_request s, lv_peer_down = peer_down_level s,
      lv_tilt = os_tilt_latch s, lv_config = bi_config_fault (os_identity s), lv_machine = disagrees (os_machine s)\<rparr>"

definition board_mode_inputs :: "('f, 'o) board \<Rightarrow> levels \<Rightarrow> mode_inputs" where
  "board_mode_inputs s l =
     \<lparr>mi_power_request = lv_power_request l, mi_fault_a = lv_fault_a l, mi_fault_b = lv_fault_b l,
      mi_off_inhibit = (os_motor_moving s \<or> lv_machine l)\<rparr>"

text \<open>The pass up to the mode machine's answer.\<close>

definition task_inputs :: "('f, 'o) q_ops \<Rightarrow> ('f, 'o) board \<Rightarrow> 'f imu_sample option \<Rightarrow> u32 \<Rightarrow> ('f, 'o) board" where
  "task_inputs Q s smp dt_ticks =
     (let s = task_health s (smp \<noteq> None) (dt_ticks > 0);
          s = task_attitude Q s smp dt_ticks;
          s = task_clocks s dt_ticks;
          s = task_battery s;
          s = task_latches s
      in task_tilt s)"

definition task_mode :: "('f, 'o) board \<Rightarrow> ('f, 'o) board \<times> tick_outcome" where
  "task_mode s =
     (let l = board_levels s;
          s = s\<lparr>os_events := events_tick (os_events s) (level_mask l), os_own_levels := own_mask l\<rparr>;
          (m, out) = mode_tick (os_mode s) (board_mode_inputs s l)
      in (s\<lparr>os_mode := m\<rparr>, out))"

text \<open>The OFF pass: the latches clear and the engagement resets; the tilt latch waits for the request to drop.\<close>

definition task_off :: "('f, 'o) q_ops \<Rightarrow> ('f, 'o) board \<Rightarrow> bool \<Rightarrow> bool \<Rightarrow> ('f, 'o) board" where
  "task_off Q s off_pass requested =
     (let s = (if off_pass then
                 s\<lparr>os_latches := map (\<lambda>_. fault_latch_new) (os_latches s), os_ctl := reset_engagement Q (os_ctl s)\<rparr>
               else s)
      in if off_pass \<and> \<not> requested then s\<lparr>os_tilt_latch := False\<rparr> else s)"

record control_output =
  co_mode_byte :: u8
  co_moe :: "bool list"
  co_init :: "bool option"
  co_shutdown :: "bool option"
  co_comms_loss :: bool
  co_imu_loss :: bool
  co_torque_setpoint :: "int list"
  co_sub_state :: u8
  co_off_request_clear :: bool

definition control_task :: "('f, 'o) q_ops \<Rightarrow> ('f, 'o) board \<Rightarrow> 'f imu_sample option \<Rightarrow> u32 \<Rightarrow>
    ('f, 'o) board \<times> control_output" where
  "control_task Q s smp dt_ticks =
     (let s = task_inputs Q s smp dt_ticks;
          l = board_levels s;
          (s, out) = task_mode s;
          off_pass = (to_mode out = Off);
          s = task_off Q s off_pass (lv_power_request l);
          s = (if to_bringup out \<noteq> None then s\<lparr>os_enact_inits := os_enact_inits s + 1\<rparr> else s);
          s = (if to_safedown out \<noteq> None then s\<lparr>os_enact_shutdowns := os_enact_shutdowns s + 1\<rparr> else s);
          (s, demands) = control_dispatch_step Q s (to_mode out = mode.Run);
          s = s\<lparr>os_control_ticks := os_control_ticks s + 1\<rparr>
      in (s, \<lparr>co_mode_byte = mode_byte_of (to_mode out), co_moe = map (moe_allowed (os_mode s)) [0..<motors s],
              co_init = to_bringup out, co_shutdown = to_safedown out, co_comms_loss = lv_comms_loss l,
              co_imu_loss = lv_imu_loss l, co_torque_setpoint = demands,
              co_sub_state = sub_state_byte (fs_sub_state (ct_fsm (os_ctl s))),
              co_off_request_clear = (off_pass \<and> \<not> lv_power_request l)\<rparr>))"

section \<open>The input task\<close>

record input_sample =
  is_button :: bool
  is_pad_a :: bool
  is_pad_b :: bool

definition input_task :: "('f, 'o) board \<Rightarrow> input_sample \<Rightarrow> ('f, 'o) board" where
  "input_task s x =
     (let s = s\<lparr>os_button := bank_update (os_button s) (if is_button x then 0b1 else 0)\<rparr>;
          s = s\<lparr>os_button_pressed := bank_pressed (os_button s) 0\<rparr>;
          (p, f) = pad_bank_update (os_pads s) (is_pad_a x) (is_pad_b x);
          s = s\<lparr>os_pads := p, os_pad_field := f\<rparr>;
          s = s\<lparr>os_rider_present := (os_pad_field s = PAD_A_BIT OR PAD_B_BIT)\<rparr>
      in s\<lparr>os_input_ticks := os_input_ticks s + 1\<rparr>)"

section \<open>A board at boot\<close>

text \<open>The registered defaults of the arm row.\<close>

definition CONTROL_MODE_DEFAULT :: u8 where "CONTROL_MODE_DEFAULT = 0"
definition CONTROL_FRAME_DEFAULT :: u8 where "CONTROL_FRAME_DEFAULT = 0"
definition CONTROL_LEADER_DEFAULT :: u8 where "CONTROL_LEADER_DEFAULT = 0"
definition CONTROL_SIDE_DEFAULT :: u8 where "CONTROL_SIDE_DEFAULT = 0"
definition CONTROL_POS_CLAMP_DEFAULT :: int where "CONTROL_POS_CLAMP_DEFAULT = 45"
definition CONTROL_DRIVE_TURN_DEFAULT :: "int \<times> int" where "CONTROL_DRIVE_TURN_DEFAULT = (0, 24)"
definition CONTROL_RIDER_REQUIRED_DEFAULT :: u8 where "CONTROL_RIDER_REQUIRED_DEFAULT = 1"
definition BOARD_BATTERY_FLOOR_DEFAULT :: int where "BOARD_BATTERY_FLOOR_DEFAULT = 2400"

definition phase_zero :: phase_window where
  "phase_zero = \<lparr>pw_peak = 0, pw_mean = 0, pw_duty_on = 0\<rparr>"

definition board_new :: "('f, 'o) q_ops \<Rightarrow> nat \<Rightarrow> bool \<Rightarrow> bool \<Rightarrow> ('f, 'o) att_config \<Rightarrow> gain_shadow \<Rightarrow> vbatt_cal option \<Rightarrow>
    board_identity \<Rightarrow> machine \<Rightarrow> ('f, 'o) board" where
  "board_new Q m imu_configured asked attitude_cfg gains cal identity mach =
     \<lparr>os_mahony = mahony_new Q attitude_cfg, os_attitude = att_output_default Q, os_imu_configured = imu_configured,
      os_imu_staged = asked, os_imu_live = False, os_imu_health = imu_health_new, os_inbox = inbox_new m,
      os_latches = replicate m fault_latch_new, os_mode = mode_machine_new m, os_button = bank_new N_BUTTON_LINES,
      os_button_pressed = False, os_pads = pad_bank_new, os_pad_field = 0, os_rider_present = False,
      os_control_ticks = 0, os_cyclic_since_tx = 0, os_cyclic_due = True, os_ble_cyclic_since_tx = 0,
      os_ble_cyclic_due = True, os_ble_peer_since_tx = 0, os_ble_peer_due = False, os_input_ticks = 0,
      os_enact_inits = 0, os_enact_shutdowns = 0,
      os_ctl = control_ctl_new Q m CONTROL_MODE_DEFAULT CONTROL_FRAME_DEFAULT CONTROL_LEADER_DEFAULT imu_configured gains
        CONTROL_POS_CLAMP_DEFAULT (drive_turn_new (fst CONTROL_DRIVE_TURN_DEFAULT) (snd CONTROL_DRIVE_TURN_DEFAULT))
        CONTROL_RIDER_REQUIRED_DEFAULT BOARD_BATTERY_FLOOR_DEFAULT,
      os_block = block_words_new m (side_is_right CONTROL_SIDE_DEFAULT), os_motor_fault = 0, os_motor_moving = False,
      os_vbatt = map_option local_sense_new cal, os_vbatt_raw = 0, os_events = fault_events_new, os_own_levels = 0,
      os_tilt_latch = False, os_phase = replicate m phase_zero, os_odometer = 0, os_identity = identity,
      os_machine = mach\<rparr>"

end
