(* ===== verification/OrchestraProps.thy ===== *)
theory OrchestraProps
  imports Orchestra EngageProps BalanceProps
begin

unbundle bit_operations_syntax

text \<open>
  What the pipeline of one board guarantees over any interleaving of its passes, its input passes, frames from the
  link and the words its firmware writes between them: the bound of every wheel demand, what a fault does, what a
  fall does, and that a catch-up burst neither ages nor emits.
\<close>

section \<open>Histories of a board\<close>

text \<open>The events are the two tasks and everything the firmware's shell writes into the state between them.\<close>

datatype 'f board_event =
    ControlPass "'f imu_sample option" u32
  | InputPass input_sample
  | FrameIn u8 payload
  | MotorWords u16 bool "int list" "int list" int
  | BatteryWord u16
  | OverCurrent nat
  | ExtTrip nat bool
  | ArmRow arm_control
  | GainWords gain_shadow
  | Observed "phase_window list" u32 bool
  | PeerDigest nat u16
  | Persisted digests

fun board_step :: "('f, 'o) q_ops \<Rightarrow> ('f, 'o) board \<Rightarrow> 'f board_event \<Rightarrow> ('f, 'o) board" where
  "board_step Q s (ControlPass smp dt) = fst (control_task Q s smp dt)"
| "board_step Q s (InputPass x) = input_task s x"
| "board_step Q s (FrameIn src p) = s\<lparr>os_inbox := inbox_accept (os_inbox s) src p\<rparr>"
| "board_step Q s (MotorWords f moving speeds rates pos) =
     s\<lparr>os_motor_fault := f, os_motor_moving := moving,
       os_block := (os_block s)\<lparr>bw_wheel_speed := speeds, bw_wheel_rate_q12 := rates, bw_wheel_pos := pos\<rparr>\<rparr>"
| "board_step Q s (BatteryWord w) = s\<lparr>os_vbatt_raw := w\<rparr>"
| "board_step Q s (OverCurrent m) = raise_over_current s m"
| "board_step Q s (ExtTrip m b) = set_ext_trip s m b"
| "board_step Q s (ArmRow r) = install_arm_control Q s r"
| "board_step Q s (GainWords g) = s\<lparr>os_ctl := (os_ctl s)\<lparr>ct_gains := g\<rparr>\<rparr>"
| "board_step Q s (Observed w odo current) =
     s\<lparr>os_phase := w, os_odometer := odo, os_block := (os_block s)\<lparr>bw_torque_is_current := current\<rparr>\<rparr>"
| "board_step Q s (PeerDigest l d) = s\<lparr>os_machine := hear (os_machine s) l d\<rparr>"
| "board_step Q s (Persisted d) = s\<lparr>os_machine := machine_persisted (os_machine s) d\<rparr>"

definition run_board :: "('f, 'o) q_ops \<Rightarrow> 'f board_event list \<Rightarrow> ('f, 'o) board \<Rightarrow> ('f, 'o) board" where
  "run_board Q es s = foldl (board_step Q) s es"

lemma run_board_simps [simp]:
  "run_board Q [] s = s"
  "run_board Q (es @ [e]) s = board_step Q (run_board Q es s) e"
  by (simp_all add: run_board_def)

section \<open>What each step leaves alone\<close>

lemma health_fields [simp]:
  "os_motor_moving (task_health s r v) = os_motor_moving s" "os_machine (task_health s r v) = os_machine s"
  "os_identity (task_health s r v) = os_identity s" "os_rider_present (task_health s r v) = os_rider_present s"
  "os_ctl (task_health s r v) = os_ctl s" "os_block (task_health s r v) = os_block s" "os_inbox (task_health s r v) = os_inbox s"
  "os_mode (task_health s r v) = os_mode s" "os_latches (task_health s r v) = os_latches s"
  "os_tilt_latch (task_health s r v) = os_tilt_latch s" "os_imu_configured (task_health s r v) = os_imu_configured s"
  "os_cyclic_since_tx (task_health s r v) = os_cyclic_since_tx s" "os_ble_cyclic_since_tx (task_health s r v) = os_ble_cyclic_since_tx s"
  "os_ble_peer_since_tx (task_health s r v) = os_ble_peer_since_tx s" "os_mahony (task_health s r v) = os_mahony s"
  "os_attitude (task_health s r v) = os_attitude s" "os_button_pressed (task_health s r v) = os_button_pressed s"
  "os_motor_fault (task_health s r v) = os_motor_fault s"
  by (simp_all add: task_health_def)

lemma attitude_fields [simp]:
  "os_motor_moving (task_attitude Q s x dt) = os_motor_moving s" "os_machine (task_attitude Q s x dt) = os_machine s"
  "os_identity (task_attitude Q s x dt) = os_identity s" "os_rider_present (task_attitude Q s x dt) = os_rider_present s"
  "os_inbox (task_attitude Q s x dt) = os_inbox s" "os_mode (task_attitude Q s x dt) = os_mode s"
  "os_latches (task_attitude Q s x dt) = os_latches s" "os_tilt_latch (task_attitude Q s x dt) = os_tilt_latch s"
  "os_imu_health (task_attitude Q s x dt) = os_imu_health s" "os_imu_live (task_attitude Q s x dt) = os_imu_live s"
  "os_imu_configured (task_attitude Q s x dt) = os_imu_configured s"
  "os_cyclic_since_tx (task_attitude Q s x dt) = os_cyclic_since_tx s"
  "os_ble_cyclic_since_tx (task_attitude Q s x dt) = os_ble_cyclic_since_tx s"
  "os_ble_peer_since_tx (task_attitude Q s x dt) = os_ble_peer_since_tx s"
  "os_button_pressed (task_attitude Q s x dt) = os_button_pressed s"
  "os_motor_fault (task_attitude Q s x dt) = os_motor_fault s"
  "ct_fsm (os_ctl (task_attitude Q s x dt)) = ct_fsm (os_ctl s)"
  "ct_dispatch (os_ctl (task_attitude Q s x dt)) = ct_dispatch (os_ctl s)"
  "ct_turn (os_ctl (task_attitude Q s x dt)) = ct_turn (os_ctl s)"
  "ct_drive_turn (os_ctl (task_attitude Q s x dt)) = ct_drive_turn (os_ctl s)"
  "ct_wheel_demand (os_ctl (task_attitude Q s x dt)) = ct_wheel_demand (os_ctl s)"
  "bw_wheel_speed (os_block (task_attitude Q s x dt)) = bw_wheel_speed (os_block s)"
  "bw_role_right (os_block (task_attitude Q s x dt)) = bw_role_right (os_block s)"
  "bw_orientation_nz (os_block (task_attitude Q s x dt)) = bw_orientation_nz (os_block s)"
  by (simp_all add: task_attitude_def Let_def split: option.split prod.split)

lemma clocks_fields [simp]:
  "os_motor_moving (task_clocks s dt) = os_motor_moving s" "os_machine (task_clocks s dt) = os_machine s"
  "os_identity (task_clocks s dt) = os_identity s" "os_rider_present (task_clocks s dt) = os_rider_present s"
  "os_ctl (task_clocks s dt) = os_ctl s" "os_block (task_clocks s dt) = os_block s" "os_mode (task_clocks s dt) = os_mode s"
  "os_latches (task_clocks s dt) = os_latches s" "os_tilt_latch (task_clocks s dt) = os_tilt_latch s"
  "os_imu_health (task_clocks s dt) = os_imu_health s" "os_imu_live (task_clocks s dt) = os_imu_live s"
  "os_imu_configured (task_clocks s dt) = os_imu_configured s" "os_mahony (task_clocks s dt) = os_mahony s"
  "os_attitude (task_clocks s dt) = os_attitude s" "os_button_pressed (task_clocks s dt) = os_button_pressed s"
  "os_motor_fault (task_clocks s dt) = os_motor_fault s"
  "os_inbox (task_clocks s dt) = tick_ages (os_inbox s) (dt > 0)"
  "os_cyclic_since_tx (task_clocks s dt) = fst (cadence (os_cyclic_since_tx s) dt CYCLIC_EMIT_TICKS)"
  "os_cyclic_due (task_clocks s dt) = snd (cadence (os_cyclic_since_tx s) dt CYCLIC_EMIT_TICKS)"
  "os_ble_cyclic_since_tx (task_clocks s dt) = fst (cadence (os_ble_cyclic_since_tx s) dt BLE_CYCLIC_DIVISOR)"
  "os_ble_cyclic_due (task_clocks s dt) = snd (cadence (os_ble_cyclic_since_tx s) dt BLE_CYCLIC_DIVISOR)"
  "os_ble_peer_since_tx (task_clocks s dt) = fst (cadence (os_ble_peer_since_tx s) dt BLE_PEER_CYCLIC_TICKS)"
  "os_ble_peer_due (task_clocks s dt) = snd (cadence (os_ble_peer_since_tx s) dt BLE_PEER_CYCLIC_TICKS)"
  by (simp_all add: task_clocks_def Let_def split: prod.split)

lemma battery_fields [simp]:
  "os_motor_moving (task_battery s) = os_motor_moving s" "os_machine (task_battery s) = os_machine s"
  "os_identity (task_battery s) = os_identity s" "os_rider_present (task_battery s) = os_rider_present s"
  "os_ctl (task_battery s) = os_ctl s" "os_inbox (task_battery s) = os_inbox s" "os_mode (task_battery s) = os_mode s"
  "os_imu_health (task_battery s) = os_imu_health s" "os_imu_live (task_battery s) = os_imu_live s" "os_imu_configured (task_battery s) = os_imu_configured s"
  "os_mahony (task_battery s) = os_mahony s" "os_attitude (task_battery s) = os_attitude s" "os_button_pressed (task_battery s) = os_button_pressed s"
  "os_motor_fault (task_battery s) = os_motor_fault s" "os_cyclic_since_tx (task_battery s) = os_cyclic_since_tx s" "os_cyclic_due (task_battery s) = os_cyclic_due s"
  "os_ble_cyclic_since_tx (task_battery s) = os_ble_cyclic_since_tx s" "os_ble_cyclic_due (task_battery s) = os_ble_cyclic_due s" "os_ble_peer_since_tx (task_battery s) = os_ble_peer_since_tx s"
  "os_ble_peer_due (task_battery s) = os_ble_peer_due s" "os_latches (task_battery s) = os_latches s" "os_tilt_latch (task_battery s) = os_tilt_latch s"
  "bw_wheel_speed (os_block (task_battery s)) = bw_wheel_speed (os_block s)"
  "bw_role_right (os_block (task_battery s)) = bw_role_right (os_block s)"
  "bw_orientation_nz (os_block (task_battery s)) = bw_orientation_nz (os_block s)"
  "bw_pitch_word (os_block (task_battery s)) = bw_pitch_word (os_block s)"
  "bw_roll_word (os_block (task_battery s)) = bw_roll_word (os_block s)"
  "bw_pitch_rate (os_block (task_battery s)) = bw_pitch_rate (os_block s)"
  "bw_gating_field (os_block (task_battery s)) = bw_gating_field (os_block s)"
  by (simp_all add: task_battery_def Let_def)

lemma latches_fields [simp]:
  "os_motor_moving (task_latches s) = os_motor_moving s" "os_machine (task_latches s) = os_machine s"
  "os_identity (task_latches s) = os_identity s" "os_rider_present (task_latches s) = os_rider_present s"
  "os_ctl (task_latches s) = os_ctl s" "os_inbox (task_latches s) = os_inbox s" "os_mode (task_latches s) = os_mode s"
  "os_imu_health (task_latches s) = os_imu_health s" "os_imu_live (task_latches s) = os_imu_live s" "os_imu_configured (task_latches s) = os_imu_configured s"
  "os_mahony (task_latches s) = os_mahony s" "os_attitude (task_latches s) = os_attitude s" "os_button_pressed (task_latches s) = os_button_pressed s"
  "os_motor_fault (task_latches s) = os_motor_fault s" "os_cyclic_since_tx (task_latches s) = os_cyclic_since_tx s" "os_cyclic_due (task_latches s) = os_cyclic_due s"
  "os_ble_cyclic_since_tx (task_latches s) = os_ble_cyclic_since_tx s" "os_ble_cyclic_due (task_latches s) = os_ble_cyclic_due s" "os_ble_peer_since_tx (task_latches s) = os_ble_peer_since_tx s"
  "os_ble_peer_due (task_latches s) = os_ble_peer_due s" "os_block (task_latches s) = os_block s" "os_tilt_latch (task_latches s) = os_tilt_latch s"
  by (simp_all add: task_latches_def Let_def)

lemma tilt_fields [simp]:
  "os_motor_moving (task_tilt s) = os_motor_moving s" "os_machine (task_tilt s) = os_machine s"
  "os_identity (task_tilt s) = os_identity s" "os_rider_present (task_tilt s) = os_rider_present s"
  "os_ctl (task_tilt s) = os_ctl s" "os_inbox (task_tilt s) = os_inbox s" "os_mode (task_tilt s) = os_mode s"
  "os_imu_health (task_tilt s) = os_imu_health s" "os_imu_live (task_tilt s) = os_imu_live s" "os_imu_configured (task_tilt s) = os_imu_configured s"
  "os_mahony (task_tilt s) = os_mahony s" "os_attitude (task_tilt s) = os_attitude s" "os_button_pressed (task_tilt s) = os_button_pressed s"
  "os_motor_fault (task_tilt s) = os_motor_fault s" "os_cyclic_since_tx (task_tilt s) = os_cyclic_since_tx s" "os_cyclic_due (task_tilt s) = os_cyclic_due s"
  "os_ble_cyclic_since_tx (task_tilt s) = os_ble_cyclic_since_tx s" "os_ble_cyclic_due (task_tilt s) = os_ble_cyclic_due s" "os_ble_peer_since_tx (task_tilt s) = os_ble_peer_since_tx s"
  "os_ble_peer_due (task_tilt s) = os_ble_peer_due s" "os_block (task_tilt s) = os_block s" "os_latches (task_tilt s) = os_latches s"
  by (simp_all add: task_tilt_def)

lemma inputs_fields [simp]:
  "os_motor_moving (task_inputs Q s x dt) = os_motor_moving s" "os_machine (task_inputs Q s x dt) = os_machine s"
  "os_identity (task_inputs Q s x dt) = os_identity s" "os_rider_present (task_inputs Q s x dt) = os_rider_present s"
  "os_mode (task_inputs Q s x dt) = os_mode s" "os_imu_configured (task_inputs Q s x dt) = os_imu_configured s"
  "os_button_pressed (task_inputs Q s x dt) = os_button_pressed s" "os_motor_fault (task_inputs Q s x dt) = os_motor_fault s"
  "os_inbox (task_inputs Q s x dt) = tick_ages (os_inbox s) (dt > 0)"
  "ct_fsm (os_ctl (task_inputs Q s x dt)) = ct_fsm (os_ctl s)"
  "ct_dispatch (os_ctl (task_inputs Q s x dt)) = ct_dispatch (os_ctl s)"
  "ct_turn (os_ctl (task_inputs Q s x dt)) = ct_turn (os_ctl s)"
  "ct_drive_turn (os_ctl (task_inputs Q s x dt)) = ct_drive_turn (os_ctl s)"
  "ct_wheel_demand (os_ctl (task_inputs Q s x dt)) = ct_wheel_demand (os_ctl s)"
  "bw_role_right (os_block (task_inputs Q s x dt)) = bw_role_right (os_block s)"
  "bw_orientation_nz (os_block (task_inputs Q s x dt)) = bw_orientation_nz (os_block s)"
  by (simp_all add: task_inputs_def Let_def)

lemma motors_inputs [simp]: "motors (task_inputs Q s x dt) = motors s"
  by (simp add: motors_def)

section \<open>What the dispatch does\<close>

lemma shell_eq:
  "run_shell Q c inp =
     (c\<lparr>ct_pre_env_ref := as_i16 (clamp (fi_smoothed_ref inp) (- 32768) 32767),
        ct_fsm := fst (fsm_step (q_fix Q) inp (profile_of STANDBY_SET) (ct_fsm c))\<rparr>,
      snd (fsm_step (q_fix Q) inp (profile_of STANDBY_SET) (ct_fsm c)))"
  by (simp add: run_shell_def Let_def split: prod.split)

text \<open>What every producer passes to the engagement machine: the stop inputs of the board, and the pass's RUN.\<close>

definition shell_inputs :: "('f, 'o) board \<Rightarrow> bool \<Rightarrow> 'f fsm_inputs \<Rightarrow> bool" where
  "shell_inputs s run inp \<longleftrightarrow>
     fi_power_enable inp = run \<and> fi_tilt inp = os_tilt_latch s \<and> fi_comms_loss inp = inbox_comms_loss (os_inbox s) \<and>
     fi_over_current inp = (latch_a_fires s \<or> peer_lockdown (os_inbox s)) \<and>
     fi_orientation_nz inp = bw_orientation_nz (os_block s) \<and> \<not> fi_promote_condition inp"

lemma producer_inputs: "shell_inputs s run (balance_inputs Q s run word)" "shell_inputs s run (gated_inputs Q s run r g)"
  by (simp_all add: shell_inputs_def balance_inputs_def gated_inputs_def)

text \<open>The word of the law is within full scale, and so is a throttle reference; a follower's word is its leader's.\<close>

lemma law_bound: "\<bar>snd (sf_step cfg inp st)\<bar> \<le> 28500"
proof -
  have "\<bar>word_of n sc\<bar> \<le> 28500" for n sc by (auto simp: word_of_def clamp_sym64_def TORQUE_FULL_SCALE_def)
  then show ?thesis by (simp add: sf_step_def Let_def)
qed

lemma throttle_bound: "\<bar>to_ref_right (snd (throttle_tick cfg a b st))\<bar> \<le> 28500" "\<bar>to_ref_left (snd (throttle_tick cfg a b st))\<bar> \<le> 28500"
proof -
  have ref: "\<bar>mul32 c REF_SCALE_NUM sdiv REF_SCALE_DEN\<bar> \<le> 28500" if "\<bar>c\<bar> \<le> 1000" for c
  proof -
    have "mul32 c REF_SCALE_NUM = 57 * c" using that by (simp add: mul32_def REF_SCALE_NUM_def)
    moreover have "\<bar>57 * c\<bar> div 2 \<le> 28500" using zdiv_mono1 [of "\<bar>57 * c\<bar>" 57000 2] that by simp
    ultimately show ?thesis by (auto simp: REF_SCALE_DEN_def signed_divide_int_def abs_mult sgn_if)
  qed
  have "\<bar>fst (mixer_fcn s t u v)\<bar> \<le> 1000" "\<bar>snd (mixer_fcn s t u v)\<bar> \<le> 1000" for s t u v
    by (auto simp: mixer_fcn_def Let_def clamp_cmd_def CMD_LIMIT_def)
  then show "\<bar>to_ref_right (snd (throttle_tick cfg a b st))\<bar> \<le> 28500" "\<bar>to_ref_left (snd (throttle_tick cfg a b st))\<bar> \<le> 28500"
    using ref by (simp_all add: throttle_tick_def Let_def split_beta)
qed

text \<open>A producer's step runs the machine once, on inputs with the board's stop levels, and changes nothing but the
  control section; of that, the resolved producer and the staged turn stay.\<close>

definition one_shell :: "('f, 'o) q_ops \<Rightarrow> ('f, 'o) board \<Rightarrow> bool \<Rightarrow> ('f, 'o) board \<Rightarrow> int \<Rightarrow> int \<Rightarrow> bool" where
  "one_shell Q s run s' t bound \<longleftrightarrow>
     (\<exists>inp c. shell_inputs s run inp \<and> \<bar>fi_smoothed_ref inp\<bar> \<le> bound \<and> s' = s\<lparr>os_ctl := c\<rparr> \<and>
        fsm_step (q_fix Q) inp (profile_of STANDBY_SET) (ct_fsm (os_ctl s)) = (ct_fsm c, t) \<and>
        cd_mode (ct_dispatch c) = cd_mode (ct_dispatch (os_ctl s)) \<and> ct_drive_turn c = ct_drive_turn (os_ctl s) \<and>
        ct_wheel_demand c = ct_wheel_demand (os_ctl s) \<and>
        ct_turn c = (if cd_mode (ct_dispatch (os_ctl s)) = Leader
                     then turn_step (ct_drive_turn (os_ctl s)) (snd (effective_drive (os_inbox s) 0)) (ct_turn (os_ctl s))
                     else ct_turn (os_ctl s)))"

lemma balance_shape:
  assumes "balance_step Q s run = (s', t)"
  shows "one_shell Q s run s' t 28500"
proof -
  obtain v steer where d: "effective_drive (os_inbox s) 0 = (v, steer)" by fastforce
  define c where "c = leader_turn (os_ctl s) steer"
  obtain sf word where law: "sf_step (law_config c) (law_inputs s run v) (ct_sf c) = (sf, word)" by fastforce
  have c: "ct_fsm c = ct_fsm (os_ctl s)" "ct_dispatch c = ct_dispatch (os_ctl s)" "ct_drive_turn c = ct_drive_turn (os_ctl s)"
    "ct_wheel_demand c = ct_wheel_demand (os_ctl s)"
    "ct_turn c = (if cd_mode (ct_dispatch (os_ctl s)) = Leader then turn_step (ct_drive_turn (os_ctl s)) steer (ct_turn (os_ctl s))
       else ct_turn (os_ctl s))"
    by (simp_all add: c_def leader_turn_def)
  have "\<bar>fi_smoothed_ref (balance_inputs Q s run word)\<bar> \<le> 28500"
    using law_bound [of "law_config c" "law_inputs s run v" "ct_sf c"] by (simp add: balance_inputs_def law)
  moreover define c' where "c' = fst (run_shell Q (c\<lparr>ct_sf := sf\<rparr>) (balance_inputs Q s run word))"
  moreover have "s' = s\<lparr>os_ctl := c'\<rparr>" "t = snd (run_shell Q (c\<lparr>ct_sf := sf\<rparr>) (balance_inputs Q s run word))"
    using assms unfolding balance_step_def d prod.case Let_def c_def [symmetric] law by (simp_all add: c'_def split_beta)
  ultimately show ?thesis
    using producer_inputs(1) [of s run Q word] unfolding one_shell_def
    by (intro exI [of _ "balance_inputs Q s run word"] exI [of _ c'] conjI) (simp_all add: shell_eq c d prod_eq_iff)
qed

lemma gated_shape:
  assumes "run_gated_shell Q s run reference gate = (s', t)" "cd_mode (ct_dispatch (os_ctl s)) \<noteq> Leader"
  shows "one_shell Q s run s' t \<bar>reference\<bar>" "s' = s\<lparr>os_ctl := os_ctl s'\<rparr>"
    "fs_env (ct_fsm (os_ctl s')) = fs_env (fst (fsm_step (q_fix Q) (gated_inputs Q s run reference gate) (profile_of STANDBY_SET) (ct_fsm (os_ctl s))))"
    "t = snd (fsm_step (q_fix Q) (gated_inputs Q s run reference gate) (profile_of STANDBY_SET) (ct_fsm (os_ctl s)))"
    "ct_fsm (os_ctl s') = fst (fsm_step (q_fix Q) (gated_inputs Q s run reference gate) (profile_of STANDBY_SET) (ct_fsm (os_ctl s)))"
proof -
  define c where "c = fst (run_shell Q (os_ctl s) (gated_inputs Q s run reference gate))"
  have eq: "s' = s\<lparr>os_ctl := c\<rparr>" "t = snd (run_shell Q (os_ctl s) (gated_inputs Q s run reference gate))"
    using assms(1) by (simp_all add: run_gated_shell_def c_def split_beta)
  have r: "fi_smoothed_ref (gated_inputs Q s run reference gate) = reference" by (simp add: gated_inputs_def)
  show "one_shell Q s run s' t \<bar>reference\<bar>"
    using producer_inputs(2) [of s run Q reference gate] assms(2) unfolding one_shell_def eq
    by (intro exI [of _ "gated_inputs Q s run reference gate"] exI [of _ c] conjI) (simp_all add: shell_eq c_def r prod_eq_iff)
  show "s' = s\<lparr>os_ctl := os_ctl s'\<rparr>" by (simp add: eq)
  show "fs_env (ct_fsm (os_ctl s')) = fs_env (fst (fsm_step (q_fix Q) (gated_inputs Q s run reference gate) (profile_of STANDBY_SET) (ct_fsm (os_ctl s))))"
    "t = snd (fsm_step (q_fix Q) (gated_inputs Q s run reference gate) (profile_of STANDBY_SET) (ct_fsm (os_ctl s)))"
    "ct_fsm (os_ctl s') = fst (fsm_step (q_fix Q) (gated_inputs Q s run reference gate) (profile_of STANDBY_SET) (ct_fsm (os_ctl s)))"
    by (simp_all add: eq c_def shell_eq)
qed

lemma throttle_refs_bound:
  assumes "throttle_refs cfg b right ms d = (d', refs)"
  shows "length refs = length ms \<and> (\<forall>r\<in>set refs. \<bar>r\<bar> \<le> 28500) \<and> cd_mode d' = cd_mode d"
  using assms
proof (induction ms arbitrary: d d' refs)
  case (Cons m ms)
  obtain sp st where e: "effective_drive b m = (sp, st)" by fastforce
  obtain d1 out where r: "throttle_reference d m cfg sp st = (d1, out)" by fastforce
  obtain d2 rest where t: "throttle_refs cfg b right ms d1 = (d2, rest)" by fastforce
  have "\<bar>to_ref_right out\<bar> \<le> 28500" "\<bar>to_ref_left out\<bar> \<le> 28500" "cd_mode d1 = cd_mode d"
    using r throttle_bound [of cfg sp st "cd_throttle d ! m"] by (auto simp: throttle_reference_def split: prod.splits)
  then show ?case using Cons.IH [OF t] Cons.prems by (auto simp: e r t)
qed auto

text \<open>One pass of the dispatch, whatever the producer: the machine runs once, motor 0's demand is its word (split on
  a leader) through the freshness gate, and only throttle drives another motor.\<close>

definition dispatched :: "('f, 'o) q_ops \<Rightarrow> ('f, 'o) board \<Rightarrow> bool \<Rightarrow> ('f, 'o) board \<Rightarrow> 'f fsm_inputs \<Rightarrow> int \<Rightarrow> int list \<Rightarrow> bool" where
  "dispatched Q s run s' inp t others \<longleftrightarrow>
     (let p = cd_mode (ct_dispatch (os_ctl s));
          stale = is_rigid p \<and> rigid_peer (os_inbox s) = None;
          pair = (if p = Leader then wheel_split t (ct_turn (os_ctl s')) (bw_role_right (os_block s)) else (t, 0))
      in shell_inputs s run inp \<and> (p \<noteq> Follower \<longrightarrow> \<bar>fi_smoothed_ref inp\<bar> \<le> 28500) \<and> s' = s\<lparr>os_ctl := os_ctl s'\<rparr> \<and>
         fsm_step (q_fix Q) inp (profile_of STANDBY_SET) (ct_fsm (os_ctl s)) = (ct_fsm (os_ctl s'), t) \<and>
         cd_mode (ct_dispatch (os_ctl s')) = p \<and> ct_drive_turn (os_ctl s') = ct_drive_turn (os_ctl s) \<and>
         ct_turn (os_ctl s') =
           (if p = Leader then turn_step (ct_drive_turn (os_ctl s)) (snd (effective_drive (os_inbox s) 0)) (ct_turn (os_ctl s))
            else ct_turn (os_ctl s)) \<and>
         length others = motors s - 1 \<and> (\<forall>x\<in>set others. \<bar>x\<bar> \<le> 28500) \<and>
         (p \<noteq> ThrottleProducer \<or> fs_sub_state (ct_fsm (os_ctl s)) = sub_state.Idle \<longrightarrow> (\<forall>x\<in>set others. x = 0)) \<and>
         ct_wheel_demand (os_ctl s') = (if stale then 0 else fst pair) # others \<and>
         ct_peer_demand (os_ctl s') = (if stale then 0 else snd pair))"

lemma clamp_abs: "\<bar>r\<bar> \<le> 28500 \<Longrightarrow> 0 \<le> e \<Longrightarrow> e \<le> 28700 \<Longrightarrow> \<bar>as_i16 (clamp r (neg32 e) e)\<bar> \<le> 28500"
  by (auto simp: clamp_def neg32_def)

lemma dispatch_shape:
  assumes "control_dispatch_step Q s run = (s', ds)" "fsm_ok (ct_fsm (os_ctl s))" "0 < motors s"
  shows "ds = ct_wheel_demand (os_ctl s')" "\<exists>inp t others. dispatched Q s run s' inp t others"
proof -
  let ?p = "cd_mode (ct_dispatch (os_ctl s))"
  obtain u t others where step:
    "(case ?p of ThrottleProducer \<Rightarrow> throttle_step Q s run
       | Follower \<Rightarrow> (case follower_step Q s run of (s', t) \<Rightarrow> (s', t, replicate (motors s - 1) 0))
       | _ \<Rightarrow> (case balance_step Q s run of (s', t) \<Rightarrow> (s', t, replicate (motors s - 1) 0))) = (u, t, others)"
    using prod_cases3 by blast
  have main: "\<exists>inp. shell_inputs s run inp \<and> (?p \<noteq> Follower \<longrightarrow> \<bar>fi_smoothed_ref inp\<bar> \<le> 28500) \<and> u = s\<lparr>os_ctl := os_ctl u\<rparr> \<and>
      fsm_step (q_fix Q) inp (profile_of STANDBY_SET) (ct_fsm (os_ctl s)) = (ct_fsm (os_ctl u), t) \<and>
      cd_mode (ct_dispatch (os_ctl u)) = ?p \<and> ct_drive_turn (os_ctl u) = ct_drive_turn (os_ctl s) \<and>
      ct_turn (os_ctl u) =
        (if ?p = Leader then turn_step (ct_drive_turn (os_ctl s)) (snd (effective_drive (os_inbox s) 0)) (ct_turn (os_ctl s))
         else ct_turn (os_ctl s)) \<and>
      length others = motors s - 1 \<and> (\<forall>x\<in>set others. \<bar>x\<bar> \<le> 28500) \<and>
      (?p \<noteq> ThrottleProducer \<or> fs_sub_state (ct_fsm (os_ctl s)) = sub_state.Idle \<longrightarrow> (\<forall>x\<in>set others. x = 0))"
  proof -
    have plain: ?thesis if "one_shell Q s run u t b" "?p \<noteq> Follower \<longrightarrow> b \<le> 28500" "others = replicate (motors s - 1) 0" for b
      using that unfolding one_shell_def by (force simp: order_trans)
    show ?thesis
    proof (cases ?p)
      case ThrottleProducer
      obtain d refs where refs: "throttle_refs (ct_throttle_cfg (os_ctl s)) (os_inbox s) (bw_role_right (os_block s)) [0..<motors s]
          (ct_dispatch (os_ctl s)) = (d, refs)" by fastforce
      note rb = throttle_refs_bound [OF refs]
      define v where "v = s\<lparr>os_ctl := (os_ctl s)\<lparr>ct_dispatch := d\<rparr>\<rparr>"
      define gate where "gate = as_i16 (clamp (demand_magnitude refs) 0 32767)"
      obtain w t' where g: "run_gated_shell Q v run (refs ! 0) gate = (w, t')" by fastforce
      have vm: "cd_mode (ct_dispatch (os_ctl v)) = ?p" using rb by (simp add: v_def)
      have nl: "cd_mode (ct_dispatch (os_ctl v)) \<noteq> Leader" using vm ThrottleProducer by simp
      note shape = gated_shape [OF g nl]
      let ?in = "gated_inputs Q v run (refs ! 0) gate"
      have same: "ct_fsm (os_ctl v) = ct_fsm (os_ctl s)" by (simp add: v_def)
      have res: "u = w" "t = t'" and oth: "others = map (\<lambda>r. if fs_sub_state (ct_fsm (os_ctl s)) \<noteq> sub_state.Idle
          then as_i16 (clamp r (neg32 (fs_env (ct_fsm (os_ctl w)))) (fs_env (ct_fsm (os_ctl w)))) else 0) (tl refs)"
        using step by (simp_all add: ThrottleProducer throttle_step_def Let_def refs v_def [symmetric] gate_def [symmetric] g same)
      have env: "0 \<le> fs_env (ct_fsm (os_ctl w))" "fs_env (ct_fsm (os_ctl w)) \<le> 28700"
        using step_ok [OF assms(2), of "q_fix Q" ?in "profile_of STANDBY_SET"] by (simp_all add: fsm_ok_def shape(5) same)
      have ref0: "\<bar>refs ! 0\<bar> \<le> 28500" using rb assms(3) by (cases refs) auto
      have "length others = motors s - 1" using rb by (simp add: oth)
      moreover have "\<forall>x\<in>set others. \<bar>x\<bar> \<le> 28500" using rb clamp_abs [OF _ env] by (cases refs) (auto simp: oth)
      moreover have "fs_sub_state (ct_fsm (os_ctl s)) = sub_state.Idle \<longrightarrow> (\<forall>x\<in>set others. x = 0)" by (simp add: oth)
      moreover have "shell_inputs s run ?in" using producer_inputs(2) [of v run Q "refs ! 0" gate]
        by (simp add: shell_inputs_def v_def latch_a_fires_def)
      moreover have "\<bar>fi_smoothed_ref ?in\<bar> \<le> 28500" using ref0 by (simp add: gated_inputs_def)
      moreover have "u = s\<lparr>os_ctl := os_ctl u\<rparr>" using shape(2) by (simp add: res v_def)
      moreover have "fsm_step (q_fix Q) ?in (profile_of STANDBY_SET) (ct_fsm (os_ctl s)) = (ct_fsm (os_ctl u), t)"
        using shape(4,5) by (simp add: res same)
      moreover have "cd_mode (ct_dispatch (os_ctl u)) = ?p" "ct_drive_turn (os_ctl u) = ct_drive_turn (os_ctl s)"
        "ct_turn (os_ctl u) = ct_turn (os_ctl s)"
        using shape(1) rb nl by (auto simp: one_shell_def res v_def)
      ultimately show ?thesis using ThrottleProducer by (intro exI [of _ ?in]) simp
    next
      case BalanceProducer
      then have "balance_step Q s run = (u, t)" "others = replicate (motors s - 1) 0" using step by (auto split: prod.splits)
      then show ?thesis using plain balance_shape by fast
    next
      case Leader
      then have "balance_step Q s run = (u, t)" "others = replicate (motors s - 1) 0" using step by (auto split: prod.splits)
      then show ?thesis using plain balance_shape by fast
    next
      case Follower
      then have f: "follower_step Q s run = (u, t)" "others = replicate (motors s - 1) 0" using step by (auto split: prod.splits)
      from f(1) obtain r g where "run_gated_shell Q s run r g = (u, t)" by (simp add: follower_step_def Let_def)
      then have "one_shell Q s run u t \<bar>r\<bar>" using gated_shape(1) Follower by fastforce
      then show ?thesis using plain Follower f(2) by fast
    qed
  qed
  then obtain inp where inp: "shell_inputs s run inp" and bound: "?p \<noteq> Follower \<longrightarrow> \<bar>fi_smoothed_ref inp\<bar> \<le> 28500"
    and u: "u = s\<lparr>os_ctl := os_ctl u\<rparr>" and fsm: "fsm_step (q_fix Q) inp (profile_of STANDBY_SET) (ct_fsm (os_ctl s)) = (ct_fsm (os_ctl u), t)"
    and rest: "cd_mode (ct_dispatch (os_ctl u)) = ?p" "ct_drive_turn (os_ctl u) = ct_drive_turn (os_ctl s)"
      "ct_turn (os_ctl u) =
        (if ?p = Leader then turn_step (ct_drive_turn (os_ctl s)) (snd (effective_drive (os_inbox s) 0)) (ct_turn (os_ctl s))
         else ct_turn (os_ctl s))"
      "length others = motors s - 1" "\<forall>x\<in>set others. \<bar>x\<bar> \<le> 28500"
      "?p \<noteq> ThrottleProducer \<or> fs_sub_state (ct_fsm (os_ctl s)) = sub_state.Idle \<longrightarrow> (\<forall>x\<in>set others. x = 0)"
    by blast
  have same: "os_inbox u = os_inbox s" "os_block u = os_block s" by (subst u, simp)+
  define stale where "stale \<longleftrightarrow> is_rigid ?p \<and> rigid_peer (os_inbox s) = None"
  define pair where "pair = (if ?p = Leader then wheel_split t (ct_turn (os_ctl u)) (bw_role_right (os_block s)) else (t, 0))"
  have out: "s' = u\<lparr>os_ctl := (os_ctl u)\<lparr>ct_wheel_demand := (if stale then 0 else fst pair) # others,
      ct_peer_demand := (if stale then 0 else snd pair)\<rparr>\<rparr>" "ds = (if stale then 0 else fst pair) # others"
    using assms(1) unfolding control_dispatch_step_def Let_def step prod.case same stale_def [symmetric] pair_def [symmetric]
    by (auto simp: split_beta)
  show "ds = ct_wheel_demand (os_ctl s')" by (simp add: out)
  have "s' = s\<lparr>os_ctl := os_ctl s'\<rparr>" by (subst (1) out(1), subst u, simp add: out(1))
  then have "dispatched Q s run s' inp t others"
    unfolding dispatched_def Let_def stale_def [symmetric] using inp bound fsm rest by (simp add: out pair_def)
  then show "\<exists>inp t others. dispatched Q s run s' inp t others" by blast
qed

section \<open>One pass\<close>

text \<open>A pass up to the dispatch: the state, the mode machine's outcome and the levels it was given.\<close>

definition pre_dispatch :: "('f, 'o) q_ops \<Rightarrow> ('f, 'o) board \<Rightarrow> 'f imu_sample option \<Rightarrow> u32 \<Rightarrow> ('f, 'o) board \<times> tick_outcome \<times> levels" where
  "pre_dispatch Q s smp dt =
     (let t = task_inputs Q s smp dt;
          (u, oc) = task_mode t;
          u = task_off Q u (to_mode oc = Off) (lv_power_request (board_levels t));
          u = (if to_bringup oc \<noteq> None then u\<lparr>os_enact_inits := os_enact_inits u + 1\<rparr> else u);
          u = (if to_safedown oc \<noteq> None then u\<lparr>os_enact_shutdowns := os_enact_shutdowns u + 1\<rparr> else u)
      in (u, oc, board_levels t))"

lemma control_task_eq:
  assumes "pre_dispatch Q s smp dt = (u, oc, l)" "control_dispatch_step Q u (to_mode oc = mode.Run) = (v, ds)"
  shows "control_task Q s smp dt =
    (v\<lparr>os_control_ticks := os_control_ticks v + 1\<rparr>,
     \<lparr>co_mode_byte = mode_byte_of (to_mode oc), co_moe = map (moe_allowed (os_mode v)) [0..<motors v],
      co_init = to_bringup oc, co_shutdown = to_safedown oc, co_comms_loss = lv_comms_loss l, co_imu_loss = lv_imu_loss l,
      co_torque_setpoint = ds, co_sub_state = sub_state_byte (fs_sub_state (ct_fsm (os_ctl v))),
      co_off_request_clear = (to_mode oc = Off \<and> \<not> lv_power_request l)\<rparr>)"
proof -
  let ?t = "task_inputs Q s smp dt"
  obtain m where m: "task_mode ?t = (m, oc)" using assms(1) by (auto simp: pre_dispatch_def Let_def split: prod.splits)
  define u1 where "u1 = task_off Q m (to_mode oc = Off) (lv_power_request (board_levels ?t))"
  define u2 where "u2 = (if to_bringup oc \<noteq> None then u1\<lparr>os_enact_inits := os_enact_inits u1 + 1\<rparr> else u1)"
  have u: "(if to_safedown oc \<noteq> None then u2\<lparr>os_enact_shutdowns := os_enact_shutdowns u2 + 1\<rparr> else u2) = u" "l = board_levels ?t"
    using assms(1) unfolding pre_dispatch_def Let_def m prod.case u1_def [symmetric] u2_def [symmetric] by simp_all
  show ?thesis
    unfolding control_task_def Let_def m prod.case u1_def [symmetric] u2_def [symmetric] u(1) assms(2) u(2)
    by (simp add: motors_def)
qed

lemma pre_fields:
  assumes "pre_dispatch Q s smp dt = (u, oc, l)"
  defines "t \<equiv> task_inputs Q s smp dt"
  shows "l = board_levels t" "mode_tick (os_mode s) (board_mode_inputs t l) = (os_mode u, oc)"
    "os_inbox u = os_inbox t" "os_block u = os_block t" "os_own_levels u = own_mask l" "motors u = motors s"
    "os_latches u = (if to_mode oc = Off then map (\<lambda>_. fault_latch_new) (os_latches t) else os_latches t)"
    "os_ctl u = (if to_mode oc = Off then reset_engagement Q (os_ctl t) else os_ctl t)"
    "os_tilt_latch u = (os_tilt_latch t \<and> \<not> (to_mode oc = Off \<and> \<not> lv_power_request l))"
    "os_imu_health u = os_imu_health t" "os_imu_live u = os_imu_live t" "os_imu_configured u = os_imu_configured t"
    "os_mahony u = os_mahony t" "os_attitude u = os_attitude t" "os_button_pressed u = os_button_pressed t"
    "os_motor_fault u = os_motor_fault t" "os_cyclic_since_tx u = os_cyclic_since_tx t" "os_cyclic_due u = os_cyclic_due t"
    "os_ble_cyclic_since_tx u = os_ble_cyclic_since_tx t" "os_ble_cyclic_due u = os_ble_cyclic_due t"
    "os_ble_peer_since_tx u = os_ble_peer_since_tx t" "os_ble_peer_due u = os_ble_peer_due t"
    "os_motor_moving u = os_motor_moving t" "os_machine u = os_machine t" "os_identity u = os_identity t"
proof -
  obtain m oc' where mt: "mode_tick (os_mode t) (board_mode_inputs (t\<lparr>os_events := events_tick (os_events t) (level_mask (board_levels t)),
      os_own_levels := own_mask (board_levels t)\<rparr>) (board_levels t)) = (m, oc')" by fastforce
  have in_eq: "board_mode_inputs (t\<lparr>os_events := e, os_own_levels := w\<rparr>) lv = board_mode_inputs t lv" for e w lv
    by (simp add: board_mode_inputs_def)
  have mode: "os_mode t = os_mode s" and mot: "motors t = motors s" by (simp_all add: t_def)
  define u0 where "u0 = t\<lparr>os_events := events_tick (os_events t) (level_mask (board_levels t)),
      os_own_levels := own_mask (board_levels t), os_mode := m\<rparr>"
  have tm: "task_mode t = (u0, oc')" using mt by (simp add: task_mode_def Let_def u0_def)
  have oc: "oc' = oc" and l: "l = board_levels t"
    using assms(1) by (simp_all add: pre_dispatch_def Let_def tm t_def [symmetric] split: if_splits)
  define u1 where "u1 = task_off Q u0 (to_mode oc = Off) (lv_power_request l)"
  define u2 where "u2 = (if to_bringup oc \<noteq> None then u1\<lparr>os_enact_inits := os_enact_inits u1 + 1\<rparr> else u1)"
  have u: "u = (if to_safedown oc \<noteq> None then u2\<lparr>os_enact_shutdowns := os_enact_shutdowns u2 + 1\<rparr> else u2)"
    using assms(1) unfolding pre_dispatch_def Let_def t_def [symmetric] tm oc prod.case l [symmetric]
      u1_def [symmetric] u2_def [symmetric] by simp
  note all = u u2_def u1_def task_off_def Let_def u0_def l
  show "l = board_levels t" by (rule l)
  show "mode_tick (os_mode s) (board_mode_inputs t l) = (os_mode u, oc)"
    using mt by (simp add: in_eq mode oc l) (simp add: all)
  show "motors u = motors s" using mot by (simp add: all motors_def reset_engagement_def)
  show "os_inbox u = os_inbox t" "os_block u = os_block t" "os_own_levels u = own_mask l"
    "os_latches u = (if to_mode oc = Off then map (\<lambda>_. fault_latch_new) (os_latches t) else os_latches t)"
    "os_ctl u = (if to_mode oc = Off then reset_engagement Q (os_ctl t) else os_ctl t)"
    "os_tilt_latch u = (os_tilt_latch t \<and> \<not> (to_mode oc = Off \<and> \<not> lv_power_request l))"
    "os_imu_health u = os_imu_health t" "os_imu_live u = os_imu_live t" "os_imu_configured u = os_imu_configured t"
    "os_mahony u = os_mahony t" "os_attitude u = os_attitude t" "os_button_pressed u = os_button_pressed t"
    "os_motor_fault u = os_motor_fault t" "os_cyclic_since_tx u = os_cyclic_since_tx t" "os_cyclic_due u = os_cyclic_due t"
    "os_ble_cyclic_since_tx u = os_ble_cyclic_since_tx t" "os_ble_cyclic_due u = os_ble_cyclic_due t"
    "os_ble_peer_since_tx u = os_ble_peer_since_tx t" "os_ble_peer_due u = os_ble_peer_due t"
    "os_motor_moving u = os_motor_moving t" "os_machine u = os_machine t" "os_identity u = os_identity t"
    by (simp_all add: all)
qed

lemma dispatched_fields:
  assumes "dispatched Q u run v inp x others"
  shows "os_inbox v = os_inbox u" "os_block v = os_block u" "os_mode v = os_mode u" "os_latches v = os_latches u"
    "os_tilt_latch v = os_tilt_latch u" "os_own_levels v = os_own_levels u" "os_imu_health v = os_imu_health u"
    "os_imu_live v = os_imu_live u" "os_mahony v = os_mahony u" "os_attitude v = os_attitude u"
    "os_motor_fault v = os_motor_fault u" "os_button_pressed v = os_button_pressed u"
    "os_cyclic_since_tx v = os_cyclic_since_tx u" "os_cyclic_due v = os_cyclic_due u"
    "os_ble_cyclic_since_tx v = os_ble_cyclic_since_tx u" "os_ble_cyclic_due v = os_ble_cyclic_due u"
    "os_ble_peer_since_tx v = os_ble_peer_since_tx u" "os_ble_peer_due v = os_ble_peer_due u"
    "os_imu_configured v = os_imu_configured u" "os_machine v = os_machine u" "os_identity v = os_identity u"
    "os_motor_moving v = os_motor_moving u"
proof -
  have v: "v = u\<lparr>os_ctl := os_ctl v\<rparr>" using assms by (simp add: dispatched_def Let_def)
  show "os_inbox v = os_inbox u" "os_block v = os_block u" "os_mode v = os_mode u" "os_latches v = os_latches u"
    "os_tilt_latch v = os_tilt_latch u" "os_own_levels v = os_own_levels u" "os_imu_health v = os_imu_health u"
    "os_imu_live v = os_imu_live u" "os_mahony v = os_mahony u" "os_attitude v = os_attitude u"
    "os_motor_fault v = os_motor_fault u" "os_button_pressed v = os_button_pressed u"
    "os_cyclic_since_tx v = os_cyclic_since_tx u" "os_cyclic_due v = os_cyclic_due u"
    "os_ble_cyclic_since_tx v = os_ble_cyclic_since_tx u" "os_ble_cyclic_due v = os_ble_cyclic_due u"
    "os_ble_peer_since_tx v = os_ble_peer_since_tx u" "os_ble_peer_due v = os_ble_peer_due u"
    "os_imu_configured v = os_imu_configured u" "os_machine v = os_machine u" "os_identity v = os_identity u"
    "os_motor_moving v = os_motor_moving u"
    by (subst v, simp)+
qed

text \<open>What every reachable state has: an envelope in range, one demand per motor, a turn in its word.\<close>

definition board_inv :: "nat \<Rightarrow> ('f, 'o) board \<Rightarrow> bool" where
  "board_inv m s \<longleftrightarrow> fsm_ok (ct_fsm (os_ctl s)) \<and> motors s = m \<and> ct_turn (os_ctl s) \<in> i32_range"

lemma pre_inv:
  assumes "pre_dispatch Q s smp dt = (u, oc, l)" "board_inv m s"
  shows "board_inv m u" "cd_mode (ct_dispatch (os_ctl u)) = cd_mode (ct_dispatch (os_ctl s))"
  using assms(2) pre_fields(6,8) [OF assms(1)]
  by (auto simp: board_inv_def reset_engagement_def default_ok i32_range_def)

lemma turn_step_range: "turn_step d steer turn \<in> i32_range"
  unfolding turn_step_def add32_def by (rule as_i32_range)

lemma dispatched_inv:
  assumes "dispatched Q u run v inp x others" "board_inv m u" "0 < m"
  shows "board_inv m v"
proof -
  note d = assms(1) [unfolded dispatched_def Let_def]
  have "fsm_ok (ct_fsm (os_ctl v))"
    using d step_ok [of "ct_fsm (os_ctl u)" "q_fix Q" inp "profile_of STANDBY_SET"] assms(2) by (auto simp: board_inv_def)
  moreover have "motors v = m" using d assms(2,3) by (auto simp: board_inv_def motors_def)
  moreover have "ct_turn (os_ctl v) \<in> i32_range" using d assms(2) turn_step_range by (auto simp: board_inv_def)
  ultimately show ?thesis by (simp add: board_inv_def)
qed

lemma pass:
  assumes "control_task Q s smp dt = (s', out)" "board_inv m s" "0 < m"
  obtains u oc l v inp x others where "pre_dispatch Q s smp dt = (u, oc, l)"
    "dispatched Q u (to_mode oc = mode.Run) v inp x others" "s' = v\<lparr>os_control_ticks := os_control_ticks v + 1\<rparr>"
    "co_torque_setpoint out = ct_wheel_demand (os_ctl s')" "co_moe out = map (moe_allowed (os_mode s')) [0..<m]"
    "co_mode_byte out = mode_byte_of (to_mode oc)" "board_inv m u" "board_inv m v" "board_inv m s'"
    "co_off_request_clear out = (to_mode oc = Off \<and> \<not> lv_power_request l)"
proof -
  obtain u oc l where pre: "pre_dispatch Q s smp dt = (u, oc, l)" using prod_cases3 by blast
  obtain v ds where disp: "control_dispatch_step Q u (to_mode oc = mode.Run) = (v, ds)" by fastforce
  note inv = pre_inv(1) [OF pre assms(2)]
  have ok: "fsm_ok (ct_fsm (os_ctl u))" "0 < motors u" using inv assms(3) by (simp_all add: board_inv_def)
  note shape = dispatch_shape [OF disp ok]
  then obtain inp x others where d: "dispatched Q u (to_mode oc = mode.Run) v inp x others" by blast
  note eq = control_task_eq [OF pre disp, unfolded assms(1), simplified]
  have s': "s' = v\<lparr>os_control_ticks := os_control_ticks v + 1\<rparr>" using eq by simp
  note inv_v = dispatched_inv [OF d inv assms(3)]
  then have "board_inv m s'" by (simp add: s' board_inv_def motors_def)
  then show ?thesis
    using that [OF pre d s' _ _ _ inv inv_v] eq shape(1) inv_v by (simp add: s' board_inv_def motors_def)
qed

lemma arm_row_fields:
  "ct_fsm (os_ctl (install_arm_control Q s r)) \<in> {ct_fsm (os_ctl s), fsm_default (q_fix Q)}"
  "ct_turn (os_ctl (install_arm_control Q s r)) \<in> {ct_turn (os_ctl s), 0}"
  "ct_wheel_demand (os_ctl (install_arm_control Q s r)) = ct_wheel_demand (os_ctl s)"
  by (auto simp: install_arm_control_def re_apply_control_values_def Let_def reset_engagement_def split: prod.split)

lemma step_inv:
  assumes "board_inv m s" "0 < m"
  shows "board_inv m (board_step Q s e)"
proof (cases e)
  case (ControlPass smp dt)
  obtain s' out where t: "control_task Q s smp dt = (s', out)" by fastforce
  show ?thesis using pass [OF t assms] by (metis ControlPass board_step.simps(1) fst_conv t)
next
  case (InputPass x)
  have "os_ctl (input_task s x) = os_ctl s" by (simp add: input_task_def Let_def split: prod.split)
  then show ?thesis using InputPass assms by (simp add: board_inv_def motors_def)
next
  case (ArmRow r)
  then show ?thesis using assms arm_row_fields [of Q s r]
    by (auto simp: board_inv_def motors_def default_ok i32_range_def)
qed (use assms in \<open>simp_all add: board_inv_def motors_def raise_over_current_def set_ext_trip_def\<close>)

lemma new_inv: "board_inv m (board_new Q m a b cfg gains cal ident mach)"
  by (simp add: board_inv_def board_new_def control_ctl_new_def motors_def default_ok i32_range_def)

lemma run_inv: "board_inv m s \<Longrightarrow> 0 < m \<Longrightarrow> board_inv m (run_board Q es s)"
  by (induction es rule: rev_induct) (auto simp: step_inv)

text \<open>The state of a board with \<open>m\<close> motors after some history from boot.\<close>

definition reachable_board :: "('f, 'o) q_ops \<Rightarrow> nat \<Rightarrow> ('f, 'o) board \<Rightarrow> bool" where
  "reachable_board Q m s \<longleftrightarrow>
     0 < m \<and> (\<exists>a b cfg gains cal ident mach es. s = run_board Q es (board_new Q m a b cfg gains cal ident mach))"

lemma board_reachable_inv: "reachable_board Q m s \<Longrightarrow> board_inv m s \<and> 0 < m"
  unfolding reachable_board_def using run_inv [OF new_inv] by blast

lemma reachable_step: "reachable_board Q m s \<Longrightarrow> reachable_board Q m (board_step Q s e)"
  unfolding reachable_board_def by (metis run_board_simps(2))

text \<open>The word of the machine in a dispatch: within its envelope, and within full scale but on a follower.\<close>

lemma dispatched_torque:
  assumes "dispatched Q u run v inp x others" "fsm_ok (ct_fsm (os_ctl u))"
  shows "\<bar>x\<bar> \<le> fs_env (ct_fsm (os_ctl v)) \<and> (cd_mode (ct_dispatch (os_ctl u)) \<noteq> Follower \<longrightarrow> \<bar>x\<bar> \<le> 28500)"
proof -
  note d = assms(1) [unfolded dispatched_def Let_def] and ok = assms(2)
  let ?h = "handler (q_fix Q) inp (profile_of STANDBY_SET) (ct_fsm (os_ctl u))"
  have step: "fsm_step (q_fix Q) inp (profile_of STANDBY_SET) (ct_fsm (os_ctl u)) = (ct_fsm (os_ctl v), x)" using d by simp
  have x: "x = max (- fs_env ?h) (min (fs_env ?h) (fs_out_mirror ?h))" using torque_of_step [OF ok, of "q_fix Q" inp "profile_of STANDBY_SET"] step by simp
  have env: "fs_env (ct_fsm (os_ctl v)) = fs_env ?h" using step_handler(2) [of "q_fix Q" inp "profile_of STANDBY_SET" "ct_fsm (os_ctl u)"] step by simp
  have h: "0 \<le> fs_env ?h" using handler_ok [OF ok, of "q_fix Q" inp "profile_of STANDBY_SET"] by (simp add: fsm_ok_def)
  have mirror: "\<bar>fs_out_mirror ?h\<bar> \<le> max 28500 \<bar>fi_smoothed_ref inp\<bar>"
    using alt_reference_bound [of inp]
    by (cases "fs_sub_state (ct_fsm (os_ctl u))") (auto simp: handler_def idle_handler arming_handler alt_handler(2) run_handler)
  show ?thesis using d x env h mirror by (auto simp: max_def min_def split: if_splits)
qed

section \<open>The wheel demands\<close>

lemma pass_demands:
  assumes "board_inv m s" "0 < m" "control_task Q s smp dt = (s', out)"
  shows "(\<forall>d\<in>set (co_torque_setpoint out). \<bar>d\<bar> \<le> (if cd_mode (ct_dispatch (os_ctl s)) = Follower then 28700 else 28500)) \<and>
    length (co_torque_setpoint out) = m \<and> ct_wheel_demand (os_ctl s') = co_torque_setpoint out \<and>
    \<bar>cs_peer_demand (cyclic_of s')\<bar> \<le> 28500 \<and>
    (cs_peer_demand (cyclic_of s') \<noteq> 0 \<longrightarrow> cd_mode (ct_dispatch (os_ctl s)) = Leader) \<and>
    (cd_mode (ct_dispatch (os_ctl s)) \<noteq> ThrottleProducer \<longrightarrow> (\<forall>d\<in>set (tl (co_torque_setpoint out)). d = 0))"
proof -
  note inv = assms(1,2)
  let ?p = "cd_mode (ct_dispatch (os_ctl s))"
  from pass [OF assms(3) inv] obtain u oc l v inp x others where
    pre: "pre_dispatch Q s smp dt = (u, oc, l)" and d: "dispatched Q u (to_mode oc = mode.Run) v inp x others"
    and s': "s' = v\<lparr>os_control_ticks := os_control_ticks v + 1\<rparr>" "co_torque_setpoint out = ct_wheel_demand (os_ctl s')"
    and iu: "board_inv m u" "board_inv m v" by metis
  note p = pre_inv(2) [OF pre inv(1)]
  note dd = d
  note d = dd [unfolded dispatched_def Let_def p]
  have tor: "\<bar>x\<bar> \<le> fs_env (ct_fsm (os_ctl v)) \<and> (?p \<noteq> Follower \<longrightarrow> \<bar>x\<bar> \<le> 28500)"
    using dispatched_torque [OF dd] iu(1) by (simp add: board_inv_def p)
  have env: "fs_env (ct_fsm (os_ctl v)) \<le> 28700" using iu by (simp add: board_inv_def fsm_ok_def)
  have turn: "ct_turn (os_ctl v) \<in> i32_range" using iu by (simp add: board_inv_def)
  have own: "\<bar>if is_rigid ?p \<and> rigid_peer (os_inbox u) = None then 0
      else fst (if ?p = Leader then wheel_split x (ct_turn (os_ctl v)) (bw_role_right (os_block u)) else (x, 0))\<bar>
      \<le> (if ?p = Follower then 28700 else 28500)" (is "\<bar>?own\<bar> \<le> _")
    and peer: "\<bar>if is_rigid ?p \<and> rigid_peer (os_inbox u) = None then 0
      else snd (if ?p = Leader then wheel_split x (ct_turn (os_ctl v)) (bw_role_right (os_block u)) else (x, 0))\<bar> \<le> 28500"
    using tor env wheel_split_eq [OF _ turn, of x]
    by (cases "?p = Leader"; auto split: if_splits)+
  have demands: "co_torque_setpoint out = ?own # others" and "ct_peer_demand (os_ctl s') =
      (if is_rigid ?p \<and> rigid_peer (os_inbox u) = None then 0
       else snd (if ?p = Leader then wheel_split x (ct_turn (os_ctl v)) (bw_role_right (os_block u)) else (x, 0)))"
    using d by (simp_all add: s')
  moreover have "length (co_torque_setpoint out) = m" using iu(2) by (simp add: s' board_inv_def motors_def)
  moreover have "\<forall>d\<in>set others. \<bar>d\<bar> \<le> 28500" "?p \<noteq> ThrottleProducer \<longrightarrow> (\<forall>d\<in>set others. d = 0)" using d by auto
  ultimately show ?thesis using own peer by (auto simp: cyclic_of_def s'(2) simp flip: s'(2))
qed

text \<open>C4: The bound of every wheel demand, end to end. After any history of passes, input passes, frames (of any
  content, from anyone), firmware words and arm-time re-reads, whatever the number type computes: each demand a
  control pass publishes is within 28700, and within the full scale of 28500 unless the board is a rigid
  follower (whose word comes off the wire); the word it commands its peer is within 28500 and is 0 unless it is
  a rigid leader; a second motor is driven by throttle alone. And the published words are the ones the board
  keeps and puts on the wire.\<close>

theorem demands_bounded:
  assumes "reachable_board Q m s" "control_task Q s smp dt = (s', out)"
  shows "(\<forall>d\<in>set (co_torque_setpoint out). \<bar>d\<bar> \<le> (if cd_mode (ct_dispatch (os_ctl s)) = Follower then 28700 else 28500)) \<and>
    length (co_torque_setpoint out) = m \<and> ct_wheel_demand (os_ctl s') = co_torque_setpoint out \<and>
    \<bar>cs_peer_demand (cyclic_of s')\<bar> \<le> 28500 \<and>
    (cs_peer_demand (cyclic_of s') \<noteq> 0 \<longrightarrow> cd_mode (ct_dispatch (os_ctl s)) = Leader) \<and>
    (cd_mode (ct_dispatch (os_ctl s)) \<noteq> ThrottleProducer \<longrightarrow> (\<forall>d\<in>set (tl (co_torque_setpoint out)). d = 0))"
  using pass_demands [OF _ _ assms(2)] board_reachable_inv [OF assms(1)] by blast

text \<open>A board at boot, over the concrete number type.\<close>

definition boot_board :: "u8 \<Rightarrow> (int, int) board" where
  "boot_board n =
     board_new demo_q 1 (n = 1) (n = 1) (att_config_default demo_q) shadow_default None
       \<lparr>bi_boot_tag = n, bi_chip = chip_from_u8 0, bi_config_fault = False\<rparr>
       (machine_new \<lparr>dg_machine = 5, dg_arm = 1, dg_boot = 2\<rparr> [False, False])"

lemma boot_reachable: "reachable_board demo_q 1 (boot_board n)"
  unfolding reachable_board_def boot_board_def by (intro conjI exI, simp, rule run_board_simps(1) [symmetric])

lemma demo_mode: "cd_mode (ct_dispatch (os_ctl (boot_board n))) = ThrottleProducer"
  by (simp add: boot_board_def board_new_def control_ctl_new_def dispatch_new_def Let_def select_mode_def control_mode_from_u8_def
      CONTROL_MODE_DEFAULT_def split: frame.split)

lemma demands_bounded_witness:
  "\<exists>d. co_torque_setpoint (snd (control_task demo_q (boot_board 0) None 1)) = [d] \<and> \<bar>d\<bar> \<le> 28500"
proof -
  obtain s' out where t: "control_task demo_q (boot_board 0) None 1 = (s', out)" by fastforce
  show ?thesis using demands_bounded [OF boot_reachable t] by (auto simp: t demo_mode length_Suc_conv)
qed

section \<open>A quiet link stops a rigid machine\<close>

text \<open>C5: A rigid board without a fresh peer applies nothing and commands nothing. On any pass of a leader or a
  follower at whose end the inbox holds no peer cyclic, or one more than 5 served ticks old, every demand
  published and the word for the peer are 0, whatever the law, the engagement machine and the slewed turn say: a
  leader that cannot hear its follower does not spin the machine with the turn.\<close>

theorem stale_peer_stops:
  assumes "reachable_board Q m s" "control_task Q s smp dt = (s', out)"
    "cd_mode (ct_dispatch (os_ctl s)) \<in> {Leader, Follower}" "rigid_peer (os_inbox s') = None"
  shows "co_torque_setpoint out = replicate m 0 \<and> cs_peer_demand (cyclic_of s') = 0 \<and>
    (li_peer (os_inbox s') = None \<or> 5 < li_cyclic_age (os_inbox s'))"
proof -
  have inv: "board_inv m s" "0 < m" using board_reachable_inv [OF assms(1)] by auto
  from pass [OF assms(2) inv] obtain u oc l v inp x others where
    pre: "pre_dispatch Q s smp dt = (u, oc, l)" and d: "dispatched Q u (to_mode oc = mode.Run) v inp x others"
    and s': "s' = v\<lparr>os_control_ticks := os_control_ticks v + 1\<rparr>" "co_torque_setpoint out = ct_wheel_demand (os_ctl s')"
    and iu: "board_inv m u" by metis
  note p = pre_inv(2) [OF pre inv(1)] and same = dispatched_fields(1) [OF d]
  note d = d [unfolded dispatched_def Let_def p]
  have "os_inbox s' = os_inbox u" by (simp add: s' same)
  then have stale: "is_rigid (cd_mode (ct_dispatch (os_ctl s))) \<and> rigid_peer (os_inbox u) = None"
    using assms(3,4) by (auto simp: is_rigid_def)
  then have "co_torque_setpoint out = 0 # others" "ct_peer_demand (os_ctl s') = 0" using d by (simp_all add: s')
  moreover have "others = replicate (m - 1) 0"
    using d assms(3) iu by (intro replicate_eqI) (auto simp: board_inv_def)
  moreover have "Suc (m - 1) = m" using inv by simp
  ultimately have "co_torque_setpoint out = replicate m 0" "ct_peer_demand (os_ctl s') = 0" by (metis replicate_Suc)+
  then show ?thesis using assms(4) by (auto simp: cyclic_of_def rigid_peer_def RIGID_STALE_TICKS_def split: if_splits)
qed

lemma pass_inbox:
  assumes "control_task Q s smp dt = (s', out)" "board_inv m s" "0 < m"
  shows "os_inbox s' = tick_ages (os_inbox s) (dt > 0)"
proof -
  from pass [OF assms] obtain u oc l v inp x others where
    "pre_dispatch Q s smp dt = (u, oc, l)" "dispatched Q u (to_mode oc = mode.Run) v inp x others"
    "s' = v\<lparr>os_control_ticks := os_control_ticks v + 1\<rparr>" by metis
  then show ?thesis by (simp add: dispatched_fields(1) pre_fields(3))
qed

definition lead_row :: arm_control where
  "lead_row =
     \<lparr>ar_mode_byte = 1, ar_frame_byte = 1, ar_leader_byte = 1, ar_side_byte = 0, ar_rider_byte = 0, ar_battery_floor = 0,
      ar_drive_turn = drive_turn_new 3000 1000, ar_gain_max = [0, 0, 0, 0], ar_pos_clamp = 0\<rparr>"

text \<open>A board armed with a rigid leader's row, over any board of which it holds: its producer and its turn.\<close>

lemma lead_fields:
  assumes "board_step Q s (ArmRow lead_row) = s'"
  shows "cd_mode (ct_dispatch (os_ctl s')) = Leader" "os_inbox s' = os_inbox s" "ct_drive_turn (os_ctl s') = drive_turn_new 3000 1000"
    "os_latches s' = os_latches s" "os_mode s' = os_mode s" "os_tilt_latch s' = os_tilt_latch s" "os_imu_health s' = os_imu_health s"
    "os_imu_configured s' = os_imu_configured s" "os_motor_fault s' = os_motor_fault s" "os_button_pressed s' = os_button_pressed s"
    "os_motor_moving s' = os_motor_moving s" "disagrees (os_machine s') = disagrees (os_machine s)"
    "bw_wheel_speed (os_block s') = bw_wheel_speed (os_block s)"
    "cd_mode (ct_dispatch (os_ctl s)) \<noteq> Leader \<Longrightarrow> ct_fsm (os_ctl s') = fsm_default (q_fix Q) \<and> ct_turn (os_ctl s') = 0"
    "\<not> bw_role_right (os_block s')"
  unfolding assms [symmetric]
  by (simp_all add: install_arm_control_def re_apply_control_values_def Let_def lead_row_def re_apply_values_def select_mode_def
      control_mode_from_u8_def frame_from_u8_def reset_engagement_def disagrees_def peer_silent_def machine_armed_def side_is_right_def split: prod.split)

abbreviation demo_leader :: "(int, int) board" where
  "demo_leader \<equiv> board_step demo_q (boot_board 1) (ArmRow lead_row)"

lemma demo_leader_fields:
  "reachable_board demo_q 1 demo_leader" "cd_mode (ct_dispatch (os_ctl demo_leader)) = Leader" "li_peer (os_inbox demo_leader) = None"
  using reachable_step [OF boot_reachable, of 1 "ArmRow lead_row"] lead_fields(1,2) [OF refl, of demo_q "boot_board 1"]
  by (simp_all add: boot_board_def board_new_def inbox_new_def del: board_step.simps)

lemma stale_peer_stops_witness: "co_torque_setpoint (snd (control_task demo_q demo_leader None 1)) = [0]"
proof -
  obtain s' out where t: "control_task demo_q demo_leader None 1 = (s', out)" by fastforce
  have inv: "board_inv 1 demo_leader" using board_reachable_inv [OF demo_leader_fields(1)] by simp
  have "li_peer (os_inbox s') = None"
    using demo_leader_fields(3) by (simp add: pass_inbox [OF t inv] tick_ages_def Let_def)
  then have "rigid_peer (os_inbox s') = None" by (simp add: rigid_peer_def)
  then show ?thesis using stale_peer_stops [OF demo_leader_fields(1) t] demo_leader_fields(2) by (simp add: t del: board_step.simps)
qed

end
