(* ===== verification/BoardSafety.thy ===== *)
theory BoardSafety
  imports OrchestraProps
begin

unbundle bit_operations_syntax

text \<open>
  What stops a board: a fault disarms within two passes and leaves nothing engaged, a
  fallen machine cannot be re-armed by a request still held.
\<close>

section \<open>The mode machine's step\<close>

lemma tick_next:
  assumes "mode_tick m i = (m', oc)"
  shows "to_mode oc = mm_mode m'"
    "mm_mode m' =
      (case mm_mode m of
         Off \<Rightarrow> if \<not> (mi_fault_a i \<or> mi_fault_b i \<or> mi_off_inhibit i) \<and> mi_power_request i then Init else Off
       | Init \<Rightarrow> Ready
       | Ready \<Rightarrow> mode.Run
       | mode.Run \<Rightarrow> if mi_fault_a i \<or> mi_fault_b i \<or> \<not> mi_power_request i then Shutdown else mode.Run
       | Shutdown \<Rightarrow> Off)"
    "mm_mode m = Shutdown \<Longrightarrow> \<forall>g\<in>set (mm_moe m'). \<not> gate_allowed g"
  using assms by (auto simp: mode_tick_def Let_def moe_clear_def split: mode.splits if_splits)

section \<open>The levels of a pass\<close>

lemma fault_a_iff:
  "lv_fault_a l \<longleftrightarrow> lv_comms_loss l \<or> lv_imu_loss l \<or> lv_motor l AND EV_MOTOR_BITS \<noteq> 0 \<or> lv_latch_a l \<or> lv_tilt l \<or> lv_peer_down l"
proof -
  have pick: "(if b then k else 0) AND m = (if b then k AND m else 0)" for b and k m :: u16 by simp
  have motor: "(w AND EV_MOTOR_BITS) AND FAULT_A_BITS = w AND EV_MOTOR_BITS" for w
    by (simp add: and.assoc) (simp add: FAULT_A_BITS_def EV_MOTOR_BITS_def ev_bits)
  have bits: "EV_COMMS_LOSS AND FAULT_A_BITS \<noteq> 0" "EV_STOP_ALL AND FAULT_A_BITS \<noteq> 0" "EV_IMU_LOSS AND FAULT_A_BITS \<noteq> 0"
    "EV_LATCH_A AND FAULT_A_BITS \<noteq> 0" "EV_LATCH_B AND FAULT_A_BITS = 0" "EV_MODE_FAULT AND FAULT_A_BITS = 0"
    "EV_POWER_REQUEST AND FAULT_A_BITS = 0" "EV_CONFIG AND FAULT_A_BITS = 0" "EV_MACHINE AND FAULT_A_BITS = 0"
    by (simp_all add: FAULT_A_BITS_def EV_MOTOR_BITS_def ev_bits)
  show ?thesis
    unfolding lv_fault_a_def level_mask_def own_mask_def Let_def bit.conj_disj_distrib2 pick motor
    by (simp add: bits or_eq_0_iff)
qed

text \<open>What a pass leaves of the facts its mode machine was given: the stop levels can be read off the state after
  it, as long as it does not end in OFF.\<close>

definition stop_level :: "('f, 'o) board \<Rightarrow> bool" where
  "stop_level s \<longleftrightarrow>
     inbox_comms_loss (os_inbox s) \<or> ih_loss (os_imu_health s) \<or> os_motor_fault s AND EV_MOTOR_BITS \<noteq> 0 \<or>
     latch_a_fires s \<or> os_tilt_latch s \<or> peer_down_level s \<or> (1 < length (os_latches s) \<and> is_latched (os_latches s ! 1)) \<or>
     \<not> power_request s"

lemma pass_mode:
  assumes "control_task Q s smp dt = (s', out)" "board_inv m s" "0 < m"
  obtains oc where "mode_tick (os_mode s) (board_mode_inputs (task_inputs Q s smp dt) (board_levels (task_inputs Q s smp dt))) = (os_mode s', oc)"
    "co_mode_byte out = mode_byte_of (to_mode oc)" "to_mode oc = mm_mode (os_mode s')"
    "to_mode oc \<noteq> Off \<Longrightarrow> stop_level s' \<longleftrightarrow> (let l = board_levels (task_inputs Q s smp dt) in lv_fault_a l \<or> lv_fault_b l \<or> \<not> lv_power_request l)"
    "os_tilt_latch s' = (os_tilt_latch (task_inputs Q s smp dt) \<and> \<not> co_off_request_clear out)"
    "co_off_request_clear out = (mm_mode (os_mode s') = Off \<and> \<not> power_request s')"
proof -
  let ?t = "task_inputs Q s smp dt"
  from pass [OF assms] obtain u oc l v inp x others where pre: "pre_dispatch Q s smp dt = (u, oc, l)"
    and d: "dispatched Q u (to_mode oc = mode.Run) v inp x others" and s': "s' = v\<lparr>os_control_ticks := os_control_ticks v + 1\<rparr>"
    and out: "co_mode_byte out = mode_byte_of (to_mode oc)" "co_off_request_clear out = (to_mode oc = Off \<and> \<not> lv_power_request l)" by metis
  note f = pre_fields [OF pre] and v = dispatched_fields [OF d]
  have tick: "mode_tick (os_mode s) (board_mode_inputs ?t (board_levels ?t)) = (os_mode s', oc)"
    using f(1,2) by (simp add: s' v)
  have oc: "to_mode oc = mm_mode (os_mode s')"
    by (rule tick_next(1) [OF tick])
  have mode_same: "cd_mode (ct_dispatch (os_ctl v)) = cd_mode (ct_dispatch (os_ctl ?t))"
    using d f(8) by (auto simp: dispatched_def Let_def reset_engagement_def)
  have req: "power_request s' = lv_power_request l"
    by (simp add: power_request_def s' v f(1,3,15) board_levels_def)
  have "stop_level s' \<longleftrightarrow> (let l = board_levels ?t in lv_fault_a l \<or> lv_fault_b l \<or> \<not> lv_power_request l)" if "to_mode oc \<noteq> Off"
    using that mode_same f(7,9)
    by (auto simp: stop_level_def s' v f(1,3,10,12,15,16) fault_a_iff Let_def board_levels_def lv_fault_b_def power_request_def
        peer_down_level_def latch_a_fires_def)
  moreover have "os_tilt_latch s' = (os_tilt_latch ?t \<and> \<not> co_off_request_clear out)"
    by (auto simp: s' v f(9) out(2) f(1))
  ultimately show ?thesis using that [OF tick out(1) oc] oc req out(2) by auto
qed

section \<open>Events between two passes\<close>

fun is_pass :: "'f board_event \<Rightarrow> bool" where
  "is_pass (ControlPass smp dt) = True"
| "is_pass e = False"

lemma between_fields:
  assumes "\<not> is_pass e"
  shows "os_mode (board_step Q s e) = os_mode s" "os_tilt_latch (board_step Q s e) = os_tilt_latch s"
  using assms
  by (cases e; simp add: input_task_def raise_over_current_def set_ext_trip_def install_arm_control_def re_apply_control_values_def Let_def split: prod.split)+

lemma between:
  assumes "list_all (\<lambda>e. \<not> is_pass e) es"
  shows "os_mode (run_board Q es s) = os_mode s" "os_tilt_latch (run_board Q es s) = os_tilt_latch s"
  using assms by (induction es rule: rev_induct) (simp_all add: between_fields)

lemma reachable_run: "reachable_board Q m s \<Longrightarrow> reachable_board Q m (run_board Q es s)"
  by (induction es rule: rev_induct) (simp_all add: reachable_step)

lemma reset_idle:
  assumes "fsm_step F inp p (fsm_default F) = (st, x)" "\<not> fi_power_enable inp"
  shows "fs_sub_state st = sub_state.Idle" "fs_env st = 0" "x = 0" "fs_torque_setpoint st = 0"
proof -
  have d: "fs_sub_state (fsm_default F) = sub_state.Idle" "fs_env (fsm_default F) = 0" by (simp_all add: fsm_default_def)
  have ne: "\<not> engages F inp" using assms(2) by (simp add: engages_def)
  have h: "handler F inp p (fsm_default F) = fsm_idle F inp p (fsm_default F)" by (simp add: handler_def d)
  have e: "fs_env (fsm_idle F inp p (fsm_default F)) = 0" using idle_env [of "fsm_default F" F inp p] ne by (simp add: d)
  show "fs_sub_state st = sub_state.Idle" using step_handler(1) [of F inp p "fsm_default F"] assms(1) ne by (simp add: h idle_handler d)
  show "fs_env st = 0" using step_handler(2) [of F inp p "fsm_default F"] assms(1) by (simp add: h e)
  show x: "x = 0" using torque_of_step [where st = "fsm_default F" and F = F and inp = inp and profile = p, OF default_ok] assms(1) by (simp add: h e)
  then show "fs_torque_setpoint st = 0" using step_handler(5) [of F inp p "fsm_default F"] assms(1) by simp
qed

text \<open>C6: A fault disarms, end to end. From RUN, if any stop level holds at the end of a pass (a stale peer, a lost
  IMU, a motor cause, either motor's latch, the tilt latch, a rigid peer's fault, or the power request gone),
  that pass ends in SHUTDOWN; and whatever frames, inputs, firmware words and re-reads follow, the next control
  pass ends in OFF with every gate closed, every latch cleared, the engagement machine in IDLE with a closed
  envelope and a torque word of 0 (so a later arm starts from nothing), and, on any board but a rigid leader,
  every wheel demand 0.\<close>

theorem fault_to_off:
  assumes "reachable_board Q m s" "mm_mode (os_mode s) = mode.Run" "control_task Q s smp dt = (s1, o1)" "stop_level s1"
    "list_all (\<lambda>e. \<not> is_pass e) es" "control_task Q (run_board Q es s1) smp' dt' = (s2, o2)"
  shows "mm_mode (os_mode s1) = Shutdown \<and> mm_mode (os_mode s2) = Off \<and> (\<forall>a\<in>set (co_moe o2). \<not> a) \<and>
    set (os_latches s2) \<subseteq> {fault_latch_new} \<and> fs_sub_state (ct_fsm (os_ctl s2)) = sub_state.Idle \<and>
    fs_env (ct_fsm (os_ctl s2)) = 0 \<and> fs_torque_setpoint (ct_fsm (os_ctl s2)) = 0 \<and>
    (cd_mode (ct_dispatch (os_ctl s2)) \<noteq> Leader \<longrightarrow> co_torque_setpoint o2 = replicate m 0)"
proof -
  have inv: "board_inv m s" "0 < m" using board_reachable_inv [OF assms(1)] by auto
  from pass_mode [OF assms(3) inv] obtain oc where
    tick: "mode_tick (os_mode s) (board_mode_inputs (task_inputs Q s smp dt) (board_levels (task_inputs Q s smp dt))) = (os_mode s1, oc)"
    and oc: "to_mode oc = mm_mode (os_mode s1)"
    and lev: "to_mode oc \<noteq> Off \<Longrightarrow> stop_level s1 \<longleftrightarrow> (let l = board_levels (task_inputs Q s smp dt) in lv_fault_a l \<or> lv_fault_b l \<or> \<not> lv_power_request l)"
    by metis
  note nxt = tick_next [OF tick]
  have "to_mode oc \<noteq> Off" unfolding nxt(1) nxt(2) by (simp add: assms(2))
  then have s1: "mm_mode (os_mode s1) = Shutdown"
    using lev assms(4) unfolding nxt(2) by (auto simp: assms(2) board_mode_inputs_def Let_def)
  let ?b = "run_board Q es s1"
  have "reachable_board Q m s1" using reachable_step [OF assms(1), of "ControlPass smp dt"] by (simp add: assms(3))
  then have binv: "board_inv m ?b" using board_reachable_inv [OF reachable_run] by blast
  have bmode: "mm_mode (os_mode ?b) = Shutdown" using s1 between(1) [OF assms(5)] by metis
  from pass [OF assms(6) binv inv(2)] obtain u oc' l v inp x others where pre: "pre_dispatch Q ?b smp' dt' = (u, oc', l)"
    and d: "dispatched Q u (to_mode oc' = mode.Run) v inp x others" and s2: "s2 = v\<lparr>os_control_ticks := os_control_ticks v + 1\<rparr>"
    and out: "co_torque_setpoint o2 = ct_wheel_demand (os_ctl s2)" "co_moe o2 = map (moe_allowed (os_mode s2)) [0..<m]" "board_inv m s2"
      "board_inv m u" by metis
  note f = pre_fields [OF pre] and vf = dispatched_fields [OF d]
  have off: "to_mode oc' = Off" "mm_mode (os_mode u) = Off" "\<forall>g\<in>set (mm_moe (os_mode u)). \<not> gate_allowed g"
    using tick_next [OF f(2)] bmode by auto
  have moe: "\<forall>a\<in>set (co_moe o2). \<not> a" using off(3) by (auto simp: out(2) s2 vf moe_allowed_def)
  have fsm: "ct_fsm (os_ctl u) = fsm_default (q_fix Q)" using f(8) off(1) by (simp add: reset_engagement_def)
  note dd = d [unfolded dispatched_def Let_def]
  have step: "fsm_step (q_fix Q) inp (profile_of STANDBY_SET) (fsm_default (q_fix Q)) = (ct_fsm (os_ctl v), x)" using dd by (simp add: fsm)
  have ne: "\<not> fi_power_enable inp" using dd off(1) by (simp add: shell_inputs_def)
  note idle = reset_idle [OF step ne]
  have "fs_sub_state (ct_fsm (os_ctl u)) = sub_state.Idle" by (simp add: fsm fsm_default_def)
  then have others: "\<forall>y\<in>set others. y = 0" using dd by blast
  have "\<forall>y\<in>set (co_torque_setpoint o2). y = 0" if "cd_mode (ct_dispatch (os_ctl s2)) \<noteq> Leader"
    using dd that others idle(3) by (auto simp: out(1) s2)
  moreover have "length (co_torque_setpoint o2) = m" using out(3) by (simp add: out(1) board_inv_def motors_def)
  ultimately have dem: "cd_mode (ct_dispatch (os_ctl s2)) \<noteq> Leader \<longrightarrow> co_torque_setpoint o2 = replicate m 0"
    by (auto intro!: replicate_eqI)
  have "set (os_latches s2) \<subseteq> {fault_latch_new}" using f(7) off(1) by (auto simp: s2 vf)
  then show ?thesis using s1 off(2) moe idle dem by (simp add: s2 vf)
qed

text \<open>A quiet board, disarmed or arming, with its button held, walks up to RUN.\<close>

definition unlatched :: "fault_latch \<Rightarrow> bool" where
  "unlatched l \<longleftrightarrow> fl_latch l = 0 \<and> fl_code l = 0 \<and> fl_ext_trip l = 0 \<and> fl_counter l = 0"

definition quiet :: "('f, 'o) board \<Rightarrow> bool" where
  "quiet s \<longleftrightarrow>
     li_peer (os_inbox s) = None \<and> \<not> os_imu_configured s \<and> \<not> ih_loss (os_imu_health s) \<and> os_motor_fault s = 0 \<and>
     (\<exists>l. os_latches s = [l] \<and> unlatched l) \<and> length (bw_wheel_speed (os_block s)) = 1 \<and> \<not> os_tilt_latch s \<and>
     os_button_pressed s \<and> \<not> os_motor_moving s \<and> \<not> disagrees (os_machine s)"

lemma quiet_pass:
  assumes "quiet s" "mm_mode (os_mode s) \<noteq> mode.Run" "board_inv 1 s" "control_task Q s None dt = (s', out)"
  shows "mm_mode (os_mode s') = (case mm_mode (os_mode s) of Off \<Rightarrow> Init | Init \<Rightarrow> Ready | Ready \<Rightarrow> mode.Run | _ \<Rightarrow> Off)" "quiet s'"
proof -
  let ?t = "task_inputs Q s None dt"
  from pass [OF assms(4,3) zero_less_one] obtain u oc l v inp x others where pre: "pre_dispatch Q s None dt = (u, oc, l)"
    and d: "dispatched Q u (to_mode oc = mode.Run) v inp x others" and s': "s' = v\<lparr>os_control_ticks := os_control_ticks v + 1\<rparr>"
    by metis
  note f = pre_fields [OF pre] and v = dispatched_fields [OF d]
  obtain lt where lt: "os_latches s = [lt]" "unlatched lt" using assms(1) by (auto simp: quiet_def)
  have att: "task_attitude Q w None dt = w" for w :: "('a, 'b) board" by (simp add: task_attitude_def)
  obtain lt' where lat: "os_latches ?t = [lt']" "unlatched lt'"
    using lt assms(1,2)
    by (auto simp: task_inputs_def Let_def att task_latches_def latch_tick_def quiet_def length_Suc_conv unlatched_def)
  have health: "\<not> ih_loss (os_imu_health ?t)"
    using assms(1) by (simp add: task_inputs_def Let_def task_health_def quiet_def imu_update_def imu_health_new_def)
  have tilt: "\<not> os_tilt_latch ?t" using assms(1) by (simp add: task_inputs_def Let_def task_tilt_def quiet_def)
  have peer: "li_peer (os_inbox ?t) = None" using assms(1) by (simp add: quiet_def tick_ages_def Let_def)
  have calm: "\<not> lv_fault_a (board_levels ?t)" "\<not> lv_fault_b (board_levels ?t)" "lv_power_request (board_levels ?t)"
    "\<not> mi_off_inhibit (board_mode_inputs ?t (board_levels ?t))"
    using assms(1) lat health tilt peer
    by (simp_all add: fault_a_iff lv_fault_b_def board_levels_def quiet_def latch_a_fires_def is_latched_def unlatched_def inbox_comms_loss_def
        peer_down_level_def rigid_peer_def power_request_def board_mode_inputs_def)
  show "mm_mode (os_mode s') = (case mm_mode (os_mode s) of Off \<Rightarrow> Init | Init \<Rightarrow> Ready | Ready \<Rightarrow> mode.Run | _ \<Rightarrow> Off)"
    using tick_next(2) [OF f(2)] calm assms(2) by (simp add: s' v f(1) board_mode_inputs_def split: mode.splits)
  show "quiet s'"
    using assms(1) lat health tilt peer
    by (auto simp: quiet_def s' v f fault_latch_new_def unlatched_def task_inputs_def Let_def)
qed

abbreviation press :: "int board_event" where
  "press \<equiv> InputPass \<lparr>is_button = True, is_pad_a = False, is_pad_b = False\<rparr>"

lemma demo_pressed:
  "quiet (run_board demo_q [press, press] (boot_board 0))" "mm_mode (os_mode (run_board demo_q [press, press] (boot_board 0))) = Off"
proof -
  have input: "run_board demo_q [press, press] (boot_board 0) = input_task (input_task (boot_board 0)
      \<lparr>is_button = True, is_pad_a = False, is_pad_b = False\<rparr>) \<lparr>is_button = True, is_pad_a = False, is_pad_b = False\<rparr>" (is "_ = ?b")
    by (simp add: run_board_def)
  have "os_button_pressed ?b" "\<not> disagrees (os_machine (boot_board 0))" by code_simp+
  moreover have same: "os_inbox (input_task s x) = os_inbox s" "os_imu_configured (input_task s x) = os_imu_configured s"
    "os_imu_health (input_task s x) = os_imu_health s" "os_motor_fault (input_task s x) = os_motor_fault s"
    "os_latches (input_task s x) = os_latches s" "os_block (input_task s x) = os_block s"
    "os_tilt_latch (input_task s x) = os_tilt_latch s" "os_motor_moving (input_task s x) = os_motor_moving s"
    "os_machine (input_task s x) = os_machine s" "os_mode (input_task s x) = os_mode s" for s :: "(int, int) board" and x
    by (simp_all add: input_task_def Let_def split: prod.split)
  ultimately show "quiet (run_board demo_q [press, press] (boot_board 0))"
    unfolding input by (simp add: quiet_def boot_board_def board_new_def inbox_new_def imu_health_new_def fault_latch_new_def unlatched_def block_words_new_def)
  show "mm_mode (os_mode (run_board demo_q [press, press] (boot_board 0))) = Off"
    unfolding input by (simp add: same boot_board_def board_new_def mode_machine_new_def)
qed

abbreviation demo_in_run :: "(int, int) board" where
  "demo_in_run \<equiv> run_board demo_q [press, press, ControlPass None 1, ControlPass None 1, ControlPass None 1] (boot_board 0)"

lemma demo_runs: "reachable_board demo_q 1 demo_in_run" "mm_mode (os_mode demo_in_run) = mode.Run" "quiet demo_in_run"
proof -
  let ?s0 = "run_board demo_q [press, press] (boot_board 0)"
  define s1 where "s1 = fst (control_task demo_q ?s0 None 1)"
  define s2 where "s2 = fst (control_task demo_q s1 None 1)"
  define s3 where "s3 = fst (control_task demo_q s2 None 1)"
  have run: "demo_in_run = s3" by (simp add: run_board_def s1_def s2_def s3_def)
  have r0: "reachable_board demo_q 1 ?s0" by (rule reachable_run [OF boot_reachable])
  have r1: "reachable_board demo_q 1 s1" using reachable_step [OF r0, of "ControlPass None 1"] by (simp add: s1_def)
  have r2: "reachable_board demo_q 1 s2" using reachable_step [OF r1, of "ControlPass None 1"] by (simp add: s2_def)
  have r3: "reachable_board demo_q 1 s3" using reachable_step [OF r2, of "ControlPass None 1"] by (simp add: s3_def)
  have q1: "quiet s1" "mm_mode (os_mode s1) = Init"
    using quiet_pass [OF demo_pressed(1) _ conjunct1 [OF board_reachable_inv [OF r0]] prod.collapse [symmetric]] demo_pressed(2)
    by (simp_all add: s1_def)
  have q2: "quiet s2" "mm_mode (os_mode s2) = Ready"
    using quiet_pass [OF q1(1) _ conjunct1 [OF board_reachable_inv [OF r1]] prod.collapse [symmetric]] q1(2) by (simp_all add: s2_def)
  have q3: "quiet s3" "mm_mode (os_mode s3) = mode.Run"
    using quiet_pass [OF q2(1) _ conjunct1 [OF board_reachable_inv [OF r2]] prod.collapse [symmetric]] q2(2) by (simp_all add: s3_def)
  show "reachable_board demo_q 1 demo_in_run" "mm_mode (os_mode demo_in_run) = mode.Run" "quiet demo_in_run"
    unfolding run by (rule r3, rule q3(2), rule q3(1))
qed

text \<open>The break input of the motor's timer stops the running board.\<close>

lemma fault_to_off_witness:
  "mm_mode (os_mode (run_board demo_q [MotorWords EV_MOTOR_HALL False [0] [0] 0, ControlPass None 1, FrameIn 2 (InputsPayload \<lparr>ri_buttons = 1, ri_rider = 0\<rparr>), ControlPass None 1] demo_in_run)) = Off"
proof -
  let ?b = "board_step demo_q demo_in_run (MotorWords EV_MOTOR_HALL False [0] [0] 0)"
  let ?es = "[FrameIn 2 (InputsPayload \<lparr>ri_buttons = 1, ri_rider = 0\<rparr>)] :: int board_event list"
  obtain s1 o1 where t1: "control_task demo_q ?b None 1 = (s1, o1)" by fastforce
  obtain s2 o2 where t2: "control_task demo_q (run_board demo_q ?es s1) None 1 = (s2, o2)" by fastforce
  have r: "reachable_board demo_q 1 ?b" by (rule reachable_step [OF demo_runs(1)])
  have m: "mm_mode (os_mode ?b) = mode.Run" using demo_runs(2) by simp
  have "os_motor_fault s1 = EV_MOTOR_HALL"
  proof -
    from pass [OF t1 conjunct1 [OF board_reachable_inv [OF r]] zero_less_one] obtain u oc l v inp x others where
      "pre_dispatch demo_q ?b None 1 = (u, oc, l)" "dispatched demo_q u (to_mode oc = mode.Run) v inp x others"
      "s1 = v\<lparr>os_control_ticks := os_control_ticks v + 1\<rparr>" by metis
    then show ?thesis by (simp add: dispatched_fields pre_fields)
  qed
  then have "stop_level s1" by (simp add: stop_level_def EV_MOTOR_BITS_def ev_bits)
  then have "mm_mode (os_mode s2) = Off" using fault_to_off [OF r m t1 _ _ t2] by simp
  then show ?thesis using t1 t2 by (simp add: run_board_def)
qed

section \<open>A fallen machine\<close>

text \<open>The request held: after every control pass of a history the power request is on.\<close>

fun request_held :: "('f, 'o) q_ops \<Rightarrow> ('f, 'o) board \<Rightarrow> 'f board_event list \<Rightarrow> bool" where
  "request_held Q s [] = True"
| "request_held Q s (e # es) =
     ((is_pass e \<longrightarrow> power_request (board_step Q s e)) \<and> request_held Q (board_step Q s e) es)"

definition passes :: "'f board_event list \<Rightarrow> nat" where
  "passes es = length (filter is_pass es)"

fun steps_to_off :: "mode \<Rightarrow> nat" where
  "steps_to_off Off = 0"
| "steps_to_off Shutdown = 1"
| "steps_to_off mode.Run = 2"
| "steps_to_off Ready = 3"
| "steps_to_off Init = 4"

lemma tilted_pass:
  assumes "board_inv m s" "0 < m" "control_task Q s smp dt = (s', out)" "os_tilt_latch s"
  shows "steps_to_off (mm_mode (os_mode s')) = steps_to_off (mm_mode (os_mode s)) - 1"
    "os_tilt_latch s' \<longleftrightarrow> \<not> co_off_request_clear out" "co_off_request_clear out \<longleftrightarrow> mm_mode (os_mode s') = Off \<and> \<not> power_request s'"
proof -
  let ?t = "task_inputs Q s smp dt"
  from pass_mode [OF assms(3,1,2)] obtain oc where
    tick: "mode_tick (os_mode s) (board_mode_inputs ?t (board_levels ?t)) = (os_mode s', oc)"
    and tl: "os_tilt_latch s' = (os_tilt_latch ?t \<and> \<not> co_off_request_clear out)"
    and clr: "co_off_request_clear out = (mm_mode (os_mode s') = Off \<and> \<not> power_request s')" by metis
  have t: "os_tilt_latch ?t" using assms(4) by (simp add: task_inputs_def Let_def task_tilt_def)
  then have "lv_fault_a (board_levels ?t)" by (simp add: fault_a_iff board_levels_def)
  then show "steps_to_off (mm_mode (os_mode s')) = steps_to_off (mm_mode (os_mode s)) - 1"
    using tick_next(2) [OF tick] by (simp add: board_mode_inputs_def split: mode.splits)
  show "os_tilt_latch s' \<longleftrightarrow> \<not> co_off_request_clear out" using tl t by simp
  show "co_off_request_clear out \<longleftrightarrow> mm_mode (os_mode s') = Off \<and> \<not> power_request s'" by (rule clr)
qed

text \<open>C7: A fallen machine does not right itself and drive off. Once the tilt latch is set, for as long as the power
  request is on after every control pass, and whatever else happens (frames, inputs, firmware words, re-reads,
  the machine coming level again), the latch stays set, the mode goes straight to OFF in at most four passes and
  never leaves it; and a pass releases the latch only by ending in OFF with the request off, which is the pass
  that says so.\<close>

theorem fallen_stays_down:
  assumes "reachable_board Q m s" "os_tilt_latch s" "request_held Q s es"
  shows "os_tilt_latch (run_board Q es s) \<and>
    steps_to_off (mm_mode (os_mode (run_board Q es s))) = steps_to_off (mm_mode (os_mode s)) - passes es \<and>
    (4 \<le> passes es \<or> mm_mode (os_mode s) = Off \<longrightarrow> mm_mode (os_mode (run_board Q es s)) = Off) \<and>
    (\<forall>smp dt s' out. control_task Q (run_board Q es s) smp dt = (s', out) \<and> \<not> os_tilt_latch s' \<longrightarrow>
       mm_mode (os_mode s') = Off \<and> \<not> power_request s' \<and> co_off_request_clear out)"
proof -
  have main: "os_tilt_latch (run_board Q es s) \<and>
      steps_to_off (mm_mode (os_mode (run_board Q es s))) = steps_to_off (mm_mode (os_mode s)) - passes es"
    using assms
  proof (induction es arbitrary: s)
    case (Cons e es)
    let ?s = "board_step Q s e"
    have run: "run_board Q (e # es) s = run_board Q es ?s" by (simp add: run_board_def)
    have "os_tilt_latch ?s \<and> steps_to_off (mm_mode (os_mode ?s)) = steps_to_off (mm_mode (os_mode s)) - passes [e]"
    proof (cases e)
      case (ControlPass smp dt)
      obtain s' out where t: "control_task Q s smp dt = (s', out)" by fastforce
      have inv: "board_inv m s" "0 < m" using board_reachable_inv [OF Cons.prems(1)] by auto
      show ?thesis
        using tilted_pass [OF inv t Cons.prems(2)] Cons.prems(3) by (simp add: ControlPass t passes_def)
    qed (use Cons.prems(2) between_fields [of e Q s] in \<open>simp_all add: passes_def\<close>)
    then show ?case
      using Cons.IH [OF reachable_step [OF Cons.prems(1)], of e] Cons.prems(3) unfolding run by (auto simp: passes_def)
  qed (simp add: passes_def)
  have inv: "board_inv m (run_board Q es s)" "0 < m" using board_reachable_inv [OF reachable_run [OF assms(1)]] by auto
  have four: "steps_to_off k \<le> 4" "steps_to_off k = 0 \<longleftrightarrow> k = Off" for k by (cases k; simp)+
  have off: "mm_mode (os_mode (run_board Q es s)) = Off" if "4 \<le> passes es \<or> mm_mode (os_mode s) = Off"
    using main that four(1) [of "mm_mode (os_mode s)"] four(2) [of "mm_mode (os_mode (run_board Q es s))"] by auto
  have release: "mm_mode (os_mode s') = Off \<and> \<not> power_request s' \<and> co_off_request_clear out"
    if "control_task Q (run_board Q es s) smp dt = (s', out)" "\<not> os_tilt_latch s'" for smp dt s' out
    using tilted_pass(2,3) [OF inv that(1) conjunct1 [OF main]] that(2) by simp
  show ?thesis using main off release by blast
qed

lemma pass_button:
  assumes "control_task Q s smp dt = (s', out)" "board_inv m s" "0 < m"
  shows "os_button_pressed s' = os_button_pressed s"
proof -
  from pass [OF assms] obtain u oc l v inp x others where pre: "pre_dispatch Q s smp dt = (u, oc, l)"
    and d: "dispatched Q u (to_mode oc = mode.Run) v inp x others" and s': "s' = v\<lparr>os_control_ticks := os_control_ticks v + 1\<rparr>"
    by metis
  show ?thesis using pre_fields(15) [OF pre] dispatched_fields(12) [OF d] by (simp add: s')
qed

text \<open>A machine rolled past the limit by one pass, its button held.\<close>

abbreviation demo_held :: "(int, int) board" where
  "demo_held \<equiv> board_step demo_q (board_step demo_q (boot_board 1) press) press"

definition roll_over :: "int imu_sample" where
  "roll_over = \<lparr>sm_gyro = [250000000000, 0, 0], sm_gyro_raw = [0, 0, 0], sm_accel_raw = [0, 0, 0], sm_temp = 0, sm_still = False\<rparr>"

definition demo_fallen :: "(int, int) board" where
  "demo_fallen = fst (control_task demo_q demo_held (Some roll_over) 16)"

lemma demo_fallen: "reachable_board demo_q 1 demo_fallen" "os_tilt_latch demo_fallen" "os_button_pressed demo_fallen"
proof -
  have r: "reachable_board demo_q 1 demo_held" by (intro reachable_step boot_reachable)
  then show "reachable_board demo_q 1 demo_fallen"
    using reachable_step [OF r, of "ControlPass (Some roll_over) 16"] by (simp add: demo_fallen_def)
  obtain s' out where t: "control_task demo_q demo_held (Some roll_over) 16 = (s', out)" by fastforce
  have inv: "board_inv 1 demo_held" using board_reachable_inv [OF r] by simp
  from pass_mode [OF t inv zero_less_one] obtain oc where
    tl: "os_tilt_latch s' = (os_tilt_latch (task_inputs demo_q demo_held (Some roll_over) 16) \<and> \<not> co_off_request_clear out)"
    and clr: "co_off_request_clear out = (mm_mode (os_mode s') = Off \<and> \<not> power_request s')" by metis
  have "os_button_pressed demo_held" by code_simp
  then have b: "os_button_pressed s'" using pass_button [OF t inv] by simp
  moreover have "os_tilt_latch (task_inputs demo_q demo_held (Some roll_over) 16)" by code_simp
  ultimately show "os_tilt_latch demo_fallen" "os_button_pressed demo_fallen"
    using tl clr t by (simp_all add: demo_fallen_def power_request_def)
qed

lemma fallen_stays_down_witness:
  "os_tilt_latch (run_board demo_q [MotorWords 0 False [0] [0] 0, ControlPass None 1, BatteryWord 7] demo_fallen)"
proof -
  let ?w = "board_step demo_q demo_fallen (MotorWords 0 False [0] [0] 0)"
  obtain s' out where t: "control_task demo_q ?w None 1 = (s', out)" by fastforce
  have inv: "board_inv 1 ?w" using board_reachable_inv [OF reachable_step [OF demo_fallen(1)]] by blast
  have "power_request s'" using pass_button [OF t inv zero_less_one] demo_fallen(3) by (simp add: power_request_def)
  then have "request_held demo_q demo_fallen [MotorWords 0 False [0] [0] 0, ControlPass None 1, BatteryWord 7]"
    using t by simp
  then show ?thesis using fallen_stays_down [OF demo_fallen(1,2)] by blast
qed

end
