(* ===== verification/BoardTiming.thy ===== *)
theory BoardTiming
  imports BoardSafety
begin

unbundle bit_operations_syntax

text \<open>
  What a board does with time: the clocks of its three emissions stay below their periods, a pass that serves no
  new tick moves nothing that measures time, and the rates of the emissions hold whatever the scheduling.
\<close>

section \<open>The cadence\<close>

lemma unat_sat_add: "unat (sat_add a b) = min (unat a + unat b) (2 ^ LENGTH('a) - 1)" for a b :: "'a::len word"
proof (cases "a + b < a")
  case True
  then have "2 ^ LENGTH('a) \<le> unat a + unat b" by (metis no_olen_add_nat not_less word_le_nat_alt le_antisym linorder_not_le word_less_nat_alt)
  then show ?thesis using True by (simp add: sat_add_def unsigned_minus_1_eq_mask mask_eq_exp_minus_1)
next
  case False
  then have "unat a + unat b < 2 ^ LENGTH('a)" by (metis no_olen_add_nat not_less)
  then show ?thesis using False by (simp add: sat_add_def unat_word_ariths)
qed

text \<open>A cadence holds less than its period, and pays for each due pass with a period of ticks.\<close>

lemma cadence_step:
  assumes "cadence since dt period = (since', due)" "0 < period"
  shows "since' < period" "unat since' + (if due then unat period else 0) \<le> unat since + unat dt"
    "dt = 0 \<Longrightarrow> since < period \<Longrightarrow> since' = since \<and> \<not> due"
proof -
  have "unat (sat_add since dt) \<le> unat since + unat dt" by (simp add: unat_sat_add)
  then show "unat since' + (if due then unat period else 0) \<le> unat since + unat dt"
    using assms by (auto simp: cadence_def Let_def word_le_nat_alt)
  show "since' < period" using assms by (auto simp: cadence_def Let_def)
  show "since' = since \<and> \<not> due" if "dt = 0" "since < period"
    using assms that by (auto simp: cadence_def Let_def sat_add_def)
qed

text \<open>What one pass does to the clocks, the inbox and the attitude.\<close>

lemma pass_time:
  assumes "control_task Q s smp dt = (s', out)" "board_inv m s" "0 < m"
  shows "os_inbox s' = tick_ages (os_inbox s) (dt > 0)"
    "cadence (os_cyclic_since_tx s) dt CYCLIC_EMIT_TICKS = (os_cyclic_since_tx s', os_cyclic_due s')"
    "cadence (os_ble_cyclic_since_tx s) dt BLE_CYCLIC_DIVISOR = (os_ble_cyclic_since_tx s', os_ble_cyclic_due s')"
    "cadence (os_ble_peer_since_tx s) dt BLE_PEER_CYCLIC_TICKS = (os_ble_peer_since_tx s', os_ble_peer_due s')"
    "dt = 0 \<Longrightarrow> os_imu_health s' = os_imu_health s \<and> os_imu_live s' = os_imu_live s \<and> os_mahony s' = os_mahony s \<and>
       os_attitude s' = os_attitude s \<and> bw_pitch_word (os_block s') = bw_pitch_word (os_block s) \<and>
       bw_roll_word (os_block s') = bw_roll_word (os_block s) \<and> bw_pitch_rate (os_block s') = bw_pitch_rate (os_block s) \<and>
       bw_gating_field (os_block s') = bw_gating_field (os_block s)"
proof -
  let ?t = "task_inputs Q s smp dt"
  from pass [OF assms] obtain u oc l v inp x others where pre: "pre_dispatch Q s smp dt = (u, oc, l)"
    and d: "dispatched Q u (to_mode oc = mode.Run) v inp x others" and s': "s' = v\<lparr>os_control_ticks := os_control_ticks v + 1\<rparr>"
    by metis
  note f = pre_fields [OF pre] and v = dispatched_fields [OF d]
  show "os_inbox s' = tick_ages (os_inbox s) (dt > 0)" by (simp add: s' v f)
  show "cadence (os_cyclic_since_tx s) dt CYCLIC_EMIT_TICKS = (os_cyclic_since_tx s', os_cyclic_due s')"
    "cadence (os_ble_cyclic_since_tx s) dt BLE_CYCLIC_DIVISOR = (os_ble_cyclic_since_tx s', os_ble_cyclic_due s')"
    "cadence (os_ble_peer_since_tx s) dt BLE_PEER_CYCLIC_TICKS = (os_ble_peer_since_tx s', os_ble_peer_due s')"
    by (simp_all add: s' v f task_inputs_def Let_def)
  show "os_imu_health s' = os_imu_health s \<and> os_imu_live s' = os_imu_live s \<and> os_mahony s' = os_mahony s \<and>
       os_attitude s' = os_attitude s \<and> bw_pitch_word (os_block s') = bw_pitch_word (os_block s) \<and>
       bw_roll_word (os_block s') = bw_roll_word (os_block s) \<and> bw_pitch_rate (os_block s') = bw_pitch_rate (os_block s) \<and>
       bw_gating_field (os_block s') = bw_gating_field (os_block s)" if dt: "dt = 0"
  proof -
    have "task_attitude Q w smp 0 = w" "task_health w (smp \<noteq> None) False = w" for w
      by (simp_all add: task_attitude_def task_health_def split: option.split)
    then have "?t = task_tilt (task_latches (task_battery (task_clocks s 0)))" by (simp add: task_inputs_def dt)
    then show ?thesis by (simp add: s' v f)
  qed
qed

section \<open>The clocks of a reachable board\<close>

definition clocks_ok :: "('f, 'o) board \<Rightarrow> bool" where
  "clocks_ok s \<longleftrightarrow>
     os_cyclic_since_tx s < CYCLIC_EMIT_TICKS \<and> os_ble_cyclic_since_tx s < BLE_CYCLIC_DIVISOR \<and>
     os_ble_peer_since_tx s < BLE_PEER_CYCLIC_TICKS"

lemma periods: "0 < CYCLIC_EMIT_TICKS" "0 < BLE_CYCLIC_DIVISOR" "0 < BLE_PEER_CYCLIC_TICKS"
  "unat CYCLIC_EMIT_TICKS = 2" "unat BLE_CYCLIC_DIVISOR = 50" "unat BLE_PEER_CYCLIC_TICKS = 100"
  by (simp_all add: CYCLIC_EMIT_TICKS_def BLE_CYCLIC_DIVISOR_def BLE_PEER_CYCLIC_TICKS_def)

lemma between_clocks:
  assumes "\<not> is_pass e"
  shows "os_cyclic_since_tx (board_step Q s e) = os_cyclic_since_tx s"
    "os_ble_cyclic_since_tx (board_step Q s e) = os_ble_cyclic_since_tx s"
    "os_ble_peer_since_tx (board_step Q s e) = os_ble_peer_since_tx s"
  using assms
  by (cases e; simp add: input_task_def raise_over_current_def set_ext_trip_def install_arm_control_def re_apply_control_values_def Let_def split: prod.split)+

lemma step_clocks:
  assumes "board_inv m s" "0 < m" "clocks_ok s"
  shows "clocks_ok (board_step Q s e)"
proof (cases "is_pass e")
  case True
  then obtain smp dt where e: "e = ControlPass smp dt" by (cases e) auto
  obtain s' out where t: "control_task Q s smp dt = (s', out)" by fastforce
  show ?thesis
    using pass_time(2-4) [OF t assms(1,2), THEN cadence_step(1)] by (simp add: clocks_ok_def e t periods)
qed (use assms(3) between_clocks [of e Q s] in \<open>simp add: clocks_ok_def\<close>)

lemma reachable_clocks:
  assumes "reachable_board Q m s"
  shows "clocks_ok s"
proof -
  from assms obtain a b cfg gains cal ident mach es where m: "0 < m"
    and s: "s = run_board Q es (board_new Q m a b cfg gains cal ident mach)" (is "_ = run_board Q es ?n") by (auto simp: reachable_board_def)
  have "clocks_ok (run_board Q es ?n)"
  proof (induction es rule: rev_induct)
    case Nil
    show ?case by (simp add: clocks_ok_def board_new_def periods)
  next
    case (snoc e es)
    then show ?case using step_clocks [OF run_inv [OF new_inv m] m] by simp
  qed
  then show ?thesis by (simp add: s)
qed

section \<open>A catch-up burst\<close>

text \<open>Everything that measures time, or was measured at a time.\<close>

definition timed :: "('f, 'o) board \<Rightarrow> link_inbox \<times> imu_health \<times> bool \<times> ('f, 'o) mahony \<times> ('f, 'o) att_output \<times> int list \<times> u32 list" where
  "timed s =
     (os_inbox s, os_imu_health s, os_imu_live s, os_mahony s, os_attitude s,
      [bw_pitch_word (os_block s), bw_roll_word (os_block s), bw_pitch_rate (os_block s), bw_gating_field (os_block s)],
      [os_cyclic_since_tx s, os_ble_cyclic_since_tx s, os_ble_peer_since_tx s])"

text \<open>A burst of catch-up passes measures nothing twice and says nothing. However many control passes run back
  to back on the same scheduler tick after the first, whatever their samples, none of them ages a peer, a drive
  slot or a remote, counts an IMU read as failed or good, integrates the attitude or moves its words and the
  pitch rate, or advances an emission clock; and after each of them no cyclic state is owed to any port.\<close>

theorem catch_up_burst:
  assumes "reachable_board Q m s"
  shows "timed (run_board Q (map (\<lambda>smp. ControlPass smp 0) smps) s) = timed s \<and>
    (smps \<noteq> [] \<longrightarrow> (\<forall>a. cyclic_tx (run_board Q (map (\<lambda>smp. ControlPass smp 0) smps) s) a = None \<and>
       ble_cyclic_tx (run_board Q (map (\<lambda>smp. ControlPass smp 0) smps) s) a = None \<and>
       ble_peer_tx (run_board Q (map (\<lambda>smp. ControlPass smp 0) smps) s) a = None))"
proof (induction smps rule: rev_induct)
  case (snoc smp smps)
  let ?s = "run_board Q (map (\<lambda>smp. ControlPass smp 0) smps) s"
  have r: "reachable_board Q m ?s" by (rule reachable_run [OF assms])
  then have inv: "board_inv m ?s" "0 < m" and c: "clocks_ok ?s" using board_reachable_inv reachable_clocks by auto
  obtain s' out where t: "control_task Q ?s smp 0 = (s', out)" by fastforce
  note p = pass_time [OF t inv]
  have k: "os_cyclic_since_tx s' = os_cyclic_since_tx ?s \<and> \<not> os_cyclic_due s'"
    "os_ble_cyclic_since_tx s' = os_ble_cyclic_since_tx ?s \<and> \<not> os_ble_cyclic_due s'"
    "os_ble_peer_since_tx s' = os_ble_peer_since_tx ?s \<and> \<not> os_ble_peer_due s'"
    using cadence_step(3) [OF p(2)] cadence_step(3) [OF p(3)] cadence_step(3) [OF p(4)] c by (simp_all add: clocks_ok_def periods)
  have "timed s' = timed ?s" using p(1,5) k by (simp add: timed_def tick_ages_def)
  then show ?case using snoc.IH k by (simp add: t cyclic_tx_def ble_cyclic_tx_def ble_peer_tx_def)
qed simp

lemma catch_up_burst_witness:
  "timed (run_board demo_q (map (\<lambda>smp. ControlPass smp 0) [None, Some roll_over, None]) demo_in_run) = timed demo_in_run"
  using catch_up_burst [OF demo_runs(1)] by blast

section \<open>The rates of the emissions\<close>

text \<open>The passes of a history after which a board would hand a port something to send, and the ticks they served.\<close>

fun emissions :: "(('f, 'o) board \<Rightarrow> bool) \<Rightarrow> ('f, 'o) q_ops \<Rightarrow> ('f, 'o) board \<Rightarrow> 'f board_event list \<Rightarrow> nat" where
  "emissions owed Q s [] = 0"
| "emissions owed Q s (e # es) =
     (if is_pass e \<and> owed (board_step Q s e) then 1 else 0) + emissions owed Q (board_step Q s e) es"

fun ticks_served :: "'f board_event list \<Rightarrow> nat" where
  "ticks_served [] = 0"
| "ticks_served (ControlPass smp dt # es) = unat dt + ticks_served es"
| "ticks_served (e # es) = ticks_served es"

lemma ticks_cons: "ticks_served (e # es) = (case e of ControlPass smp dt \<Rightarrow> unat dt | _ \<Rightarrow> 0) + ticks_served es"
  by (cases e) simp_all

lemma rate:
  assumes "\<And>s smp dt s' out. board_inv m s \<Longrightarrow> control_task Q s smp dt = (s', out) \<Longrightarrow>
      cadence (clock s) dt period = (clock s', due s')" "0 < period" "0 < m"
    "\<And>s e. \<not> is_pass e \<Longrightarrow> clock (board_step Q s e) = clock s" "\<And>s. owed s \<Longrightarrow> due s"
  shows "board_inv m s \<Longrightarrow> unat period * emissions owed Q s es \<le> unat (clock s) + ticks_served es"
proof (induction es arbitrary: s)
  case (Cons e es)
  let ?s = "board_step Q s e"
  have ih: "unat period * emissions owed Q ?s es \<le> unat (clock ?s) + ticks_served es"
    using Cons.IH [OF step_inv [OF Cons.prems assms(3)]] .
  show ?case
  proof (cases "is_pass e")
    case True
    then obtain smp dt where e: "e = ControlPass smp dt" by (cases e) auto
    obtain s' out where t: "control_task Q s smp dt = (s', out)" by fastforce
    have "unat (clock s') + (if due s' then unat period else 0) \<le> unat (clock s) + unat dt"
      using cadence_step(2) [OF assms(1) [OF Cons.prems t] assms(2)] .
    then show ?thesis using ih assms(5) [of s'] by (auto simp: e t algebra_simps split: if_splits)
  next
    case False
    then have "clock ?s = clock s" by (rule assms(4))
    then show ?thesis using ih False by (cases e) (simp_all add: ticks_cons)
  qed
qed simp

text \<open>The three emission rates, in ticks and not in calls. From any reachable state, over any history, however
  the scheduler bunches its passes and whatever tick counts they carry: the passes that owe the inter-board port
  a cyclic state number at most one per 2 ticks served, those that owe the phone's port one at most one per 50, and
  those that forward the peer's at most one per 100, each rounded up; so a stalled board that catches up cannot
  flood its peer's receive ring.\<close>

theorem emission_rate:
  assumes "reachable_board Q m s"
  shows "2 * emissions (\<lambda>s. cyclic_tx s addressed \<noteq> None) Q s es \<le> 1 + ticks_served es \<and>
    50 * emissions (\<lambda>s. ble_cyclic_tx s addressed \<noteq> None) Q s es \<le> 49 + ticks_served es \<and>
    100 * emissions (\<lambda>s. ble_peer_tx s addressed \<noteq> None) Q s es \<le> 99 + ticks_served es"
proof -
  have inv: "board_inv m s" "0 < m" and c: "clocks_ok s" using board_reachable_inv [OF assms] reachable_clocks [OF assms] by auto
  have bound: "unat (os_cyclic_since_tx s) \<le> 1" "unat (os_ble_cyclic_since_tx s) \<le> 49" "unat (os_ble_peer_since_tx s) \<le> 99"
    using c by (simp_all add: clocks_ok_def word_less_nat_alt periods)
  have "unat CYCLIC_EMIT_TICKS * emissions (\<lambda>s. cyclic_tx s addressed \<noteq> None) Q s es \<le> unat (os_cyclic_since_tx s) + ticks_served es"
    by (rule rate [where due = os_cyclic_due and m = m, OF _ periods(1) inv(2) between_clocks(1) _ inv(1)])
      (use pass_time(2) inv(2) in \<open>auto simp: cyclic_tx_def split: if_splits\<close>)
  moreover have "unat BLE_CYCLIC_DIVISOR * emissions (\<lambda>s. ble_cyclic_tx s addressed \<noteq> None) Q s es
      \<le> unat (os_ble_cyclic_since_tx s) + ticks_served es"
    by (rule rate [where due = os_ble_cyclic_due and m = m, OF _ periods(2) inv(2) between_clocks(2) _ inv(1)])
      (use pass_time(3) inv(2) in \<open>auto simp: ble_cyclic_tx_def split: if_splits\<close>)
  moreover have "unat BLE_PEER_CYCLIC_TICKS * emissions (\<lambda>s. ble_peer_tx s addressed \<noteq> None) Q s es
      \<le> unat (os_ble_peer_since_tx s) + ticks_served es"
    by (rule rate [where due = os_ble_peer_due and m = m, OF _ periods(3) inv(2) between_clocks(3) _ inv(1)])
      (use pass_time(4) inv(2) in \<open>auto simp: ble_peer_tx_def split: if_splits\<close>)
  ultimately show ?thesis using bound by (simp add: periods)
qed

lemma emission_rate_witness:
  "2 * emissions (\<lambda>s. cyclic_tx s True \<noteq> None) demo_q (boot_board 0) [ControlPass None 3, ControlPass None 0, ControlPass None 1] \<le> 5"
  using emission_rate [OF boot_reachable, of True 0 "[ControlPass None 3, ControlPass None 0, ControlPass None 1]"] by simp

end
