(* ===== verification/RigidPair.thy ===== *)
theory RigidPair
  imports BoardTiming
begin

unbundle bit_operations_syntax

text \<open>
  The two boards of a rigid machine: what one publishes and what the other makes of it. The torque the leader
  computes is split over the two wheels and arrives whole; a board's fault stops its peer and never itself through
  its peer; and the turn of a leader whose engagement machine is in IDLE, which is not 0.
\<close>

section \<open>Hearing a peer\<close>

abbreviation heard :: "('f, 'o) board \<Rightarrow> u8 \<Rightarrow> cyclic_state \<Rightarrow> ('f, 'o) board" where
  "heard s src c \<equiv> s\<lparr>os_inbox := inbox_accept (os_inbox s) src (CyclicPayload c)\<rparr>"

lemma heard_peer:
  "rigid_peer (inbox_accept b src (CyclicPayload c)) = Some c"
  "rigid_peer (tick_ages (inbox_accept b src (CyclicPayload c)) served) = Some c"
  by (auto simp: rigid_peer_def tick_ages_def inbox_accept_def Let_def RIGID_STALE_TICKS_def sat_add_def)

lemma own_fault_bits:
  "own_mask l AND FAULT_A_BITS \<noteq> 0 \<longleftrightarrow>
     lv_comms_loss l \<or> lv_imu_loss l \<or> lv_motor l AND EV_MOTOR_BITS \<noteq> 0 \<or> lv_latch_a l \<or> lv_tilt l"
proof -
  have "own_mask l AND FAULT_A_BITS \<noteq> 0 \<longleftrightarrow> lv_fault_a (l\<lparr>lv_peer_down := False\<rparr>)"
    by (simp add: lv_fault_a_def level_mask_def own_mask_def)
  then show ?thesis by (simp add: fault_a_iff)
qed

lemma cyclic_flags_of:
  assumes "cd_mode (ct_dispatch (os_ctl s)) = Leader"
  shows "cs_leader (cyclic_of s)"
  using assms by (simp add: cs_leader_def cyclic_of_def cyclic_flags_def Let_def bit.conj_disj_distrib2 FLAG_LEADER_def or_eq_0_iff)

text \<open>A fault stops the other wheel and cannot come back. When a board accepts the cyclic state another board
  publishes after a pass, its peer-down level is on exactly if it is rigid and one of the other's OWN Fault-A
  producers was on in that pass (a stale link, a lost IMU, a motor cause, its motor-0 latch, its tilt): not the
  other's own peer-down, and not its power request, mode fault or second latch. So two boards that each stopped
  for the other are both released by the next exchange once neither has a fault of its own.\<close>

theorem peer_down_own_only:
  assumes "reachable_board Q m a" "control_task Q a smp dt = (a', out)"
  shows "peer_down_level (heard b src (cyclic_of a')) \<longleftrightarrow>
    is_rigid (cd_mode (ct_dispatch (os_ctl b))) \<and>
    (let t = task_inputs Q a smp dt
     in inbox_comms_loss (os_inbox t) \<or> ih_loss (os_imu_health t) \<or> os_motor_fault t AND EV_MOTOR_BITS \<noteq> 0 \<or>
        latch_a_fires t \<or> os_tilt_latch t)"
proof -
  have inv: "board_inv m a" "0 < m" using board_reachable_inv [OF assms(1)] by auto
  from pass [OF assms(2) inv] obtain u oc l v inp x others where pre: "pre_dispatch Q a smp dt = (u, oc, l)"
    and d: "dispatched Q u (to_mode oc = mode.Run) v inp x others" and a': "a' = v\<lparr>os_control_ticks := os_control_ticks v + 1\<rparr>"
    by metis
  have "cs_fault (cyclic_of a') = own_mask (board_levels (task_inputs Q a smp dt))"
    using pre_fields(1,5) [OF pre] dispatched_fields(6) [OF d] by (simp add: cyclic_of_def a')
  then show ?thesis
    by (simp add: peer_down_level_def heard_peer own_fault_bits board_levels_def Let_def)
qed

lemma peer_down_own_only_witness:
  "\<not> peer_down_level (heard demo_leader 2 (cyclic_of (fst (control_task demo_q (boot_board 0) None 1))))"
proof -
  obtain a' out where t: "control_task demo_q (boot_board 0) None 1 = (a', out)" by fastforce
  have "\<not> (let t = task_inputs demo_q (boot_board 0) None 1
     in inbox_comms_loss (os_inbox t) \<or> ih_loss (os_imu_health t) \<or> os_motor_fault t AND EV_MOTOR_BITS \<noteq> 0 \<or>
        latch_a_fires t \<or> os_tilt_latch t)" by code_simp
  then show ?thesis using peer_down_own_only [OF boot_reachable t] by (simp add: t)
qed

section \<open>The torque of the pair\<close>

text \<open>A pass with its dispatch in view.\<close>

lemma pass_dispatch:
  assumes "control_task Q s smp dt = (s', out)" "board_inv m s" "0 < m"
  obtains u oc l v where "pre_dispatch Q s smp dt = (u, oc, l)"
    "control_dispatch_step Q u (to_mode oc = mode.Run) = (v, co_torque_setpoint out)"
    "s' = v\<lparr>os_control_ticks := os_control_ticks v + 1\<rparr>" "board_inv m u" "to_mode oc = mm_mode (os_mode s')"
proof -
  obtain u oc l where pre: "pre_dispatch Q s smp dt = (u, oc, l)" using prod_cases3 by blast
  obtain v ds where disp: "control_dispatch_step Q u (to_mode oc = mode.Run) = (v, ds)" by fastforce
  note eq = control_task_eq [OF pre disp, unfolded assms(1), simplified] and inv = pre_inv(1) [OF pre assms(2)]
  have ok: "fsm_ok (ct_fsm (os_ctl u))" "0 < motors u" using inv assms(3) by (simp_all add: board_inv_def)
  obtain inp t others where d: "dispatched Q u (to_mode oc = mode.Run) v inp t others" using dispatch_shape(2) [OF disp ok] by blast
  have "to_mode oc = mm_mode (os_mode s')"
    using tick_next(1) [OF pre_fields(2) [OF pre]] eq dispatched_fields(3) [OF d] by simp
  then show ?thesis using that [OF pre _ _ inv] disp eq by simp
qed

lemma follower_dispatch:
  assumes "control_dispatch_step Q s run = (s', ds)" "cd_mode (ct_dispatch (os_ctl s)) = Follower"
    "rigid_peer (os_inbox s) = Some p" "cs_leader p"
  obtains g where "hd ds = snd (fsm_step (q_fix Q) (gated_inputs Q s run (cs_peer_demand p) g) (profile_of STANDBY_SET) (ct_fsm (os_ctl s)))"
  using assms by (auto simp: control_dispatch_step_def follower_step_def run_gated_shell_def shell_eq Let_def split_beta)

text \<open>The engaged machine with its envelope open passes a full-scale reference through.\<close>

lemma open_envelope:
  assumes "fs_sub_state st = sub_state.Run" "28500 \<le> fs_env st" "fs_env st \<le> 28700" "\<bar>fi_smoothed_ref inp\<bar> \<le> 28500"
    "\<not> fi_winddown_enables_clear inp" "fsm_ok st"
  shows "snd (fsm_step F inp profile st) = fi_smoothed_ref inp"
proof -
  have h: "handler F inp profile st = fsm_run F inp profile st" by (simp add: handler_def assms(1))
  have "28500 \<le> fs_env (fsm_run F inp profile st)"
    using assms(2,3,5) by (auto simp: fsm_run_def Let_def fsm_stop_def run_winddown_def run_envelope_def engage_consts add32_def)
  then show ?thesis using torque_of_step [OF assms(6), of F inp profile] assms(4) by (auto simp: h run_handler(1) max_def min_def)
qed

text \<open>C33: The pair delivers the torque the leader computed, divided as it says. In any states within the invariant
  every reachable board has: when a leader's pass ends with a fresh
  peer and a follower that is engaged with an open envelope (28500 or more) accepts the cyclic state it publishes
  and runs its next pass without leaving for OFF: the follower's wheel demand is the word on the wire, the two
  wheel demands add up to exactly twice the leader's machine torque, whatever the turn, and differ by exactly
  twice the turn, cut to the headroom the torque leaves and signed by the leader's side.\<close>

theorem rigid_pair_sum:
  assumes "board_inv m l \<and> 0 < m" "board_inv n f \<and> 0 < n" "cd_mode (ct_dispatch (os_ctl l)) = Leader"
    "cd_mode (ct_dispatch (os_ctl f)) = Follower" "control_task Q l smp dt = (l', lo)" "rigid_peer (os_inbox l') \<noteq> None"
    "fs_sub_state (ct_fsm (os_ctl f)) = sub_state.Run" "28500 \<le> fs_env (ct_fsm (os_ctl f))"
    "control_task R (heard f src (cyclic_of l')) smp' dt' = (f', fo)" "mm_mode (os_mode f') \<noteq> Off"
  defines "t \<equiv> fs_torque_setpoint (ct_fsm (os_ctl l'))"
  shows "hd (co_torque_setpoint fo) = cs_peer_demand (cyclic_of l') \<and>
    hd (co_torque_setpoint lo) + hd (co_torque_setpoint fo) = 2 * t \<and>
    hd (co_torque_setpoint lo) - hd (co_torque_setpoint fo) =
      (if bw_role_right (os_block l') then 2 else - 2) * bounded (28500 - \<bar>t\<bar>) (ct_turn (os_ctl l'))"
proof -
  have li: "board_inv m l" "0 < m" and fi: "board_inv n f" "0 < n" using assms(1,2) by blast+
  from pass [OF assms(5) li] obtain u oc lv v inp x others where pre: "pre_dispatch Q l smp dt = (u, oc, lv)"
    and d: "dispatched Q u (to_mode oc = mode.Run) v inp x others" and l': "l' = v\<lparr>os_control_ticks := os_control_ticks v + 1\<rparr>"
    and lo: "co_torque_setpoint lo = ct_wheel_demand (os_ctl l')" and iu: "board_inv m u" "board_inv m v" by metis
  have p: "cd_mode (ct_dispatch (os_ctl u)) = Leader" using pre_inv(2) [OF pre li(1)] assms(3) by simp
  note same = dispatched_fields(1,2) [OF d]
  have fresh: "rigid_peer (os_inbox u) \<noteq> None" using assms(6) by (simp add: l' same)
  note dd = d [unfolded dispatched_def Let_def p]
  have x: "x = t" using dd step_handler(5) [of "q_fix Q" inp "profile_of STANDBY_SET" "ct_fsm (os_ctl u)"] by (simp add: t_def l')
  have tb: "\<bar>t\<bar> \<le> 28500" using dispatched_torque [OF d] iu(1) p x by (simp add: board_inv_def)
  have turn: "ct_turn (os_ctl l') \<in> i32_range" using iu(2) by (simp add: board_inv_def l')
  let ?k = "bounded (28500 - \<bar>t\<bar>) (ct_turn (os_ctl l'))" and ?right = "bw_role_right (os_block l')"
  note ws = wheel_split_eq [OF tb turn]
  have own: "hd (co_torque_setpoint lo) = (if ?right then t + ?k else t - ?k)"
    and peer: "cs_peer_demand (cyclic_of l') = (if ?right then t - ?k else t + ?k)"
    using dd fresh ws(1) by (simp_all add: lo l' x same cyclic_of_def)
  have pb: "\<bar>cs_peer_demand (cyclic_of l')\<bar> \<le> 28500" using ws(2) tb unfolding peer by (auto split: if_splits)
  have lead: "cs_leader (cyclic_of l')" using dd by (intro cyclic_flags_of) (simp add: l')
  have hi: "board_inv n (heard f src (cyclic_of l'))" using fi(1) by (simp add: board_inv_def motors_def)
  from pass_dispatch [OF assms(9) hi fi(2)] obtain u' oc' lv' v' where pre': "pre_dispatch R (heard f src (cyclic_of l')) smp' dt' = (u', oc', lv')"
    and disp: "control_dispatch_step R u' (to_mode oc' = mode.Run) = (v', co_torque_setpoint fo)"
    and iu': "board_inv n u'" and oc': "to_mode oc' = mm_mode (os_mode f')" by metis
  note pf = pre_fields [OF pre']
  have fol: "cd_mode (ct_dispatch (os_ctl u')) = Follower" using pre_inv(2) [OF pre' hi] assms(4) by simp
  have rp: "rigid_peer (os_inbox u') = Some (cyclic_of l')" by (simp add: pf(3) heard_peer)
  have fsm: "ct_fsm (os_ctl u') = ct_fsm (os_ctl f)" using assms(10) oc' by (simp add: pf(8))
  from follower_dispatch [OF disp fol rp lead] obtain g where
    g: "hd (co_torque_setpoint fo) = snd (fsm_step (q_fix R) (gated_inputs R u' (to_mode oc' = mode.Run) (cs_peer_demand (cyclic_of l')) g)
          (profile_of STANDBY_SET) (ct_fsm (os_ctl u')))" by blast
  have "hd (co_torque_setpoint fo) = cs_peer_demand (cyclic_of l')"
    unfolding g using assms(7,8) iu' pb by (subst open_envelope) (auto simp: fsm gated_inputs_def board_inv_def fsm_ok_def)
  then show ?thesis using own peer by auto
qed

text \<open>An engaged follower with its envelope open, and a leader that heard it.\<close>

abbreviation demo_follower :: "(int, int) board" where
  "demo_follower \<equiv> (board_step demo_q (boot_board 0) (ArmRow (lead_row\<lparr>ar_leader_byte := 0\<rparr>)))
     \<lparr>os_mode := (mode_machine_new 1)\<lparr>mm_mode := mode.Run\<rparr>,
      os_ctl := (os_ctl (board_step demo_q (boot_board 0) (ArmRow (lead_row\<lparr>ar_leader_byte := 0\<rparr>))))
        \<lparr>ct_fsm := (fsm_default demo_fix)\<lparr>fs_sub_state := sub_state.Run, fs_env := 28500\<rparr>\<rparr>\<rparr>"

lemma rigid_pair_sum_witness:
  "\<exists>own applied t. own + applied = 2 * t \<and>
     own = hd (co_torque_setpoint (snd (control_task demo_q (heard demo_leader 2 (cyclic_of demo_follower)) None 1))) \<and>
     applied = hd (co_torque_setpoint (snd (control_task demo_q (heard demo_follower 1 (cyclic_of
       (fst (control_task demo_q (heard demo_leader 2 (cyclic_of demo_follower)) None 1)))) None 1)))"
proof -
  let ?l = "heard demo_leader 2 (cyclic_of demo_follower)"
  obtain l' lo where tl: "control_task demo_q ?l None 1 = (l', lo)" by fastforce
  obtain f' fo where tf: "control_task demo_q (heard demo_follower 1 (cyclic_of l')) None 1 = (f', fo)" by fastforce
  have li: "board_inv 1 ?l" using board_reachable_inv [OF demo_leader_fields(1)] by (simp add: board_inv_def motors_def del: board_step.simps)
  have fi: "board_inv 1 demo_follower"
    using board_reachable_inv [OF reachable_step [OF boot_reachable, of 0 "ArmRow (lead_row\<lparr>ar_leader_byte := 0\<rparr>)"]]
    by (simp add: board_inv_def motors_def fsm_ok_def fsm_default_def del: board_step.simps)
  have fol: "cd_mode (ct_dispatch (os_ctl demo_follower)) = Follower" by code_simp
  have fr: "rigid_peer (os_inbox l') \<noteq> None" using pass_inbox [OF tl li] heard_peer by simp
  have hi: "board_inv 1 (heard demo_follower 1 (cyclic_of l'))" using fi by (simp add: board_inv_def motors_def)
  from pass_mode [OF tf hi zero_less_one] obtain oc where "mode_tick (os_mode (heard demo_follower 1 (cyclic_of l')))
    (board_mode_inputs (task_inputs demo_q (heard demo_follower 1 (cyclic_of l')) None 1)
       (board_levels (task_inputs demo_q (heard demo_follower 1 (cyclic_of l')) None 1))) = (os_mode f', oc)" by metis
  from tick_next(2) [OF this] have off: "mm_mode (os_mode f') \<noteq> Off" by simp
  have "cd_mode (ct_dispatch (os_ctl ?l)) = Leader" using demo_leader_fields(2) by (simp del: board_step.simps)
  from rigid_pair_sum [OF _ _ this fol tl fr _ _ tf off] li fi show ?thesis
    using tl tf by (auto simp: fsm_default_def simp del: board_step.simps)
qed

section \<open>The turn of a leader that is not engaged\<close>

text \<open>C34: A leader that is not engaged still turns the machine. The engagement machine gates the common torque and
  not the turn: on a pass that starts with a leader's engagement machine in IDLE (its deck not upright, its rider
  gone, its battery unknown, its IMU not up) and ends with a fresh peer, the machine torque is 0 and the two wheels
  are given the slewed turn with opposite signs, all of it up to full scale: the board's own demand and the word
  it commands its follower are both nonzero whenever the turn is.\<close>

theorem idle_leader_turns:
  assumes "reachable_board Q m s" "cd_mode (ct_dispatch (os_ctl s)) = Leader" "fs_sub_state (ct_fsm (os_ctl s)) = sub_state.Idle"
    "control_task Q s smp dt = (s', out)" "rigid_peer (os_inbox s') \<noteq> None"
  defines "k \<equiv> bounded 28500 (ct_turn (os_ctl s'))"
  shows "fs_torque_setpoint (ct_fsm (os_ctl s')) = 0 \<and>
    hd (co_torque_setpoint out) = (if bw_role_right (os_block s') then k else - k) \<and>
    cs_peer_demand (cyclic_of s') = (if bw_role_right (os_block s') then - k else k) \<and>
    (hd (co_torque_setpoint out) \<noteq> 0 \<longleftrightarrow> ct_turn (os_ctl s') \<noteq> 0)"
proof -
  have inv: "board_inv m s" "0 < m" using board_reachable_inv [OF assms(1)] by auto
  from pass [OF assms(4) inv] obtain u oc l v inp x others where pre: "pre_dispatch Q s smp dt = (u, oc, l)"
    and d: "dispatched Q u (to_mode oc = mode.Run) v inp x others" and s': "s' = v\<lparr>os_control_ticks := os_control_ticks v + 1\<rparr>"
    and out: "co_torque_setpoint out = ct_wheel_demand (os_ctl s')" and iu: "board_inv m u" "board_inv m v" by metis
  have p: "cd_mode (ct_dispatch (os_ctl u)) = Leader" using pre_inv(2) [OF pre inv(1)] assms(2) by simp
  note same = dispatched_fields(1,2) [OF d] and dd = d [unfolded dispatched_def Let_def p]
  have fresh: "rigid_peer (os_inbox u) \<noteq> None" using assms(5) by (simp add: s' same)
  have idle: "fs_sub_state (ct_fsm (os_ctl u)) = sub_state.Idle"
    using pre_fields(8) [OF pre] assms(3) by (simp add: reset_engagement_def fsm_default_def)
  have step: "fsm_step (q_fix Q) inp (profile_of STANDBY_SET) (ct_fsm (os_ctl u)) = (ct_fsm (os_ctl v), x)" using dd by simp
  have ok: "fsm_ok (ct_fsm (os_ctl u))" using iu(1) by (simp add: board_inv_def)
  have h: "0 \<le> fs_env (handler (q_fix Q) inp (profile_of STANDBY_SET) (ct_fsm (os_ctl u)))"
    using handler_ok [OF ok, of "q_fix Q" inp "profile_of STANDBY_SET"] by (simp add: fsm_ok_def)
  then have x: "x = 0" using torque_of_step [OF ok, of "q_fix Q" inp "profile_of STANDBY_SET"] step
    by (simp add: handler_def idle idle_handler(2))
  have set: "fs_torque_setpoint (ct_fsm (os_ctl v)) = 0"
    using step_handler(5) [of "q_fix Q" inp "profile_of STANDBY_SET" "ct_fsm (os_ctl u)"] step x by simp
  have turn: "ct_turn (os_ctl v) \<in> i32_range" using iu(2) by (simp add: board_inv_def)
  note ws = wheel_split_eq [of 0, OF _ turn, simplified]
  have "k = bounded 28500 (ct_turn (os_ctl v))" by (simp add: k_def s')
  moreover have "bounded 28500 z \<noteq> 0 \<longleftrightarrow> z \<noteq> 0" for z by (auto simp: bounded_def)
  ultimately show ?thesis
    using dd fresh ws set by (simp add: s' out x same cyclic_of_def)
qed

text \<open>A running board armed into a rigid leader with no IMU, with a healthy follower and the stick hard over.\<close>

definition healthy :: cyclic_state where
  "healthy = (cyclic_of demo_follower)\<lparr>cs_fault := 0\<rparr>"

abbreviation demo_steered :: "(int, int) board" where
  "demo_steered \<equiv> run_board demo_q [ArmRow lead_row, FrameIn 2 (CyclicPayload healthy),
     FrameIn 9 (DrivePayload \<lparr>dc_kind = drive_kind.Throttle, dc_value = 0, dc_steer = 32767, dc_motor = 0\<rparr>)] demo_in_run"

lemma stays_run:
  assumes "control_task Q s smp dt = (s', out)" "board_inv m s" "0 < m" "mm_mode (os_mode s) = mode.Run" "\<not> stop_level s'"
  shows "mm_mode (os_mode s') = mode.Run"
proof -
  from pass_mode [OF assms(1-3)] obtain oc where
    tick: "mode_tick (os_mode s) (board_mode_inputs (task_inputs Q s smp dt) (board_levels (task_inputs Q s smp dt))) = (os_mode s', oc)"
    and oc: "to_mode oc = mm_mode (os_mode s')"
    and lev: "to_mode oc \<noteq> Off \<Longrightarrow> stop_level s' \<longleftrightarrow> (let l = board_levels (task_inputs Q s smp dt) in lv_fault_a l \<or> lv_fault_b l \<or> \<not> lv_power_request l)"
    by metis
  note nxt = tick_next(2) [OF tick]
  then have "to_mode oc \<noteq> Off" using assms(4) oc by simp
  then show ?thesis using nxt lev assms(4,5) by (simp add: board_mode_inputs_def Let_def)
qed

lemma none_ages: "tick_ages (inbox_new 1) served = inbox_new 1"
  by (cases served) (simp_all add: tick_ages_def inbox_new_def Let_def)

lemma demo_inbox: "os_inbox demo_in_run = inbox_new 1"
proof -
  have pass: "os_inbox (board_step demo_q w (ControlPass None 1)) = inbox_new 1"
    if "reachable_board demo_q 1 w" "os_inbox w = inbox_new 1" for w
  proof -
    obtain w' out where t: "control_task demo_q w None 1 = (w', out)" by fastforce
    show ?thesis using pass_inbox [OF t conjunct1 [OF board_reachable_inv [OF that(1)]] zero_less_one] by (simp add: t that(2) none_ages [simplified])
  qed
  let ?p = "run_board demo_q [press, press] (boot_board 0)"
  have "os_inbox ?p = inbox_new 1"
    by (simp add: run_board_def input_task_def Let_def boot_board_def board_new_def split: prod.split)
  moreover have "demo_in_run = board_step demo_q (board_step demo_q (board_step demo_q ?p (ControlPass None 1)) (ControlPass None 1)) (ControlPass None 1)"
    by (simp add: run_board_def)
  ultimately show ?thesis
    using reachable_run [OF boot_reachable, where es = "[press, press]"] by (metis pass reachable_step)
qed

abbreviation steered_inbox :: link_inbox where
  "steered_inbox \<equiv> inbox_accept (inbox_accept (inbox_new 1) 2 (CyclicPayload healthy)) 9
     (DrivePayload \<lparr>dc_kind = drive_kind.Throttle, dc_value = 0, dc_steer = 32767, dc_motor = 0\<rparr>)"

lemma steered_calm:
  "\<not> inbox_comms_loss (tick_ages steered_inbox True)" "rigid_peer (tick_ages steered_inbox True) = Some healthy"
  "cs_fault healthy AND FAULT_A_BITS = 0" "snd (effective_drive (tick_ages steered_inbox True) 0) = 32767"
  by code_simp+

text \<open>No stop level but what the link says, on a board with one motor.\<close>

definition calm :: "('f, 'o) board \<Rightarrow> bool" where
  "calm s \<longleftrightarrow>
     \<not> os_imu_configured s \<and> \<not> ih_loss (os_imu_health s) \<and> os_motor_fault s = 0 \<and>
     length (bw_wheel_speed (os_block s)) = 1 \<and> (\<exists>l. os_latches s = [l] \<and> unlatched l) \<and> \<not> os_tilt_latch s \<and> os_button_pressed s"

lemma calm_pass:
  assumes "calm s" "control_task Q s None 1 = (s', out)" "board_inv 1 s" "os_inbox s = steered_inbox"
  shows "\<not> stop_level s'"
proof -
  let ?t = "task_inputs Q s None 1"
  from pass [OF assms(2,3) zero_less_one] obtain u oc l v inp x others where pre: "pre_dispatch Q s None 1 = (u, oc, l)"
    and d: "dispatched Q u (to_mode oc = mode.Run) v inp x others" and s': "s' = v\<lparr>os_control_ticks := os_control_ticks v + 1\<rparr>"
    by metis
  note f = pre_fields [OF pre] and v = dispatched_fields [OF d]
  obtain lt w where lt: "os_latches s = [lt]" "unlatched lt" "bw_wheel_speed (os_block s) = [w]"
    using assms(1) by (auto simp: calm_def length_Suc_conv)
  have att: "task_attitude Q z None dt = z" for z :: "('a, 'b) board" and dt by (simp add: task_attitude_def)
  have "\<not> LATCH_THRESHOLD \<le> 1" by (simp add: LATCH_THRESHOLD_def word_le_nat_alt)
  then have "fl_latch (latch_tick (lt\<lparr>fl_running_enable := a, fl_a_substate := b, fl_b_motion := c\<rparr>)) = 0" for a b c
    using lt(2) by (simp add: latch_tick_def unlatched_def Let_def CODE_OVERCURRENT_def COUNT_CAP_def)
  then have lat: "\<exists>lt'. os_latches ?t = [lt'] \<and> fl_latch lt' = 0"
    using lt by (simp add: task_inputs_def Let_def att task_latches_def)
  have health: "\<not> ih_loss (os_imu_health ?t)"
    using assms(1) by (simp add: task_inputs_def Let_def task_health_def calm_def imu_update_def imu_health_new_def)
  have tilt: "\<not> os_tilt_latch ?t" using assms(1) by (simp add: task_inputs_def Let_def task_tilt_def calm_def)
  have inbox: "os_inbox s' = tick_ages steered_inbox True" by (simp add: s' v f assms(4))
  have "\<exists>lt'. os_latches s' = [lt'] \<and> fl_latch lt' = 0" using lat by (auto simp: s' v f fault_latch_new_def)
  moreover have "os_motor_fault s' = 0" "os_button_pressed s'" "\<not> ih_loss (os_imu_health s')" "\<not> os_tilt_latch s'"
    using assms(1) health tilt by (simp_all add: s' v f calm_def)
  ultimately show ?thesis
    using steered_calm by (auto simp: stop_level_def latch_a_fires_def is_latched_def peer_down_level_def power_request_def inbox)
qed

lemma pass_producer:
  assumes "reachable_board Q m s"
  shows "cd_mode (ct_dispatch (os_ctl (board_step Q s (ControlPass smp dt)))) = cd_mode (ct_dispatch (os_ctl s))"
proof -
  have inv: "board_inv m s" "0 < m" using board_reachable_inv [OF assms] by auto
  obtain s' out where t: "control_task Q s smp dt = (s', out)" by fastforce
  from pass [OF t inv] obtain u oc l v inp x others where pre: "pre_dispatch Q s smp dt = (u, oc, l)"
    and d: "dispatched Q u (to_mode oc = mode.Run) v inp x others" and s': "s' = v\<lparr>os_control_ticks := os_control_ticks v + 1\<rparr>"
    by metis
  then show ?thesis using pre_inv(2) [OF pre inv(1)] by (auto simp: t dispatched_def Let_def)
qed

lemma run_mode: "cd_mode (ct_dispatch (os_ctl demo_in_run)) = ThrottleProducer"
proof -
  let ?p = "run_board demo_q [press, press] (boot_board 0)"
  have "cd_mode (ct_dispatch (os_ctl ?p)) = ThrottleProducer"
    using demo_mode [of 0] by (simp add: run_board_def input_task_def Let_def split: prod.split)
  moreover have "demo_in_run = board_step demo_q (board_step demo_q (board_step demo_q ?p (ControlPass None 1)) (ControlPass None 1)) (ControlPass None 1)"
    by (simp add: run_board_def)
  ultimately show ?thesis
    using reachable_run [OF boot_reachable, where es = "[press, press]"] by (metis pass_producer reachable_step)
qed

lemma demo_steered:
  "reachable_board demo_q 1 demo_steered" "cd_mode (ct_dispatch (os_ctl demo_steered)) = Leader"
  "ct_fsm (os_ctl demo_steered) = fsm_default demo_fix" "ct_turn (os_ctl demo_steered) = 0"
  "ct_drive_turn (os_ctl demo_steered) = drive_turn_new 3000 1000" "mm_mode (os_mode demo_steered) = mode.Run"
  "os_inbox demo_steered = steered_inbox" "\<not> bw_role_right (os_block demo_steered)" "calm demo_steered"
proof -
  let ?a = "board_step demo_q demo_in_run (ArmRow lead_row)"
  note f = lead_fields [OF refl, where Q = demo_q and s = demo_in_run]
  have s: "demo_steered = ?a\<lparr>os_inbox := steered_inbox\<rparr>"
    using f(2) demo_inbox by (simp add: run_board_def del: board_step.simps(8))
  have "cd_mode (ct_dispatch (os_ctl demo_in_run)) \<noteq> Leader" by (simp add: run_mode)
  then show "ct_fsm (os_ctl demo_steered) = fsm_default demo_fix" "ct_turn (os_ctl demo_steered) = 0"
    using f(14) unfolding s by (simp_all add: demo_q_def del: board_step.simps)
  show "reachable_board demo_q 1 demo_steered" by (rule reachable_run [OF demo_runs(1)])
  show "cd_mode (ct_dispatch (os_ctl demo_steered)) = Leader" "ct_drive_turn (os_ctl demo_steered) = drive_turn_new 3000 1000"
    "mm_mode (os_mode demo_steered) = mode.Run" "os_inbox demo_steered = steered_inbox" "\<not> bw_role_right (os_block demo_steered)"
    unfolding s using f demo_runs(2) by (simp_all del: board_step.simps)
  show "calm demo_steered" unfolding s calm_def using f demo_runs(3) by (auto simp: quiet_def simp del: board_step.simps)
qed

text \<open>The board is in RUN with its gates as they were, its machine torque is 0, its own wheel is driven at -1000 and
  its follower is commanded 1000.\<close>

lemma idle_leader_turns_witness:
  "mm_mode (os_mode (fst (control_task demo_q demo_steered None 1))) = mode.Run \<and>
   hd (co_torque_setpoint (snd (control_task demo_q demo_steered None 1))) = - 1000 \<and>
   cs_peer_demand (cyclic_of (fst (control_task demo_q demo_steered None 1))) = 1000"
proof -
  obtain s' out where t: "control_task demo_q demo_steered None 1 = (s', out)" by fastforce
  have inv: "board_inv 1 demo_steered" using board_reachable_inv [OF demo_steered(1)] by simp
  have fresh: "rigid_peer (os_inbox s') \<noteq> None"
    using pass_inbox [OF t inv zero_less_one] demo_steered(7) steered_calm(2) by simp
  note run = stays_run [OF t inv zero_less_one demo_steered(6) calm_pass [OF demo_steered(9) t inv demo_steered(7)]]
  from pass [OF t inv zero_less_one] obtain u oc l v inp x others where pre: "pre_dispatch demo_q demo_steered None 1 = (u, oc, l)"
    and d: "dispatched demo_q u (to_mode oc = mode.Run) v inp x others" and s': "s' = v\<lparr>os_control_ticks := os_control_ticks v + 1\<rparr>"
    by metis
  note f = pre_fields [OF pre] and v = dispatched_fields [OF d]
  have "cd_mode (ct_dispatch (os_ctl u)) = Leader" using pre_inv(2) [OF pre inv] demo_steered(2) by simp
  moreover have "ct_turn (os_ctl u) = 0" "ct_drive_turn (os_ctl u) = drive_turn_new 3000 1000"
    using demo_steered(4,5) by (simp_all add: f(8) reset_engagement_def)
  moreover have "os_inbox u = tick_ages steered_inbox True" using demo_steered(7) by (simp add: f(3))
  moreover have "turn_step (drive_turn_new 3000 1000) 32767 0 = 1000" by code_simp
  ultimately have "ct_turn (os_ctl s') = 1000" using d steered_calm(4) by (simp add: s' dispatched_def Let_def)
  moreover have "bw_role_right (os_block s') = bw_role_right (os_block demo_steered)" by (simp add: s' v f)
  ultimately show ?thesis
    using idle_leader_turns [OF demo_steered(1,2) _ t fresh] demo_steered(3,8) run by (simp add: t bounded_def fsm_default_def)
qed

end
