(* ===== verification/Sixstep.thy ===== *)
theory Sixstep
  imports Arith
begin

unbundle bit_operations_syntax

text \<open>
  The vocabulary every commutation method shares, \<open>src/motorcontroller/commutation/src/lib.rs\<close> (the duty scale, the
  drive direction, the alignment of the angle path, the per-phase output), and the six-step arm, \<open>sixstep.rs\<close>: the
  decode of a hall code into a state of the bridge and the control step over it.

  Duties, angles and codes are the words the source keeps; the signed quantities are integers with the casts
  written where the source narrows. \<open>STATES\<close> and \<open>HALL_TO_SECTOR\<close> are lists indexed by a value the code has
  masked or reduced below their length.
\<close>

section \<open>The duty scale and the drive direction\<close>

definition ARR :: u16 where "ARR = 2250"
definition MID_RAIL :: u16 where "MID_RAIL = ARR div 2"

datatype direction = Forward | Reverse

fun angle_offset :: "direction \<Rightarrow> u16" where
  "angle_offset Forward = 0"
| "angle_offset Reverse = 0x8000"

text \<open>The sum and the product are formed in 32 bits.\<close>

definition sector_angle :: "u8 \<Rightarrow> u16" where
  "sector_angle sectors = ucast ((ucast (sectors mod 6) * 65536 + 3 :: u32) div 6)"

definition DECODE_SECTOR_LEAD :: u8 where "DECODE_SECTOR_LEAD = 2"

section \<open>The output of a method\<close>

datatype phase_cmd = Drive u16 | Float

record motor_output = phases :: "phase_cmd list"

text \<open>The loop visits the three phases and fills the two arrays slot by slot.\<close>

fun phase_duty :: "phase_cmd \<Rightarrow> u16" where
  "phase_duty (Drive n) = n"
| "phase_duty Float = 0"

fun phase_enabled :: "phase_cmd \<Rightarrow> bool" where
  "phase_enabled (Drive n) = True"
| "phase_enabled Float = False"

definition to_duties_enables :: "motor_output \<Rightarrow> u16 list \<times> bool list" where
  "to_duties_enables out = (map phase_duty (phases out), map phase_enabled (phases out))"

section \<open>The methods\<close>

datatype commutation_method = MSixStep | MSine | MFoc

fun method_to_u8 :: "commutation_method \<Rightarrow> u8" where
  "method_to_u8 MSixStep = 0"
| "method_to_u8 MSine = 1"
| "method_to_u8 MFoc = 2"

definition method_from_u8 :: "u8 \<Rightarrow> commutation_method" where
  "method_from_u8 b = (if b = 1 then MSine else if b = 2 then MFoc else MSixStep)"

section \<open>The six-step decode\<close>

datatype phase_drive = Pwm | Sink | FloatPhase

definition STATES :: "phase_drive list list" where
  "STATES =
     [[Pwm, Sink, FloatPhase],
      [Pwm, FloatPhase, Sink],
      [FloatPhase, Pwm, Sink],
      [Sink, Pwm, FloatPhase],
      [Sink, FloatPhase, Pwm],
      [FloatPhase, Sink, Pwm]]"

definition INVALID :: u8 where "INVALID = 0xFF"

definition HALL_TO_SECTOR :: "u8 list" where
  "HALL_TO_SECTOR = [INVALID, 0, 2, 1, 4, 5, 3, INVALID]"

record six_step =
  ss_direction :: direction
  ss_offset :: u8

definition six_step_new :: "direction \<Rightarrow> u8 \<Rightarrow> six_step" where
  "six_step_new d off = \<lparr>ss_direction = d, ss_offset = off mod 6\<rparr>"

definition angle_path_offset :: "six_step \<Rightarrow> u16" where
  "angle_path_offset align = sector_angle (DECODE_SECTOR_LEAD + ss_offset align) + angle_offset (ss_direction align)"

fun decode_half :: "direction \<Rightarrow> u8" where
  "decode_half Forward = 0"
| "decode_half Reverse = 3"

definition decode_pattern :: "six_step \<Rightarrow> u8 \<Rightarrow> phase_drive list option" where
  "decode_pattern d code =
     (let sector = HALL_TO_SECTOR ! unat (code AND 7)
      in if sector = INVALID then None
         else let index = (sector + ss_offset d + decode_half (ss_direction d)) mod 6
              in Some (STATES ! unat index))"

definition is_valid_code :: "u8 \<Rightarrow> bool" where
  "is_valid_code code = (HALL_TO_SECTOR ! unat (code AND 7) \<noteq> INVALID)"

section \<open>The six-step arm\<close>

text \<open>The magnitude of the demand is formed without overflow, the product in 64 bits.\<close>

definition demand_to_duty :: "int \<Rightarrow> u16" where
  "demand_to_duty demand =
     (let scaled = (nat \<bar>demand\<bar> * unat ARR) div 32767
      in if scaled > unat ARR then ARR else of_nat scaled)"

definition COAST :: motor_output where
  "COAST = \<lparr>phases = [Float, Float, Float]\<rparr>"

fun flip_direction :: "direction \<Rightarrow> direction" where
  "flip_direction Forward = Reverse"
| "flip_direction Reverse = Forward"

fun phase_of :: "u16 \<Rightarrow> phase_drive \<Rightarrow> phase_cmd" where
  "phase_of duty Pwm = Drive duty"
| "phase_of duty Sink = Drive 0"
| "phase_of duty FloatPhase = Float"

definition sixstep_step :: "six_step \<Rightarrow> u8 \<Rightarrow> int \<Rightarrow> motor_output" where
  "sixstep_step state code demand =
     (if demand = 0 then COAST
      else let d = (if demand < 0 then six_step_new (flip_direction (ss_direction state)) (ss_offset state) else state)
           in case decode_pattern d code of
                None \<Rightarrow> COAST
              | Some pattern \<Rightarrow> \<lparr>phases = map (phase_of (demand_to_duty demand)) pattern\<rparr>)"

end
