(* ===== verification/FocMath.thy ===== *)
theory FocMath
  imports Sixstep
begin

unbundle bit_operations_syntax

text \<open>
  The fixed-point mathematics of \<open>src/motorcontroller/commutation/src/foc.rs\<close>: the two rounding forms, the
  quarter-wave table and its quadrant-folded lookup, the zero-offset calibration and the current it conditions, the
  Clarke and Park transforms, the circular limit and the space-vector modulation; and the sine arm over the same
  table, \<open>sine.rs\<close>.

  A Q15 value is an integer between \<open>-32768\<close> and \<open>32767\<close>. A product of two of them and a sum of two such
  products fit in 32 bits, so these operators are plain; a sum the source writes \<open>wrapping_add\<close> is \<open>add32\<close>.
\<close>

section \<open>Rounding\<close>

definition ANGLE_90 :: u16 where "ANGLE_90 = 0x4000"
definition SECTOR_ANGLE :: u16 where "SECTOR_ANGLE = 0x2AAA"

text \<open>The bias is the logical shift of the sign mask: \<open>2 ^ (32 - n) - 1\<close> for a negative value, otherwise 0.\<close>

definition sign_bias :: "nat \<Rightarrow> int \<Rightarrow> int" where
  "sign_bias n acc = as_i32 (drop_bit n (take_bit 32 (drop_bit 31 acc)))"

definition rnd_q15 :: "int \<Rightarrow> int" where
  "rnd_q15 acc = as_i16 (drop_bit 15 (add32 acc (sign_bias 17 acc)))"

definition sat16 :: "int \<Rightarrow> int" where
  "sat16 x = (if x > 32767 then 32767 else if x \<le> - 32768 then - 32767 else x)"

definition mac_q15 :: "int \<Rightarrow> int" where
  "mac_q15 acc = sat16 (drop_bit 15 (add32 acc (sign_bias 17 acc)))"

definition rsh17 :: "int \<Rightarrow> int" where
  "rsh17 x = drop_bit 17 (add32 x (sign_bias 15 x))"

definition rsh18 :: "int \<Rightarrow> int" where
  "rsh18 x = drop_bit 18 (add32 x (sign_bias 14 x))"

section \<open>The table\<close>

definition SIN_QUARTER :: "int list" where
  "SIN_QUARTER = [
    0, 201, 402, 603, 804, 1005, 1206, 1407,
    1608, 1809, 2009, 2210, 2410, 2611, 2811, 3012,
    3212, 3412, 3612, 3811, 4011, 4210, 4410, 4609,
    4808, 5007, 5205, 5404, 5602, 5800, 5998, 6195,
    6393, 6590, 6786, 6983, 7179, 7375, 7571, 7767,
    7962, 8157, 8351, 8545, 8739, 8933, 9126, 9319,
    9512, 9704, 9896, 10087, 10278, 10469, 10659, 10849,
    11039, 11228, 11417, 11605, 11793, 11980, 12167, 12353,
    12539, 12725, 12910, 13094, 13279, 13462, 13645, 13828,
    14010, 14191, 14372, 14553, 14732, 14912, 15090, 15269,
    15446, 15623, 15800, 15976, 16151, 16325, 16499, 16673,
    16846, 17018, 17189, 17360, 17530, 17700, 17869, 18037,
    18204, 18371, 18537, 18703, 18868, 19032, 19195, 19357,
    19519, 19680, 19841, 20000, 20159, 20317, 20475, 20631,
    20787, 20942, 21096, 21250, 21403, 21554, 21705, 21856,
    22005, 22154, 22301, 22448, 22594, 22739, 22884, 23027,
    23170, 23311, 23452, 23592, 23731, 23870, 24007, 24143,
    24279, 24413, 24547, 24680, 24811, 24942, 25072, 25201,
    25329, 25456, 25582, 25708, 25832, 25955, 26077, 26198,
    26319, 26438, 26556, 26674, 26790, 26905, 27019, 27133,
    27245, 27356, 27466, 27575, 27683, 27790, 27896, 28001,
    28105, 28208, 28310, 28411, 28510, 28609, 28706, 28803,
    28898, 28992, 29085, 29177, 29268, 29358, 29447, 29534,
    29621, 29706, 29791, 29874, 29956, 30037, 30117, 30195,
    30273, 30349, 30424, 30498, 30571, 30643, 30714, 30783,
    30852, 30919, 30985, 31050, 31113, 31176, 31237, 31297,
    31356, 31414, 31470, 31526, 31580, 31633, 31685, 31736,
    31785, 31833, 31880, 31926, 31971, 32014, 32057, 32098,
    32137, 32176, 32213, 32250, 32285, 32318, 32351, 32382,
    32412, 32441, 32469, 32495, 32521, 32545, 32567, 32589,
    32609, 32628, 32646, 32663, 32678, 32692, 32705, 32717,
    32728, 32737, 32745, 32752, 32757, 32761, 32765, 32766]"

text \<open>The quadrant is two bits of the turned angle, so the last arm stands for \<open>0x300\<close>.\<close>

definition lookup_sincos :: "u16 \<Rightarrow> int \<times> int" where
  "lookup_sincos theta =
     (let t = ucast theta :: u32;
          quad = drop_bit 6 (t + 0x8000) AND 0x300;
          i = unat (drop_bit 6 (t AND 0x3FFF));
          j = 0xFF - i;
          ti = SIN_QUARTER ! i; tj = SIN_QUARTER ! j
      in if quad = 0 then (- ti, - tj)
         else if quad = 0x100 then (- tj, ti)
         else if quad = 0x200 then (ti, tj)
         else (tj, - ti))"

section \<open>The zero offset and the current\<close>

definition CAL_WINDOW_LO :: u16 where "CAL_WINDOW_LO = 0x7531"
definition CAL_WINDOW_SPAN :: u16 where "CAL_WINDOW_SPAN = 0x1193"
definition CAL_WINDOW_HI :: u16 where "CAL_WINDOW_HI = CAL_WINDOW_LO + CAL_WINDOW_SPAN"
definition CAL_BLOCK :: nat where "CAL_BLOCK = 4096"
definition CAL_BLOCK_SHIFT :: nat where "CAL_BLOCK_SHIFT = 8"

definition cal_accumulate :: "u32 \<Rightarrow> u16 \<Rightarrow> u32" where
  "cal_accumulate acc sample = acc + ucast (drop_bit 3 sample)"

definition calibrate_offset :: "u32 \<Rightarrow> u16" where
  "calibrate_offset acc = ucast (drop_bit CAL_BLOCK_SHIFT acc)"

definition offset_in_window :: "u16 \<Rightarrow> bool" where
  "offset_in_window offset = (offset - CAL_WINDOW_LO < CAL_WINDOW_SPAN)"

definition current_from_adc :: "u16 \<Rightarrow> u16 \<Rightarrow> int" where
  "current_from_adc offset sample = sat16 (int (unat offset) - 2 * int (unat sample))"

section \<open>The transforms\<close>

definition CLARKE_A :: int where "CLARKE_A = 0x49E6"
definition CLARKE_B :: int where "CLARKE_B = 0x93CC"

record clarke_vector =
  cl_alpha :: int
  cl_beta :: int

definition clarke :: "int \<Rightarrow> int \<Rightarrow> clarke_vector" where
  "clarke ia ib = \<lparr>cl_alpha = ia, cl_beta = mac_q15 (- (ia * CLARKE_A + ib * CLARKE_B))\<rparr>"

definition park_forward :: "int \<Rightarrow> int \<Rightarrow> u16 \<Rightarrow> int \<times> int" where
  "park_forward alpha beta theta =
     (let (s, c) = lookup_sincos theta
      in (mac_q15 (alpha * c - beta * s), mac_q15 (alpha * s + beta * c)))"

definition park_inverse :: "int \<Rightarrow> int \<Rightarrow> u16 \<Rightarrow> int \<times> int" where
  "park_inverse vq vd theta =
     (let (s, c) = lookup_sincos theta
      in (rnd_q15 (vq * c + vd * s), rnd_q15 (vd * c - vq * s)))"

section \<open>The circular limit\<close>

definition CIRC_THRESH :: u32 where "CIRC_THRESH = 0x3D759621"

definition CIRC_GAIN :: "int list" where
  "CIRC_GAIN = [
    32494, 32360, 32096, 31839, 31587, 31342, 31102, 30868, 30639, 30415,
    30196, 29981, 29771, 29565, 29464, 29265, 29069, 28878, 28690, 28506,
    28325, 28148, 27974, 27803, 27635, 27470, 27309, 27229, 27071, 26916,
    26764, 26614, 26467, 26322, 26180, 26039, 25901, 25766, 25632, 25500,
    25435, 25307, 25180, 25055, 24932, 24811, 24692, 24574, 24458, 24343,
    24230, 24119, 24009, 23901, 23848, 23741, 23637, 23533, 23431, 23331,
    23231, 23133, 23036, 22941, 22846, 22753, 22661]"

text \<open>Two Q15 values of \<open>-32768\<close> square to \<open>2 ^ 31\<close>, which the unsigned view keeps.\<close>

definition circular_limit :: "int \<Rightarrow> int \<Rightarrow> int \<times> int" where
  "circular_limit vq vd =
     (let sq = word_of_int (vq * vq + vd * vd) :: u32
      in if sq \<le> CIRC_THRESH then (vq, vd)
         else let idx = nat ((int (unat (drop_bit 24 sq)) - 0x3D) AND 0xFF);
                  g = CIRC_GAIN ! min idx 66
              in (rnd_q15 (g * vq), rnd_q15 (g * vd)))"

section \<open>Space-vector modulation\<close>

definition SVPWM_BETA :: int where "SVPWM_BETA = 9000"
definition SVPWM_ALPHA :: int where "SVPWM_ALPHA = 0x3CE4"
definition SVPWM_CENTER :: int where "SVPWM_CENTER = 0x465"

record svpwm_out =
  sv_sector :: u8
  sv_base :: u16
  sv_c1 :: u16
  sv_c2 :: u16

definition svpwm_sector :: "int \<Rightarrow> int \<Rightarrow> u8" where
  "svpwm_sector alpha beta =
     (let bterm = beta * SVPWM_BETA; aterm = alpha * SVPWM_ALPHA;
          p = (- bterm + aterm) sdiv 2; q = (- bterm - aterm) sdiv 2;
          beta_term_le0 = (bterm = 0 \<or> - bterm < 0)
      in if p < 0 \<and> q < 0 then 5
         else if p < 0 then (if beta_term_le0 then 4 else 3)
         else if q < 0 then (if beta_term_le0 then 6 else 1)
         else 2)"

text \<open>The three compare numbers before they are masked to 16 bits.\<close>

definition svpwm_compare :: "int \<Rightarrow> int \<Rightarrow> int \<times> int \<times> int" where
  "svpwm_compare alpha beta =
     (let sector = svpwm_sector alpha beta;
          b = - (beta * SVPWM_BETA); aterm = alpha * SVPWM_ALPHA;
          p = (b + aterm) sdiv 2; q = (b - aterm) sdiv 2
      in if sector = 1 \<or> sector = 4 then
           let base = rsh18 ((b - q) + SVPWM_BETA) + SVPWM_CENTER; c1 = base + rsh17 q; c2 = c1 - rsh17 b
           in (base, c1, c2)
         else if sector = 2 \<or> sector = 5 then
           let base = rsh18 ((p - q) + SVPWM_BETA) + SVPWM_CENTER; c1 = base + rsh17 q; c2 = base - rsh17 p
           in (base, c1, c2)
         else
           let base = rsh18 (- b + SVPWM_BETA + p) + SVPWM_CENTER; c2 = base - rsh17 p; c1 = rsh17 b + c2
           in (base, c1, c2))"

definition svpwm :: "int \<Rightarrow> int \<Rightarrow> svpwm_out" where
  "svpwm alpha beta =
     (let (base, c1, c2) = svpwm_compare alpha beta
      in \<lparr>sv_sector = svpwm_sector alpha beta, sv_base = word_of_int (base AND 0xFFFF),
          sv_c1 = word_of_int (c1 AND 0xFFFF), sv_c2 = word_of_int (c2 AND 0xFFFF)\<rparr>)"

section \<open>The sine arm\<close>

definition PHASE_120 :: u16 where "PHASE_120 = 0x5555"

definition sine_offset :: "int \<Rightarrow> u16 \<Rightarrow> int" where
  "sine_offset sin_q15 amp =
     (let prod = sin_q15 * int (unat amp);
          bias = (if prod \<ge> 0 then 32767 sdiv 2 else - (32767 sdiv 2))
      in (prod + bias) sdiv 32767)"

definition demand_to_amplitude :: "int \<Rightarrow> u16" where
  "demand_to_amplitude demand =
     (let scaled = (nat \<bar>demand\<bar> * unat MID_RAIL) div 32767
      in if scaled > unat MID_RAIL then MID_RAIL else of_nat scaled)"

definition sine_duty :: "int \<Rightarrow> phase_cmd" where
  "sine_duty off = Drive (word_of_int (min (max (int (unat MID_RAIL) + off) 0) (int (unat ARR))))"

definition sine_step :: "u16 \<Rightarrow> int \<Rightarrow> motor_output" where
  "sine_step theta demand =
     (let amp = demand_to_amplitude demand; sgn = (if demand < 0 then - 1 else 1);
          (sa, _) = lookup_sincos theta;
          (sb, _) = lookup_sincos (theta - PHASE_120);
          (sc, _) = lookup_sincos (theta + PHASE_120)
      in \<lparr>phases = [sine_duty (sgn * sine_offset sa amp), sine_duty (sgn * sine_offset sb amp),
                    sine_duty (sgn * sine_offset sc amp)]\<rparr>)"

end
