(* ===== verification/Rotor.thy ===== *)
theory Rotor
  imports FocMath
begin

unbundle bit_operations_syntax

text \<open>
  The rotor front end every commutation method shares, \<open>src/motorcontroller/commutation/src/foc.rs\<close>: the hall debounce,
  the commutation estimator (direction, edge counts, the window speed, the period-based rate, the interpolated
  angle) and the two in sequence.

  Levels and codes are bytes; angles and step words are 16-bit words and wrap; the counters that the source
  saturates or clears are natural numbers with the guard written out, and \<open>cm_window\<close> and the dwell product keep
  their width as a remainder. The signed words wrap through \<open>add32\<close> and \<open>mul32\<close>.
\<close>

section \<open>The debounce window\<close>

definition HALL_DEBOUNCE_US :: nat where "HALL_DEBOUNCE_US = 9375"

text \<open>The product is formed in 64 bits and divided upward.\<close>

definition hall_debounce_periods :: "nat \<Rightarrow> int" where
  "hall_debounce_periods period_hz =
     (let periods = (HALL_DEBOUNCE_US * period_hz + 999999) div 1000000
      in if periods > 32767 then 32767 else int periods)"

definition hall_debounce_window_us :: "nat \<Rightarrow> nat" where
  "hall_debounce_window_us period_hz =
     (if period_hz = 0 then 0 else (nat (hall_debounce_periods period_hz) * 1000000 div period_hz) mod 2 ^ 32)"

definition tracked_electrical_hz_ceiling :: "nat \<Rightarrow> nat" where
  "tracked_electrical_hz_ceiling period_hz = period_hz div 6"

definition MIN_TRACKED_ELECTRICAL_HZ :: nat where "MIN_TRACKED_ELECTRICAL_HZ = 250"

section \<open>The hall debounce\<close>

record hall_debounce =
  hd_level :: "u8 list"
  hd_lockout :: "int list"
  hd_changed :: "bool list"
  hd_reload :: int

definition debounce_new :: "nat \<Rightarrow> hall_debounce" where
  "debounce_new period_hz =
     \<lparr>hd_level = [0, 0, 0], hd_lockout = [0, 0, 0], hd_changed = [False, False, False],
      hd_reload = hall_debounce_periods period_hz\<rparr>"

text \<open>The body of the first loop, for one line.\<close>

definition rotor_line :: "u8 list \<Rightarrow> nat \<Rightarrow> hall_debounce \<Rightarrow> hall_debounce" where
  "rotor_line raw line h =
     (let eligible = (\<not> hd_changed h ! line \<or> hd_lockout h ! line = 0)
      in if eligible \<and> raw ! line \<noteq> hd_level h ! line
         then h\<lparr>hd_level := (hd_level h)[line := raw ! line],
                hd_lockout := (hd_lockout h)[line := hd_reload h],
                hd_changed := [False, False, False][line := True]\<rparr>
         else h)"

definition drain_lockout :: "int \<Rightarrow> int" where
  "drain_lockout n = (if n > 0 then n - 1 else n)"

definition debounced_code :: "hall_debounce \<Rightarrow> u8" where
  "debounced_code h = hd_level h ! 0 OR push_bit 1 (hd_level h ! 1) OR push_bit 2 (hd_level h ! 2)"

definition debounce_step :: "u8 list \<Rightarrow> hall_debounce \<Rightarrow> hall_debounce \<times> u8" where
  "debounce_step raw h =
     (let h = rotor_line raw 2 (rotor_line raw 1 (rotor_line raw 0 h));
          h = h\<lparr>hd_lockout := map drain_lockout (hd_lockout h)\<rparr>
      in (h, debounced_code h))"

section \<open>The commutation estimator\<close>

definition HALL_FAULT_DWELL_MUL :: nat where "HALL_FAULT_DWELL_MUL = 250"
definition HALL_FAULT_DWELL_LIMIT :: nat where "HALL_FAULT_DWELL_LIMIT = 16000"
definition BLEND_PREV :: nat where "BLEND_PREV = 15"
definition BLEND_NEW :: nat where "BLEND_NEW = 85"
definition SPEED_WINDOW :: nat where "SPEED_WINDOW = 0x140"
definition STEP_NEG :: u16 where "STEP_NEG = 0xEAAB"
definition STEP_POS :: u16 where "STEP_POS = 0x1555"
definition ACC_GATE :: int where "ACC_GATE = 10922"
definition INTERP_GATE :: nat where "INTERP_GATE = 200"
definition RATE_Q_UNIT :: int where "RATE_Q_UNIT = 4096"
definition RATE_Q_NUM :: int where "RATE_Q_NUM = RATE_Q_UNIT * int SPEED_WINDOW"

definition BASE_ANGLE :: "u16 list" where
  "BASE_ANGLE = [0, 0x9554, 0xEAAB, 0xBFFF, 0x4000, 0x6AAA, 0x1556, 0]"

definition FWD_NEXT :: "u8 list" where "FWD_NEXT = [0, 3, 6, 2, 5, 1, 4, 0]"
definition REV_NEXT :: "u8 list" where "REV_NEXT = [0, 5, 3, 1, 6, 4, 2, 0]"

record estimator =
  cm_angle :: u16
  cm_prev_code :: u8
  cm_prev_any_code :: u8
  cm_dir :: int
  cm_edge_acc :: int
  cm_edges_total :: u32
  cm_pos_edges :: int
  cm_speed :: int
  cm_window :: nat
  cm_rate_q :: int
  cm_rate_dir :: int
  cm_rate_interval :: nat
  cm_since_change :: nat
  cm_prev_interval :: nat
  cm_interval_blend :: nat
  cm_increment :: int
  cm_acc :: int
  cm_step :: u16
  cm_in_window :: bool
  cm_invalid_dwell :: nat
  cm_hall_fault :: bool

definition estimator_new :: estimator where
  "estimator_new =
     \<lparr>cm_angle = 0, cm_prev_code = 0, cm_prev_any_code = 0, cm_dir = 0, cm_edge_acc = 0, cm_edges_total = 0,
      cm_pos_edges = 0, cm_speed = 0, cm_window = 0, cm_rate_q = 0, cm_rate_dir = 0, cm_rate_interval = 0,
      cm_since_change = 0, cm_prev_interval = 0, cm_interval_blend = 0, cm_increment = 0, cm_acc = 0, cm_step = 0,
      cm_in_window = False, cm_invalid_dwell = 0, cm_hall_fault = False\<rparr>"

definition valid_hall :: "u8 \<Rightarrow> bool" where
  "valid_hall code = (1 \<le> code \<and> code \<le> 6)"

definition tick_since :: "estimator \<Rightarrow> estimator" where
  "tick_since c = (if cm_since_change c < 0xFFFF then c\<lparr>cm_since_change := cm_since_change c + 1\<rparr> else c)"

text \<open>Section 5.2: the base angle of a valid code, the dwell of an invalid one.\<close>

definition base_write :: "u8 \<Rightarrow> estimator \<Rightarrow> estimator" where
  "base_write code c =
     (if valid_hall code then c\<lparr>cm_angle := BASE_ANGLE ! unat code, cm_invalid_dwell := 0\<rparr>
      else let dwell = min (cm_invalid_dwell c + 1) (2 ^ 32 - 1)
           in c\<lparr>cm_invalid_dwell := dwell,
                cm_hall_fault := (cm_hall_fault c \<or> (dwell * HALL_FAULT_DWELL_MUL) mod 2 ^ 32 > HALL_FAULT_DWELL_LIMIT)\<rparr>)"

definition count_rate_edge :: "int \<Rightarrow> estimator \<Rightarrow> estimator" where
  "count_rate_edge d c =
     (if d = cm_rate_dir c then
        let interval = max (cm_since_change c) 1
        in c\<lparr>cm_rate_interval := interval, cm_rate_q := (d * RATE_Q_NUM) sdiv int interval\<rparr>
      else c\<lparr>cm_rate_dir := d, cm_rate_interval := 0, cm_rate_q := 0\<rparr>)"

definition counted_edge :: "int \<Rightarrow> estimator \<Rightarrow> estimator" where
  "counted_edge d c =
     count_rate_edge d
       (c\<lparr>cm_dir := d, cm_edge_acc := add32 (cm_edge_acc c) d, cm_edges_total := cm_edges_total c + 1,
          cm_pos_edges := add32 (cm_pos_edges c) d\<rparr>)"

text \<open>Section 5.3: a transition between neighbours counts, any other one does not.\<close>

definition direction_write :: "u8 \<Rightarrow> estimator \<Rightarrow> estimator" where
  "direction_write code c =
     (let prev = cm_prev_code c;
          c = (if valid_hall code \<and> 1 \<le> prev \<and> prev \<le> 6 \<and> code \<noteq> prev then
                 if FWD_NEXT ! unat prev = code then counted_edge 1 c
                 else if REV_NEXT ! unat prev = code then counted_edge (- 1) c
                 else c
               else c)
      in if valid_hall code then c\<lparr>cm_prev_code := code\<rparr> else c)"

definition rate_decay :: "estimator \<Rightarrow> estimator" where
  "rate_decay c =
     (if cm_rate_q c \<noteq> 0 \<and> cm_since_change c > cm_rate_interval c \<and> cm_since_change c < 0xFFFF
      then c\<lparr>cm_rate_q := (cm_rate_dir c * RATE_Q_NUM) sdiv int (cm_since_change c)\<rparr> else c)"

definition speed_window :: "estimator \<Rightarrow> estimator" where
  "speed_window c =
     (let w = (cm_window c + 1) mod 65536
      in if w > SPEED_WINDOW then c\<lparr>cm_window := 0, cm_speed := cm_edge_acc c, cm_edge_acc := 0\<rparr>
         else c\<lparr>cm_window := w\<rparr>)"

text \<open>On a change of code: the interval, its blend and the increment; the edge-rate term is not used.\<close>

definition capture_interval :: "u8 \<Rightarrow> estimator \<Rightarrow> estimator" where
  "capture_interval code c =
     (let c = (if code \<noteq> cm_prev_any_code c then
                 let new_interval = cm_since_change c mod 65536;
                     blend = (cm_prev_interval c * BLEND_PREV + new_interval * BLEND_NEW) div 100;
                     interval_blend = blend mod 65536
                 in c\<lparr>cm_interval_blend := interval_blend, cm_prev_interval := new_interval,
                      cm_increment := (if interval_blend = 0 then 0
                                       else cm_dir c * (int (unat SECTOR_ANGLE) sdiv int interval_blend)),
                      cm_since_change := 0, cm_acc := 0\<rparr>
               else c)
      in c\<lparr>cm_prev_any_code := code\<rparr>)"

text \<open>Section 5.4: the interpolation, while the last change is less than 200 periods old.\<close>

definition interpolate :: "estimator \<Rightarrow> estimator" where
  "interpolate c =
     (if cm_since_change c < INTERP_GATE then
        let step = (if cm_increment c \<ge> 3 then STEP_NEG else if cm_increment c \<le> - 3 then STEP_POS else cm_step c);
            acc = (if iabs (cm_acc c) < ACC_GATE then add32 (cm_acc c) (cm_increment c) else cm_acc c)
        in c\<lparr>cm_in_window := True, cm_step := step, cm_acc := acc, cm_angle := cm_angle c + word_of_int acc + step\<rparr>
      else c\<lparr>cm_step := 0, cm_in_window := False\<rparr>)"

definition estimator_step :: "u8 \<Rightarrow> estimator \<Rightarrow> estimator" where
  "estimator_step code c =
     interpolate (capture_interval code (speed_window (rate_decay (direction_write code (base_write code (tick_since c))))))"

section \<open>The front end\<close>

record rotor_front_end =
  fe_hall :: hall_debounce
  fe_comm :: estimator

record rotor_state =
  ro_code :: u8
  ro_angle :: u16
  ro_speed :: int
  ro_in_window :: bool
  ro_hall_fault :: bool

definition front_end_new :: "nat \<Rightarrow> rotor_front_end" where
  "front_end_new period_hz = \<lparr>fe_hall = debounce_new period_hz, fe_comm = estimator_new\<rparr>"

definition front_end_step :: "u8 list \<Rightarrow> rotor_front_end \<Rightarrow> rotor_front_end \<times> rotor_state" where
  "front_end_step raw_hall f =
     (let (h, code) = debounce_step raw_hall (fe_hall f); c = estimator_step code (fe_comm f)
      in (f\<lparr>fe_hall := h, fe_comm := c\<rparr>,
          \<lparr>ro_code = code, ro_angle = cm_angle c, ro_speed = cm_speed c, ro_in_window = cm_in_window c,
           ro_hall_fault = cm_hall_fault c\<rparr>))"

end
