(* ===== verification/FocLoop.thy ===== *)
theory FocLoop
  imports Rotor
begin

unbundle bit_operations_syntax

text \<open>
  The current loop and the dispatch: the calibration gate, the output order, the input filter, the records and the
  period of the FOC arm, \<open>src/motorcontroller/commutation/src/foc.rs\<close>, and the commutator over the three methods,
  \<open>lib.rs\<close>.

  The two bench knobs (\<open>FOC_GAINS\<close>, \<open>FOC_FILTER_SHIFT\<close>) are atomics that a debugger may write, so the step takes
  the gains and the shift it loads as arguments; \<open>FOC_GAINS_START\<close> and 4 are what they hold from boot.
\<close>

section \<open>The calibration gate and the output order\<close>

record phase_offsets =
  po_a :: u16
  po_b :: u16

definition phase_offsets_try_new :: "u16 \<Rightarrow> u16 \<Rightarrow> phase_offsets option" where
  "phase_offsets_try_new a b =
     (if offset_in_window a \<and> offset_in_window b then Some \<lparr>po_a = a, po_b = b\<rparr> else None)"

type_synonym duty_order = "lane list"

definition DIRECT :: duty_order where "DIRECT = [LaneA, LaneB, LaneC]"

definition order_apply :: "duty_order \<Rightarrow> svpwm_out \<Rightarrow> u16 list" where
  "order_apply order s = map (\<lambda>l. lane_pick l (sv_base s, sv_c1 s, sv_c2 s)) order"

section \<open>The gains and the input filter\<close>

definition FOC_GAINS_START :: pi_gains where
  "FOC_GAINS_START = \<lparr>pi_kp = 1910, pi_kp_divisor = 1024, pi_ki = 57, pi_ki_divisor = 1024, pi_out_max = 32767,
                      pi_int_max = 32767 * 1024\<rparr>"

definition FOC_FILTER_SHIFT_START :: u32 where "FOC_FILTER_SHIFT_START = 4"

text \<open>One period of the low-pass: the shift is taken modulo 32; the stage is its state in Q8.\<close>

definition lowpass_step :: "int \<Rightarrow> u32 \<Rightarrow> int \<Rightarrow> int \<times> int" where
  "lowpass_step x shift s =
     (let target = as_i32 (push_bit 8 x);
          s = add32 s (drop_bit (unat (shift AND 31)) (sub32 target s))
      in (s, as_i16 (drop_bit 8 (add32 s 128))))"

definition FLOAT_HOLD_MAX :: nat where "FLOAT_HOLD_MAX = 1024"
definition HOLD_KI_SHIFT :: nat where "HOLD_KI_SHIFT = 2"
definition FOC_WINDOW_SHIFT :: nat where "FOC_WINDOW_SHIFT = 6"
definition FOC_TORQUE_SCALE :: int where "FOC_TORQUE_SCALE = 28500"

section \<open>The records of the arm\<close>

record foc_sums =
  su_iq :: int
  su_id :: int
  su_vq :: int

record foc_window =
  fw_iq :: int
  fw_id :: int
  fw_vq :: int
  fw_iq_ref :: int

record foc_state =
  fo_q_acc :: int
  fo_d_acc :: int
  fo_full_scale :: int
  fo_duty_order :: duty_order
  fo_sums :: foc_sums
  fo_iq_ref :: int
  fo_held_dq :: "int \<times> int"
  fo_lp_q :: int
  fo_lp_d :: int
  fo_float_run :: nat

definition foc_sums_zero :: foc_sums where
  "foc_sums_zero = \<lparr>su_iq = 0, su_id = 0, su_vq = 0\<rparr>"

definition foc_state_new :: "phase_offsets \<Rightarrow> duty_order \<Rightarrow> int \<Rightarrow> foc_state" where
  "foc_state_new cal order full_scale =
     \<lparr>fo_q_acc = 0, fo_d_acc = 0, fo_full_scale = full_scale, fo_duty_order = order, fo_sums = foc_sums_zero,
      fo_iq_ref = 0, fo_held_dq = (0, 0), fo_lp_q = 0, fo_lp_d = 0, fo_float_run = 0\<rparr>"

definition take_foc_sums :: "foc_state \<Rightarrow> foc_state \<times> foc_window" where
  "take_foc_sums st =
     (let s = fo_sums st
      in (st\<lparr>fo_sums := foc_sums_zero\<rparr>,
          \<lparr>fw_iq = as_i16 (drop_bit FOC_WINDOW_SHIFT (su_iq s)), fw_id = as_i16 (drop_bit FOC_WINDOW_SHIFT (su_id s)),
           fw_vq = as_i16 (drop_bit FOC_WINDOW_SHIFT (su_vq s)), fw_iq_ref = fo_iq_ref st\<rparr>))"

definition iq_reference :: "int \<Rightarrow> int \<Rightarrow> int" where
  "iq_reference demand full_scale =
     (let demand = min (max demand (- FOC_TORQUE_SCALE)) FOC_TORQUE_SCALE
      in as_i16 ((demand * full_scale) sdiv FOC_TORQUE_SCALE))"

section \<open>One period of the arm\<close>

text \<open>The pair the loops act on: this period's, or the last fresh one, through the input filter.\<close>

definition foc_measure :: "u32 \<Rightarrow> u16 \<Rightarrow> int \<times> int \<Rightarrow> bool \<Rightarrow> foc_state \<Rightarrow> foc_state \<times> int \<times> int" where
  "foc_measure shift theta currents hold st =
     (let (st, iq, id') =
            (if hold then (st, fo_held_dq st)
             else let cl = clarke (fst currents) (snd currents);
                      dq = park_forward (cl_alpha cl) (cl_beta cl) theta
                  in (st\<lparr>fo_held_dq := dq\<rparr>, dq));
          (lq, iq) = lowpass_step iq shift (fo_lp_q st);
          (ld, id') = lowpass_step id' shift (fo_lp_d st)
      in (st\<lparr>fo_lp_q := lq, fo_lp_d := ld\<rparr>, iq, id'))"

text \<open>The gate: the two current loops when the period drives, the held or cleared accumulators when it floats.\<close>

definition foc_command :: "pi_gains \<Rightarrow> int \<Rightarrow> int \<Rightarrow> int \<Rightarrow> bool \<Rightarrow> bool \<Rightarrow> foc_state \<Rightarrow> foc_state \<times> int \<times> int \<times> int" where
  "foc_command gains iq id' demand drive hold st =
     (if drive then
        let iq_ref = iq_reference demand (fo_full_scale st);
            g_int = (if hold then gains\<lparr>pi_ki := drop_bit HOLD_KI_SHIFT (pi_ki gains)\<rparr> else gains);
            (qa, vq) = pi_step iq_ref iq g_int (fo_q_acc st);
            (da, vd) = pi_step 0 id' g_int (fo_d_acc st)
        in (st\<lparr>fo_float_run := 0, fo_q_acc := qa, fo_d_acc := da\<rparr>, iq_ref, vq, vd)
      else
        let run = min (fo_float_run st + 1) 65535;
            st = st\<lparr>fo_float_run := run\<rparr>;
            st = (if run > FLOAT_HOLD_MAX then st\<lparr>fo_q_acc := 0, fo_d_acc := 0\<rparr> else st)
        in (st, 0, 0, 0))"

definition foc_step :: "pi_gains \<Rightarrow> u32 \<Rightarrow> u16 \<Rightarrow> int \<times> int \<Rightarrow> int \<Rightarrow> bool \<Rightarrow> bool \<Rightarrow> foc_state \<Rightarrow> foc_state \<times> motor_output" where
  "foc_step gains shift theta currents demand drive hold st =
     (let (st, iq, id') = foc_measure shift theta currents hold st;
          (st, iq_ref, vq, vd) = foc_command gains iq id' demand drive hold st;
          (vq, vd) = circular_limit vq vd;
          (alpha, beta) = park_inverse vq vd theta;
          duties = order_apply (fo_duty_order st) (svpwm alpha beta);
          s = fo_sums st
      in (st\<lparr>fo_sums := \<lparr>su_iq = add32 (su_iq s) iq, su_id = add32 (su_id s) id', su_vq = add32 (su_vq s) vq\<rparr>,
             fo_iq_ref := iq_ref\<rparr>,
          \<lparr>phases = map Drive duties\<rparr>))"

section \<open>The commutator\<close>

datatype method_state = MsSixStep six_step | MsSine | MsFoc foc_state

fun ms_method :: "method_state \<Rightarrow> commutation_method" where
  "ms_method (MsSixStep s) = MSixStep"
| "ms_method MsSine = MSine"
| "ms_method (MsFoc s) = MFoc"

record commutator =
  co_front :: rotor_front_end
  co_method :: method_state
  co_angle_offset :: u16

definition SINE_PHASE_OFFSET_DEFAULT :: u16 where "SINE_PHASE_OFFSET_DEFAULT = ANGLE_90"

definition commutator_new :: "method_state \<Rightarrow> nat \<Rightarrow> six_step \<Rightarrow> commutator" where
  "commutator_new m period_hz align =
     \<lparr>co_front = front_end_new period_hz, co_method = m, co_angle_offset = angle_path_offset align\<rparr>"

definition switch_method :: "method_state \<Rightarrow> six_step \<Rightarrow> commutator \<Rightarrow> commutator" where
  "switch_method fresh align c = c\<lparr>co_method := fresh, co_angle_offset := angle_path_offset align\<rparr>"

definition take_foc_window :: "commutator \<Rightarrow> commutator \<times> foc_window option" where
  "take_foc_window c =
     (case co_method c of
        MsFoc st \<Rightarrow> (let (st, w) = take_foc_sums st in (c\<lparr>co_method := MsFoc st\<rparr>, Some w))
      | _ \<Rightarrow> (c, None))"

definition commutator_step ::
  "pi_gains \<Rightarrow> u32 \<Rightarrow> u8 list \<Rightarrow> int \<times> int \<Rightarrow> int \<Rightarrow> bool \<Rightarrow> bool \<Rightarrow> commutator \<Rightarrow> commutator \<times> motor_output" where
  "commutator_step gains shift raw_hall currents demand drive hold c =
     (let (f, rotor) = front_end_step raw_hall (co_front c);
          c = c\<lparr>co_front := f\<rparr>;
          angle = ro_angle rotor + co_angle_offset c
      in case co_method c of
           MsSixStep st \<Rightarrow> (c, sixstep_step st (ro_code rotor) demand)
         | MsSine \<Rightarrow> (c, sine_step (angle + SINE_PHASE_OFFSET_DEFAULT) demand)
         | MsFoc st \<Rightarrow>
             (let (st, out) = foc_step gains shift angle currents demand drive hold st
              in (c\<lparr>co_method := MsFoc st\<rparr>, out)))"

end
