(* ===== verification/FocProps.thy ===== *)
theory FocProps
  imports FocLoop
begin

unbundle bit_operations_syntax

text \<open>
  The bound on the modulation: the table is a unit vector up to its rounding, the circular limit brings every command
  under a fixed radius, the inverse Park transform does not leave it, and inside it each of the three compare numbers
  lies between 0 and the period.
\<close>

section \<open>Rounding toward zero\<close>

lemma toward_zero:
  assumes "1 \<le> k" "k \<le> 31" "acc \<in> i32_range"
  shows "drop_bit k (add32 acc (sign_bias (32 - k) acc)) = acc sdiv 2 ^ k"
proof -
  have "shr_round_to_zero acc k = drop_bit k (add32 acc (sign_bias (32 - k) acc))"
    by (simp add: shr_round_to_zero_def sign_bias_def)
  then show ?thesis using shr_round_to_zero_sdiv [OF assms] by simp
qed

lemma rsh17_sdiv: "x \<in> i32_range \<Longrightarrow> rsh17 x = x sdiv 131072"
  using toward_zero [of 17 x] by (simp add: rsh17_def)

lemma rsh18_sdiv: "x \<in> i32_range \<Longrightarrow> rsh18 x = x sdiv 262144"
  using toward_zero [of 18 x] by (simp add: rsh18_def)

lemma rnd_q15_sdiv: "x \<in> i32_range \<Longrightarrow> rnd_q15 x = as_i16 (x sdiv 32768)"
  using toward_zero [of 15 x] by (simp add: rnd_q15_def)

lemma mac_q15_sdiv: "x \<in> i32_range \<Longrightarrow> mac_q15 x = sat16 (x sdiv 32768)"
  using toward_zero [of 15 x] by (simp add: mac_q15_def)

lemma sdiv_near:
  assumes "0 < (m :: int)"
  shows "x - (m - 1) \<le> m * (x sdiv m)" "m * (x sdiv m) \<le> x + (m - 1)" "\<bar>m * (x sdiv m)\<bar> \<le> \<bar>x\<bar>"
proof -
  have *: "m * (\<bar>x\<bar> div m) = \<bar>x\<bar> - \<bar>x\<bar> mod m" by (simp add: minus_mod_eq_mult_div)
  have "0 \<le> \<bar>x\<bar> mod m" "\<bar>x\<bar> mod m < m" using assms by simp_all
  moreover have "\<bar>x\<bar> mod m \<le> \<bar>x\<bar>" by (rule zmod_le_nonneg_dividend) simp
  moreover have "m * (x sdiv m) = sgn x * (m * (\<bar>x\<bar> div m))"
    using assms by (simp add: signed_divide_int_def)
  ultimately show "x - (m - 1) \<le> m * (x sdiv m)" "m * (x sdiv m) \<le> x + (m - 1)" "\<bar>m * (x sdiv m)\<bar> \<le> \<bar>x\<bar>"
    unfolding * by (auto simp: sgn_if abs_if split: if_splits)
qed

section \<open>The table\<close>

definition table_ok :: "int list \<Rightarrow> bool" where
  "table_ok t = (length t = 256 \<and>
     list_all (\<lambda>i. 0 \<le> t ! i \<and> t ! i \<le> 32767 \<and> (t ! i) * (t ! i) + (t ! (255 - i)) * (t ! (255 - i)) \<le> 1073741824) [0..<256])"

lemma table: "table_ok SIN_QUARTER"
  by code_simp

lemma table_row: "i < 256 \<Longrightarrow> 0 \<le> SIN_QUARTER ! i \<and> SIN_QUARTER ! i \<le> 32767 \<and>
    SIN_QUARTER ! i * SIN_QUARTER ! i + SIN_QUARTER ! (255 - i) * SIN_QUARTER ! (255 - i) \<le> 1073741824"
  using table by (simp add: table_ok_def list_all_iff)

lemma sincos_unit:
  assumes "lookup_sincos theta = (s, c)"
  shows "\<bar>s\<bar> \<le> 32767" "\<bar>c\<bar> \<le> 32767" "s * s + c * c \<le> 1073741824"
proof -
  define i where "i = unat (drop_bit 6 (ucast theta AND 0x3FFF :: u32))"
  have "ucast theta AND 0x3FFF \<le> (0x3FFF :: u32)" by (rule word_and_le1)
  then have "unat (ucast theta AND 0x3FFF :: u32) \<le> 0x3FFF" by (simp add: word_le_nat_alt)
  then have i: "i < 256" unfolding i_def unat_drop_bit_eq by (simp only: drop_bit_eq_div) simp
  then have j: "255 - i < 256" "255 - (255 - i) = i" by simp_all
  define ti tj where "ti = SIN_QUARTER ! i" and "tj = SIN_QUARTER ! (255 - i)"
  have "(s, c) \<in> {(- ti, - tj), (- tj, ti), (ti, tj), (tj, - ti)}"
    using assms by (auto simp: lookup_sincos_def Let_def i_def ti_def tj_def split: if_splits)
  then show "\<bar>s\<bar> \<le> 32767" "\<bar>c\<bar> \<le> 32767" "s * s + c * c \<le> 1073741824"
    using table_row [OF i] table_row [OF j(1)] j(2) by (auto simp: ti_def tj_def)
qed

section \<open>The circular limit\<close>

text \<open>The squared radius every limited command stays within; its root is 32134.\<close>

definition LIMIT_SQ :: int where "LIMIT_SQ = 1032600000"

definition foc_gains_ok :: "int list \<Rightarrow> bool" where
  "foc_gains_ok t = (length t = 67 \<and>
     list_all (\<lambda>i. 0 \<le> t ! i \<and> t ! i \<le> 32767 \<and>
       t ! i * t ! i * (if i = 66 then 2147483648 else (int i + 62) * 16777216) \<le> LIMIT_SQ * 1073741824) [0..<67])"

lemma gains: "foc_gains_ok CIRC_GAIN"
  by code_simp

lemma gain_row: "i < 67 \<Longrightarrow> 0 \<le> CIRC_GAIN ! i \<and> CIRC_GAIN ! i \<le> 32767 \<and>
    CIRC_GAIN ! i * CIRC_GAIN ! i * (if i = 66 then 2147483648 else (int i + 62) * 16777216) \<le> LIMIT_SQ * 1073741824"
  using gains by (simp add: foc_gains_ok_def list_all_iff)

lemma i16_square: "x \<in> i16_range \<Longrightarrow> x * x \<le> 1073741824" "x \<in> i16_range \<Longrightarrow> y \<in> i16_range \<Longrightarrow> \<bar>x * y\<bar> \<le> 1073741824"
proof -
  have *: "\<bar>x\<bar> * \<bar>y\<bar> \<le> 32768 * 32768" if "x \<in> i16_range" "y \<in> i16_range" for x y
    using that by (intro mult_mono) (auto simp: i16_range_def)
  show "x \<in> i16_range \<Longrightarrow> x * x \<le> 1073741824" using * [of x x] by (simp add: abs_mult_self_eq)
  show "x \<in> i16_range \<Longrightarrow> y \<in> i16_range \<Longrightarrow> \<bar>x * y\<bar> \<le> 1073741824" using * [of x y] by (simp add: abs_mult)
qed

lemma scaled_square:
  assumes "0 \<le> (m :: int)"
  shows "(m * a) * (m * a) + (m * b) * (m * b) = m * m * (a * a + b * b)"
  by (simp add: algebra_simps)

lemma rnd_gain:
  assumes "x \<in> i16_range" "0 \<le> g" "g \<le> 32767"
  shows "rnd_q15 (g * x) = (g * x) sdiv 32768" "\<bar>32768 * rnd_q15 (g * x)\<bar> \<le> \<bar>g * x\<bar>" "rnd_q15 (g * x) \<in> i16_range"
proof -
  have *: "\<bar>g * x\<bar> \<le> 1073741824"
    using assms i16_square(2) [of g x] by (simp add: i16_range_def)
  then have r: "g * x \<in> i32_range" by (simp add: i32_range_def abs_le_iff)
  have "\<bar>32768 * ((g * x) sdiv 32768)\<bar> \<le> \<bar>g * x\<bar>" by (rule sdiv_near(3)) simp
  moreover from this have "\<bar>(g * x) sdiv 32768\<bar> \<le> 32767"
  proof -
    have "\<bar>g * x\<bar> \<le> 32767 * 32768"
      using assms mult_mono [of "\<bar>g\<bar>" 32767 "\<bar>x\<bar>" 32768] by (auto simp: abs_mult i16_range_def abs_le_iff)
    then show ?thesis using \<open>\<bar>32768 * ((g * x) sdiv 32768)\<bar> \<le> \<bar>g * x\<bar>\<close> by (simp add: abs_mult)
  qed
  then have "rnd_q15 (g * x) = (g * x) sdiv 32768" by (simp add: rnd_q15_sdiv [OF r] abs_le_iff)
  ultimately show "rnd_q15 (g * x) = (g * x) sdiv 32768" "\<bar>32768 * rnd_q15 (g * x)\<bar> \<le> \<bar>g * x\<bar>" "rnd_q15 (g * x) \<in> i16_range"
    using \<open>\<bar>(g * x) sdiv 32768\<bar> \<le> 32767\<close> by (simp_all add: i16_range_def abs_le_iff)
qed

lemma square_mono: "\<bar>a\<bar> \<le> \<bar>b\<bar> \<Longrightarrow> a * a \<le> b * (b :: int)"
  using abs_le_square_iff [of a b] by (simp add: power2_eq_square)

lemma circular_limit_bound:
  assumes "vq \<in> i16_range" "vd \<in> i16_range"
  shows "fst (circular_limit vq vd) \<in> i16_range \<and> snd (circular_limit vq vd) \<in> i16_range \<and>
      fst (circular_limit vq vd) * fst (circular_limit vq vd) + snd (circular_limit vq vd) * snd (circular_limit vq vd) \<le> LIMIT_SQ"
proof -
  define n where "n = vq * vq + vd * vd"
  have n: "0 \<le> n" "n \<le> 2147483648" using i16_square(1) [OF assms(1)] i16_square(1) [OF assms(2)] by (simp_all add: n_def)
  then have u: "uint (word_of_int n :: u32) = n" by (simp add: uint_word_of_int)
  show ?thesis
  proof (cases "n \<le> 1031116321")
    case True
    then have "(word_of_int n :: u32) \<le> CIRC_THRESH" by (simp add: word_le_def u CIRC_THRESH_def)
    then show ?thesis using True assms by (simp add: circular_limit_def n_def LIMIT_SQ_def)
  next
    case False
    then have over: "\<not> (word_of_int n :: u32) \<le> CIRC_THRESH" by (simp add: word_le_def u CIRC_THRESH_def)
    define k where "k = n div 16777216"
    have k: "61 \<le> k" "k \<le> 128" "n < (k + 1) * 16777216" using False n by (simp_all add: k_def)
    have "int (unat (drop_bit 24 (word_of_int n :: u32))) = k"
      unfolding unat_drop_bit_eq using n by (simp only: drop_bit_eq_div) (simp add: unat_eq_nat_uint u zdiv_int k_def)
    moreover have "nat ((k - 61) AND 255) = nat (k - 61)"
    proof -
      have "(k - 61) AND 255 = take_bit 8 (k - 61)" by (simp add: take_bit_eq_mask mask_eq_exp_minus_1)
      also have "\<dots> = k - 61" using k by (simp add: take_bit_int_eq_self)
      finally show ?thesis by simp
    qed
    ultimately have "circular_limit vq vd =
        (rnd_q15 (CIRC_GAIN ! min (nat (k - 61)) 66 * vq), rnd_q15 (CIRC_GAIN ! min (nat (k - 61)) 66 * vd))"
      using over by (simp add: circular_limit_def Let_def flip: n_def)
    moreover define i where "i = min (nat (k - 61)) 66"
    moreover define g where "g = CIRC_GAIN ! i"
    ultimately have cl: "circular_limit vq vd = (rnd_q15 (g * vq), rnd_q15 (g * vd))" by simp
    have i: "i < 67" by (simp add: i_def)
    have g: "0 \<le> g" "g \<le> 32767" "g * g * n \<le> LIMIT_SQ * 1073741824"
    proof -
      have "n \<le> (if i = 66 then 2147483648 else (int i + 62) * 16777216)" using k n by (auto simp: i_def)
      then have "g * g * n \<le> g * g * (if i = 66 then 2147483648 else (int i + 62) * 16777216)"
        by (rule mult_left_mono) simp
      then show "0 \<le> g" "g \<le> 32767" "g * g * n \<le> LIMIT_SQ * 1073741824"
        using gain_row [OF i] by (simp_all add: g_def)
    qed
    define a b where "a = rnd_q15 (g * vq)" and "b = rnd_q15 (g * vd)"
    have "(32768 * a) * (32768 * a) + (32768 * b) * (32768 * b) \<le> (g * vq) * (g * vq) + (g * vd) * (g * vd)"
      using rnd_gain(2) [OF assms(1) g(1,2)] rnd_gain(2) [OF assms(2) g(1,2)]
      by (intro add_mono square_mono) (simp_all add: a_def b_def)
    also have "\<dots> = g * g * n" by (simp add: n_def algebra_simps)
    finally have "1073741824 * (a * a + b * b) \<le> LIMIT_SQ * 1073741824" using g(3) by (simp add: algebra_simps)
    then show ?thesis
      using rnd_gain(3) [OF assms(1) g(1,2)] rnd_gain(3) [OF assms(2) g(1,2)] by (simp add: cl a_def b_def)
  qed
qed

section \<open>The inverse Park transform\<close>

lemma rotated:
  assumes "a * a + b * b \<le> (LIMIT_SQ :: int)" "s * s + c * c \<le> (1073741824 :: int)"
  shows "(a * c + b * s) * (a * c + b * s) + (b * c - a * s) * (b * c - a * s) \<le> LIMIT_SQ * 1073741824"
proof -
  have "(a * c + b * s) * (a * c + b * s) + (b * c - a * s) * (b * c - a * s) = (a * a + b * b) * (s * s + c * c)"
    by (simp add: algebra_simps)
  also have "\<dots> \<le> LIMIT_SQ * 1073741824" using assms by (intro mult_mono) (simp_all add: LIMIT_SQ_def)
  finally show ?thesis .
qed

lemma rnd_small:
  assumes "x * x \<le> LIMIT_SQ * 1073741824"
  shows "\<bar>32768 * rnd_q15 x\<bar> \<le> \<bar>x\<bar>"
proof -
  have "x * x \<le> 1073741824 * 1073741824" using assms by (simp add: LIMIT_SQ_def)
  then have x: "\<bar>x\<bar> \<le> 1073741824" using abs_le_square_iff [of x 1073741824] by (simp add: power2_eq_square)
  then have r: "x \<in> i32_range" by (simp add: i32_range_def abs_le_iff)
  have near: "\<bar>32768 * (x sdiv 32768)\<bar> \<le> \<bar>x\<bar>" by (rule sdiv_near(3)) simp
  have "x * x < 1073741824 * 1073741824" using assms by (simp add: LIMIT_SQ_def)
  then have "\<bar>x\<bar> \<noteq> 1073741824" using square_mono [of 1073741824 x] by auto
  then have "\<bar>x sdiv 32768\<bar> \<le> 32767" using near x by (simp add: abs_mult)
  then show ?thesis using near by (simp add: rnd_q15_sdiv [OF r] abs_le_iff)
qed

lemma park_inverse_bound:
  assumes "vq * vq + vd * vd \<le> LIMIT_SQ"
  shows "fst (park_inverse vq vd theta) * fst (park_inverse vq vd theta) +
         snd (park_inverse vq vd theta) * snd (park_inverse vq vd theta) \<le> LIMIT_SQ"
proof -
  obtain s c where sc: "lookup_sincos theta = (s, c)" by fastforce
  define x y where "x = vq * c + vd * s" and "y = vd * c - vq * s"
  have xy: "x * x + y * y \<le> LIMIT_SQ * 1073741824"
    unfolding x_def y_def by (rule rotated [OF assms sincos_unit(3) [OF sc]])
  have "0 \<le> x * x" "0 \<le> y * y" by simp_all
  then have "x * x \<le> LIMIT_SQ * 1073741824" "y * y \<le> LIMIT_SQ * 1073741824" using xy by linarith+
  then have "(32768 * rnd_q15 x) * (32768 * rnd_q15 x) + (32768 * rnd_q15 y) * (32768 * rnd_q15 y) \<le> x * x + y * y"
    by (intro add_mono square_mono rnd_small)
  then have "1073741824 * (rnd_q15 x * rnd_q15 x + rnd_q15 y * rnd_q15 y) \<le> 1073741824 * LIMIT_SQ"
    using xy by (simp add: algebra_simps)
  then show ?thesis by (simp add: park_inverse_def sc x_def y_def)
qed

section \<open>The modulation\<close>

lemma halves:
  fixes alpha beta :: int
  defines "b \<equiv> - (beta * SVPWM_BETA)" and "a \<equiv> alpha * SVPWM_ALPHA"
  shows "(b + a) sdiv 2 + (b - a) sdiv 2 = b" "(b + a) sdiv 2 - (b - a) sdiv 2 = a"
    "(b + a) sdiv 2 = 7794 * alpha - 4500 * beta" "(b - a) sdiv 2 = - 7794 * alpha - 4500 * beta"
proof -
  have e: "b + a = 2 * (7794 * alpha - 4500 * beta)" "b - a = 2 * (- 7794 * alpha - 4500 * beta)"
    by (simp_all add: b_def a_def SVPWM_BETA_def SVPWM_ALPHA_def)
  have "(2 * z) sdiv 2 = z" for z :: int by (simp add: signed_divide_int_def abs_mult sgn_mult mult_sgn_abs)
  then show p: "(b + a) sdiv 2 = 7794 * alpha - 4500 * beta" and q: "(b - a) sdiv 2 = - 7794 * alpha - 4500 * beta"
    unfolding e by blast+
  show "(b + a) sdiv 2 + (b - a) sdiv 2 = b" "(b + a) sdiv 2 - (b - a) sdiv 2 = a"
    unfolding p q by (simp_all add: b_def a_def SVPWM_BETA_def SVPWM_ALPHA_def)
qed

lemma half_bound:
  assumes "alpha * alpha + beta * beta \<le> LIMIT_SQ"
  shows "\<bar>7794 * alpha - 4500 * beta\<bar> \<le> 289250000" "\<bar>- 7794 * alpha - 4500 * beta\<bar> \<le> 289250000" "\<bar>9000 * beta\<bar> \<le> 289250000"
proof -
  have *: "\<bar>7794 * x + 4500 * y\<bar> \<le> 289250000" if "x * x + y * y \<le> LIMIT_SQ" for x y :: int
  proof -
    have "(7794 * x + 4500 * y) * (7794 * x + 4500 * y) + (4500 * x - 7794 * y) * (4500 * x - 7794 * y) =
        80996436 * (x * x + y * y)" by (simp add: algebra_simps)
    moreover have "0 \<le> (4500 * x - 7794 * y) * (4500 * x - 7794 * y)" by simp
    moreover have "80996436 * (x * x + y * y) \<le> 80996436 * LIMIT_SQ" using that by simp
    ultimately have "(7794 * x + 4500 * y) * (7794 * x + 4500 * y) \<le> 80996436 * LIMIT_SQ" by linarith
    then have "(7794 * x + 4500 * y) * (7794 * x + 4500 * y) \<le> 289250000 * 289250000"
      by (simp add: LIMIT_SQ_def)
    then show ?thesis
      using abs_le_square_iff [of "7794 * x + 4500 * y" 289250000] by (simp add: power2_eq_square)
  qed
  show "\<bar>7794 * alpha - 4500 * beta\<bar> \<le> 289250000" using * [of alpha "- beta"] assms by simp
  show "\<bar>- 7794 * alpha - 4500 * beta\<bar> \<le> 289250000" using * [of "- alpha" "- beta"] assms by simp
  have "0 \<le> alpha * alpha" by simp
  then have "beta * beta \<le> LIMIT_SQ" using assms by linarith
  then have "81000000 * (beta * beta) \<le> 81000000 * LIMIT_SQ" by simp
  moreover have "(9000 * beta) * (9000 * beta) = 81000000 * (beta * beta)" by simp
  ultimately have "(9000 * beta) * (9000 * beta) \<le> 289250000 * 289250000" by (simp add: LIMIT_SQ_def)
  then show "\<bar>9000 * beta\<bar> \<le> 289250000"
    using abs_le_square_iff [of "9000 * beta" 289250000] by (simp add: power2_eq_square)
qed

lemma rsh17_near: "\<bar>x\<bar> \<le> 2000000000 \<Longrightarrow> 2 * x - 262142 \<le> 262144 * rsh17 x \<and> 262144 * rsh17 x \<le> 2 * x + 262142"
  using sdiv_near(1,2) [of 131072 x] by (simp add: rsh17_sdiv i32_range_def abs_le_iff)

lemma rsh18_near: "\<bar>x\<bar> \<le> 2000000000 \<Longrightarrow> x - 262143 \<le> 262144 * rsh18 x \<and> 262144 * rsh18 x \<le> x + 262143"
  using sdiv_near(1,2) [of 262144 x] by (simp add: rsh18_sdiv i32_range_def abs_le_iff)

lemma svpwm_compare_bound:
  assumes "alpha * alpha + beta * beta \<le> LIMIT_SQ" "svpwm_compare alpha beta = (base, c1, c2)"
  shows "base \<in> {0..2250} \<and> c1 \<in> {0..2250} \<and> c2 \<in> {0..2250}"
proof -
  define p q where "p = 7794 * alpha - 4500 * beta" and "q = - 7794 * alpha - 4500 * beta"
  define b where "b = p + q"
  have pq: "\<bar>p\<bar> \<le> 289250000" "\<bar>q\<bar> \<le> 289250000" "\<bar>p + q\<bar> \<le> 289250000"
    using half_bound [OF assms(1)] by (simp_all add: p_def q_def)
  note near = rsh17_near rsh18_near
  have raw: "(- (beta * SVPWM_BETA) + alpha * SVPWM_ALPHA) sdiv 2 = p" "(- (beta * SVPWM_BETA) - alpha * SVPWM_ALPHA) sdiv 2 = q"
    "- (beta * SVPWM_BETA) = p + q"
    using halves [of beta alpha] by (simp_all add: p_def q_def)
  consider (s14) "svpwm_sector alpha beta \<in> {1, 4}" "(p \<ge> 0 \<and> q < 0 \<and> p + q > 0) \<or> (p < 0 \<and> q \<ge> 0 \<and> p + q \<le> 0)"
    | (s25) "svpwm_sector alpha beta \<in> {2, 5}" "(p \<ge> 0 \<and> q \<ge> 0) \<or> (p < 0 \<and> q < 0)"
    | (s36) "svpwm_sector alpha beta \<in> {3, 6}" "(p < 0 \<and> q \<ge> 0 \<and> p + q > 0) \<or> (p \<ge> 0 \<and> q < 0 \<and> p + q \<le> 0)"
  proof -
    have "beta * SVPWM_BETA = - (p + q)" using raw(3) by simp
    then have "svpwm_sector alpha beta =
       (if p < 0 \<and> q < 0 then 5
         else if p < 0 then (if p + q \<le> 0 then 4 else 3)
         else if q < 0 then (if p + q \<le> 0 then 6 else 1)
         else 2)"
      unfolding svpwm_sector_def Let_def raw(1,2) by auto
    then show ?thesis using that by (simp split: if_splits)
  qed
  then show ?thesis
  proof cases
    case s14
    then have eq: "base = rsh18 (p + 9000) + 1125" "c1 = base + rsh17 q" "c2 = c1 - rsh17 (p + q)"
      using assms(2) unfolding svpwm_compare_def Let_def raw(1,2) unfolding raw(3)
      by (auto simp: SVPWM_BETA_def SVPWM_CENTER_def)
    show ?thesis
      using eq s14(2) pq near [of q] near [of "p + q"] near [of "p + 9000"] by (auto simp: abs_le_iff)
  next
    case s25
    then have eq: "base = rsh18 (p - q + 9000) + 1125" "c1 = base + rsh17 q" "c2 = base - rsh17 p"
      using assms(2) unfolding svpwm_compare_def Let_def raw(1,2) unfolding raw(3)
      by (auto simp: SVPWM_BETA_def SVPWM_CENTER_def)
    show ?thesis
      using eq s25(2) pq near [of q] near [of p] near [of "p - q + 9000"] by (auto simp: abs_le_iff)
  next
    case s36
    then have eq: "base = rsh18 (9000 - q) + 1125" "c2 = base - rsh17 p" "c1 = rsh17 (p + q) + c2"
      using assms(2) unfolding svpwm_compare_def Let_def raw(1,2) unfolding raw(3)
      by (auto simp: SVPWM_BETA_def SVPWM_CENTER_def)
    show ?thesis
      using eq s36(2) pq near [of p] near [of "p + q"] near [of "9000 - q"] by (auto simp: abs_le_iff)
  qed
qed

section \<open>The sine arm\<close>

lemma sine_offset_bound:
  assumes "\<bar>s\<bar> \<le> 32767" "unat amp \<le> 1125"
  shows "\<bar>sine_offset s amp\<bar> \<le> 1125"
proof -
  define u where "u = int (unat amp)"
  have u: "0 \<le> u" "u \<le> 1125" using assms(2) unfolding u_def by linarith+
  define x where "x = s * u"
  have "\<bar>x\<bar> \<le> 32767 * 1125" using u assms(1) mult_mono [of "\<bar>s\<bar>" 32767 u 1125] by (simp add: x_def abs_mult)
  moreover have "(32767 :: int) sdiv 2 = 16383" by simp
  moreover define y where "y = x + (if x \<ge> 0 then 16383 else - 16383)"
  ultimately have y: "\<bar>y\<bar> \<le> 36879258" and eq: "sine_offset s amp = y sdiv 32767"
    by (auto simp: sine_offset_def Let_def x_def u_def)
  have "\<bar>32767 * (y sdiv 32767)\<bar> \<le> \<bar>y\<bar>" by (rule sdiv_near(3)) simp
  then show ?thesis using y by (simp add: eq abs_mult)
qed

lemma amplitude_exact: "unat (demand_to_amplitude demand) = min 1125 (nat \<bar>demand\<bar> * 1125 div 32767)"
  by (simp add: demand_to_amplitude_def MID_RAIL_def ARR_def Let_def of_nat_inverse min_def)

end
