(* ===== verification/SixstepProps.thy ===== *)
theory SixstepProps
  imports FocLoop "HOL-Library.Multiset"
begin

unbundle bit_operations_syntax

text \<open>
  What the six-step arm promises: one source, one sink and one floating phase on a valid code, the mirror image of
  them for the opposite demand, the coast otherwise; and the alignment, which points the decode and the angle path at
  the same vector.
\<close>

lemma u8_cases: "(w :: u8) < 6 \<Longrightarrow> w \<in> {0, 1, 2, 3, 4, 5}"
proof -
  assume "w < 6"
  then have "unat w < 6" by (simp add: word_less_nat_alt)
  then have "unat w \<in> {0, 1, 2, 3, 4, 5}" by auto
  then have "word_of_nat (unat w) \<in> (word_of_nat ` {0, 1, 2, 3, 4, 5} :: u8 set)" by (rule imageI)
  then show ?thesis by simp
qed

lemma hall_index: "unat ((code :: u8) AND 7) < 8"
  using word_and_le1 [of code 7] by (simp add: word_le_nat_alt)

lemma hall_cases: "unat ((code :: u8) AND 7) \<in> {0, 1, 2, 3, 4, 5, 6, 7}"
  using hall_index [of code] by auto

lemma valid_code_cases: "is_valid_code code \<longleftrightarrow> unat (code AND 7) \<in> {1, 2, 3, 4, 5, 6}"
  using hall_cases [of code] by (auto simp: is_valid_code_def HALL_TO_SECTOR_def INVALID_def)

text \<open>The state of the bridge a decode selects, as an index into \<open>STATES\<close>.\<close>

definition state_index :: "six_step \<Rightarrow> u8 \<Rightarrow> nat" where
  "state_index d code =
     (unat (HALL_TO_SECTOR ! unat (code AND 7)) + unat (ss_offset d) + unat (decode_half (ss_direction d))) mod 6"

lemma decode_state:
  assumes "ss_offset d < 6"
  shows "decode_pattern d code = (if is_valid_code code then Some (STATES ! state_index d code) else None)"
  using u8_cases [OF assms] hall_cases [of code]
  by (cases "ss_direction d"; auto simp: decode_pattern_def is_valid_code_def state_index_def HALL_TO_SECTOR_def INVALID_def simp del: One_nat_def)
    (simp_all add: numeral_2_eq_2)

lemma state_index_less: "state_index d code < 6"
  by (simp add: state_index_def)

fun swap_drive :: "phase_drive \<Rightarrow> phase_drive" where
  "swap_drive Pwm = Sink"
| "swap_drive Sink = Pwm"
| "swap_drive FloatPhase = FloatPhase"

lemma states_swap: "i < 6 \<Longrightarrow> STATES ! ((i + 3) mod 6) = map swap_drive (STATES ! i)"
proof -
  assume "i < 6"
  moreover have "list_all (\<lambda>i. STATES ! ((i + 3) mod 6) = map swap_drive (STATES ! i)) [0..<6]" by code_simp
  ultimately show ?thesis by (simp add: list_all_iff)
qed

lemma states_mset: "i < 6 \<Longrightarrow> mset (STATES ! i) = {#Pwm, Sink, FloatPhase#}"
proof -
  assume "i < 6"
  then have "i \<in> {0, 1, 2, 3, 4, 5}" by auto
  then show ?thesis by (auto simp: STATES_def numeral_eq_Suc)
qed

lemma half_values: "unat (decode_half Forward) = 0" "unat (decode_half Reverse) = 3"
  by simp_all

lemma flip_index:
  assumes "ss_offset d < 6"
  shows "state_index (six_step_new (flip_direction (ss_direction d)) (ss_offset d)) code = (state_index d code + 3) mod 6"
proof -
  have "ss_offset d mod 6 = ss_offset d" using u8_cases [OF assms] by auto
  moreover have "(a + 3) mod 6 = (a mod 6 + 3) mod 6" "a mod 6 = ((a + 3) mod 6 + 3) mod 6" for a :: nat
    by presburger+
  ultimately show ?thesis
    by (cases "ss_direction d") (simp_all add: state_index_def six_step_new_def half_values del: decode_half.simps)
qed

text \<open>The scaled demand, exactly.\<close>

lemma duty_exact: "unat (demand_to_duty demand) = min 2250 (nat \<bar>demand\<bar> * 2250 div 32767)"
  by (simp add: demand_to_duty_def ARR_def Let_def of_nat_inverse min_def)

lemma duty_even: "demand_to_duty (- d) = demand_to_duty d"
  by (simp add: demand_to_duty_def)

lemma duty_le: "unat (demand_to_duty d) \<le> 2250"
  by (simp add: duty_exact)

lemma next_hall:
  assumes "c \<in> {1, 2, 3, 4, 5, 6 :: u8}"
  shows "is_valid_code (FWD_NEXT ! unat c) \<and> state_index d (FWD_NEXT ! unat c) = (state_index d c + 1) mod 6"
proof -
  have "list_all (\<lambda>c. is_valid_code (FWD_NEXT ! unat c) \<and>
      unat (HALL_TO_SECTOR ! unat (FWD_NEXT ! unat c AND 7)) = (unat (HALL_TO_SECTOR ! unat (c AND 7)) + 1) mod 6)
      [1, 2, 3, 4, 5, 6 :: u8]" by code_simp
  moreover have "c \<in> set [1, 2, 3, 4, 5, 6]" using assms by simp
  ultimately have "is_valid_code (FWD_NEXT ! unat c) \<and>
      unat (HALL_TO_SECTOR ! unat (FWD_NEXT ! unat c AND 7)) = (unat (HALL_TO_SECTOR ! unat (c AND 7)) + 1) mod 6"
    unfolding list_all_iff by (rule bspec)
  then have "is_valid_code (FWD_NEXT ! unat c)"
    and moved: "unat (HALL_TO_SECTOR ! unat (FWD_NEXT ! unat c AND 7)) = (unat (HALL_TO_SECTOR ! unat (c AND 7)) + 1) mod 6"
    by blast+
  moreover have "((a + 1) mod 6 + b + e) mod 6 = ((a + b + e) mod 6 + 1) mod 6" for a b e :: nat
    using mod_add_left_eq [of "a + 1" 6 "b + e"] mod_add_left_eq [of "a + b + e" 6 1] by (simp only: ac_simps)
  ultimately show ?thesis by (simp only: state_index_def)
qed

section \<open>The properties\<close>

text \<open>C40: The six-step arm commutates. For a valid hall code and a non-zero demand exactly one phase is the source, driven at
  the magnitude of the demand scaled to the period (\<open>\<bar>demand\<bar> * 2250 / 32767\<close>, rounded down and never above 2250), one is
  the sink, driven at 0, and one floats; the opposite demand exchanges the source and the sink and keeps the floating
  phase; and when the rotor moves on to the next hall code of the forward sequence the decode moves on to the next of
  its six states. Without a demand, or on either fault code, all three phases float.\<close>

theorem six_step_commutates:
  assumes "ss_offset st < 6"
  shows "\<exists>n. n < 6 \<and>
      (\<forall>demand. sixstep_step st code demand =
        (if demand = 0 \<or> \<not> is_valid_code code then COAST
         else \<lparr>phases = map (phase_of (demand_to_duty demand))
                          (if demand < 0 then map swap_drive (STATES ! n) else STATES ! n)\<rparr>)) \<and>
      mset (STATES ! n) = {#Pwm, Sink, FloatPhase#} \<and>
      (code \<in> {1, 2, 3, 4, 5, 6} \<longrightarrow> decode_pattern st (FWD_NEXT ! unat code) = Some (STATES ! ((n + 1) mod 6))) \<and>
      (\<forall>demand. unat (demand_to_duty demand) = min (unat ARR) (nat \<bar>demand\<bar> * 2250 div 32767) \<and>
                demand_to_duty (- demand) = demand_to_duty demand)"
proof -
  define n where "n = state_index st code"
  have n: "n < 6" by (simp add: n_def state_index_less)
  have small: "ss_offset (six_step_new e (ss_offset st)) < 6" for e
    using u8_cases [OF assms] by (auto simp: six_step_new_def)
  have "sixstep_step st code demand =
      (if demand = 0 \<or> \<not> is_valid_code code then COAST
       else \<lparr>phases = map (phase_of (demand_to_duty demand))
                        (if demand < 0 then map swap_drive (STATES ! n) else STATES ! n)\<rparr>)" for demand
    by (simp add: sixstep_step_def Let_def decode_state [OF assms] decode_state [OF small] flip_index [OF assms]
        states_swap [OF n] flip: n_def)
  moreover have "code \<in> {1, 2, 3, 4, 5, 6} \<longrightarrow> decode_pattern st (FWD_NEXT ! unat code) = Some (STATES ! ((n + 1) mod 6))"
    using next_hall [of code st] by (simp add: decode_state [OF assms] n_def)
  ultimately show ?thesis
    using n states_mset [OF n] duty_even by (intro exI [of _ n]) (simp add: duty_exact ARR_def)
qed

lemma six_step_commutates_witness:
  "\<exists>n. n < 6 \<and> sixstep_step (six_step_new Reverse 8) 5 (- 1000) = \<lparr>phases = map (phase_of 68) (map swap_drive (STATES ! n))\<rparr>"
proof -
  have "ss_offset (six_step_new Reverse 8) < 6" by (simp add: six_step_new_def)
  from six_step_commutates [OF this, of 5] obtain n where n: "n < 6"
    and step: "\<forall>demand. sixstep_step (six_step_new Reverse 8) 5 demand =
        (if demand = 0 \<or> \<not> is_valid_code 5 then COAST
         else \<lparr>phases = map (phase_of (demand_to_duty demand))
                          (if demand < 0 then map swap_drive (STATES ! n) else STATES ! n)\<rparr>)"
    by blast
  have "demand_to_duty (- 1000) = 68" "is_valid_code 5"
    by (simp_all add: demand_to_duty_def ARR_def is_valid_code_def HALL_TO_SECTOR_def INVALID_def)
  then show ?thesis using n step by auto
qed

text \<open>C0: A change of method does not move the drive vector of a motor. Every alignment (an offset of 0 to 5 sectors and either
  direction) turns the decode and the angle path by the same amount: at each of the six hall codes the angle the sine and
  FOC arms index, the anchor of the code plus \<open>angle_path_offset\<close>, lies within two of the 65536 units of the vector of
  the state the six-step arm drives, which is \<open>0xEAAA\<close> for state 0 and 60 degrees further for each state after it.\<close>

theorem method_switch_keeps_vector:
  "\<forall>align \<in> {six_step_new d off | d off. True}. \<forall>code \<in> {1, 2, 3, 4, 5, 6}.
     \<exists>n < 6. decode_pattern align code = Some (STATES ! n) \<and>
       (BASE_ANGLE ! unat code + angle_path_offset align) - (0xEAAA + sector_angle (of_nat n)) + 2 \<le> 4"
proof (intro ballI)
  fix align :: six_step and code :: u8
  assume "align \<in> {six_step_new d off | d off. True}" and code: "code \<in> {1, 2, 3, 4, 5, 6}"
  then obtain d off where align: "align = six_step_new d off" by auto
  have "off mod 6 < 6" by (simp add: word_less_nat_alt unat_mod)
  then have off: "ss_offset align < 6" by (simp add: align six_step_new_def)
  have valid: "is_valid_code code"
    using code by (auto simp: is_valid_code_def HALL_TO_SECTOR_def INVALID_def)
  have "BASE_ANGLE ! unat code + angle_path_offset align - (0xEAAA + sector_angle (of_nat (state_index align code))) + 2 \<le> 4"
    using u8_cases [OF off] code
    by (cases "ss_direction align")
      (auto simp: BASE_ANGLE_def angle_path_offset_def DECODE_SECTOR_LEAD_def state_index_def HALL_TO_SECTOR_def
        sector_angle_def)
  then show "\<exists>n < 6. decode_pattern align code = Some (STATES ! n) \<and>
       (BASE_ANGLE ! unat code + angle_path_offset align) - (0xEAAA + sector_angle (of_nat n)) + 2 \<le> 4"
    using off valid state_index_less by (auto simp: decode_state intro!: exI [of _ "state_index align code"])
qed

lemma method_switch_keeps_vector_witness:
  "\<exists>n < 6. decode_pattern (six_step_new Reverse 2) 5 = Some (STATES ! n) \<and>
     (BASE_ANGLE ! 5 + angle_path_offset (six_step_new Reverse 2)) - (0xEAAA + sector_angle (of_nat n)) + 2 \<le> 4"
proof -
  have "six_step_new Reverse 2 \<in> {six_step_new d off | d off. True}" "(5 :: u8) \<in> {1, 2, 3, 4, 5, 6}" by auto
  from bspec [OF bspec [OF method_switch_keeps_vector this(1)] this(2)] show ?thesis by simp
qed

end
