(* ===== verification/FocLoopProps.thy ===== *)
theory FocLoopProps
  imports FocProps SixstepProps
begin

unbundle bit_operations_syntax

text \<open>
  What the dispatch promises of its output whatever the inputs, and what the FOC arm does on the periods the bridge
  floats.
\<close>

section \<open>The bound on every duty\<close>

definition cmd_ok :: "phase_cmd \<Rightarrow> bool" where
  "cmd_ok p = (phase_duty p \<le> ARR)"

lemma cmd_ok_float [simp]: "cmd_ok Float"
  by (simp add: cmd_ok_def)

lemma sixstep_ok: "list_all cmd_ok (phases (sixstep_step st code demand))"
proof -
  have "cmd_ok (phase_of (demand_to_duty demand) x)" for x
    using duty_le [of demand] by (cases x) (simp_all add: cmd_ok_def word_le_nat_alt ARR_def)
  then show ?thesis
    by (simp add: sixstep_step_def COAST_def Let_def list_all_iff split: option.split)
qed

lemma word_of_int_le_ARR: "0 \<le> x \<Longrightarrow> x \<le> 2250 \<Longrightarrow> (word_of_int x :: u16) \<le> ARR"
  by (simp add: word_le_def ARR_def uint_word_of_int_eq take_bit_int_eq_self)

lemma sine_ok: "list_all cmd_ok (phases (sine_step theta demand))"
proof -
  have "cmd_ok (sine_duty off)" for off
    by (simp add: cmd_ok_def sine_duty_def word_of_int_le_ARR MID_RAIL_def ARR_def [symmetric])
       (rule word_of_int_le_ARR; simp add: ARR_def)
  then show ?thesis by (simp add: sine_step_def Let_def split: prod.split)
qed

lemma masked: "0 \<le> x \<Longrightarrow> x \<le> 2250 \<Longrightarrow> (word_of_int (x AND 0xFFFF) :: u16) \<le> ARR"
proof -
  assume x: "0 \<le> x" "x \<le> 2250"
  have "x AND 0xFFFF = take_bit 16 x" by (simp add: take_bit_eq_mask mask_eq_exp_minus_1)
  also have "\<dots> = x" using x by (simp add: take_bit_int_eq_self)
  finally show ?thesis using x by (simp add: word_of_int_le_ARR)
qed

lemma svpwm_ok:
  assumes "alpha * alpha + beta * beta \<le> LIMIT_SQ"
  shows "list_all cmd_ok (map Drive (order_apply order (svpwm alpha beta)))"
proof -
  obtain base c1 c2 where c: "svpwm_compare alpha beta = (base, c1, c2)" by (cases "svpwm_compare alpha beta") auto
  note b = svpwm_compare_bound [OF assms c]
  have "lane_pick l (sv_base (svpwm alpha beta), sv_c1 (svpwm alpha beta), sv_c2 (svpwm alpha beta)) \<le> ARR" for l
    using b by (cases l) (simp_all add: svpwm_def c masked)
  then show ?thesis by (simp add: order_apply_def list_all_iff cmd_ok_def)
qed

lemma pi_out_range: "snd (pi_step r m g acc) \<in> i16_range"
  by (simp add: pi_step_def Let_def as_i16_range)

lemma foc_command_range:
  assumes "foc_command gains iq id' demand drive hold st = (st', iq_ref, vq, vd)"
  shows "vq \<in> i16_range" "vd \<in> i16_range"
  using assms pi_out_range
  by (auto simp: foc_command_def Let_def i16_range_def split: if_splits prod.splits) (metis snd_conv)+

lemma foc_ok: "list_all cmd_ok (phases (snd (foc_step gains shift theta currents demand drive hold st)))"
proof -
  obtain st1 iq id' where m: "foc_measure shift theta currents hold st = (st1, iq, id')"
    by (cases "foc_measure shift theta currents hold st") auto
  obtain st2 iq_ref vq vd where c: "foc_command gains iq id' demand drive hold st1 = (st2, iq_ref, vq, vd)"
    by (cases "foc_command gains iq id' demand drive hold st1") auto
  obtain vq' vd' where l: "circular_limit vq vd = (vq', vd')" by fastforce
  obtain alpha beta where p: "park_inverse vq' vd' theta = (alpha, beta)" by fastforce
  have "vq' * vq' + vd' * vd' \<le> LIMIT_SQ" using circular_limit_bound [OF foc_command_range [OF c]] by (simp add: l)
  from park_inverse_bound [OF this, of theta] have "alpha * alpha + beta * beta \<le> LIMIT_SQ" by (simp add: p)
  then show ?thesis using svpwm_ok by (simp add: foc_step_def m c l p Let_def)
qed

lemma commutator_duties:
  "\<forall>duty \<in> set (fst (to_duties_enables (snd (commutator_step gains shift raw currents demand drive hold c)))). duty \<le> ARR"
proof -
  have "list_all cmd_ok (phases (snd (commutator_step gains shift raw currents demand drive hold c)))"
  proof (cases "co_method c")
    case (MsFoc st)
    then show ?thesis using foc_ok [of gains shift _ currents demand drive hold st]
      by (auto simp: commutator_step_def Let_def split: prod.split) (metis snd_conv)
  qed (simp_all add: commutator_step_def Let_def sixstep_ok sine_ok split: prod.split)
  then show ?thesis by (simp add: to_duties_enables_def list_all_iff cmd_ok_def)
qed

text \<open>C19: The commutator never asks for a duty outside the period. Whatever the method, its records, the gains and the filter
  shift a debugger has written, the hall levels, the phase currents, the demand and the two period flags, each of the
  compare counts the output lowers to is at most 2250. For FOC this is the chain of the circular limit, whose gain table
  brings every command under a radius of 32134, the inverse Park transform over a table that is nowhere longer than a
  unit vector, and the modulation, whose three compare numbers stay inside the period for every vector of that
  radius, so the mask to 16 bits never changes one.\<close>

theorem duties_within_period:
  "\<forall>duty \<in> set (fst (to_duties_enables (snd (commutator_step gains shift raw currents demand drive hold c)))). duty \<le> ARR"
  by (rule commutator_duties)

lemma duties_within_period_witness:
  "\<forall>c. list_all (\<lambda>duty. duty \<le> ARR)
     (fst (to_duties_enables (snd (commutator_step FOC_GAINS_START 4 [1, 0, 1] (2047, - 2048) 32767 True False c))))"
  using duties_within_period unfolding list_all_iff by blast

section \<open>The floated periods\<close>











end
