(* ===== verification/Runs.thy ===== *)
theory Runs
  imports Prelude
begin

text \<open>
  Stretches of a list whose elements all satisfy a predicate: what a counter that a failing element resets counts.
  The hall-fault dwell and the over-current runs share it.
\<close>

definition tail_run :: "('a \<Rightarrow> bool) \<Rightarrow> 'a list \<Rightarrow> nat" where
  "tail_run P xs = length (takeWhile P (rev xs))"

definition has_run :: "('a \<Rightarrow> bool) \<Rightarrow> nat \<Rightarrow> 'a list \<Rightarrow> bool" where
  "has_run P k xs \<longleftrightarrow> (\<exists>n. n + k \<le> length xs \<and> list_all P (take k (drop n xs)))"

lemma tail_run_simps [simp]:
  "tail_run P [] = 0" "tail_run P (xs @ [x]) = (if P x then tail_run P xs + 1 else 0)"
  by (simp_all add: tail_run_def)

lemma takeWhile_at_least: "n \<le> length (takeWhile P ys) \<longleftrightarrow> n \<le> length ys \<and> list_all P (take n ys)"
  by (induction ys arbitrary: n) (auto simp: take_Cons split: nat.splits)

lemma tail_run_at_least: "k \<le> tail_run P xs \<longleftrightarrow> k \<le> length xs \<and> list_all P (drop (length xs - k) xs)"
  by (simp add: tail_run_def takeWhile_at_least take_rev list_all_iff)

lemma tail_run_le: "tail_run P xs \<le> length xs"
  using tail_run_at_least [of "tail_run P xs" P xs] by simp

lemma has_run_Nil [simp]: "has_run P k [] \<longleftrightarrow> k = 0"
  by (simp add: has_run_def)

lemma has_run_snoc:
  assumes "0 < k"
  shows "has_run P k (xs @ [x]) \<longleftrightarrow> has_run P k xs \<or> k \<le> tail_run P (xs @ [x])"
proof -
  have late: "n + k = length (xs @ [x]) \<Longrightarrow> take k (drop n (xs @ [x])) = drop (length (xs @ [x]) - k) (xs @ [x])" for n
  proof -
    assume n: "n + k = length (xs @ [x])"
    then have "length (xs @ [x]) - k = n" "length (drop n (xs @ [x])) \<le> k" by (linarith, simp)
    then show ?thesis by simp
  qed
  have early: "n + k \<le> length xs \<Longrightarrow> take k (drop n (xs @ [x])) = take k (drop n xs)" for n by simp
  have split: "n + k \<le> length (xs @ [x]) \<longleftrightarrow> n + k \<le> length xs \<or> n + k = length (xs @ [x])" for n by auto
  have "(\<exists>n. n + k = length (xs @ [x]) \<and> list_all P (take k (drop n (xs @ [x])))) \<longleftrightarrow> k \<le> tail_run P (xs @ [x])"
  proof
    assume "\<exists>n. n + k = length (xs @ [x]) \<and> list_all P (take k (drop n (xs @ [x])))"
    then obtain n where n: "n + k = length (xs @ [x])" "list_all P (take k (drop n (xs @ [x])))" by blast
    have "k \<le> length (xs @ [x])" using n(1) by linarith
    then show "k \<le> tail_run P (xs @ [x])" using n(2) unfolding late [OF n(1)] tail_run_at_least by blast
  next
    assume t: "k \<le> tail_run P (xs @ [x])"
    then have "length (xs @ [x]) - k + k = length (xs @ [x])" using tail_run_le [of P "xs @ [x]"] by linarith
    then show "\<exists>n. n + k = length (xs @ [x]) \<and> list_all P (take k (drop n (xs @ [x])))"
      using t late unfolding tail_run_at_least by metis
  qed
  then show ?thesis unfolding has_run_def split using early by metis
qed

lemma has_run_tail: "0 < k \<Longrightarrow> k \<le> tail_run P xs \<Longrightarrow> has_run P k xs"
  by (cases xs rule: rev_cases) (simp_all add: has_run_snoc)

end
