(* ===== verification/RotorProps.thy ===== *)
theory RotorProps
  imports SixstepProps Runs
begin

unbundle bit_operations_syntax

text \<open>
  The rotor front end against a rotor: the position of a shaft in sixths of an electrical turn, the hall levels it
  presents, and what the debounce and the estimator make of a path of positions; the window speed and the
  hall fault as functions of the codes alone.
\<close>

section \<open>The shaft\<close>

text \<open>The forward sequence of codes, and the levels a shaft at position \<open>p\<close> presents.\<close>

definition FORWARD_CODES :: "u8 list" where "FORWARD_CODES = [1, 3, 2, 6, 4, 5]"

definition hall_at :: "int \<Rightarrow> u8" where
  "hall_at p = FORWARD_CODES ! nat (p mod 6)"

definition levels_at :: "int \<Rightarrow> u8 list" where
  "levels_at p = map (\<lambda>i. drop_bit i (hall_at p) AND 1) [0, 1, 2]"

text \<open>The line that moves between positions \<open>p\<close> and \<open>p + 1\<close>.\<close>

definition line_at :: "int \<Rightarrow> nat" where
  "line_at p = [1, 0, 2] ! nat (p mod 3)"

lemma mod6_cases: "(p :: int) mod 6 \<in> {0, 1, 2, 3, 4, 5}"
  by auto

lemma shaft_tables: "list_all (\<lambda>p. levels_at (int p) =
    [ [1, 0, 0], [1, 1, 0], [0, 1, 0], [0, 1, 1], [0, 0, 1], [1, 0, 1] ] ! p) [0..<6]"
  by code_simp

lemma levels_mod: "levels_at p = levels_at (p mod 6)" "hall_at p = hall_at (p mod 6)"
  by (simp_all add: levels_at_def hall_at_def)

lemma levels_cases: "levels_at p = [ [1, 0, 0], [1, 1, 0], [0, 1, 0], [0, 1, 1], [0, 0, 1], [1, 0, 1] ] ! nat (p mod 6)"
proof -
  have "nat (p mod 6) < 6" by simp
  then have "levels_at (int (nat (p mod 6))) = [ [1, 0, 0], [1, 1, 0], [0, 1, 0], [0, 1, 1], [0, 0, 1], [1, 0, 1] ] ! nat (p mod 6)"
    using shaft_tables unfolding list_all_iff by - (rule bspec, assumption, simp)
  then show ?thesis by (simp flip: levels_mod(1))
qed

lemma length_levels [simp]: "length (levels_at p) = 3"
  by (simp add: levels_at_def)

lemma line_less: "line_at p < 3"
proof -
  have "p mod 3 \<in> {0, 1, 2}" by auto
  then show ?thesis by (auto simp: line_at_def)
qed

lemma line_next: "line_at (p + 1) \<noteq> line_at p"
proof -
  have "p mod 3 \<in> {0, 1, 2}" "(p + 1) mod 3 = (p mod 3 + 1) mod 3" by (auto simp: mod_simps)
  then show ?thesis by (auto simp: line_at_def)
qed

lemma level_moves: "i < 3 \<Longrightarrow> levels_at (p + 1) ! i \<noteq> levels_at p ! i \<longleftrightarrow> i = line_at p"
proof -
  assume "i < 3"
  then have i: "i \<in> {0, 1, 2}" by auto
  have m: "(p + 1) mod 6 = (p mod 6 + 1) mod 6" "p mod 3 = (p mod 6) mod 3" by (simp_all add: mod_simps mod_mod_cancel)
  show ?thesis
    unfolding levels_cases [of p] levels_cases [of "p + 1"] line_at_def m using i mod6_cases [of p] by auto
qed

lemma shaft_codes: "list_all (\<lambda>p. debounced_code \<lparr>hd_level = levels_at (int p), hd_lockout = [], hd_changed = [], hd_reload = 0\<rparr> = hall_at (int p) \<and>
    valid_hall (hall_at (int p)) \<and>
    FWD_NEXT ! unat (hall_at (int p)) = hall_at (int p + 1) \<and> REV_NEXT ! unat (hall_at (int p + 1)) = hall_at (int p) \<and>
    FWD_NEXT ! unat (hall_at (int p + 1)) \<noteq> hall_at (int p) \<and> hall_at (int p) \<noteq> hall_at (int p + 1)) [0..<6]"
  by code_simp

lemma codes:
  "hd_level h = levels_at p \<Longrightarrow> debounced_code h = hall_at p" "valid_hall (hall_at p)"
  "FWD_NEXT ! unat (hall_at p) = hall_at (p + 1)" "REV_NEXT ! unat (hall_at (p + 1)) = hall_at p"
  "FWD_NEXT ! unat (hall_at (p + 1)) \<noteq> hall_at p" "hall_at p \<noteq> hall_at (p + 1)"
proof -
  have *: "hall_at (p mod 6 + 1) = hall_at (p + 1)" using levels_mod(2) [of "p mod 6 + 1"] levels_mod(2) [of "p + 1"] by (simp add: mod_simps)
  have "nat (p mod 6) < 6" by simp
  then have "nat (p mod 6) \<in> set [0..<6]" by simp
  from shaft_codes [unfolded list_all_iff, THEN bspec, OF this]
  show "hd_level h = levels_at p \<Longrightarrow> debounced_code h = hall_at p" "valid_hall (hall_at p)"
    "FWD_NEXT ! unat (hall_at p) = hall_at (p + 1)" "REV_NEXT ! unat (hall_at (p + 1)) = hall_at p"
    "FWD_NEXT ! unat (hall_at (p + 1)) \<noteq> hall_at p" "hall_at p \<noteq> hall_at (p + 1)"
    by (simp_all add: * debounced_code_def flip: levels_mod)
qed

section \<open>The debounce\<close>

definition lines_ok :: "hall_debounce \<Rightarrow> bool" where
  "lines_ok h = (length (hd_level h) = 3 \<and> length (hd_lockout h) = 3 \<and> length (hd_changed h) = 3 \<and>
                 (\<forall>k < 3. 0 \<le> hd_lockout h ! k) \<and> 0 \<le> hd_reload h)"

lemma line_idle: "raw ! n = hd_level h ! n \<Longrightarrow> rotor_line raw n h = h"
  by (simp add: rotor_line_def)

lemma three_cases: "n < 3 \<longleftrightarrow> n = 0 \<or> n = 1 \<or> n = (2 :: nat)"
  by auto

lemma debounce_still: "raw = hd_level h \<Longrightarrow> fst (debounce_step raw h) = h\<lparr>hd_lockout := map drain_lockout (hd_lockout h)\<rparr>"
  by (simp add: debounce_step_def line_idle Let_def)

lemma debounce_move:
  assumes "lines_ok h" "length raw = 3" "n < 3" "raw ! n \<noteq> hd_level h ! n" "\<And>i. i < 3 \<Longrightarrow> i \<noteq> n \<Longrightarrow> raw ! i = hd_level h ! i"
    and "\<not> hd_changed h ! n \<or> hd_lockout h ! n = 0"
  shows "fst (debounce_step raw h) =
      h\<lparr>hd_level := raw, hd_lockout := map drain_lockout ((hd_lockout h)[n := hd_reload h]), hd_changed := [False, False, False][n := True]\<rparr>"
proof -
  have l: "(hd_level h)[n := raw ! n] = raw"
    using assms(1-3,5) by (intro nth_equalityI) (auto simp: lines_ok_def nth_list_update)
  have moved: "rotor_line raw n h =
      h\<lparr>hd_level := raw, hd_lockout := (hd_lockout h)[n := hd_reload h], hd_changed := [False, False, False][n := True]\<rparr>"
    using assms(4,6) l by (simp add: rotor_line_def)
  have before: "rotor_line raw i h = h" if "i < 3" "i \<noteq> n" for i using assms(5) [OF that] by (rule line_idle)
  have after: "rotor_line raw i (rotor_line raw n h) = rotor_line raw n h" for i
    by (rule line_idle) (simp add: moved)
  have "rotor_line raw 2 (rotor_line raw 1 (rotor_line raw 0 h)) = rotor_line raw n h"
    using assms(3) before after by (auto simp: three_cases)
  then show ?thesis by (simp add: debounce_step_def moved Let_def)
qed

lemma drain_pos: "0 \<le> n \<Longrightarrow> drain_lockout n = max 0 (n - 1)"
  by (simp add: drain_lockout_def)

lemma snd_debounce: "snd (debounce_step raw h) = debounced_code (fst (debounce_step raw h))"
  by (simp add: debounce_step_def Let_def)

text \<open>The line that the next step in direction \<open>e\<close> moves.\<close>

definition next_line :: "int \<Rightarrow> int \<Rightarrow> nat" where
  "next_line e p = (if e = 1 then line_at p else line_at (p - 1))"

text \<open>The debounce holds the levels of position \<open>p\<close>, and the only line it may refuse is the one a reversal would move, for as
  long as less than the window has passed.\<close>

definition settled_at :: "int \<Rightarrow> int \<Rightarrow> nat \<Rightarrow> hall_debounce \<Rightarrow> bool" where
  "settled_at p e t h = (lines_ok h \<and> hd_level h = levels_at p \<and>
     (\<forall>k < 3. hd_changed h ! k \<longrightarrow> hd_lockout h ! k \<le> max 0 (hd_reload h - int t) \<and> (k = next_line e p \<longrightarrow> hd_lockout h ! k = 0)))"

lemma next_line_less: "next_line e p < 3"
  by (simp add: next_line_def line_less)

lemma settled_stay:
  assumes "settled_at p e t h"
  shows "settled_at p e (t + 1) (fst (debounce_step (levels_at p) h))"
  using assms by (auto simp: settled_at_def lines_ok_def debounce_still drain_pos)

lemma settled_move:
  assumes "settled_at p e t h" "s = 1 \<or> s = - 1" "e = 1 \<or> e = - 1" "s = e \<or> hd_reload h \<le> int t"
  shows "settled_at (p + s) s 1 (fst (debounce_step (levels_at (p + s)) h))"
proof -
  define n where "n = next_line s p"
  have n: "n < 3" by (simp add: n_def next_line_less)
  have h: "lines_ok h" "hd_level h = levels_at p" using assms(1) by (simp_all add: settled_at_def)
  have diff: "levels_at (p + s) ! i \<noteq> levels_at p ! i \<longleftrightarrow> i = n" if "i < 3" for i
    using level_moves [OF that, of p] level_moves [OF that, of "p - 1"] assms(2) by (auto simp: n_def next_line_def)
  have "\<not> hd_changed h ! n \<or> hd_lockout h ! n = 0"
  proof (cases "s = e")
    case True
    then show ?thesis using assms(1) n by (auto simp: settled_at_def n_def)
  next
    case False
    then have "max 0 (hd_reload h - int t) = 0" using assms(4) by simp
    then show ?thesis using assms(1) n by (auto simp: settled_at_def lines_ok_def intro: antisym)
  qed
  from debounce_move [OF h(1) length_levels n _ _ this, of "p + s"] diff n h(2)
  have step: "fst (debounce_step (levels_at (p + s)) h) =
      h\<lparr>hd_level := levels_at (p + s), hd_lockout := map drain_lockout ((hd_lockout h)[n := hd_reload h]),
        hd_changed := [False, False, False][n := True]\<rparr>" by auto
  have other: "next_line s (p + s) \<noteq> n"
    using assms(2) line_next [of p] line_next [of "p - 1 - 1"] by (auto simp: n_def next_line_def)
  define m where "m = [False, False, False][n := True]"
  have m: "length m = 3" "\<forall>k < 3. m ! k \<longrightarrow> k = n"
    using n by (auto simp: m_def nth_list_update three_cases simp del: list_update.simps)
  show ?thesis
    unfolding step settled_at_def m_def [symmetric] using h n other m by (auto simp: lines_ok_def drain_pos nth_list_update)
qed

section \<open>The edge counts\<close>

text \<open>The step a transition of codes is worth, by the forward sequence alone.\<close>

definition edge_of :: "u8 \<Rightarrow> u8 \<Rightarrow> int" where
  "edge_of prev code =
     (if (\<exists>n < 6. prev = FORWARD_CODES ! n \<and> code = FORWARD_CODES ! ((n + 1) mod 6)) then 1
      else if (\<exists>n < 6. code = FORWARD_CODES ! n \<and> prev = FORWARD_CODES ! ((n + 1) mod 6)) then - 1 else 0)"

lemma less6: "n < 6 \<longleftrightarrow> n = 0 \<or> n = 1 \<or> n = 2 \<or> n = 3 \<or> n = 4 \<or> n = (5 :: nat)"
  by auto

lemma forward_pairs:
  "(\<exists>n < 6. prev = FORWARD_CODES ! n \<and> code = FORWARD_CODES ! ((n + 1) mod 6)) \<longleftrightarrow>
     (prev, code) \<in> {(1, 3), (3, 2), (2, 6), (6, 4), (4, 5), (5, 1)}"
proof -
  have "(\<exists>n < 6. P n) \<longleftrightarrow> P 0 \<or> P 1 \<or> P 2 \<or> P 3 \<or> P 4 \<or> P (5 :: nat)" for P by (auto simp: less6)
  then show ?thesis by (simp add: FORWARD_CODES_def)
qed

lemma valid_hall_cases: "valid_hall code \<longleftrightarrow> code \<in> {1, 2, 3, 4, 5, 6}"
proof -
  have "code \<le> 6 \<longleftrightarrow> code < 6 \<or> code = 6" by auto
  then show ?thesis using u8_cases [of code] by (auto simp: valid_hall_def)
qed

lemma edge_pairs:
  "edge_of prev code = (if (prev, code) \<in> {(1, 3), (3, 2), (2, 6), (6, 4), (4, 5), (5, 1)} then 1
     else if (code, prev) \<in> {(1, 3), (3, 2), (2, 6), (6, 4), (4, 5), (5, 1)} then - 1 else 0)"
  unfolding edge_of_def forward_pairs ..

lemma edge_tables:
  "edge_of prev code = (if valid_hall code \<and> valid_hall prev \<and> code \<noteq> prev then
      if FWD_NEXT ! unat prev = code then 1 else if REV_NEXT ! unat prev = code then - 1 else 0 else 0)"
proof (cases "valid_hall prev \<and> valid_hall code")
  case True
  have "list_all (\<lambda>prev. list_all (\<lambda>code. edge_of prev code = (if code \<noteq> prev then
      if FWD_NEXT ! unat prev = code then 1 else if REV_NEXT ! unat prev = code then - 1 else 0 else 0))
      [1, 2, 3, 4, 5, 6]) [1, 2, 3, 4, 5, 6]"
    unfolding edge_pairs by code_simp
  moreover have "prev \<in> set [1, 2, 3, 4, 5, 6]" "code \<in> set [1, 2, 3, 4, 5, 6]" using True by (simp_all add: valid_hall_cases)
  ultimately have "edge_of prev code = (if code \<noteq> prev then
      if FWD_NEXT ! unat prev = code then 1 else if REV_NEXT ! unat prev = code then - 1 else 0 else 0)"
    unfolding list_all_iff by blast
  then show ?thesis using True by simp
next
  case False
  then have "edge_of prev code = 0" by (auto simp: edge_pairs valid_hall_cases)
  then show ?thesis using False by auto
qed

lemma direction_counts:
  "direction_write code c = (let d = edge_of (cm_prev_code c) code; c = (if d = 0 then c else counted_edge d c)
     in if valid_hall code then c\<lparr>cm_prev_code := code\<rparr> else c)"
proof (cases "valid_hall code \<and> 1 \<le> cm_prev_code c \<and> cm_prev_code c \<le> 6 \<and> code \<noteq> cm_prev_code c")
  case True
  then have "valid_hall (cm_prev_code c)" by (simp add: valid_hall_def)
  then show ?thesis using True by (simp add: direction_write_def edge_tables)
next
  case False
  then have "edge_of (cm_prev_code c) code = 0" by (auto simp: edge_tables valid_hall_def [of "cm_prev_code c"])
  then show ?thesis unfolding direction_write_def Let_def if_not_P [OF False] by simp
qed

lemma counted_fields:
  "cm_prev_code (counted_edge d c) = cm_prev_code c" "cm_pos_edges (counted_edge d c) = add32 (cm_pos_edges c) d"
  "cm_edge_acc (counted_edge d c) = add32 (cm_edge_acc c) d" "cm_edges_total (counted_edge d c) = cm_edges_total c + 1"
  "cm_window (counted_edge d c) = cm_window c" "cm_speed (counted_edge d c) = cm_speed c"
  "cm_invalid_dwell (counted_edge d c) = cm_invalid_dwell c" "cm_hall_fault (counted_edge d c) = cm_hall_fault c"
  by (simp_all add: counted_edge_def count_rate_edge_def Let_def)

lemma est_direction:
  "cm_prev_code (direction_write code c) = (if valid_hall code then code else cm_prev_code c)"
  "cm_pos_edges (direction_write code c) = (let d = edge_of (cm_prev_code c) code in if d = 0 then cm_pos_edges c else add32 (cm_pos_edges c) d)"
  "cm_edge_acc (direction_write code c) = (let d = edge_of (cm_prev_code c) code in if d = 0 then cm_edge_acc c else add32 (cm_edge_acc c) d)"
  "cm_edges_total (direction_write code c) = cm_edges_total c + (if edge_of (cm_prev_code c) code = 0 then 0 else 1)"
  "cm_window (direction_write code c) = cm_window c" "cm_speed (direction_write code c) = cm_speed c"
  "cm_invalid_dwell (direction_write code c) = cm_invalid_dwell c" "cm_hall_fault (direction_write code c) = cm_hall_fault c"
  by (simp_all add: direction_counts Let_def counted_fields)

definition edge_word :: "int \<Rightarrow> int \<Rightarrow> int" where
  "edge_word w d = (if d = 0 then w else add32 w d)"

lemma kept_fields:
  "cm_prev_code (interpolate x) = cm_prev_code x" "cm_pos_edges (interpolate x) = cm_pos_edges x"
  "cm_edge_acc (interpolate x) = cm_edge_acc x" "cm_edges_total (interpolate x) = cm_edges_total x"
  "cm_window (interpolate x) = cm_window x" "cm_speed (interpolate x) = cm_speed x"
  "cm_invalid_dwell (interpolate x) = cm_invalid_dwell x" "cm_hall_fault (interpolate x) = cm_hall_fault x"
  "cm_prev_code (capture_interval code x) = cm_prev_code x" "cm_pos_edges (capture_interval code x) = cm_pos_edges x"
  "cm_edge_acc (capture_interval code x) = cm_edge_acc x" "cm_edges_total (capture_interval code x) = cm_edges_total x"
  "cm_window (capture_interval code x) = cm_window x" "cm_speed (capture_interval code x) = cm_speed x"
  "cm_invalid_dwell (capture_interval code x) = cm_invalid_dwell x" "cm_hall_fault (capture_interval code x) = cm_hall_fault x"
  "cm_prev_code (rate_decay x) = cm_prev_code x" "cm_pos_edges (rate_decay x) = cm_pos_edges x"
  "cm_edge_acc (rate_decay x) = cm_edge_acc x" "cm_edges_total (rate_decay x) = cm_edges_total x"
  "cm_window (rate_decay x) = cm_window x" "cm_speed (rate_decay x) = cm_speed x"
  "cm_invalid_dwell (rate_decay x) = cm_invalid_dwell x" "cm_hall_fault (rate_decay x) = cm_hall_fault x"
  by (simp_all add: interpolate_def capture_interval_def rate_decay_def Let_def)

lemma base_fields:
  "cm_prev_code (base_write code (tick_since c)) = cm_prev_code c" "cm_pos_edges (base_write code (tick_since c)) = cm_pos_edges c"
  "cm_edge_acc (base_write code (tick_since c)) = cm_edge_acc c" "cm_edges_total (base_write code (tick_since c)) = cm_edges_total c"
  "cm_window (base_write code (tick_since c)) = cm_window c" "cm_speed (base_write code (tick_since c)) = cm_speed c"
  "cm_invalid_dwell (base_write code (tick_since c)) = (if valid_hall code then 0 else min (cm_invalid_dwell c + 1) 4294967295)"
  "cm_hall_fault (base_write code (tick_since c)) = (cm_hall_fault c \<or>
     \<not> valid_hall code \<and> (min (cm_invalid_dwell c + 1) 4294967295 * 250) mod 4294967296 > 16000)"
  by (simp_all add: base_write_def tick_since_def Let_def HALL_FAULT_DWELL_MUL_def HALL_FAULT_DWELL_LIMIT_def)

lemma window_fields:
  "cm_prev_code (speed_window x) = cm_prev_code x" "cm_pos_edges (speed_window x) = cm_pos_edges x"
  "cm_edges_total (speed_window x) = cm_edges_total x"
  "cm_invalid_dwell (speed_window x) = cm_invalid_dwell x" "cm_hall_fault (speed_window x) = cm_hall_fault x"
  "cm_window (speed_window x) = (if (cm_window x + 1) mod 65536 > 320 then 0 else (cm_window x + 1) mod 65536)"
  "cm_edge_acc (speed_window x) = (if (cm_window x + 1) mod 65536 > 320 then 0 else cm_edge_acc x)"
  "cm_speed (speed_window x) = (if (cm_window x + 1) mod 65536 > 320 then cm_edge_acc x else cm_speed x)"
  by (simp_all add: speed_window_def Let_def SPEED_WINDOW_def)

lemma est_fields:
  "cm_prev_code (estimator_step code c) = (if valid_hall code then code else cm_prev_code c)"
  "cm_pos_edges (estimator_step code c) = edge_word (cm_pos_edges c) (edge_of (cm_prev_code c) code)"
  "cm_edges_total (estimator_step code c) = cm_edges_total c + (if edge_of (cm_prev_code c) code = 0 then 0 else 1)"
  "cm_window (estimator_step code c) = (if (cm_window c + 1) mod 65536 > 320 then 0 else (cm_window c + 1) mod 65536)"
  "cm_edge_acc (estimator_step code c) = (if (cm_window c + 1) mod 65536 > 320 then 0
     else edge_word (cm_edge_acc c) (edge_of (cm_prev_code c) code))"
  "cm_speed (estimator_step code c) = (if (cm_window c + 1) mod 65536 > 320
     then edge_word (cm_edge_acc c) (edge_of (cm_prev_code c) code) else cm_speed c)"
  "cm_invalid_dwell (estimator_step code c) = (if valid_hall code then 0 else min (cm_invalid_dwell c + 1) 4294967295)"
  "cm_hall_fault (estimator_step code c) = (cm_hall_fault c \<or>
     \<not> valid_hall code \<and> (min (cm_invalid_dwell c + 1) 4294967295 * 250) mod 4294967296 > 16000)"
  by (simp_all only: estimator_step_def kept_fields window_fields est_direction base_fields Let_def edge_word_def)

section \<open>The front end on a path\<close>

fun front_run :: "u8 list list \<Rightarrow> rotor_front_end \<Rightarrow> rotor_front_end" where
  "front_run [] f = f"
| "front_run (raw # raws) f = front_run raws (fst (front_end_step raw f))"

fun path :: "int \<Rightarrow> int list \<Rightarrow> int list" where
  "path p [] = []"
| "path p (s # ss) = (p + s) # path (p + s) ss"

text \<open>The steps a shaft makes, one entry per period: at most one sector at a time, and a reversal only when the shaft has
  stayed in its sector for the window \<open>w\<close>; \<open>e\<close> is the direction of the last step and \<open>t\<close> the periods since it.\<close>

fun turns :: "nat \<Rightarrow> int \<Rightarrow> nat \<Rightarrow> int list \<Rightarrow> bool" where
  "turns w e t [] = True"
| "turns w e t (s # ss) =
     (if s = 0 then turns w e (t + 1) ss
      else (s = 1 \<or> s = - 1) \<and> (s = e \<or> w \<le> t) \<and> turns w s 1 ss)"

definition moves :: "int list \<Rightarrow> nat" where
  "moves ss = length (filter (\<lambda>s. s \<noteq> 0) ss)"

lemma front_step_fields:
  "fe_hall (fst (front_end_step raw f)) = fst (debounce_step raw (fe_hall f))"
  "fe_comm (fst (front_end_step raw f)) = estimator_step (debounced_code (fst (debounce_step raw (fe_hall f)))) (fe_comm f)"
  by (simp_all add: front_end_step_def Let_def split: prod.split) (metis fst_conv snd_conv snd_debounce)

lemma edge_at:
  "edge_of (hall_at p) (hall_at p) = 0" "edge_of (hall_at p) (hall_at (p + 1)) = 1" "edge_of (hall_at (p + 1)) (hall_at p) = - 1"
  using codes(2-6) [of p] codes(2) [of "p + 1"] by (simp_all add: edge_tables)

lemma edge_step: "s \<in> {0, 1, - 1} \<Longrightarrow> edge_of (hall_at p) (hall_at (p + s)) = s"
  using edge_at [of p] edge_at [of "p - 1"] by auto

lemma edge_word_add: "a \<in> i32_range \<Longrightarrow> edge_word a d = as_i32 (a + d)"
  by (auto simp: edge_word_def add32_def i32_range_def)

lemma follow_path:
  assumes "settled_at p e t (fe_hall f)" "cm_prev_code (fe_comm f) = hall_at p" "cm_pos_edges (fe_comm f) \<in> i32_range"
    and "e = 1 \<or> e = - 1" "hd_reload (fe_hall f) = int w" "turns w e t ss"
  shows "hd_level (fe_hall (front_run (map levels_at (path p ss)) f)) = levels_at (p + sum_list ss) \<and>
      cm_pos_edges (fe_comm (front_run (map levels_at (path p ss)) f)) = as_i32 (cm_pos_edges (fe_comm f) + sum_list ss) \<and>
      cm_edges_total (fe_comm (front_run (map levels_at (path p ss)) f)) = cm_edges_total (fe_comm f) + of_nat (moves ss) \<and>
      cm_prev_code (fe_comm (front_run (map levels_at (path p ss)) f)) = hall_at (p + sum_list ss) \<and>
      cm_hall_fault (fe_comm (front_run (map levels_at (path p ss)) f)) = cm_hall_fault (fe_comm f)"
  using assms
proof (induction ss arbitrary: p e t f)
  case Nil
  then show ?case by (simp add: settled_at_def moves_def i32_range_def)
next
  case (Cons s ss)
  define f' where "f' = fst (front_end_step (levels_at (p + s)) f)"
  have s: "s \<in> {0, 1, - 1}" using Cons.prems(6) by (auto split: if_splits)
  have "\<exists>e' t'. settled_at (p + s) e' t' (fe_hall f') \<and> (e' = 1 \<or> e' = - 1) \<and> turns w e' t' ss"
  proof (cases "s = 0")
    case True
    then show ?thesis
      using settled_stay [OF Cons.prems(1)] Cons.prems(4,6) by (auto simp: f'_def front_step_fields)
  next
    case False
    then have "settled_at (p + s) s 1 (fe_hall f')"
      using settled_move [OF Cons.prems(1), of s] Cons.prems(4,5,6) s by (auto simp: f'_def front_step_fields)
    then show ?thesis using False Cons.prems(6) s by auto
  qed
  then obtain e' t' where next': "settled_at (p + s) e' t' (fe_hall f')" "e' = 1 \<or> e' = - 1" "turns w e' t' ss" by blast
  have code: "debounced_code (fe_hall f') = hall_at (p + s)" using next'(1) codes(1) by (simp add: settled_at_def)
  have comm: "fe_comm f' = estimator_step (hall_at (p + s)) (fe_comm f)"
    using code by (simp add: f'_def front_step_fields)
  have est: "cm_prev_code (fe_comm f') = hall_at (p + s)" "cm_pos_edges (fe_comm f') = as_i32 (cm_pos_edges (fe_comm f) + s)"
    "cm_edges_total (fe_comm f') = cm_edges_total (fe_comm f) + (if s = 0 then 0 else 1)"
    "cm_hall_fault (fe_comm f') = cm_hall_fault (fe_comm f)"
    using codes(2) [of "p + s"] edge_step [OF s, of p] Cons.prems(2,3) by (simp_all add: comm est_fields edge_word_add)
  have reload: "hd_reload (fe_hall f') = int w"
    using Cons.prems(5) by (simp add: f'_def front_step_fields debounce_step_def rotor_line_def Let_def)
  show ?case
    using Cons.IH [OF next'(1) est(1) _ next'(2) reload next'(3)] est as_i32_range
    by (auto simp: as_i32_add moves_def ac_simps simp flip: f'_def)
qed

lemma front_run_append: "front_run (xs @ ys) f = front_run ys (front_run xs f)"
  by (induction xs arbitrary: f) auto

text \<open>The first period adopts whatever levels the shaft presents.\<close>

lemma debounce_boot:
  fixes p :: int and hz :: nat
  defines "h \<equiv> fst (debounce_step (levels_at p) (debounce_new hz))"
  shows "lines_ok h" "hd_level h = levels_at p" "\<forall>k < 3. hd_lockout h ! k \<le> hd_reload h" "hd_reload h = hall_debounce_periods hz"
proof -
  have "0 \<le> hall_debounce_periods hz" by (simp add: hall_debounce_periods_def Let_def)
  then obtain w where w: "hall_debounce_periods hz = int w" by (rule nonneg_int_cases)
  have "\<exists>x y z. levels_at p = [x, y, z]" by (simp add: levels_at_def)
  then obtain x y z where l: "levels_at p = [x, y, z]" by blast
  define u where "u v = (if v = 0 then 0 else int w)" for v :: u8
  have "rotor_line [x, y, z] 0 (debounce_new hz) =
      \<lparr>hd_level = [x, 0, 0], hd_lockout = [u x, 0, 0], hd_changed = [x \<noteq> 0, False, False], hd_reload = int w\<rparr>"
    by (simp add: rotor_line_def debounce_new_def u_def w)
  moreover have "rotor_line [x, y, z] 1 \<lparr>hd_level = [x, 0, 0], hd_lockout = [u x, 0, 0], hd_changed = [x \<noteq> 0, False, False], hd_reload = int w\<rparr> =
      \<lparr>hd_level = [x, y, 0], hd_lockout = [u x, u y, 0], hd_changed = [x \<noteq> 0 \<and> y = 0, y \<noteq> 0, False], hd_reload = int w\<rparr>"
    by (simp add: rotor_line_def u_def [of y])
  moreover have "rotor_line [x, y, z] 2 \<lparr>hd_level = [x, y, 0], hd_lockout = [u x, u y, 0], hd_changed = [x \<noteq> 0 \<and> y = 0, y \<noteq> 0, False], hd_reload = int w\<rparr> =
      \<lparr>hd_level = [x, y, z], hd_lockout = [u x, u y, u z],
        hd_changed = [x \<noteq> 0 \<and> y = 0 \<and> z = 0, y \<noteq> 0 \<and> z = 0, z \<noteq> 0], hd_reload = int w\<rparr>"
    by (simp add: rotor_line_def u_def [of z])
  ultimately have h: "h = \<lparr>hd_level = [x, y, z], hd_lockout = map drain_lockout [u x, u y, u z],
        hd_changed = [x \<noteq> 0 \<and> y = 0 \<and> z = 0, y \<noteq> 0 \<and> z = 0, z \<noteq> 0], hd_reload = int w\<rparr>"
    by (simp add: h_def debounce_step_def l Let_def)
  have "0 \<le> drain_lockout (u v)" "drain_lockout (u v) \<le> int w" for v by (simp_all add: drain_lockout_def u_def)
  then show "lines_ok h" "hd_level h = levels_at p" "\<forall>k < 3. hd_lockout h ! k \<le> hd_reload h" "hd_reload h = hall_debounce_periods hz"
    by (simp_all add: h lines_ok_def three_cases all_conj_distrib l w)
qed

lemma rest:
  assumes "lines_ok (fe_hall f)" "hd_level (fe_hall f) = levels_at p" "\<forall>k < 3. hd_lockout (fe_hall f) ! k \<le> int n"
    and "cm_prev_code (fe_comm f) \<in> {0, hall_at p}"
  defines "g \<equiv> front_run (replicate n (levels_at p)) f"
  shows "lines_ok (fe_hall g) \<and> hd_level (fe_hall g) = levels_at p \<and> (\<forall>k < 3. hd_lockout (fe_hall g) ! k = 0) \<and>
      hd_reload (fe_hall g) = hd_reload (fe_hall f) \<and>
      (n > 0 \<longrightarrow> cm_prev_code (fe_comm g) = hall_at p) \<and> cm_pos_edges (fe_comm g) = cm_pos_edges (fe_comm f) \<and>
      cm_edges_total (fe_comm g) = cm_edges_total (fe_comm f) \<and> cm_hall_fault (fe_comm g) = cm_hall_fault (fe_comm f)"
  unfolding g_def using assms(1-4)
proof (induction n arbitrary: f)
  case 0
  then show ?case by (auto simp: lines_ok_def intro: antisym)
next
  case (Suc n)
  define f' where "f' = fst (front_end_step (levels_at p) f)"
  have h: "fe_hall f' = fe_hall f\<lparr>hd_lockout := map drain_lockout (hd_lockout (fe_hall f))\<rparr>"
    using Suc.prems(2) by (simp add: f'_def front_step_fields debounce_still)
  have hall: "lines_ok (fe_hall f')" "hd_level (fe_hall f') = levels_at p" "\<forall>k < 3. hd_lockout (fe_hall f') ! k \<le> int n"
    "hd_reload (fe_hall f') = hd_reload (fe_hall f)"
    using Suc.prems(1-3) by (auto simp: h lines_ok_def drain_pos)
  have "edge_of (cm_prev_code (fe_comm f)) (hall_at p) = 0"
    using Suc.prems(4) edge_at(1) by (auto simp: edge_tables valid_hall_def)
  moreover have "fe_comm f' = estimator_step (hall_at p) (fe_comm f)"
    using codes(1) [OF hall(2)] by (simp add: f'_def front_step_fields)
  ultimately have comm: "cm_prev_code (fe_comm f') = hall_at p" "cm_pos_edges (fe_comm f') = cm_pos_edges (fe_comm f)"
    "cm_edges_total (fe_comm f') = cm_edges_total (fe_comm f)" "cm_hall_fault (fe_comm f') = cm_hall_fault (fe_comm f)"
    using codes(2) [of p] by (simp_all add: est_fields edge_word_def)
  show ?case
    using Suc.IH [OF hall(1-3)] hall(4) comm by (cases n) (auto simp flip: f'_def)
qed

section \<open>The properties\<close>

text \<open>C21: The front end follows the shaft. From power-up with the shaft at rest in any sector for the debounce window and one
  period more, and then along any path of the shaft, at any speed up to one sector per period, whose reversals come only
  after a stay of the window in one sector, the debounced levels are the shaft's own levels after every period, the position
  word is its net travel in sectors as a 32-bit number, the odometer word counts every sector it crossed in either direction,
  and no hall fault is raised. So the debounce is not a limit on speed.\<close>

theorem shaft_is_followed:
  fixes hz :: nat
  defines "w \<equiv> nat (hall_debounce_periods hz)"
  assumes "turns w 1 w ss"
  shows "let f = front_run (map levels_at (replicate (w + 1) p @ path p ss)) (front_end_new hz)
         in hd_level (fe_hall f) = levels_at (p + sum_list ss) \<and> cm_pos_edges (fe_comm f) = as_i32 (sum_list ss) \<and>
            cm_edges_total (fe_comm f) = of_nat (moves ss) \<and> cm_prev_code (fe_comm f) = hall_at (p + sum_list ss) \<and>
            \<not> cm_hall_fault (fe_comm f)"
proof -
  define f1 where "f1 = fst (front_end_step (levels_at p) (front_end_new hz))"
  have w: "hall_debounce_periods hz = int w" by (simp add: w_def hall_debounce_periods_def Let_def)
  have h: "lines_ok (fe_hall f1)" "hd_level (fe_hall f1) = levels_at p" "\<forall>k < 3. hd_lockout (fe_hall f1) ! k \<le> int w"
    "hd_reload (fe_hall f1) = int w"
    using debounce_boot [where p = p and hz = hz] by (simp_all add: f1_def front_step_fields front_end_new_def w)
  have comm: "cm_prev_code (fe_comm f1) = hall_at p" "cm_pos_edges (fe_comm f1) = 0" "cm_edges_total (fe_comm f1) = 0"
    "\<not> cm_hall_fault (fe_comm f1)"
    using codes(1) [OF h(2)] codes(2) [of p]
    by (simp_all add: f1_def front_step_fields front_end_new_def est_fields estimator_new_def edge_word_def edge_tables valid_hall_def)
  define g where "g = front_run (replicate w (levels_at p)) f1"
  have g: "lines_ok (fe_hall g)" "hd_level (fe_hall g) = levels_at p" "\<forall>k < 3. hd_lockout (fe_hall g) ! k = 0"
    "hd_reload (fe_hall g) = int w" "cm_prev_code (fe_comm g) = hall_at p" "cm_pos_edges (fe_comm g) = 0"
    "cm_edges_total (fe_comm g) = 0" "\<not> cm_hall_fault (fe_comm g)"
    using rest [OF h(1-3), folded g_def] h(4) comm by (cases w; auto simp: g_def)+
  have "settled_at p 1 w (fe_hall g)" using g(1-3) by (simp add: settled_at_def)
  from follow_path [OF this g(5) _ _ g(4) assms(2)]
  show ?thesis
    using g(6-8) by (simp add: front_run_append map_replicate i32_range_def flip: f1_def g_def)
qed

lemma shaft_is_followed_witness:
  "let f = front_run (map levels_at (replicate 151 4 @ path 4 ([1, 1, 0, 1, 1, 1, 1, 1] @ replicate 160 0 @ [- 1, - 1]))) (front_end_new 16000)
   in cm_pos_edges (fe_comm f) = 5 \<and> cm_edges_total (fe_comm f) = 9"
proof -
  have w: "nat (hall_debounce_periods 16000) = 150" by (simp add: hall_debounce_periods_def HALL_DEBOUNCE_US_def)
  have stay: "turns v e t (replicate n 0 @ ss) = turns v e (t + n) ss" for v e t n ss
    by (induction n arbitrary: t) simp_all
  have "turns 150 1 150 ([1, 1, 0, 1, 1, 1, 1, 1] @ replicate 160 0 @ [- 1, - 1])" by (simp add: stay)
  from shaft_is_followed [of 16000, unfolded w, OF this, of 4] show ?thesis by (simp add: Let_def moves_def sum_list_replicate)
qed

text \<open>The codes the estimator is stepped with, and the net edges among them from a previous valid code.\<close>

fun est_run :: "u8 list \<Rightarrow> estimator \<Rightarrow> estimator" where
  "est_run [] c = c"
| "est_run (code # cs) c = est_run cs (estimator_step code c)"

fun net_edges :: "u8 \<Rightarrow> u8 list \<Rightarrow> int" where
  "net_edges prev [] = 0"
| "net_edges prev (code # cs) = edge_of prev code + net_edges (if valid_hall code then code else prev) cs"

lemma est_run_snoc: "est_run (cs @ [code]) c = estimator_step code (est_run cs c)"
  by (induction cs arbitrary: c) auto

lemma edge_bound: "\<bar>edge_of prev code\<bar> \<le> 1"
  by (simp add: edge_tables)

lemma net_bound: "\<bar>net_edges prev cs\<bar> \<le> int (length cs)"
proof (induction cs arbitrary: prev)
  case (Cons code cs)
  have "\<bar>edge_of prev code + net_edges q cs\<bar> \<le> 1 + int (length cs)" for q
    using edge_bound [of prev code] Cons.IH [of q] by linarith
  then show ?case by simp
qed simp

lemma edge_word_exact: "\<bar>a\<bar> \<le> 1000 \<Longrightarrow> \<bar>d\<bar> \<le> 1 \<Longrightarrow> edge_word a d = a + d"
  by (simp add: edge_word_def add32_def abs_le_iff)

lemma window_run:
  assumes "length cs + cm_window c \<le> 320" "\<bar>cm_edge_acc c\<bar> \<le> int (cm_window c)"
  shows "cm_window (est_run cs c) = cm_window c + length cs \<and> cm_edge_acc (est_run cs c) = cm_edge_acc c + net_edges (cm_prev_code c) cs \<and>
      cm_speed (est_run cs c) = cm_speed c"
  using assms
proof (induction cs arbitrary: c)
  case (Cons code cs)
  define c' where "c' = estimator_step code c"
  have "edge_word (cm_edge_acc c) (edge_of (cm_prev_code c) code) = cm_edge_acc c + edge_of (cm_prev_code c) code"
    using Cons.prems edge_bound by (intro edge_word_exact) auto
  then have c': "cm_window c' = cm_window c + 1" "cm_edge_acc c' = cm_edge_acc c + edge_of (cm_prev_code c) code"
    "cm_speed c' = cm_speed c" "cm_prev_code c' = (if valid_hall code then code else cm_prev_code c)"
    using Cons.prems(1) by (simp_all add: c'_def est_fields)
  then have "length cs + cm_window c' \<le> 320" "\<bar>cm_edge_acc c'\<bar> \<le> int (cm_window c')"
    using Cons.prems edge_bound [of "cm_prev_code c" code] by auto
  from Cons.IH [OF this] show ?case using c' by (simp flip: c'_def)
qed simp

lemma prev_run: "cm_prev_code (est_run cs c) = last (cm_prev_code c # filter valid_hall cs)"
  by (induction cs arbitrary: c) (auto simp: est_fields)

lemma net_snoc: "net_edges prev (cs @ [code]) = net_edges prev cs + edge_of (last (prev # filter valid_hall cs)) code"
  by (induction cs arbitrary: prev) auto

text \<open>C38: The speed word is a count of edges over 321 periods. From a fresh window, after 321 periods whatever the codes in them, the
  word the estimator publishes is exactly the net number of transitions between neighbours of the forward sequence among
  the valid codes of those periods (forward ones less backward ones; an invalid code is skipped and a skipped state
  counts nothing), the window starts afresh, and until then the word does not move. The window is one period longer
  than \<open>SPEED_WINDOW\<close>, by which the period-based rate is scaled.\<close>

theorem speed_counts_edges:
  assumes "length cs = 321" "cm_window c = 0" "cm_edge_acc c = 0"
  shows "cm_speed (est_run cs c) = net_edges (cm_prev_code c) cs \<and> cm_window (est_run cs c) = 0 \<and> cm_edge_acc (est_run cs c) = 0 \<and>
         (\<forall>n < 321. cm_speed (est_run (take n cs) c) = cm_speed c)"
proof -
  obtain ds code where cs: "cs = ds @ [code]" "length ds = 320" using assms(1) by (cases cs rule: rev_cases) auto
  have run: "cm_window (est_run xs c) = length xs \<and> cm_edge_acc (est_run xs c) = net_edges (cm_prev_code c) xs \<and>
      cm_speed (est_run xs c) = cm_speed c" if "length xs \<le> 320" for xs
    using window_run [of xs c] that assms(2,3) by simp
  have "edge_word (net_edges (cm_prev_code c) ds) (edge_of (cm_prev_code (est_run ds c)) code) =
      net_edges (cm_prev_code c) cs"
    using net_bound [of "cm_prev_code c" ds] edge_bound cs(2)
    by (subst edge_word_exact) (auto simp: cs(1) net_snoc prev_run)
  then show ?thesis using run [of ds] run [of "take n cs" for n] cs by (auto simp: est_run_snoc est_fields)
qed

lemma speed_counts_edges_witness:
  "cm_speed (est_run (3 # replicate 320 3) (estimator_new\<lparr>cm_prev_code := 1\<rparr>)) = 1"
proof -
  have "net_edges 3 (replicate n 3) = 0" for n
    by (induction n) (simp_all add: edge_tables valid_hall_def)
  moreover have "edge_of 1 3 = 1" by (simp add: edge_tables valid_hall_def FWD_NEXT_def)
  ultimately have "net_edges 1 (3 # replicate 320 3) = 1" by (simp add: valid_hall_def)
  then show ?thesis
    using speed_counts_edges [of "3 # replicate 320 3" "estimator_new\<lparr>cm_prev_code := 1\<rparr>"] by (simp add: estimator_new_def)
qed

text \<open>How many invalid codes end a sequence.\<close>

abbreviation dead :: "u8 \<Rightarrow> bool" where
  "dead code \<equiv> \<not> valid_hall code"

lemma dwell_run: "cm_invalid_dwell (est_run cs estimator_new) = min (tail_run dead cs) 4294967295"
  by (induction cs rule: rev_induct) (simp_all add: est_run_snoc est_fields estimator_new_def min_def)

lemma fault_run: "cm_hall_fault (est_run cs estimator_new) \<longleftrightarrow> has_run dead 65 cs"
proof (induction cs rule: rev_induct)
  case Nil
  then show ?case by (simp add: estimator_new_def has_run_Nil)
next
  case (snoc code cs)
  have "cm_hall_fault (est_run (cs @ [code]) estimator_new) \<longleftrightarrow> has_run dead 65 cs \<or>
      dead code \<and> (min (min (tail_run dead cs) 4294967295 + 1) 4294967295 * 250) mod 4294967296 > 16000"
    by (simp add: est_run_snoc est_fields dwell_run snoc.IH)
  also have "\<dots> \<longleftrightarrow> has_run dead 65 cs \<or> 65 \<le> tail_run dead (cs @ [code])"
  proof (cases "64 < tail_run dead cs")
    case True
    then show ?thesis using has_run_tail [of 65 dead cs] by simp
  next
    case False
    then have "min (min (tail_run dead cs) 4294967295 + 1) 4294967295 = tail_run dead cs + 1"
      "(tail_run dead cs + 1) * 250 mod 4294967296 = (tail_run dead cs + 1) * 250" by simp_all
    then show ?thesis using False by auto
  qed
  also have "\<dots> \<longleftrightarrow> has_run dead 65 (cs @ [code])" by (simp add: has_run_snoc)
  finally show ?case .
qed

text \<open>C39: The hall fault is exactly a stretch of invalid codes. From a fresh estimator the flag is raised if and only if some 65
  consecutive periods read no valid code (0, 7, or any byte outside 1 to 6), and once raised no later code clears it.\<close>

theorem hall_fault_exact:
  "cm_hall_fault (est_run cs estimator_new) \<longleftrightarrow> (\<exists>n. n + 65 \<le> length cs \<and> list_all (\<lambda>code. \<not> valid_hall code) (take 65 (drop n cs)))"
  using fault_run [of cs] by (simp add: has_run_def)

text \<open>A reversal inside the window is not followed: the shaft goes forward one sector and then back two, the line that has to
  fall again is refused, the code passes through an invalid one, and the transition the estimator then sees skips a sector
  and is not counted, so the position word stays two edges ahead of the shaft for good.\<close>

lemma quick_reversal_loses_edges:
  assumes "hd_level (fe_hall f) = levels_at 0" "hd_lockout (fe_hall f) = [0, 0, 0]" "hd_changed (fe_hall f) = [False, False, False]"
    and "hd_reload (fe_hall f) = 150" "cm_prev_code (fe_comm f) = hall_at 0" "cm_pos_edges (fe_comm f) = 0"
  defines "g \<equiv> front_run (map levels_at (path 0 [1, - 1, - 1, 0])) f"
  shows "hd_level (fe_hall g) = levels_at (- 1)" "cm_pos_edges (fe_comm g) = 1"
proof -
  note step = debounce_step_def rotor_line_def debounced_code_def drain_lockout_def
  have raws: "map levels_at (path 0 [1, - 1, - 1, 0]) = [[1, 1, 0], [1, 0, 0], [1, 0, 1], [1, 0, 1]]"
    "levels_at 0 = [1, 0, 0]" "levels_at (- 1) = [1, 0, 1]" "hall_at 0 = 1" by code_simp+
  define h where "h l k c = \<lparr>hd_level = l, hd_lockout = k, hd_changed = c, hd_reload = 150\<rparr>" for l k c
  have f: "fe_hall f = h [1, 0, 0] [0, 0, 0] [False, False, False]" using assms(1-4) by (simp add: h_def raws)
  have d: "debounce_step [1, 1, 0] (h [1, 0, 0] [0, 0, 0] [False, False, False]) = (h [1, 1, 0] [0, 149, 0] [False, True, False], 3)"
    "debounce_step [1, 0, 0] (h [1, 1, 0] [0, 149, 0] [False, True, False]) = (h [1, 1, 0] [0, 148, 0] [False, True, False], 3)"
    "debounce_step [1, 0, 1] (h [1, 1, 0] [0, 148, 0] [False, True, False]) = (h [1, 1, 1] [0, 147, 149] [False, False, True], 7)"
    "debounce_step [1, 0, 1] (h [1, 1, 1] [0, 147, 149] [False, False, True]) = (h [1, 0, 1] [0, 149, 148] [False, True, False], 5)"
    by (simp_all add: h_def step)
  have e: "edge_of 1 3 = 1" "edge_of 3 3 = 0" "edge_of 3 7 = 0" "edge_of 3 5 = 0"
    by (simp_all add: edge_tables valid_hall_def FWD_NEXT_def REV_NEXT_def)
  have v: "valid_hall 3" "\<not> valid_hall 7" by (simp_all add: valid_hall_def)
  have go: "fe_hall (fst (front_end_step raw x)) = fst y" "fe_comm (fst (front_end_step raw x)) = estimator_step (snd y) (fe_comm x)"
    if "debounce_step raw (fe_hall x) = y" for raw x y
    using that by (simp_all add: front_end_step_def Let_def split_beta)
  define f1 f2 f3 f4 where "f1 = fst (front_end_step [1, 1, 0] f)" and "f2 = fst (front_end_step [1, 0, 0] f1)"
    and "f3 = fst (front_end_step [1, 0, 1] f2)" and "f4 = fst (front_end_step [1, 0, 1] f3)"
  note f1 = go [OF d(1) [folded f], folded f1_def, simplified]
  note f2 = go [OF d(2) [folded f1(1)], folded f2_def, simplified]
  note f3 = go [OF d(3) [folded f2(1)], folded f3_def, simplified]
  note f4 = go [OF d(4) [folded f3(1)], folded f4_def, simplified]
  have "g = f4" unfolding g_def raws(1) by (simp add: f1_def f2_def f3_def f4_def)
  moreover have "cm_prev_code (fe_comm f1) = 3" "cm_pos_edges (fe_comm f1) = 1"
    unfolding f1(2) est_fields using assms(5,6) by (simp_all add: raws e v edge_word_def add32_def)
  moreover from this have "cm_prev_code (fe_comm f2) = 3" "cm_pos_edges (fe_comm f2) = 1"
    unfolding f2(2) est_fields by (simp_all add: e v edge_word_def)
  moreover from this have "cm_prev_code (fe_comm f3) = 3" "cm_pos_edges (fe_comm f3) = 1"
    unfolding f3(2) est_fields by (simp_all add: e v edge_word_def)
  moreover from this have "cm_pos_edges (fe_comm f4) = 1"
    unfolding f4(2) est_fields by (simp_all add: e v edge_word_def)
  ultimately show "hd_level (fe_hall g) = levels_at (- 1)" "cm_pos_edges (fe_comm g) = 1"
    by (simp_all add: f4(1) h_def raws)
qed

end
