(* ===== verification/Protect.thy ===== *)
theory Protect
  imports FocLoop Levels
begin

unbundle bit_operations_syntax

text \<open>
  The guards around a motor: the conversion of a staged current limit into counts
  (\<open>src/motorcontroller/board/src/limit.rs\<close>) and the per-period and per-tick rules of
  \<open>src/motorcontroller/firmware/src/motor.rs\<close>: demand freshness and the coast posture, the period health,
  the fault level, the tone, the current limit, the DC-link derate, the sample hold and the rail skip, with the
  words they publish.

  A 16-bit signed quantity is an integer with the casts written where the source narrows; a counter that the source
  saturates is a natural number with the bound written out.
\<close>

section \<open>The current limit in counts\<close>

definition CURRENT_CAL_MIN :: nat where "CURRENT_CAL_MIN = 100"
definition CURRENT_CAL_MAX :: nat where "CURRENT_CAL_MAX = 819"
definition NOISE_FLOOR_MIN :: nat where "NOISE_FLOOR_MIN = 1000"
definition MAX_LIMIT_COUNTS :: nat where "MAX_LIMIT_COUNTS = 32767 div 2"
definition LIMIT_REQUEST_CAP_MA :: nat where
  "LIMIT_REQUEST_CAP_MA = (MAX_LIMIT_COUNTS + 1) * 1000 div CURRENT_CAL_MIN"

definition noise_floor_counts :: "u16 \<Rightarrow> int" where
  "noise_floor_counts stored = int (min (max (unat stored) NOISE_FLOOR_MIN) MAX_LIMIT_COUNTS)"

text \<open>The product fits in 32 bits (the source asserts it at compile time).\<close>

definition request_counts :: "u32 \<Rightarrow> u16 \<Rightarrow> nat" where
  "request_counts ma cal =
     (let cal = min (max (unat cal) CURRENT_CAL_MIN) CURRENT_CAL_MAX
      in min (unat ma) LIMIT_REQUEST_CAP_MA * cal div 1000)"

definition limit_counts :: "u32 \<Rightarrow> u16 \<Rightarrow> u16 \<Rightarrow> int" where
  "limit_counts ma cal noise_floor =
     (let counts = request_counts ma cal
      in int (min (max counts (nat (noise_floor_counts noise_floor))) MAX_LIMIT_COUNTS))"

definition full_scale_counts :: "int \<Rightarrow> u16 \<Rightarrow> int" where
  "full_scale_counts limit noise_floor = min (max (limit - noise_floor_counts noise_floor) 0) 32767"

definition hard_trip_counts :: "int \<Rightarrow> int" where
  "hard_trip_counts limit = (let h = 2 * limit in if h > 32767 then 32767 else as_i16 h)"

section \<open>Freshness, posture, health and the fault level\<close>

definition FAULT_HALL :: u32 where "FAULT_HALL = push_bit 0 1"
definition FAULT_DUTY_RANGE :: u32 where "FAULT_DUTY_RANGE = push_bit 1 1"
definition FAULT_DEMAND_STALE :: u32 where "FAULT_DEMAND_STALE = push_bit 2 1"
definition FAULT_INIT_CAL :: u32 where "FAULT_INIT_CAL = push_bit 3 1"
definition FAULT_METHOD :: u32 where "FAULT_METHOD = push_bit 4 1"

definition OBS_CONFIGURED :: u32 where "OBS_CONFIGURED = push_bit 0 1"
definition OBS_CURRENT_SENSE :: u32 where "OBS_CURRENT_SENSE = push_bit 1 1"
definition OBS_PERIOD_LIVE :: u32 where "OBS_PERIOD_LIVE = push_bit 2 1"
definition OBS_COASTING :: u32 where "OBS_COASTING = push_bit 3 1"
definition OBS_SKIP_ABSENT :: u32 where "OBS_SKIP_ABSENT = push_bit 4 1"
definition OBS_SKIP_NO_SENSE :: u32 where "OBS_SKIP_NO_SENSE = push_bit 5 1"
definition OBS_SKIP_STEP_FAILED :: u32 where "OBS_SKIP_STEP_FAILED = push_bit 6 1"
definition OBS_CAL_ACCEPTED :: u32 where "OBS_CAL_ACCEPTED = push_bit 7 1"

definition obs_configured :: "u32 \<Rightarrow> bool" where
  "obs_configured state = (state AND push_bit 24 OBS_CONFIGURED \<noteq> 0)"

definition obs_torque_is_current :: "u32 \<Rightarrow> bool" where
  "obs_torque_is_current state = (obs_configured state \<and> (ucast (drop_bit 16 state) :: u8) = method_to_u8 MFoc)"

definition wheel_speed_word :: "int \<Rightarrow> int" where
  "wheel_speed_word speed = min (max speed (- 32768)) 32767"

definition DEMAND_STALE_PERIODS :: nat where "DEMAND_STALE_PERIODS = 256"

definition demand_stale :: "nat \<Rightarrow> bool" where
  "demand_stale periods_since_write = (periods_since_write > DEMAND_STALE_PERIODS)"

definition coast_posture :: "bool \<Rightarrow> bool \<Rightarrow> bool \<Rightarrow> bool" where
  "coast_posture armed stale chop = (\<not> armed \<or> stale \<or> chop)"

definition PERIODS_PER_TICK_NOMINAL :: nat where "PERIODS_PER_TICK_NOMINAL = 64"
definition PERIODS_PER_TICK_SHIFT :: nat where "PERIODS_PER_TICK_SHIFT = 6"
definition PERIODS_PER_TICK_MIN :: nat where "PERIODS_PER_TICK_MIN = PERIODS_PER_TICK_NOMINAL div 2"

definition periods_live :: "u32 \<Rightarrow> bool" where
  "periods_live delta_periods = (unat delta_periods \<ge> PERIODS_PER_TICK_MIN)"

definition PERIOD_LOSS_THRESHOLD :: nat where "PERIOD_LOSS_THRESHOLD = 5"
definition PERIOD_RECOVER_THRESHOLD :: nat where "PERIOD_RECOVER_THRESHOLD = 25"

record period_health =
  ph_fail_streak :: nat
  ph_ok_streak :: nat
  ph_loss :: bool

definition period_health_new :: period_health where
  "period_health_new = \<lparr>ph_fail_streak = 0, ph_ok_streak = 0, ph_loss = False\<rparr>"

definition period_health_update :: "bool \<Rightarrow> bool \<Rightarrow> period_health \<Rightarrow> period_health" where
  "period_health_update running live h =
     (if \<not> running then period_health_new
      else if live then
        let ok = min (ph_ok_streak h + 1) 65535
        in h\<lparr>ph_fail_streak := 0, ph_ok_streak := ok,
             ph_loss := (if ph_loss h \<and> ok \<ge> PERIOD_RECOVER_THRESHOLD then False else ph_loss h)\<rparr>
      else
        let fail = min (ph_fail_streak h + 1) 65535
        in h\<lparr>ph_ok_streak := 0, ph_fail_streak := fail,
             ph_loss := (if fail \<ge> PERIOD_LOSS_THRESHOLD then True else ph_loss h)\<rparr>)"

definition motor_fault_level :: "bool \<Rightarrow> u32 \<Rightarrow> bool \<Rightarrow> bool \<Rightarrow> u16" where
  "motor_fault_level configured faults period_loss arm_refused =
     (if \<not> configured then 0
      else let bit = (\<lambda>s ev. if s then ev else 0)
           in bit (faults AND FAULT_HALL \<noteq> 0) EV_MOTOR_HALL OR bit (faults AND FAULT_INIT_CAL \<noteq> 0) EV_MOTOR_CAL
              OR bit period_loss EV_MOTOR_PERIOD OR bit arm_refused EV_MOTOR_ARM)"

section \<open>The tone\<close>

record tone_step =
  tn_phase :: nat
  tn_high :: bool

definition tone_new :: tone_step where
  "tone_new = \<lparr>tn_phase = 0, tn_high = False\<rparr>"

definition tone_pass :: "u32 \<Rightarrow> tone_step \<Rightarrow> tone_step \<times> bool option" where
  "tone_pass p t =
     (let (t, level) =
            (if p = 0 then (t\<lparr>tn_phase := 0\<rparr>, False)
             else let phase = tn_phase t + 1; phase = (if phase \<ge> unat p then 0 else phase)
                  in (t\<lparr>tn_phase := phase\<rparr>, phase < unat p div 2))
      in if level = tn_high t then (t, None) else (t\<lparr>tn_high := level\<rparr>, Some level))"

section \<open>Samples and magnitudes\<close>

definition sensed_duties :: "u16 list \<Rightarrow> bool \<Rightarrow> u16 \<times> u16" where
  "sensed_duties duties bc = (if bc then (duties ! 1, duties ! 2) else (duties ! 0, duties ! 1))"

definition clarke_pair :: "int \<times> int \<Rightarrow> bool \<Rightarrow> int \<times> int" where
  "clarke_pair sensed bc =
     (if bc then let ia = - (fst sensed + snd sensed) in (min (max ia (- 32768)) 32767, fst sensed) else sensed)"

definition sensed_readings :: "bool \<Rightarrow> bool \<Rightarrow> bool list \<Rightarrow> bool \<Rightarrow> bool \<times> bool" where
  "sensed_readings low_side armed enables bc =
     (if \<not> low_side then (True, True)
      else let (l0, l1) = (if bc then (1, 2) else (0, 1)) in (armed \<and> enables ! l0, armed \<and> enables ! l1))"

definition saturating_abs :: "int \<Rightarrow> int" where
  "saturating_abs x = min \<bar>x\<bar> 32767"

definition phase_magnitude :: "int \<Rightarrow> int \<Rightarrow> int" where
  "phase_magnitude ia ib =
     (let ic = sat16 (- (ia + ib)) in max (max (saturating_abs ia) (saturating_abs ib)) (saturating_abs ic))"

definition i16_word :: "int \<Rightarrow> u32" where
  "i16_word x = ucast (word_of_int x :: u16)"

definition pack_motor_current :: "int \<Rightarrow> nat \<Rightarrow> u32 \<Rightarrow> u32" where
  "pack_motor_current peak chopped trips =
     i16_word peak OR push_bit 16 (word_of_nat chopped) OR push_bit 24 (trips AND 0xFF)"

definition pack_motor_mean_duty :: "int \<Rightarrow> u16 \<Rightarrow> u32" where
  "pack_motor_mean_duty mean duty_on = i16_word mean OR push_bit 16 (ucast duty_on)"

definition pack_i16_pair :: "int \<Rightarrow> int \<Rightarrow> u32" where
  "pack_i16_pair lo hi = i16_word lo OR push_bit 16 (i16_word hi)"

definition unpack_mean :: "u32 \<Rightarrow> int" where
  "unpack_mean w = sint (ucast w :: u16)"

definition unpack_duty_on :: "u32 \<Rightarrow> u16" where
  "unpack_duty_on w = ucast (drop_bit 16 w)"

definition unpack_peak :: "u32 \<Rightarrow> int" where
  "unpack_peak w = sint (ucast w :: u16)"

definition on_duty :: "u16 list \<Rightarrow> bool list \<Rightarrow> u16" where
  "on_duty duties enables =
     (let applied = (\<lambda>i. if enables ! i then duties ! i else 0) in max (max (applied 0) (applied 1)) (applied 2))"

section \<open>The current limit of a period\<close>

definition OVER_CURRENT_TRIP_PERIODS :: nat where "OVER_CURRENT_TRIP_PERIODS = 64"

record current_verdict =
  cv_chop :: bool
  cv_trip :: bool

record current_limit =
  cu_limit :: int
  cu_hard_trip :: int
  cu_peak_trip_periods :: nat
  cu_over_run :: nat
  cu_peak_run :: nat
  cu_tripped :: bool
  cu_trips :: u32
  cu_peak :: int
  cu_sum :: u32
  cu_sum_a :: int
  cu_sum_b :: int
  cu_chopped :: nat

definition current_limit_new :: "int \<Rightarrow> u8 \<Rightarrow> current_limit" where
  "current_limit_new limit peak_trip_periods =
     \<lparr>cu_limit = limit, cu_hard_trip = hard_trip_counts limit, cu_peak_trip_periods = unat peak_trip_periods,
      cu_over_run = 0, cu_peak_run = 0, cu_tripped = False, cu_trips = 0, cu_peak = 0, cu_sum = 0, cu_sum_a = 0,
      cu_sum_b = 0, cu_chopped = 0\<rparr>"

definition current_reconfigure :: "int \<Rightarrow> u8 \<Rightarrow> current_limit \<Rightarrow> current_limit" where
  "current_reconfigure limit peak_trip_periods c =
     c\<lparr>cu_limit := limit, cu_hard_trip := hard_trip_counts limit, cu_peak_trip_periods := unat peak_trip_periods,
       cu_over_run := 0, cu_peak_run := 0, cu_tripped := False\<rparr>"

definition current_step :: "int \<Rightarrow> int \<Rightarrow> current_limit \<Rightarrow> current_limit \<times> current_verdict" where
  "current_step ia ib c =
     (let mag = phase_magnitude ia ib;
          c = c\<lparr>cu_peak := max (cu_peak c) mag, cu_sum := cu_sum c + word_of_int mag,
                cu_sum_a := add32 (cu_sum_a c) ia, cu_sum_b := add32 (cu_sum_b c) ib\<rparr>
      in if mag \<le> cu_limit c then
           (c\<lparr>cu_over_run := 0, cu_peak_run := 0, cu_tripped := False\<rparr>, \<lparr>cv_chop = False, cv_trip = False\<rparr>)
         else
           let c = c\<lparr>cu_chopped := min (cu_chopped c + 1) 255, cu_over_run := min (cu_over_run c + 1) (2 ^ 32 - 1),
                     cu_peak_run := (if mag \<ge> cu_hard_trip c then min (cu_peak_run c + 1) 255 else 0)\<rparr>;
               peak = (cu_peak_trip_periods c \<noteq> 0 \<and> cu_peak_run c \<ge> cu_peak_trip_periods c);
               trip = (\<not> cu_tripped c \<and> (peak \<or> cu_over_run c \<ge> OVER_CURRENT_TRIP_PERIODS));
               c = (if trip then c\<lparr>cu_tripped := True, cu_trips := cu_trips c + 1\<rparr> else c)
           in (c, \<lparr>cv_chop = True, cv_trip = trip\<rparr>))"

definition current_pass :: current_verdict where
  "current_pass = \<lparr>cv_chop = False, cv_trip = False\<rparr>"

definition current_take_window :: "current_limit \<Rightarrow> current_limit \<times> u32 \<times> int \<times> int \<times> int" where
  "current_take_window c =
     (let w = pack_motor_current (cu_peak c) (cu_chopped c) (cu_trips c);
          mean = as_i16 (uint (drop_bit PERIODS_PER_TICK_SHIFT (cu_sum c)));
          pa = as_i16 (drop_bit PERIODS_PER_TICK_SHIFT (cu_sum_a c));
          pb = as_i16 (drop_bit PERIODS_PER_TICK_SHIFT (cu_sum_b c))
      in (c\<lparr>cu_peak := 0, cu_sum := 0, cu_sum_a := 0, cu_sum_b := 0, cu_chopped := 0\<rparr>, w, mean, pa, pb))"

section \<open>The DC-link derate\<close>

definition DERATE_FULL :: nat where "DERATE_FULL = 32768"
definition DERATE_FALL :: nat where "DERATE_FALL = 512"
definition DERATE_RISE :: nat where "DERATE_RISE = 128"

record dc_link_limit =
  dl_zero :: u16
  dl_limit :: u32
  dl_factor :: nat

definition dc_link_new :: "u16 \<Rightarrow> u32 \<Rightarrow> dc_link_limit" where
  "dc_link_new zero limit = \<lparr>dl_zero = zero, dl_limit = limit, dl_factor = DERATE_FULL\<rparr>"

text \<open>The sum and the limit are read as signed 32-bit values; the factor is 16 bits wide.\<close>

definition dc_link_step :: "u32 \<Rightarrow> dc_link_limit \<Rightarrow> dc_link_limit \<times> u32" where
  "dc_link_step acc d =
     (let reading = sub32 (sint acc) (int (unat (dl_zero d)));
          d = (if dl_limit d \<noteq> 0
               then d\<lparr>dl_factor := (if reading > sint (dl_limit d) then dl_factor d - DERATE_FALL
                                  else min ((dl_factor d + DERATE_RISE) mod 65536) DERATE_FULL)\<rparr>
               else d);
          r = min (max reading (- 32768)) 32767
      in (d, i16_word r OR push_bit 16 (word_of_nat (dl_factor d))))"

definition dc_reset_derate :: "dc_link_limit \<Rightarrow> dc_link_limit" where
  "dc_reset_derate d = d\<lparr>dl_factor := DERATE_FULL\<rparr>"

definition dc_scale :: "int \<Rightarrow> dc_link_limit \<Rightarrow> int" where
  "dc_scale demand d = as_i16 ((demand * int (dl_factor d)) sdiv int DERATE_FULL)"

definition dc_link_verdict :: "u16 option \<Rightarrow> u32 \<Rightarrow> u16 \<Rightarrow> dc_link_limit option \<times> u32" where
  "dc_link_verdict zero limit_ma cal =
     (let fault = (if limit_ma \<noteq> 0 then FAULT_INIT_CAL else 0)
      in case zero of
           Some z \<Rightarrow> if offset_in_window z then (Some (dc_link_new z (word_of_nat (request_counts limit_ma cal))), 0)
                     else (Some (dc_link_new z 0), fault)
         | None \<Rightarrow> (None, fault))"

definition dc_link_zero :: "u32 \<Rightarrow> u32 \<Rightarrow> u16 option" where
  "dc_link_zero acc n = (if n > 0 then Some (word_of_nat (unat acc * 16 div unat n)) else None)"

definition period_armed :: "bool \<Rightarrow> bool \<Rightarrow> bool" where
  "period_armed armed broken = (armed \<and> \<not> broken)"

section \<open>The sample hold and the rail skip\<close>

definition GATE_TIMER_HZ :: nat where "GATE_TIMER_HZ = 72000000"
definition DEAD_TIME_DTS_DIV :: nat where "DEAD_TIME_DTS_DIV = 2"
definition TRIGGER_COMPARE :: u16 where "TRIGGER_COMPARE = ARR - 50"
definition ADC_CLOCK_DIV :: nat where "ADC_CLOCK_DIV = 6"
definition ADC_TRIGGER_LATENCY_CLOCKS :: nat where "ADC_TRIGGER_LATENCY_CLOCKS = 2"
definition SHUNT_SETTLE_NS :: nat where "SHUNT_SETTLE_NS = 3000"
definition ADC_RANK_TICKS :: nat where "ADC_RANK_TICKS = 20 * ADC_CLOCK_DIV"
definition ADC_APERTURE_TICKS :: nat where "ADC_APERTURE_TICKS = 15 * ADC_CLOCK_DIV div 2"
definition DOWN_COUNT_MARGIN_TICKS :: nat where "DOWN_COUNT_MARGIN_TICKS = 3"

definition rank_opens :: "nat \<Rightarrow> nat" where
  "rank_opens rank = unat TRIGGER_COMPARE + ADC_TRIGGER_LATENCY_CLOCKS * ADC_CLOCK_DIV + rank * ADC_RANK_TICKS"

definition rank_settle_bound :: "nat \<Rightarrow> nat" where
  "rank_settle_bound rank = rank_opens rank - SHUNT_SETTLE_NS * (GATE_TIMER_HZ div 1000000) div 1000"

definition rank_down_bound :: "nat \<Rightarrow> nat" where
  "rank_down_bound rank =
     (let ends = rank_opens rank + ADC_APERTURE_TICKS
      in unat ARR - (ends - unat ARR) - DOWN_COUNT_MARGIN_TICKS)"

definition hold_compare_max :: "nat \<Rightarrow> u8 \<Rightarrow> u16" where
  "hold_compare_max rank dead_time_dtg =
     (let dead = int (unat dead_time_dtg) * int DEAD_TIME_DTS_DIV
      in word_of_int (int (rank_settle_bound rank) - dead))"

definition HOLD_MAX_PERIODS :: nat where "HOLD_MAX_PERIODS = 1024"

record sample_hold =
  sh_last :: "int list"
  sh_flagged :: "bool list"
  sh_run :: "nat list"
  sh_held :: "u8 list"
  sh_both :: bool

definition sample_hold_new :: sample_hold where
  "sample_hold_new = \<lparr>sh_last = [0, 0], sh_flagged = [False, False], sh_run = [0, 0], sh_held = [0, 0], sh_both = False\<rparr>"

definition hold_take_window :: "sample_hold \<Rightarrow> sample_hold \<times> u8 list \<times> bool" where
  "hold_take_window h = (h\<lparr>sh_held := [0, 0], sh_both := False\<rparr>, sh_held h, sh_both h)"

text \<open>The body of the loop for one of the two phases: the state, the value put out and whether any phase is held.\<close>

definition hold_one :: "nat \<Rightarrow> int \<Rightarrow> sample_hold \<times> bool \<Rightarrow> (sample_hold \<times> bool) \<times> int" where
  "hold_one i raw s =
     (let (h, any) = s
      in if sh_flagged h ! i \<and> sh_run h ! i < HOLD_MAX_PERIODS
         then ((h\<lparr>sh_run := (sh_run h)[i := sh_run h ! i + 1], sh_held := (sh_held h)[i := sh_held h ! i + 1],
                  sh_both := (sh_both h \<or> any)\<rparr>, True), sh_last h ! i)
         else ((h\<lparr>sh_run := (sh_run h)[i := 0], sh_last := (sh_last h)[i := raw]\<rparr>, any), raw))"

definition hold_apply :: "int \<Rightarrow> int \<Rightarrow> sample_hold \<Rightarrow> sample_hold \<times> (int \<times> int) \<times> bool" where
  "hold_apply ia ib h =
     (let (s, a) = hold_one 0 ia (h, False); ((h, any), b) = hold_one 1 ib s in (h, (a, b), any))"

definition hold_arm :: "u16 \<times> u16 \<Rightarrow> u16 \<Rightarrow> sample_hold \<Rightarrow> sample_hold" where
  "hold_arm sensed threshold h = h\<lparr>sh_flagged := [fst sensed > threshold, snd sensed > threshold]\<rparr>"

definition HOLD_CAUSE_DISARMED :: u32 where "HOLD_CAUSE_DISARMED = push_bit 24 1"
definition HOLD_CAUSE_STALE :: u32 where "HOLD_CAUSE_STALE = push_bit 25 1"
definition HOLD_CAUSE_CHOP :: u32 where "HOLD_CAUSE_CHOP = push_bit 26 1"
definition HOLD_CAUSE_BOTH_HELD :: u32 where "HOLD_CAUSE_BOTH_HELD = push_bit 27 1"
definition HOLD_CAL_PAIRS_SHIFT :: nat where "HOLD_CAL_PAIRS_SHIFT = 28"
definition HOLD_CAL_PAIRS_MASK :: u32 where "HOLD_CAL_PAIRS_MASK = push_bit HOLD_CAL_PAIRS_SHIFT 3"
definition HOLD_CAL_DISAGREED :: u32 where "HOLD_CAL_DISAGREED = push_bit 30 1"
definition HOLD_CAUSE_RAIL :: u32 where "HOLD_CAUSE_RAIL = push_bit 31 1"

definition rail_threshold :: "u16 \<Rightarrow> u16" where
  "rail_threshold skip = push_bit 3 (skip AND 0x0FFF)"

definition rail_skip :: "u16 \<Rightarrow> u16 \<times> u16 \<Rightarrow> bool \<times> bool \<Rightarrow> bool" where
  "rail_skip threshold raw rd =
     (threshold \<noteq> 0 \<and> ((fst rd \<and> fst raw \<ge> threshold) \<or> (snd rd \<and> snd raw \<ge> threshold)))"

definition coast_causes :: "bool \<Rightarrow> bool \<Rightarrow> bool \<Rightarrow> u32" where
  "coast_causes armed stale chop =
     (if armed then 0 else HOLD_CAUSE_DISARMED) OR (if stale then HOLD_CAUSE_STALE else 0)
     OR (if chop then HOLD_CAUSE_CHOP else 0)"

definition pack_foc_hold :: "u8 list \<Rightarrow> u8 \<Rightarrow> u32 \<Rightarrow> u32" where
  "pack_foc_hold held coasted causes =
     ucast (held ! 0) OR push_bit 8 (ucast (held ! 1)) OR push_bit 16 (ucast coasted) OR (causes AND 0xFF000000)"

definition pack_obs_state :: "u8 \<Rightarrow> bool list \<Rightarrow> u8 \<Rightarrow> u32 \<Rightarrow> u32" where
  "pack_obs_state hall_code enables method flags =
     (let en = of_bool (enables ! 0) OR push_bit 1 (of_bool (enables ! 1)) OR push_bit 2 (of_bool (enables ! 2))
      in ucast hall_code OR push_bit 8 en OR push_bit 16 (ucast method) OR push_bit 24 (flags AND 0xFF))"

end
