(* ===== verification/Indicate.thy ===== *)
theory Indicate
  imports Store Arith
begin

unbundle bit_operations_syntax

text \<open>
  What the board shows of itself: the tune format (\<open>src/shared/store/src/tune.rs\<close>), the tone player and the battery
  alarm (\<open>src/motorcontroller/firmware/src/tones.rs\<close>), the battery gauge (\<open>gauge.rs\<close>) and the odometer
  (\<open>odometer.rs\<close>).

  A 16-bit battery word is an integer; a counter that the source saturates is a natural number with the bound
  written out. The three tunes are read through an argument, the \<open>Tunes\<close> trait.
\<close>

section \<open>The tune format\<close>

definition NOTE_LEN :: nat where "NOTE_LEN = 3"
definition DUR_UNIT_MS :: nat where "DUR_UNIT_MS = 10"

record tune_note =
  nt_hz :: u16
  nt_dur :: u8

definition note_decode :: "bytes \<Rightarrow> tune_note" where
  "note_decode b = \<lparr>nt_hz = ucast (b ! 0) OR push_bit 8 (ucast (b ! 1)), nt_dur = b ! 2\<rparr>"

definition note_encode :: "tune_note \<Rightarrow> bytes" where
  "note_encode n = [ucast (nt_hz n), ucast (drop_bit 8 (nt_hz n)), nt_dur n]"

definition note_playable :: "tune_note \<Rightarrow> bool" where
  "note_playable n = (nt_dur n \<noteq> 0)"

definition note_ms :: "tune_note \<Rightarrow> nat" where
  "note_ms n = unat (nt_dur n) * DUR_UNIT_MS"

definition note_count :: "bytes \<Rightarrow> nat" where
  "note_count tune = length tune div NOTE_LEN"

definition note_at :: "bytes \<Rightarrow> nat \<Rightarrow> tune_note option" where
  "note_at tune i =
     (if i * NOTE_LEN + NOTE_LEN \<le> length tune then Some (note_decode (take NOTE_LEN (drop (i * NOTE_LEN) tune))) else None)"

section \<open>The tone player\<close>

datatype tone_event = Horn | BatteryCritical | BatteryLow

definition EVENTS :: "tone_event list" where
  "EVENTS = [Horn, BatteryCritical, BatteryLow]"

definition tone_level_bits :: "bool \<Rightarrow> bool \<Rightarrow> bool \<Rightarrow> u8" where
  "tone_level_bits horn critical low = of_bool horn OR push_bit 1 (of_bool critical) OR push_bit 2 (of_bool low)"

definition TONE_TICK_MS :: nat where "TONE_TICK_MS = 4"
definition P_MIN :: u32 where "P_MIN = 2"
definition P_MAX :: u32 where "P_MAX = 65535"

definition tone_period :: "u16 \<Rightarrow> u32 \<Rightarrow> u32" where
  "tone_period hz rate_hz =
     (if hz = 0 then 0
      else let h = (ucast hz :: u32); p = (rate_hz + h div 2) div h
           in if p < P_MIN then P_MIN else if p > P_MAX then P_MAX else p)"

text \<open>The first playable note at or after \<open>from\<close>, wrapping, one pass over the notes.\<close>

definition next_playable :: "bytes \<Rightarrow> nat \<Rightarrow> (nat \<times> tune_note) option" where
  "next_playable tune from =
     (let n = note_count tune
      in if n = 0 then None
         else case filter (\<lambda>i. case note_at tune i of Some x \<Rightarrow> note_playable x | None \<Rightarrow> False) (map (\<lambda>k. (from + k) mod n) [0..<n]) of
                [] \<Rightarrow> None
              | i # _ \<Rightarrow> Some (i, the (note_at tune i)))"

record playing =
  pl_event :: tone_event
  pl_index :: u8
  pl_hz :: u16
  pl_dur_ms :: nat
  pl_elapsed :: nat

record player =
  pr_rate :: u32
  pr_playing :: "playing option"
  pr_levels :: u8

definition player_new :: "u32 \<Rightarrow> player" where
  "player_new rate_hz = \<lparr>pr_rate = rate_hz, pr_playing = None, pr_levels = 0\<rparr>"

text \<open>The choice over the events left to try, with the bit each has in the levels; the note that ends carries its overshoot.\<close>

fun player_select :: "(tone_event \<Rightarrow> bytes) \<Rightarrow> u8 \<Rightarrow> bool \<Rightarrow> (nat \<times> tone_event) list \<Rightarrow> playing option \<Rightarrow> playing option" where
  "player_select tunes levels note_over [] p = None"
| "player_select tunes levels note_over ((k, e) # es) p =
     (if levels AND push_bit k 1 = 0 then player_select tunes levels note_over es p
      else
        let current = (case p of Some q \<Rightarrow> if pl_event q = e then Some q else None | None \<Rightarrow> None)
        in if current \<noteq> None \<and> \<not> note_over then p
           else
             let (from, carry) = (case current of Some q \<Rightarrow> (unat (pl_index q) + 1, pl_elapsed q - pl_dur_ms q) | None \<Rightarrow> (0, 0))
             in case next_playable (tunes e) from of
                  Some (i, n) \<Rightarrow>
                    Some \<lparr>pl_event = e, pl_index = of_nat i, pl_hz = nt_hz n, pl_dur_ms = note_ms n, pl_elapsed = carry\<rparr>
                | None \<Rightarrow> player_select tunes levels note_over es p)"

definition sat32 :: "nat \<Rightarrow> nat" where
  "sat32 n = min n (2 ^ 32 - 1)"

definition player_tick :: "(tone_event \<Rightarrow> bytes) \<Rightarrow> u8 \<Rightarrow> nat \<Rightarrow> player \<Rightarrow> player \<times> u32" where
  "player_tick tunes levels dt_ms s =
     (let p = map_option (\<lambda>q. q\<lparr>pl_elapsed := sat32 (pl_elapsed q + dt_ms)\<rparr>) (pr_playing s);
          note_over = (case p of Some q \<Rightarrow> pl_elapsed q \<ge> pl_dur_ms q | None \<Rightarrow> False);
          s = s\<lparr>pr_playing := p\<rparr>;
          s = (if levels \<noteq> pr_levels s \<or> note_over
               then s\<lparr>pr_levels := levels, pr_playing := player_select tunes levels note_over (enumerate 0 EVENTS) p\<rparr>
               else s)
      in (s, case pr_playing s of Some q \<Rightarrow> tone_period (pl_hz q) (pr_rate s) | None \<Rightarrow> 0))"

section \<open>The battery alarm\<close>

definition ALARM_ON_MS :: nat where "ALARM_ON_MS = 2000"
definition ALARM_OFF_MS :: nat where "ALARM_OFF_MS = 10000"

record filtered =
  fi_on :: bool
  fi_against :: nat

definition filtered_new :: filtered where
  "filtered_new = \<lparr>fi_on = False, fi_against = 0\<rparr>"

definition low_condition :: "int \<Rightarrow> int \<Rightarrow> bool" where
  "low_condition w threshold = (threshold > 0 \<and> w < threshold)"

definition filtered_step :: "int \<Rightarrow> int \<Rightarrow> nat \<Rightarrow> filtered \<Rightarrow> filtered \<times> bool" where
  "filtered_step w threshold dt_ms f =
     (if w = 0 then (filtered_new, False)
      else
        let cond = low_condition w threshold;
            f = (if cond = fi_on f then f\<lparr>fi_against := 0\<rparr>
                 else let f = f\<lparr>fi_against := sat32 (fi_against f + dt_ms)\<rparr>;
                          needed = (if fi_on f then ALARM_OFF_MS else ALARM_ON_MS)
                      in if fi_against f \<ge> needed then f\<lparr>fi_on := cond, fi_against := 0\<rparr> else f)
        in (f, fi_on f))"

record battery_alarm =
  ba_critical :: filtered
  ba_low :: filtered

definition alarm_new :: battery_alarm where
  "alarm_new = \<lparr>ba_critical = filtered_new, ba_low = filtered_new\<rparr>"

definition alarm_step :: "int \<Rightarrow> int \<Rightarrow> int \<Rightarrow> nat \<Rightarrow> battery_alarm \<Rightarrow> battery_alarm \<times> bool \<times> bool" where
  "alarm_step w floor_cv warn dt_ms a =
     (let (c, crit) = filtered_step w floor_cv dt_ms (ba_critical a); (l, low) = filtered_step w warn dt_ms (ba_low a)
      in (\<lparr>ba_critical = c, ba_low = l\<rparr>, crit, low))"

section \<open>The gauge\<close>

definition LED_GREEN :: u8 where "LED_GREEN = push_bit 0 1"
definition LED_ORANGE :: u8 where "LED_ORANGE = push_bit 1 1"
definition LED_RED :: u8 where "LED_RED = push_bit 2 1"
definition SLOW_PERIOD_MS :: nat where "SLOW_PERIOD_MS = 1000"
definition SLOW_ON_MS :: nat where "SLOW_ON_MS = 500"
definition FAST_PERIOD_MS :: nat where "FAST_PERIOD_MS = 250"
definition FAST_ON_MS :: nat where "FAST_ON_MS = 125"

datatype gauge_state = GDark | GOk | GLow | GCritical

record led_pattern =
  lp_colour :: u8
  lp_period :: nat
  lp_on :: nat

fun PATTERNS :: "gauge_state \<Rightarrow> led_pattern" where
  "PATTERNS GDark = \<lparr>lp_colour = 0, lp_period = 1, lp_on = 0\<rparr>"
| "PATTERNS GOk = \<lparr>lp_colour = LED_GREEN, lp_period = 1, lp_on = 1\<rparr>"
| "PATTERNS GLow = \<lparr>lp_colour = LED_ORANGE, lp_period = SLOW_PERIOD_MS, lp_on = SLOW_ON_MS\<rparr>"
| "PATTERNS GCritical = \<lparr>lp_colour = LED_RED, lp_period = FAST_PERIOD_MS, lp_on = FAST_ON_MS\<rparr>"

record gauge =
  ga_state :: gauge_state
  ga_into :: nat
  ga_lit :: u8

definition gauge_new :: gauge where
  "gauge_new = \<lparr>ga_state = GDark, ga_into = 0, ga_lit = 0\<rparr>"

definition gauge_state_of :: "bool \<Rightarrow> bool \<Rightarrow> bool \<Rightarrow> gauge_state" where
  "gauge_state_of critical low known =
     (if \<not> known then GDark else if critical then GCritical else if low then GLow else GOk)"

definition isolate_lowest_one :: "u8 \<Rightarrow> u8" where
  "isolate_lowest_one x = x AND (0 - x)"

definition gauge_step :: "bool \<Rightarrow> bool \<Rightarrow> bool \<Rightarrow> u8 \<Rightarrow> nat \<Rightarrow> gauge \<Rightarrow> gauge \<times> u8 \<times> u8" where
  "gauge_step critical low known stored dt_ms g =
     (let st = gauge_state_of critical low known;
          p = PATTERNS st;
          g = (if st \<noteq> ga_state g then g\<lparr>ga_state := st, ga_into := 0\<rparr>
               else g\<lparr>ga_into := sat32 (ga_into g + dt_ms) mod lp_period p\<rparr>);
          led = (if stored AND lp_colour p \<noteq> 0 then lp_colour p else isolate_lowest_one stored);
          lit = (if ga_into g < lp_on p then led else 0);
          changed = lit XOR ga_lit g
      in (g\<lparr>ga_lit := lit\<rparr>, lit, changed))"

section \<open>The alarm and its two readers\<close>

record tick_in =
  ti_word :: int
  ti_floor :: int
  ti_warn :: int
  ti_horn :: bool
  ti_stored :: u8

record indicators =
  in_alarm :: battery_alarm
  in_player :: player
  in_gauge :: gauge

definition indicators_new :: "u32 \<Rightarrow> indicators" where
  "indicators_new rate_hz = \<lparr>in_alarm = alarm_new, in_player = player_new rate_hz, in_gauge = gauge_new\<rparr>"

text \<open>The tone period, the LEDs lit and the LEDs that changed.\<close>

definition indicators_tick :: "(tone_event \<Rightarrow> bytes) \<Rightarrow> tick_in \<Rightarrow> nat \<Rightarrow> indicators \<Rightarrow> indicators \<times> u32 \<times> u8 \<times> u8" where
  "indicators_tick tunes x dt_ms s =
     (let (a, crit, low) = alarm_step (ti_word x) (ti_floor x) (ti_warn x) dt_ms (in_alarm s);
          (p, period) = player_tick tunes (tone_level_bits (ti_horn x) crit low) dt_ms (in_player s);
          (g, lit, changed) = gauge_step crit low (ti_word x \<noteq> 0) (ti_stored x) dt_ms (in_gauge s)
      in (\<lparr>in_alarm = a, in_player = p, in_gauge = g\<rparr>, period, lit, changed))"

section \<open>The odometer\<close>

record odometer =
  od_total :: u32
  od_folded :: u32
  od_written :: u32
  od_ride :: bool

definition odometer_new :: "u32 \<Rightarrow> u32 \<Rightarrow> odometer" where
  "odometer_new stored edges_now = \<lparr>od_total = stored, od_folded = edges_now, od_written = stored, od_ride = False\<rparr>"

definition odometer_fold :: "u32 \<Rightarrow> bool \<Rightarrow> odometer \<Rightarrow> odometer" where
  "odometer_fold edges_now armed d =
     (let delta = edges_now - od_folded d
      in d\<lparr>od_folded := edges_now, od_total := word_of_nat (min (unat (od_total d) + unat delta) (2 ^ 32 - 1)),
           od_ride := (armed \<or> od_ride d)\<rparr>)"

definition odometer_due :: "bool \<Rightarrow> bool \<Rightarrow> odometer \<Rightarrow> u32 option" where
  "odometer_due armed at_rest d =
     (if armed \<or> \<not> at_rest \<or> \<not> od_ride d \<or> od_total d = od_written d then None else Some (od_total d))"

definition odometer_settled :: "u32 \<Rightarrow> bool \<Rightarrow> odometer \<Rightarrow> odometer" where
  "odometer_settled total_now stored d =
     (let d = d\<lparr>od_ride := False\<rparr> in if stored then d\<lparr>od_written := total_now\<rparr> else d)"

end
