(* ===== verification/ProtectProps.thy ===== *)
theory ProtectProps
  imports Protect Indicate Runs
begin

text \<open>
  The guards of a motor over whole histories: what an over-current excursion raises, and what the odometer counts
  and when it writes.
\<close>

section \<open>The over-current excursion\<close>

definition current_run :: "(int \<times> int) list \<Rightarrow> current_limit \<Rightarrow> current_limit" where
  "current_run xs c = fold (\<lambda>(ia, ib) c. fst (current_step ia ib c)) xs c"

lemma current_run_simps [simp]:
  "current_run [] c = c" "current_run (x # xs) c = current_run xs (fst (current_step (fst x) (snd x) c))"
  "current_run (xs @ [x]) c = fst (current_step (fst x) (snd x) (current_run xs c))"
  by (simp_all add: current_run_def split_beta)

abbreviation magnitude :: "int \<times> int \<Rightarrow> int" where
  "magnitude x \<equiv> phase_magnitude (fst x) (snd x)"

text \<open>What an excursion raises a trip for: 64 periods over the limit in a row, or the hard trip for as many as are asked.\<close>

definition excursion_trips :: "current_limit \<Rightarrow> (int \<times> int) list \<Rightarrow> bool" where
  "excursion_trips c xs \<longleftrightarrow>
     64 \<le> length xs \<or> cu_peak_trip_periods c \<noteq> 0 \<and> has_run (\<lambda>x. cu_hard_trip c \<le> magnitude x) (cu_peak_trip_periods c) xs"

lemma step_calm:
  assumes "phase_magnitude ia ib \<le> cu_limit c" "current_step ia ib c = (c', v)"
  shows "\<not> cv_chop v \<and> \<not> cv_trip v \<and> cu_limit c' = cu_limit c \<and> cu_hard_trip c' = cu_hard_trip c \<and>
    cu_peak_trip_periods c' = cu_peak_trip_periods c \<and> cu_over_run c' = 0 \<and> cu_peak_run c' = 0 \<and> \<not> cu_tripped c' \<and> cu_trips c' = cu_trips c"
  using assms by (auto simp: current_step_def Let_def)

lemma step_over:
  assumes "\<not> phase_magnitude ia ib \<le> cu_limit c" "current_step ia ib c = (c', v)"
  defines "k \<equiv> min (cu_over_run c + 1) (2 ^ 32 - 1)" and "p \<equiv> if cu_hard_trip c \<le> phase_magnitude ia ib then min (cu_peak_run c + 1) 255 else 0"
  defines "t \<equiv> \<not> cu_tripped c \<and> (cu_peak_trip_periods c \<noteq> 0 \<and> cu_peak_trip_periods c \<le> p \<or> 64 \<le> k)"
  shows "cv_chop v" "cv_trip v = t" "cu_limit c' = cu_limit c" "cu_hard_trip c' = cu_hard_trip c"
    "cu_peak_trip_periods c' = cu_peak_trip_periods c" "cu_over_run c' = k" "cu_peak_run c' = p"
    "cu_tripped c' = (cu_tripped c \<or> t)" "cu_trips c' = cu_trips c + of_bool t"
  using assms(1,2) unfolding k_def p_def t_def
  by (auto simp: current_step_def Let_def OVER_CURRENT_TRIP_PERIODS_def split: if_splits)

lemma excursion_run:
  assumes "magnitude calm \<le> cu_limit c" "\<forall>x \<in> set xs. cu_limit c < magnitude x" "cu_peak_trip_periods c \<le> 255"
  defines "r \<equiv> current_run (calm # xs) c"
  shows "cu_limit r = cu_limit c \<and> cu_hard_trip r = cu_hard_trip c \<and> cu_peak_trip_periods r = cu_peak_trip_periods c \<and>
    cu_over_run r = min (length xs) (2 ^ 32 - 1) \<and> cu_peak_run r = min (tail_run (\<lambda>x. cu_hard_trip c \<le> magnitude x) xs) 255 \<and>
    cu_tripped r = excursion_trips c xs \<and> cu_trips r = cu_trips c + of_bool (excursion_trips c xs)"
  using assms(2) unfolding r_def
proof (induction xs rule: rev_induct)
  case Nil
  obtain c' v where s: "current_step (fst calm) (snd calm) c = (c', v)" by fastforce
  show ?case using step_calm [OF assms(1) s] by (auto simp: s excursion_trips_def)
next
  case (snoc x xs)
  let ?r = "current_run (calm # xs) c"
  let ?P = "\<lambda>x. cu_hard_trip c \<le> magnitude x"
  obtain c' v where s: "current_step (fst x) (snd x) ?r = (c', v)" by fastforce
  have IH: "cu_limit ?r = cu_limit c" "cu_hard_trip ?r = cu_hard_trip c" "cu_peak_trip_periods ?r = cu_peak_trip_periods c"
    "cu_over_run ?r = min (length xs) (2 ^ 32 - 1)" "cu_peak_run ?r = min (tail_run ?P xs) 255"
    "cu_tripped ?r = excursion_trips c xs" "cu_trips ?r = cu_trips c + of_bool (excursion_trips c xs)"
    using snoc by simp_all
  have over: "\<not> magnitude x \<le> cu_limit ?r" using snoc.prems IH(1) by simp
  note st = step_over [OF over s]
  have k: "min (cu_over_run ?r + 1) (2 ^ 32 - 1) = min (length (xs @ [x])) (2 ^ 32 - 1)" unfolding IH by simp
  have p: "(if cu_hard_trip ?r \<le> magnitude x then min (cu_peak_run ?r + 1) 255 else 0) = min (tail_run ?P (xs @ [x])) 255" unfolding IH by (simp add: min_def)
  have run: "cu_peak_trip_periods c \<noteq> 0 \<Longrightarrow> has_run ?P (cu_peak_trip_periods c) (xs @ [x]) \<longleftrightarrow>
      has_run ?P (cu_peak_trip_periods c) xs \<or> cu_peak_trip_periods c \<le> tail_run ?P (xs @ [x])" by (intro has_run_snoc) simp
  have t: "excursion_trips c (xs @ [x]) \<longleftrightarrow> excursion_trips c xs \<or>
      (cu_peak_trip_periods c \<noteq> 0 \<and> cu_peak_trip_periods c \<le> min (tail_run ?P (xs @ [x])) 255 \<or> 64 \<le> min (length (xs @ [x])) (2 ^ 32 - 1))"
    unfolding excursion_trips_def using run assms(3) by auto
  have r: "current_run (calm # xs @ [x]) c = c'" using s current_run_simps(3) [of "calm # xs" x c] by simp
  show ?case unfolding r using st(3-9) IH unfolding k p t by (auto simp: of_bool_def)
qed

text \<open>C17: An over-current excursion trips exactly once, and exactly when it must. Take any history of the limit, one period within the
  limit, and then any number of periods over it: each of those coasts the bridge, and the trip counter has advanced by one if and only
  if 64 of them passed, or as many consecutive ones reached the hard trip as the peak-trip field asks for (0 asks for none);
  otherwise it has not moved. So a long excursion raises one trip, two separated by one good period raise one each.\<close>

theorem over_current_trips:
  assumes "magnitude calm \<le> cu_limit c" "\<forall>x \<in> set xs. cu_limit c < magnitude x" "cu_peak_trip_periods c \<le> 255"
  shows "cu_trips (current_run (calm # xs) c) = cu_trips c + of_bool
       (64 \<le> length xs \<or>
        cu_peak_trip_periods c \<noteq> 0 \<and>
        (\<exists>n. n + cu_peak_trip_periods c \<le> length xs \<and>
             (\<forall>x \<in> set (take (cu_peak_trip_periods c) (drop n xs)). cu_hard_trip c \<le> magnitude x))) \<and>
    (\<forall>n < length xs. cv_chop (snd (current_step (fst (xs ! n)) (snd (xs ! n)) (current_run (calm # take n xs) c))))"
proof -
  have "cv_chop (snd (current_step (fst (xs ! n)) (snd (xs ! n)) (current_run (calm # take n xs) c)))" if "n < length xs" for n
  proof -
    let ?r = "current_run (calm # take n xs) c"
    obtain c' v where s: "current_step (fst (xs ! n)) (snd (xs ! n)) ?r = (c', v)" by fastforce
    have "cu_limit ?r = cu_limit c" using excursion_run [OF assms(1) _ assms(3), of "take n xs"] assms(2) by (meson in_set_takeD)
    then have "\<not> magnitude (xs ! n) \<le> cu_limit ?r" using assms(2) that by (simp add: not_le)
    then show ?thesis using step_over(1) [OF _ s] unfolding s by simp
  qed
  then show ?thesis using excursion_run [OF assms] by (simp add: excursion_trips_def has_run_def list_all_iff)
qed

text \<open>64 periods over a limit of 100 counts raise one trip; so do the 500 of a stalled motor.\<close>

lemma over_current_trips_witness:
  "cu_trips (current_run ((0, 0) # replicate 63 (150, 0)) (current_limit_new 100 0)) = 0 \<and>
   cu_trips (current_run ((0, 0) # replicate 500 (150, 0)) (current_limit_new 100 0)) = 1"
proof -
  have m: "phase_magnitude 0 0 = 0" "phase_magnitude 150 0 = 150" by code_simp+
  show ?thesis
    using over_current_trips [of "(0, 0)" "current_limit_new 100 0" "replicate 63 (150, 0)"]
      over_current_trips [of "(0, 0)" "current_limit_new 100 0" "replicate 500 (150, 0)"]
    by (simp add: m current_limit_new_def del: replicate.simps)
qed

section \<open>The odometer\<close>

text \<open>A pass of the service loop: the sectors the wheel crossed since the last one, the arm fact, whether the wheel is at
  rest and whether a write of the total succeeds. The interrupt's edge counter is the 32-bit count of those sectors. The totals
  the odometer asks to be written are collected.\<close>

type_synonym odo_pass = "nat \<times> bool \<times> bool \<times> bool"

definition odo_step :: "odo_pass \<Rightarrow> odometer \<times> u32 \<times> u32 list \<Rightarrow> odometer \<times> u32 \<times> u32 list" where
  "odo_step p x =
     (case (p, x) of ((travel, armed, rest, ok), (d, edges, writes)) \<Rightarrow>
        (let edges = edges + of_nat travel; d = odometer_fold edges armed d
         in case odometer_due armed rest d of
              None \<Rightarrow> (d, edges, writes)
            | Some v \<Rightarrow> (odometer_settled v ok d, edges, writes @ [v])))"

definition odo_run :: "odo_pass list \<Rightarrow> u32 \<Rightarrow> u32 \<Rightarrow> odometer \<times> u32 \<times> u32 list" where
  "odo_run ps stored edges = fold odo_step ps (odometer_new stored edges, edges, [])"

text \<open>The rides of a history: the maximal stretches of armed passes.\<close>

definition rides :: "odo_pass list \<Rightarrow> nat" where
  "rides ps = length (filter (\<lambda>i. fst (snd (ps ! i)) \<and> (i = 0 \<or> \<not> fst (snd (ps ! (i - 1))))) [0..<length ps])"

definition last_armed :: "odo_pass list \<Rightarrow> bool" where
  "last_armed ps \<longleftrightarrow> ps \<noteq> [] \<and> fst (snd (last ps))"

lemma rides_snoc: "rides (ps @ [p]) = rides ps + of_bool (fst (snd p) \<and> \<not> last_armed ps)"
proof -
  have "filter (\<lambda>i. fst (snd ((ps @ [p]) ! i)) \<and> (i = 0 \<or> \<not> fst (snd ((ps @ [p]) ! (i - 1))))) [0..<length ps] =
      filter (\<lambda>i. fst (snd (ps ! i)) \<and> (i = 0 \<or> \<not> fst (snd (ps ! (i - 1))))) [0..<length ps]"
    by (rule filter_cong) (auto simp: nth_append)
  then show ?thesis by (cases ps rule: rev_cases) (auto simp: rides_def nth_append last_armed_def)
qed

definition travelled :: "odo_pass list \<Rightarrow> nat" where
  "travelled ps = sum_list (map fst ps)"

lemma odo_inv:
  assumes "list_all (\<lambda>p. fst p < 2 ^ 32) ps" "odo_run ps stored edges = (d, e, ws)"
  shows "unat (od_total d) = min (unat stored + travelled ps) (2 ^ 32 - 1) \<and> od_folded d = e \<and>
    length ws + of_bool (od_ride d) \<le> rides ps \<and> (last_armed ps \<longrightarrow> od_ride d) \<and> sorted ws \<and> (\<forall>w \<in> set ws. w \<le> od_total d)"
  using assms
proof (induction ps arbitrary: d e ws rule: rev_induct)
  case Nil
  then show ?case using unsigned_less [where 'a = nat and w = stored] by (auto simp: odo_run_def odometer_new_def travelled_def rides_def last_armed_def)
next
  case (snoc p ps)
  obtain travel armed rest ok where p: "p = (travel, armed, rest, ok)" by (cases p) auto
  obtain d0 e0 ws0 where r: "odo_run ps stored edges = (d0, e0, ws0)" by (cases "odo_run ps stored edges") auto
  have small: "travel < 2 ^ 32" and IH: "unat (od_total d0) = min (unat stored + travelled ps) (2 ^ 32 - 1)" "od_folded d0 = e0"
    "length ws0 + of_bool (od_ride d0) \<le> rides ps" "last_armed ps \<longrightarrow> od_ride d0" "sorted ws0" "\<forall>w \<in> set ws0. w \<le> od_total d0"
    using snoc.IH [OF _ r] snoc.prems(1) by (auto simp: p)
  let ?d = "odometer_fold (e0 + of_nat travel) armed d0"
  have step: "odo_step p (d0, e0, ws0) = (d, e, ws)" using snoc.prems(2) r by (simp add: odo_run_def)
  have delta: "unat (e0 + of_nat travel - od_folded d0) = travel" using small by (simp add: IH(2) unat_of_nat)
  have m: "min (unat (od_total d0) + travel) (2 ^ 32 - 1) = min (unat stored + travelled (ps @ [p])) (2 ^ 32 - 1)"
    unfolding IH(1) by (simp add: travelled_def p)
  have tot: "unat (od_total ?d) = min (unat stored + travelled (ps @ [p])) (2 ^ 32 - 1)"
    unfolding m [symmetric] by (simp add: odometer_fold_def Let_def delta unat_of_nat)
  have mono: "od_total d0 \<le> od_total ?d"
    unfolding word_le_nat_alt tot IH(1) by (simp add: travelled_def)
  have ride: "od_ride ?d = (armed \<or> od_ride d0)" "od_folded ?d = e0 + of_nat travel" by (simp_all add: odometer_fold_def Let_def)
  have ws0: "\<forall>w \<in> set ws0. w \<le> od_total ?d" using IH(6) mono by (meson order.trans)
  show ?case
  proof (cases "odometer_due armed rest ?d")
    case None
    then have e: "d = ?d" "e = e0 + of_nat travel" "ws = ws0" using step by (auto simp: odo_step_def p Let_def)
    have "length ws0 + of_bool (armed \<or> od_ride d0) \<le> rides (ps @ [p])"
      using IH(3,4) by (cases armed; cases "od_ride d0"; cases "last_armed ps") (simp_all add: rides_snoc p)
    then show ?thesis using tot ride ws0 IH(5) by (cases armed) (simp_all add: e last_armed_def p)
  next
    case (Some v)
    then have due: "\<not> armed" "od_ride ?d" "v = od_total ?d" by (auto simp: odometer_due_def split: if_splits)
    have e: "d = odometer_settled v ok ?d" "e = e0 + of_nat travel" "ws = ws0 @ [v]" using step Some by (auto simp: odo_step_def p Let_def)
    have s: "od_total d = od_total ?d" "\<not> od_ride d" "od_folded d = od_folded ?d" by (simp_all add: e odometer_settled_def Let_def)
    have "length ws \<le> rides (ps @ [p])" using IH(3) due ride(1) by (simp add: e rides_snoc p)
    then show ?thesis using tot ride(2) ws0 IH(5) s due by (auto simp: e(2,3) sorted_append last_armed_def p)
  qed
qed

text \<open>C18: The odometer loses no edge and spares the flash. Over any history of service-loop passes, whatever arms, rests, failed writes
  and wraps of the interrupt's 32-bit edge counter it holds, as long as fewer than \<open>2 ^ 32\<close> sectors pass between two passes: the total is the
  stored one plus every sector the wheel crossed, saturating at the largest 32-bit number; the totals it asks to be written
  never decrease; and it asks at most once for each ride, a failed write included.\<close>

theorem odometer_counts:
  assumes "list_all (\<lambda>p. fst p < 2 ^ 32) ps"
  shows "case odo_run ps stored edges of (d, e, writes) \<Rightarrow>
    unat (od_total d) = min (unat stored + travelled ps) (2 ^ 32 - 1) \<and> length writes \<le> rides ps \<and> sorted writes"
  using odo_inv [OF assms] add_leD1 by (fastforce split: prod.split)

text \<open>A ride of 300 sectors, over which the edge counter wraps, then a stop: one write.\<close>

lemma odometer_counts_witness:
  "unat (od_total (fst (odo_run [(100, True, False, True), (200, True, False, True), (0, False, True, True)] 7 (- 50)))) = 307"
proof -
  have "list_all (\<lambda>p. fst p < 2 ^ 32) [(100 :: nat, True, False, True), (200, True, False, True), (0, False, True, True)]" by simp
  from odometer_counts [OF this, of 7 "- 50"] show ?thesis by (simp add: travelled_def split: prod.splits)
qed

end
