(* ===== verification/Motor.thy ===== *)
theory Motor
  imports Protect
begin

unbundle bit_operations_syntax

text \<open>
  A motor of \<open>src/motorcontroller/firmware/src/motor.rs\<close>: the registers of its gate timer
  (\<open>src/motorcontroller/hal/src/timer.rs\<close>), the calibration blocks, the method and its records, the arm-time
  re-derivation, the runtime the period interrupt keeps, and the interrupt itself.

  One model covers the three images: \<open>COUNT\<close> is the argument \<open>count\<close> (1 or 2), and what only the two-motor part
  has (the break input, the DC-link converter) is a field that is off on the others. A memory word another
  context writes is an input of the period. The pins, the converters and the counters are not modelled: what the
  interrupt reads off them are the samples and the hall code of the period.
\<close>

section \<open>The gate timer\<close>

text \<open>The registers the firmware writes after bring-up; \<open>pw_moe\<close> is the main output enable.\<close>

record pwm_timer =
  pw_duties :: "u16 list"
  pw_trigger :: u16
  pw_outputs :: "bool list"
  pw_moe :: bool
  pw_break_flag :: bool

definition set_duties :: "u16 list \<Rightarrow> pwm_timer \<Rightarrow> pwm_timer option" where
  "set_duties duties t = (if \<exists>d \<in> set duties. d > ARR then None else Some (t\<lparr>pw_duties := duties\<rparr>))"

definition rearm_trigger :: "u16 \<Rightarrow> pwm_timer \<Rightarrow> pwm_timer" where
  "rearm_trigger compare t = (if compare > ARR then t else t\<lparr>pw_trigger := compare\<rparr>)"

definition set_channel_outputs :: "bool list \<Rightarrow> pwm_timer \<Rightarrow> pwm_timer" where
  "set_channel_outputs enabled t = t\<lparr>pw_outputs := enabled\<rparr>"

section \<open>The calibration\<close>

definition CAL_SETTLE_CONVERSIONS :: nat where "CAL_SETTLE_CONVERSIONS = 512"
definition CAL_AGREE_COUNTS :: int where "CAL_AGREE_COUNTS = 192"
definition CAL_ATTEMPTS :: nat where "CAL_ATTEMPTS = 3"
definition CAL_BLOCKS :: nat where "CAL_BLOCKS = CAL_ATTEMPTS + 1"

type_synonym cal_block = "u16 \<times> u16"

definition cal_agree :: "cal_block \<Rightarrow> cal_block \<Rightarrow> bool" where
  "cal_agree a b =
     (let within = (\<lambda>x y. \<bar>uint (x :: u16) - uint (y :: u16)\<bar> \<le> CAL_AGREE_COUNTS)
      in within (fst a) (fst b) \<and> within (snd a) (snd b))"

definition cal_mean :: "cal_block \<Rightarrow> cal_block \<Rightarrow> cal_block" where
  "cal_mean a b =
     (ucast ((ucast (fst a) + ucast (fst b) :: u32) div 2), ucast ((ucast (snd a) + ucast (snd b) :: u32) div 2))"

datatype cal_verdict = Agreed cal_block u8 | Again | Refused cal_block

text \<open>The scan of the adjacent pairs, from pair \<open>k\<close> on.\<close>

fun cal_scan :: "nat \<Rightarrow> cal_block list \<Rightarrow> cal_verdict option" where
  "cal_scan k (a # b # bs) =
     (if cal_agree a b then Some (Agreed (cal_mean a b) (of_nat k + 1)) else cal_scan (k + 1) (b # bs))"
| "cal_scan k bs = None"

definition cal_verdict_of :: "cal_block list \<Rightarrow> cal_verdict" where
  "cal_verdict_of blocks =
     (case cal_scan 0 blocks of
        Some v \<Rightarrow> v
      | None \<Rightarrow> if blocks \<noteq> [] \<and> length blocks \<ge> CAL_BLOCKS then Refused (last blocks) else Again)"

definition cal_hold_bits :: "cal_verdict \<Rightarrow> u32" where
  "cal_hold_bits v =
     (case v of
        Agreed m pairs \<Rightarrow> push_bit HOLD_CAL_PAIRS_SHIFT (ucast pairs)
      | Refused m \<Rightarrow> push_bit HOLD_CAL_PAIRS_SHIFT (of_nat CAL_ATTEMPTS) OR HOLD_CAL_DISAGREED
      | Again \<Rightarrow> 0)"

definition cal_offsets :: "u32 \<Rightarrow> u32 \<Rightarrow> cal_block" where
  "cal_offsets sum_a sum_b = (calibrate_offset sum_a, calibrate_offset sum_b)"

datatype cal_outcome = CalAccepted | CalRefused

definition cal_outcome_of :: "phase_offsets option \<Rightarrow> cal_outcome" where
  "cal_outcome_of accepted = (if accepted \<noteq> None then CalAccepted else CalRefused)"

definition init_fault_bits :: "cal_outcome \<Rightarrow> u32" where
  "init_fault_bits cal = (case cal of CalRefused \<Rightarrow> FAULT_INIT_CAL | CalAccepted \<Rightarrow> 0)"

text \<open>A block: the conversions of one motor, each the pair it samples, or a conversion that never completed.\<close>

fun measure_sums :: "(u16 \<times> u16) option list \<Rightarrow> u32 \<times> u32 \<Rightarrow> (u32 \<times> u32) option" where
  "measure_sums [] s = Some s"
| "measure_sums (None # cs) s = None"
| "measure_sums (Some (a, b) # cs) s = measure_sums cs (cal_accumulate (fst s) a, cal_accumulate (snd s) b)"

definition measure_block :: "(u16 \<times> u16) option list \<Rightarrow> cal_block option" where
  "measure_block conversions =
     (case measure_sums (take CAL_BLOCK conversions) (0, 0) of
        None \<Rightarrow> None | Some (a, b) \<Rightarrow> Some (cal_offsets a b))"

text \<open>A motor's verdict: the blocks are judged one by one, and the first verdict stands.\<close>

fun judge_blocks :: "cal_block list \<Rightarrow> cal_block option list \<Rightarrow> cal_verdict option" where
  "judge_blocks seen [] = Some Again"
| "judge_blocks seen (None # bs) = None"
| "judge_blocks seen (Some b # bs) =
     (let seen = seen @ [b]
      in case cal_verdict_of seen of
           Again \<Rightarrow> if length seen = CAL_BLOCKS then Some (Refused b) else judge_blocks seen bs
         | v \<Rightarrow> Some v)"

section \<open>The method and its records\<close>

record boot_fixed =
  bf_dc_link :: "dc_link_limit option"
  bf_noise_floor :: u16
  bf_accepted_offsets :: "phase_offsets option"

definition requested_method :: "u8 \<Rightarrow> commutation_method" where
  "requested_method method_byte = method_from_u8 method_byte"

definition requested_direction :: "u8 \<Rightarrow> direction" where
  "requested_direction direction_byte = (if direction_byte \<noteq> 0 then Reverse else Forward)"

definition method_records :: "commutation_method \<Rightarrow> boot_fixed \<Rightarrow> six_step \<Rightarrow> int \<Rightarrow> method_state" where
  "method_records requested boot decode full_scale =
     (case (requested, bf_accepted_offsets boot) of
        (MSine, _) \<Rightarrow> MsSine
      | (MFoc, Some offsets) \<Rightarrow> MsFoc (foc_state_new offsets DIRECT full_scale)
      | _ \<Rightarrow> MsSixStep decode)"

definition running_method :: "commutation_method \<Rightarrow> boot_fixed \<Rightarrow> commutation_method" where
  "running_method requested boot = ms_method (method_records requested boot (six_step_new Forward 0) 0)"

definition method_fault_bits :: "commutation_method \<Rightarrow> boot_fixed \<Rightarrow> u32" where
  "method_fault_bits requested boot = (if running_method requested boot = requested then 0 else FAULT_METHOD)"

record motor_rederived =
  rd_method :: u8
  rd_limit_counts :: int
  rd_peak_trip :: u8
  rd_rail :: u16
  rd_records :: method_state
  rd_decode :: six_step
  rd_method_fault :: u32

definition motor_rederive :: "u8 \<Rightarrow> u8 \<Rightarrow> u8 \<Rightarrow> u32 \<Rightarrow> u16 \<Rightarrow> u8 \<Rightarrow> u16 \<Rightarrow> boot_fixed \<Rightarrow> motor_rederived" where
  "motor_rederive method_byte direction_byte align_offset_byte current_limit_ma current_cal peak_trip_periods skip boot =
     (let decode = six_step_new (requested_direction direction_byte) align_offset_byte;
          limit = limit_counts current_limit_ma current_cal (bf_noise_floor boot);
          full_scale = full_scale_counts limit (bf_noise_floor boot);
          requested = requested_method method_byte;
          records = method_records requested boot decode full_scale
      in \<lparr>rd_method = method_to_u8 (ms_method records), rd_limit_counts = limit, rd_peak_trip = peak_trip_periods,
          rd_rail = rail_threshold skip, rd_records = records, rd_decode = decode,
          rd_method_fault = method_fault_bits requested boot\<rparr>)"

section \<open>The runtime of a motor\<close>

record motor_runtime =
  mr_commutator :: commutator
  mr_boot :: boot_fixed
  mr_base_flags :: u32
  mr_method :: u8
  mr_bc :: bool
  mr_low_side :: bool
  mr_sample_enables :: "bool list"
  mr_periods :: u32
  mr_since_demand :: nat
  mr_last_seq :: u32
  mr_faults :: u32
  mr_offsets :: "u16 \<times> u16"
  mr_current :: current_limit
  mr_hold :: sample_hold
  mr_rail_skip :: u16
  mr_dc :: bool
  mr_dc_sum :: u32
  mr_brk :: bool
  mr_coasted :: u8
  mr_causes :: u32
  mr_buzzer :: bool
  mr_tone :: tone_step

text \<open>The words the interrupt publishes for one motor.\<close>

record motor_words =
  wd_trips :: u32
  wd_periods :: u32
  wd_edges :: u32
  wd_current :: u32
  wd_mean_duty :: u32
  wd_foc_phase :: u32
  wd_foc_dq :: u32
  wd_foc_ref :: u32
  wd_foc_hold :: u32
  wd_dc_link_sum :: u32
  wd_angle :: u32
  wd_speed :: int
  wd_wheel_rate :: int
  wd_pos_edges :: int
  wd_invalid_dwell :: u32
  wd_fault :: u32
  wd_obs_state :: u32
  wd_duty01 :: u32
  wd_duty2_angle :: u32

text \<open>\<open>install\<close>: what the bring-up hands a motor; the DC-link verdict carries its fault bits.\<close>

definition motor_install ::
  "nat \<Rightarrow> phase_offsets option \<Rightarrow> u16 \<times> u16 \<Rightarrow> u32 \<Rightarrow> u16 \<Rightarrow> (dc_link_limit option \<times> u32) option \<Rightarrow> bool \<Rightarrow> bool \<Rightarrow>
   bool \<Rightarrow> bool \<Rightarrow> bool \<Rightarrow> nat \<Rightarrow> commutation_method \<Rightarrow> u32 \<Rightarrow> u8 \<Rightarrow> u16 \<Rightarrow> motor_runtime" where
  "motor_install count accepted offsets cal_bits noise_floor dc_verdict dc brk pair_bc low_side buzzer period_hz
     requested seq peak_default rail_default =
     (let (dc_link, dc_fault) = (case dc_verdict of Some v \<Rightarrow> v | None \<Rightarrow> (None, 0));
          boot = \<lparr>bf_dc_link = dc_link, bf_noise_floor = noise_floor, bf_accepted_offsets = accepted\<rparr>;
          decode = six_step_new Forward 0;
          limit = noise_floor_counts noise_floor;
          records = method_records requested boot decode (full_scale_counts limit noise_floor);
          cal = cal_outcome_of accepted
      in \<lparr>mr_commutator = commutator_new records period_hz decode, mr_boot = boot,
          mr_base_flags = OBS_CONFIGURED OR OBS_CURRENT_SENSE OR (if cal = CalAccepted then OBS_CAL_ACCEPTED else 0),
          mr_method = method_to_u8 (ms_method records), mr_bc = (count > 1 \<and> pair_bc), mr_low_side = low_side,
          mr_sample_enables = [False, False, False], mr_periods = 0, mr_since_demand = 0, mr_last_seq = seq,
          mr_faults = init_fault_bits cal OR dc_fault, mr_offsets = offsets,
          mr_current = current_limit_new limit peak_default, mr_hold = sample_hold_new,
          mr_rail_skip = rail_threshold rail_default, mr_dc = dc, mr_dc_sum = 0, mr_brk = brk, mr_coasted = 0,
          mr_causes = cal_bits, mr_buzzer = buzzer, mr_tone = tone_new\<rparr>)"

definition motor_install_rederived :: "motor_rederived \<Rightarrow> motor_runtime \<Rightarrow> motor_runtime" where
  "motor_install_rederived r m =
     m\<lparr>mr_method := rd_method r, mr_current := current_reconfigure (rd_limit_counts r) (rd_peak_trip r) (mr_current m),
       mr_rail_skip := rd_rail r, mr_commutator := switch_method (rd_records r) (rd_decode r) (mr_commutator m),
       mr_faults := (mr_faults m AND NOT FAULT_METHOD) OR rd_method_fault r\<rparr>"

section \<open>One motor's share of a period\<close>

text \<open>What the period reads from outside: the raw pair of the sensed phases, the hall levels, the words of the 250 Hz task,
  the bench knobs and the DC converter's sample.\<close>

record period_env =
  pe_raw :: "u16 \<times> u16"
  pe_code :: u8
  pe_seq :: u32
  pe_demand :: int
  pe_hold_compare :: u32
  pe_dc :: u16
  pe_gains :: pi_gains
  pe_shift :: u32

text \<open>The two currents, conditioned, through the sample rule, the hold and the pair mapping, and the limit's verdict.\<close>

definition period_currents ::
  "nat \<Rightarrow> u16 \<times> u16 \<Rightarrow> bool \<Rightarrow> motor_runtime \<Rightarrow> motor_runtime \<times> (int \<times> int) \<times> bool \<times> current_verdict" where
  "period_currents count raw armed m =
     (let ia = current_from_adc (fst (mr_offsets m)) (fst raw);
          ib = current_from_adc (snd (mr_offsets m)) (snd raw);
          rd = sensed_readings (mr_low_side m) armed (mr_sample_enables m) (mr_bc m);
          ia = (if fst rd then ia else 0); ib = (if snd rd then ib else 0);
          (h, sensed, hold) = hold_apply ia ib (mr_hold m);
          rail = rail_skip (mr_rail_skip m) raw rd;
          m = m\<lparr>mr_hold := h, mr_causes := mr_causes m OR (if rail then HOLD_CAUSE_RAIL else 0)\<rparr>;
          pair = clarke_pair sensed (count > 1 \<and> mr_bc m);
          (c, v) = (if fst rd \<or> snd rd then current_step (fst pair) (snd pair) (mr_current m) else (mr_current m, current_pass))
      in (m\<lparr>mr_current := c\<rparr>, pair, hold \<or> rail, v))"

definition period_freshness :: "u32 \<Rightarrow> motor_runtime \<Rightarrow> motor_runtime" where
  "period_freshness sq m =
     (if sq \<noteq> mr_last_seq m then m\<lparr>mr_last_seq := sq, mr_since_demand := 0\<rparr>
      else m\<lparr>mr_since_demand := min (mr_since_demand m + 1) (2 ^ 32 - 1)\<rparr>)"

text \<open>The bridge writes: the coast posture floats every leg; otherwise the duties first, then the enables, and a refused
  duty leaves the outputs as they were.\<close>

definition bridge_writes :: "bool \<Rightarrow> bool \<Rightarrow> u16 list \<Rightarrow> bool list \<Rightarrow> motor_runtime \<Rightarrow> pwm_timer \<Rightarrow>
    motor_runtime \<times> pwm_timer \<times> bool list" where
  "bridge_writes coast stale duties enables m t =
     (if coast then
        (m\<lparr>mr_faults := mr_faults m OR (if stale then FAULT_DEMAND_STALE else 0)\<rparr>,
         set_channel_outputs [False, False, False] t, [False, False, False])
      else case set_duties duties t of
             Some t \<Rightarrow> (m, set_channel_outputs enables t, enables)
           | None \<Rightarrow> (m\<lparr>mr_faults := mr_faults m OR FAULT_DUTY_RANGE\<rparr>, t, enables))"

definition hall_levels :: "u8 \<Rightarrow> u8 list" where
  "hall_levels code = [code AND 1, drop_bit 1 code AND 1, drop_bit 2 code AND 1]"

definition foc_window_zero :: foc_window where
  "foc_window_zero = \<lparr>fw_iq = 0, fw_id = 0, fw_vq = 0, fw_iq_ref = 0\<rparr>"

text \<open>The words closed once every 64 periods.\<close>

definition window_close :: "u16 list \<Rightarrow> bool list \<Rightarrow> motor_runtime \<Rightarrow> motor_words \<Rightarrow> motor_runtime \<times> motor_words" where
  "window_close duties applied m w =
     (let w = w\<lparr>wd_edges := cm_edges_total (fe_comm (co_front (mr_commutator m)))\<rparr>;
          (c, current, mean, mean_a, mean_b) = current_take_window (mr_current m);
          w = w\<lparr>wd_current := current, wd_mean_duty := pack_motor_mean_duty mean (on_duty duties applied),
                wd_foc_phase := pack_i16_pair mean_a mean_b\<rparr>;
          (co, foc) = take_foc_window (mr_commutator m);
          foc = (case foc of Some f \<Rightarrow> f | None \<Rightarrow> foc_window_zero);
          w = w\<lparr>wd_foc_dq := pack_i16_pair (fw_id foc) (fw_iq foc), wd_foc_ref := pack_i16_pair (fw_iq_ref foc) (fw_vq foc)\<rparr>;
          (h, held, both) = hold_take_window (mr_hold m);
          causes = mr_causes m OR (if both then HOLD_CAUSE_BOTH_HELD else 0);
          w = w\<lparr>wd_foc_hold := pack_foc_hold held (mr_coasted m) causes\<rparr>;
          w = (if mr_dc m then w\<lparr>wd_dc_link_sum := drop_bit 2 (mr_dc_sum m)\<rparr> else w)
      in (m\<lparr>mr_current := c, mr_commutator := co, mr_hold := h, mr_coasted := 0,
            mr_dc_sum := (if mr_dc m then 0 else mr_dc_sum m),
            mr_causes := mr_causes m AND (HOLD_CAL_PAIRS_MASK OR HOLD_CAL_DISAGREED)\<rparr>, w))"

definition publish_period :: "u16 list \<Rightarrow> bool list \<Rightarrow> bool \<Rightarrow> motor_runtime \<Rightarrow> motor_words \<Rightarrow> motor_runtime \<times> motor_words" where
  "publish_period duties applied stale m w =
     (let comm = fe_comm (co_front (mr_commutator m));
          m = m\<lparr>mr_faults := mr_faults m OR (if cm_hall_fault comm then FAULT_HALL else 0)\<rparr>;
          flags = mr_base_flags m OR (if stale then OBS_COASTING else 0)
      in (m, w\<lparr>wd_angle := ucast (cm_angle comm), wd_speed := cm_speed comm, wd_wheel_rate := cm_rate_q comm,
               wd_pos_edges := cm_pos_edges comm, wd_invalid_dwell := word_of_nat (cm_invalid_dwell comm), wd_fault := mr_faults m,
               wd_obs_state := pack_obs_state (cm_prev_any_code comm) applied (mr_method m) flags,
               wd_duty01 := ucast (duties ! 0) OR push_bit 16 (ucast (duties ! 1)),
               wd_duty2_angle := ucast (duties ! 2) OR push_bit 16 (ucast (cm_angle comm))\<rparr>))"

text \<open>A period: the samples and the freshness; the commutation under the posture; the bridge; the words.\<close>

definition period_begin :: "nat \<Rightarrow> period_env \<Rightarrow> bool \<Rightarrow> motor_runtime \<Rightarrow> motor_runtime \<times> (int \<times> int) \<times> bool \<times> current_verdict" where
  "period_begin count e armed m =
     (let (m, pair, held, v) = period_currents count (pe_raw e) armed m;
          m = (if mr_dc m then m\<lparr>mr_dc_sum := mr_dc_sum m + ucast (pe_dc e)\<rparr> else m)
      in (period_freshness (pe_seq e) m, pair, held, v))"

definition period_commutate :: "nat \<Rightarrow> period_env \<Rightarrow> bool \<Rightarrow> int \<times> int \<Rightarrow> bool \<Rightarrow> motor_runtime \<Rightarrow>
    motor_runtime \<times> u16 list \<times> bool list" where
  "period_commutate count e coast pair held m =
     (let (co, out) = commutator_step (pe_gains e) (pe_shift e) (hall_levels (pe_code e)) pair (pe_demand e) (\<not> coast) held
                        (mr_commutator m);
          (duties, enables) = to_duties_enables out
      in (m\<lparr>mr_commutator := co,
            mr_hold := hold_arm (sensed_duties duties (count > 1 \<and> mr_bc m)) (ucast (pe_hold_compare e)) (mr_hold m)\<rparr>, duties, enables))"

definition period_end :: "u16 list \<Rightarrow> bool list \<Rightarrow> bool \<Rightarrow> motor_runtime \<Rightarrow> motor_words \<Rightarrow> motor_runtime \<times> motor_words" where
  "period_end duties applied stale m w =
     (let m = m\<lparr>mr_sample_enables := applied, mr_periods := mr_periods m + 1\<rparr>;
          w = w\<lparr>wd_periods := mr_periods m\<rparr>;
          (m, w) = (if unat (mr_periods m) mod PERIODS_PER_TICK_NOMINAL = 0 then window_close duties applied m w else (m, w))
      in publish_period duties applied stale m w)"

definition motor_period :: "nat \<Rightarrow> nat \<Rightarrow> period_env \<Rightarrow> bool \<Rightarrow> motor_runtime \<Rightarrow> pwm_timer \<Rightarrow> motor_words \<Rightarrow>
    motor_runtime \<times> pwm_timer \<times> motor_words" where
  "motor_period count i e armed m t w =
     (let (m, pair, held, v) = period_begin count e armed m;
          w = (if cv_trip v then w\<lparr>wd_trips := cu_trips (mr_current m)\<rparr> else w);
          stale = demand_stale (mr_since_demand m);
          coast = coast_posture armed stale (cv_chop v);
          m = m\<lparr>mr_coasted := mr_coasted m + of_bool coast,
                mr_causes := mr_causes m OR coast_causes armed stale (cv_chop v)\<rparr>;
          (m, duties, enables) = period_commutate count e coast pair held m;
          (m, t, applied) = bridge_writes coast stale duties enables m t;
          t = (if i = 0 then rearm_trigger TRIGGER_COMPARE t else t);
          (m, w) = period_end duties applied stale m w
      in (m, t, w))"

section \<open>The image's state and the period interrupt\<close>

text \<open>The statics: one slot per motor. \<open>hw_gates\<close>, \<open>hw_timer_set\<close> and \<open>hw_break_enabled\<close> say which slots of
  \<open>GATE\<close>, \<open>TIMER\<close> and \<open>BREAK_ENABLED\<close> the bring-up filled; the registers behind them are \<open>hw_timers\<close>.\<close>

record motor_hw =
  hw_motors :: "motor_runtime option list"
  hw_gates :: "bool list"
  hw_timer_set :: "bool list"
  hw_break_enabled :: "bool list"
  hw_timers :: "pwm_timer list"
  hw_words :: "motor_words list"
  hw_demand :: "int list"
  hw_demand_seq :: u32
  hw_hold_compare :: "u32 list"
  hw_armed :: bool
  hw_refused :: bool
  hw_refusal_obs :: u32
  hw_tone_period :: u32
  hw_buzzer_pin :: bool
  hw_vbatt_raw :: u32
  hw_counter_running :: bool

text \<open>What the interrupt reads off the hardware: the four samples, the hall code and DC sample of each motor, the knobs.\<close>

record isr_env =
  ie_samples :: "u16 list"
  ie_codes :: "u8 list"
  ie_dc :: "u16 list"
  ie_gains :: pi_gains
  ie_shift :: u32

definition hw_count :: "motor_hw \<Rightarrow> nat" where
  "hw_count h = length (hw_motors h)"

definition period_env_of :: "isr_env \<Rightarrow> motor_hw \<Rightarrow> nat \<Rightarrow> period_env" where
  "period_env_of e h i =
     \<lparr>pe_raw = (ie_samples e ! (2 * i), ie_samples e ! (2 * i + 1)), pe_code = ie_codes e ! i, pe_seq = hw_demand_seq h,
      pe_demand = hw_demand h ! i, pe_hold_compare = hw_hold_compare h ! i, pe_dc = ie_dc e ! i, pe_gains = ie_gains e,
      pe_shift = ie_shift e\<rparr>"

definition isr_broken :: "motor_hw \<Rightarrow> bool" where
  "isr_broken h = list_ex (\<lambda>(m, t). case m of Some m \<Rightarrow> mr_brk m \<and> pw_break_flag t | None \<Rightarrow> False) (zip (hw_motors h) (hw_timers h))"

definition isr_motor :: "isr_env \<Rightarrow> bool \<Rightarrow> nat \<Rightarrow> motor_hw \<Rightarrow> motor_hw" where
  "isr_motor e armed i h =
     (case hw_motors h ! i of
        None \<Rightarrow> h
      | Some m \<Rightarrow>
          (let (m, t, w) = motor_period (hw_count h) i (period_env_of e h i) armed m (hw_timers h ! i) (hw_words h ! i)
           in h\<lparr>hw_motors := (hw_motors h)[i := Some m], hw_timers := (hw_timers h)[i := t], hw_words := (hw_words h)[i := w]\<rparr>))"

definition isr_tone :: "motor_hw \<Rightarrow> motor_hw" where
  "isr_tone h =
     (case hw_motors h ! 0 of
        None \<Rightarrow> h
      | Some m \<Rightarrow>
          (let (tn, level) = tone_pass (hw_tone_period h) (mr_tone m);
               h = h\<lparr>hw_motors := (hw_motors h)[0 := Some (m\<lparr>mr_tone := tn\<rparr>)]\<rparr>
           in case level of
                Some l \<Rightarrow> if mr_buzzer m then h\<lparr>hw_buzzer_pin := l\<rparr> else h
              | None \<Rightarrow> h))"

definition period_isr :: "isr_env \<Rightarrow> motor_hw \<Rightarrow> motor_hw" where
  "period_isr e h =
     (let armed = period_armed (hw_armed h) (isr_broken h)
      in case hw_motors h ! 0 of
           None \<Rightarrow> h
         | Some m0 \<Rightarrow>
             (let h = (if hw_count h = 1 then h\<lparr>hw_vbatt_raw := ucast (drop_bit 3 (ie_samples e ! 2))\<rparr> else h)
              in isr_tone (fold (isr_motor e armed) [0..<hw_count h] h)))"

end
