(* ===== verification/Arm.thy ===== *)
theory Arm
  imports Motor Imu Orchestra
begin

unbundle bit_operations_syntax

text \<open>
  The arming layer, \<open>src/motorcontroller/firmware/src/arm.rs\<close>: the value row an arm reads from the store, what is
  derived of it, the decision of a pass, and the two ordered sequences over the shared statics.

  The period interrupt preempts the main thread. A schedule is the list, point by point, of the interrupts that run
  there: a point stands before each access the sequences make to the state they share with the interrupt, so a
  statement over every schedule is a statement over every interleaving of the two.
\<close>

section \<open>The arm row\<close>

definition IMU_AXIS_SIGN :: u8 where "IMU_AXIS_SIGN = 0x15"
definition IMU_AXIS_ROLE :: u8 where "IMU_AXIS_ROLE = 0x16"
definition CONTROL_LEADER :: u8 where "CONTROL_LEADER = 0x1E"
definition CONTROL_MODE :: u8 where "CONTROL_MODE = 0x20"
definition CONTROL_FRAME :: u8 where "CONTROL_FRAME = 0x21"
definition CONTROL_RIDER_REQUIRED :: u8 where "CONTROL_RIDER_REQUIRED = 0x22"
definition MOTOR_METHOD :: u8 where "MOTOR_METHOD = 0x23"
definition BOARD_BATTERY_FLOOR :: u8 where "BOARD_BATTERY_FLOOR = 0x26"
definition CONTROL_GAIN_MAX :: u8 where "CONTROL_GAIN_MAX = 0x28"
definition CONTROL_POS_CLAMP :: u8 where "CONTROL_POS_CLAMP = 0x2A"
definition CONTROL_DRIVE_TURN :: u8 where "CONTROL_DRIVE_TURN = 0x2B"
definition MOTOR_CURRENT_CAL :: u8 where "MOTOR_CURRENT_CAL = 0x4C"
definition MOTOR_CURRENT_LIMIT :: u8 where "MOTOR_CURRENT_LIMIT = 0x4E"
definition MOTOR_DIRECTION :: u8 where "MOTOR_DIRECTION = 0x4F"
definition CONTROL_SIDE :: u8 where "CONTROL_SIDE = 0x50"
definition MOTOR_ALIGN_OFFSET :: u8 where "MOTOR_ALIGN_OFFSET = 0x51"
definition MOTOR_PEAK_TRIP_PERIODS :: u8 where "MOTOR_PEAK_TRIP_PERIODS = 0x59"
definition MOTOR_RAIL_SKIP :: u8 where "MOTOR_RAIL_SKIP = 0x5A"

definition at_key :: "u8 \<Rightarrow> nat \<Rightarrow> key" where
  "at_key fid i = \<lparr>field_id = fid, key_index = of_nat i\<rparr>"

definition ARM_ROW_BASE :: "key list" where
  "ARM_ROW_BASE =
     [at_key IMU_AXIS_SIGN 0, at_key IMU_AXIS_SIGN 1, at_key IMU_AXIS_SIGN 2, at_key IMU_AXIS_ROLE 0,
      at_key IMU_AXIS_ROLE 1, at_key CONTROL_LEADER 0, at_key CONTROL_MODE 0, at_key CONTROL_FRAME 0,
      at_key CONTROL_RIDER_REQUIRED 0, at_key MOTOR_METHOD 0, at_key BOARD_BATTERY_FLOOR 0,
      at_key CONTROL_GAIN_MAX 0, at_key CONTROL_GAIN_MAX 1, at_key CONTROL_GAIN_MAX 2, at_key CONTROL_GAIN_MAX 3,
      at_key CONTROL_POS_CLAMP 0, at_key CONTROL_DRIVE_TURN 0, at_key CONTROL_DRIVE_TURN 1,
      at_key MOTOR_CURRENT_CAL 0, at_key MOTOR_CURRENT_LIMIT 0, at_key MOTOR_DIRECTION 0, at_key CONTROL_SIDE 0,
      at_key MOTOR_ALIGN_OFFSET 0, at_key MOTOR_PEAK_TRIP_PERIODS 0, at_key MOTOR_RAIL_SKIP 0]"

definition MOTOR_ARM_IDS :: "u8 list" where
  "MOTOR_ARM_IDS =
     [MOTOR_CURRENT_CAL, MOTOR_CURRENT_LIMIT, MOTOR_DIRECTION, MOTOR_ALIGN_OFFSET, MOTOR_PEAK_TRIP_PERIODS, MOTOR_RAIL_SKIP]"

definition ARM_ROW_LEN :: "nat \<Rightarrow> nat" where
  "ARM_ROW_LEN count = length ARM_ROW_BASE + length MOTOR_ARM_IDS * (count - 1)"

definition ARM_ROW :: "nat \<Rightarrow> key list" where
  "ARM_ROW count = ARM_ROW_BASE @ concat (map (\<lambda>m. map (\<lambda>fid. at_key fid m) MOTOR_ARM_IDS) [1..<count])"

text \<open>Signed scalars are integers here; the store hands them out as words.\<close>

record arm_values =
  av_method :: u8
  av_direction :: "u8 list"
  av_align_offset :: "u8 list"
  av_control_mode :: u8
  av_frame :: u8
  av_leader :: u8
  av_side :: u8
  av_limit_ma :: "u32 list"
  av_cal :: "u16 list"
  av_peak_trip :: "u8 list"
  av_rail_skip :: "u16 list"
  av_imu_sign :: "int list"
  av_imu_roles :: "u8 list"
  av_rider :: u8
  av_floor :: int
  av_gain_max :: "int list"
  av_drive_turn :: "int list"
  av_pos_clamp :: int

text \<open>The typed handle of a key is its row of the registry: its storage type and its default.\<close>

definition field_of :: "u8 \<Rightarrow> nat \<Rightarrow> field_def" where
  "field_of fid i = the (lookup_key (at_key fid i))"

definition field_default :: "u8 \<Rightarrow> nat \<Rightarrow> tagged_value" where
  "field_default fid i = def_default (field_of fid i)"

definition field_read :: "u8 \<Rightarrow> nat \<Rightarrow> u8 \<Rightarrow> bytes \<Rightarrow> tagged_value" where
  "field_read fid i tag bs = scalar_or_default (def_kind (field_of fid i)) (field_default fid i) tag bs"

fun as_u8 :: "tagged_value \<Rightarrow> u8" where
  "as_u8 (VU8 w) = w"
| "as_u8 _ = 0"

fun as_u16 :: "tagged_value \<Rightarrow> u16" where
  "as_u16 (VU16 w) = w"
| "as_u16 _ = 0"

fun as_u32 :: "tagged_value \<Rightarrow> u32" where
  "as_u32 (VU32 w) = w"
| "as_u32 _ = 0"

fun as_signed :: "tagged_value \<Rightarrow> int" where
  "as_signed (VI16 w) = sint w"
| "as_signed (VI32 w) = sint w"
| "as_signed _ = 0"

definition arm_defaults :: "nat \<Rightarrow> arm_values" where
  "arm_defaults count =
     \<lparr>av_method = as_u8 (field_default MOTOR_METHOD 0),
      av_direction = map (\<lambda>m. as_u8 (field_default MOTOR_DIRECTION m)) [0..<count],
      av_align_offset = map (\<lambda>m. as_u8 (field_default MOTOR_ALIGN_OFFSET m)) [0..<count],
      av_control_mode = as_u8 (field_default CONTROL_MODE 0), av_frame = as_u8 (field_default CONTROL_FRAME 0),
      av_leader = as_u8 (field_default CONTROL_LEADER 0), av_side = as_u8 (field_default CONTROL_SIDE 0),
      av_limit_ma = map (\<lambda>m. as_u32 (field_default MOTOR_CURRENT_LIMIT m)) [0..<count],
      av_cal = map (\<lambda>m. as_u16 (field_default MOTOR_CURRENT_CAL m)) [0..<count],
      av_peak_trip = map (\<lambda>m. as_u8 (field_default MOTOR_PEAK_TRIP_PERIODS m)) [0..<count],
      av_rail_skip = map (\<lambda>m. as_u16 (field_default MOTOR_RAIL_SKIP m)) [0..<count],
      av_imu_sign = map (\<lambda>i. as_signed (field_default IMU_AXIS_SIGN i)) [0, 1, 2],
      av_imu_roles = map (\<lambda>i. as_u8 (field_default IMU_AXIS_ROLE i)) [0, 1],
      av_rider = as_u8 (field_default CONTROL_RIDER_REQUIRED 0),
      av_floor = as_signed (field_default BOARD_BATTERY_FLOOR 0),
      av_gain_max = map (\<lambda>i. as_signed (field_default CONTROL_GAIN_MAX i)) [0, 1, 2, 3],
      av_drive_turn = map (\<lambda>i. as_signed (field_default CONTROL_DRIVE_TURN i)) [0, 1],
      av_pos_clamp = as_signed (field_default CONTROL_POS_CLAMP 0)\<rparr>"

text \<open>What one record does to the values. An index past the end of an array finds no slot, and an update of a list past
  its end is the list.\<close>

definition arm_assign :: "key \<Rightarrow> u8 \<Rightarrow> bytes \<Rightarrow> arm_values \<Rightarrow> arm_values" where
  "arm_assign k tag bs v =
     (let fid = field_id k; i = unat (key_index k); x = field_read fid i tag bs
      in if k = at_key MOTOR_METHOD 0 then v\<lparr>av_method := as_u8 x\<rparr>
         else if fid = MOTOR_DIRECTION then v\<lparr>av_direction := (av_direction v)[i := as_u8 x]\<rparr>
         else if fid = MOTOR_ALIGN_OFFSET then v\<lparr>av_align_offset := (av_align_offset v)[i := as_u8 x]\<rparr>
         else if k = at_key CONTROL_MODE 0 then v\<lparr>av_control_mode := as_u8 x\<rparr>
         else if k = at_key CONTROL_FRAME 0 then v\<lparr>av_frame := as_u8 x\<rparr>
         else if k = at_key CONTROL_LEADER 0 then v\<lparr>av_leader := as_u8 x\<rparr>
         else if k = at_key CONTROL_SIDE 0 then v\<lparr>av_side := as_u8 x\<rparr>
         else if fid = MOTOR_CURRENT_LIMIT then v\<lparr>av_limit_ma := (av_limit_ma v)[i := as_u32 x]\<rparr>
         else if fid = MOTOR_CURRENT_CAL then v\<lparr>av_cal := (av_cal v)[i := as_u16 x]\<rparr>
         else if fid = MOTOR_PEAK_TRIP_PERIODS then v\<lparr>av_peak_trip := (av_peak_trip v)[i := as_u8 x]\<rparr>
         else if fid = MOTOR_RAIL_SKIP then v\<lparr>av_rail_skip := (av_rail_skip v)[i := as_u16 x]\<rparr>
         else if k = at_key CONTROL_RIDER_REQUIRED 0 then v\<lparr>av_rider := as_u8 x\<rparr>
         else if k = at_key BOARD_BATTERY_FLOOR 0 then v\<lparr>av_floor := as_signed x\<rparr>
         else if k = at_key CONTROL_POS_CLAMP 0 then v\<lparr>av_pos_clamp := as_signed x\<rparr>
         else if fid = IMU_AXIS_SIGN then v\<lparr>av_imu_sign := (av_imu_sign v)[i := as_signed x]\<rparr>
         else if fid = IMU_AXIS_ROLE then v\<lparr>av_imu_roles := (av_imu_roles v)[i := as_u8 x]\<rparr>
         else if fid = CONTROL_GAIN_MAX then v\<lparr>av_gain_max := (av_gain_max v)[i := as_signed x]\<rparr>
         else if fid = CONTROL_DRIVE_TURN then v\<lparr>av_drive_turn := (av_drive_turn v)[i := as_signed x]\<rparr>
         else v)"

definition read_arm_values :: "'f flash_ops \<Rightarrow> nat \<Rightarrow> 'f store \<Rightarrow> arm_values" where
  "read_arm_values F count st = for_each_in F st (ARM_ROW count) arm_assign (arm_defaults count)"

section \<open>What the row becomes\<close>

record rederived =
  re_motor :: "motor_rederived list"
  re_imu :: "imu_config option"
  re_control :: arm_control

definition rederive :: "arm_values \<Rightarrow> boot_fixed list \<Rightarrow> int list option \<Rightarrow> rederived" where
  "rederive v boot imu_bias =
     \<lparr>re_motor = map (\<lambda>m. motor_rederive (av_method v) (av_direction v ! m) (av_align_offset v ! m) (av_limit_ma v ! m)
                            (av_cal v ! m) (av_peak_trip v ! m) (av_rail_skip v ! m) (boot ! m)) [0..<length boot],
      re_imu = map_option (\<lambda>bias. imu_staged (av_imu_sign v) bias (av_imu_roles v ! 0, av_imu_roles v ! 1)) imu_bias,
      re_control = \<lparr>ar_mode_byte = av_control_mode v, ar_frame_byte = av_frame v, ar_leader_byte = av_leader v,
                    ar_side_byte = av_side v, ar_rider_byte = av_rider v, ar_battery_floor = av_floor v,
                    ar_drive_turn = drive_turn_new (av_drive_turn v ! 0) (av_drive_turn v ! 1),
                    ar_gain_max = av_gain_max v, ar_pos_clamp = av_pos_clamp v\<rparr>\<rparr>"

definition install_rederived :: "motor_rederived list \<Rightarrow> motor_hw \<Rightarrow> motor_hw" where
  "install_rederived rs h =
     h\<lparr>hw_motors := map2 (\<lambda>slot r. map_option (motor_install_rederived r) slot) (hw_motors h) rs\<rparr>"

definition boot_fixed_of :: "motor_hw \<Rightarrow> boot_fixed option list" where
  "boot_fixed_of h = map (map_option mr_boot) (hw_motors h)"

section \<open>The decision\<close>

datatype arm_decision = ArmIdle | ArmArm | ArmShutdown

definition arm_decide :: "bool \<Rightarrow> bool \<Rightarrow> bool \<Rightarrow> bool \<Rightarrow> arm_decision" where
  "arm_decide allowed armed brought_up fault_level =
     (if armed then if allowed \<and> \<not> fault_level then ArmIdle else ArmShutdown
      else if allowed \<and> brought_up \<and> \<not> fault_level then ArmArm
      else ArmIdle)"

definition off_inhibit :: "bool \<Rightarrow> bool \<Rightarrow> int \<Rightarrow> bool" where
  "off_inhibit motor_running period_live speed = (motor_running \<and> (\<not> period_live \<or> speed \<noteq> 0))"

definition CONFIRM_COUNT :: nat where "CONFIRM_COUNT = 8"

definition note_confirm_refusal :: "u32 \<Rightarrow> u32" where
  "note_confirm_refusal w =
     (let n = (ucast (drop_bit CONFIRM_COUNT w AND 0xFF) :: u8)
      in (w AND NOT (push_bit CONFIRM_COUNT 0xFF)) OR push_bit CONFIRM_COUNT (ucast (if n = 255 then 255 else n + 1)))"

section \<open>The two sequences\<close>

datatype arm_step = ReReadValues | ConfirmPeriodsLive | ArmZeroDemand | SetMoe

definition ARM_STEPS :: "arm_step list" where
  "ARM_STEPS = [ReReadValues, ConfirmPeriodsLive, ArmZeroDemand, SetMoe]"

datatype shutdown_step = Disarm | ZeroDemand | FloatChannels

definition SHUTDOWN_STEPS :: "shutdown_step list" where
  "SHUTDOWN_STEPS = [Disarm, ZeroDemand, FloatChannels]"

definition ARM_CONFIRM_SPINS :: nat where "ARM_CONFIRM_SPINS = 30000"

type_synonym schedule = "isr_env list list"

text \<open>A point of the schedule: the interrupts pending there run.\<close>

definition preempt :: "motor_hw \<times> schedule \<Rightarrow> motor_hw \<times> schedule" where
  "preempt hs = (case snd hs of [] \<Rightarrow> hs | es # sch \<Rightarrow> (fold period_isr es (fst hs), sch))"

definition periods0 :: "motor_hw \<Rightarrow> u32" where
  "periods0 h = wd_periods (hw_words h ! 0)"

definition timer_moe :: "bool \<Rightarrow> pwm_timer \<Rightarrow> pwm_timer" where
  "timer_moe on t = t\<lparr>pw_moe := on\<rparr>"

text \<open>One motor's gate, reached through a slot of \<open>GATE\<close>.\<close>

definition set_moe :: "nat \<Rightarrow> bool \<Rightarrow> motor_hw \<Rightarrow> motor_hw" where
  "set_moe i on h = h\<lparr>hw_timers := (hw_timers h)[i := timer_moe on (hw_timers h ! i)]\<rparr>"

definition zero_demand :: "motor_hw \<Rightarrow> motor_hw" where
  "zero_demand h = h\<lparr>hw_demand := map (\<lambda>_. 0) (hw_demand h), hw_demand_seq := hw_demand_seq h + 1\<rparr>"

definition float_all_channels :: "motor_hw \<Rightarrow> motor_hw" where
  "float_all_channels h =
     h\<lparr>hw_timers := map2 (\<lambda>t on. if on then set_channel_outputs [False, False, False] t else t) (hw_timers h) (hw_timer_set h)\<rparr>"

fun gate_indices :: "nat \<Rightarrow> bool list \<Rightarrow> nat list" where
  "gate_indices i [] = []"
| "gate_indices i (g # gs) = (if g then i # gate_indices (i + 1) gs else gate_indices (i + 1) gs)"

text \<open>Preemption is possible before the flag, before each gate and before the two later steps.\<close>

fun shutdown_do :: "shutdown_step \<Rightarrow> motor_hw \<times> schedule \<Rightarrow> motor_hw \<times> schedule" where
  "shutdown_do Disarm hs =
     (let (h, sch) = preempt hs
      in fold (\<lambda>i hs. apfst (set_moe i False) (preempt hs)) (gate_indices 0 (hw_gates h)) (h\<lparr>hw_armed := False\<rparr>, sch))"
| "shutdown_do ZeroDemand hs = apfst zero_demand (preempt hs)"
| "shutdown_do FloatChannels hs = apfst float_all_channels (preempt hs)"

definition run_shutdown :: "motor_hw \<times> schedule \<Rightarrow> motor_hw \<times> schedule" where
  "run_shutdown hs = fold shutdown_do SHUTDOWN_STEPS hs"

text \<open>The bounded wait: each turn reads the counter after whatever interrupts ran before it.\<close>

fun confirm_spin :: "nat \<Rightarrow> u32 \<Rightarrow> motor_hw \<times> schedule \<Rightarrow> (motor_hw \<times> schedule) \<times> bool" where
  "confirm_spin 0 start hs = (hs, False)"
| "confirm_spin (Suc spins) start hs =
     (let hs = preempt hs in if periods0 (fst hs) \<noteq> start then (hs, True) else confirm_spin spins start hs)"

definition confirm_periods_live :: "motor_hw \<times> schedule \<Rightarrow> (motor_hw \<times> schedule) \<times> bool" where
  "confirm_periods_live hs = (let hs = preempt hs in confirm_spin ARM_CONFIRM_SPINS (periods0 (fst hs)) hs)"

definition confirm_refused :: "motor_hw \<Rightarrow> motor_hw" where
  "confirm_refused h = h\<lparr>hw_refused := True, hw_refusal_obs := note_confirm_refusal (hw_refusal_obs h)\<rparr>"

definition open_gate :: "nat \<Rightarrow> motor_hw \<times> schedule \<Rightarrow> motor_hw \<times> schedule" where
  "open_gate i hs =
     (let hs = apfst (set_moe i True) (preempt hs) in apfst (\<lambda>h. h\<lparr>hw_armed := True\<rparr>) (preempt hs))"

text \<open>A step of the arm, over the state \<open>'s\<close> the re-read also changes; \<open>False\<close> ends the sequence.\<close>

fun arm_do :: "('s \<times> motor_hw \<Rightarrow> 's \<times> motor_hw) \<Rightarrow> bool list \<Rightarrow> arm_step \<Rightarrow> 's \<times> motor_hw \<times> schedule \<Rightarrow>
    ('s \<times> motor_hw \<times> schedule) \<times> bool" where
  "arm_do re_read moe ReReadValues (s, hs) =
     (let (h, sch) = preempt hs; (s, h) = re_read (s, h) in ((s, h, sch), True))"
| "arm_do re_read moe ConfirmPeriodsLive (s, hs) =
     (let (hs, live) = confirm_periods_live hs
      in if live then ((s, hs), True) else ((s, run_shutdown (apfst confirm_refused hs)), False))"
| "arm_do re_read moe ArmZeroDemand (s, hs) = ((s, apfst zero_demand (preempt hs)), True)"
| "arm_do re_read moe SetMoe (s, hs) =
     ((s, fold open_gate (gate_indices 0 (map2 (\<and>) (hw_gates (fst hs)) moe)) hs), True)"

fun run_arm_steps :: "('s \<times> motor_hw \<Rightarrow> 's \<times> motor_hw) \<Rightarrow> bool list \<Rightarrow> arm_step list \<Rightarrow> 's \<times> motor_hw \<times> schedule \<Rightarrow>
    's \<times> motor_hw \<times> schedule" where
  "run_arm_steps re_read moe [] x = x"
| "run_arm_steps re_read moe (st # sts) x =
     (case arm_do re_read moe st x of (x, going) \<Rightarrow> if going then run_arm_steps re_read moe sts x else x)"

definition run_arm :: "('s \<times> motor_hw \<Rightarrow> 's \<times> motor_hw) \<Rightarrow> bool list \<Rightarrow> 's \<times> motor_hw \<times> schedule \<Rightarrow> 's \<times> motor_hw \<times> schedule" where
  "run_arm re_read moe x = run_arm_steps re_read moe ARM_STEPS x"

definition enact :: "('s \<times> motor_hw \<Rightarrow> 's \<times> motor_hw) \<Rightarrow> bool list \<Rightarrow> bool \<Rightarrow> bool \<Rightarrow> 's \<times> motor_hw \<times> schedule \<Rightarrow>
    's \<times> motor_hw \<times> schedule" where
  "enact re_read moe brought_up fault_level x =
     (case x of (s, h, sch) \<Rightarrow>
        (case arm_decide (moe ! 0) (hw_armed h) brought_up fault_level of
           ArmIdle \<Rightarrow> x
         | ArmArm \<Rightarrow> run_arm re_read moe x
         | ArmShutdown \<Rightarrow> (s, run_shutdown (h, sch))))"

section \<open>The gates' other accesses\<close>

definition gate_install :: "nat \<Rightarrow> bool \<Rightarrow> motor_hw \<Rightarrow> motor_hw" where
  "gate_install i two_motor_part h =
     (if i < length (hw_gates h)
      then h\<lparr>hw_gates := (hw_gates h)[i := True],
             hw_timers := (if two_motor_part then (hw_timers h)[i := (hw_timers h ! i)\<lparr>pw_break_flag := False\<rparr>] else hw_timers h)\<rparr>
      else h)"

definition break_flags :: "motor_hw \<Rightarrow> bool option list" where
  "break_flags h =
     map (\<lambda>i. if hw_timer_set h ! i \<and> hw_break_enabled h ! i then Some (pw_break_flag (hw_timers h ! i)) else None) [0..<hw_count h]"

definition clear_break_flags :: "bool list \<Rightarrow> motor_hw \<Rightarrow> motor_hw" where
  "clear_break_flags which h =
     h\<lparr>hw_timers := map2 (\<lambda>t on. if on then t\<lparr>pw_break_flag := False\<rparr> else t) (hw_timers h) (map2 (\<and>) (hw_gates h) which)\<rparr>"

end
