(* ===== verification/Firmware.thy ===== *)
theory Firmware
  imports Arm Indicate Responder Scheduler Inputs
begin

unbundle bit_operations_syntax

text \<open>
  The motor controller's image, \<open>src/motorcontroller/firmware/src/main.rs\<close>: the shell around the orchestrator, the
  250 Hz control task, the 16 ms input task, the arm-row function, and the steps of the service loop.

  The control task reads words the period interrupt writes and writes words it reads. Each group of those accesses
  is a step before which the interrupts pending in the schedule run (theory \<open>Arm\<close>). The observation block for a
  debugger, the pins and the watchdog are not modelled.
\<close>

section \<open>The shell\<close>

definition DRAIN_BUDGET :: nat where "DRAIN_BUDGET = 8"
definition POLL_WINDOW_TICKS :: u32 where "POLL_WINDOW_TICKS = 125"
definition PORT_IDX_MAILBOX :: u8 where "PORT_IDX_MAILBOX = 0"
definition PORT_IDX_LINK0 :: u8 where "PORT_IDX_LINK0 = 1"

record guest_slots =
  gs_own :: "cyclic_state option"
  gs_own_more :: "cyclic_motor list"
  gs_peer :: "(u8 \<times> cyclic_state) option"

definition guest_slots_new :: "nat \<Rightarrow> guest_slots" where
  "guest_slots_new count = \<lparr>gs_own = None, gs_own_more = replicate (count - 1) motor_zero, gs_peer = None\<rparr>"

definition guest_fill :: "cyclic_state option \<Rightarrow> cyclic_motor list \<Rightarrow> (u8 \<times> cyclic_state) option \<Rightarrow> guest_slots \<Rightarrow> guest_slots" where
  "guest_fill own blocks peer g =
     (let g = (if own \<noteq> None then g\<lparr>gs_own := own, gs_own_more := blocks\<rparr> else g)
      in if peer \<noteq> None then g\<lparr>gs_peer := peer\<rparr> else g)"

definition more_motors :: "('f, 'o) board \<Rightarrow> cyclic_motor list" where
  "more_motors s = map (cyclic_motor_of s) [1..<motors s]"

record input_pins =
  ip_group :: bool
  ip_button :: bool
  ip_pad_a :: bool
  ip_pad_b :: bool
  ip_polarity :: u8

record ('f, 'o, 'b) shell =
  sl_orch :: "('f, 'o) board"
  sl_i2c :: "'b option"
  sl_imu :: "imu_driver option"
  sl_inputs :: input_pins
  sl_cyclic_out :: "cyclic_state option"
  sl_cyclic_more :: "cyclic_motor list"
  sl_guest :: guest_slots
  sl_addressed :: bool
  sl_last_tick :: u32
  sl_last_periods :: u32
  sl_period_live :: bool
  sl_period_health :: period_health
  sl_last_trips :: "u32 list"
  sl_dc_link :: "dc_link_limit option list"
  sl_dc_obs :: "u32 list"
  sl_indicators :: indicators
  sl_leds :: "bool list"
  sl_led_levels :: "bool list"
  sl_warn :: int
  sl_odometer_total :: u32

definition init_shell ::
  "('f, 'o) q_ops \<Rightarrow> nat \<Rightarrow> int \<times> int \<Rightarrow> gain_shadow \<Rightarrow> vbatt_cal option \<Rightarrow> 'b option \<Rightarrow> imu_driver option \<Rightarrow> bool \<Rightarrow>
   input_pins \<Rightarrow> u32 \<Rightarrow> chip_tag \<Rightarrow> bool \<Rightarrow> machine \<Rightarrow> int \<Rightarrow> bool list \<Rightarrow> u32 \<Rightarrow> ('f, 'o, 'b) shell" where
  "init_shell Q count trim gains vcal imu_bus imu_dev asked pins boot_count chip_tag config_fault mach warn leds rate =
     \<lparr>sl_orch = board_new Q count (imu_dev \<noteq> None) asked (att_staged Q (fst trim) (snd trim)) gains vcal
        \<lparr>bi_boot_tag = ucast boot_count, bi_chip = chip_tag, bi_config_fault = config_fault\<rparr> mach,
      sl_i2c = imu_bus, sl_imu = imu_dev, sl_inputs = pins, sl_cyclic_out = None,
      sl_cyclic_more = replicate (count - 1) motor_zero, sl_guest = guest_slots_new count, sl_addressed = False,
      sl_last_tick = 0, sl_last_periods = 0, sl_period_live = False, sl_period_health = period_health_new,
      sl_last_trips = replicate count 0, sl_dc_link = replicate count None, sl_dc_obs = replicate count 0,
      sl_indicators = indicators_new rate, sl_leds = leds, sl_led_levels = map (\<lambda>_. False) leds, sl_warn = warn,
      sl_odometer_total = 0\<rparr>"

section \<open>The arm-row function\<close>

definition boot_fixed_none :: boot_fixed where
  "boot_fixed_none = \<lparr>bf_dc_link = None, bf_noise_floor = 0, bf_accepted_offsets = None\<rparr>"

definition re_read_arm_values :: "('f, 'o) q_ops \<Rightarrow> 's flash_ops \<Rightarrow> 's store option \<Rightarrow>
    ('f, 'o, 'b) shell \<times> motor_hw \<Rightarrow> ('f, 'o, 'b) shell \<times> motor_hw" where
  "re_read_arm_values Q F st x =
     (case (x, st) of
        (_, None) \<Rightarrow> x
      | ((s, h), Some st) \<Rightarrow>
          (let values = read_arm_values F (hw_count h) st;
               boot = map (\<lambda>b. case b of Some b \<Rightarrow> b | None \<Rightarrow> boot_fixed_none) (boot_fixed_of h);
               bias = map_option (\<lambda>d. ic_gyro_bias (id_cfg d)) (sl_imu s);
               r = rederive values boot bias;
               s = s\<lparr>sl_dc_link := map (map_option dc_reset_derate) (sl_dc_link s)\<rparr>;
               h = install_rederived (re_motor r) h;
               s = s\<lparr>sl_imu := (case (sl_imu s, re_imu r) of (Some d, Some c) \<Rightarrow> Some (imu_set_config d c) | _ \<Rightarrow> sl_imu s)\<rparr>
           in (s\<lparr>sl_orch := install_arm_control Q (sl_orch s) (re_control r)\<rparr>, h)))"

text \<open>The gain and reference words as the store holds them.\<close>

definition read_gains :: "'s flash_ops \<Rightarrow> 's store \<Rightarrow> int list" where
  "read_gains F st =
     map (\<lambda>(fid, i). as_signed (get_scalar F st (at_key fid i) TI16 (field_default fid i)))
       [(SF_GAINS_FIELD, 0), (SF_GAINS_FIELD, 1), (SF_GAINS_FIELD, 2), (SF_GAINS_FIELD, 3), (REFERENCE_FIELD, 0), (REFERENCE_FIELD, 1)]"

text \<open>The end of the boot: the derates of the bring-up, the arm row once, and the shadow reconciled under the stored maxima.\<close>

definition boot_values :: "('f, 'o) q_ops \<Rightarrow> 's flash_ops \<Rightarrow> 's store \<Rightarrow> ('f, 'o, 'b) shell \<times> motor_hw \<Rightarrow> ('f, 'o, 'b) shell \<times> motor_hw" where
  "boot_values Q F st x =
     (case x of (s, h) \<Rightarrow>
        (let gains_flash = read_gains F st;
             s = s\<lparr>sl_dc_link := map (\<lambda>b. case b of Some b \<Rightarrow> bf_dc_link b | None \<Rightarrow> None) (boot_fixed_of h)\<rparr>;
             (s, h) = re_read_arm_values Q F (Some st) (s, h);
             o1 = sl_orch s
         in (s\<lparr>sl_orch := o1\<lparr>os_ctl := (os_ctl o1)\<lparr>ct_gains := reconcile (ct_gains (os_ctl o1)) gains_flash\<rparr>\<rparr>\<rparr>, h)))"

section \<open>The steps of the control task before the pipeline\<close>

type_synonym ('f, 'o, 'b) image = "('f, 'o, 'b) shell \<times> motor_hw \<times> schedule"

text \<open>A step over the shell and the words, after the interrupts that run before it.\<close>

definition at_point :: "(('f, 'o, 'b) shell \<times> motor_hw \<Rightarrow> ('f, 'o, 'b) shell \<times> motor_hw) \<Rightarrow> ('f, 'o, 'b) image \<Rightarrow> ('f, 'o, 'b) image" where
  "at_point f x = (case x of (s, hs) \<Rightarrow> (let (h, sch) = preempt hs; (s, h) = f (s, h) in (s, h, sch)))"

definition read_sample :: "('b, 'e) i2c_ops \<Rightarrow> 'f fix_ops \<Rightarrow> bool \<Rightarrow> u32 \<Rightarrow> ('f, 'o, 'b) shell \<Rightarrow> ('f, 'o, 'b) shell \<times> 'f imu_sample option" where
  "read_sample B Fx served now s =
     (if served \<and> imu_read_due (sl_orch s) now then
        case (sl_i2c s, sl_imu s) of
          (Some bus, Some dev) \<Rightarrow>
            (case imu_read B Fx dev bus of (bus, dev, r) \<Rightarrow> (s\<lparr>sl_i2c := Some bus, sl_imu := Some dev\<rparr>, result_ok r))
        | _ \<Rightarrow> (s, None)
      else (s, None))"

definition on_block :: "(block_words \<Rightarrow> block_words) \<Rightarrow> ('f, 'o, 'b) shell \<Rightarrow> ('f, 'o, 'b) shell" where
  "on_block f s = s\<lparr>sl_orch := (sl_orch s)\<lparr>os_block := f (os_block (sl_orch s))\<rparr>\<rparr>"

text \<open>The period liveness, on a run that serves a new tick: the rate over the ticks elapsed.\<close>

definition observe_periods :: "u32 \<Rightarrow> bool \<Rightarrow> ('f, 'o, 'b) shell \<times> motor_hw \<Rightarrow> ('f, 'o, 'b) shell \<times> motor_hw" where
  "observe_periods dt running x =
     (case x of (s, h) \<Rightarrow>
        (let per_tick = (periods0 h - sl_last_periods s) div dt;
             live = periods_live per_tick
         in (s\<lparr>sl_last_periods := periods0 h, sl_period_live := live,
               sl_period_health := period_health_update running live (sl_period_health s)\<rparr>, h)))"

definition fold_motor_fault :: "('f, 'o, 'b) shell \<times> motor_hw \<Rightarrow> ('f, 'o, 'b) shell \<times> motor_hw" where
  "fold_motor_fault x =
     (case x of (s, h) \<Rightarrow>
        (s\<lparr>sl_orch := (sl_orch s)\<lparr>os_motor_fault :=
              fold (\<lambda>w level. level OR motor_fault_level (obs_configured (wd_obs_state w)) (wd_fault w) (ph_loss (sl_period_health s)) (hw_refused h))
                (hw_words h) 0\<rparr>\<rparr>, h))"

definition note_trip :: "motor_hw \<Rightarrow> nat \<Rightarrow> ('f, 'o, 'b) shell \<Rightarrow> ('f, 'o, 'b) shell" where
  "note_trip h m s =
     (let trips = wd_trips (hw_words h ! m)
      in if trips \<noteq> sl_last_trips s ! m
         then s\<lparr>sl_last_trips := (sl_last_trips s)[m := trips], sl_orch := raise_over_current (sl_orch s) m\<rparr> else s)"

definition note_trips :: "('f, 'o, 'b) shell \<times> motor_hw \<Rightarrow> ('f, 'o, 'b) shell \<times> motor_hw" where
  "note_trips x = (case x of (s, h) \<Rightarrow> (fold (note_trip h) [0..<hw_count h] s, h))"

definition note_breaks :: "bool option list \<Rightarrow> ('f, 'o, 'b) shell \<Rightarrow> ('f, 'o, 'b) shell" where
  "note_breaks breaks s =
     fold (\<lambda>(m, b) s. case b of Some level \<Rightarrow> s\<lparr>sl_orch := set_ext_trip (sl_orch s) m level\<rparr> | None \<Rightarrow> s)
       (List.enumerate 0 breaks) s"

definition step_derate :: "motor_hw \<Rightarrow> nat \<Rightarrow> ('f, 'o, 'b) shell \<Rightarrow> ('f, 'o, 'b) shell" where
  "step_derate h m s =
     (case sl_dc_link s ! m of
        None \<Rightarrow> s
      | Some dc \<Rightarrow> (case dc_link_step (wd_dc_link_sum (hw_words h ! m)) dc of
                      (dc, obs) \<Rightarrow> s\<lparr>sl_dc_link := (sl_dc_link s)[m := Some dc], sl_dc_obs := (sl_dc_obs s)[m := obs]\<rparr>))"

definition step_derates :: "('f, 'o, 'b) shell \<times> motor_hw \<Rightarrow> ('f, 'o, 'b) shell \<times> motor_hw" where
  "step_derates x = (case x of (s, h) \<Rightarrow> (fold (step_derate h) [0..<hw_count h] s, h))"

definition read_speeds :: "bool \<Rightarrow> ('f, 'o, 'b) shell \<times> motor_hw \<Rightarrow> ('f, 'o, 'b) shell \<times> motor_hw" where
  "read_speeds running x =
     (case x of (s, h) \<Rightarrow>
        (let moving = list_ex (\<lambda>w. off_inhibit running (sl_period_live s) (wd_speed w)) (hw_words h);
             s = on_block (\<lambda>b. b\<lparr>bw_wheel_speed := map (\<lambda>w. wheel_speed_word (wd_speed w)) (hw_words h)\<rparr>) s
         in (s\<lparr>sl_orch := (sl_orch s)\<lparr>os_motor_moving := moving\<rparr>\<rparr>, h)))"

definition read_rates :: "('f, 'o, 'b) shell \<times> motor_hw \<Rightarrow> ('f, 'o, 'b) shell \<times> motor_hw" where
  "read_rates x = (case x of (s, h) \<Rightarrow> (on_block (\<lambda>b. b\<lparr>bw_wheel_rate_q12 := map wd_wheel_rate (hw_words h)\<rparr>) s, h))"

definition read_position :: "('f, 'o, 'b) shell \<times> motor_hw \<Rightarrow> ('f, 'o, 'b) shell \<times> motor_hw" where
  "read_position x = (case x of (s, h) \<Rightarrow> (on_block (\<lambda>b. b\<lparr>bw_wheel_pos := wd_pos_edges (hw_words h ! 0)\<rparr>) s, h))"

text \<open>The battery count: on the two-motor image the regular conversion, when it has a result.\<close>

definition read_battery :: "u16 option \<Rightarrow> ('f, 'o, 'b) shell \<times> motor_hw \<Rightarrow> ('f, 'o, 'b) shell \<times> motor_hw" where
  "read_battery regular x =
     (case x of (s, h) \<Rightarrow>
        (let h = (case regular of Some raw \<Rightarrow> h\<lparr>hw_vbatt_raw := ucast raw\<rparr> | None \<Rightarrow> h)
         in (s\<lparr>sl_orch := (sl_orch s)\<lparr>os_vbatt_raw := ucast (hw_vbatt_raw h)\<rparr>\<rparr>, h)))"

definition read_windows :: "('f, 'o, 'b) shell \<times> motor_hw \<Rightarrow> ('f, 'o, 'b) shell \<times> motor_hw" where
  "read_windows x =
     (case x of (s, h) \<Rightarrow>
        (s\<lparr>sl_orch := (sl_orch s)\<lparr>os_phase :=
             map (\<lambda>w. \<lparr>pw_peak = unpack_peak (wd_current w), pw_mean = unpack_mean (wd_mean_duty w),
                       pw_duty_on = unpack_duty_on (wd_mean_duty w)\<rparr>) (hw_words h),
           os_odometer := sl_odometer_total s\<rparr>\<rparr>, h))"

section \<open>The control task\<close>

definition stored_leds :: "bool list \<Rightarrow> u8" where
  "stored_leds leds = fold (\<lambda>l m. push_bit 1 m OR of_bool l) (rev leds) 0"

definition indicator_tick :: "(tone_event \<Rightarrow> bytes) \<Rightarrow> u32 \<Rightarrow> ('f, 'o, 'b) shell \<times> motor_hw \<Rightarrow> ('f, 'o, 'b) shell \<times> motor_hw" where
  "indicator_tick tunes dt x =
     (case x of (s, h) \<Rightarrow>
        (let dt_ms = sat32 (unat dt * TONE_TICK_MS);
             inp = \<lparr>ti_word = bw_battery (os_block (sl_orch s)), ti_floor = cd_battery_floor (ct_dispatch (os_ctl (sl_orch s))),
                    ti_warn = sl_warn s, ti_horn = remote_horn (os_inbox (sl_orch s)), ti_stored = stored_leds (sl_leds s)\<rparr>;
             (ind, period, lit, changed) = indicators_tick tunes inp dt_ms (sl_indicators s);
             levels = map (\<lambda>(i, there, lv). if there \<and> changed AND push_bit i 1 \<noteq> 0 then lit AND push_bit i 1 \<noteq> 0 else lv)
                        (List.enumerate 0 (zip (sl_leds s) (sl_led_levels s)))
         in (s\<lparr>sl_indicators := ind, sl_led_levels := levels\<rparr>, h\<lparr>hw_tone_period := period\<rparr>)))"

text \<open>The three tunes of the store, an absent store playing none.\<close>

definition tune_index :: "tone_event \<Rightarrow> nat" where
  "tune_index e = (case e of Horn \<Rightarrow> 0 | BatteryLow \<Rightarrow> 1 | BatteryCritical \<Rightarrow> 2)"

definition TONE :: u8 where "TONE = 0x1F"

definition store_tunes :: "'s flash_ops \<Rightarrow> 's store option \<Rightarrow> tone_event \<Rightarrow> bytes" where
  "store_tunes F st e =
     (case st of
        None \<Rightarrow> []
      | Some st \<Rightarrow> get_bytes F st (at_key TONE (tune_index e))
                    (case field_default TONE (tune_index e) of VBytes bs \<Rightarrow> bs | _ \<Rightarrow> []))"

definition publish_demand :: "nat \<Rightarrow> int \<Rightarrow> ('f, 'o, 'b) shell \<times> motor_hw \<Rightarrow> ('f, 'o, 'b) shell \<times> motor_hw" where
  "publish_demand m demand x =
     (case x of (s, h) \<Rightarrow>
        (let d = (case sl_dc_link s ! m of Some dc \<Rightarrow> dc_scale demand dc | None \<Rightarrow> demand)
         in (s, h\<lparr>hw_demand := (hw_demand h)[m := d]\<rparr>)))"

definition bump_demand_seq :: "('f, 'o, 'b) shell \<times> motor_hw \<Rightarrow> ('f, 'o, 'b) shell \<times> motor_hw" where
  "bump_demand_seq x = (case x of (s, h) \<Rightarrow> (s, h\<lparr>hw_demand_seq := hw_demand_seq h + 1\<rparr>))"

definition publish_demands :: "int list \<Rightarrow> ('f, 'o, 'b) image \<Rightarrow> ('f, 'o, 'b) image" where
  "publish_demands demands x =
     at_point bump_demand_seq (fold (\<lambda>(m, d). at_point (publish_demand m d)) (List.enumerate 0 demands) x)"

definition publish_frames :: "('f, 'o, 'b) shell \<Rightarrow> ('f, 'o, 'b) shell" where
  "publish_frames s =
     (let orch = sl_orch s; blocks = more_motors orch; out = cyclic_tx orch (sl_addressed s)
      in s\<lparr>sl_cyclic_out := out, sl_cyclic_more := (if out \<noteq> None then blocks else sl_cyclic_more s),
           sl_guest := guest_fill (ble_cyclic_tx orch (sl_addressed s)) blocks (ble_peer_tx orch (sl_addressed s)) (sl_guest s)\<rparr>)"

text \<open>What a run of the task takes from outside: the tick count, the two-motor image's battery conversion.\<close>

record task_env =
  te_now :: u32
  te_regular :: "u16 option"

definition control_reads :: "u32 \<Rightarrow> u16 option \<Rightarrow> ('f, 'o, 'b) image \<Rightarrow> ('f, 'o, 'b) image \<times> bool \<times> bool option list" where
  "control_reads dt regular x =
     (let (s, h, sch) = at_point id x;
          state = wd_obs_state (hw_words h ! 0);
          configured = obs_configured state;
          s = on_block (\<lambda>b. b\<lparr>bw_torque_is_current := obs_torque_is_current state\<rparr>) s;
          running = (configured \<and> hw_counter_running h);
          x = (s, h, sch);
          x = (if dt \<noteq> 0 then at_point (observe_periods dt running) x else x);
          x = at_point note_trips (at_point fold_motor_fault x);
          (s, h, sch) = at_point id x;
          breaks = break_flags h;
          x = (note_breaks breaks s, h, sch);
          x = at_point step_derates x;
          x = at_point read_position (at_point read_rates (at_point (read_speeds running) x));
          x = at_point read_windows (at_point (read_battery regular) x)
      in (x, configured, breaks))"

definition control_pass ::
  "('f, 'o) q_ops \<Rightarrow> ('b, 'e) i2c_ops \<Rightarrow> 's flash_ops \<Rightarrow> 's store option \<Rightarrow> task_env \<Rightarrow> ('f, 'o, 'b) image \<Rightarrow> ('f, 'o, 'b) image \<times> control_output" where
  "control_pass Q B F st e x =
     (let (s, hs) = x;
          dt = te_now e - sl_last_tick s;
          s = s\<lparr>sl_last_tick := te_now e\<rparr>;
          (s, smp) = read_sample B (q_fix Q) (dt \<noteq> 0) (te_now e) s;
          (x, configured, breaks) = control_reads dt (te_regular e) (s, hs);
          (s, hs) = x;
          (orch, out) = control_task Q (sl_orch s) smp dt;
          x = (s\<lparr>sl_orch := orch\<rparr>, hs);
          x = (if dt \<noteq> 0 then at_point (indicator_tick (store_tunes F st) dt) x else x);
          x = apfst publish_frames x;
          x = publish_demands (co_torque_setpoint out) x;
          x = enact (re_read_arm_values Q F st) (co_moe out) configured (os_motor_fault (sl_orch (fst x)) \<noteq> 0) x;
          x = (if co_mode_byte out = mode_byte_of Off
               then at_point (apsnd (clear_break_flags (map (\<lambda>b. b \<noteq> None) breaks))) x else x)
      in (x, out))"

section \<open>The input task\<close>

definition input_sample_of :: "u8 \<Rightarrow> input_pins \<Rightarrow> input_sample" where
  "input_sample_of raw p =
     (if ip_group p then
        let a = asserted raw (ip_polarity p)
        in \<lparr>is_button = (ip_button p \<and> a AND 1 \<noteq> 0), is_pad_a = (ip_pad_a p \<and> a AND 2 \<noteq> 0),
            is_pad_b = (ip_pad_b p \<and> a AND 4 \<noteq> 0)\<rparr>
      else \<lparr>is_button = False, is_pad_a = False, is_pad_b = False\<rparr>)"

definition input_pass :: "u8 \<Rightarrow> ('f, 'o, 'b) shell \<Rightarrow> ('f, 'o, 'b) shell" where
  "input_pass raw s = s\<lparr>sl_orch := input_task (sl_orch s) (input_sample_of raw (sl_inputs s))\<rparr>"

section \<open>The service loop\<close>

text \<open>One budgeted drain: at most \<open>budget\<close> successful steps, and the first refusal ends it.\<close>

fun bounded_drain :: "nat \<Rightarrow> ('a \<Rightarrow> 'a \<times> bool) \<Rightarrow> 'a \<Rightarrow> 'a \<times> nat" where
  "bounded_drain 0 step x = (x, 0)"
| "bounded_drain (Suc budget) step x =
     (case step x of
        (x, False) \<Rightarrow> (x, 0)
      | (x, True) \<Rightarrow> (case bounded_drain budget step x of (x, n) \<Rightarrow> (x, n + 1)))"

definition poll_window_elapsed :: "bool \<Rightarrow> u32 option \<Rightarrow> u32 \<Rightarrow> u32 \<Rightarrow> bool \<times> u32 option" where
  "poll_window_elapsed probing start now window =
     (if \<not> probing then (False, None)
      else case start of
             None \<Rightarrow> (False, Some now)
           | Some s \<Rightarrow> if now - s \<ge> window then (True, None) else (False, Some s))"

definition route_tune :: "delivered_pdu \<Rightarrow> responder \<Rightarrow> emission list \<Rightarrow> gain_shadow \<Rightarrow> gain_shadow \<times> emission list" where
  "route_tune d r out g =
     (case decode_tune (dlv_opcode d) (dlv_payload d) of
        None \<Rightarrow> (g, out)
      | Some (k, op) \<Rightarrow>
          (let answer = (\<lambda>g status v. (g, reply_tune r (dlv_src d) k status v out))
           in case op of
                TuneRefuse status \<Rightarrow> answer g status None
              | TuneRead \<Rightarrow> (case shadow_get g (field_id k) (key_index k) of
                               Some v \<Rightarrow> answer g CFG_OK (Some (word_of_int v)) | None \<Rightarrow> answer g CFG_UNKNOWN_KEY None)
              | TuneWrite v \<Rightarrow> (case shadow_set g (field_id k) (key_index k) (sint v) of
                                  (g, Inr u) \<Rightarrow> answer g CFG_OK (Some v)
                                | (g, Inl UnknownTuneKey) \<Rightarrow> answer g CFG_UNKNOWN_KEY None
                                | (g, Inl OutOfRange) \<Rightarrow> answer g CFG_BAD None)))"

definition route_handback :: "delivered_pdu option \<Rightarrow> u8 \<Rightarrow> responder \<Rightarrow> emission list \<Rightarrow> ('f, 'o) board \<Rightarrow> ('f, 'o) board \<times> emission list" where
  "route_handback handed ingress r out s =
     (case handed of
        None \<Rightarrow> (s, out)
      | Some d \<Rightarrow>
          if dlv_opcode d = OP_TUNE_WRITE \<or> dlv_opcode d = OP_TUNE_READ then
            (case route_tune d r out (ct_gains (os_ctl s)) of
               (g, out) \<Rightarrow> (s\<lparr>os_ctl := (os_ctl s)\<lparr>ct_gains := g\<rparr>\<rparr>, out))
          else if \<not> (0x10 \<le> dlv_opcode d \<and> dlv_opcode d \<le> 0x2F) then (s, out)
          else case linkctl_decode (dlv_opcode d) (dlv_payload d) of
                 None \<Rightarrow> (s, out)
               | Some p \<Rightarrow>
                   (let s = (case p of
                               CyclicPayload c \<Rightarrow>
                                 if ingress \<ge> PORT_IDX_LINK0
                                 then s\<lparr>os_machine := hear (os_machine s) (unat (ingress - PORT_IDX_LINK0)) (cs_machine c)\<rparr> else s
                             | _ \<Rightarrow> s)
                    in (s\<lparr>os_inbox := inbox_accept (os_inbox s) (dlv_src d) p\<rparr>, out)))"

text \<open>One received packet: copied into a buffer of \<open>MAX_PDU\<close>, handed to the responder, its hand-back routed. \<open>None\<close> is the panic of the responder.\<close>

definition loop_packet :: "'s flash_ops \<Rightarrow> u8 \<Rightarrow> bytes \<Rightarrow> responder \<times> 's store \<times> ('f, 'o) board \<Rightarrow>
    ((responder \<times> 's store \<times> ('f, 'o) board) \<times> emission list) option" where
  "loop_packet F port frame x =
     (case x of (r, st, s) \<Rightarrow>
        (case rsp_ingest F r st port (take MAX_PDU frame) [] of
           None \<Rightarrow> None
         | Some (r, st, out, handed) \<Rightarrow>
             (case route_handback handed port r out s of (s, out) \<Rightarrow> Some ((r, st, s), out))))"

definition on_config_persisted :: "'s flash_ops \<Rightarrow> 's store \<Rightarrow> responder \<times> ('f, 'o) board \<Rightarrow> responder \<times> ('f, 'o) board" where
  "on_config_persisted F st x =
     (case take_config_persisted (fst x) of
        (r, False) \<Rightarrow> (r, snd x)
      | (r, True) \<Rightarrow>
          (let s = snd x;
               s = s\<lparr>os_ctl := (os_ctl s)\<lparr>ct_gains := reconcile (ct_gains (os_ctl s)) (read_gains F st)\<rparr>\<rparr>
           in (r, s\<lparr>os_machine := machine_persisted (os_machine s) (digests_of F st)\<rparr>)))"

text \<open>The write of a total: a full log is compacted and the write tried once more.\<close>

definition write_total :: "'s flash_ops \<Rightarrow> u32 \<Rightarrow> 's store \<Rightarrow> 's store \<times> bool" where
  "write_total F v st =
     (case set_scalar F st (at_key MOTOR_ODOMETER_ID 0) (VU32 v) of
        (st, Inr u) \<Rightarrow> (st, True)
      | (st, Inl e) \<Rightarrow>
          if e = store_error.Full then
            (case Store.compact F st of
               (st, Inl e) \<Rightarrow> (st, False)
             | (st, Inr u) \<Rightarrow> (case set_scalar F st (at_key MOTOR_ODOMETER_ID 0) (VU32 v) of (st, r) \<Rightarrow> (st, r = Inr ())))
          else (st, False))"

definition odometer_pass :: "'s flash_ops \<Rightarrow> u32 \<Rightarrow> bool \<Rightarrow> bool \<Rightarrow> odometer \<times> 's store option \<Rightarrow> odometer \<times> 's store option" where
  "odometer_pass F edges armed at_rest x =
     (let d = odometer_fold edges armed (fst x)
      in case odometer_due armed at_rest d of
           None \<Rightarrow> (d, snd x)
         | Some v \<Rightarrow>
             (case snd x of
                None \<Rightarrow> (odometer_settled v False d, None)
              | Some st \<Rightarrow> (case write_total F v st of (st, stored) \<Rightarrow> (odometer_settled v stored d, Some st))))"

text \<open>The facts a pass samples before the tasks run: the address, the arm fact and whether the wheel rests.\<close>

definition sample_facts :: "responder \<times> ('f, 'o, 'b) shell \<Rightarrow> (responder \<times> ('f, 'o, 'b) shell) \<times> bool \<times> bool" where
  "sample_facts x =
     (case x of (r, s) \<Rightarrow>
        (let s = s\<lparr>sl_addressed := (rsp_addr r \<noteq> NO_ADDRESS)\<rparr>;
             armed = any_moe_allowed (os_mode (sl_orch s));
             at_rest = (\<not> os_motor_moving (sl_orch s))
         in ((set_armed r armed, s), armed, at_rest)))"

section \<open>The frames the loop sends\<close>

definition encode_cyclic :: "cyclic_state \<Rightarrow> cyclic_motor list \<Rightarrow> bytes" where
  "encode_cyclic base blocks = cyclic_bytes base @ concat (map motor_bytes blocks)"

definition sample_pdu :: "u8 \<Rightarrow> cyclic_state \<Rightarrow> cyclic_motor list \<Rightarrow> nat \<Rightarrow> bytes option" where
  "sample_pdu src st blocks cap =
     (case pdu_new OP_CYCLIC_STATE src NO_ADDRESS (encode_cyclic st blocks) of
        Inl e \<Rightarrow> None | Inr p \<Rightarrow> (case pdu_encode p cap of Inl e \<Rightarrow> None | Inr bs \<Rightarrow> Some bs))"

definition guest_bump :: "u32 \<Rightarrow> bool \<Rightarrow> u32" where
  "guest_bump w forward =
     (let shift = (if forward then 16 else 0); half = (ucast ((ucast (drop_bit shift w) :: u16) + 1) :: u32)
      in (w AND NOT (push_bit shift 0xFFFF)) OR push_bit shift half)"

text \<open>The pass's own frame, one PDU for every link that came up.\<close>

definition loop_emission :: "u8 \<Rightarrow> ('f, 'o, 'b) shell \<Rightarrow> ('f, 'o, 'b) shell \<times> bytes option" where
  "loop_emission addr s =
     (case sl_cyclic_out s of
        None \<Rightarrow> (s, None)
      | Some c \<Rightarrow> (s\<lparr>sl_cyclic_out := None\<rparr>, sample_pdu addr c (sl_cyclic_more s) MAX_PDU))"

text \<open>The mailbox samples: both slots are emptied, and what leaves them is offered only when a consumer is attached;
  \<open>send\<close> is the mailbox link, which takes or refuses a whole frame.\<close>

definition mailbox_offer :: "('m \<Rightarrow> bytes \<Rightarrow> 'm \<times> bool) \<Rightarrow> bytes option \<Rightarrow> bool \<Rightarrow> 'm \<times> u32 \<Rightarrow> 'm \<times> u32" where
  "mailbox_offer send frame forward x =
     (case frame of
        None \<Rightarrow> x
      | Some bs \<Rightarrow> (case send (fst x) bs of (mb, ok) \<Rightarrow> (mb, if ok then guest_bump (snd x) forward else snd x)))"

definition emit_mailbox_samples :: "('m \<Rightarrow> bytes \<Rightarrow> 'm \<times> bool) \<Rightarrow> bool \<Rightarrow> u8 \<Rightarrow> guest_slots \<times> 'm \<times> u32 \<Rightarrow> guest_slots \<times> 'm \<times> u32" where
  "emit_mailbox_samples send consumer addr x =
     (case x of (g, mb) \<Rightarrow>
        (let own = gs_own g; peer = gs_peer g; g = g\<lparr>gs_own := None, gs_peer := None\<rparr>
         in if \<not> consumer then (g, mb)
            else
              let mb = (case own of Some c \<Rightarrow> mailbox_offer send (sample_pdu addr c (gs_own_more g) MAX_PDU) False mb | None \<Rightarrow> mb);
                  mb = (case peer of Some (src, c) \<Rightarrow> mailbox_offer send (sample_pdu src c [] MAX_PDU) True mb | None \<Rightarrow> mb)
              in (g, mb)))"

section \<open>The boot's attempts at the IMU\<close>

datatype 'e imu_attempts = ImuUp nat | ImuDown | ClearFailed 'e

definition attempts_run :: "('b \<Rightarrow> 'b \<times> bool) \<Rightarrow> ('b \<Rightarrow> 'b \<times> 'e option) \<Rightarrow> 'b \<Rightarrow> 'b \<times> 'e imu_attempts" where
  "attempts_run attempt clear bus =
     (case attempt bus of
        (bus, True) \<Rightarrow> (bus, ImuUp 0)
      | (bus, False) \<Rightarrow>
          (case clear bus of
             (bus, Some e) \<Rightarrow> (bus, ClearFailed e)
           | (bus, None) \<Rightarrow> (case attempt bus of (bus, True) \<Rightarrow> (bus, ImuUp 1) | (bus, False) \<Rightarrow> (bus, ImuDown))))"

definition attempts_retries :: "'e imu_attempts \<Rightarrow> nat" where
  "attempts_retries a = (case a of ImuUp n \<Rightarrow> n | _ \<Rightarrow> 2)"

definition attempts_detail :: "('e \<Rightarrow> u8) \<Rightarrow> 'e imu_attempts \<Rightarrow> u8 option" where
  "attempts_detail code a = (case a of ImuUp n \<Rightarrow> None | ImuDown \<Rightarrow> Some 0 | ClearFailed e \<Rightarrow> Some (code e))"

end
