(* ===== verification/MotorProps.thy ===== *)
theory MotorProps
  imports Motor FocLoopProps
begin

unbundle bit_operations_syntax

text \<open>
  What the period interrupt does to the bridge and what the guards of a motor guarantee.
\<close>

section \<open>One period\<close>

lemma timer_frame [simp]:
  "pw_moe (set_channel_outputs en t) = pw_moe t" "pw_break_flag (set_channel_outputs en t) = pw_break_flag t"
  "pw_outputs (set_channel_outputs en t) = en" "pw_duties (set_channel_outputs en t) = pw_duties t"
  "pw_moe (rearm_trigger x t) = pw_moe t" "pw_break_flag (rearm_trigger x t) = pw_break_flag t"
  "pw_outputs (rearm_trigger x t) = pw_outputs t" "pw_duties (rearm_trigger x t) = pw_duties t"
  by (simp_all add: set_channel_outputs_def rearm_trigger_def)

lemma set_duties_Some: "\<forall>d \<in> set duties. d \<le> ARR \<Longrightarrow> set_duties duties t = Some (t\<lparr>pw_duties := duties\<rparr>)"
  by (auto simp: set_duties_def not_less)

lemma bridge_coast: "bridge_writes True stale duties enables m t =
    (m\<lparr>mr_faults := mr_faults m OR (if stale then FAULT_DEMAND_STALE else 0)\<rparr>, set_channel_outputs [False, False, False] t, [False, False, False])"
  by (simp add: bridge_writes_def)

lemma bridge_drive: "\<forall>d \<in> set duties. d \<le> ARR \<Longrightarrow> bridge_writes False stale duties enables m t =
    (m, set_channel_outputs enables (t\<lparr>pw_duties := duties\<rparr>), enables)"
  by (simp add: bridge_writes_def set_duties_Some)

lemma commutate_duties:
  "period_commutate n e coast pair held m = (m', duties, enables) \<Longrightarrow> \<forall>d \<in> set duties. d \<le> ARR"
  using commutator_duties [of "pe_gains e" "pe_shift e" "hall_levels (pe_code e)" pair "pe_demand e" "\<not> coast" held "mr_commutator m"]
  by (auto simp: period_commutate_def Let_def split: prod.splits)

lemma freshness_frame [simp]:
  "mr_faults (period_freshness x m) = mr_faults m" "mr_current (period_freshness x m) = mr_current m"
  "mr_base_flags (period_freshness x m) = mr_base_flags m" "mr_periods (period_freshness x m) = mr_periods m"
  by (simp_all add: period_freshness_def)

lemma currents_frame:
  assumes "period_currents n raw armed m = (m1, r)"
  shows "mr_faults m1 = mr_faults m" "mr_base_flags m1 = mr_base_flags m" "mr_periods m1 = mr_periods m"
  using assms by (auto simp: period_currents_def Let_def split: prod.splits)

lemma current_step_chop: "cv_chop (snd (current_step ia ib c)) = (\<not> phase_magnitude ia ib \<le> cu_limit c)"
  by (simp add: current_step_def Let_def)

lemma currents_verdict:
  assumes "period_currents n raw armed m = (m1, pair, held, v)" "rd = sensed_readings (mr_low_side m) armed (mr_sample_enables m) (mr_bc m)"
  shows "cv_chop v \<longleftrightarrow> (fst rd \<or> snd rd) \<and> \<not> phase_magnitude (fst pair) (snd pair) \<le> cu_limit (mr_current m)"
proof -
  have "v = (if fst rd \<or> snd rd then snd (current_step (fst pair) (snd pair) (mr_current m)) else current_pass)"
    using assms(1) unfolding period_currents_def Let_def assms(2) [symmetric]
    by (simp split: prod.splits if_splits)
  then show ?thesis by (simp add: current_step_chop current_pass_def)
qed

lemma begin_verdict:
  "period_begin n e armed m = (m1, pair, held, v) \<Longrightarrow> \<exists>m2. period_currents n (pe_raw e) armed m = (m2, pair, held, v)"
  by (auto simp: period_begin_def Let_def split: prod.splits)

lemma begin_frame:
  assumes "period_begin n e armed m = (m1, pair, held, v)"
  shows "mr_faults m1 = mr_faults m" "mr_base_flags m1 = mr_base_flags m" "mr_periods m1 = mr_periods m"
  using assms currents_frame [of n "pe_raw e" armed m] by (auto simp: period_begin_def Let_def split: prod.splits if_splits)

lemma commutate_frame:
  assumes "period_commutate n e coast pair held m = (m', duties, enables)"
  shows "mr_faults m' = mr_faults m" "mr_base_flags m' = mr_base_flags m" "mr_since_demand m' = mr_since_demand m" "mr_periods m' = mr_periods m"
  using assms by (auto simp: period_commutate_def Let_def split: prod.splits)

lemma bridge_frame:
  assumes "bridge_writes coast stale duties enables m t = (m', t', applied)"
  shows "mr_base_flags m' = mr_base_flags m" "mr_since_demand m' = mr_since_demand m" "mr_periods m' = mr_periods m"
    and "pw_moe t' = pw_moe t" "pw_break_flag t' = pw_break_flag t"
  using assms by (auto simp: bridge_writes_def set_duties_def split: if_splits option.splits)

lemma bridge_result:
  assumes "bridge_writes coast stale duties enables m t = (m', t', applied)" "\<forall>d \<in> set duties. d \<le> ARR"
  shows "mr_faults m' = mr_faults m OR (if coast \<and> stale then FAULT_DEMAND_STALE else 0)"
    and "if coast then pw_outputs t' = [False, False, False] \<and> pw_duties t' = pw_duties t else pw_duties t' = duties"
  using assms by (cases coast; auto simp: bridge_coast bridge_drive)+

lemma window_frame:
  assumes "window_close duties applied m w = (m', w')"
  shows "mr_faults m' = mr_faults m" "mr_base_flags m' = mr_base_flags m" "mr_since_demand m' = mr_since_demand m"
    and "mr_periods m' = mr_periods m" "wd_periods w' = wd_periods w"
  using assms by (auto simp: window_close_def Let_def split: prod.splits if_splits)

lemma publish_frame:
  assumes "publish_period duties applied stale m w = (m', w')"
  shows "mr_base_flags m' = mr_base_flags m" "mr_since_demand m' = mr_since_demand m" "mr_periods m' = mr_periods m"
    and "wd_periods w' = wd_periods w" "mr_faults m' = mr_faults m OR (if cm_hall_fault (fe_comm (co_front (mr_commutator m))) then FAULT_HALL else 0)"
  using assms by (auto simp: publish_period_def Let_def)

text \<open>The published state word says configured whenever the motor's own flags do.\<close>

lemma obs_configured_bit: "obs_configured w \<longleftrightarrow> bit w 24"
  using and_exp_eq_0_iff_not_bit [of w 24] by (simp add: obs_configured_def OBS_CONFIGURED_def)

lemma pack_configured: "bit flags 0 \<Longrightarrow> obs_configured (pack_obs_state code en me flags)"
  by (simp add: obs_configured_bit pack_obs_state_def Let_def bit_simps)

lemma publish_configured:
  "publish_period duties applied stale m w = (m', w') \<Longrightarrow> bit (mr_base_flags m) 0 \<Longrightarrow> obs_configured (wd_obs_state w')"
  by (auto simp: publish_period_def Let_def pack_configured bit_or_iff)

lemma end_frame:
  assumes "period_end duties applied stale m w = (m', w')"
  shows "mr_base_flags m' = mr_base_flags m" "mr_since_demand m' = mr_since_demand m"
    and "mr_periods m' = mr_periods m + 1" "wd_periods w' = mr_periods m + 1"
    and "\<exists>f \<in> {0, FAULT_HALL}. mr_faults m' = mr_faults m OR f" "bit (mr_base_flags m) 0 \<Longrightarrow> obs_configured (wd_obs_state w')"
proof -
  let ?m = "m\<lparr>mr_sample_enables := applied, mr_periods := mr_periods m + 1\<rparr>"
  let ?w = "w\<lparr>wd_periods := mr_periods ?m\<rparr>"
  obtain m1 w1 where w: "(if unat (mr_periods ?m) mod PERIODS_PER_TICK_NOMINAL = 0 then window_close duties applied ?m ?w else (?m, ?w)) = (m1, w1)"
    by (metis surj_pair)
  have f: "mr_faults m1 = mr_faults m" "mr_base_flags m1 = mr_base_flags m" "mr_since_demand m1 = mr_since_demand m"
    "mr_periods m1 = mr_periods m + 1" "wd_periods w1 = mr_periods m + 1"
    using w window_frame [of duties applied ?m ?w m1 w1] by (auto split: if_splits)
  have p: "publish_period duties applied stale m1 w1 = (m', w')"
    using assms w by (simp only: period_end_def Let_def prod.case)
  show "mr_base_flags m' = mr_base_flags m" "mr_since_demand m' = mr_since_demand m"
    "mr_periods m' = mr_periods m + 1" "wd_periods w' = mr_periods m + 1" "\<exists>f \<in> {0, FAULT_HALL}. mr_faults m' = mr_faults m OR f"
    using publish_frame [OF p] f by simp_all
  show "obs_configured (wd_obs_state w')" if "bit (mr_base_flags m) 0" using publish_configured [OF p] f that by simp
qed

text \<open>What a period leaves: the posture decides the timer, and only the stale and the hall bit can join the fault word.\<close>

lemma motor_period_steps:
  assumes "period_begin n e armed m = (m1, pair, held, v)" "motor_period n i e armed m t w = (m', t', w')"
    and coast: "coast = coast_posture armed (demand_stale (mr_since_demand m1)) (cv_chop v)"
  shows "pw_moe t' = pw_moe t" "pw_break_flag t' = pw_break_flag t" "mr_since_demand m' = mr_since_demand m1"
    and "mr_base_flags m' = mr_base_flags m" "mr_periods m' = mr_periods m + 1" "wd_periods w' = mr_periods m + 1"
    and "if coast then pw_outputs t' = [False, False, False] \<and> pw_duties t' = pw_duties t else \<forall>d \<in> set (pw_duties t'). d \<le> ARR"
    and "\<exists>f \<in> {0, FAULT_HALL}. \<exists>g \<in> {0, FAULT_DEMAND_STALE}. mr_faults m' = (mr_faults m OR g) OR f"
    and "bit (mr_base_flags m) 0 \<Longrightarrow> obs_configured (wd_obs_state w')"
proof -
  let ?stale = "demand_stale (mr_since_demand m1)"
  let ?m2 = "m1\<lparr>mr_coasted := mr_coasted m1 + of_bool coast, mr_causes := mr_causes m1 OR coast_causes armed ?stale (cv_chop v)\<rparr>"
  let ?w2 = "if cv_trip v then w\<lparr>wd_trips := cu_trips (mr_current m1)\<rparr> else w"
  obtain m3 duties enables where c: "period_commutate n e coast pair held ?m2 = (m3, duties, enables)"
    by (cases "period_commutate n e coast pair held ?m2") auto
  obtain m4 t4 applied where b: "bridge_writes coast ?stale duties enables m3 t = (m4, t4, applied)"
    by (cases "bridge_writes coast ?stale duties enables m3 t") auto
  obtain m5 w5 where p: "period_end duties applied ?stale m4 ?w2 = (m5, w5)"
    by (cases "period_end duties applied ?stale m4 ?w2") auto
  have "motor_period n i e armed m t w = (m5, if i = 0 then rearm_trigger TRIGGER_COMPARE t4 else t4, w5)"
    by (simp only: motor_period_def assms(1) Let_def prod.case coast [symmetric] c b p)
  then have r: "m' = m5" "w' = w5" "t' = (if i = 0 then rearm_trigger TRIGGER_COMPARE t4 else t4)"
    using assms(2) by simp_all
  note f = begin_frame [OF assms(1)] commutate_frame [OF c] bridge_frame [OF b] end_frame [OF p]
  show "pw_moe t' = pw_moe t" "pw_break_flag t' = pw_break_flag t" "mr_since_demand m' = mr_since_demand m1"
    "mr_base_flags m' = mr_base_flags m" "mr_periods m' = mr_periods m + 1" "wd_periods w' = mr_periods m + 1"
    using f by (simp_all add: r)
  show "obs_configured (wd_obs_state w')" if "bit (mr_base_flags m) 0" using f that by (simp add: r)
  note d = commutate_duties [OF c]
  note g = bridge_result [OF b d]
  show "if coast then pw_outputs t' = [False, False, False] \<and> pw_duties t' = pw_duties t else \<forall>d \<in> set (pw_duties t'). d \<le> ARR"
    using g(2) d by (auto simp: r split: if_splits)
  have "mr_faults m4 = mr_faults m OR (if coast \<and> ?stale then FAULT_DEMAND_STALE else 0)"
    using g(1) commutate_frame(1) [OF c] begin_frame(1) [OF assms(1)] by simp
  moreover obtain x where "x \<in> {0, FAULT_HALL}" "mr_faults m' = mr_faults m4 OR x" using end_frame(5) [OF p] r by blast
  ultimately show "\<exists>f \<in> {0, FAULT_HALL}. \<exists>g \<in> {0, FAULT_DEMAND_STALE}. mr_faults m' = (mr_faults m OR g) OR f"
    by (intro bexI [of _ x] bexI [of _ "if coast \<and> ?stale then FAULT_DEMAND_STALE else 0"]) auto
qed

text \<open>C10: What a period of the interrupt may leave driven. Whatever the samples, the hall code, the words of the 250 Hz task,
  the knobs and the motor's state: if any of the three legs is enabled after the period, the bridge was armed, the demand
  word was written afresh within the last 256 periods, and the phase magnitude the limit was handed, if a
  phase was read, was within the limit. No compare register the period writes exceeds the period's 2250, so the fault of a refused duty can never be raised,
  and the interrupt never touches the main output enable.\<close>

theorem period_posture:
  assumes "motor_period n i e armed m t w = (m', t', w')" "period_begin n e armed m = (m1, pair, held, v)"
  shows "(True \<in> set (pw_outputs t') \<longrightarrow>
       armed \<and> mr_since_demand m' \<le> 256 \<and>
       (let rd = sensed_readings (mr_low_side m) armed (mr_sample_enables m) (mr_bc m)
        in fst rd \<or> snd rd \<longrightarrow> phase_magnitude (fst pair) (snd pair) \<le> cu_limit (mr_current m))) \<and>
    (pw_duties t' = pw_duties t \<or> (\<forall>d \<in> set (pw_duties t'). d \<le> ARR)) \<and>
    mr_faults m' AND FAULT_DUTY_RANGE = mr_faults m AND FAULT_DUTY_RANGE \<and> pw_moe t' = pw_moe t"
proof -
  let ?coast = "coast_posture armed (demand_stale (mr_since_demand m1)) (cv_chop v)"
  note st = motor_period_steps [OF assms(2,1) refl]
  obtain m2 where "period_currents n (pe_raw e) armed m = (m2, pair, held, v)" using begin_verdict [OF assms(2)] by blast
  note chop = currents_verdict [OF this refl]
  have "armed \<and> mr_since_demand m1 \<le> 256 \<and> \<not> cv_chop v" if "True \<in> set (pw_outputs t')"
    using st(7) that by (auto simp: coast_posture_def demand_stale_def DEMAND_STALE_PERIODS_def split: if_splits)
  moreover have "mr_faults m' AND FAULT_DUTY_RANGE = mr_faults m AND FAULT_DUTY_RANGE"
  proof -
    obtain f g where "f \<in> {0, FAULT_HALL}" "g \<in> {0, FAULT_DEMAND_STALE}" "mr_faults m' = (mr_faults m OR g) OR f" using st(8) by blast
    moreover have "FAULT_HALL AND FAULT_DUTY_RANGE = 0" "FAULT_DEMAND_STALE AND FAULT_DUTY_RANGE = 0"
      by (simp_all add: FAULT_HALL_def FAULT_DUTY_RANGE_def FAULT_DEMAND_STALE_def)
    ultimately show ?thesis by (auto simp: bit.conj_disj_distrib2)
  qed
  moreover have "pw_duties t' = pw_duties t \<or> (\<forall>d \<in> set (pw_duties t'). d \<le> ARR)" using st(7) by (auto split: if_splits)
  ultimately show ?thesis unfolding Let_def st(3) using st(1) chop by blast
qed

text \<open>A disarmed period drives nothing, whatever it reads.\<close>

lemma period_posture_witness:
  "\<forall>m t w e. True \<notin> set (pw_outputs (fst (snd (motor_period 2 1 e False m t w))))"
proof (intro allI)
  fix m t w e
  obtain m' t' w' where p: "motor_period 2 1 e False m t w = (m', t', w')" by (metis surj_pair)
  obtain m1 pair held v where "period_begin 2 e False m = (m1, pair, held, v)" by (metis surj_pair)
  from period_posture [OF p this] show "True \<notin> set (pw_outputs (fst (snd (motor_period 2 1 e False m t w))))" unfolding p by simp
qed

section \<open>The interrupt and the shared words\<close>

definition moes :: "motor_hw \<Rightarrow> bool list" where
  "moes h = map pw_moe (hw_timers h)"

definition break_bits :: "motor_hw \<Rightarrow> bool list" where
  "break_bits h = map pw_break_flag (hw_timers h)"

text \<open>The statics the interrupt only reads, and the parts of the timers it never writes.\<close>

definition same_shared :: "motor_hw \<Rightarrow> motor_hw \<Rightarrow> bool" where
  "same_shared g h \<longleftrightarrow>
     hw_gates g = hw_gates h \<and> hw_timer_set g = hw_timer_set h \<and> hw_break_enabled g = hw_break_enabled h \<and>
     hw_demand g = hw_demand h \<and> hw_demand_seq g = hw_demand_seq h \<and> hw_armed g = hw_armed h \<and> hw_refused g = hw_refused h \<and>
     hw_refusal_obs g = hw_refusal_obs h \<and> hw_tone_period g = hw_tone_period h \<and> hw_counter_running g = hw_counter_running h \<and>
     hw_hold_compare g = hw_hold_compare h \<and>
     moes g = moes h \<and> break_bits g = break_bits h \<and> hw_count g = hw_count h \<and> length (hw_words g) = length (hw_words h) \<and>
     map (map_option mr_base_flags) (hw_motors g) = map (map_option mr_base_flags) (hw_motors h)"

lemma same_shared_refl [simp]: "same_shared h h" by (simp add: same_shared_def)

lemma same_shared_trans: "same_shared f g \<Longrightarrow> same_shared g h \<Longrightarrow> same_shared f h" by (simp add: same_shared_def)

lemma map_update_same: "f y = f (xs ! i) \<Longrightarrow> map f (xs[i := y]) = map f xs"
  by (metis list_update_beyond list_update_same_conv map_update not_le nth_map length_map)

lemma isr_motor_shared: "same_shared (isr_motor e armed i h) h"
proof (cases "hw_motors h ! i")
  case None
  then show ?thesis by (simp add: isr_motor_def)
next
  case (Some m)
  obtain m' t' w' where p: "motor_period (hw_count h) i (period_env_of e h i) armed m (hw_timers h ! i) (hw_words h ! i) = (m', t', w')"
    by (metis surj_pair)
  obtain m1 pair held v where b: "period_begin (hw_count h) (period_env_of e h i) armed m = (m1, pair, held, v)" by (metis surj_pair)
  note st = motor_period_steps [OF b p refl]
  have "map pw_moe ((hw_timers h)[i := t']) = map pw_moe (hw_timers h)" by (rule map_update_same) (rule st(1))
  moreover have "map pw_break_flag ((hw_timers h)[i := t']) = map pw_break_flag (hw_timers h)" by (rule map_update_same) (rule st(2))
  moreover have "map (map_option mr_base_flags) ((hw_motors h)[i := Some m']) = map (map_option mr_base_flags) (hw_motors h)"
    by (rule map_update_same) (simp add: Some st(4))
  moreover have "isr_motor e armed i h =
      h\<lparr>hw_motors := (hw_motors h)[i := Some m'], hw_timers := (hw_timers h)[i := t'], hw_words := (hw_words h)[i := w']\<rparr>"
    by (simp add: isr_motor_def Some p)
  ultimately show ?thesis by (simp add: same_shared_def moes_def break_bits_def hw_count_def)
qed

lemma isr_tone_shared: "same_shared (isr_tone h) h"
proof (cases "hw_motors h ! 0")
  case (Some m)
  obtain tn level where t: "tone_pass (hw_tone_period h) (mr_tone m) = (tn, level)" by (metis surj_pair)
  have "map (map_option mr_base_flags) ((hw_motors h)[0 := Some (m\<lparr>mr_tone := tn\<rparr>)]) = map (map_option mr_base_flags) (hw_motors h)"
    by (rule map_update_same) (simp add: Some)
  then show ?thesis
    by (cases level) (simp_all add: isr_tone_def Some t same_shared_def moes_def break_bits_def hw_count_def Let_def)
qed (simp add: isr_tone_def)

lemma isr_fold_shared: "same_shared (fold (isr_motor e armed) is h) h"
  by (induction "is" arbitrary: h) (auto intro: same_shared_trans isr_motor_shared)

lemma period_isr_shared: "same_shared (period_isr e h) h"
proof (cases "hw_motors h ! 0")
  case (Some m)
  let ?a = "period_armed (hw_armed h) (isr_broken h)"
  let ?h = "if hw_count h = 1 then h\<lparr>hw_vbatt_raw := ucast (drop_bit 3 (ie_samples e ! 2))\<rparr> else h"
  have "same_shared ?h h" by (simp add: same_shared_def moes_def break_bits_def hw_count_def)
  moreover have "period_isr e h = isr_tone (fold (isr_motor e ?a) [0..<hw_count ?h] ?h)"
    by (simp only: period_isr_def Some Let_def option.case)
  ultimately show ?thesis by (simp only: same_shared_trans [OF isr_tone_shared same_shared_trans [OF isr_fold_shared]])
qed (simp add: period_isr_def)

lemma period_isrs_shared: "same_shared (fold period_isr es h) h"
  by (induction es arbitrary: h) (auto intro: same_shared_trans period_isr_shared)

section \<open>The words a motor's bring-up vouches for\<close>

text \<open>A motor in place is a configured one, and the word of an empty slot says it is not.\<close>

definition wired_slot :: "motor_runtime option \<Rightarrow> motor_words \<Rightarrow> bool" where
  "wired_slot slot w = (case slot of None \<Rightarrow> \<not> obs_configured (wd_obs_state w) | Some m \<Rightarrow> bit (mr_base_flags m) 0)"

definition wired :: "motor_hw \<Rightarrow> bool" where
  "wired h \<longleftrightarrow> length (hw_words h) = hw_count h \<and> (\<forall>i < hw_count h. wired_slot (hw_motors h ! i) (hw_words h ! i))"

text \<open>What the words said of a motor, they still say.\<close>

definition keeps_configured :: "motor_hw \<Rightarrow> motor_hw \<Rightarrow> bool" where
  "keeps_configured h h' \<longleftrightarrow>
     wired h' \<and> hw_count h' = hw_count h \<and>
     (\<forall>i < hw_count h. obs_configured (wd_obs_state (hw_words h ! i)) \<longrightarrow> obs_configured (wd_obs_state (hw_words h' ! i)))"

lemma keeps_configured_trans: "keeps_configured f g \<Longrightarrow> keeps_configured g h \<Longrightarrow> keeps_configured f h"
  by (simp add: keeps_configured_def)

lemma isr_motor_wired:
  assumes "wired h" "i < hw_count h"
  shows "keeps_configured h (isr_motor e armed i h)"
proof (cases "hw_motors h ! i")
  case None
  then show ?thesis using assms by (simp add: isr_motor_def keeps_configured_def)
next
  case (Some m)
  obtain m' t' w' where p: "motor_period (hw_count h) i (period_env_of e h i) armed m (hw_timers h ! i) (hw_words h ! i) = (m', t', w')"
    by (metis surj_pair)
  obtain m1 pair held v where b: "period_begin (hw_count h) (period_env_of e h i) armed m = (m1, pair, held, v)" by (metis surj_pair)
  note st = motor_period_steps [OF b p refl]
  have base: "bit (mr_base_flags m) 0" using assms Some by (auto simp: wired_def wired_slot_def)
  have eq: "isr_motor e armed i h =
      h\<lparr>hw_motors := (hw_motors h)[i := Some m'], hw_timers := (hw_timers h)[i := t'], hw_words := (hw_words h)[i := w']\<rparr>"
    by (simp add: isr_motor_def Some p)
  show ?thesis using assms st(4,9) base
    by (auto simp: keeps_configured_def wired_def wired_slot_def eq hw_count_def nth_list_update)
qed

lemma isr_fold_wired:
  "wired h \<Longrightarrow> \<forall>i \<in> set is. i < hw_count h \<Longrightarrow> keeps_configured h (fold (isr_motor e armed) is h)"
proof (induction "is" arbitrary: h)
  case (Cons i "is")
  have "keeps_configured h (isr_motor e armed i h)" using isr_motor_wired Cons.prems by simp
  then show ?case using Cons.IH [of "isr_motor e armed i h"] Cons.prems by (auto simp: keeps_configured_def)
qed (simp add: keeps_configured_def)

lemma isr_tone_wired:
  assumes "wired h" "0 < hw_count h"
  shows "keeps_configured h (isr_tone h)"
proof (cases "hw_motors h ! 0")
  case (Some m)
  obtain tn level where t: "tone_pass (hw_tone_period h) (mr_tone m) = (tn, level)" by (metis surj_pair)
  let ?ms = "(hw_motors h)[0 := Some (m\<lparr>mr_tone := tn\<rparr>)]"
  have ms: "hw_motors (isr_tone h) = ?ms" "hw_words (isr_tone h) = hw_words h"
    by (cases level; simp add: isr_tone_def Some t Let_def)+
  have "wired_slot (?ms ! i) (hw_words h ! i)" if "i < hw_count h" for i
    using assms that Some by (cases "i = 0") (auto simp: wired_def wired_slot_def hw_count_def)
  then show ?thesis using assms by (simp add: keeps_configured_def wired_def hw_count_def ms)
qed (simp add: isr_tone_def keeps_configured_def assms)

lemma period_isr_wired:
  assumes "wired h"
  shows "keeps_configured h (period_isr e h)"
proof (cases "hw_motors h ! 0")
  case (Some m)
  let ?a = "period_armed (hw_armed h) (isr_broken h)"
  let ?h = "if hw_count h = 1 then h\<lparr>hw_vbatt_raw := ucast (drop_bit 3 (ie_samples e ! 2))\<rparr> else h"
  let ?f = "fold (isr_motor e ?a) [0..<hw_count ?h] ?h"
  have h: "keeps_configured h ?h" using assms by (simp add: keeps_configured_def wired_def hw_count_def)
  have f: "keeps_configured ?h ?f" by (rule isr_fold_wired) (use h in \<open>simp_all add: keeps_configured_def\<close>)
  have "keeps_configured ?f (isr_tone ?f)" if "0 < hw_count h"
    by (rule isr_tone_wired) (use f h that in \<open>simp_all add: keeps_configured_def\<close>)
  moreover have "period_isr e h = isr_tone ?f"
    by (simp only: period_isr_def Some Let_def option.case)
  moreover have "keeps_configured h (period_isr e h)" if "hw_count h = 0"
    using period_isr_shared [of e h] assms that by (simp add: same_shared_def keeps_configured_def wired_def)
  ultimately show ?thesis using keeps_configured_trans [OF keeps_configured_trans [OF h f]] by (cases "hw_count h = 0") auto
qed (simp add: period_isr_def keeps_configured_def assms)

lemma period_isrs_wired: "wired h \<Longrightarrow> keeps_configured h (fold period_isr es h)"
proof (induction es arbitrary: h)
  case (Cons e es)
  then show ?case using period_isr_wired [OF Cons.prems, of e] keeps_configured_trans by (auto simp: keeps_configured_def)
qed (simp add: keeps_configured_def)

end
