(* ===== verification/ArmProps.thy ===== *)
theory ArmProps
  imports Arm StoreProps MotorProps
begin

unbundle bit_operations_syntax

text \<open>
  What the arming layer guarantees: the value row is what the store's own \<open>get\<close> answers key by key, and over every
  schedule of period interrupts an arm opens only the gates it is allowed, refuses when the interrupt is dead, and a
  shutdown leaves no gate open, no demand and no driven channel.
\<close>

section \<open>The value row\<close>

lemma get_scalar_contents:
  "get_scalar F st k kind dflt = (case contents F st k of None \<Rightarrow> dflt | Some (tag, bs) \<Rightarrow> scalar_or_default kind dflt tag bs)"
proof (cases "find_latest F st k")
  case None
  then show ?thesis using find_latest_None [of F st k] by (simp add: get_scalar_def)
next
  case (Some x)
  then obtain off h where x: "find_latest F st k = Some (off, h)" by (cases x) auto
  show ?thesis using find_latest_Some [OF x] x by (simp add: get_scalar_def scalar_or_default_def Let_def)
qed

definition field_get :: "'f flash_ops \<Rightarrow> 'f store \<Rightarrow> u8 \<Rightarrow> nat \<Rightarrow> tagged_value" where
  "field_get F st fid i = get_scalar F st (at_key fid i) (def_kind (field_of fid i)) (field_default fid i)"

lemma field_get_contents:
  "field_get F st fid i =
     (case contents F st (at_key fid i) of None \<Rightarrow> field_default fid i | Some (tag, bs) \<Rightarrow> field_read fid i tag bs)"
  by (simp add: field_get_def get_scalar_contents field_read_def split: option.split)

text \<open>A projection of a fold that one key alone changes is what the newest record of that key makes it.\<close>

lemma fold_field:
  fixes l :: log and J :: "'v \<Rightarrow> bool"
  assumes "\<And>k tag bs v. k \<in> K \<Longrightarrow> J v \<Longrightarrow> J (f k tag bs v) \<and> p (f k tag bs v) = (if k = kk then dec tag bs else p v)"
    and "J acc" "kk \<in> K"
  shows "J (fold (\<lambda>(k, tag, v). if k \<in> K then f k tag v else id) l acc) \<and>
    p (fold (\<lambda>(k, tag, v). if k \<in> K then f k tag v else id) l acc) =
      (case map_of (rev l) kk of None \<Rightarrow> p acc | Some (tag, bs) \<Rightarrow> dec tag bs)"
  using assms(2)
proof (induction l rule: rev_induct)
  case (snoc e l)
  obtain k tag bs where e: "e = (k, tag, bs)" by (cases e)
  show ?case using assms(1) snoc assms(3) by (auto simp: e)
qed simp

lemma for_each_field:
  fixes J :: "'v \<Rightarrow> bool"
  assumes "\<And>k tag bs v. k \<in> set keys \<Longrightarrow> J v \<Longrightarrow> J (f k tag bs v) \<and> p (f k tag bs v) = (if k = kk then dec tag bs else p v)"
    and "J acc" "kk \<in> set keys"
  shows "p (for_each_in F st keys f acc) = (case contents F st kk of None \<Rightarrow> p acc | Some (tag, bs) \<Rightarrow> dec tag bs)"
  using fold_field [where K = "set keys" and J = J and f = f and p = p and kk = kk, OF assms]
  by (simp add: for_each_in_def each_from_log contents_def page_log_def)

definition row_ok_len :: "nat \<Rightarrow> arm_values \<Rightarrow> bool" where
  "row_ok_len nm v \<longleftrightarrow>
     length (av_direction v) = nm \<and> length (av_align_offset v) = nm \<and> length (av_limit_ma v) = nm \<and>
     length (av_cal v) = nm \<and> length (av_peak_trip v) = nm \<and> length (av_rail_skip v) = nm \<and>
     length (av_imu_sign v) = 3 \<and> length (av_imu_roles v) = 2 \<and> length (av_gain_max v) = 4 \<and> length (av_drive_turn v) = 2"

lemmas arm_ids =
  IMU_AXIS_SIGN_def IMU_AXIS_ROLE_def CONTROL_LEADER_def CONTROL_MODE_def CONTROL_FRAME_def CONTROL_RIDER_REQUIRED_def
  MOTOR_METHOD_def BOARD_BATTERY_FLOOR_def CONTROL_GAIN_MAX_def CONTROL_POS_CLAMP_def CONTROL_DRIVE_TURN_def
  MOTOR_CURRENT_CAL_def MOTOR_CURRENT_LIMIT_def MOTOR_DIRECTION_def CONTROL_SIDE_def MOTOR_ALIGN_OFFSET_def
  MOTOR_PEAK_TRIP_PERIODS_def MOTOR_RAIL_SKIP_def

lemma row_len_assign: "row_ok_len nm v \<Longrightarrow> row_ok_len nm (arm_assign k tag bs v)"
  by (simp add: row_ok_len_def arm_assign_def Let_def)

lemma row_len_defaults: "row_ok_len nm (arm_defaults nm)"
  by (simp add: row_ok_len_def arm_defaults_def)

lemma arm_field:
  assumes "\<And>k tag bs v. k \<in> set (ARM_ROW nm) \<Longrightarrow> row_ok_len nm v \<Longrightarrow>
      p (arm_assign k tag bs v) = (if k = at_key fid i then dec (field_read fid i tag bs) else p v)"
    and "at_key fid i \<in> set (ARM_ROW nm)" "p (arm_defaults nm) = dec (field_default fid i)"
  shows "p (read_arm_values F nm st) = dec (field_get F st fid i)"
  using for_each_field [where J = "row_ok_len nm" and f = arm_assign and p = p and kk = "at_key fid i"
      and dec = "\<lambda>tag bs. dec (field_read fid i tag bs)" and keys = "ARM_ROW nm" and acc = "arm_defaults nm" and F = F and st = st]
    assms row_len_assign row_len_defaults
  by (simp add: read_arm_values_def field_get_contents split: option.splits)

lemma read_row_len: "row_ok_len nm (read_arm_values F nm st)"
proof -
  have "row_ok_len nm (fold (\<lambda>(k, tag, v). if k \<in> K then arm_assign k tag v else id) l (arm_defaults nm))" for K and l :: log
    by (induction l rule: rev_induct) (auto simp: row_len_assign row_len_defaults)
  then show ?thesis by (simp add: read_arm_values_def for_each_in_def each_from_log)
qed

lemma motor_key: "m < nm \<Longrightarrow> fid \<in> set MOTOR_ARM_IDS \<Longrightarrow> at_key fid m \<in> set (ARM_ROW nm)"
  by (cases m) (auto simp: ARM_ROW_def MOTOR_ARM_IDS_def ARM_ROW_BASE_def)

lemma base_key: "k \<in> set ARM_ROW_BASE \<Longrightarrow> k \<in> set (ARM_ROW nm)"
  by (simp add: ARM_ROW_def)

lemma at_key_iff: "i < 256 \<Longrightarrow> k = at_key fid i \<longleftrightarrow> field_id k = fid \<and> unat (key_index k) = i"
  by (cases k) (auto simp: at_key_def unat_of_nat word_unat_eq_iff)

lemma assign_scalars:
  "av_method (arm_assign k tag bs v) = (if k = at_key MOTOR_METHOD 0 then as_u8 (field_read MOTOR_METHOD 0 tag bs) else av_method v)"
  "av_control_mode (arm_assign k tag bs v) = (if k = at_key CONTROL_MODE 0 then as_u8 (field_read CONTROL_MODE 0 tag bs) else av_control_mode v)"
  "av_frame (arm_assign k tag bs v) = (if k = at_key CONTROL_FRAME 0 then as_u8 (field_read CONTROL_FRAME 0 tag bs) else av_frame v)"
  "av_leader (arm_assign k tag bs v) = (if k = at_key CONTROL_LEADER 0 then as_u8 (field_read CONTROL_LEADER 0 tag bs) else av_leader v)"
  "av_side (arm_assign k tag bs v) = (if k = at_key CONTROL_SIDE 0 then as_u8 (field_read CONTROL_SIDE 0 tag bs) else av_side v)"
  "av_rider (arm_assign k tag bs v) = (if k = at_key CONTROL_RIDER_REQUIRED 0 then as_u8 (field_read CONTROL_RIDER_REQUIRED 0 tag bs) else av_rider v)"
  "av_floor (arm_assign k tag bs v) = (if k = at_key BOARD_BATTERY_FLOOR 0 then as_signed (field_read BOARD_BATTERY_FLOOR 0 tag bs) else av_floor v)"
  "av_pos_clamp (arm_assign k tag bs v) = (if k = at_key CONTROL_POS_CLAMP 0 then as_signed (field_read CONTROL_POS_CLAMP 0 tag bs) else av_pos_clamp v)"
  by (auto simp: arm_assign_def Let_def at_key_def arm_ids)

lemma assign_lists:
  "av_direction (arm_assign k tag bs v) = (if field_id k = MOTOR_DIRECTION then (av_direction v)[unat (key_index k) := as_u8 (field_read MOTOR_DIRECTION (unat (key_index k)) tag bs)] else av_direction v)"
  "av_align_offset (arm_assign k tag bs v) = (if field_id k = MOTOR_ALIGN_OFFSET then (av_align_offset v)[unat (key_index k) := as_u8 (field_read MOTOR_ALIGN_OFFSET (unat (key_index k)) tag bs)] else av_align_offset v)"
  "av_limit_ma (arm_assign k tag bs v) = (if field_id k = MOTOR_CURRENT_LIMIT then (av_limit_ma v)[unat (key_index k) := as_u32 (field_read MOTOR_CURRENT_LIMIT (unat (key_index k)) tag bs)] else av_limit_ma v)"
  "av_cal (arm_assign k tag bs v) = (if field_id k = MOTOR_CURRENT_CAL then (av_cal v)[unat (key_index k) := as_u16 (field_read MOTOR_CURRENT_CAL (unat (key_index k)) tag bs)] else av_cal v)"
  "av_peak_trip (arm_assign k tag bs v) = (if field_id k = MOTOR_PEAK_TRIP_PERIODS then (av_peak_trip v)[unat (key_index k) := as_u8 (field_read MOTOR_PEAK_TRIP_PERIODS (unat (key_index k)) tag bs)] else av_peak_trip v)"
  "av_rail_skip (arm_assign k tag bs v) = (if field_id k = MOTOR_RAIL_SKIP then (av_rail_skip v)[unat (key_index k) := as_u16 (field_read MOTOR_RAIL_SKIP (unat (key_index k)) tag bs)] else av_rail_skip v)"
  "av_imu_sign (arm_assign k tag bs v) = (if field_id k = IMU_AXIS_SIGN then (av_imu_sign v)[unat (key_index k) := as_signed (field_read IMU_AXIS_SIGN (unat (key_index k)) tag bs)] else av_imu_sign v)"
  "av_imu_roles (arm_assign k tag bs v) = (if field_id k = IMU_AXIS_ROLE then (av_imu_roles v)[unat (key_index k) := as_u8 (field_read IMU_AXIS_ROLE (unat (key_index k)) tag bs)] else av_imu_roles v)"
  "av_gain_max (arm_assign k tag bs v) = (if field_id k = CONTROL_GAIN_MAX then (av_gain_max v)[unat (key_index k) := as_signed (field_read CONTROL_GAIN_MAX (unat (key_index k)) tag bs)] else av_gain_max v)"
  "av_drive_turn (arm_assign k tag bs v) = (if field_id k = CONTROL_DRIVE_TURN then (av_drive_turn v)[unat (key_index k) := as_signed (field_read CONTROL_DRIVE_TURN (unat (key_index k)) tag bs)] else av_drive_turn v)"
  by (auto simp: arm_assign_def Let_def at_key_def arm_ids)

lemma list_keys:
  "i < 3 \<Longrightarrow> at_key IMU_AXIS_SIGN i \<in> set (ARM_ROW nm)" "i < 2 \<Longrightarrow> at_key IMU_AXIS_ROLE i \<in> set (ARM_ROW nm)"
  "i < 4 \<Longrightarrow> at_key CONTROL_GAIN_MAX i \<in> set (ARM_ROW nm)" "i < 2 \<Longrightarrow> at_key CONTROL_DRIVE_TURN i \<in> set (ARM_ROW nm)"
proof -
  have "i < 3 \<Longrightarrow> i = 0 \<or> i = 1 \<or> i = 2" "i < 2 \<Longrightarrow> i = 0 \<or> i = 1" "i < 4 \<Longrightarrow> i = 0 \<or> i = 1 \<or> i = 2 \<or> i = 3" by auto
  then show
    "i < 3 \<Longrightarrow> at_key IMU_AXIS_SIGN i \<in> set (ARM_ROW nm)" "i < 2 \<Longrightarrow> at_key IMU_AXIS_ROLE i \<in> set (ARM_ROW nm)"
    "i < 4 \<Longrightarrow> at_key CONTROL_GAIN_MAX i \<in> set (ARM_ROW nm)" "i < 2 \<Longrightarrow> at_key CONTROL_DRIVE_TURN i \<in> set (ARM_ROW nm)"
    by (auto intro!: base_key simp: ARM_ROW_BASE_def)
qed

lemma small_upt: "[0..<2] = [0, 1]" "[0..<3] = [0, 1, 2]" "[0..<4] = [0, 1, 2, 3]"
  by code_simp+

text \<open>The slot of an array field.\<close>

lemma slot_field:
  assumes "\<And>k tag bs v. q (arm_assign k tag bs v) =
      (if field_id k = fid then (q v)[unat (key_index k) := dec (field_read fid (unat (key_index k)) tag bs)] else q v)"
    and "\<And>v. row_ok_len nm v \<Longrightarrow> length (q v) = n" "n \<le> 256"
    and "\<And>i. i < n \<Longrightarrow> at_key fid i \<in> set (ARM_ROW nm)" "q (arm_defaults nm) = map (\<lambda>i. dec (field_default fid i)) [0..<n]"
  shows "q (read_arm_values F nm st) = map (\<lambda>i. dec (field_get F st fid i)) [0..<n]"
proof (rule nth_equalityI)
  show "length (q (read_arm_values F nm st)) = length (map (\<lambda>i. dec (field_get F st fid i)) [0..<n])"
    using assms(2) [OF read_row_len [of nm F st]] by simp
  fix i assume "i < length (q (read_arm_values F nm st))"
  then have i: "i < n" using assms(2) [OF read_row_len [of nm F st]] by simp
  have "q (read_arm_values F nm st) ! i = dec (field_get F st fid i)"
    by (rule arm_field [where p = "\<lambda>v. q v ! i"]) (use i assms in \<open>auto simp: at_key_iff nth_list_update\<close>)
  then show "q (read_arm_values F nm st) ! i = map (\<lambda>i. dec (field_get F st fid i)) [0..<n] ! i" using i by simp
qed

text \<open>C9: The value row an arm installs is the store's, field by field. One pass over the log with the newest record of a key
  overwriting the earlier ones yields, for every field of the row and every motor, exactly what \<open>Store::get\<close> of that key
  answers: the newest record of the right type and width, and the registered default where there is none or it does not
  fit; the records of other keys change nothing.\<close>

theorem arm_row_reads_store:
  assumes "nm \<le> 256"
  shows "read_arm_values F nm st =
     \<lparr>av_method = as_u8 (field_get F st MOTOR_METHOD 0),
      av_direction = map (\<lambda>m. as_u8 (field_get F st MOTOR_DIRECTION m)) [0..<nm],
      av_align_offset = map (\<lambda>m. as_u8 (field_get F st MOTOR_ALIGN_OFFSET m)) [0..<nm],
      av_control_mode = as_u8 (field_get F st CONTROL_MODE 0),
      av_frame = as_u8 (field_get F st CONTROL_FRAME 0),
      av_leader = as_u8 (field_get F st CONTROL_LEADER 0),
      av_side = as_u8 (field_get F st CONTROL_SIDE 0),
      av_limit_ma = map (\<lambda>m. as_u32 (field_get F st MOTOR_CURRENT_LIMIT m)) [0..<nm],
      av_cal = map (\<lambda>m. as_u16 (field_get F st MOTOR_CURRENT_CAL m)) [0..<nm],
      av_peak_trip = map (\<lambda>m. as_u8 (field_get F st MOTOR_PEAK_TRIP_PERIODS m)) [0..<nm],
      av_rail_skip = map (\<lambda>m. as_u16 (field_get F st MOTOR_RAIL_SKIP m)) [0..<nm],
      av_imu_sign = map (\<lambda>i. as_signed (field_get F st IMU_AXIS_SIGN i)) [0..<3],
      av_imu_roles = map (\<lambda>i. as_u8 (field_get F st IMU_AXIS_ROLE i)) [0..<2],
      av_rider = as_u8 (field_get F st CONTROL_RIDER_REQUIRED 0),
      av_floor = as_signed (field_get F st BOARD_BATTERY_FLOOR 0),
      av_gain_max = map (\<lambda>i. as_signed (field_get F st CONTROL_GAIN_MAX i)) [0..<4],
      av_drive_turn = map (\<lambda>i. as_signed (field_get F st CONTROL_DRIVE_TURN i)) [0..<2],
      av_pos_clamp = as_signed (field_get F st CONTROL_POS_CLAMP 0)\<rparr>"
proof -
  let ?r = "read_arm_values F nm st"
  have s: "av_method ?r = as_u8 (field_get F st MOTOR_METHOD 0)"
    "av_control_mode ?r = as_u8 (field_get F st CONTROL_MODE 0)"
    "av_frame ?r = as_u8 (field_get F st CONTROL_FRAME 0)"
    "av_leader ?r = as_u8 (field_get F st CONTROL_LEADER 0)"
    "av_side ?r = as_u8 (field_get F st CONTROL_SIDE 0)"
    "av_rider ?r = as_u8 (field_get F st CONTROL_RIDER_REQUIRED 0)"
    "av_floor ?r = as_signed (field_get F st BOARD_BATTERY_FLOOR 0)"
    "av_pos_clamp ?r = as_signed (field_get F st CONTROL_POS_CLAMP 0)"
    by (rule arm_field; simp add: assign_scalars base_key ARM_ROW_BASE_def arm_defaults_def)+
  have m: "av_direction ?r = map (\<lambda>m. as_u8 (field_get F st MOTOR_DIRECTION m)) [0..<nm]"
    "av_align_offset ?r = map (\<lambda>m. as_u8 (field_get F st MOTOR_ALIGN_OFFSET m)) [0..<nm]"
    "av_limit_ma ?r = map (\<lambda>m. as_u32 (field_get F st MOTOR_CURRENT_LIMIT m)) [0..<nm]"
    "av_cal ?r = map (\<lambda>m. as_u16 (field_get F st MOTOR_CURRENT_CAL m)) [0..<nm]"
    "av_peak_trip ?r = map (\<lambda>m. as_u8 (field_get F st MOTOR_PEAK_TRIP_PERIODS m)) [0..<nm]"
    "av_rail_skip ?r = map (\<lambda>m. as_u16 (field_get F st MOTOR_RAIL_SKIP m)) [0..<nm]"
    by (rule slot_field; use assms in \<open>simp add: assign_lists row_ok_len_def motor_key MOTOR_ARM_IDS_def arm_defaults_def\<close>)+
  have l: "av_imu_sign ?r = map (\<lambda>i. as_signed (field_get F st IMU_AXIS_SIGN i)) [0..<3]"
    "av_imu_roles ?r = map (\<lambda>i. as_u8 (field_get F st IMU_AXIS_ROLE i)) [0..<2]"
    "av_gain_max ?r = map (\<lambda>i. as_signed (field_get F st CONTROL_GAIN_MAX i)) [0..<4]"
    "av_drive_turn ?r = map (\<lambda>i. as_signed (field_get F st CONTROL_DRIVE_TURN i)) [0..<2]"
    by (rule slot_field; simp add: assign_lists row_ok_len_def list_keys arm_defaults_def small_upt)+
  show ?thesis by (rule arm_values.equality) (simp_all add: s m l)
qed

lemma arm_row_reads_store_witness:
  "(2 :: nat) \<le> 256 \<and> av_limit_ma (read_arm_values MockFlash 2 (fresh_store 1024)) = [10000, 10000]"
proof -
  have "contents MockFlash (fresh_store 1024) k = None" for k by (simp add: contents_def fresh_ok)
  moreover have "field_default MOTOR_CURRENT_LIMIT 0 = VU32 10000" "field_default MOTOR_CURRENT_LIMIT 1 = VU32 10000" by code_simp+
  ultimately show ?thesis using arm_row_reads_store [of 2 MockFlash "fresh_store 1024"] by (simp add: field_get_contents small_upt)
qed

section \<open>The gates over every schedule\<close>

definition hw_ok :: "nat \<Rightarrow> motor_hw \<Rightarrow> bool" where
  "hw_ok n h \<longleftrightarrow>
     hw_count h = n \<and> length (hw_gates h) = n \<and> length (hw_timer_set h) = n \<and> length (hw_break_enabled h) = n \<and>
     length (hw_timers h) = n \<and> length (hw_words h) = n \<and> length (hw_demand h) = n \<and>
     (\<forall>i < n. moes h ! i \<longrightarrow> hw_gates h ! i)"

lemma same_shared_ok: "same_shared g h \<Longrightarrow> hw_ok n g = hw_ok n h"
  unfolding same_shared_def hw_ok_def by (metis length_map moes_def)

lemma preempt_shared: "same_shared (fst (preempt hs)) (fst hs)"
  by (simp add: preempt_def period_isrs_shared split: list.split)

text \<open>What the sequences read and write of the state, as a tuple of the interrupt's invariants.\<close>

lemma preempt_view [simp]:
  "hw_gates (fst (preempt hs)) = hw_gates (fst hs)" "hw_timer_set (fst (preempt hs)) = hw_timer_set (fst hs)"
  "hw_armed (fst (preempt hs)) = hw_armed (fst hs)" "hw_refused (fst (preempt hs)) = hw_refused (fst hs)"
  "hw_demand (fst (preempt hs)) = hw_demand (fst hs)" "moes (fst (preempt hs)) = moes (fst hs)"
  "hw_ok n (fst (preempt hs)) = hw_ok n (fst hs)"
  using preempt_shared [of hs] same_shared_ok [OF preempt_shared [of hs], of n] by (simp_all add: same_shared_def)

lemma set_moe_view [simp]:
  "hw_gates (set_moe i b h) = hw_gates h" "hw_timer_set (set_moe i b h) = hw_timer_set h" "hw_armed (set_moe i b h) = hw_armed h"
  "hw_refused (set_moe i b h) = hw_refused h" "hw_demand (set_moe i b h) = hw_demand h" "moes (set_moe i b h) = (moes h)[i := b]"
  by (simp_all add: set_moe_def moes_def timer_moe_def map_update)

lemma set_moe_ok: "hw_ok n h \<Longrightarrow> (b \<Longrightarrow> i < n \<Longrightarrow> hw_gates h ! i) \<Longrightarrow> hw_ok n (set_moe i b h)"
proof -
  assume ok: "hw_ok n h" and g: "b \<Longrightarrow> i < n \<Longrightarrow> hw_gates h ! i"
  have "(moes h)[i := b] ! j \<longrightarrow> hw_gates h ! j" if "j < n" for j
    using ok g that by (cases "i = j") (auto simp: hw_ok_def moes_def)
  then show "hw_ok n (set_moe i b h)"
    using ok by (simp add: hw_ok_def) (simp add: set_moe_def hw_count_def)
qed

lemma armed_view [simp]: "moes (h\<lparr>hw_armed := b\<rparr>) = moes h" "hw_ok n (h\<lparr>hw_armed := b\<rparr>) = hw_ok n h"
  by (simp_all add: moes_def hw_ok_def hw_count_def)

lemma zero_demand_view [simp]:
  "hw_gates (zero_demand h) = hw_gates h" "hw_timer_set (zero_demand h) = hw_timer_set h" "hw_armed (zero_demand h) = hw_armed h"
  "hw_refused (zero_demand h) = hw_refused h" "moes (zero_demand h) = moes h" "hw_ok n (zero_demand h) = hw_ok n h"
  "hw_demand (zero_demand h) = map (\<lambda>_. 0) (hw_demand h)"
  by (simp_all add: zero_demand_def moes_def hw_ok_def hw_count_def)

lemma float_moes: "length (hw_timers h) = length (hw_timer_set h) \<Longrightarrow> moes (float_all_channels h) = moes h"
  by (auto simp: float_all_channels_def moes_def list_eq_iff_nth_eq)

lemma float_view [simp]:
  "hw_gates (float_all_channels h) = hw_gates h" "hw_timer_set (float_all_channels h) = hw_timer_set h"
  "hw_armed (float_all_channels h) = hw_armed h" "hw_refused (float_all_channels h) = hw_refused h"
  "hw_demand (float_all_channels h) = hw_demand h" "hw_ok n h \<Longrightarrow> hw_ok n (float_all_channels h)"
  "hw_ok n h \<Longrightarrow> moes (float_all_channels h) = moes h"
  by (auto simp: float_moes hw_ok_def) (simp_all add: float_all_channels_def hw_count_def)

lemma refused_view [simp]:
  "hw_gates (confirm_refused h) = hw_gates h" "hw_armed (confirm_refused h) = hw_armed h" "hw_refused (confirm_refused h)"
  "moes (confirm_refused h) = moes h" "hw_ok n (confirm_refused h) = hw_ok n h" "hw_timer_set (confirm_refused h) = hw_timer_set h"
  "hw_demand (confirm_refused h) = hw_demand h"
  by (simp_all add: confirm_refused_def moes_def hw_ok_def hw_count_def)

lemma set_gate_indices: "set (gate_indices k gs) = {k + i | i. i < length gs \<and> gs ! i}"
proof (induction k gs rule: gate_indices.induct)
  case (2 i g gs)
  have "{i + j | j. j < length (g # gs) \<and> (g # gs) ! j} = (if g then {i} else {}) \<union> {i + 1 + j | j. j < length gs \<and> gs ! j}"
    by (auto simp: less_Suc_eq_0_disj)
  with 2 show ?case by simp
qed simp

section \<open>The shutdown\<close>

definition close_gates :: "nat list \<Rightarrow> motor_hw \<times> schedule \<Rightarrow> motor_hw \<times> schedule" where
  "close_gates G hs = fold (\<lambda>i hs. apfst (set_moe i False) (preempt hs)) G hs"

lemma close_gates_view:
  "hw_gates (fst (close_gates G hs)) = hw_gates (fst hs)" "hw_timer_set (fst (close_gates G hs)) = hw_timer_set (fst hs)"
  "hw_armed (fst (close_gates G hs)) = hw_armed (fst hs)" "hw_refused (fst (close_gates G hs)) = hw_refused (fst hs)"
  "hw_demand (fst (close_gates G hs)) = hw_demand (fst hs)" "hw_ok n (fst hs) \<Longrightarrow> hw_ok n (fst (close_gates G hs))"
  unfolding close_gates_def by (induction G arbitrary: hs) (simp_all add: set_moe_ok)

lemma close_gates_moes:
  assumes "j < length (moes (fst hs))" "moes (fst (close_gates G hs)) ! j"
  shows "moes (fst hs) ! j \<and> j \<notin> set G"
  using assms
proof (induction G arbitrary: hs)
  case (Cons i G)
  let ?hs = "apfst (set_moe i False) (preempt hs)"
  have "moes (fst ?hs) ! j \<and> j \<notin> set G"
    using Cons.prems by (intro Cons.IH) (simp_all add: close_gates_def)
  then show ?case using Cons.prems(1) by (cases "i = j") auto
qed (simp add: close_gates_def)

lemma ok_moes_length: "hw_ok n h \<Longrightarrow> length (moes h) = n" by (simp add: hw_ok_def moes_def)

lemma shutdown_view:
  assumes "hw_ok n (fst hs)"
  shows "hw_ok n (fst (run_shutdown hs))" "\<not> hw_armed (fst (run_shutdown hs))" "\<forall>i < n. \<not> moes (fst (run_shutdown hs)) ! i"
    and "\<forall>d \<in> set (hw_demand (fst (run_shutdown hs))). d = 0" "hw_refused (fst (run_shutdown hs)) = hw_refused (fst hs)"
    and "\<forall>i < n. hw_timer_set (fst hs) ! i \<longrightarrow> pw_outputs (hw_timers (fst (run_shutdown hs)) ! i) = [False, False, False]"
    and "hw_gates (fst (run_shutdown hs)) = hw_gates (fst hs)"
proof -
  obtain h sch where p: "preempt hs = (h, sch)" by (metis surj_pair)
  let ?G = "gate_indices 0 (hw_gates h)"
  let ?a = "(h\<lparr>hw_armed := False\<rparr>, sch)"
  let ?c = "close_gates ?G ?a"
  let ?z = "apfst zero_demand (preempt ?c)"
  let ?f = "apfst float_all_channels (preempt ?z)"
  have r: "run_shutdown hs = ?f" by (simp add: run_shutdown_def SHUTDOWN_STEPS_def p close_gates_def)
  have h: "hw_ok n h" "hw_gates h = hw_gates (fst hs)" "hw_refused h = hw_refused (fst hs)" "hw_timer_set h = hw_timer_set (fst hs)"
    using preempt_view(1-6) [of hs] preempt_view(7) [of n hs] assms by (simp_all add: p)
  have c: "hw_ok n (fst ?c)" using h by (simp add: close_gates_view)
  then have z: "hw_ok n (fst (preempt ?z))" by simp
  show "hw_ok n (fst (run_shutdown hs))" "\<not> hw_armed (fst (run_shutdown hs))" "hw_refused (fst (run_shutdown hs)) = hw_refused (fst hs)"
    "\<forall>d \<in> set (hw_demand (fst (run_shutdown hs))). d = 0" "hw_gates (fst (run_shutdown hs)) = hw_gates (fst hs)"
    using z h by (simp_all add: r close_gates_view)
  have "\<not> moes (fst ?c) ! i" if "i < n" for i
  proof
    assume "moes (fst ?c) ! i"
    then have "moes h ! i \<and> i \<notin> set ?G" using close_gates_moes [of i ?a ?G] that ok_moes_length [OF h(1)] by simp
    moreover have "i \<in> set ?G \<longleftrightarrow> hw_gates h ! i" using that h(1) by (auto simp: set_gate_indices hw_ok_def)
    ultimately show False using h(1) that unfolding hw_ok_def by blast
  qed
  then show "\<forall>i < n. \<not> moes (fst (run_shutdown hs)) ! i" using z by (simp add: r)
  have "hw_timer_set (fst (preempt ?z)) = hw_timer_set (fst hs)" using h by (simp add: close_gates_view)
  then show "\<forall>i < n. hw_timer_set (fst hs) ! i \<longrightarrow> pw_outputs (hw_timers (fst (run_shutdown hs)) ! i) = [False, False, False]"
    using z by (auto simp: r float_all_channels_def hw_ok_def)
qed

text \<open>C8: A shutdown silences the board over every interleaving with the period interrupt. From any well-formed state and for
  every schedule of interrupts before, between and inside its steps: at its end no motor's main output is enabled, the armed
  flag is off, every demand word is zero, and every channel of every timer that was brought up is floated; what the
  interrupts of the sequence wrote in between undoes none of it.\<close>

theorem shutdown_silences:
  assumes "hw_ok n h"
  shows "let h' = fst (run_shutdown (h, sch)) in
    \<not> hw_armed h' \<and> (\<forall>i < n. \<not> pw_moe (hw_timers h' ! i)) \<and> (\<forall>d \<in> set (hw_demand h'). d = 0) \<and>
    (\<forall>i < n. hw_timer_set h ! i \<longrightarrow> pw_outputs (hw_timers h' ! i) = [False, False, False])"
  using shutdown_view [of n "(h, sch)"] assms unfolding Let_def by (simp add: hw_ok_def moes_def)

definition demo_timer :: pwm_timer where
  "demo_timer = \<lparr>pw_duties = [1125, 1125, 1125], pw_trigger = 0, pw_outputs = [True, True, False], pw_moe = True, pw_break_flag = False\<rparr>"

definition demo_hw :: "nat \<Rightarrow> motor_words \<Rightarrow> motor_hw" where
  "demo_hw n w =
     \<lparr>hw_motors = replicate n None, hw_gates = replicate n True, hw_timer_set = replicate n True,
      hw_break_enabled = replicate n False, hw_timers = replicate n demo_timer, hw_words = replicate n w,
      hw_demand = replicate n 9000, hw_demand_seq = 0, hw_hold_compare = replicate n 0, hw_armed = True, hw_refused = False,
      hw_refusal_obs = 0, hw_tone_period = 0, hw_buzzer_pin = False, hw_vbatt_raw = 0, hw_counter_running = True\<rparr>"

lemma demo_hw_ok: "hw_ok n (demo_hw n w)"
  by (simp add: hw_ok_def demo_hw_def hw_count_def)

text \<open>A board of two motors, armed and driven, is silent after it.\<close>

lemma shutdown_silences_witness:
  "\<forall>w. hw_ok 2 (demo_hw 2 w) \<and> pw_moe (hw_timers (demo_hw 2 w) ! 1) \<and>
    \<not> pw_moe (hw_timers (fst (run_shutdown (demo_hw 2 w, [[], []]))) ! 1)"
  using shutdown_silences [OF demo_hw_ok, where sch = "[[], []]"] by (simp add: Let_def demo_hw_ok) (simp add: demo_hw_def demo_timer_def)

section \<open>The confirm wait and the gates\<close>

lemma confirm_spin_shared: "same_shared (fst (fst (confirm_spin k st hs))) (fst hs)"
proof (induction k arbitrary: hs)
  case (Suc k)
  have "same_shared (fst (fst (confirm_spin k st (preempt hs)))) (fst hs)"
    using same_shared_trans [OF Suc preempt_shared] .
  then show ?case using preempt_shared [of hs] by (simp add: Let_def)
qed simp

lemma confirm_shared: "same_shared (fst (fst (confirm_periods_live hs))) (fst hs)"
  by (simp add: confirm_periods_live_def Let_def) (rule same_shared_trans [OF confirm_spin_shared preempt_shared])

lemma preempt_silent: "\<forall>es \<in> set (snd hs). es = [] \<Longrightarrow> fst (preempt hs) = fst hs \<and> (\<forall>es \<in> set (snd (preempt hs)). es = [])"
  by (cases "snd hs") (auto simp: preempt_def)

lemma confirm_spin_silent:
  "\<forall>es \<in> set (snd hs). es = [] \<Longrightarrow> \<not> snd (confirm_spin k (periods0 (fst hs)) hs)"
proof (induction k arbitrary: hs)
  case (Suc k)
  show ?case using Suc.IH [of "preempt hs"] preempt_silent [OF Suc.prems] by (simp add: Let_def)
qed simp

lemma confirm_silent: "\<forall>es \<in> set (snd hs). es = [] \<Longrightarrow> \<not> snd (confirm_periods_live hs)"
  using confirm_spin_silent [of "preempt hs"] preempt_silent [of hs] by (simp add: confirm_periods_live_def Let_def)

text \<open>A state as an arm leaves it: only a gate in place is open, and only while the flag is on.\<close>

definition gates_guarded :: "nat \<Rightarrow> motor_hw \<Rightarrow> bool" where
  "gates_guarded n h \<longleftrightarrow> hw_ok n h \<and> (\<forall>i < n. moes h ! i \<longrightarrow> hw_armed h)"

lemma same_shared_guarded: "same_shared g h \<Longrightarrow> gates_guarded n g = gates_guarded n h"
  by (simp add: gates_guarded_def same_shared_ok) (simp add: same_shared_def)

lemma open_gate_view:
  assumes "hw_ok n (fst hs)" "i < n" "hw_gates (fst hs) ! i"
  shows "hw_ok n (fst (open_gate i hs))" "hw_armed (fst (open_gate i hs))"
    and "hw_gates (fst (open_gate i hs)) = hw_gates (fst hs)" "hw_refused (fst (open_gate i hs)) = hw_refused (fst hs)"
    and "hw_demand (fst (open_gate i hs)) = hw_demand (fst hs)" "moes (fst (open_gate i hs)) = (moes (fst hs))[i := True]"
  using assms by (simp_all add: open_gate_def Let_def set_moe_ok)

lemma open_gates_view:
  assumes "hw_ok n (fst hs)" "\<forall>i \<in> set G. i < n \<and> hw_gates (fst hs) ! i"
  shows "hw_ok n (fst (fold open_gate G hs)) \<and> hw_armed (fst (fold open_gate G hs)) = (G \<noteq> [] \<or> hw_armed (fst hs)) \<and>
    hw_gates (fst (fold open_gate G hs)) = hw_gates (fst hs) \<and> hw_refused (fst (fold open_gate G hs)) = hw_refused (fst hs) \<and>
    hw_demand (fst (fold open_gate G hs)) = hw_demand (fst hs) \<and>
    (\<forall>j < n. moes (fst (fold open_gate G hs)) ! j \<longleftrightarrow> moes (fst hs) ! j \<or> j \<in> set G)"
  using assms
proof (induction G arbitrary: hs)
  case (Cons i G)
  note v = open_gate_view [OF Cons.prems(1), of i]
  have i: "i < n" "hw_gates (fst hs) ! i" using Cons.prems(2) by simp_all
  show ?case using Cons.IH [of "open_gate i hs"] Cons.prems v [OF i] i ok_moes_length [OF Cons.prems(1)] by (auto simp: nth_list_update)
qed simp

section \<open>The configured motors\<close>

lemma wired_same: "hw_motors g = hw_motors h \<Longrightarrow> hw_words g = hw_words h \<Longrightarrow> wired g = wired h"
  by (simp add: wired_def hw_count_def)

lemma wired_view [simp]:
  "wired (set_moe i b h) = wired h" "wired (h\<lparr>hw_armed := b\<rparr>) = wired h" "wired (zero_demand h) = wired h"
  "wired (float_all_channels h) = wired h" "wired (confirm_refused h) = wired h"
  by (rule wired_same; simp add: set_moe_def zero_demand_def float_all_channels_def confirm_refused_def)+

lemma preempt_configured: "wired (fst hs) \<Longrightarrow> keeps_configured (fst hs) (fst (preempt hs))"
proof (cases "snd hs")
  case Nil
  assume "wired (fst hs)"
  with Nil show ?thesis by (simp add: preempt_def keeps_configured_def)
qed (simp add: preempt_def period_isrs_wired)

lemma preempt_wired [simp]: "wired (fst hs) \<Longrightarrow> wired (fst (preempt hs))"
  using preempt_configured by (simp add: keeps_configured_def)

lemma close_gates_wired: "wired (fst hs) \<Longrightarrow> wired (fst (close_gates G hs))"
  unfolding close_gates_def by (induction G arbitrary: hs) simp_all

lemma shutdown_wired: "wired (fst hs) \<Longrightarrow> wired (fst (run_shutdown hs))"
proof -
  assume w: "wired (fst hs)"
  obtain h sch where p: "preempt hs = (h, sch)" by (metis surj_pair)
  have h: "wired h" using preempt_wired [OF w] by (simp add: p)
  then have "wired (fst (close_gates (gate_indices 0 (hw_gates h)) (h\<lparr>hw_armed := False\<rparr>, sch)))"
    by (intro close_gates_wired) simp
  then show "wired (fst (run_shutdown hs))" by (simp add: run_shutdown_def SHUTDOWN_STEPS_def p close_gates_def)
qed

lemma confirm_spin_wired: "wired (fst hs) \<Longrightarrow> wired (fst (fst (confirm_spin k st hs)))"
  by (induction k arbitrary: hs) (simp_all add: Let_def)

lemma open_gates_wired: "wired (fst hs) \<Longrightarrow> wired (fst (fold open_gate G hs))"
  by (induction G arbitrary: hs) (simp_all add: open_gate_def Let_def)

section \<open>The arm\<close>

text \<open>The arm runs over any state its re-read also changes. What it needs of that re-read is the contract: the gates, the
  flags and the demands are as they were, and a motor in place is still a configured one.\<close>

locale arm_re_read =
  fixes re_read :: "'s \<times> motor_hw \<Rightarrow> 's \<times> motor_hw"
  assumes keeps_gates: "hw_ok n h \<Longrightarrow> re_read (s, h) = (s', h') \<Longrightarrow>
      hw_ok n h' \<and> moes h' = moes h \<and> hw_gates h' = hw_gates h \<and> hw_armed h' = hw_armed h \<and> hw_refused h' = hw_refused h \<and>
      hw_demand h' = hw_demand h"
    and keeps_wired: "wired h \<Longrightarrow> re_read (s, h) = (s', h') \<Longrightarrow> wired h'"
begin

lemma arm_view:
  fixes s :: 's and sch :: schedule
  assumes "hw_ok n h" "length moe = n" "0 < n"
  defines "x' \<equiv> run_arm re_read moe (s, h, sch)"
  shows "hw_ok n (fst (snd x'))" "hw_gates (fst (snd x')) = hw_gates h"
    and "\<forall>d \<in> set (hw_demand (fst (snd x'))). d = 0"
    and "hw_refused (fst (snd x')) \<and> \<not> hw_armed (fst (snd x')) \<and> (\<forall>i < n. \<not> moes (fst (snd x')) ! i) \<or>
      hw_refused (fst (snd x')) = hw_refused h \<and>
      (\<forall>i < n. moes (fst (snd x')) ! i \<longleftrightarrow> moes h ! i \<or> hw_gates h ! i \<and> moe ! i) \<and>
      hw_armed (fst (snd x')) = (hw_armed h \<or> (\<exists>i < n. hw_gates h ! i \<and> moe ! i))"
    and "\<forall>es \<in> set sch. es = [] \<Longrightarrow> hw_refused (fst (snd x'))"
    and "\<forall>es \<in> set sch. es = [] \<Longrightarrow> \<forall>i < n. \<not> moes (fst (snd x')) ! i"
proof -
  obtain h1 sch1 where p: "preempt (h, sch) = (h1, sch1)" by (metis surj_pair)
  obtain s2 h2 where rr: "re_read (s, h1) = (s2, h2)" by (metis surj_pair)
  obtain hs3 live where c: "confirm_periods_live (h2, sch1) = (hs3, live)" by (metis surj_pair)
  let ?z = "apfst zero_demand (preempt hs3)"
  let ?G = "gate_indices 0 (map2 (\<and>) (hw_gates (fst ?z)) moe)"
  let ?r = "run_shutdown (apfst confirm_refused hs3)"
  have h1: "hw_ok n h1" "moes h1 = moes h" "hw_gates h1 = hw_gates h" "hw_armed h1 = hw_armed h" "hw_refused h1 = hw_refused h"
    using preempt_view(1-6) [of "(h, sch)"] preempt_view(7) [of n "(h, sch)"] assms(1) by (simp_all add: p)
  have h2: "hw_ok n h2" "moes h2 = moes h" "hw_gates h2 = hw_gates h" "hw_armed h2 = hw_armed h" "hw_refused h2 = hw_refused h"
    using keeps_gates [OF h1(1) rr] h1 by simp_all
  have sh: "same_shared (fst hs3) h2" using confirm_shared [of "(h2, sch1)"] by (simp add: c)
  have h3: "hw_ok n (fst hs3)" "moes (fst hs3) = moes h" "hw_gates (fst hs3) = hw_gates h" "hw_armed (fst hs3) = hw_armed h"
    "hw_refused (fst hs3) = hw_refused h"
    using sh same_shared_ok [OF sh, of n] h2 by (simp_all add: same_shared_def)
  have x: "snd x' = (if live then fold open_gate ?G ?z else ?r)"
    by (simp add: x'_def run_arm_def ARM_STEPS_def p rr c Let_def split: prod.splits)
  have G: "i \<in> set ?G \<longleftrightarrow> i < n \<and> hw_gates h ! i \<and> moe ! i" for i
    using h3 assms(2) by (auto simp: set_gate_indices hw_ok_def)
  have z: "hw_ok n (fst ?z)" "hw_gates (fst ?z) = hw_gates h" using h3 by simp_all
  note og = open_gates_view [OF z(1), of ?G]
  have og: "hw_ok n (fst (fold open_gate ?G ?z))" "hw_armed (fst (fold open_gate ?G ?z)) = (?G \<noteq> [] \<or> hw_armed h)"
    "hw_gates (fst (fold open_gate ?G ?z)) = hw_gates h" "hw_refused (fst (fold open_gate ?G ?z)) = hw_refused h"
    "hw_demand (fst (fold open_gate ?G ?z)) = map (\<lambda>_. 0) (hw_demand (fst (preempt hs3)))"
    "\<forall>j < n. moes (fst (fold open_gate ?G ?z)) ! j \<longleftrightarrow> moes h ! j \<or> j \<in> set ?G"
    using og G z h3 by (simp_all add: all_conj_distrib)
  have nonempty: "?G \<noteq> [] \<longleftrightarrow> (\<exists>i < n. hw_gates h ! i \<and> moe ! i)" using G by (metis (no_types, lifting) empty_iff list.set(1) list.set_intros(1) neq_Nil_conv)
  have r3: "hw_ok n (fst (apfst confirm_refused hs3))" using h3 by simp
  note sv = shutdown_view [OF r3]
  show "hw_ok n (fst (snd x'))" "hw_gates (fst (snd x')) = hw_gates h" "\<forall>d \<in> set (hw_demand (fst (snd x'))). d = 0"
    using og sv h3 by (auto simp: x)
  show "hw_refused (fst (snd x')) \<and> \<not> hw_armed (fst (snd x')) \<and> (\<forall>i < n. \<not> moes (fst (snd x')) ! i) \<or>
      hw_refused (fst (snd x')) = hw_refused h \<and> (\<forall>i < n. moes (fst (snd x')) ! i \<longleftrightarrow> moes h ! i \<or> hw_gates h ! i \<and> moe ! i) \<and>
      hw_armed (fst (snd x')) = (hw_armed h \<or> (\<exists>i < n. hw_gates h ! i \<and> moe ! i))"
    using og sv G nonempty by (cases live) (auto simp: x)
  assume quiet: "\<forall>es \<in> set sch. es = []"
  have "\<forall>es \<in> set sch1. es = []" using preempt_silent [of "(h, sch)"] quiet by (simp add: p)
  then have "\<not> live" using confirm_silent [of "(h2, sch1)"] by (simp add: c)
  then show "hw_refused (fst (snd x'))" "\<forall>i < n. \<not> moes (fst (snd x')) ! i" using sv by (simp_all add: x)
qed

text \<open>A pass of the arming, whatever it decides.\<close>

lemma enact_view:
  fixes s :: 's and sch :: schedule and brought_up fault :: bool
  assumes "gates_guarded n h" "length moe = n" "0 < n"
  defines "h' \<equiv> fst (snd (enact re_read moe brought_up fault (s, h, sch)))"
  shows "gates_guarded n h'" "hw_gates h' = hw_gates h" "hw_refused h \<longrightarrow> hw_refused h'"
    and "hw_armed h' \<longrightarrow> moe ! 0 \<and> \<not> fault \<and> (hw_armed h \<or> brought_up)"
    and "\<forall>i < n. moes h' ! i \<longrightarrow> hw_gates h ! i \<and> (moes h ! i \<or> moe ! i)"
    and "hw_refused h' \<noteq> hw_refused h \<longrightarrow> \<not> hw_armed h'"
    and "hw_demand h' = hw_demand h \<or> (\<forall>d \<in> set (hw_demand h'). d = 0)"
    and "\<forall>es \<in> set sch. es = [] \<Longrightarrow> \<not> hw_armed h \<Longrightarrow> \<not> hw_armed h' \<and> (\<forall>i < n. \<not> moes h' ! i)"
proof -
  have ok: "hw_ok n h" and guard: "\<forall>i < n. moes h ! i \<longrightarrow> hw_armed h" using assms(1) by (simp_all add: gates_guarded_def)
  have open_gates: "\<forall>i < n. moes h ! i \<longrightarrow> hw_gates h ! i" using ok by (simp add: hw_ok_def)
  note av = arm_view [OF ok assms(2,3), where s = s and sch = sch]
  note sv = shutdown_view [of n "(h, sch)", simplified, OF ok]
  have d: "arm_decide (moe ! 0) (hw_armed h) brought_up fault =
      (if hw_armed h then if moe ! 0 \<and> \<not> fault then ArmIdle else ArmShutdown
       else if moe ! 0 \<and> brought_up \<and> \<not> fault then ArmArm else ArmIdle)" by (simp add: arm_decide_def)
  consider (idle) "h' = h" "hw_armed h \<longrightarrow> moe ! 0 \<and> \<not> fault"
    | (down) "h' = fst (run_shutdown (h, sch))" "hw_armed h"
    | (arm) "h' = fst (snd (run_arm re_read moe (s, h, sch)))" "\<not> hw_armed h" "moe ! 0" "brought_up" "\<not> fault"
  proof -
    have "h' = h \<and> (hw_armed h \<longrightarrow> moe ! 0 \<and> \<not> fault) \<or> h' = fst (run_shutdown (h, sch)) \<and> hw_armed h \<or>
        h' = fst (snd (run_arm re_read moe (s, h, sch))) \<and> \<not> hw_armed h \<and> moe ! 0 \<and> brought_up \<and> \<not> fault"
      unfolding h'_def enact_def prod.case d by simp
    then show ?thesis using that by blast
  qed
  note cases = this
  show "gates_guarded n h'" "hw_gates h' = hw_gates h" "hw_refused h \<longrightarrow> hw_refused h'"
    "hw_armed h' \<longrightarrow> moe ! 0 \<and> \<not> fault \<and> (hw_armed h \<or> brought_up)"
    "\<forall>i < n. moes h' ! i \<longrightarrow> hw_gates h ! i \<and> (moes h ! i \<or> moe ! i)"
    "hw_refused h' \<noteq> hw_refused h \<longrightarrow> \<not> hw_armed h'" "hw_demand h' = hw_demand h \<or> (\<forall>d \<in> set (hw_demand h'). d = 0)"
    using cases by (cases; use assms(1) guard open_gates av(1-4) sv in \<open>auto simp: gates_guarded_def\<close>)+
  show "\<not> hw_armed h' \<and> (\<forall>i < n. \<not> moes h' ! i)" if "\<forall>es \<in> set sch. es = []" "\<not> hw_armed h"
    using cases
  proof cases
    case arm
    then show ?thesis using av(4,5,6) that guard by metis
  qed (use guard that in auto)
qed

lemma enact_wired:
  assumes "wired h"
  shows "wired (fst (snd (enact re_read moe brought_up fault (s, h, sch))))"
proof -
  obtain h1 sch1 where p: "preempt (h, sch) = (h1, sch1)" by (metis surj_pair)
  obtain s2 h2 where rr: "re_read (s, h1) = (s2, h2)" by (metis surj_pair)
  obtain hs3 live where c: "confirm_periods_live (h2, sch1) = (hs3, live)" by (metis surj_pair)
  have "wired h1" using preempt_wired [of "(h, sch)"] assms(1) by (simp add: p)
  then have "wired h2" using keeps_wired [OF _ rr] by simp
  then have "wired (fst hs3)"
    using confirm_spin_wired [of "preempt (h2, sch1)" ARM_CONFIRM_SPINS "periods0 (fst (preempt (h2, sch1)))"] c
    by (simp add: confirm_periods_live_def Let_def)
  then have "wired (fst (snd (run_arm re_read moe (s, h, sch))))"
    by (simp add: run_arm_def ARM_STEPS_def p rr c Let_def open_gates_wired shutdown_wired split: prod.splits)
  then show ?thesis using assms shutdown_wired [of "(h, sch)"] by (simp add: enact_def split: arm_decision.split)
qed

end

end
