(* ===== verification/FirmwareProps.thy ===== *)
theory FirmwareProps
  imports Firmware ArmProps BoardSafety
begin

unbundle bit_operations_syntax

text \<open>
  What the image guarantees as a whole. Every step of the shell is a sequence of the events of theory
  \<open>OrchestraProps\<close>, so every property of a board holds of the board inside the image; and in every state the image
  can reach, over every interleaving with the period interrupt, a motor is driven only while the board is armed.
\<close>

section \<open>The board inside the shell\<close>

lemma reach_motor_fault: "reachable_board Q n s \<Longrightarrow> reachable_board Q n (s\<lparr>os_motor_fault := f\<rparr>)"
  using reachable_step [of Q n s "MotorWords f (os_motor_moving s) (bw_wheel_speed (os_block s)) (bw_wheel_rate_q12 (os_block s)) (bw_wheel_pos (os_block s))"]
  by simp

lemma reach_moving: "reachable_board Q n s \<Longrightarrow> reachable_board Q n (s\<lparr>os_motor_moving := b\<rparr>)"
  using reachable_step [of Q n s "MotorWords (os_motor_fault s) b (bw_wheel_speed (os_block s)) (bw_wheel_rate_q12 (os_block s)) (bw_wheel_pos (os_block s))"]
  by simp

lemma reach_speeds: "reachable_board Q n s \<Longrightarrow> reachable_board Q n (s\<lparr>os_block := (os_block s)\<lparr>bw_wheel_speed := v\<rparr>\<rparr>)"
  using reachable_step [of Q n s "MotorWords (os_motor_fault s) (os_motor_moving s) v (bw_wheel_rate_q12 (os_block s)) (bw_wheel_pos (os_block s))"]
  by simp

lemma reach_rates: "reachable_board Q n s \<Longrightarrow> reachable_board Q n (s\<lparr>os_block := (os_block s)\<lparr>bw_wheel_rate_q12 := v\<rparr>\<rparr>)"
  using reachable_step [of Q n s "MotorWords (os_motor_fault s) (os_motor_moving s) (bw_wheel_speed (os_block s)) v (bw_wheel_pos (os_block s))"]
  by simp

lemma reach_pos: "reachable_board Q n s \<Longrightarrow> reachable_board Q n (s\<lparr>os_block := (os_block s)\<lparr>bw_wheel_pos := v\<rparr>\<rparr>)"
  using reachable_step [of Q n s "MotorWords (os_motor_fault s) (os_motor_moving s) (bw_wheel_speed (os_block s)) (bw_wheel_rate_q12 (os_block s)) v"]
  by simp

lemma reach_torque: "reachable_board Q n s \<Longrightarrow> reachable_board Q n (s\<lparr>os_block := (os_block s)\<lparr>bw_torque_is_current := b\<rparr>\<rparr>)"
  using reachable_step [of Q n s "Observed (os_phase s) (os_odometer s) b"] by simp

lemma reach_windows: "reachable_board Q n s \<Longrightarrow> reachable_board Q n (s\<lparr>os_phase := w, os_odometer := t\<rparr>)"
  using reachable_step [of Q n s "Observed w t (bw_torque_is_current (os_block s))"] by simp

lemma reach_battery: "reachable_board Q n s \<Longrightarrow> reachable_board Q n (s\<lparr>os_vbatt_raw := w\<rparr>)"
  using reachable_step [of Q n s "BatteryWord w"] by simp

lemma reach_trip: "reachable_board Q n s \<Longrightarrow> reachable_board Q n (raise_over_current s m)"
  using reachable_step [of Q n s "OverCurrent m"] by simp

lemma reach_ext: "reachable_board Q n s \<Longrightarrow> reachable_board Q n (set_ext_trip s m b)"
  using reachable_step [of Q n s "ExtTrip m b"] by simp

lemma reach_gains: "reachable_board Q n s \<Longrightarrow> reachable_board Q n (s\<lparr>os_ctl := (os_ctl s)\<lparr>ct_gains := g\<rparr>\<rparr>)"
  using reachable_step [of Q n s "GainWords g"] by simp

lemma reach_row: "reachable_board Q n s \<Longrightarrow> reachable_board Q n (install_arm_control Q s r)"
  using reachable_step [of Q n s "ArmRow r"] by simp

lemma reach_hear: "reachable_board Q n s \<Longrightarrow> reachable_board Q n (s\<lparr>os_machine := hear (os_machine s) l d\<rparr>)"
  using reachable_step [of Q n s "PeerDigest l d"] by simp

lemma reach_persisted: "reachable_board Q n s \<Longrightarrow> reachable_board Q n (s\<lparr>os_machine := machine_persisted (os_machine s) d\<rparr>)"
  using reachable_step [of Q n s "Persisted d"] by simp

lemma reach_frame: "reachable_board Q n s \<Longrightarrow> reachable_board Q n (s\<lparr>os_inbox := inbox_accept (os_inbox s) src p\<rparr>)"
  using reachable_step [of Q n s "FrameIn src p"] by simp

lemma reach_pass: "reachable_board Q n s \<Longrightarrow> reachable_board Q n (fst (control_task Q s smp dt))"
  using reachable_step [of Q n s "ControlPass smp dt"] by simp

lemma reach_input: "reachable_board Q n s \<Longrightarrow> reachable_board Q n (input_task s x)"
  using reachable_step [of Q n s "InputPass x"] by simp

lemmas reach_steps = reach_motor_fault reach_moving reach_speeds reach_rates reach_pos reach_torque reach_windows reach_battery
  reach_trip reach_ext reach_gains reach_row reach_hear reach_persisted reach_frame reach_pass reach_input

lemma event_mode [simp]:
  "os_mode (raise_over_current u m) = os_mode u" "os_mode (set_ext_trip u m b) = os_mode u" "os_mode (input_task u x) = os_mode u"
  "os_mode (install_arm_control Q u r) = os_mode u"
  "os_motor_fault (raise_over_current u m) = os_motor_fault u" "os_motor_fault (set_ext_trip u m b) = os_motor_fault u"
  by (simp_all add: raise_over_current_def set_ext_trip_def input_task_def install_arm_control_def re_apply_control_values_def Let_def split: prod.split)

section \<open>The reads of a pass\<close>

definition dc_ok :: "nat \<Rightarrow> ('f, 'o, 'b) shell \<Rightarrow> bool" where
  "dc_ok n s \<longleftrightarrow> length (sl_dc_link s) = n \<and> (\<forall>d \<in> set (sl_dc_link s). case d of None \<Rightarrow> True | Some dc \<Rightarrow> dl_factor dc \<le> DERATE_FULL)"

text \<open>A step that only informs the board: it moves neither the mode nor a gate, nor any word the interrupt reads.\<close>

definition informs :: "('f, 'o) q_ops \<Rightarrow> nat \<Rightarrow> ('f, 'o, 'b) shell \<times> motor_hw \<Rightarrow> ('f, 'o, 'b) shell \<times> motor_hw \<Rightarrow> bool" where
  "informs Q n x y \<longleftrightarrow>
     (reachable_board Q n (sl_orch (fst x)) \<longrightarrow> reachable_board Q n (sl_orch (fst y))) \<and>
     os_mode (sl_orch (fst y)) = os_mode (sl_orch (fst x)) \<and> (dc_ok n (fst x) \<longrightarrow> dc_ok n (fst y)) \<and>
     same_shared (snd y) (snd x) \<and> (wired (snd x) \<longrightarrow> keeps_configured (snd x) (snd y))"


lemma informs_refl [simp]: "informs Q n x x"
  by (simp add: informs_def keeps_configured_def)































section \<open>The control task of the image\<close>


lemma publish_frames_fields [simp]:
  "sl_orch (publish_frames s) = sl_orch s" "sl_dc_link (publish_frames s) = sl_dc_link s"
  by (simp_all add: publish_frames_def Let_def)


text \<open>What holds of the statics in every state of the image: \<open>b\<close> bounds the demand words.\<close>

definition hw_inv :: "nat \<Rightarrow> motor_hw \<Rightarrow> bool" where
  "hw_inv n h \<longleftrightarrow>
     gates_guarded n h \<and> wired h \<and> (hw_refused h \<longrightarrow> \<not> hw_armed h) \<and> (\<forall>d \<in> set (hw_demand h). \<bar>d\<bar> \<le> 28700)"




lemma gates_guarded_cong:
  "hw_motors g = hw_motors h \<Longrightarrow> hw_gates g = hw_gates h \<Longrightarrow> hw_timer_set g = hw_timer_set h \<Longrightarrow>
   hw_break_enabled g = hw_break_enabled h \<Longrightarrow> hw_words g = hw_words h \<Longrightarrow> hw_armed g = hw_armed h \<Longrightarrow> moes g = moes h \<Longrightarrow>
   length (hw_demand g) = length (hw_demand h) \<Longrightarrow> gates_guarded n g = gates_guarded n h"
  using map_eq_imp_length_eq [of pw_moe "hw_timers g" pw_moe "hw_timers h"]
  by (simp add: gates_guarded_def hw_ok_def hw_count_def moes_def)

lemma hw_inv_quiet [simp]:
  "hw_inv n (h\<lparr>hw_tone_period := p\<rparr>) = hw_inv n h" "hw_inv n (h\<lparr>hw_demand_seq := q\<rparr>) = hw_inv n h"
  "hw_inv n (h\<lparr>hw_buzzer_pin := b\<rparr>) = hw_inv n h"
  unfolding hw_inv_def
  by (subst gates_guarded_cong [where h = h]; simp add: moes_def wired_def hw_count_def)+





section \<open>The arm row of the image\<close>

lemma rederived_count: "length (re_motor (rederive v boot bias)) = length boot"
  by (simp add: rederive_def)

text \<open>What an arm installs in a motor leaves the flags of its bring-up.\<close>

lemma install_view:
  assumes "length rs = hw_count h"
  defines "g \<equiv> install_rederived rs h"
  shows "hw_gates g = hw_gates h" "hw_timer_set g = hw_timer_set h" "hw_break_enabled g = hw_break_enabled h" "hw_timers g = hw_timers h"
    and "hw_words g = hw_words h" "hw_demand g = hw_demand h" "hw_armed g = hw_armed h" "hw_refused g = hw_refused h"
    and "hw_count g = hw_count h" "moes g = moes h" "hw_ok n g = hw_ok n h" "wired h \<Longrightarrow> wired g"
proof -
  have slot: "wired_slot (map_option (motor_install_rederived r) slot) w = wired_slot slot w" for r slot w
    by (cases slot) (simp_all add: wired_slot_def motor_install_rederived_def)
  show "hw_gates g = hw_gates h" "hw_timer_set g = hw_timer_set h" "hw_break_enabled g = hw_break_enabled h" "hw_timers g = hw_timers h"
    "hw_words g = hw_words h" "hw_demand g = hw_demand h" "hw_armed g = hw_armed h" "hw_refused g = hw_refused h"
    "hw_count g = hw_count h" "moes g = moes h" "hw_ok n g = hw_ok n h"
    using assms(1) by (simp_all add: g_def install_rederived_def hw_count_def moes_def hw_ok_def)
  show "wired g" if "wired h"
    using that assms(1) by (simp add: g_def install_rederived_def wired_def hw_count_def slot)
qed

lemma re_read_view:
  assumes "re_read_arm_values Q F st (s, h) = (s', h')"
  shows "hw_ok n h \<Longrightarrow> hw_ok n h' \<and> moes h' = moes h \<and> hw_gates h' = hw_gates h \<and> hw_armed h' = hw_armed h \<and>
      hw_refused h' = hw_refused h \<and> hw_demand h' = hw_demand h"
    and "wired h \<Longrightarrow> wired h'" "dc_ok n s \<Longrightarrow> dc_ok n s'" "os_mode (sl_orch s') = os_mode (sl_orch s)"
    and "reachable_board Q n (sl_orch s) \<Longrightarrow> reachable_board Q n (sl_orch s')"
proof -
  consider "st = None" "s' = s" "h' = h" | st' rs c i where "st = Some st'" "length rs = hw_count h" "h' = install_rederived rs h"
    "s' = s\<lparr>sl_dc_link := map (map_option dc_reset_derate) (sl_dc_link s), sl_imu := i, sl_orch := install_arm_control Q (sl_orch s) c\<rparr>"
  proof (cases st)
    case None
    then show ?thesis using assms that(1) by (simp add: re_read_arm_values_def)
  next
    case (Some st')
    let ?r = "rederive (read_arm_values F (hw_count h) st') (map (\<lambda>b. case b of Some b \<Rightarrow> b | None \<Rightarrow> boot_fixed_none) (boot_fixed_of h))
        (map_option (\<lambda>d. ic_gyro_bias (id_cfg d)) (sl_imu s))"
    have "length (re_motor ?r) = hw_count h" by (simp add: rederived_count boot_fixed_of_def hw_count_def)
    moreover have "h' = install_rederived (re_motor ?r) h"
      using assms unfolding re_read_arm_values_def Let_def Some prod.case option.case by simp
    moreover have "s' = s\<lparr>sl_dc_link := map (map_option dc_reset_derate) (sl_dc_link s), sl_imu := sl_imu s',
        sl_orch := install_arm_control Q (sl_orch s) (re_control ?r)\<rparr>"
      using assms by (auto simp: re_read_arm_values_def Let_def Some)
    ultimately show ?thesis using that(2) [OF Some] by blast
  qed
  note cases = this
  show "hw_ok n h \<Longrightarrow> hw_ok n h' \<and> moes h' = moes h \<and> hw_gates h' = hw_gates h \<and> hw_armed h' = hw_armed h \<and>
      hw_refused h' = hw_refused h \<and> hw_demand h' = hw_demand h"
    "wired h \<Longrightarrow> wired h'" "os_mode (sl_orch s') = os_mode (sl_orch s)"
    "reachable_board Q n (sl_orch s) \<Longrightarrow> reachable_board Q n (sl_orch s')"
    by (rule cases; simp add: install_view reach_row)+
  show "dc_ok n s \<Longrightarrow> dc_ok n s'"
    by (rule cases) (auto simp: dc_ok_def dc_reset_derate_def split: option.splits)
qed

interpretation arm_row: arm_re_read "re_read_arm_values Q F st" for Q F st
  by unfold_locales (rule re_read_view(1), assumption+, rule re_read_view(2), assumption+)


section \<open>The image's invariant\<close>








section \<open>The states of the image\<close>

text \<open>One of the break inputs trips: the timer drops its main output and raises its flag, by itself.\<close>

definition break_trips :: "nat \<Rightarrow> motor_hw \<Rightarrow> motor_hw" where
  "break_trips i h = h\<lparr>hw_timers := (hw_timers h)[i := (hw_timers h ! i)\<lparr>pw_moe := False, pw_break_flag := True\<rparr>]\<rparr>"

text \<open>A bring-up leaves the bridges closed, the words of the motors it configured, and their derates at full.\<close>

definition brought_up :: "nat \<Rightarrow> motor_hw \<Rightarrow> bool" where
  "brought_up n h \<longleftrightarrow>
     gates_guarded n h \<and> wired h \<and> \<not> hw_armed h \<and> \<not> hw_refused h \<and> (\<forall>d \<in> set (hw_demand h). d = 0) \<and>
     (\<forall>m. Some m \<in> set (hw_motors h) \<longrightarrow> (case bf_dc_link (mr_boot m) of None \<Rightarrow> True | Some dc \<Rightarrow> dl_factor dc \<le> DERATE_FULL))"

text \<open>Every history from the boot: passes of the two tasks, period interrupts between and inside them, received packets
  with any content, persisted configurations, the shell's own bookkeeping and break inputs, in any order and over any store.\<close>

inductive image_reach :: "('f, 'o) q_ops \<Rightarrow> ('b, 'e) i2c_ops \<Rightarrow> 's flash_ops \<Rightarrow> nat \<Rightarrow> ('f, 'o, 'b) shell \<Rightarrow> motor_hw \<Rightarrow> bool"
  for Q :: "('f, 'o) q_ops" and B :: "('b, 'e) i2c_ops" and F :: "'s flash_ops" and n :: nat where
  boot: "0 < n \<Longrightarrow> brought_up n h0 \<Longrightarrow>
     boot_values Q F st (init_shell Q n trim gains vcal bus dev asked pins bc chip cf mach warn leds rate, h0) = (s, h) \<Longrightarrow>
     image_reach Q B F n s h"
| isr: "image_reach Q B F n s h \<Longrightarrow> image_reach Q B F n s (period_isr e h)"
| control: "image_reach Q B F n s h \<Longrightarrow> control_pass Q B F st e (s, h, sch) = ((s', h', sch'), out) \<Longrightarrow> image_reach Q B F n s' h'"
| input: "image_reach Q B F n s h \<Longrightarrow> image_reach Q B F n (input_pass raw s) h"
| packet: "image_reach Q B F n s h \<Longrightarrow> loop_packet F port frame (r, st, sl_orch s) = Some ((r', st', u), frames) \<Longrightarrow>
     image_reach Q B F n (s\<lparr>sl_orch := u\<rparr>) h"
| persisted: "image_reach Q B F n s h \<Longrightarrow> on_config_persisted F st (r, sl_orch s) = (r', u) \<Longrightarrow> image_reach Q B F n (s\<lparr>sl_orch := u\<rparr>) h"
| facts: "image_reach Q B F n s h \<Longrightarrow> sample_facts (r, s) = ((r', s'), armed, rest) \<Longrightarrow> image_reach Q B F n s' h"
| emit: "image_reach Q B F n s h \<Longrightarrow> loop_emission addr s = (s', fr) \<Longrightarrow> image_reach Q B F n s' h"
| guest: "image_reach Q B F n s h \<Longrightarrow> image_reach Q B F n (s\<lparr>sl_guest := g\<rparr>) h"
| odometer: "image_reach Q B F n s h \<Longrightarrow> image_reach Q B F n (s\<lparr>sl_odometer_total := v\<rparr>) h"
| trips: "image_reach Q B F n s h \<Longrightarrow> image_reach Q B F n s (break_trips i h)"










text \<open>A one-motor image over an empty store and a bus that refuses, booted from a closed bridge.\<close>

definition demo_words :: motor_words where
  "demo_words =
     \<lparr>wd_trips = 0, wd_periods = 0, wd_edges = 0, wd_current = 0, wd_mean_duty = 0, wd_foc_phase = 0, wd_foc_dq = 0, wd_foc_ref = 0,
      wd_foc_hold = 0, wd_dc_link_sum = 0, wd_angle = 0, wd_speed = 0, wd_wheel_rate = 0, wd_pos_edges = 0, wd_invalid_dwell = 0,
      wd_fault = 0, wd_obs_state = 0, wd_duty01 = 0, wd_duty2_angle = 0\<rparr>"







text \<open>C3: What an arming pass may do to the gates. From any guarded state and over every schedule of interrupts: the decision opens
  no gate but those the outputs allow and the bring-up installed, and none while motor 0 is disallowed, a fault stands or
  the flag was off with the bring-up not done; a board that is armed and disallowed or at fault ends with every gate closed and every demand zero;
  an unarmed board whose period interrupt is dead ends with every gate closed and the flag off, whatever it was asked.\<close>

theorem enact_guards:
  assumes "gates_guarded n h" "length moe = n" "0 < n"
  shows "let h' = fst (snd (enact (re_read_arm_values Q F st) moe up fault (s, h, sch))) in
    (\<forall>i < n. pw_moe (hw_timers h' ! i) \<longrightarrow>
       hw_gates h ! i \<and> (pw_moe (hw_timers h ! i) \<or> moe ! i) \<and> hw_armed h' \<and> moe ! 0 \<and> \<not> fault \<and> (hw_armed h \<or> up)) \<and>
    (hw_armed h \<and> (fault \<or> \<not> moe ! 0) \<longrightarrow> \<not> hw_armed h' \<and> (\<forall>i < n. \<not> pw_moe (hw_timers h' ! i)) \<and> (\<forall>d \<in> set (hw_demand h'). d = 0)) \<and>
    (concat sch = [] \<and> \<not> hw_armed h \<longrightarrow> \<not> hw_armed h' \<and> (\<forall>i < n. \<not> pw_moe (hw_timers h' ! i)))"
proof -
  let ?h = "fst (snd (enact (re_read_arm_values Q F st) moe up fault (s, h, sch)))"
  note ev = arm_row.enact_view [OF assms, where Q = Q and F = F and st = st and s = s and brought_up = up and fault = fault and sch = sch]
  have ok: "hw_ok n h" "hw_ok n ?h" using assms(1) ev(1) by (simp_all add: gates_guarded_def)
  have m: "i < n \<Longrightarrow> moes h ! i = pw_moe (hw_timers h ! i)" "i < n \<Longrightarrow> moes ?h ! i = pw_moe (hw_timers ?h ! i)" for i
    using ok by (simp_all add: moes_def hw_ok_def)
  have down: "?h = fst (run_shutdown (h, sch))" if "hw_armed h" "fault \<or> \<not> moe ! 0"
    using that by (auto simp: enact_def arm_decide_def)
  have "hw_armed h \<and> (fault \<or> \<not> moe ! 0) \<longrightarrow> \<not> hw_armed ?h \<and> (\<forall>i < n. \<not> moes ?h ! i) \<and> (\<forall>d \<in> set (hw_demand ?h). d = 0)"
    using down shutdown_view [of n "(h, sch)"] ok(1) by auto
  moreover have "\<forall>i < n. moes ?h ! i \<longrightarrow> hw_armed ?h" using ev(1) by (simp add: gates_guarded_def)
  moreover have "\<forall>es \<in> set sch. es = []" if "concat sch = []" using that by simp
  ultimately have
    "\<forall>i < n. moes ?h ! i \<longrightarrow> hw_gates h ! i \<and> (moes h ! i \<or> moe ! i) \<and> hw_armed ?h \<and> moe ! 0 \<and> \<not> fault \<and> (hw_armed h \<or> up)"
    "hw_armed h \<and> (fault \<or> \<not> moe ! 0) \<longrightarrow> \<not> hw_armed ?h \<and> (\<forall>i < n. \<not> moes ?h ! i) \<and> (\<forall>d \<in> set (hw_demand ?h). d = 0)"
    "concat sch = [] \<and> \<not> hw_armed h \<longrightarrow> \<not> hw_armed ?h \<and> (\<forall>i < n. \<not> moes ?h ! i)"
    using ev(4,5,8) by blast+
  then show ?thesis unfolding Let_def using m by blast
qed

lemma enact_guards_witness:
  "\<forall>s :: (int, int, unit) shell. \<not> pw_moe (hw_timers (fst (snd (enact (re_read_arm_values demo_q MockFlash None) [True] True True
      (s, demo_hw 1 demo_words, [])))) ! 0)"
proof -
  have g: "gates_guarded 1 (demo_hw 1 demo_words)"
    by (simp add: gates_guarded_def demo_hw_ok) (simp add: demo_hw_def)
  have "hw_armed (demo_hw 1 demo_words)" by (simp add: demo_hw_def)
  then show ?thesis
    using enact_guards [OF g, of "[True]" demo_q MockFlash None True True _ "[]"] unfolding Let_def
    by (metis One_nat_def length_Cons list.size(3) zero_less_one)
qed

end
